(* ===== verification/Prelude.thy ===== *)
theory Prelude
  imports Complex_Main "HOL-Library.Monad_Syntax" "HOL-Library.Sublist"
begin

text \<open>
  What the components share: the named collections the proofs draw on, and the
  generic facts on lists, options and loops that the library does not state in
  the form they are used here.

  Every call that leaves a component (an emitted signal, a call to an object the
  sources only know by its interface) is a function of the state that returns an
  option: None is a run the C++ leaves undefined (a null pointer or an unset
  optional is read) or one that never returns.
\<close>

named_theorems calls "what the calls of a component keep"
named_theorems frame "the updates an invariant does not mind"

section \<open>Runs\<close>

type_synonym 's step = "'s \<Rightarrow> 's option"

text \<open>A run that returns, returns something Q; \<^term>\<open>ends\<close> adds that it does return.\<close>

definition holds :: "('a \<Rightarrow> bool) \<Rightarrow> 'a option \<Rightarrow> bool" where
  "holds Q m \<longleftrightarrow> (\<forall>x. m = Some x \<longrightarrow> Q x)"

definition ends :: "('a \<Rightarrow> bool) \<Rightarrow> 'a option \<Rightarrow> bool" where
  "ends Q m \<longleftrightarrow> (\<exists>x. m = Some x \<and> Q x)"

lemma holds_Some [simp]: "holds Q (Some x) \<longleftrightarrow> Q x"
  by (simp add: holds_def)

lemma holds_None [simp]: "holds Q None"
  by (simp add: holds_def)

lemma holds_bind [simp]: "holds Q (m \<bind> f) \<longleftrightarrow> holds (\<lambda>x. holds Q (f x)) m"
  by (cases m) (simp_all add: holds_def)

lemma holdsI: "(\<And>x. m = Some x \<Longrightarrow> Q x) \<Longrightarrow> holds Q m"
  by (simp add: holds_def)

lemma holds_any: "(\<And>x. Q x) \<Longrightarrow> holds Q m"
  by (simp add: holds_def)

lemma holdsD: "holds Q m \<Longrightarrow> m = Some x \<Longrightarrow> Q x"
  by (simp add: holds_def)

lemma holds_mono: "holds P m \<Longrightarrow> (\<And>x. P x \<Longrightarrow> Q x) \<Longrightarrow> holds Q m"
  by (auto simp: holds_def)

lemma ends_Some [simp]: "ends Q (Some x) \<longleftrightarrow> Q x"
  by (simp add: ends_def)

lemma ends_None [simp]: "\<not> ends Q None"
  by (simp add: ends_def)

lemma ends_bind [simp]: "ends Q (m \<bind> f) \<longleftrightarrow> ends (\<lambda>x. ends Q (f x)) m"
  by (cases m) (simp_all add: ends_def)

lemma ends_mono: "ends P m \<Longrightarrow> (\<And>x. P x \<Longrightarrow> Q x) \<Longrightarrow> ends Q m"
  by (auto simp: ends_def)

lemma ends_holds: "ends Q m \<Longrightarrow> holds Q m"
  by (auto simp: ends_def holds_def)

definition preserves :: "('s \<Rightarrow> bool) \<Rightarrow> 's step \<Rightarrow> bool" where
  "preserves I f \<longleftrightarrow> (\<forall>s. I s \<longrightarrow> holds I (f s))"

text \<open>A call that also returns a value.\<close>

definition preserves2 :: "('s \<Rightarrow> bool) \<Rightarrow> ('s \<Rightarrow> ('v \<times> 's) option) \<Rightarrow> bool" where
  "preserves2 I f \<longleftrightarrow> (\<forall>s. I s \<longrightarrow> holds (\<lambda>(v, s'). I s') (f s))"

lemma preservesI [intro?]: "(\<And>s. I s \<Longrightarrow> holds I (f s)) \<Longrightarrow> preserves I f"
  by (simp add: preserves_def)

lemma preserves_holds: "preserves I f \<Longrightarrow> I s \<Longrightarrow> holds I (f s)"
  by (simp add: preserves_def)

lemma preserves2I [intro?]: "(\<And>s. I s \<Longrightarrow> holds (\<lambda>(v, s'). I s') (f s)) \<Longrightarrow> preserves2 I f"
  by (simp add: preserves2_def)

lemma preserves2_holds: "preserves2 I f \<Longrightarrow> I s \<Longrightarrow> holds (\<lambda>(v, s'). I s') (f s)"
  by (simp add: preserves2_def)

text \<open>
  How a proof goes through a call: the call keeps I, and what follows it does
  what is asked from any state that satisfies I.
\<close>

lemma holds_call: "preserves I f \<Longrightarrow> I s \<Longrightarrow> (\<And>s'. I s' \<Longrightarrow> Q s') \<Longrightarrow> holds Q (f s)"
  by (auto simp: preserves_def holds_def)

lemma holds_call2: "preserves2 I f \<Longrightarrow> I s \<Longrightarrow> (\<And>v s'. I s' \<Longrightarrow> Q (v, s')) \<Longrightarrow> holds Q (f s)"
  by (auto simp: preserves2_def holds_def)

lemma preserves_Some [simp]: "preserves I Some"
  by (simp add: preserves_def)

lemma preserves_bind: "preserves I f \<Longrightarrow> preserves I g \<Longrightarrow> preserves I (\<lambda>s. f s \<bind> g)"
  by (auto simp: preserves_def intro: holds_mono)

section \<open>Lists\<close>

lemma take_drop_append: "take n xs @ drop n xs @ ys = xs @ ys"
  by (metis append.assoc append_take_drop_id)

lemma distinct_filter_mem: "distinct xs \<Longrightarrow> distinct (filter P xs)"
  by simp

lemma nth_drop_Cons: "n < length xs \<Longrightarrow> drop n xs = xs ! n # drop (Suc n) xs"
  by (simp add: Cons_nth_drop_Suc)

end
