(* ===== verification/QtText.thy ===== *)
theory QtText
  imports Prelude
begin

text \<open>
  The part of Qt's text API the modelled sources call. A QString is the list of
  its code units. What a character is (white space, a letter or a digit) and how
  a text folds its case is Qt's, so it is the record \<^term>\<open>chars\<close> that every
  text routine takes; the routines Qt documents in terms of QChar::isSpace are
  written out over it.
\<close>

type_synonym qstring = string

record qchars =
  is_space :: "char \<Rightarrow> bool"
  is_letter_or_number :: "char \<Rightarrow> bool"
  case_folded :: "qstring \<Rightarrow> qstring"
  lower :: "qstring \<Rightarrow> qstring"
  fold_char :: "char \<Rightarrow> char"
  is_low_surrogate :: "char \<Rightarrow> bool"
  is_high_surrogate :: "char \<Rightarrow> bool"

text \<open>The characters of ASCII, the instance the examples are evaluated with.\<close>

definition ascii_space :: "char \<Rightarrow> bool" where
  "ascii_space c \<longleftrightarrow> of_char c = (32::nat) \<or> (9 \<le> (of_char c :: nat) \<and> of_char c \<le> (13::nat))"

definition ascii_alnum :: "char \<Rightarrow> bool" where
  "ascii_alnum c \<longleftrightarrow> (let n = (of_char c :: nat) in
     (48 \<le> n \<and> n \<le> 57) \<or> (65 \<le> n \<and> n \<le> 90) \<or> (97 \<le> n \<and> n \<le> 122))"

text \<open>The class [A-Za-z0-9_] and the digits of the regular expressions: ASCII.\<close>

definition word_char :: "char \<Rightarrow> bool" where
  "word_char c \<longleftrightarrow> ascii_alnum c \<or> c = CHR ''_''"

definition digit_char :: "char \<Rightarrow> bool" where
  "digit_char c \<longleftrightarrow> (48::nat) \<le> of_char c \<and> of_char c \<le> (57::nat)"

definition ascii_lower_char :: "char \<Rightarrow> char" where
  "ascii_lower_char c = (let n = (of_char c :: nat) in
     if 65 \<le> n \<and> n \<le> 90 then char_of (n + 32) else c)"

definition ascii :: qchars where
  "ascii = \<lparr>is_space = ascii_space, is_letter_or_number = ascii_alnum,
            case_folded = map ascii_lower_char, lower = map ascii_lower_char,
            fold_char = ascii_lower_char, is_low_surrogate = (\<lambda>_. False), is_high_surrogate = (\<lambda>_. False)\<rparr>"

lemma ascii_sel [simp]:
  "is_space ascii = ascii_space" "is_letter_or_number ascii = ascii_alnum"
  "case_folded ascii = map ascii_lower_char" "lower ascii = map ascii_lower_char"
  "fold_char ascii = ascii_lower_char" "\<not> is_low_surrogate ascii c" "\<not> is_high_surrogate ascii c"
  by (simp_all add: ascii_def)

section \<open>White space\<close>

definition trimmed :: "qchars \<Rightarrow> qstring \<Rightarrow> qstring" where
  "trimmed q s = rev (dropWhile (is_space q) (rev (dropWhile (is_space q) s)))"

lemma trimmed_idem [simp]: "trimmed q (trimmed q s) = trimmed q s"
proof -
  have drop: "dropWhile P (rev (dropWhile P (rev (dropWhile P xs)))) = rev (dropWhile P (rev (dropWhile P xs)))"
    for P :: "char \<Rightarrow> bool" and xs
  proof (cases "dropWhile P xs")
    case (Cons a ys)
    hence a: "\<not> P a" by (metis hd_dropWhile list.distinct(1) list.sel(1))
    hence "dropWhile P (rev ys @ [a]) = dropWhile P (rev ys) @ [a]" by (induction "rev ys") (auto simp: dropWhile_append3)
    thus ?thesis using Cons a by simp
  next
    case Nil
    thus ?thesis unfolding Nil by simp
  qed
  show ?thesis by (simp add: trimmed_def drop)
qed

text \<open>The maximal runs of characters that are not white space.\<close>

fun words_of :: "(char \<Rightarrow> bool) \<Rightarrow> qstring \<Rightarrow> qstring list" where
  "words_of sp [] = []"
| "words_of sp (c # cs) =
     (if sp c then words_of sp cs
      else case cs of
        [] \<Rightarrow> [[c]]
      | d # _ \<Rightarrow> if sp d then [c] # words_of sp cs
          else (case words_of sp cs of [] \<Rightarrow> [[c]] | w # ws \<Rightarrow> (c # w) # ws))"

text \<open>QStringList::join.\<close>

fun join :: "qstring \<Rightarrow> qstring list \<Rightarrow> qstring" where
  "join sep [] = []"
| "join sep [x] = x"
| "join sep (x # y # ys) = x @ sep @ join sep (y # ys)"

definition simplified :: "qchars \<Rightarrow> qstring \<Rightarrow> qstring" where
  "simplified q s = join '' '' (words_of (is_space q) s)"

definition blank :: "qchars \<Rightarrow> qstring \<Rightarrow> bool" where
  "blank q s \<longleftrightarrow> trimmed q s = []"

lemma trimmed_Nil [simp]: "trimmed q [] = []"
  by (simp add: trimmed_def)

lemma simplified_Nil [simp]: "simplified q [] = []"
  by (simp add: simplified_def)

lemma blank_iff: "blank q s \<longleftrightarrow> list_all (is_space q) s"
proof -
  have "dropWhile P (rev (dropWhile P s)) = [] \<longleftrightarrow> list_all P s" for P :: "char \<Rightarrow> bool"
    by (induction s) (auto simp: dropWhile_eq_Nil_conv list_all_iff)
  thus ?thesis by (simp add: blank_def trimmed_def)
qed

lemma trimmed_eq_Nil: "trimmed q s = [] \<longleftrightarrow> list_all (is_space q) s"
  using blank_iff by (simp add: blank_def)

lemma words_of_space: "sp c \<Longrightarrow> words_of sp (c # cs) = words_of sp cs"
  by simp

lemma words_of_nonspace: "\<not> sp c \<Longrightarrow> words_of sp (c # cs) \<noteq> []"
  by (auto split: list.split)

lemma words_of_start:
  "\<not> sp c \<Longrightarrow> cs = [] \<or> sp (hd cs) \<Longrightarrow> words_of sp (c # cs) = [c] # words_of sp cs"
  by (cases cs) auto

lemma words_of_extend:
  "\<not> sp c \<Longrightarrow> cs \<noteq> [] \<Longrightarrow> \<not> sp (hd cs) \<Longrightarrow>
   words_of sp (c # cs) = (c # hd (words_of sp cs)) # tl (words_of sp cs)"
  using words_of_nonspace[of sp "hd cs" "tl cs"] by (cases cs) (auto split: list.splits)

lemmas words_of_Cons = words_of_space words_of_start words_of_extend

lemma words_of_eq_Nil: "words_of sp s = [] \<longleftrightarrow> list_all sp s"
proof (induction s)
  case (Cons c cs)
  thus ?case using words_of_space[of sp c cs] words_of_nonspace[of sp c cs] by (cases "sp c") auto
qed simp

lemma words_of_word:
  "w \<in> set (words_of sp s) \<Longrightarrow> w \<noteq> [] \<and> list_all (\<lambda>c. \<not> sp c) w"
proof (induction sp s arbitrary: w rule: words_of.induct)
  case (2 sp c cs)
  show ?case
  proof (cases "sp c \<or> cs = [] \<or> sp (hd cs)")
    case True
    thus ?thesis using 2 by (cases cs) (auto split: if_splits)
  next
    case False
    then obtain d ds where cs: "cs = d # ds" by (cases cs) auto
    show ?thesis
    proof (cases "words_of sp cs")
      case Nil
      thus ?thesis using 2 False cs by auto
    next
      case (Cons v vs)
      thus ?thesis using 2(3)[of d ds v] 2(3)[of d ds w] 2(4) False cs by auto
    qed
  qed
qed simp

lemma words_of_append_space:
  assumes "list_all (\<lambda>c. \<not> sp c) w" "w \<noteq> []" "s = [] \<or> sp (hd s)"
  shows "words_of sp (w @ s) = w # words_of sp s"
  using assms
proof (induction w)
  case (Cons c w)
  show ?case
  proof (cases w)
    case Nil
    thus ?thesis using Cons.prems by (cases s) auto
  next
    case (Cons d ds)
    hence "words_of sp (w @ s) = w # words_of sp s"
      using Cons.IH Cons.prems by simp
    thus ?thesis using Cons Cons.prems by simp
  qed
qed simp

lemma words_of_join:
  assumes "sp CHR '' ''" "\<forall>w\<in>set ws. w \<noteq> [] \<and> list_all (\<lambda>c. \<not> sp c) w"
  shows "words_of sp (join '' '' ws) = ws"
  using assms(2)
proof (induction "'' ''" ws rule: join.induct)
  case (2 x)
  thus ?case using words_of_append_space[of sp x "[]"] by simp
next
  case (3 x y ys)
  thus ?case using words_of_append_space[of sp x "CHR '' '' # join '' '' (y # ys)"] assms(1) by simp
qed simp

lemma words_of_simplified:
  "is_space q CHR '' '' \<Longrightarrow> words_of (is_space q) (simplified q s) = words_of (is_space q) s"
  unfolding simplified_def by (rule words_of_join) (auto dest: words_of_word)

lemma simplified_idem:
  "is_space q CHR '' '' \<Longrightarrow> simplified q (simplified q s) = simplified q s"
  by (simp add: simplified_def words_of_join words_of_word)

lemma join_eq_Nil: "join sep ws = [] \<longleftrightarrow> ws = [] \<or> ws = [[]] \<or> (sep = [] \<and> list_all (\<lambda>w. w = []) ws)"
  by (induction sep ws rule: join.induct) auto

lemma simplified_eq_Nil [simp]: "simplified q s = [] \<longleftrightarrow> blank q s"
proof -
  have "words_of (is_space q) s \<noteq> [[]]"
    using words_of_word[of "[]" "is_space q" s] by force
  thus ?thesis by (auto simp: simplified_def join_eq_Nil blank_iff words_of_eq_Nil)
qed

lemma words_of_trim_left: "words_of sp (dropWhile sp s) = words_of sp s"
  by (induction s) auto

lemma words_of_append_blank: "list_all sp t \<Longrightarrow> words_of sp (s @ t) = words_of sp s"
proof (induction sp s rule: words_of.induct)
  case (1 sp)
  thus ?case by (simp add: words_of_eq_Nil)
next
  case (2 sp c cs)
  thus ?case by (cases cs; cases t) (auto simp: words_of_eq_Nil split: list.splits)
qed

lemma words_of_trimmed [simp]: "words_of (is_space q) (trimmed q s) = words_of (is_space q) s"
proof -
  let ?P = "is_space q" and ?t = "dropWhile (is_space q) s"
  have split: "?t = trimmed q s @ rev (takeWhile ?P (rev ?t))"
    unfolding trimmed_def by (metis rev_append rev_rev_ident takeWhile_dropWhile_id)
  have "list_all ?P (rev (takeWhile ?P (rev ?t)))"
    by (auto simp: list_all_iff dest: set_takeWhileD)
  hence "words_of ?P ?t = words_of ?P (trimmed q s)"
    by (subst split) (rule words_of_append_blank)
  thus ?thesis by (simp add: words_of_trim_left)
qed

lemma simplified_trimmed [simp]: "simplified q (trimmed q s) = simplified q s"
  by (simp add: simplified_def)

lemma blank_trimmed [simp]: "blank q (trimmed q s) \<longleftrightarrow> blank q s"
  using simplified_trimmed by (metis simplified_eq_Nil)

lemma words_of_sep:
  "sp c \<Longrightarrow> words_of sp (s @ c # t) = words_of sp s @ words_of sp t"
proof (induction s)
  case (Cons d ds)
  hence IH: "words_of sp (ds @ c # t) = words_of sp ds @ words_of sp t" by simp
  consider "sp d" | "\<not> sp d" "ds = [] \<or> sp (hd ds)" | "\<not> sp d" "ds \<noteq> []" "\<not> sp (hd ds)" by blast
  thus ?case
  proof cases
    case 2
    hence "ds @ c # t = [] \<or> sp (hd (ds @ c # t))" using Cons.prems by (cases ds) auto
    thus ?thesis using 2 IH by (simp add: words_of_start del: words_of.simps(2))
  next
    case 3
    hence "words_of sp ds \<noteq> []" using words_of_eq_Nil[of sp ds] by (cases ds) (auto simp del: words_of.simps(2))
    thus ?thesis using 3 IH by (simp add: words_of_extend hd_append del: words_of.simps(2))
  qed (use IH in \<open>simp add: words_of_space del: words_of.simps(2)\<close>)
qed (simp add: words_of_space)

declare words_of.simps(2) [simp del]

section \<open>Splitting, searching\<close>

text \<open>QString::split by one character, which keeps empty parts.\<close>

fun split_on :: "char \<Rightarrow> qstring \<Rightarrow> qstring list" where
  "split_on c [] = [[]]"
| "split_on c (x # xs) =
     (if x = c then [] # split_on c xs
      else (case split_on c xs of [] \<Rightarrow> [[x]] | w # ws \<Rightarrow> (x # w) # ws))"

lemma split_on_not_Nil [simp]: "split_on c s \<noteq> []"
  by (induction s) (auto split: list.splits)

lemma join_Cons: "ws \<noteq> [] \<Longrightarrow> join sep (w # ws) = w @ sep @ join sep ws"
  by (cases ws) auto

lemma join_first: "join sep ((x # w) # ws) = x # join sep (w # ws)"
  by (cases ws) auto

lemma join_split_on [simp]: "join [c] (split_on c s) = s"
proof (induction s)
  case (Cons x xs)
  obtain w ws where "split_on c xs = w # ws" by (cases "split_on c xs") auto
  thus ?case using Cons by (auto simp: join_Cons join_first)
qed simp

definition starts_with :: "qstring \<Rightarrow> qstring \<Rightarrow> bool" where
  "starts_with s p \<longleftrightarrow> take (length p) s = p"

definition ends_with :: "qstring \<Rightarrow> qstring \<Rightarrow> bool" where
  "ends_with s p \<longleftrightarrow> starts_with (rev s) (rev p)"

lemma starts_with_prefix: "starts_with s p \<longleftrightarrow> prefix p s"
  unfolding starts_with_def by (metis append_eq_conv_conj prefix_def)

fun contains_text :: "qstring \<Rightarrow> qstring \<Rightarrow> bool" where
  "contains_text [] p \<longleftrightarrow> p = []"
| "contains_text (c # cs) p \<longleftrightarrow> starts_with (c # cs) p \<or> contains_text cs p"

lemma contains_text_sublist: "contains_text s p \<longleftrightarrow> (\<exists>a b. s = a @ p @ b)"
proof (induction s)
  case (Cons c cs)
  have "(\<exists>a b. c # cs = a @ p @ b) \<longleftrightarrow> prefix p (c # cs) \<or> (\<exists>a b. cs = a @ p @ b)"
    by (auto simp: prefix_def Cons_eq_append_conv)
  thus ?case using Cons by (simp add: starts_with_prefix)
qed auto

section \<open>Parts of a text, and comparing without case\<close>

text \<open>QString::left, right and mid with a count: an argument outside the text is what Qt makes of it.\<close>

definition q_left :: "int \<Rightarrow> qstring \<Rightarrow> qstring" where
  "q_left n s = (if n < 0 then s else take (nat n) s)"

definition q_right :: "int \<Rightarrow> qstring \<Rightarrow> qstring" where
  "q_right n s = (if n < 0 then s else drop (length s - nat n) s)"

definition q_mid :: "int \<Rightarrow> nat \<Rightarrow> qstring \<Rightarrow> qstring" where
  "q_mid pos n s = (if pos < 0 then take (nat (int n + pos)) s else take n (drop (nat pos) s))"

lemma length_q_right: "0 \<le> n \<Longrightarrow> length (q_right n s) \<le> nat n"
  by (simp add: q_right_def)

lemma length_q_mid: "length (q_mid pos n s) \<le> n"
  by (auto simp: q_mid_def)

text \<open>
  Comparing with Qt::CaseInsensitive folds each character by itself
  (QChar::toCaseFolded), which a text's own toCaseFolded need not.
\<close>

definition folded :: "qchars \<Rightarrow> qstring \<Rightarrow> qstring" where
  "folded q s = map (fold_char q) s"

definition same_caseless :: "qchars \<Rightarrow> qstring \<Rightarrow> qstring \<Rightarrow> bool" where
  "same_caseless q a b \<longleftrightarrow> folded q a = folded q b"

definition contains_caseless :: "qchars \<Rightarrow> qstring \<Rightarrow> qstring \<Rightarrow> bool" where
  "contains_caseless q s p \<longleftrightarrow> contains_text (folded q s) (folded q p)"

lemma same_caseless_refl [simp]: "same_caseless q a a"
  by (simp add: same_caseless_def)

lemma same_caseless_sym: "same_caseless q a b \<longleftrightarrow> same_caseless q b a"
  by (auto simp: same_caseless_def)

lemma same_caseless_trans: "same_caseless q a b \<Longrightarrow> same_caseless q b c \<Longrightarrow> same_caseless q a c"
  by (simp add: same_caseless_def)

text \<open>The letters and digits of a text, each case folded: how several sources compare texts.\<close>

definition compact :: "qchars \<Rightarrow> qstring \<Rightarrow> qstring" where
  "compact q s = map (fold_char q) (filter (is_letter_or_number q) s)"

lemma compact_append [simp]: "compact q (a @ b) = compact q a @ compact q b"
  by (simp add: compact_def)

section \<open>Replacing and splitting\<close>

text \<open>QString::replace and QString::split with a text to look for, from the left, matches not overlapping.\<close>

function replace_all :: "qstring \<Rightarrow> qstring \<Rightarrow> qstring \<Rightarrow> qstring" where
  "replace_all pat new [] = []"
| "replace_all pat new (c # cs) =
     (if pat \<noteq> [] \<and> starts_with (c # cs) pat then new @ replace_all pat new (drop (length pat - 1) cs)
      else c # replace_all pat new cs)"
  by pat_completeness auto
termination by (relation "measure (\<lambda>(_, _, s). length s)") auto

function split_text_from :: "qstring \<Rightarrow> qstring \<Rightarrow> qstring \<Rightarrow> qstring list" where
  "split_text_from sep acc [] = [acc]"
| "split_text_from sep acc (c # cs) =
     (if sep \<noteq> [] \<and> starts_with (c # cs) sep then acc # split_text_from sep [] (drop (length sep - 1) cs)
      else split_text_from sep (acc @ [c]) cs)"
  by pat_completeness auto
termination by (relation "measure (\<lambda>(_, _, s). length s)") auto

definition split_text :: "qstring \<Rightarrow> qstring \<Rightarrow> qstring list" where
  "split_text sep s = split_text_from sep [] s"

text \<open>QString::number.\<close>

fun decimal :: "nat \<Rightarrow> qstring" where
  "decimal n = (if n < 10 then [char_of (48 + n)] else decimal (n div 10) @ [char_of (48 + n mod 10)])"

declare decimal.simps [simp del]

section \<open>Characters beyond HOL's\<close>

text \<open>The literals of the sources that HOL's characters do not hold.\<close>

record glyphs =
  gl_ellipsis :: qstring
  gl_bullet :: qstring
  gl_open_quote :: qstring
  gl_close_quote :: qstring

definition ascii_glyphs :: glyphs where
  "ascii_glyphs = \<lparr>gl_ellipsis = ''...'', gl_bullet = ''*'', gl_open_quote = [CHR 0x22], gl_close_quote = [CHR 0x22]\<rparr>"

end
