(* ===== verification/Providers.thy ===== *)
theory Providers
  imports QtText
begin

text \<open>
  The providers and their order: core/ProviderTable.cpp (the table of built-in
  providers), core/ProviderChain.cpp (the chains of a role), ProviderFailure.h
  and ProviderAttemptIssue.h (why a provider did not do its part) and
  core/ProviderAttemptIssueText.cpp (how a person is told).
\<close>

section \<open>The table\<close>

datatype provider_role = Speech | Refinement

datatype provider_id = Claude | Codex | OpenAi | Anthropic | LocalProvider | Endpoint

record provider_info =
  pi_id :: provider_id
  pi_key :: qstring
  pi_speech :: bool
  pi_refinement :: bool
  pi_account :: "qstring option"

definition k_providers :: "provider_info list" where
  "k_providers =
    [\<lparr>pi_id = Claude, pi_key = ''claude'', pi_speech = True, pi_refinement = False, pi_account = Some ''Claude''\<rparr>,
     \<lparr>pi_id = Codex, pi_key = ''codex'', pi_speech = True, pi_refinement = False, pi_account = Some ''ChatGPT''\<rparr>,
     \<lparr>pi_id = OpenAi, pi_key = ''openai'', pi_speech = False, pi_refinement = True, pi_account = Some ''ChatGPT''\<rparr>,
     \<lparr>pi_id = Anthropic, pi_key = ''anthropic'', pi_speech = False, pi_refinement = True, pi_account = Some ''Claude''\<rparr>,
     \<lparr>pi_id = LocalProvider, pi_key = ''local'', pi_speech = True, pi_refinement = True, pi_account = None\<rparr>,
     \<lparr>pi_id = Endpoint, pi_key = ''endpoint'', pi_speech = True, pi_refinement = True, pi_account = None\<rparr>]"

definition k_no_refinement_provider :: qstring where
  "k_no_refinement_provider = ''none''"

text \<open>info(): every id has a row of the table, so the find never reaches its end.\<close>

definition provider_info_of :: "provider_id \<Rightarrow> provider_info" where
  "provider_info_of p = the (find (\<lambda>i. pi_id i = p) k_providers)"

definition parse_provider_id :: "qstring \<Rightarrow> provider_id option" where
  "parse_provider_id key = map_option pi_id (find (\<lambda>i. key = pi_key i) k_providers)"

definition provider_key :: "provider_id \<Rightarrow> qstring" where
  "provider_key p = pi_key (provider_info_of p)"

definition provider_serves :: "provider_id \<Rightarrow> provider_role \<Rightarrow> bool" where
  "provider_serves p r = (if r = Speech then pi_speech (provider_info_of p)
                          else pi_refinement (provider_info_of p))"

text \<open>A QLatin1String of a null pointer is the empty string.\<close>

definition provider_account_name :: "provider_id \<Rightarrow> qstring" where
  "provider_account_name p = (case pi_account (provider_info_of p) of None \<Rightarrow> [] | Some a \<Rightarrow> a)"

lemma find_provider: "find (\<lambda>i. pi_id i = p) k_providers \<noteq> None"
  by (cases p) (simp_all add: k_providers_def)

lemma parse_provider_key [simp]: "parse_provider_id (provider_key p) = Some p"
  by (cases p) (simp_all add: parse_provider_id_def provider_key_def provider_info_of_def k_providers_def)

lemma provider_key_of_parse: "parse_provider_id key = Some p \<Longrightarrow> provider_key p = key"
  by (auto simp: parse_provider_id_def provider_key_def provider_info_of_def k_providers_def
      split: if_splits)

lemma provider_key_inj [simp]: "provider_key a = provider_key b \<longleftrightarrow> a = b"
  by (metis option.inject parse_provider_key)

lemma parse_none [simp]: "parse_provider_id k_no_refinement_provider = None"
  by (simp add: parse_provider_id_def k_no_refinement_provider_def k_providers_def)

section \<open>Chains\<close>

type_synonym provider_labels = "provider_role \<Rightarrow> qstring \<Rightarrow> qstring"

definition k_max_fallback_providers :: nat where
  "k_max_fallback_providers = 2"

definition is_chain_provider_id :: "provider_role \<Rightarrow> qstring \<Rightarrow> bool" where
  "is_chain_provider_id r i =
     (case parse_provider_id i of None \<Rightarrow> False | Some p \<Rightarrow> provider_serves p r)"

fun keep_fallbacks :: "provider_role \<Rightarrow> qstring \<Rightarrow> qstring list \<Rightarrow> qstring list \<Rightarrow> qstring list" where
  "keep_fallbacks r primary kept [] = kept"
| "keep_fallbacks r primary kept (i # is) =
     (if length kept = k_max_fallback_providers then kept
      else if i \<noteq> primary \<and> i \<notin> set kept \<and> is_chain_provider_id r i
      then keep_fallbacks r primary (kept @ [i]) is
      else keep_fallbacks r primary kept is)"

definition normalized_fallback_providers ::
  "provider_role \<Rightarrow> qstring \<Rightarrow> qstring list \<Rightarrow> qstring list" where
  "normalized_fallback_providers r primary fallbacks =
     (if r = Refinement \<and> primary = k_no_refinement_provider then []
      else keep_fallbacks r primary [] fallbacks)"

fun extend_chain :: "provider_role \<Rightarrow> qstring list \<Rightarrow> qstring list \<Rightarrow> qstring list" where
  "extend_chain r chain [] = chain"
| "extend_chain r chain (i # is) =
     extend_chain r (if i \<notin> set chain \<and> is_chain_provider_id r i then chain @ [i] else chain) is"

definition provider_chain :: "provider_role \<Rightarrow> qstring \<Rightarrow> qstring list \<Rightarrow> qstring list" where
  "provider_chain r primary fallbacks =
     (if r = Refinement \<and> primary = k_no_refinement_provider then []
      else extend_chain r [primary] fallbacks)"

definition fallbacks_ok :: "provider_role \<Rightarrow> qstring \<Rightarrow> qstring list \<Rightarrow> bool" where
  "fallbacks_ok r primary ks \<longleftrightarrow> length ks \<le> k_max_fallback_providers \<and> distinct ks
     \<and> (\<forall>i\<in>set ks. i \<noteq> primary \<and> is_chain_provider_id r i)"

lemma fallbacks_ok_Nil [simp]: "fallbacks_ok r p []"
  by (simp add: fallbacks_ok_def)

lemma fallbacks_ok_snoc:
  "fallbacks_ok r p ks \<Longrightarrow> length ks \<noteq> k_max_fallback_providers \<Longrightarrow> i \<noteq> p \<Longrightarrow> i \<notin> set ks \<Longrightarrow>
   is_chain_provider_id r i \<Longrightarrow> fallbacks_ok r p (ks @ [i])"
  by (simp add: fallbacks_ok_def)

lemma keep_fallbacks_ok: "fallbacks_ok r p ks \<Longrightarrow> fallbacks_ok r p (keep_fallbacks r p ks is)"
  by (induction r p ks "is" rule: keep_fallbacks.induct) (simp_all add: fallbacks_ok_snoc)

lemma keep_fallbacks_idem:
  assumes "distinct (kept @ is)" "\<forall>i\<in>set is. i \<noteq> p \<and> is_chain_provider_id r i"
    "length (kept @ is) \<le> k_max_fallback_providers"
  shows "keep_fallbacks r p kept is = kept @ is"
  using assms
proof (induction "is" arbitrary: kept)
  case (Cons i "is")
  thus ?case using Cons.IH[of "kept @ [i]"] by auto
qed simp

lemma extend_chain_append:
  assumes "distinct (chain @ is)" "\<forall>i\<in>set is. is_chain_provider_id r i"
  shows "extend_chain r chain is = chain @ is"
  using assms
proof (induction "is" arbitrary: chain)
  case (Cons i "is")
  thus ?case using Cons.IH[of "chain @ [i]"] by auto
qed simp

lemma distinct_extend_chain: "distinct chain \<Longrightarrow> distinct (extend_chain r chain is)"
  by (induction r chain "is" rule: extend_chain.induct) simp_all

lemma prefix_extend_chain: "prefix chain (extend_chain r chain is)"
proof (induction r chain "is" rule: extend_chain.induct)
  case (2 r chain i "is")
  thus ?case by (auto simp: prefix_def split: if_splits)
qed simp

lemma set_extend_chain:
  "set (extend_chain r chain is) = set chain \<union> {i\<in>set is. is_chain_provider_id r i}"
  by (induction r chain "is" rule: extend_chain.induct) auto

lemma distinct_provider_chain: "distinct (provider_chain r p fs)"
  by (simp add: provider_chain_def distinct_extend_chain)

section \<open>Failures and issues\<close>

datatype failure_kind = OtherFailure | Unavailable | Authentication | Network | Timeout | Server
  | RateLimited | InvalidResult | Cancelled

datatype speech_phase = PhaseLoad | PhaseConnect | PhaseStreaming | PhaseFinalize
  | PhaseAuthentication | PhaseProtocol

record provider_failure =
  pf_kind :: failure_kind
  pf_message :: qstring
  pf_http_status :: int

definition permits_provider_fallback :: "failure_kind \<Rightarrow> bool" where
  "permits_provider_fallback k = (case k of
     Unavailable \<Rightarrow> True | Authentication \<Rightarrow> True | Network \<Rightarrow> True | Timeout \<Rightarrow> True
   | Server \<Rightarrow> True | RateLimited \<Rightarrow> True
   | OtherFailure \<Rightarrow> False | InvalidResult \<Rightarrow> False | Cancelled \<Rightarrow> False)"

definition is_transient_failure :: "failure_kind \<Rightarrow> bool" where
  "is_transient_failure k \<longleftrightarrow> k = Network \<or> k = Timeout \<or> k = Server \<or> k = RateLimited"

datatype issue_stage = StagePrepare | LanguageSkipped | StageConnect | Interrupted

record attempt_issue =
  ai_role :: provider_role
  ai_provider :: qstring
  ai_stage :: issue_stage
  ai_kind :: failure_kind
  ai_message :: qstring
  ai_offline :: bool
  ai_words_lost :: bool

definition issues_where :: "attempt_issue list \<Rightarrow> (attempt_issue \<Rightarrow> bool) \<Rightarrow> attempt_issue list" where
  "issues_where issues keep = filter keep issues"

section \<open>Telling a person\<close>

definition provider_signs_in :: "qstring \<Rightarrow> bool" where
  "provider_signs_in i =
     (case parse_provider_id i of None \<Rightarrow> False | Some p \<Rightarrow> provider_account_name p \<noteq> [])"

definition sign_in_name :: "qstring \<Rightarrow> qstring \<Rightarrow> qstring" where
  "sign_in_name i label = (case parse_provider_id i of
     Some Claude \<Rightarrow> provider_account_name Claude
   | Some Codex \<Rightarrow> provider_account_name Codex
   | _ \<Rightarrow> label)"

definition shortfall :: "attempt_issue \<Rightarrow> qstring" where
  "shortfall i = (case ai_stage i of
     LanguageSkipped \<Rightarrow> ''can't listen for your Spoken Language''
   | Interrupted \<Rightarrow> ''dropped''
   | _ \<Rightarrow> (case ai_kind i of
       Network \<Rightarrow> ''couldn't be reached''
     | Timeout \<Rightarrow> ''didn't answer''
     | Server \<Rightarrow> ''had a server error''
     | RateLimited \<Rightarrow> ''hit a usage limit''
     | Authentication \<Rightarrow> ''turned down its key''
     | Unavailable \<Rightarrow>
         (if ai_role i = Speech \<and> parse_provider_id (ai_provider i) = Some LocalProvider
          then (if ai_stage i = StagePrepare then ''has no model downloaded''
                else ''couldn't load its model'')
          else if \<not> provider_signs_in (ai_provider i) then ''isn't set up''
          else ''couldn't start'')
     | OtherFailure \<Rightarrow> ''couldn't start''
     | InvalidResult \<Rightarrow> ''couldn't start''
     | Cancelled \<Rightarrow> ''couldn't start''))"

definition joined_with_and :: "qstring list \<Rightarrow> qstring" where
  "joined_with_and items =
     (if length items < 2 then (case items of [] \<Rightarrow> [] | x # _ \<Rightarrow> x)
      else join '', '' (butlast items) @ '' and '' @ last items)"

definition rejected_sign_in :: "attempt_issue \<Rightarrow> bool" where
  "rejected_sign_in i \<longleftrightarrow> ai_kind i = Authentication \<and> provider_signs_in (ai_provider i)"

text \<open>
  The two lists reasons and names of shortfallSentence, filled side by side:
  each reason once, with the names of the providers it holds for.
\<close>

fun add_reason :: "qstring \<Rightarrow> qstring \<Rightarrow> (qstring \<times> qstring list) list \<Rightarrow> (qstring \<times> qstring list) list" where
  "add_reason r n [] = [(r, [n])]"
| "add_reason r n ((r', ns) # rest) =
     (if r' = r then (r', ns @ [n]) # rest else (r', ns) # add_reason r n rest)"

fun group_reasons :: "provider_labels \<Rightarrow> attempt_issue list \<Rightarrow> (qstring \<times> qstring list) list
    \<Rightarrow> (qstring \<times> qstring list) list" where
  "group_reasons labels [] acc = acc"
| "group_reasons labels (i # is) acc =
     group_reasons labels is (add_reason (shortfall i) (labels (ai_role i) (ai_provider i)) acc)"

definition shortfall_sentence :: "attempt_issue list \<Rightarrow> provider_labels \<Rightarrow> qstring" where
  "shortfall_sentence issues labels =
     (let clauses = map (\<lambda>(r, ns). joined_with_and ns @ '' '' @ r) (group_reasons labels issues [])
      in if clauses = [] then [] else joined_with_and clauses @ ''.'')"

fun sign_in_sentences_from :: "provider_labels \<Rightarrow> attempt_issue list \<Rightarrow> qstring list \<Rightarrow> qstring list" where
  "sign_in_sentences_from labels [] acc = acc"
| "sign_in_sentences_from labels (i # is) acc =
     (let sentence = ''Your '' @ sign_in_name (ai_provider i) (labels (ai_role i) (ai_provider i))
                     @ '' sign-in has expired.''
      in sign_in_sentences_from labels is
           (if rejected_sign_in i \<and> sentence \<notin> set acc then acc @ [sentence] else acc))"

definition sign_in_sentences :: "attempt_issue list \<Rightarrow> provider_labels \<Rightarrow> qstring list" where
  "sign_in_sentences issues labels = sign_in_sentences_from labels issues []"

definition no_speech_service_text :: "attempt_issue list \<Rightarrow> provider_labels \<Rightarrow> qstring" where
  "no_speech_service_text issues labels =
     (let not_sign_ins = issues_where issues (\<lambda>i. \<not> rejected_sign_in i);
          sentence = shortfall_sentence not_sign_ins labels;
          sentences = [''No speech service is available.''] @ (if sentence \<noteq> [] then [sentence] else [])
      in join '' '' (sentences @ sign_in_sentences issues labels))"

lemma add_reason_keys:
  "map fst (add_reason r n acc) = (if r \<in> fst ` set acc then map fst acc else map fst acc @ [r])"
  by (induction acc) (auto simp: rev_image_eqI)

lemma add_reason_names:
  "distinct (map fst acc) \<Longrightarrow>
   map_of (add_reason r n acc) = (map_of acc)(r \<mapsto> (case map_of acc r of None \<Rightarrow> [] | Some ns \<Rightarrow> ns) @ [n])"
proof (induction acc)
  case (Cons a acc)
  obtain r' ns where a: "a = (r', ns)" by (cases a)
  thus ?case using Cons by (cases "r' = r") (auto simp: fun_eq_iff split: option.splits)
qed (auto simp: fun_eq_iff)

lemma group_reasons_distinct:
  "distinct (map fst acc) \<Longrightarrow> distinct (map fst (group_reasons labels is acc))"
  by (induction labels "is" acc rule: group_reasons.induct) (auto simp: add_reason_keys)

lemma group_reasons_names:
  "distinct (map fst acc) \<Longrightarrow>
   (case map_of (group_reasons labels is acc) r of None \<Rightarrow> [] | Some ns \<Rightarrow> ns) =
   (case map_of acc r of None \<Rightarrow> [] | Some ns \<Rightarrow> ns)
   @ map (\<lambda>i. labels (ai_role i) (ai_provider i)) (filter (\<lambda>i. shortfall i = r) is)"
proof (induction labels "is" acc rule: group_reasons.induct)
  case (2 labels i "is" acc)
  have "distinct (map fst (add_reason (shortfall i) (labels (ai_role i) (ai_provider i)) acc))"
    using 2(2) by (simp add: add_reason_keys)
  from 2(1)[OF this] show ?case
    using 2(2) by (auto simp: add_reason_names)
qed simp

section \<open>What the chain and the sentence are\<close>

lemma extend_chain_subseq: "\<exists>rest. extend_chain r chain is = chain @ rest \<and> subseq rest is"
proof (induction r chain "is" rule: extend_chain.induct)
  case (2 r chain i "is")
  thus ?case by (auto split: if_splits)
qed simp

lemma keep_fallbacks_extends: "prefix ks (keep_fallbacks r p ks is)"
proof (induction r p ks "is" rule: keep_fallbacks.induct)
  case (2 r p ks i "is")
  thus ?case by (auto simp: prefix_def)
qed simp

lemma extend_keep_fallbacks:
  assumes "fallbacks_ok r p ks"
  shows "p # keep_fallbacks r p ks is = take (Suc k_max_fallback_providers) (extend_chain r (p # ks) is)"
  using assms
proof (induction r p ks "is" rule: keep_fallbacks.induct)
  case (1 r p ks)
  thus ?case by (simp add: fallbacks_ok_def)
next
  case (2 r p ks i "is")
  show ?case
  proof (cases "length ks = k_max_fallback_providers")
    case True
    obtain rest where "extend_chain r (p # ks) (i # is) = (p # ks) @ rest"
      using extend_chain_subseq by blast
    thus ?thesis using True by simp
  next
    case False
    show ?thesis
    proof (cases "i \<noteq> p \<and> i \<notin> set ks \<and> is_chain_provider_id r i")
      case True
      hence "fallbacks_ok r p (ks @ [i])" using 2(3) False by (auto intro: fallbacks_ok_snoc)
      thus ?thesis using 2(1)[OF False True] False True by simp
    qed (use 2 False in auto)
  qed
qed

lemma remove_later_snoc:
  "rev (remdups (rev (xs @ [x]))) = (if x \<in> set xs then rev (remdups (rev xs)) else rev (remdups (rev xs)) @ [x])"
  by simp

definition reason_groups :: "provider_labels \<Rightarrow> attempt_issue list \<Rightarrow> (qstring \<times> qstring list) list" where
  "reason_groups labels is = map (\<lambda>r. (r, map (\<lambda>i. labels (ai_role i) (ai_provider i)) (filter (\<lambda>i. shortfall i = r) is)))
     (rev (remdups (rev (map shortfall is))))"

lemma add_reason_map:
  assumes "distinct rs" "\<And>r'. r' \<noteq> r \<Longrightarrow> f' r' = f r'" "f' r = f r @ [n]" "r \<notin> set rs \<Longrightarrow> f r = []"
  shows "add_reason r n (map (\<lambda>r. (r, f r)) rs)
    = map (\<lambda>r. (r, f' r)) (if r \<in> set rs then rs else rs @ [r])"
  using assms
proof (induction rs)
  case (Cons a rs)
  thus ?case by (cases "a = r") (auto, metis)
qed simp

lemma add_reason_groups:
  "add_reason (shortfall i) (labels (ai_role i) (ai_provider i)) (reason_groups labels is)
   = reason_groups labels (is @ [i])"
proof -
  let ?rs = "rev (remdups (rev (map shortfall is)))"
  let ?f = "\<lambda>is r. map (\<lambda>i. labels (ai_role i) (ai_provider i)) (filter (\<lambda>i. shortfall i = r) is)"
  have "add_reason (shortfall i) (labels (ai_role i) (ai_provider i)) (map (\<lambda>r. (r, ?f is r)) ?rs)
    = map (\<lambda>r. (r, ?f (is @ [i]) r)) (if shortfall i \<in> set ?rs then ?rs else ?rs @ [shortfall i])"
    by (rule add_reason_map) (auto simp: filter_empty_conv, metis image_eqI)
  thus ?thesis by (simp add: reason_groups_def)
qed

lemma group_reasons_from: "group_reasons labels is (reason_groups labels js) = reason_groups labels (js @ is)"
  by (induction "is" arbitrary: js) (simp_all add: add_reason_groups)

section \<open>Properties\<close>

text \<open>
  The chain of a role is the primary provider, then the fallbacks that serve the role, each once and in
  the order chosen.
\<close>

theorem chain_is_primary_then_fallbacks:
  assumes "\<not> (r = Refinement \<and> primary = k_no_refinement_provider)"
  shows "\<exists>rest. provider_chain r primary fallbacks = primary # rest \<and> subseq rest fallbacks
    \<and> distinct (primary # rest)
    \<and> set rest = {i\<in>set fallbacks. i \<noteq> primary \<and> is_chain_provider_id r i}"
proof -
  obtain rest where rest: "extend_chain r [primary] fallbacks = primary # rest" "subseq rest fallbacks"
    using extend_chain_subseq[of r "[primary]" fallbacks] by auto
  moreover have "distinct (primary # rest)" using distinct_extend_chain[of "[primary]" r fallbacks] rest by simp
  ultimately show ?thesis
    using set_extend_chain[of r "[primary]" fallbacks] assms by (auto simp: provider_chain_def)
qed

lemma chain_is_primary_then_fallbacks_witness:
  "set (tl (provider_chain Speech ''codex'' [''anthropic'', ''claude'', ''codex'', ''claude''])) = {''claude''}"
proof -
  let ?ids = "[''anthropic'', ''claude'', ''codex'', ''claude'']"
  have "\<not> is_chain_provider_id Speech ''anthropic''" "is_chain_provider_id Speech ''claude''"
    by (simp_all add: is_chain_provider_id_def parse_provider_id_def provider_serves_def provider_info_of_def
        k_providers_def)
  hence "{i\<in>set ?ids. i \<noteq> ''codex'' \<and> is_chain_provider_id Speech i} = {''claude''}" by auto
  moreover have "\<not> (Speech = Refinement \<and> ''codex'' = k_no_refinement_provider)" by simp
  from chain_is_primary_then_fallbacks[OF this, of ?ids] obtain rest
    where "provider_chain Speech ''codex'' ?ids = ''codex'' # rest"
      "set rest = {i\<in>set ?ids. i \<noteq> ''codex'' \<and> is_chain_provider_id Speech i}" by blast
  ultimately show ?thesis by simp
qed

text \<open>
  The fallbacks the settings keep are the first of the chain after the primary, as many as are allowed:
  saving them changes nothing about which providers a walk tries first.
\<close>

theorem kept_fallbacks_are_the_chain:
  "provider_chain r primary (normalized_fallback_providers r primary fallbacks)
   = take (Suc k_max_fallback_providers) (provider_chain r primary fallbacks)"
proof (cases "r = Refinement \<and> primary = k_no_refinement_provider")
  case True
  thus ?thesis by (simp add: provider_chain_def)
next
  case False
  let ?kept = "keep_fallbacks r primary [] fallbacks"
  have ok: "fallbacks_ok r primary ?kept" by (simp add: keep_fallbacks_ok)
  hence "extend_chain r [primary] ?kept = primary # ?kept"
    by (subst extend_chain_append) (auto simp: fallbacks_ok_def)
  thus ?thesis
    using False extend_keep_fallbacks[of r primary "[]" fallbacks]
    by (auto simp: provider_chain_def normalized_fallback_providers_def)
qed

text \<open>
  The sentence a person reads of what failed has one clause per reason, in the order the reasons first
  came, and each clause names exactly the providers the reason holds for, in the order of the issues.
\<close>

theorem sentence_groups_the_issues:
  "shortfall_sentence issues labels =
     (if issues = [] then []
      else joined_with_and (map (\<lambda>(r, names). joined_with_and names @ '' '' @ r) (reason_groups labels issues)) @ ''.'')"
proof -
  have "group_reasons labels issues [] = reason_groups labels issues"
    using group_reasons_from[of labels issues "[]"] by (simp add: reason_groups_def)
  moreover have "reason_groups labels issues = [] \<longleftrightarrow> issues = []"
    by (simp add: reason_groups_def)
  ultimately show ?thesis by (simp add: shortfall_sentence_def)
qed

end
