(* ===== verification/Settings.thy ===== *)
theory Settings
  imports Providers
begin

text \<open>
  core/AppSettings.h: the settings the modelled components read, and the names a
  settings file stores for its enumerations. A double of the settings is a
  rational number; no modelled operation computes with one.
\<close>

section \<open>Enumerations by name\<close>

datatype update_channel = Stable | Nightly

definition update_channel_name :: "update_channel \<Rightarrow> qstring" where
  "update_channel_name c = (if c = Nightly then ''nightly'' else ''stable'')"

definition update_channel_from_name :: "qstring \<Rightarrow> update_channel" where
  "update_channel_from_name n = (if n = ''nightly'' then Nightly else Stable)"

datatype shortcut_mode = PushToTalk | Toggle | Hybrid

definition shortcut_mode_name :: "shortcut_mode \<Rightarrow> qstring" where
  "shortcut_mode_name m = (case m of PushToTalk \<Rightarrow> ''push_to_talk'' | Toggle \<Rightarrow> ''toggle'' | Hybrid \<Rightarrow> ''hybrid'')"

definition shortcut_mode_from_name :: "qstring \<Rightarrow> shortcut_mode" where
  "shortcut_mode_from_name n =
     (if n = ''push_to_talk'' then PushToTalk else if n = ''toggle'' then Toggle else Hybrid)"

datatype openai_auth = AuthAuto | CodexOauth | CodexApiKey | AuthEnv | AuthSettings | OpenAiCliproxy

definition openai_auth_name :: "openai_auth \<Rightarrow> qstring" where
  "openai_auth_name m = (case m of CodexOauth \<Rightarrow> ''codex_oauth'' | CodexApiKey \<Rightarrow> ''codex_api_key''
     | AuthEnv \<Rightarrow> ''env'' | AuthSettings \<Rightarrow> ''settings'' | OpenAiCliproxy \<Rightarrow> ''cliproxy''
     | AuthAuto \<Rightarrow> ''auto'')"

definition openai_auth_from_name :: "qstring \<Rightarrow> openai_auth" where
  "openai_auth_from_name n =
     (case find (\<lambda>m. n = openai_auth_name m)
        [CodexOauth, CodexApiKey, AuthEnv, AuthSettings, OpenAiCliproxy]
      of Some m \<Rightarrow> m | None \<Rightarrow> AuthAuto)"

datatype anthropic_auth = Oauth | AnthropicCliproxy

definition anthropic_auth_name :: "anthropic_auth \<Rightarrow> qstring" where
  "anthropic_auth_name m = (if m = AnthropicCliproxy then ''cliproxy'' else ''oauth'')"

definition anthropic_auth_from_name :: "qstring \<Rightarrow> anthropic_auth" where
  "anthropic_auth_from_name n = (if n = ''cliproxy'' then AnthropicCliproxy else Oauth)"

section \<open>Speech\<close>

record local_runs_on =
  ro_backend :: qstring
  ro_device_id :: qstring

definition local_backends :: "(qstring \<times> qstring) list" where
  "local_backends = [(''auto'', ''Automatic''), (''cpu'', ''CPU''), (''metal'', ''Metal''),
     (''vulkan'', ''Vulkan''), (''cuda'', ''CUDA''), (''rocm'', ''ROCm'')]"

definition local_backend_name :: "qstring \<Rightarrow> qstring" where
  "local_backend_name kind = (case map_of local_backends kind of Some n \<Rightarrow> n | None \<Rightarrow> kind)"

definition local_runs_on_id :: "local_runs_on \<Rightarrow> qstring" where
  "local_runs_on_id r = (if ro_device_id r = [] then ro_backend r else ro_backend r @ '':'' @ ro_device_id r)"

definition local_speed_test_key :: "qstring \<Rightarrow> local_runs_on \<Rightarrow> qstring" where
  "local_speed_test_key model r = model @ ''/'' @ local_runs_on_id r"

record local_speech_settings =
  ls_model_id :: qstring
  ls_runs_on :: local_runs_on
  ls_idle_unload_minutes :: int
  ls_speed_test_seconds :: "qstring \<rightharpoonup> rat"
  ls_model_chosen :: bool

definition measured_speed_test_seconds :: "local_speech_settings \<Rightarrow> qstring \<Rightarrow> rat option" where
  "measured_speed_test_seconds l model = ls_speed_test_seconds l (local_speed_test_key model (ls_runs_on l))"

record speech_endpoint_settings =
  se_base_url :: qstring
  se_path :: qstring
  se_model :: qstring
  se_api_key :: qstring

definition k_automatic :: qstring where
  "k_automatic = ''auto''"

record speech_settings =
  sp_provider :: qstring
  sp_fallbacks :: "qstring list"
  sp_fallback_languages :: "qstring \<rightharpoonup> qstring"
  sp_codex_final_retranscribe :: bool
  sp_language :: qstring
  sp_vocabulary :: "qstring list"
  sp_claude_endpoint_base :: qstring
  sp_claude_voice_path :: qstring
  sp_local :: local_speech_settings
  sp_endpoint :: speech_endpoint_settings

definition default_speech_settings :: speech_settings where
  "default_speech_settings = \<lparr>sp_provider = provider_key Claude, sp_fallbacks = [],
     sp_fallback_languages = Map.empty, sp_codex_final_retranscribe = True, sp_language = ''en'',
     sp_vocabulary = [], sp_claude_endpoint_base = [], sp_claude_voice_path = [],
     sp_local = \<lparr>ls_model_id = ''parakeet'', ls_runs_on = \<lparr>ro_backend = ''auto'', ro_device_id = []\<rparr>,
       ls_idle_unload_minutes = 10, ls_speed_test_seconds = Map.empty, ls_model_chosen = False\<rparr>,
     sp_endpoint = \<lparr>se_base_url = [], se_path = ''/v1/audio/transcriptions'', se_model = [], se_api_key = []\<rparr>\<rparr>"

section \<open>Refinement\<close>

record refinement_endpoint_settings =
  re_preset :: qstring
  re_format :: qstring
  re_base_url :: qstring
  re_model :: qstring
  re_api_key :: qstring

record local_runner_settings =
  lr_runner :: qstring
  lr_model :: qstring

definition lacks_model :: "local_runner_settings \<Rightarrow> bool" where
  "lacks_model r \<longleftrightarrow> lr_model r = [] \<and> lr_runner r \<noteq> ''llama-server''"

definition local_runner_name :: "qstring \<Rightarrow> qstring" where
  "local_runner_name r = (if r = ''lmstudio'' then ''LM Studio''
     else if r = ''llama-server'' then ''llama-server'' else ''Ollama'')"

text \<open>The members of RefinementSettings the provider code reads.\<close>

record refinement_settings =
  rs_provider :: qstring
  rs_fallbacks :: "qstring list"
  rs_openai_model :: qstring
  rs_openai_speed :: qstring
  rs_anthropic_model :: qstring
  rs_cliproxy_base_url :: qstring
  rs_cliproxy_api_key :: qstring
  rs_endpoint :: refinement_endpoint_settings
  rs_local_runner :: local_runner_settings

definition openai_model_supports_ultrafast :: "qchars \<Rightarrow> qstring \<Rightarrow> bool" where
  "openai_model_supports_ultrafast q model =
     (let normalized = case_folded q (trimmed q model)
      in starts_with normalized ''gpt-6-astra'' \<or> starts_with normalized ''gpt-6.1-sol'')"

definition effective_openai_speed :: "qchars \<Rightarrow> qstring \<Rightarrow> qstring \<Rightarrow> qstring" where
  "effective_openai_speed q speed model =
     (if speed = ''ultrafast'' \<and> \<not> openai_model_supports_ultrafast q model then ''fast'' else speed)"

section \<open>All of them\<close>

record account_settings =
  ac_openai_auth :: openai_auth
  ac_anthropic_auth :: anthropic_auth
  ac_openai_cliproxy_account :: qstring
  ac_anthropic_cliproxy_account :: qstring
  ac_cliproxy_oauth_dir :: qstring
  ac_cliproxy_oauth_dir_configured :: qstring
  ac_claude_credentials_path :: qstring

text \<open>The members of AppSettings the providers read.\<close>

record app_settings =
  as_unread_secret_keys :: "qstring list"
  as_speech :: speech_settings
  as_refinement :: refinement_settings
  as_accounts :: account_settings

definition default_refinement_settings :: refinement_settings where
  "default_refinement_settings = \<lparr>rs_provider = provider_key OpenAi, rs_fallbacks = [],
     rs_openai_model = ''gpt-6-luna'', rs_openai_speed = ''fast'', rs_anthropic_model = ''claude-opus-5-5'',
     rs_cliproxy_base_url = [], rs_cliproxy_api_key = [],
     rs_endpoint = \<lparr>re_preset = [], re_format = ''openai'', re_base_url = [], re_model = [], re_api_key = []\<rparr>,
     rs_local_runner = \<lparr>lr_runner = [], lr_model = []\<rparr>\<rparr>"

definition default_account_settings :: account_settings where
  "default_account_settings = \<lparr>ac_openai_auth = AuthAuto, ac_anthropic_auth = Oauth,
     ac_openai_cliproxy_account = [], ac_anthropic_cliproxy_account = [], ac_cliproxy_oauth_dir = [],
     ac_cliproxy_oauth_dir_configured = [], ac_claude_credentials_path = []\<rparr>"

definition default_app_settings :: app_settings where
  "default_app_settings = \<lparr>as_unread_secret_keys = [], as_speech = default_speech_settings,
     as_refinement = default_refinement_settings, as_accounts = default_account_settings\<rparr>"

section \<open>The model settings of a provider\<close>

text \<open>
  speechModelSetting and refinementModelSetting return a pointer into the
  settings: None for a null one, and otherwise how to read and write the member
  it points to.
\<close>

record 's setting_ref =
  ref_get :: "'s \<Rightarrow> qstring"
  ref_set :: "qstring \<Rightarrow> 's \<Rightarrow> 's"

definition speech_model_setting :: "qstring \<Rightarrow> speech_settings setting_ref option" where
  "speech_model_setting key = (case parse_provider_id key of
     Some LocalProvider \<Rightarrow> Some \<lparr>ref_get = \<lambda>s. ls_model_id (sp_local s),
        ref_set = \<lambda>v s. s\<lparr>sp_local := (sp_local s)\<lparr>ls_model_id := v\<rparr>\<rparr>\<rparr>
   | Some Endpoint \<Rightarrow> Some \<lparr>ref_get = \<lambda>s. se_model (sp_endpoint s),
        ref_set = \<lambda>v s. s\<lparr>sp_endpoint := (sp_endpoint s)\<lparr>se_model := v\<rparr>\<rparr>\<rparr>
   | _ \<Rightarrow> None)"

definition refinement_model_setting :: "qstring \<Rightarrow> refinement_settings setting_ref option" where
  "refinement_model_setting key = (case parse_provider_id key of
     Some OpenAi \<Rightarrow> Some \<lparr>ref_get = rs_openai_model, ref_set = \<lambda>v s. s\<lparr>rs_openai_model := v\<rparr>\<rparr>
   | Some Anthropic \<Rightarrow> Some \<lparr>ref_get = rs_anthropic_model, ref_set = \<lambda>v s. s\<lparr>rs_anthropic_model := v\<rparr>\<rparr>
   | Some LocalProvider \<Rightarrow> Some \<lparr>ref_get = \<lambda>s. lr_model (rs_local_runner s),
        ref_set = \<lambda>v s. s\<lparr>rs_local_runner := (rs_local_runner s)\<lparr>lr_model := v\<rparr>\<rparr>\<rparr>
   | Some Endpoint \<Rightarrow> Some \<lparr>ref_get = \<lambda>s. re_model (rs_endpoint s),
        ref_set = \<lambda>v s. s\<lparr>rs_endpoint := (rs_endpoint s)\<lparr>re_model := v\<rparr>\<rparr>\<rparr>
   | _ \<Rightarrow> None)"

lemma update_channel_name [simp]: "update_channel_from_name (update_channel_name c) = c"
  by (cases c) (simp_all add: update_channel_from_name_def update_channel_name_def)

lemma shortcut_mode_name [simp]: "shortcut_mode_from_name (shortcut_mode_name m) = m"
  by (cases m) (simp_all add: shortcut_mode_from_name_def shortcut_mode_name_def)

lemma openai_auth_name [simp]: "openai_auth_from_name (openai_auth_name m) = m"
  by (cases m) (simp_all add: openai_auth_from_name_def openai_auth_name_def)

lemma anthropic_auth_name [simp]: "anthropic_auth_from_name (anthropic_auth_name m) = m"
  by (cases m) (simp_all add: anthropic_auth_from_name_def anthropic_auth_name_def)

section \<open>Properties\<close>

text \<open>
  What the settings file stores for an enum is read back as the same value: for the update channel, the
  shortcut's activation and both ways of signing in.
\<close>

theorem setting_names_round_trip:
  "update_channel_from_name (update_channel_name c) = c
   \<and> shortcut_mode_from_name (shortcut_mode_name m) = m
   \<and> openai_auth_from_name (openai_auth_name a) = a
   \<and> anthropic_auth_from_name (anthropic_auth_name b) = b"
  by simp

end
