(* ===== verification/Languages.thy ===== *)
theory Languages
  imports Settings "HOL-Library.Char_ord" "HOL-Library.List_Lexorder"
begin

text \<open>
  core/LocalModelCatalog.cpp, the catalog of Local Models and the suggestion for
  a machine, and core/settings/SpokenLanguages.cpp: which Spoken Languages a
  speech service listens for, and the language each provider of a chain gets.

  The catalog's decimals are written in hundredths. The memory a machine offers a
  model and a model needs are computed in double in the code, so the suggestion
  takes the resulting fit as an argument.
\<close>

section \<open>The catalog\<close>

datatype model_rating = Recommended | Good | Situational | NotRecommended

record local_model =
  lm_id :: qstring
  lm_name :: qstring
  lm_hugging_face_repo :: qstring
  lm_revision :: qstring
  lm_file_name :: qstring
  lm_sha256 :: qstring
  lm_size_bytes :: int
  lm_librispeech_clean_wer :: nat
  lm_fleurs_english_wer :: nat
  lm_artificial_analysis_wer :: nat
  lm_streams :: bool
  lm_languages :: "qstring list"
  lm_detects_language :: bool
  lm_not_suggested_for :: "qstring list"
  lm_licence :: qstring
  lm_m4_max_metal_speed :: nat
  lm_ryzen_4750u_vulkan_speed :: nat
  lm_rating :: model_rating
  lm_best_for :: qstring
  lm_pros :: "qstring list"
  lm_cons :: "qstring list"

definition language_codes :: "qstring \<Rightarrow> qstring list" where
  "language_codes spaceSeparated = split_on CHR '' '' spaceSeparated"

definition model_moonshine_small :: local_model where
  "model_moonshine_small =
    \<lparr>lm_id = ''moonshine-small'', lm_name = ''Moonshine Small'',
      lm_hugging_face_repo = ''handy-computer/moonshine-streaming-small-gguf'',
      lm_revision = ''7e32b1b3dfce5d3a38dad59630ffce608f15c4aa'',
      lm_file_name = ''moonshine-streaming-small-Q8_0.gguf'',
      lm_sha256 = ''d03670f69629b649085d0f44a63d97668b4119117cc9611a4e4ad94341713dfc'',
      lm_size_bytes = 198506848, lm_librispeech_clean_wer = 254, lm_fleurs_english_wer = 855,
      lm_artificial_analysis_wer = 0, lm_streams = True,
      lm_languages = language_codes (
       ''en''),
      lm_detects_language = False, lm_not_suggested_for = [],
      lm_licence = ''MIT'', lm_m4_max_metal_speed = 5859, lm_ryzen_4750u_vulkan_speed = 1416,
      lm_rating = Good,
      lm_best_for = ''Computers short on memory'',
      lm_pros = [''Smallest download'',
                 ''Words appear as you speak''],
      lm_cons = [''About twice the mistakes of Parakeet 0.6B on everyday speech'']\<rparr>"

definition model_moonshine_medium :: local_model where
  "model_moonshine_medium =
    \<lparr>lm_id = ''moonshine-medium'', lm_name = ''Moonshine Medium'',
      lm_hugging_face_repo = ''handy-computer/moonshine-streaming-medium-gguf'',
      lm_revision = ''0f99e956a9e63d591ddd7f2a20dfead255e96c68'',
      lm_file_name = ''moonshine-streaming-medium-Q8_0.gguf'',
      lm_sha256 = ''f7c9564249b508f6012927ec4f9e536087da53a7047f858ca9975bea5f75299e'',
      lm_size_bytes = 295793568, lm_librispeech_clean_wer = 216, lm_fleurs_english_wer = 787,
      lm_artificial_analysis_wer = 0, lm_streams = True,
      lm_languages = language_codes (
       ''en''),
      lm_detects_language = False, lm_not_suggested_for = [],
      lm_licence = ''MIT'', lm_m4_max_metal_speed = 3612, lm_ryzen_4750u_vulkan_speed = 890,
      lm_rating = Good,
      lm_best_for = ''Computers short on memory'',
      lm_pros = [''Words appear as you speak'',
                 ''Fewer mistakes than Moonshine Small''],
      lm_cons = [''About twice the mistakes of Parakeet 0.6B on everyday speech'']\<rparr>"

definition model_parakeet :: local_model where
  "model_parakeet =
    \<lparr>lm_id = ''parakeet'', lm_name = ''Parakeet 0.6B'',
      lm_hugging_face_repo = ''handy-computer/parakeet-unified-en-0.6b-gguf'',
      lm_revision = ''d5249700b2382bf5c5024c2421d101b8db54a629'',
      lm_file_name = ''parakeet-unified-en-0.6b-Q8_0.gguf'',
      lm_sha256 = ''4b50b6dd862bf6e346929aaf4f5eaacec003bfa3f56462d6c874b41ef2f38795'',
      lm_size_bytes = 731357568, lm_librispeech_clean_wer = 160, lm_fleurs_english_wer = 399,
      lm_artificial_analysis_wer = 0, lm_streams = True,
      lm_languages = language_codes (
       ''en''),
      lm_detects_language = False, lm_not_suggested_for = [],
      lm_licence = ''NVIDIA Open Model License'', lm_m4_max_metal_speed = 22839, lm_ryzen_4750u_vulkan_speed = 2601,
      lm_rating = Recommended,
      lm_best_for = ''Most people'',
      lm_pros = [''Words appear as you speak'',
                 ''Fewest mistakes of the models that show words as you speak'',
                 ''Quick even on older laptops''],
      lm_cons = [''More mistakes than Qwen3-ASR on everyday speech'']\<rparr>"

definition model_parakeet_v3 :: local_model where
  "model_parakeet_v3 =
    \<lparr>lm_id = ''parakeet-v3'', lm_name = ''Parakeet v3 0.6B'',
      lm_hugging_face_repo = ''handy-computer/parakeet-tdt-0.6b-v3-gguf'',
      lm_revision = ''d8d8c32cb2017c57e5307767343e97870f8a7f53'',
      lm_file_name = ''parakeet-tdt-0.6b-v3-Q8_0.gguf'',
      lm_sha256 = ''5859f77944efcd8eafa23a6350731960b2b55b2203df51f319665c807d802cc7'',
      lm_size_bytes = 739508576, lm_librispeech_clean_wer = 194, lm_fleurs_english_wer = 483,
      lm_artificial_analysis_wer = 450, lm_streams = False,
      lm_languages = language_codes (
       ''bg hr cs da nl en et fi fr de el hu it lv lt mt pl pt ro ru sk sl es sv uk''),
      lm_detects_language = False, lm_not_suggested_for = language_codes ''el da fi sv'',
      lm_licence = ''CC BY 4.0'', lm_m4_max_metal_speed = 21545, lm_ryzen_4750u_vulkan_speed = 2584,
      lm_rating = Situational,
      lm_best_for = ''European languages without the wait'',
      lm_pros = [''25 European languages'',
                 ''Quick even on older laptops''],
      lm_cons = [''Text appears after you stop'',
                 ''More mistakes than Parakeet 0.6B in English'',
                 ''Many more mistakes than Whisper in Greek, Danish, Finnish and Swedish'']\<rparr>"

definition model_whisper_turbo :: local_model where
  "model_whisper_turbo =
    \<lparr>lm_id = ''whisper-turbo'', lm_name = ''Whisper Large v3 Turbo'',
      lm_hugging_face_repo = ''handy-computer/whisper-large-v3-turbo-gguf'',
      lm_revision = ''ceea6c8a94a21ab85be244d311e874a39344dbf5'',
      lm_file_name = ''whisper-large-v3-turbo-Q8_0.gguf'',
      lm_sha256 = ''b2e30cc286bc9f3aba4db9099fc7403543497c05ce7100d0d83091ddfd25a183'',
      lm_size_bytes = 886381760, lm_librispeech_clean_wer = 201, lm_fleurs_english_wer = 438,
      lm_artificial_analysis_wer = 462, lm_streams = False,
      lm_languages = language_codes (
       ''af am ar as az ba be bg bn bo br bs ca cs cy da de el en es et eu fa fi fo fr gl gu haw '' @
       ''ha he hi hr ht hu hy id is it ja jw ka kk km kn ko la lb ln lo lt lv mg mi mk ml mn mr '' @
       ''ms mt my ne nl nn no oc pa pl ps pt ro ru sa sd si sk sl sn so sq sr su sv sw ta te tg '' @
       ''th tk tl tr tt uk ur uz vi yi yo yue zh''),
      lm_detects_language = True, lm_not_suggested_for = [],
      lm_licence = ''Apache 2.0'', lm_m4_max_metal_speed = 5112, lm_ryzen_4750u_vulkan_speed = 369,
      lm_rating = Situational,
      lm_best_for = ''Few mistakes in under 1 GB, if you can wait'',
      lm_pros = [''Fewer mistakes than the Moonshine models on everyday speech''],
      lm_cons = [''Text appears after you stop'',
                 ''More mistakes than Parakeet 0.6B on everyday speech'',
                 ''Now and then leaves out punctuation'',
                 ''A few seconds' wait on older laptops'']\<rparr>"

definition model_qwen3_asr :: local_model where
  "model_qwen3_asr =
    \<lparr>lm_id = ''qwen3-asr'', lm_name = ''Qwen3-ASR 1.7B'',
      lm_hugging_face_repo = ''handy-computer/Qwen3-ASR-1.7B-gguf'',
      lm_revision = ''3555bd238a8572bbace3ebf60d23b036dc0a5dbe'',
      lm_file_name = ''Qwen3-ASR-1.7B-Q8_0.gguf'',
      lm_sha256 = ''9a0d81792dfea2d5f278b8a63deb3ea6e02139ce42c2301f32ea19c4f77526b7'',
      lm_size_bytes = 2185030624, lm_librispeech_clean_wer = 162, lm_fleurs_english_wer = 323,
      lm_artificial_analysis_wer = 0, lm_streams = False,
      lm_languages = language_codes (
       ''zh en yue ar de fr es pt id it ko ru th vi ja tr hi ms nl sv da fi pl cs tl fa el ro hu '' @
       ''mk''),
      lm_detects_language = True, lm_not_suggested_for = [],
      lm_licence = ''Apache 2.0'', lm_m4_max_metal_speed = 3683, lm_ryzen_4750u_vulkan_speed = 372,
      lm_rating = Good,
      lm_best_for = ''Fewest mistakes, if you can wait'',
      lm_pros = [''Fewest mistakes on everyday speech''],
      lm_cons = [''2.2 GB download'',
                 ''Text appears after you stop'',
                 ''A few seconds' wait on older laptops'']\<rparr>"

definition model_cohere :: local_model where
  "model_cohere =
    \<lparr>lm_id = ''cohere'', lm_name = ''Cohere Transcribe'',
      lm_hugging_face_repo = ''handy-computer/cohere-transcribe-03-2026-gguf'',
      lm_revision = ''ab667acedcb5d8d56837ef3ed3568c3ad50dde47'',
      lm_file_name = ''cohere-transcribe-03-2026-Q8_0.gguf'',
      lm_sha256 = ''931916663432fd895423a4291a8400221802b288967ca2d435fc5e3141c9e71e'',
      lm_size_bytes = 2410655232, lm_librispeech_clean_wer = 127, lm_fleurs_english_wer = 508,
      lm_artificial_analysis_wer = 457, lm_streams = False,
      lm_languages = language_codes (
       ''en fr de es it pt nl pl el ar ja zh vi ko''),
      lm_detects_language = False, lm_not_suggested_for = [],
      lm_licence = ''Apache 2.0'', lm_m4_max_metal_speed = 7514, lm_ryzen_4750u_vulkan_speed = 852,
      lm_rating = Situational,
      lm_best_for = ''Clear read-aloud speech, if you can wait'',
      lm_pros = [''Fewest mistakes on clear speech''],
      lm_cons = [''2.4 GB download'',
                 ''Text appears after you stop'',
                 ''More mistakes than Parakeet 0.6B on everyday speech'']\<rparr>"

definition model_voxtral_small :: local_model where
  "model_voxtral_small =
    \<lparr>lm_id = ''voxtral-small'', lm_name = ''Voxtral Small 24B'',
      lm_hugging_face_repo = ''handy-computer/Voxtral-Small-24B-2507-gguf'',
      lm_revision = ''4ab5a0708a16619b2b5b98f14b20333e0de17943'',
      lm_file_name = ''Voxtral-Small-24B-2507-Q5_K_M.gguf'',
      lm_sha256 = ''a53f73a5f63b7663fe155977616a636acac567dac898f6ef82ca519017e8b6e7'',
      lm_size_bytes = 17138659808, lm_librispeech_clean_wer = 160, lm_fleurs_english_wer = 355,
      lm_artificial_analysis_wer = 277, lm_streams = False,
      lm_languages = language_codes (
       ''en fr de es it pt nl hi''),
      lm_detects_language = True, lm_not_suggested_for = [],
      lm_licence = ''Apache 2.0'', lm_m4_max_metal_speed = 241, lm_ryzen_4750u_vulkan_speed = 0,
      lm_rating = NotRecommended,
      lm_best_for = ''Not worth it: Qwen3-ASR does as well at an eighth of the size'',
      lm_pros = [''Few mistakes on everyday speech''],
      lm_cons = [''17 GB download'',
                 ''Text appears after you stop'',
                 ''Needs a 24 GB graphics card or a Mac with 32 GB or more'',
                 ''Slow: several seconds after you stop'']\<rparr>"

definition local_model_catalog :: "local_model list" where
  "local_model_catalog = [model_moonshine_small, model_moonshine_medium, model_parakeet, model_parakeet_v3,
     model_whisper_turbo, model_qwen3_asr, model_cohere, model_voxtral_small]"

definition find_local_model :: "qstring \<Rightarrow> local_model option" where
  "find_local_model i = find (\<lambda>m. lm_id m = i) local_model_catalog"

definition local_model_listens_for :: "local_model \<Rightarrow> qstring \<Rightarrow> bool" where
  "local_model_listens_for m language =
     (if language = k_automatic then lm_detects_language m else language \<in> set (lm_languages m))"

definition local_model_language_hint :: "qstring \<Rightarrow> qstring list \<Rightarrow> qstring" where
  "local_model_language_hint language declared =
     (if language = ''tl'' \<and> language \<notin> set declared \<and> ''fil'' \<in> set declared then ''fil'' else language)"

section \<open>The suggested model\<close>

text \<open>
  \<^term>\<open>quick\<close> is quickStreamingFit of the machine: the model streams, fits its
  memory and is estimated fast enough.
\<close>

fun best_quick :: "(local_model \<Rightarrow> bool) \<Rightarrow> local_model option \<Rightarrow> local_model list \<Rightarrow> local_model option" where
  "best_quick quick best [] = best"
| "best_quick quick best (m # ms) =
     best_quick quick
       (if quick m \<and> (case best of None \<Rightarrow> True | Some b \<Rightarrow> lm_fleurs_english_wer m < lm_fleurs_english_wer b)
        then Some m else best) ms"

text \<open>std::min_element: the first of the smallest.\<close>

fun smallest_model :: "local_model \<Rightarrow> local_model list \<Rightarrow> local_model" where
  "smallest_model m [] = m"
| "smallest_model m (n # ns) = smallest_model (if lm_size_bytes n < lm_size_bytes m then n else m) ns"

definition model_candidates :: "qstring \<Rightarrow> local_model list" where
  "model_candidates language =
     (let cs = filter (\<lambda>m. local_model_listens_for m language \<and> language \<notin> set (lm_not_suggested_for m))
                 local_model_catalog
      in if cs = [] then local_model_catalog else cs)"

definition suggested_local_model :: "(local_model \<Rightarrow> bool) \<Rightarrow> qstring \<Rightarrow> local_model" where
  "suggested_local_model quick language =
     (let cs = model_candidates language in
      case best_quick quick None cs of Some m \<Rightarrow> m | None \<Rightarrow> smallest_model (hd cs) (tl cs))"

section \<open>Spoken Languages\<close>

definition claude_voice_languages :: "qstring list" where
  "claude_voice_languages = language_codes (
     ''am ar be bg bn bs ca cs da de el en es et fa fi fr he hi hr hu id it ja kn ko lt lv mk mr ms nl no pl '' @
     ''pt ro ru sk sl sr sv sw ta te th tl tr uk ur vi yue zh'')"

definition codex_languages :: "qstring list" where
  "codex_languages = language_codes (
     ''af am ar az be bg bn bs ca cs cy da de el en es et fa fi fr gl gu he hi hr hu hy id is it ja ka kk kn '' @
     ''ko lt lv mi mk ml mn mr ms my ne nl no pl pt ro ru sk sl so sr sv sw ta te th tl tr uk ur vi yue zh'')"

definition endpoint_languages :: "qstring list" where
  "endpoint_languages = lm_languages (the (find_local_model ''whisper-turbo''))"

definition with_automatic :: "qstring list \<Rightarrow> qstring list" where
  "with_automatic ls = ls @ [k_automatic]"

definition spoken_languages :: "speech_settings \<Rightarrow> qstring list" where
  "spoken_languages s = (case parse_provider_id (sp_provider s) of
     Some Claude \<Rightarrow> with_automatic claude_voice_languages
   | Some Codex \<Rightarrow> with_automatic codex_languages
   | Some Endpoint \<Rightarrow> with_automatic endpoint_languages
   | Some LocalProvider \<Rightarrow> (case find_local_model (ls_model_id (sp_local s)) of
        None \<Rightarrow> []
      | Some m \<Rightarrow> if local_model_listens_for m k_automatic then with_automatic (lm_languages m)
                  else lm_languages m)
   | _ \<Rightarrow> [])"

definition requested_spoken_language :: "qstring \<Rightarrow> qstring" where
  "requested_spoken_language l = (if l = k_automatic then [] else l)"

definition chosen_local_model :: "speech_settings \<Rightarrow> local_model option" where
  "chosen_local_model s = (if parse_provider_id (sp_provider s) = Some LocalProvider
     then find_local_model (ls_model_id (sp_local s)) else None)"

definition listens_for_spoken_language :: "speech_settings \<Rightarrow> bool" where
  "listens_for_spoken_language s = (case chosen_local_model s of
     Some m \<Rightarrow> local_model_listens_for m (sp_language s)
   | None \<Rightarrow> (let offered = spoken_languages s in offered = [] \<or> sp_language s \<in> set offered))"

text \<open>
  QLocale's names: None for a code it does not know (AnyLanguage).
\<close>

type_synonym qlocale_names = "qstring \<Rightarrow> qstring option"

definition english_name :: "qlocale_names \<Rightarrow> qstring \<Rightarrow> qstring" where
  "english_name names l = (case names (if l = ''jw'' then ''jv'' else l) of None \<Rightarrow> l | Some n \<Rightarrow> n)"

definition spoken_language_problem :: "qlocale_names \<Rightarrow> speech_settings \<Rightarrow> qstring \<Rightarrow> qstring" where
  "spoken_language_problem names s label =
     (if listens_for_spoken_language s then []
      else let service = (case chosen_local_model s of Some m \<Rightarrow> lm_name m | None \<Rightarrow> label)
        in if sp_language s = k_automatic
           then service @ '' can't detect the language. Choose the language you speak.''
           else service @ '' can't listen for '' @ english_name names (sp_language s)
                @ ''. Choose another Spoken Language.'')"

definition chain_speech_settings :: "speech_settings \<Rightarrow> qstring \<Rightarrow> speech_settings" where
  "chain_speech_settings s provider =
     (let candidate = s\<lparr>sp_provider := provider\<rparr> in
      if provider = sp_provider s then candidate
      else case sp_fallback_languages s provider of
        Some l \<Rightarrow> candidate\<lparr>sp_language := l\<rparr>
      | None \<Rightarrow>
          if listens_for_spoken_language candidate \<or> sp_language s \<noteq> k_automatic then candidate
          else let english = candidate\<lparr>sp_language := ''en''\<rparr>
            in if listens_for_spoken_language english then english else candidate)"

text \<open>QStringList::removeDuplicates keeps the first of each.\<close>

fun remove_duplicates :: "qstring list \<Rightarrow> qstring list" where
  "remove_duplicates [] = []"
| "remove_duplicates (x # xs) = x # filter (\<lambda>y. y \<noteq> x) (remove_duplicates xs)"

definition known_spoken_languages :: "qstring list" where
  "known_spoken_languages =
     (let ls = with_automatic (claude_voice_languages @ codex_languages)
               @ concat (map lm_languages local_model_catalog)
      in sort (remove_duplicates ls))"

definition is_known_spoken_language :: "qstring \<Rightarrow> bool" where
  "is_known_spoken_language l \<longleftrightarrow> l \<in> set known_spoken_languages"

lemma remove_duplicates_props: "set (remove_duplicates xs) = set xs \<and> distinct (remove_duplicates xs)"
  by (induction xs) auto

lemma spoken_languages_chosen_none:
  "parse_provider_id (sp_provider s) \<noteq> Some LocalProvider \<Longrightarrow> chosen_local_model s = None"
  by (simp add: chosen_local_model_def)

section \<open>The suggestion\<close>

lemma best_quick_best:
  assumes "best_quick quick best ms = Some m" "\<And>b. best = Some b \<Longrightarrow> quick b"
  shows "quick m \<and> (m \<in> set ms \<or> best = Some m)
    \<and> (\<forall>b. (best = Some b \<or> (b \<in> set ms \<and> quick b)) \<longrightarrow> lm_fleurs_english_wer m \<le> lm_fleurs_english_wer b)"
  using assms
proof (induction quick best ms rule: best_quick.induct)
  case (2 quick best a ms)
  let ?next = "if quick a \<and> (case best of None \<Rightarrow> True | Some b \<Rightarrow> lm_fleurs_english_wer a < lm_fleurs_english_wer b)
    then Some a else best"
  have "quick b" if "?next = Some b" for b using that 2(3) by (auto split: if_splits)
  from 2(1)[OF _ this] 2(2) have IH: "quick m" "m \<in> set ms \<or> ?next = Some m"
    "\<And>b. ?next = Some b \<or> (b \<in> set ms \<and> quick b) \<Longrightarrow> lm_fleurs_english_wer m \<le> lm_fleurs_english_wer b"
    by auto
  show ?case
    using IH(1,2) IH(3)[of a] IH(3) by (cases best) (force split: if_splits)+
qed auto

lemma best_quick_None: "best_quick quick best ms = None \<longleftrightarrow> best = None \<and> (\<forall>m\<in>set ms. \<not> quick m)"
  by (induction quick best ms rule: best_quick.induct) (auto split: option.splits)

lemma smallest_model_smallest:
  "smallest_model m ms \<in> set (m # ms)
   \<and> (\<forall>n\<in>set (m # ms). lm_size_bytes (smallest_model m ms) \<le> lm_size_bytes n)"
  by (induction m ms rule: smallest_model.induct) (force split: if_splits)+

lemma model_candidates_nonempty: "model_candidates language \<noteq> []"
  by (simp add: model_candidates_def Let_def local_model_catalog_def)

section \<open>Properties\<close>

text \<open>
  The suggested model is one of the candidates: the most accurate of those that run quickly on the
  machine, or the smallest when none does.
\<close>

theorem suggested_model_is_best:
  "suggested_local_model quick language \<in> set (model_candidates language)
   \<and> (if \<exists>m\<in>set (model_candidates language). quick m
      then quick (suggested_local_model quick language)
        \<and> (\<forall>m\<in>set (model_candidates language). quick m \<longrightarrow>
              lm_fleurs_english_wer (suggested_local_model quick language) \<le> lm_fleurs_english_wer m)
      else (\<forall>m\<in>set (model_candidates language).
              lm_size_bytes (suggested_local_model quick language) \<le> lm_size_bytes m))"
proof (cases "best_quick quick None (model_candidates language)")
  case None
  obtain c cs where "model_candidates language = c # cs"
    using model_candidates_nonempty by (cases "model_candidates language") auto
  moreover from this None have "suggested_local_model quick language = smallest_model c cs"
    by (simp add: suggested_local_model_def Let_def)
  ultimately show ?thesis using None smallest_model_smallest[of c cs]
    by (auto simp: best_quick_None split: if_splits)
next
  case (Some m)
  hence "suggested_local_model quick language = m" by (simp add: suggested_local_model_def Let_def)
  moreover have "\<exists>m\<in>set (model_candidates language). quick m" using Some best_quick_None[of quick None] by force
  ultimately show ?thesis using best_quick_best[OF Some] by auto
qed

lemma suggested_model_is_best_witness:
  "suggested_local_model (\<lambda>m. False) ''fr'' \<in> set (model_candidates ''fr'')
   \<and> \<not> lm_size_bytes model_moonshine_small < lm_size_bytes (suggested_local_model (\<lambda>m. False) ''en'')"
proof -
  have "model_moonshine_small \<in> set (model_candidates ''en'')"
    by (simp add: model_candidates_def local_model_catalog_def local_model_listens_for_def k_automatic_def
        model_moonshine_small_def language_codes_def Let_def)
  thus ?thesis using suggested_model_is_best[of "\<lambda>m. False" "''fr''"] suggested_model_is_best[of "\<lambda>m. False" "''en''"]
    by fastforce
qed

text \<open>
  Every Spoken Language a speech service offers is one the settings accept.
\<close>

theorem offered_languages_are_known:
  "set (spoken_languages s) \<subseteq> {l. is_known_spoken_language l}"
proof -
  have found: "set (lm_languages m) \<subseteq> set known_spoken_languages" if "find_local_model i = Some m" for i m
  proof -
    have "m \<in> set local_model_catalog"
      using that by (auto simp: find_local_model_def find_Some_iff)
    thus ?thesis by (auto simp: known_spoken_languages_def Let_def remove_duplicates_props[THEN conjunct1])
  qed
  have "find_local_model ''whisper-turbo'' = Some model_whisper_turbo"
    by (simp add: find_local_model_def local_model_catalog_def model_moonshine_small_def model_moonshine_medium_def
        model_parakeet_def model_parakeet_v3_def model_whisper_turbo_def)
  with found have "set endpoint_languages \<subseteq> set known_spoken_languages"
    by (fastforce simp: endpoint_languages_def)
  moreover have "set (with_automatic ls) \<subseteq> set known_spoken_languages"
    if "set ls \<subseteq> set known_spoken_languages" for ls
    using that by (auto simp: with_automatic_def known_spoken_languages_def Let_def
        remove_duplicates_props[THEN conjunct1])
  moreover have "set claude_voice_languages \<subseteq> set known_spoken_languages" "set codex_languages \<subseteq> set known_spoken_languages"
    by (auto simp: known_spoken_languages_def Let_def with_automatic_def remove_duplicates_props[THEN conjunct1])
  ultimately have "set (spoken_languages s) \<subseteq> set known_spoken_languages"
    unfolding spoken_languages_def using found
    by (cases "parse_provider_id (sp_provider s)"; cases "find_local_model (ls_model_id (sp_local s))";
        cases "the (parse_provider_id (sp_provider s))") auto
  thus ?thesis by (auto simp: is_known_spoken_language_def)
qed

text \<open>
  A fallback provider is asked for the language chosen for it; without one it gets the session's, except
  that automatic detection becomes English where the provider cannot detect the language but hears English.
  So it is passed over only where neither would do.
\<close>

theorem fallback_language:
  assumes "provider \<noteq> sp_provider s"
  shows "listens_for_spoken_language (chain_speech_settings s provider) \<longleftrightarrow>
    (case sp_fallback_languages s provider of
       Some l \<Rightarrow> listens_for_spoken_language (s\<lparr>sp_provider := provider, sp_language := l\<rparr>)
     | None \<Rightarrow> listens_for_spoken_language (s\<lparr>sp_provider := provider\<rparr>)
         \<or> (sp_language s = k_automatic
            \<and> listens_for_spoken_language (s\<lparr>sp_provider := provider, sp_language := ''en''\<rparr>)))"
  using assms by (auto simp: chain_speech_settings_def Let_def split: option.split)

lemma fallback_language_witness:
  "listens_for_spoken_language (chain_speech_settings (default_speech_settings\<lparr>sp_language := k_automatic\<rparr>) ''codex'')"
proof -
  let ?s = "default_speech_settings\<lparr>sp_language := k_automatic\<rparr>"
  have "''codex'' \<noteq> sp_provider ?s"
    by (simp add: default_speech_settings_def provider_key_def provider_info_of_def k_providers_def)
  moreover have "listens_for_spoken_language (?s\<lparr>sp_provider := ''codex''\<rparr>)"
    by (simp add: listens_for_spoken_language_def chosen_local_model_def spoken_languages_def with_automatic_def
        parse_provider_id_def k_providers_def)
  ultimately show ?thesis
    using fallback_language[of "''codex''" ?s] by (simp add: default_speech_settings_def)
qed

end
