(* ===== verification/Readiness.thy ===== *)
theory Readiness
  imports Languages
begin

text \<open>
  core/EndpointUrl.h and core/EndpointSettings.cpp (the refinement server in
  use), core/ProviderReadiness.cpp (what stops a provider right now) and the part
  of core/SettingsStore.cpp that reads the keys a provider needs.

  QUrl and QString::toInt are Qt's: the record \<^term>\<open>qurls\<close> holds what the code
  asks of them.
\<close>

record qurls =
  url_host :: "qstring \<Rightarrow> qstring"
  url_scheme :: "qstring \<Rightarrow> qstring"
  url_port :: "qstring \<Rightarrow> int option"
  to_int :: "qstring \<Rightarrow> int option"

section \<open>Endpoint URLs\<close>

definition chop_slashes :: "qstring \<Rightarrow> qstring" where
  "chop_slashes s = rev (dropWhile (\<lambda>c. c = CHR ''/'') (rev s))"

definition without_trailing_slashes :: "qchars \<Rightarrow> qstring \<Rightarrow> qstring" where
  "without_trailing_slashes q url = chop_slashes (trimmed q url)"

lemma length_trimmed: "length (trimmed q s) \<le> length s"
  unfolding trimmed_def by (metis length_dropWhile_le length_rev order_trans)

lemma length_without_trailing_slashes: "length (without_trailing_slashes q s) \<le> length s"
  unfolding without_trailing_slashes_def chop_slashes_def
  by (metis length_dropWhile_le length_rev length_trimmed order_trans)

lemma ends_with_length: "ends_with s p \<Longrightarrow> length p \<le> length s"
  by (metis ends_with_def length_rev prefix_length_le starts_with_prefix)

function strip_v1 :: "qchars \<Rightarrow> qstring \<Rightarrow> qstring" where
  "strip_v1 q base = (if ends_with base ''/v1''
     then strip_v1 q (without_trailing_slashes q (take (length base - 3) base)) else base)"
  by auto

termination strip_v1
proof (relation "measure (\<lambda>(q, s). length s)", goal_cases)
  case (2 q base)
  hence "length base \<ge> 3" using ends_with_length[of base "''/v1''"] by simp
  thus ?case
    using length_without_trailing_slashes[of q "take (length base - 3) base"] by simp
qed simp

declare strip_v1.simps [simp del]

definition endpoint_server_base :: "qchars \<Rightarrow> qstring \<Rightarrow> qstring" where
  "endpoint_server_base q url = strip_v1 q (without_trailing_slashes q url)"

definition url_port_or_default :: "qurls \<Rightarrow> qstring \<Rightarrow> int" where
  "url_port_or_default u url = (case url_port u url of Some p \<Rightarrow> p
     | None \<Rightarrow> if url_scheme u url = ''https'' then 443 else 80)"

definition same_origin :: "qchars \<Rightarrow> qurls \<Rightarrow> qstring \<Rightarrow> qstring \<Rightarrow> bool" where
  "same_origin q u first second = (let a = trimmed q first; b = trimmed q second in
     url_host u a \<noteq> [] \<and> url_scheme u a = url_scheme u b \<and> url_host u a = url_host u b
     \<and> url_port_or_default u a = url_port_or_default u b)"

definition endpoint_api_base :: "qchars \<Rightarrow> qstring \<Rightarrow> qstring" where
  "endpoint_api_base q url = (let base = endpoint_server_base q url in
     if base = [] then [] else base @ ''/v1'')"

record refinement_endpoint =
  ep_format :: qstring
  ep_api_base :: qstring
  ep_api_key :: qstring
  ep_model :: qstring

definition uses_proxy_key :: "qchars \<Rightarrow> qurls \<Rightarrow> refinement_settings \<Rightarrow> bool" where
  "uses_proxy_key q u r \<longleftrightarrow> re_api_key (rs_endpoint r) = []
     \<and> same_origin q u (re_base_url (rs_endpoint r)) (rs_cliproxy_base_url r)"

definition refinement_endpoint_key :: "qchars \<Rightarrow> qurls \<Rightarrow> refinement_settings \<Rightarrow> qstring" where
  "refinement_endpoint_key q u r =
     (if uses_proxy_key q u r then rs_cliproxy_api_key r else re_api_key (rs_endpoint r))"

definition resolved_refinement_endpoint ::
  "qchars \<Rightarrow> qurls \<Rightarrow> refinement_settings \<Rightarrow> refinement_endpoint" where
  "resolved_refinement_endpoint q u r = (let e = rs_endpoint r in
     if re_preset e = ''cliproxy''
     then \<lparr>ep_format = re_format e, ep_api_base = endpoint_api_base q (rs_cliproxy_base_url r),
           ep_api_key = rs_cliproxy_api_key r, ep_model = re_model e\<rparr>
     else \<lparr>ep_format = re_format e, ep_api_base = re_base_url e,
           ep_api_key = refinement_endpoint_key q u r, ep_model = re_model e\<rparr>)"

section \<open>Keys not read yet\<close>

datatype secret = OpenAiApiKey | CliproxyApiKey | SpeechEndpointKey | RefinementEndpointKey

definition secret_settings_key :: "secret \<Rightarrow> qstring" where
  "secret_settings_key k = (case k of OpenAiApiKey \<Rightarrow> ''openai/apiKey'' | CliproxyApiKey \<Rightarrow> ''cliproxy/apiKey''
     | SpeechEndpointKey \<Rightarrow> ''endpoint/speech/apiKey''
     | RefinementEndpointKey \<Rightarrow> ''endpoint/refinement/apiKey'')"

text \<open>The field each key fills; unreadProviderSecrets pairs them with a function.\<close>

definition set_secret :: "secret \<Rightarrow> qstring \<Rightarrow> app_settings \<Rightarrow> app_settings" where
  "set_secret k v s = (case k of
     SpeechEndpointKey \<Rightarrow> s\<lparr>as_speech := (as_speech s)\<lparr>sp_endpoint := (sp_endpoint (as_speech s))\<lparr>se_api_key := v\<rparr>\<rparr>\<rparr>
   | RefinementEndpointKey \<Rightarrow> s\<lparr>as_refinement := (as_refinement s)\<lparr>rs_endpoint :=
        (rs_endpoint (as_refinement s))\<lparr>re_api_key := v\<rparr>\<rparr>\<rparr>
   | CliproxyApiKey \<Rightarrow> s\<lparr>as_refinement := (as_refinement s)\<lparr>rs_cliproxy_api_key := v\<rparr>\<rparr>
   | OpenAiApiKey \<Rightarrow> s)"

definition remove_unread_key :: "secret \<Rightarrow> app_settings \<Rightarrow> app_settings" where
  "remove_unread_key k s =
     s\<lparr>as_unread_secret_keys := filter (\<lambda>x. x \<noteq> secret_settings_key k) (as_unread_secret_keys s)\<rparr>"

abbreviation refinement_endpoint_of :: "app_settings \<Rightarrow> refinement_endpoint_settings" where
  "refinement_endpoint_of s \<equiv> rs_endpoint (as_refinement s)"

definition set_refinement_endpoint :: "refinement_endpoint_settings \<Rightarrow> app_settings \<Rightarrow> app_settings" where
  "set_refinement_endpoint e s = s\<lparr>as_refinement := (as_refinement s)\<lparr>rs_endpoint := e\<rparr>\<rparr>"

definition detach_refinement_endpoint :: "qchars \<Rightarrow> qurls \<Rightarrow> app_settings \<Rightarrow> app_settings" where
  "detach_refinement_endpoint q u s = remove_unread_key RefinementEndpointKey
     (set_refinement_endpoint ((refinement_endpoint_of s)\<lparr>
        re_base_url := ep_api_base (resolved_refinement_endpoint q u (as_refinement s)),
        re_preset := [], re_api_key := []\<rparr>) s)"

record refinement_endpoint_edit =
  ee_format :: "qstring option"
  ee_base_url :: "qstring option"
  ee_model :: "qstring option"
  ee_preset :: "qstring option"

definition edit_moves_server :: "qchars \<Rightarrow> qurls \<Rightarrow> qstring \<Rightarrow> refinement_endpoint_edit \<Rightarrow> bool" where
  "edit_moves_server q u effective ed = (case ee_base_url ed of None \<Rightarrow> False
     | Some b \<Rightarrow> url_host u (trimmed q effective) \<noteq> [] \<and> \<not> same_origin q u b effective)"

definition edit_refinement_endpoint :: "qchars \<Rightarrow> qurls \<Rightarrow> app_settings \<Rightarrow> refinement_endpoint_edit \<Rightarrow> app_settings" where
  "edit_refinement_endpoint q u s ed =
     (let endpoint = refinement_endpoint_of s;
          effective = ep_api_base (resolved_refinement_endpoint q u (as_refinement s));
          url_changed = (case ee_base_url ed of None \<Rightarrow> False
             | Some b \<Rightarrow> without_trailing_slashes q b \<noteq> without_trailing_slashes q effective);
          url_edited = (case ee_base_url ed of None \<Rightarrow> False | Some b \<Rightarrow> trimmed q b \<noteq> effective);
          leaving_preset = (case ee_preset ed of None \<Rightarrow> False | Some p \<Rightarrow> p \<noteq> ''cliproxy'');
          custom_saved = (re_base_url endpoint \<noteq> []);
          s = (if (url_changed \<or> (leaving_preset \<and> \<not> custom_saved)) \<and> re_preset endpoint = ''cliproxy''
               then detach_refinement_endpoint q u s else s);
          s = (if edit_moves_server q u effective ed
               then remove_unread_key RefinementEndpointKey
                      (set_refinement_endpoint ((refinement_endpoint_of s)\<lparr>re_api_key := []\<rparr>) s)
               else s);
          e = refinement_endpoint_of s;
          e = (if url_edited then e\<lparr>re_base_url := trimmed q (the (ee_base_url ed))\<rparr> else e);
          e = (case ee_preset ed of None \<Rightarrow> e | Some p \<Rightarrow> e\<lparr>re_preset := p\<rparr>);
          e = (case ee_format ed of None \<Rightarrow> e | Some f \<Rightarrow> e\<lparr>re_format := f\<rparr>);
          e = (case ee_model ed of None \<Rightarrow> e | Some m \<Rightarrow> e\<lparr>re_model := trimmed q m\<rparr>)
      in set_refinement_endpoint e s)"

definition unread_provider_secrets ::
  "qchars \<Rightarrow> qurls \<Rightarrow> app_settings \<Rightarrow> provider_role \<Rightarrow> qstring \<Rightarrow> secret list" where
  "unread_provider_secrets q u s role provider =
     (let p = parse_provider_id provider;
          endpoint = (p = Some Endpoint);
          refinement = as_refinement s;
          refines = (role = Refinement);
          custom = (endpoint \<and> re_preset (rs_endpoint refinement) = []);
          endpoint_key = secret_settings_key RefinementEndpointKey;
          endpoint_proxy_key = (endpoint \<and> (\<not> custom \<or>
             (endpoint_key \<notin> set (as_unread_secret_keys s) \<and> uses_proxy_key q u refinement)));
          remote_proxy = (rs_cliproxy_base_url refinement \<noteq> [] \<and>
             ((p = Some OpenAi \<and> ac_openai_auth (as_accounts s) = OpenAiCliproxy) \<or>
              (p = Some Anthropic \<and> ac_anthropic_auth (as_accounts s) = AnthropicCliproxy)));
          secrets = (if role = Speech \<and> endpoint then [SpeechEndpointKey] else [])
            @ (if refines \<and> custom then [RefinementEndpointKey] else [])
            @ (if refines \<and> (endpoint_proxy_key \<or> remote_proxy) then [CliproxyApiKey] else [])
      in filter (\<lambda>k. secret_settings_key k \<in> set (as_unread_secret_keys s)) secrets)"

definition has_unread_provider_secrets ::
  "qchars \<Rightarrow> qurls \<Rightarrow> app_settings \<Rightarrow> provider_role \<Rightarrow> qstring \<Rightarrow> bool" where
  "has_unread_provider_secrets q u s role provider \<longleftrightarrow> unread_provider_secrets q u s role provider \<noteq> []"

lemma set_secret_unread [simp]: "as_unread_secret_keys (set_secret k v s) = as_unread_secret_keys s"
  by (cases k) (simp_all add: set_secret_def)

lemma unread_provider_secrets_mem:
  "k \<in> set (unread_provider_secrets q u s role provider) \<Longrightarrow>
   secret_settings_key k \<in> set (as_unread_secret_keys s)"
  unfolding unread_provider_secrets_def Let_def by (simp only: set_filter mem_Collect_eq)

text \<open>
  The loop of resolveProviderSecrets; \<^term>\<open>source\<close> is the secret store's answer
  to secret() and \<^term>\<open>failures\<close> to readFailure(). The result is the error,
  empty for none, with the settings it leaves.
\<close>

function resolve_provider_secrets ::
  "qchars \<Rightarrow> qurls \<Rightarrow> (secret \<Rightarrow> qstring) \<Rightarrow> (secret \<Rightarrow> qstring) \<Rightarrow> provider_role \<Rightarrow> qstring
   \<Rightarrow> app_settings \<Rightarrow> qstring \<times> app_settings" where
  "resolve_provider_secrets q u source failures role provider s =
     (case unread_provider_secrets q u s role provider of
        [] \<Rightarrow> ([], s)
      | k # _ \<Rightarrow>
          let s1 = set_secret k (source k) s in
          if source k = [] \<and> failures k \<noteq> [] then (failures k, s1)
          else resolve_provider_secrets q u source failures role provider
                 (s1\<lparr>as_unread_secret_keys :=
                       filter (\<lambda>x. x \<noteq> secret_settings_key k) (as_unread_secret_keys s1)\<rparr>))"
  by auto

termination resolve_provider_secrets
proof (relation "measure (\<lambda>(q, u, source, failures, role, provider, s). length (as_unread_secret_keys s))",
       goal_cases)
  case (2 q u source failures role provider s k ks s1)
  have "secret_settings_key k \<in> set (as_unread_secret_keys s)"
    using unread_provider_secrets_mem[of k q u s role provider] 2 by simp
  thus ?case using 2 by (simp add: length_filter_less)
qed simp

declare resolve_provider_secrets.simps [simp del]

section \<open>Readiness\<close>

datatype reachability = ReachUnknown | ReachOffline | ReachOnline

record found_runner =
  fr_id :: qstring
  fr_label :: qstring

text \<open>The facts fallbackProblem and the reports read.\<close>

record live_facts =
  lf_speech_endpoint_status :: qstring
  lf_speech_endpoint_checking :: bool
  lf_speech_endpoint_ok :: bool
  lf_refinement_endpoint_status :: qstring
  lf_refinement_endpoint_checking :: bool
  lf_refinement_endpoint_ok :: bool
  lf_runners :: "found_runner list"
  lf_detecting_runners :: bool
  lf_runners_checked :: bool
  lf_reachability :: reachability
  lf_signed_in :: "qstring \<rightharpoonup> bool"
  lf_downloaded_models :: "qstring list"

datatype readiness_problem = NoProblem | OfflineProblem | SignedOut | NoModel | NoRunner | NoServer
  | CheckFailed | SpokenLanguageProblem

text \<open>None of the octets: a part that is no number ends the loop.\<close>

fun octets_of :: "qurls \<Rightarrow> qstring list \<Rightarrow> int list option" where
  "octets_of u [] = Some []"
| "octets_of u (p # ps) = (case to_int u p of None \<Rightarrow> None | Some n \<Rightarrow> map_option (Cons n) (octets_of u ps))"

definition is_local_network_server :: "qchars \<Rightarrow> qurls \<Rightarrow> qstring \<Rightarrow> bool" where
  "is_local_network_server q u url =
     (let host = lower q (url_host u url) in
      if CHR '':'' \<in> set host
      then host = ''::1'' \<or> starts_with host ''fc'' \<or> starts_with host ''fd'' \<or> starts_with host ''fe80''
      else if CHR ''.'' \<notin> set host \<or> ends_with host ''.local'' \<or> ends_with host ''.lan''
              \<or> ends_with host ''.home.arpa''
      then True
      else case octets_of u (split_on CHR ''.'' host) of
        Some [a, b, c, d] \<Rightarrow> a = 127 \<or> a = 10 \<or> (a = 172 \<and> 16 \<le> b \<and> b \<le> 31)
            \<or> (a = 192 \<and> b = 168) \<or> (a = 169 \<and> b = 254)
      | _ \<Rightarrow> False)"

definition server_url :: "qchars \<Rightarrow> qurls \<Rightarrow> provider_role \<Rightarrow> app_settings \<Rightarrow> qstring" where
  "server_url q u role s = (if role = Speech then se_base_url (sp_endpoint (as_speech s))
     else ep_api_base (resolved_refinement_endpoint q u (as_refinement s)))"

record endpoint_check_facts =
  ec_status :: qstring
  ec_checking :: bool
  ec_ok :: bool

definition ec_answered :: "endpoint_check_facts \<Rightarrow> bool" where
  "ec_answered c \<longleftrightarrow> ec_status c \<noteq> [] \<and> \<not> ec_checking c"

definition endpoint_check :: "provider_role \<Rightarrow> live_facts \<Rightarrow> endpoint_check_facts" where
  "endpoint_check role f = (if role = Speech
     then \<lparr>ec_status = lf_speech_endpoint_status f, ec_checking = lf_speech_endpoint_checking f,
           ec_ok = lf_speech_endpoint_ok f\<rparr>
     else \<lparr>ec_status = lf_refinement_endpoint_status f, ec_checking = lf_refinement_endpoint_checking f,
           ec_ok = lf_refinement_endpoint_ok f\<rparr>)"

definition needs_internet :: "qchars \<Rightarrow> qurls \<Rightarrow> provider_role \<Rightarrow> qstring \<Rightarrow> app_settings \<Rightarrow> bool" where
  "needs_internet q u role provider s =
     (if parse_provider_id provider = Some Endpoint
      then \<not> is_local_network_server q u (server_url q u role s)
      else provider_signs_in provider)"

definition no_internet_failure :: provider_failure where
  "no_internet_failure = \<lparr>pf_kind = Network, pf_message = ''No internet connection'', pf_http_status = 0\<rparr>"

definition fallback_skips_spoken_language :: "speech_settings \<Rightarrow> qstring \<Rightarrow> bool" where
  "fallback_skips_spoken_language s provider \<longleftrightarrow>
     \<not> listens_for_spoken_language (chain_speech_settings s provider)"

definition fallback_problem ::
  "qchars \<Rightarrow> qurls \<Rightarrow> provider_role \<Rightarrow> qstring \<Rightarrow> app_settings \<Rightarrow> live_facts \<Rightarrow> readiness_problem" where
  "fallback_problem q u role provider s f =
     (let p = parse_provider_id provider in
      if p = Some LocalProvider \<and> role = Speech then
        (if ls_model_id (sp_local (as_speech s)) \<notin> set (lf_downloaded_models f) then NoModel
         else if fallback_skips_spoken_language (as_speech s) provider then SpokenLanguageProblem
         else NoProblem)
      else if p = Some LocalProvider then
        (let r = rs_local_runner (as_refinement s);
             running = list_ex (\<lambda>found. fr_id found = lr_runner r) (lf_runners f) in
         if lr_runner r \<noteq> [] \<and> lacks_model r then NoModel
         else if lf_runners_checked f \<and> \<not> lf_detecting_runners f \<and> \<not> running then NoRunner
         else NoProblem)
      else if role = Speech \<and> fallback_skips_spoken_language (as_speech s) provider then SpokenLanguageProblem
      else if p = Some Endpoint \<and> server_url q u role s = [] then NoServer
      else if p = Some Endpoint \<and> ec_answered (endpoint_check role f) \<and> \<not> ec_ok (endpoint_check role f)
      then CheckFailed
      else if lf_signed_in f provider = Some False then SignedOut
      else if lf_reachability f = ReachOffline \<and> needs_internet q u role provider s then OfflineProblem
      else NoProblem)"

section \<open>Reports\<close>

definition runner_not_running :: "app_settings \<Rightarrow> qstring" where
  "runner_not_running s = (let r = lr_runner (rs_local_runner (as_refinement s)) in
     if r = [] then ''No Ollama, LM Studio or llama-server is running''
     else local_runner_name r @ '' isn't running'')"

definition no_model :: "provider_role \<Rightarrow> qstring" where
  "no_model role = (if role = Speech then ''No model downloaded'' else ''No cleanup model chosen'')"

definition problem_text ::
  "readiness_problem \<Rightarrow> provider_role \<Rightarrow> app_settings \<Rightarrow> live_facts \<Rightarrow> qstring \<Rightarrow> qstring \<Rightarrow> qstring" where
  "problem_text problem role s f provider label = (case problem of
     NoProblem \<Rightarrow> [] | SpokenLanguageProblem \<Rightarrow> []
   | OfflineProblem \<Rightarrow> ''Can't reach '' @ sign_in_name provider label @ '' right now.''
   | SignedOut \<Rightarrow> ''Not signed in to '' @ sign_in_name provider label @ ''.''
   | NoModel \<Rightarrow> no_model role @ ''.''
   | NoRunner \<Rightarrow> runner_not_running s @ ''.''
   | NoServer \<Rightarrow> ''No server URL is set.''
   | CheckFailed \<Rightarrow> ec_status (endpoint_check role f))"

record provider_report =
  pr_id :: qstring
  pr_role :: provider_role
  pr_label :: qstring
  pr_signs_in :: bool
  pr_configured :: bool
  pr_signed_in :: "bool option"
  pr_usable :: "bool option"
  pr_problem :: qstring
  pr_problem_kind :: readiness_problem

definition make_provider_report ::
  "qchars \<Rightarrow> qurls \<Rightarrow> qlocale_names \<Rightarrow> provider_role \<Rightarrow> qstring \<Rightarrow> qstring \<Rightarrow> app_settings \<Rightarrow> live_facts
   \<Rightarrow> provider_report" where
  "make_provider_report q u names role i label s f =
     (let problem = fallback_problem q u role i s f;
          p = parse_provider_id i;
          local_runner = (role = Refinement \<and> p = Some LocalProvider);
          signs_in = provider_signs_in i;
          signed_in = lf_signed_in f i;
          sign_in_unseen = (signs_in \<and> signed_in = None);
          runner_unchecked = (local_runner \<and> (\<not> lf_runners_checked f \<or> lf_detecting_runners f));
          server_unchecked = (p = Some Endpoint \<and> \<not> ec_answered (endpoint_check role f))
      in \<lparr>pr_id = i, pr_role = role, pr_label = label, pr_signs_in = signs_in,
          pr_configured = (problem \<noteq> NoModel \<and> problem \<noteq> NoServer \<and>
             \<not> (local_runner \<and> lr_runner (rs_local_runner (as_refinement s)) = [])),
          pr_signed_in = signed_in,
          pr_usable = (if problem \<noteq> NoProblem then Some False
             else if \<not> sign_in_unseen \<and> \<not> runner_unchecked \<and> \<not> server_unchecked then Some True
             else None),
          pr_problem = (if problem = SpokenLanguageProblem
             then spoken_language_problem names (chain_speech_settings (as_speech s) i) label
             else problem_text problem role s f i label),
          pr_problem_kind = problem\<rparr>)"

definition provider_reports ::
  "qchars \<Rightarrow> qurls \<Rightarrow> qlocale_names \<Rightarrow> app_settings \<Rightarrow> live_facts \<Rightarrow> qstring list \<Rightarrow> qstring list
   \<Rightarrow> provider_labels \<Rightarrow> provider_report list" where
  "provider_reports q u names s f speech refinement labels =
     map (\<lambda>i. make_provider_report q u names Speech i (labels Speech i) s f) speech
     @ map (\<lambda>i. make_provider_report q u names Refinement i (labels Refinement i) s f) refinement"

definition report_state :: "bool option \<Rightarrow> qstring" where
  "report_state known = (case known of None \<Rightarrow> ''Unknown'' | Some k \<Rightarrow> if k then ''Yes'' else ''No'')"

definition provider_report_table :: "provider_report list \<Rightarrow> qstring list list" where
  "provider_report_table reports =
     [''Role'', ''ID'', ''Name'', ''Configured'', ''Signed in'', ''Usable'', ''Problem'']
     # map (\<lambda>r. [if pr_role r = Speech then ''Speech'' else ''Refinement'', pr_id r, pr_label r,
          report_state (Some (pr_configured r)),
          if pr_signs_in r then report_state (pr_signed_in r) else ''-'',
          report_state (pr_usable r), pr_problem r]) reports"


section \<open>Addresses\<close>

lemma same_origin_trimmed [simp]:
  "same_origin q u (trimmed q a) b = same_origin q u a b" "same_origin q u a (trimmed q b) = same_origin q u a b"
  by (simp_all add: same_origin_def)

lemma same_origin_refl: "url_host u (trimmed q a) \<noteq> [] \<Longrightarrow> same_origin q u a a"
  by (simp add: same_origin_def)


text \<open>The text without any white space: what an address is once it is trimmed.\<close>

definition unspaced :: "qchars \<Rightarrow> qstring \<Rightarrow> bool" where
  "unspaced q s \<longleftrightarrow> list_all (\<lambda>c. \<not> is_space q c) s"

lemma dropWhile_none: "list_all (\<lambda>c. \<not> P c) s \<Longrightarrow> dropWhile P s = s"
  by (cases s) auto

lemma trimmed_unspaced: "unspaced q s \<Longrightarrow> trimmed q s = s"
  by (simp add: trimmed_def unspaced_def dropWhile_none list_all_rev)

lemma unspaced_take: "unspaced q s \<Longrightarrow> unspaced q (take n s)"
  by (auto simp: unspaced_def list_all_iff dest: in_set_takeD)

lemma chop_slashes_take: "\<exists>n. chop_slashes s = take n s"
proof -
  have "rev s = takeWhile (\<lambda>c. c = CHR ''/'') (rev s) @ dropWhile (\<lambda>c. c = CHR ''/'') (rev s)" by simp
  hence "s = chop_slashes s @ rev (takeWhile (\<lambda>c. c = CHR ''/'') (rev s))"
    unfolding chop_slashes_def by (metis rev_append rev_rev_ident)
  thus ?thesis by (metis append_eq_conv_conj)
qed

lemma chop_slashes_idem [simp]: "chop_slashes (chop_slashes s) = chop_slashes s"
  by (simp add: chop_slashes_def)

lemma chop_slashes_snoc [simp]: "c \<noteq> CHR ''/'' \<Longrightarrow> chop_slashes (s @ [c]) = s @ [c]"
  by (simp add: chop_slashes_def)

lemma unspaced_chop: "unspaced q s \<Longrightarrow> unspaced q (chop_slashes s)"
  using chop_slashes_take[of s] unspaced_take by metis

lemma without_trailing_unspaced: "unspaced q s \<Longrightarrow> without_trailing_slashes q s = chop_slashes s"
  by (simp add: without_trailing_slashes_def trimmed_unspaced)

lemma strip_v1_done:
  "unspaced q s \<Longrightarrow> chop_slashes s = s \<Longrightarrow>
   unspaced q (strip_v1 q s) \<and> chop_slashes (strip_v1 q s) = strip_v1 q s \<and> \<not> ends_with (strip_v1 q s) ''/v1''"
proof (induction q s rule: strip_v1.induct)
  case (1 q s)
  show ?case
  proof (cases "ends_with s ''/v1''")
    case True
    let ?t = "without_trailing_slashes q (take (length s - 3) s)"
    have "unspaced q ?t" "chop_slashes ?t = ?t"
      using 1(2) by (simp_all add: without_trailing_unspaced unspaced_take unspaced_chop)
    thus ?thesis using 1(1)[OF True] True by (simp add: strip_v1.simps[of q s])
  qed (use 1(2,3) in \<open>simp add: strip_v1.simps[of q s]\<close>)
qed

lemma ends_with_append: "ends_with (s @ p) p"
  by (simp add: ends_with_def starts_with_def)

lemma strip_v1_segment:
  "unspaced q b \<Longrightarrow> chop_slashes b = b \<Longrightarrow> \<not> ends_with b ''/v1'' \<Longrightarrow> strip_v1 q (b @ ''/v1'') = b"
  using ends_with_append[of b "''/v1''"]
  by (simp add: strip_v1.simps[of q "b @ ''/v1''"] strip_v1.simps[of q b] without_trailing_unspaced)

section \<open>Reading the keys\<close>

lemma unread_after_set:
  "k \<in> set (unread_provider_secrets q u s role provider) \<Longrightarrow>
   k \<in> set (unread_provider_secrets q u (set_secret k v s) role provider)"
  by (cases k) (auto simp: unread_provider_secrets_def Let_def set_secret_def uses_proxy_key_def split: if_splits)

section \<open>Example addresses\<close>

text \<open>An address parser for https addresses without a port, for the examples.\<close>

definition https_urls :: qurls where
  "https_urls = \<lparr>url_host = (\<lambda>s. if starts_with s ''https://'' then takeWhile (\<lambda>c. c \<noteq> CHR ''/'') (drop 8 s) else []),
     url_scheme = (\<lambda>s. ''https''), url_port = (\<lambda>s. None), to_int = (\<lambda>s. None)\<rparr>"

definition example_endpoint :: "qstring \<Rightarrow> app_settings" where
  "example_endpoint preset = default_app_settings\<lparr>as_refinement := default_refinement_settings\<lparr>
     rs_cliproxy_base_url := ''https://p'',
     rs_endpoint := (rs_endpoint default_refinement_settings)\<lparr>re_preset := preset, re_base_url := ''https://a/v1'',
       re_api_key := ''key''\<rparr>\<rparr>\<rparr>"

lemmas endpoint_eval = example_endpoint_def https_urls_def edit_refinement_endpoint_def Let_def
  set_refinement_endpoint_def edit_moves_server_def resolved_refinement_endpoint_def same_origin_def
  remove_unread_key_def starts_with_def trimmed_def ascii_space_def url_port_or_default_def
  endpoint_api_base_def endpoint_server_base_def without_trailing_slashes_def chop_slashes_def
  ends_with_def strip_v1.simps

section \<open>Properties\<close>

text \<open>
  Reading the keys a provider needs ends, and either reports no error and leaves none of them unread, or
  reports the failure of one that it leaves unread for another try; no key it did not have to read is touched.
\<close>

theorem resolving_reads_every_key:
  assumes "resolve_provider_secrets q u source failures role provider s = (e, s')"
  shows "(e = [] \<longleftrightarrow> \<not> has_unread_provider_secrets q u s' role provider)
    \<and> set (as_unread_secret_keys s') \<subseteq> set (as_unread_secret_keys s)
    \<and> as_accounts s' = as_accounts s"
  using assms
proof (induction q u source failures role provider s rule: resolve_provider_secrets.induct)
  case (1 q u source failures role provider s)
  show ?case
  proof (cases "unread_provider_secrets q u s role provider")
    case Nil
    thus ?thesis using 1(2) by (auto simp: resolve_provider_secrets.simps[of q u] has_unread_provider_secrets_def)
  next
    case (Cons k ks)
    let ?s1 = "set_secret k (source k) s"
    have acc: "as_accounts ?s1 = as_accounts s" by (cases k) (simp_all add: set_secret_def)
    show ?thesis
    proof (cases "source k = [] \<and> failures k \<noteq> []")
      case True
      hence "e = failures k" "s' = ?s1"
        using 1(2) Cons by (simp_all add: resolve_provider_secrets.simps[of q u] Let_def)
      moreover have "k \<in> set (unread_provider_secrets q u ?s1 role provider)"
        using Cons by (intro unread_after_set) simp
      ultimately show ?thesis using True acc by (auto simp: has_unread_provider_secrets_def)
    next
      case False
      have "resolve_provider_secrets q u source failures role provider
          (?s1\<lparr>as_unread_secret_keys := filter (\<lambda>x. x \<noteq> secret_settings_key k) (as_unread_secret_keys ?s1)\<rparr>) = (e, s')"
        using 1(2) Cons False by (auto simp: resolve_provider_secrets.simps[of q u source failures role provider s] Let_def)
      from 1(1)[OF Cons refl False this] show ?thesis using acc by auto
    qed
  qed
qed

lemma resolving_reads_every_key_witness:
  "\<forall>u. \<exists>e s'. resolve_provider_secrets ascii u (\<lambda>k. ''value'') (\<lambda>k. []) Speech ''endpoint''
      (default_app_settings\<lparr>as_unread_secret_keys := [''endpoint/speech/apiKey'']\<rparr>) = (e, s')
     \<and> (e = [] \<longleftrightarrow> \<not> has_unread_provider_secrets ascii u s' Speech ''endpoint'')"
  using resolving_reads_every_key by (metis surj_pair)

text \<open>
  The address a request goes to is settled after one pass: deriving it again from itself changes nothing,
  it never repeats the version segment and never has a slash at its end.
\<close>

theorem api_base_settled:
  assumes "unspaced q (trimmed q url)" "unspaced q ''/v1''"
  shows "endpoint_api_base q (endpoint_api_base q url) = endpoint_api_base q url
    \<and> \<not> ends_with (endpoint_server_base q url) ''/v1''
    \<and> without_trailing_slashes q (endpoint_api_base q url) = endpoint_api_base q url"
proof -
  let ?b = "endpoint_server_base q url"
  have b: "unspaced q ?b" "chop_slashes ?b = ?b" "\<not> ends_with ?b ''/v1''"
    using strip_v1_done[of q "without_trailing_slashes q url"] assms(1)
    by (auto simp: endpoint_server_base_def without_trailing_slashes_def unspaced_chop)
  have slash: "chop_slashes (?b @ ''/v1'') = ?b @ ''/v1''"
    using chop_slashes_snoc[of "CHR ''1''" "?b @ ''/v''"] by simp
  have "unspaced q (?b @ ''/v1'')" using b(1) assms(2) by (simp add: unspaced_def)
  hence settled: "without_trailing_slashes q (?b @ ''/v1'') = ?b @ ''/v1''"
    using slash by (simp add: without_trailing_unspaced)
  have "endpoint_server_base q (?b @ ''/v1'') = ?b"
    unfolding endpoint_server_base_def[of q "?b @ ''/v1''"] settled by (rule strip_v1_segment[OF b])
  moreover have "endpoint_server_base q [] = []"
    by (simp add: endpoint_server_base_def without_trailing_slashes_def chop_slashes_def strip_v1.simps
        ends_with_def starts_with_def)
  ultimately show ?thesis
    using b(3) settled
    by (simp add: endpoint_api_base_def Let_def) (simp add: without_trailing_slashes_def chop_slashes_def)
qed

lemma api_base_settled_witness:
  "endpoint_api_base ascii (endpoint_api_base ascii '' https://host/v1// '') = endpoint_api_base ascii '' https://host/v1// ''"
  using api_base_settled[of ascii "'' https://host/v1// ''"]
  by (simp add: unspaced_def trimmed_def ascii_space_def)

text \<open>
  C22. A key entered for a Custom server whose address has a host never goes to another one: after an edit a key
  still held is the same, and held for the server it was entered for. The one edit excepted is that which, under
  the proxy preset, retypes the preset's own address with other slashes at its end (see below).
\<close>

theorem key_stays_with_its_server:
  assumes "url_host u (trimmed q (re_base_url (refinement_endpoint_of s))) \<noteq> []"
    and "re_api_key (refinement_endpoint_of (edit_refinement_endpoint q u s ed)) \<noteq> []"
    and "\<And>b effective. re_preset (refinement_endpoint_of s) = ''cliproxy'' \<Longrightarrow> ee_base_url ed = Some b \<Longrightarrow>
      effective = endpoint_api_base q (rs_cliproxy_base_url (as_refinement s)) \<Longrightarrow>
      without_trailing_slashes q b = without_trailing_slashes q effective \<Longrightarrow> trimmed q b = effective"
  shows "same_origin q u (re_base_url (refinement_endpoint_of (edit_refinement_endpoint q u s ed)))
      (re_base_url (refinement_endpoint_of s))
    \<and> re_api_key (refinement_endpoint_of (edit_refinement_endpoint q u s ed)) = re_api_key (refinement_endpoint_of s)"
proof (cases "ee_base_url ed")
  case None
  thus ?thesis using assms(1,2) same_origin_refl[OF assms(1)]
    by (auto simp: edit_refinement_endpoint_def Let_def set_refinement_endpoint_def edit_moves_server_def
        detach_refinement_endpoint_def remove_unread_key_def split: option.splits if_splits)
next
  case (Some b)
  show ?thesis
  proof (cases "re_preset (refinement_endpoint_of s) = ''cliproxy''")
    case True
    thus ?thesis using Some assms(2) assms(3)[OF True Some refl] same_origin_refl[OF assms(1)]
      by (auto simp: edit_refinement_endpoint_def Let_def set_refinement_endpoint_def edit_moves_server_def
          resolved_refinement_endpoint_def detach_refinement_endpoint_def remove_unread_key_def
          split: option.splits if_splits)
  next
    case False
    thus ?thesis using Some assms(1,2) same_origin_refl[OF assms(1)]
      by (auto simp: edit_refinement_endpoint_def Let_def set_refinement_endpoint_def edit_moves_server_def
          resolved_refinement_endpoint_def remove_unread_key_def split: option.splits if_splits)
  qed
qed

lemma key_stays_with_its_server_witness:
  "let ed = \<lparr>ee_format = None, ee_base_url = Some ''https://a/'', ee_model = None, ee_preset = None\<rparr>
   in same_origin ascii https_urls
        (re_base_url (refinement_endpoint_of (edit_refinement_endpoint ascii https_urls (example_endpoint []) ed)))
        ''https://a/v1''"
  using key_stays_with_its_server[of https_urls ascii "example_endpoint []"
      "\<lparr>ee_format = None, ee_base_url = Some ''https://a/'', ee_model = None, ee_preset = None\<rparr>"]
  by (simp add: endpoint_eval)

text \<open>
  C23. Retyping the proxy preset's own address, a slash added at its end, overwrites the Custom server's
  address while its key stays: the key entered for that server is then held for the proxy's.
\<close>

theorem retyped_preset_address_takes_the_key:
  assumes "re_preset (refinement_endpoint_of s) = ''cliproxy''"
    and "without_trailing_slashes q b = without_trailing_slashes q effective" "trimmed q b \<noteq> effective"
    and "effective = endpoint_api_base q (rs_cliproxy_base_url (as_refinement s))"
    and "same_origin q u b effective"
    and "ed = \<lparr>ee_format = None, ee_base_url = Some b, ee_model = None, ee_preset = None\<rparr>"
  shows "re_base_url (refinement_endpoint_of (edit_refinement_endpoint q u s ed)) = trimmed q b
    \<and> re_api_key (refinement_endpoint_of (edit_refinement_endpoint q u s ed)) = re_api_key (refinement_endpoint_of s)"
  using assms
  by (auto simp: edit_refinement_endpoint_def Let_def set_refinement_endpoint_def edit_moves_server_def
      resolved_refinement_endpoint_def)


lemma retyped_preset_address_takes_the_key_witness:
  "let s = edit_refinement_endpoint ascii https_urls (example_endpoint ''cliproxy'')
       \<lparr>ee_format = None, ee_base_url = Some ''https://p/v1/'', ee_model = None, ee_preset = None\<rparr>
   in re_base_url (refinement_endpoint_of s) = ''https://p/v1/'' \<and> re_api_key (refinement_endpoint_of s) = ''key''"
  using retyped_preset_address_takes_the_key[of "example_endpoint ''cliproxy''" ascii "''https://p/v1/''"
      "endpoint_api_base ascii ''https://p''" https_urls]
  by (simp add: endpoint_eval)

end
