(* ===== verification/Preparation.thy ===== *)
theory Preparation
  imports Readiness
begin

text \<open>
  providers/PreparationRunner.cpp and PreparationJob.h: provider preparations off
  the GUI thread, one at a time.

  A preparation and the thread that runs it share a number, handed out in order:
  \<^term>\<open>rn_current\<close> is m_current and \<^term>\<open>rn_threads\<close> is m_threads. A thread
  that finishes is the event \<^term>\<open>thread_finished\<close>. What run() of a job returns
  on the worker is the event's, so a job is what identifies it: its number, which
  its owner's apply() is looked up by, and whether run and apply are set.
\<close>

datatype job_run = NoRun | RunProvider nat | RunFixed "provider_failure option"

record prep_job =
  jb_shows_refresh :: bool
  jb_run :: job_run
  jb_apply :: "nat option"

datatype prep_task =
    PrepareSpeech "prep_job option" "prep_job option"
  | PrepareRefiner prep_job
  | ResolveSecrets provider_role qstring app_settings

record runner =
  rn_current :: "(nat \<times> prep_task) option"
  rn_threads :: "nat list"
  rn_next :: nat

definition runner_init :: runner where
  "runner_init = \<lparr>rn_current = None, rn_threads = [], rn_next = 0\<rparr>"

definition runner_cancel :: "runner \<Rightarrow> runner" where
  "runner_cancel r = (case rn_current r of None \<Rightarrow> r | Some _ \<Rightarrow> r\<lparr>rn_current := None\<rparr>)"

definition runner_run :: "prep_task \<Rightarrow> runner \<Rightarrow> runner" where
  "runner_run t r = (let r1 = runner_cancel r in
     r1\<lparr>rn_current := Some (rn_next r1, t), rn_threads := rn_threads r1 @ [rn_next r1],
        rn_next := Suc (rn_next r1)\<rparr>)"

text \<open>prepareSpeech, prepareRefiner and resolveSecrets each run their preparation.\<close>

definition prepare_speech :: "prep_job option \<Rightarrow> prep_job option \<Rightarrow> runner \<Rightarrow> runner" where
  "prepare_speech speech refiner = runner_run (PrepareSpeech speech refiner)"

definition prepare_refiner :: "prep_job \<Rightarrow> runner \<Rightarrow> runner" where
  "prepare_refiner job = runner_run (PrepareRefiner job)"

definition resolve_secrets :: "provider_role \<Rightarrow> qstring \<Rightarrow> app_settings \<Rightarrow> runner \<Rightarrow> runner" where
  "resolve_secrets role provider s = runner_run (ResolveSecrets role provider s)"

text \<open>
  QThread::finished: the preparation's finish() runs only while it is still the
  current one.
\<close>

definition thread_finished :: "nat \<Rightarrow> runner \<Rightarrow> prep_task option \<times> runner" where
  "thread_finished i r = (let r1 = r\<lparr>rn_threads := remove1 i (rn_threads r)\<rparr> in
     case rn_current r1 of
       None \<Rightarrow> (None, r1)
     | Some (c, t) \<Rightarrow> if c = i then (Some t, r1\<lparr>rn_current := None\<rparr>) else (None, r1))"

section \<open>The work\<close>

text \<open>\<^term>\<open>outcome j\<close> is what run() of the provider's job j returned on the worker.\<close>

type_synonym job_results = "nat \<Rightarrow> provider_failure option"

definition run_job :: "job_results \<Rightarrow> prep_job \<Rightarrow> provider_failure option" where
  "run_job outcome job = (case jb_run job of
     NoRun \<Rightarrow> Some \<lparr>pf_kind = Unavailable, pf_message = ''Provider preparation unavailable'', pf_http_status = 0\<rparr>
   | RunProvider n \<Rightarrow> outcome n
   | RunFixed f \<Rightarrow> f)"

definition speech_work :: "job_results \<Rightarrow> prep_job option \<Rightarrow> prep_job option
    \<Rightarrow> provider_failure option \<times> provider_failure option" where
  "speech_work outcome speech refiner =
     (let speech_failure = (case speech of None \<Rightarrow> None | Some j \<Rightarrow> run_job outcome j);
          refiner_failure = (if speech_failure = None
            then (case refiner of None \<Rightarrow> None | Some j \<Rightarrow> run_job outcome j) else None)
      in (speech_failure, refiner_failure))"

text \<open>applyJob; \<^term>\<open>app\<close> is the owner's apply functions.\<close>

definition apply_job :: "(nat \<Rightarrow> provider_failure option \<Rightarrow> 's step) \<Rightarrow> prep_job option
    \<Rightarrow> provider_failure option \<Rightarrow> 's step" where
  "apply_job app job failure s = (case job of
     None \<Rightarrow> Some s
   | Some j \<Rightarrow> (case jb_apply j of None \<Rightarrow> Some s | Some a \<Rightarrow> app a failure s))"

section \<open>Only the latest preparation reports\<close>

text \<open>
  The states a runner goes through: threads run until they finish, in any order.
\<close>

definition runner_ok :: "runner \<Rightarrow> bool" where
  "runner_ok r \<longleftrightarrow> distinct (rn_threads r) \<and> (\<forall>i\<in>set (rn_threads r). i < rn_next r) \<and>
     (case rn_current r of None \<Rightarrow> True | Some (c, _) \<Rightarrow> c \<in> set (rn_threads r))"

lemma runner_ok_init [simp]: "runner_ok runner_init"
  by (simp add: runner_ok_def runner_init_def)

lemma runner_ok_cancel [simp]: "runner_ok r \<Longrightarrow> runner_ok (runner_cancel r)"
  by (auto simp: runner_ok_def runner_cancel_def split: option.splits)

lemma runner_ok_run [simp]:
  assumes "runner_ok r" shows "runner_ok (runner_run t r)"
proof -
  have ok: "runner_ok (runner_cancel r)" using assms by simp
  hence "rn_next (runner_cancel r) \<notin> set (rn_threads (runner_cancel r))"
    by (auto simp: runner_ok_def)
  with ok show ?thesis by (auto simp: runner_ok_def runner_run_def Let_def)
qed

lemma runner_ok_finished [simp]: "runner_ok r \<Longrightarrow> runner_ok (snd (thread_finished i r))"
  by (auto simp: runner_ok_def thread_finished_def Let_def split: option.splits dest: notin_set_remove1)

datatype runner_event = RunnerStarts prep_task | RunnerCancels | ThreadFinishes nat

definition runner_step :: "runner_event \<Rightarrow> runner \<Rightarrow> (nat \<times> prep_task) option \<times> runner" where
  "runner_step e r = (case e of
     RunnerStarts t \<Rightarrow> (None, runner_run t r)
   | RunnerCancels \<Rightarrow> (None, runner_cancel r)
   | ThreadFinishes i \<Rightarrow> (let (t, r1) = thread_finished i r in (map_option (Pair i) t, r1)))"

text \<open>The preparations that reported over a run of events, and the runner after.\<close>

fun runner_trace :: "runner_event list \<Rightarrow> runner \<Rightarrow> (nat \<times> prep_task) list \<times> runner" where
  "runner_trace [] r = ([], r)"
| "runner_trace (e # es) r =
     (let (o1, r1) = runner_step e r; (os, r2) = runner_trace es r1
      in ((case o1 of None \<Rightarrow> os | Some x \<Rightarrow> x # os), r2))"

lemma runner_ok_step: "runner_ok r \<Longrightarrow> runner_ok (snd (runner_step e r))"
  using runner_ok_finished[of r] by (cases e) (auto simp: runner_step_def split_beta)

text \<open>No preparation below the floor ever reports again.\<close>

definition rn_floor :: "runner \<Rightarrow> nat" where
  "rn_floor r = (case rn_current r of None \<Rightarrow> rn_next r | Some (c, _) \<Rightarrow> c)"

lemma rn_floor_le: "runner_ok r \<Longrightarrow> rn_floor r \<le> rn_next r"
  by (auto simp: runner_ok_def rn_floor_def less_imp_le split: option.splits)

lemma rn_next_mono: "rn_next r \<le> rn_next (snd (runner_step e r))"
  by (cases e) (auto simp: runner_step_def runner_run_def runner_cancel_def thread_finished_def Let_def
      split: option.splits prod.splits)

lemma rn_floor_run [simp]: "rn_floor (runner_run t r) = rn_next r"
  by (simp add: rn_floor_def runner_run_def Let_def runner_cancel_def split: option.splits)

lemma rn_floor_cancel: "runner_ok r \<Longrightarrow> rn_floor r \<le> rn_floor (runner_cancel r)"
  by (auto simp: runner_ok_def rn_floor_def runner_cancel_def less_imp_le split: option.splits)

lemma runner_step_floor:
  "runner_ok r \<Longrightarrow> rn_floor r \<le> rn_floor (snd (runner_step e r))"
proof (cases e)
  case (RunnerStarts t)
  thus "runner_ok r \<Longrightarrow> ?thesis" by (simp add: runner_step_def rn_floor_le)
next
  case RunnerCancels
  thus "runner_ok r \<Longrightarrow> ?thesis" by (simp add: runner_step_def rn_floor_cancel)
next
  case (ThreadFinishes i)
  thus "runner_ok r \<Longrightarrow> ?thesis" using rn_floor_le[of r]
    by (auto simp: runner_step_def thread_finished_def rn_floor_def Let_def split: option.splits prod.splits)
qed

lemma runner_step_report:
  assumes "runner_ok r" "runner_step e r = (Some (i, t), r')"
  shows "i = rn_floor r \<and> rn_current r = Some (i, t) \<and> i < rn_floor r'"
proof -
  have "e = ThreadFinishes i"
    using assms(2) by (cases e) (auto simp: runner_step_def split: prod.splits)
  thus ?thesis using assms
    by (auto simp: runner_step_def thread_finished_def rn_floor_def Let_def runner_ok_def
        split: option.splits prod.splits if_splits)
qed

lemma runner_trace_floor:
  "runner_ok r \<Longrightarrow> runner_trace es r = (os, r') \<Longrightarrow>
   (\<forall>x\<in>set os. rn_floor r \<le> fst x) \<and> sorted_wrt (<) (map fst os)"
proof (induction es arbitrary: r os)
  case (Cons e es)
  obtain o1 r1 where step: "runner_step e r = (o1, r1)" by (cases "runner_step e r")
  obtain os2 where rest: "runner_trace es r1 = (os2, r')" using Cons.prems step by (auto split: prod.splits)
  have ok: "runner_ok r1" using runner_ok_step[OF Cons.prems(1), of e] step by simp
  note IH = Cons.IH[OF ok rest]
  have fl: "rn_floor r \<le> rn_floor r1" using runner_step_floor[OF Cons.prems(1), of e] step by simp
  show ?case
  proof (cases o1)
    case None
    thus ?thesis using IH fl Cons.prems(2) step rest by (auto intro: order_trans)
  next
    case (Some x)
    obtain i t where x: "x = (i, t)" by (cases x)
    have "i = rn_floor r" "i < rn_floor r1"
      using runner_step_report[OF Cons.prems(1)] step Some x by auto
    thus ?thesis using IH fl Cons.prems(2) step rest Some x by (force intro: order_trans)
  qed
qed simp

lemma runner_trace_ok: "runner_ok r \<Longrightarrow> runner_ok (snd (runner_trace es r))"
proof (induction es arbitrary: r)
  case (Cons e es)
  obtain o1 r1 where step: "runner_step e r = (o1, r1)" by (cases "runner_step e r")
  have "runner_ok r1" using runner_ok_step[OF Cons.prems, of e] step by simp
  from Cons.IH[OF this] show ?case using step by (simp add: split_beta)
qed simp

section \<open>Properties\<close>

text \<open>
  C15. However preparations start, are cancelled and finish, each reports at most once and in the order they
  started; and once another starts, none started before it ever reports again, although its thread still runs.
\<close>

theorem only_the_last_preparation_reports:
  assumes "runner_trace es runner_init = (os, r)" "runner_trace es' (runner_run t r) = (os', r')"
  shows "sorted_wrt (<) (map fst os) \<and> (\<forall>(i, t')\<in>set os'. rn_next r \<le> i) \<and> sorted_wrt (<) (map fst os')"
proof -
  have "runner_ok (runner_run t r)" using runner_trace_ok[of runner_init es] assms(1) by simp
  from runner_trace_floor[OF this assms(2)] runner_trace_floor[OF runner_ok_init assms(1)] show ?thesis
    by (auto simp: split_beta)
qed

definition example_refresh :: prep_task where
  "example_refresh = ResolveSecrets Speech ''codex'' default_app_settings"

lemma only_the_last_preparation_reports_witness:
  "\<exists>os r. runner_trace [RunnerStarts example_refresh] runner_init = ([], r)
    \<and> runner_trace [ThreadFinishes 0, ThreadFinishes 1] (runner_run example_refresh r) = (os, snd (runner_trace
        [ThreadFinishes 0, ThreadFinishes 1] (runner_run example_refresh r)))
    \<and> map fst os = [1] \<and> (\<forall>(i, t')\<in>set os. rn_next r \<le> i)"
proof -
  obtain os r r' where r: "runner_trace [RunnerStarts example_refresh] runner_init = ([], r)"
    and os: "runner_trace [ThreadFinishes 0, ThreadFinishes 1] (runner_run example_refresh r) = (os, r')"
    and one: "map fst os = [1]"
    by (simp add: runner_step_def runner_run_def runner_init_def runner_cancel_def thread_finished_def Let_def)
  from only_the_last_preparation_reports[OF r os] r os one show ?thesis by auto
qed

end
