(* ===== verification/Transcript.thy ===== *)
theory Transcript
  imports QtText
begin

text \<open>
  core/TranscriptState.cpp: the words of one Dictation Session, and
  core/WordPreview.cpp, the last words of a text.

  The members of TranscriptState are the record \<^term>\<open>transcript\<close>; each slot is
  the change it makes to them (\<^term>\<open>ts_set_partial\<close> and the others), followed by
  the emission of changed. The record is extensible: the objects that share the
  transcript extend it, so a handler of changed acts on the whole state.
\<close>

record transcript =
  ts_finals :: "qstring list"
  ts_partial :: qstring
  ts_attempt_base :: qstring
  ts_attempt_language :: qstring
  ts_heard_language :: qstring

definition ts_init :: transcript where
  "ts_init = \<lparr>ts_finals = [], ts_partial = [], ts_attempt_base = [],
     ts_attempt_language = [], ts_heard_language = []\<rparr>"

section \<open>Queries\<close>

definition ts_text :: "qchars \<Rightarrow> 'a transcript_scheme \<Rightarrow> qstring" where
  "ts_text q t = simplified q (join '' ''
     (if blank q (ts_partial t) then ts_finals t
      else ts_finals t @ [trimmed q (ts_partial t)]))"

definition ts_is_empty :: "qchars \<Rightarrow> 'a transcript_scheme \<Rightarrow> bool" where
  "ts_is_empty q t \<longleftrightarrow> trimmed q (ts_text q t) = []"

definition ts_heard :: "qchars \<Rightarrow> 'a transcript_scheme \<Rightarrow> qstring" where
  "ts_heard q t = (if blank q (ts_partial t) then ts_heard_language t else ts_attempt_language t)"

section \<open>Slots\<close>

type_synonym ('a) changed_handler = "qstring \<Rightarrow> 'a transcript_scheme step"

definition ts_clear :: "qchars \<Rightarrow> 'a changed_handler \<Rightarrow> 'a transcript_scheme step" where
  "ts_clear q changed t = (let t' = t\<lparr>ts_finals := [], ts_partial := [], ts_attempt_base := [],
     ts_attempt_language := [], ts_heard_language := []\<rparr> in changed (ts_text q t') t')"

definition ts_set_partial :: "qchars \<Rightarrow> 'a changed_handler \<Rightarrow> qstring \<Rightarrow> 'a transcript_scheme step" where
  "ts_set_partial q changed p t =
     (if ts_partial t = p then Some t
      else let t' = t\<lparr>ts_partial := p\<rparr> in changed (ts_text q t') t')"

definition ts_commit_final :: "qchars \<Rightarrow> 'a changed_handler \<Rightarrow> qstring \<Rightarrow> 'a transcript_scheme step" where
  "ts_commit_final q changed final t =
     (let cleaned = simplified q final;
          t1 = (if cleaned \<noteq> []
                then t\<lparr>ts_finals := ts_finals t @ [cleaned], ts_heard_language := ts_attempt_language t\<rparr>
                else t);
          t2 = t1\<lparr>ts_partial := []\<rparr>
      in changed (ts_text q t2) t2)"

definition ts_replace_finals :: "qchars \<Rightarrow> 'a changed_handler \<Rightarrow> qstring \<Rightarrow> 'a transcript_scheme step" where
  "ts_replace_finals q changed txt t =
     (let cleaned = simplified q txt in
      if cleaned = [] then Some t
      else let t' = t\<lparr>ts_finals := [cleaned], ts_partial := []\<rparr> in changed (ts_text q t') t')"

definition ts_start_attempt :: "qchars \<Rightarrow> qstring \<Rightarrow> 'a transcript_scheme \<Rightarrow> 'a transcript_scheme" where
  "ts_start_attempt q language t =
     t\<lparr>ts_attempt_base := ts_text q t, ts_attempt_language := language\<rparr>"

definition ts_replace_attempt_finals ::
  "qchars \<Rightarrow> 'a changed_handler \<Rightarrow> qstring \<Rightarrow> 'a transcript_scheme step" where
  "ts_replace_attempt_finals q changed attempt t =
     (let t1 = (if \<not> blank q attempt then t\<lparr>ts_heard_language := ts_attempt_language t\<rparr> else t)
      in ts_replace_finals q changed
           (if ts_attempt_base t1 = [] then attempt else ts_attempt_base t1 @ '' '' @ attempt) t1)"

section \<open>WordPreview\<close>

text \<open>
  The loop walks back from the end of the text over \<^term>\<open>count\<close> words, reading
  the text from its end: the argument is the reversed prefix before start.
\<close>

fun word_preview_back :: "(char \<Rightarrow> bool) \<Rightarrow> nat \<Rightarrow> qstring \<Rightarrow> qstring" where
  "word_preview_back sp 0 r = r"
| "word_preview_back sp (Suc n) r =
     (if r = [] then r
      else word_preview_back sp n (dropWhile (\<lambda>c. \<not> sp c) (dropWhile sp r)))"

definition last_words :: "qchars \<Rightarrow> qstring \<Rightarrow> int \<Rightarrow> qstring" where
  "last_words q text count =
     (if count \<le> 0 then []
      else simplified q (drop (length (word_preview_back (is_space q) (nat count) (rev text))) text))"

section \<open>The invariant\<close>

text \<open>Every final is a non-empty text without white space to strip.\<close>

definition ts_ok :: "qchars \<Rightarrow> 'a transcript_scheme \<Rightarrow> bool" where
  "ts_ok q t \<longleftrightarrow> (\<forall>f\<in>set (ts_finals t). f \<noteq> [] \<and> simplified q f = f)"

lemma ts_ok_init [simp]: "ts_ok q ts_init"
  by (simp add: ts_ok_def ts_init_def)

definition ts_words :: "qchars \<Rightarrow> 'a transcript_scheme \<Rightarrow> qstring list" where
  "ts_words q t = concat (map (words_of (is_space q)) (ts_finals t @ [ts_partial t]))"

lemma words_of_join_concat:
  "sp CHR '' '' \<Longrightarrow> words_of sp (join '' '' xs) = concat (map (words_of sp) xs)"
  by (induction "'' ''" xs rule: join.induct) (auto simp: words_of_sep[where s = "_" and c = "CHR '' ''"])

text \<open>The text is the words of the finals and of the partial, one space apart.\<close>

lemma ts_text_words:
  assumes "is_space q CHR '' ''"
  shows "ts_text q t = join '' '' (ts_words q t)"
proof -
  have "blank q (ts_partial t) \<Longrightarrow> words_of (is_space q) (ts_partial t) = []"
    by (simp add: blank_iff words_of_eq_Nil)
  thus ?thesis
    using assms by (simp add: ts_text_def simplified_def words_of_join_concat ts_words_def)
qed

section \<open>The last words\<close>

lemma words_of_append_sep:
  "s = [] \<or> sp (last s) \<Longrightarrow> words_of sp (s @ t) = words_of sp s @ words_of sp t"
  using words_of_sep[of sp "last s" "butlast s" t] words_of_sep[of sp "last s" "butlast s" "[]"]
  by (cases s rule: rev_cases) auto

text \<open>Leaving out the last word of a text read backwards.\<close>

lemma words_of_drop_last_word:
  assumes "r2 = dropWhile (\<lambda>c. \<not> sp c) (dropWhile sp r)"
  obtains w u where "rev r = rev r2 @ w" "r2 = [] \<or> sp (hd r2)"
    "words_of sp w = (if list_all sp r then [] else [u])"
proof -
  let ?r1 = "dropWhile sp r" and ?v = "takeWhile (\<lambda>c. \<not> sp c) (dropWhile sp r)"
  let ?w = "rev ?v @ rev (takeWhile sp r)"
  have "r = takeWhile sp r @ ?v @ r2" unfolding assms by simp
  from arg_cong[OF this, of rev] have split: "rev r = rev r2 @ ?w" by (simp only: rev_append append_assoc)
  have edge: "r2 = [] \<or> sp (hd r2)" using hd_dropWhile[of "\<lambda>c. \<not> sp c" "dropWhile sp r"] unfolding assms by auto
  have blanks: "list_all sp (rev (takeWhile sp r))"
    by (auto simp: list_all_iff dest: set_takeWhileD)
  have word: "words_of sp ?w = (if list_all sp r then [] else [rev ?v])"
  proof (cases "list_all sp r")
    case True
    hence "?r1 = []" by (simp only: dropWhile_eq_Nil_conv list_all_iff)
    thus ?thesis using True blanks by (simp only: takeWhile.simps rev.simps append_Nil if_True words_of_eq_Nil)
  next
    case False
    hence ne: "?r1 \<noteq> []" by (simp add: dropWhile_eq_Nil_conv list_all_iff)
    hence "?v \<noteq> []" using hd_dropWhile[of sp r] by (cases ?r1) auto
    moreover have "list_all (\<lambda>c. \<not> sp c) (rev ?v)" by (auto simp: list_all_iff dest: set_takeWhileD)
    ultimately have "words_of sp (rev ?v) = [rev ?v]" using words_of_append_space[of sp "rev ?v" "[]"] by simp
    thus ?thesis using False words_of_append_blank[OF blanks, of "rev ?v"] by simp
  qed
  show ?thesis by (rule that[OF split edge word])
qed

lemma word_preview_back_split:
  "\<exists>rest. rev r = rev (word_preview_back sp n r) @ rest
     \<and> words_of sp rest = drop (length (words_of sp (rev r)) - n) (words_of sp (rev r))"
proof (induction n arbitrary: r)
  case (Suc n)
  show ?case
  proof (cases "r = []")
    case False
    define r2 where "r2 = dropWhile (\<lambda>c. \<not> sp c) (dropWhile sp r)"
    then obtain w u where w: "rev r = rev r2 @ w" and edge: "r2 = [] \<or> sp (hd r2)"
      and word: "words_of sp w = (if list_all sp r then [] else [u])"
      by (rule words_of_drop_last_word)
    let ?A = "words_of sp (rev r2)"
    obtain rest where rest: "rev r2 = rev (word_preview_back sp n r2) @ rest"
      and IH: "words_of sp rest = drop (length ?A - n) ?A"
      using Suc.IH by blast
    have "last rest = hd r2 \<and> r2 \<noteq> []" if "rest \<noteq> []"
      using that rest last_appendR[OF that] by (force simp: last_rev[symmetric])
    hence "rest = [] \<or> sp (last rest)" using edge by metis
    hence rest_w: "words_of sp (rest @ w) = drop (length ?A - n) ?A @ words_of sp w"
      using IH words_of_append_sep by simp
    have all: "words_of sp (rev r) = ?A @ words_of sp w"
      using edge unfolding w by (intro words_of_append_sep) (simp add: last_rev)
    have "words_of sp (rest @ w) = drop (length (words_of sp (rev r)) - Suc n) (words_of sp (rev r))"
    proof (cases "list_all sp r")
      case True
      hence "words_of sp (rev r) = []" by (simp add: words_of_eq_Nil)
      thus ?thesis using all rest_w by simp
    next
      case False
      thus ?thesis unfolding all rest_w word by simp
    qed
    moreover have "rev r = rev (word_preview_back sp (Suc n) r) @ rest @ w"
      using False rest w by (simp add: r2_def)
    ultimately show ?thesis by blast
  qed simp
qed (simp)

section \<open>The words of an attempt\<close>

text \<open>What one speech attempt sends the transcript.\<close>

datatype attempt_words = PartialWords qstring | FinalWords qstring | WholeWords qstring

definition hear_words :: "qchars \<Rightarrow> 'a changed_handler \<Rightarrow> attempt_words \<Rightarrow> 'a transcript_scheme step" where
  "hear_words q h w t = (case w of PartialWords p \<Rightarrow> ts_set_partial q h p t
     | FinalWords f \<Rightarrow> ts_commit_final q h f t
     | WholeWords a \<Rightarrow> ts_replace_attempt_finals q h a t)"

fun hear_attempt :: "qchars \<Rightarrow> 'a changed_handler \<Rightarrow> attempt_words list \<Rightarrow> 'a transcript_scheme step" where
  "hear_attempt q h [] t = Some t"
| "hear_attempt q h (w # ws) t = do { t \<leftarrow> hear_words q h w t; hear_attempt q h ws t }"

lemma hear_words_base:
  "\<exists>t'. hear_words q (\<lambda>_. Some) w t = Some t' \<and> ts_attempt_base t' = ts_attempt_base t"
  by (auto simp: hear_words_def ts_set_partial_def ts_commit_final_def ts_replace_attempt_finals_def
      ts_replace_finals_def Let_def split: attempt_words.split)

lemma hear_attempt_base:
  "\<exists>t'. hear_attempt q (\<lambda>_. Some) ws t = Some t' \<and> ts_attempt_base t' = ts_attempt_base t"
proof (induction ws arbitrary: t)
  case (Cons w ws)
  obtain u where "hear_words q (\<lambda>_. Some) w t = Some u" "ts_attempt_base u = ts_attempt_base t"
    using hear_words_base by blast
  thus ?case using Cons[of u] by simp
qed simp

lemma hear_attempt_append:
  "hear_attempt q h (as @ bs) t = hear_attempt q h as t \<bind> hear_attempt q h bs"
proof (induction "as" arbitrary: t)
  case (Cons w ws)
  show ?case by (cases "hear_words q h w t") (simp_all add: Cons.IH)
qed simp

section \<open>Properties\<close>

text \<open>
  lastWords is the last words of the text, as many as asked for, one space apart.
\<close>

theorem last_words_are_the_last:
  assumes "is_space q CHR '' ''"
  shows "last_words q text n
    = join '' '' (drop (length (words_of (is_space q) text) - nat n) (words_of (is_space q) text))"
proof (cases "n \<le> 0")
  case True
  thus ?thesis by (simp add: last_words_def)
next
  case False
  obtain rest where "text = rev (word_preview_back (is_space q) (nat n) (rev text)) @ rest"
    and "words_of (is_space q) rest
      = drop (length (words_of (is_space q) text) - nat n) (words_of (is_space q) text)"
    using word_preview_back_split[of "rev text"] by (metis rev_rev_ident)
  thus ?thesis using False
    by (simp add: last_words_def simplified_def) (metis append_eq_conv_conj length_rev)
qed

lemma last_words_are_the_last_witness:
  "last_words ascii ''one  two three '' 2 = ''two three''"
  by (subst last_words_are_the_last) (simp_all add: ascii_space_def words_of.simps)

text \<open>
  C21. An attempt's whole transcript takes the place of all it sent before and of nothing else: the words are
  those the transcript held when the attempt started, then the attempt's.
\<close>

theorem whole_transcript_replaces_the_attempt:
  assumes "is_space q CHR '' ''" "\<not> blank q whole"
  shows "\<exists>t'. hear_attempt q (\<lambda>_. Some) (ws @ [WholeWords whole]) (ts_start_attempt q l t) = Some t'
    \<and> words_of (is_space q) (ts_text q t') = words_of (is_space q) (ts_text q t) @ words_of (is_space q) whole"
proof -
  obtain u where u: "hear_attempt q (\<lambda>_. Some) ws (ts_start_attempt q l t) = Some u"
    and base: "ts_attempt_base u = ts_text q t"
    using hear_attempt_base[of q ws "ts_start_attempt q l t"] by (auto simp: ts_start_attempt_def)
  let ?all = "if ts_text q t = [] then whole else ts_text q t @ '' '' @ whole"
  have all: "words_of (is_space q) ?all = words_of (is_space q) (ts_text q t) @ words_of (is_space q) whole"
    using assms(1) words_of_sep[of "is_space q" "CHR '' ''" "ts_text q t" whole] by simp
  have "\<not> blank q ?all" using all assms(2) by (auto simp: blank_iff words_of_eq_Nil[symmetric])
  thus ?thesis
    using u base all assms
    by (auto simp: hear_attempt_append hear_words_def ts_replace_attempt_finals_def ts_replace_finals_def Let_def ts_text_words
        ts_words_def words_of_simplified words_of_join words_of_word intro: words_of_join)
qed

lemma whole_transcript_replaces_the_attempt_witness:
  "\<exists>t'. hear_attempt ascii (\<lambda>_. Some) [PartialWords ''wor'', FinalWords ''word'', WholeWords ''the words'']
      (ts_start_attempt ascii ''en'' (ts_init\<lparr>ts_finals := [''before'']\<rparr>)) = Some t'
    \<and> words_of ascii_space (ts_text ascii t') = [''before'', ''the'', ''words'']"
  using whole_transcript_replaces_the_attempt[of ascii "''the words''" "[PartialWords ''wor'', FinalWords ''word'']"
      "''en''" "ts_init\<lparr>ts_finals := [''before'']\<rparr>"]
  by (simp add: ascii_space_def blank_def trimmed_def words_of.simps ts_text_def ts_init_def simplified_def)

end
