(* ===== verification/Speech_Chain.thy ===== *)
theory Speech_Chain
  imports Preparation Transcript
begin

text \<open>
  providers/SpeechChain.cpp: a session's speech providers and the one it is on,
  and SpeechAttemptPolicy, the reconnects a provider gets.

  The chain's members are the fields of \<^term>\<open>chain\<close>. What it calls (the acquire
  function, the virtual methods of a SpeechTranscriber and a TranscriptRefiner,
  the registry's labels) and every signal it emits are the fields of
  \<^term>\<open>chain_env\<close>: functions of the whole state, so a handler may call the chain
  again and the code after the emission goes on from the state it left. The const
  methods only read the state. A pointer to a transcriber or a refiner is a number.
\<close>

record qt_lib =
  lib_chars :: qchars
  lib_urls :: qurls
  lib_names :: qlocale_names

record chain_options =
  co_streamed_finals_only :: bool
  co_ready_later :: bool

record chain = transcript +
  ch_ids :: "qstring list"
  ch_index :: nat
  ch_options :: chain_options
  ch_reachability :: reachability
  ch_settings :: app_settings
  ch_refiner :: "nat option"
  ch_refiner_refreshed :: bool
  ch_renewing :: bool
  ch_runner :: runner

record 's chain_env =
  ce_lib :: qt_lib
  ce_label :: "qstring \<Rightarrow> qstring"
  ce_acquire :: "qstring \<Rightarrow> 's \<Rightarrow> (nat option \<times> 's) option"
  ce_streams_final_text :: "nat \<Rightarrow> speech_settings \<Rightarrow> 's \<Rightarrow> bool"
  ce_requires_refresh :: "nat \<Rightarrow> speech_settings \<Rightarrow> account_settings \<Rightarrow> 's \<Rightarrow> bool"
  ce_create_prepare_job :: "nat \<Rightarrow> speech_settings \<Rightarrow> account_settings \<Rightarrow> 's \<Rightarrow> (prep_job option \<times> 's) option"
  ce_prepare :: "nat \<Rightarrow> speech_settings \<Rightarrow> account_settings \<Rightarrow> 's \<Rightarrow> (provider_failure option \<times> 's) option"
  ce_create_refresh_job :: "nat \<Rightarrow> refinement_settings \<Rightarrow> account_settings \<Rightarrow> 's \<Rightarrow> (prep_job option \<times> 's) option"
  ce_apply :: "nat \<Rightarrow> provider_failure option \<Rightarrow> 's step"
  ce_passed_over :: "qstring \<Rightarrow> issue_stage \<Rightarrow> provider_failure \<Rightarrow> 's step"
  ce_renewing_sign_in :: "'s step"
  ce_secrets_resolved :: "app_settings \<Rightarrow> 's step"
  ce_ready :: "'s step"
  ce_exhausted :: "'s step"
  ce_sign_in_renewed :: "provider_failure option \<Rightarrow> 's step"

section \<open>Queries\<close>

definition chain_current_id :: "'a chain_scheme \<Rightarrow> qstring" where
  "chain_current_id s = (if ch_index s < length (ch_ids s) then ch_ids s ! ch_index s else [])"

definition chain_fallback_remains :: "failure_kind \<Rightarrow> 'a chain_scheme \<Rightarrow> bool" where
  "chain_fallback_remains k s \<longleftrightarrow> permits_provider_fallback k \<and> ch_index s + 1 < length (ch_ids s)"

definition chain_offline_for ::
  "qt_lib \<Rightarrow> provider_role \<Rightarrow> qstring \<Rightarrow> app_settings \<Rightarrow> 'a chain_scheme \<Rightarrow> bool" where
  "chain_offline_for l role provider settings s \<longleftrightarrow> ch_reachability s = ReachOffline
     \<and> needs_internet (lib_chars l) (lib_urls l) role provider settings"

section \<open>Commands\<close>

definition chain_cancel :: "'a chain_scheme \<Rightarrow> 'a chain_scheme" where
  "chain_cancel s = s\<lparr>ch_runner := runner_cancel (ch_runner s), ch_renewing := False\<rparr>"

definition chain_begin :: "qstring \<Rightarrow> qstring list \<Rightarrow> 'a chain_scheme \<Rightarrow> 'a chain_scheme" where
  "chain_begin primary fallbacks s = (chain_cancel s)\<lparr>ch_ids := provider_chain Speech primary fallbacks,
     ch_index := 0, ch_refiner_refreshed := False\<rparr>"

definition chain_set_options :: "chain_options \<Rightarrow> 'a chain_scheme \<Rightarrow> 'a chain_scheme" where
  "chain_set_options opts s = s\<lparr>ch_options := opts\<rparr>"

definition chain_set_reachability :: "reachability \<Rightarrow> 'a chain_scheme \<Rightarrow> 'a chain_scheme" where
  "chain_set_reachability r s = s\<lparr>ch_reachability := r\<rparr>"

section \<open>The walk\<close>

definition unavailable :: "qstring \<Rightarrow> provider_failure" where
  "unavailable m = \<lparr>pf_kind = Unavailable, pf_message = m, pf_http_status = 0\<rparr>"

text \<open>How one turn of the loop ends: with continue, or by leaving walk().\<close>

datatype walk_end = Continues | Leaves

text \<open>
  The sign-in of the refiner renews alongside: the refresh job, unless the
  refiner is gone, renewed in this walk already or offline.
\<close>

definition walk_refiner_job ::
  "'a chain_scheme chain_env \<Rightarrow> 'a chain_scheme \<Rightarrow> (prep_job option \<times> 'a chain_scheme) option" where
  "walk_refiner_job E s = (case ch_refiner s of
     None \<Rightarrow> Some (None, s)
   | Some r \<Rightarrow>
       if \<not> ch_refiner_refreshed s
          \<and> \<not> chain_offline_for (ce_lib E) Refinement (rs_provider (as_refinement (ch_settings s))) (ch_settings s) s
       then ce_create_refresh_job E r (as_refinement (ch_settings s)) (as_accounts (ch_settings s)) s
       else Some (None, s))"

text \<open>What is left of a turn once the provider may take the audio and its keys are read.\<close>

definition walk_prepare ::
  "'a chain_scheme chain_env \<Rightarrow> qstring \<Rightarrow> nat \<Rightarrow> speech_settings \<Rightarrow> 'a chain_scheme
   \<Rightarrow> (walk_end \<times> 'a chain_scheme) option" where
  "walk_prepare E provider t speech s = do {
     (speech_job, s) \<leftarrow> ce_create_prepare_job E t speech (as_accounts (ch_settings s)) s;
     let refresh_required = (case speech_job of Some j \<Rightarrow> jb_shows_refresh j
                             | None \<Rightarrow> ce_requires_refresh E t speech (as_accounts (ch_settings s)) s);
     (refiner_job, s) \<leftarrow> walk_refiner_job E s;
     s \<leftarrow> (if refresh_required \<or> (case refiner_job of Some j \<Rightarrow> jb_shows_refresh j | None \<Rightarrow> False)
          then ce_renewing_sign_in E s else Some s);
     (failure, s) \<leftarrow> (if speech_job = None
          then ce_prepare E t speech (as_accounts (ch_settings s)) s else Some (None, s));
     case failure of
       Some f \<Rightarrow> do { s \<leftarrow> ce_passed_over E provider StagePrepare f s; Some (Continues, s) }
     | None \<Rightarrow>
         if speech_job \<noteq> None \<or> refiner_job \<noteq> None \<or> co_ready_later (ch_options s)
         then Some (Leaves, s\<lparr>ch_runner := prepare_speech speech_job refiner_job (ch_runner s)\<rparr>)
         else do { s \<leftarrow> ce_ready E s; Some (Leaves, s) } }"

definition walk_turn ::
  "'a chain_scheme chain_env \<Rightarrow> 'a chain_scheme \<Rightarrow> (walk_end \<times> 'a chain_scheme) option" where
  "walk_turn E s =
     (let provider = ch_ids s ! ch_index s;
          speech = chain_speech_settings (as_speech (ch_settings s)) provider;
          pass = (\<lambda>stage f s. do { s \<leftarrow> ce_passed_over E provider stage f s; Some (Continues, s) })
      in if 0 < ch_index s \<and> \<not> listens_for_spoken_language speech
         then pass LanguageSkipped
                (unavailable (spoken_language_problem (lib_names (ce_lib E)) speech (ce_label E provider))) s
         else if chain_offline_for (ce_lib E) Speech provider (ch_settings s) s
         then pass StagePrepare no_internet_failure s
         else do {
           (transcriber, s) \<leftarrow> ce_acquire E provider s;
           case transcriber of
             None \<Rightarrow> pass StagePrepare (unavailable (''Unknown speech provider: '' @ provider)) s
           | Some t \<Rightarrow>
               if co_streamed_finals_only (ch_options s) \<and> \<not> ce_streams_final_text E t speech s
               then pass StagePrepare (unavailable (ce_label E provider @ '' does not stream final text'')) s
               else if has_unread_provider_secrets (lib_chars (ce_lib E)) (lib_urls (ce_lib E))
                         (ch_settings s) Speech provider
               then Some (Leaves, s\<lparr>ch_runner := resolve_secrets Speech provider (ch_settings s) (ch_runner s)\<rparr>)
               else walk_prepare E provider t speech s })"

partial_function (option) walk :: "'a chain_scheme chain_env \<Rightarrow> 'a chain_scheme \<Rightarrow> 'a chain_scheme option" where
  "walk E s =
     (if ch_index s < length (ch_ids s) then do {
        (e, s) \<leftarrow> walk_turn E s;
        (if e = Leaves then Some s else walk E (s\<lparr>ch_index := Suc (ch_index s)\<rparr>)) }
      else ce_exhausted E s)"

definition chain_prepare ::
  "'a chain_scheme chain_env \<Rightarrow> app_settings \<Rightarrow> nat option \<Rightarrow> 'a chain_scheme step" where
  "chain_prepare E settings refiner s =
     walk E ((chain_cancel s)\<lparr>ch_settings := settings, ch_refiner := refiner\<rparr>)"

definition chain_prepare_next ::
  "'a chain_scheme chain_env \<Rightarrow> app_settings \<Rightarrow> nat option \<Rightarrow> 'a chain_scheme step" where
  "chain_prepare_next E settings refiner s =
     chain_prepare E settings refiner (s\<lparr>ch_index := Suc (ch_index s)\<rparr>)"

definition chain_renew_sign_in ::
  "'a chain_scheme chain_env \<Rightarrow> nat option \<Rightarrow> speech_settings \<Rightarrow> account_settings \<Rightarrow> 'a chain_scheme step" where
  "chain_renew_sign_in E transcriber speech accounts s = (case transcriber of
     None \<Rightarrow> None
   | Some t \<Rightarrow> do {
       (job, s) \<leftarrow> ce_create_prepare_job E t speech accounts s;
       (job, s) \<leftarrow> (case job of
          Some j \<Rightarrow> Some (j, s)
        | None \<Rightarrow> do {
            (f, s) \<leftarrow> ce_prepare E t speech accounts s;
            Some (\<lparr>jb_shows_refresh = False, jb_run = RunFixed f, jb_apply = None\<rparr>, s) });
       Some (s\<lparr>ch_runner := prepare_speech (Some job) None (ch_runner s), ch_renewing := True\<rparr>) })"

section \<open>What the runner reports\<close>

definition chain_pass_current :: "'a chain_scheme chain_env \<Rightarrow> provider_failure \<Rightarrow> 'a chain_scheme step" where
  "chain_pass_current E f s = do {
     s \<leftarrow> ce_passed_over E (chain_current_id s) StagePrepare f s;
     walk E (s\<lparr>ch_index := Suc (ch_index s)\<rparr>) }"

definition chain_finish_preparation ::
  "'a chain_scheme chain_env \<Rightarrow> provider_failure option \<Rightarrow> 'a chain_scheme step" where
  "chain_finish_preparation E failure s =
     (if ch_renewing s then ce_sign_in_renewed E failure (s\<lparr>ch_renewing := False\<rparr>)
      else case failure of
        Some f \<Rightarrow> chain_pass_current E f s
      | None \<Rightarrow> ce_ready E s)"

definition chain_use_resolved_secrets ::
  "'a chain_scheme chain_env \<Rightarrow> provider_failure option \<Rightarrow> app_settings \<Rightarrow> 'a chain_scheme step" where
  "chain_use_resolved_secrets E failure settings s = (case failure of
     Some f \<Rightarrow> chain_pass_current E f s
   | None \<Rightarrow> do {
       s \<leftarrow> ce_secrets_resolved E settings (s\<lparr>ch_settings := settings\<rparr>);
       walk E s })"

text \<open>
  The refiner's apply as walk() wraps it: the sign-in counts as renewed for the
  rest of the walk, then the refiner's own apply runs.
\<close>

definition chain_apply_refiner ::
  "'a chain_scheme chain_env \<Rightarrow> prep_job option \<Rightarrow> provider_failure option \<Rightarrow> 'a chain_scheme step" where
  "chain_apply_refiner E job failure s = (case job of
     None \<Rightarrow> Some s
   | Some j \<Rightarrow> apply_job (ce_apply E) (Some j) failure (s\<lparr>ch_refiner_refreshed := True\<rparr>))"

text \<open>
  A preparation's thread finished, with what its jobs returned and what the key
  store answered its reads.
\<close>

record worker_results =
  wr_jobs :: job_results
  wr_secret :: "secret \<Rightarrow> qstring"
  wr_read_failure :: "secret \<Rightarrow> qstring"

definition secrets_failure :: "qstring \<Rightarrow> provider_failure option" where
  "secrets_failure e = (if e = [] then None else Some (unavailable e))"

definition chain_thread_finished ::
  "'a chain_scheme chain_env \<Rightarrow> nat \<Rightarrow> worker_results \<Rightarrow> 'a chain_scheme step" where
  "chain_thread_finished E i w s0 =
     (let (task, r) = thread_finished i (ch_runner s0); s = s0\<lparr>ch_runner := r\<rparr> in
      case task of
        None \<Rightarrow> Some s
      | Some (PrepareSpeech speech refiner) \<Rightarrow>
          (let (sf, rf) = speech_work (wr_jobs w) speech refiner in do {
             s \<leftarrow> apply_job (ce_apply E) speech sf s;
             s \<leftarrow> (if sf = None then chain_apply_refiner E refiner rf s else Some s);
             chain_finish_preparation E sf s })
      | Some (PrepareRefiner job) \<Rightarrow> apply_job (ce_apply E) (Some job) (run_job (wr_jobs w) job) s
      | Some (ResolveSecrets role provider settings) \<Rightarrow>
          (let (e, settings') = resolve_provider_secrets (lib_chars (ce_lib E)) (lib_urls (ce_lib E))
                 (wr_secret w) (wr_read_failure w) role provider settings
           in chain_use_resolved_secrets E (secrets_failure e) settings' s))"

section \<open>What a walk keeps\<close>

text \<open>
  The interface between the chain and whoever it calls: P is a part of the state
  that the chain's own members are not in, and every call keeps it. Then so does
  every command of the chain, however the calls come back to it.
\<close>

locale chain_handlers =
  fixes E :: "'a chain_scheme chain_env" and P :: "'a chain_scheme \<Rightarrow> bool"
  assumes acquire: "preserves2 P (ce_acquire E i)"
    and create_prepare_job: "preserves2 P (ce_create_prepare_job E t sp ac)"
    and prepare: "preserves2 P (ce_prepare E t sp ac)"
    and create_refresh_job: "preserves2 P (ce_create_refresh_job E t rs ac)"
    and apply_job_call: "preserves P (ce_apply E n f)"
    and passed_over: "preserves P (ce_passed_over E i st pf)"
    and renewing_sign_in: "preserves P (ce_renewing_sign_in E)"
    and secrets_resolved: "preserves P (ce_secrets_resolved E as)"
    and ready: "preserves P (ce_ready E)"
    and exhausted: "preserves P (ce_exhausted E)"
    and sign_in_renewed: "preserves P (ce_sign_in_renewed E f)"
    and frame: "P s \<Longrightarrow> P (s\<lparr>ch_ids := ids\<rparr>)" "P s \<Longrightarrow> P (s\<lparr>ch_index := n\<rparr>)"
      "P s \<Longrightarrow> P (s\<lparr>ch_settings := as\<rparr>)" "P s \<Longrightarrow> P (s\<lparr>ch_refiner := r\<rparr>)"
      "P s \<Longrightarrow> P (s\<lparr>ch_refiner_refreshed := b\<rparr>)" "P s \<Longrightarrow> P (s\<lparr>ch_renewing := b\<rparr>)"
      "P s \<Longrightarrow> P (s\<lparr>ch_runner := ru\<rparr>)"
begin

lemmas chain_call_rules =
  holds_call2[OF acquire] holds_call2[OF create_prepare_job] holds_call2[OF prepare]
  holds_call2[OF create_refresh_job] holds_call[OF apply_job_call] holds_call[OF passed_over]
  holds_call[OF renewing_sign_in] holds_call[OF secrets_resolved] holds_call[OF ready]
  holds_call[OF exhausted] holds_call[OF sign_in_renewed]

lemma keeps_cancel: "P s \<Longrightarrow> P (chain_cancel s)"
  by (simp add: chain_cancel_def frame)

lemma keeps_begin: "P s \<Longrightarrow> P (chain_begin p fs s)"
  by (simp add: chain_begin_def frame keeps_cancel)

lemma keeps_refiner_job: "preserves2 P (walk_refiner_job E)"
  by (rule preserves2I) (auto simp: walk_refiner_job_def intro!: chain_call_rules split: option.splits)

lemma keeps_walk_prepare: "preserves2 P (walk_prepare E i t sp)"
  by (rule preserves2I)
    (auto simp: walk_prepare_def Let_def split_beta intro!: frame chain_call_rules holds_call2[OF keeps_refiner_job]
      split: option.splits)

lemma keeps_walk_turn: "preserves2 P (walk_turn E)"
  by (rule preserves2I)
    (auto simp: walk_turn_def Let_def split_beta intro!: frame chain_call_rules
      holds_call2[OF keeps_walk_prepare] split: option.splits)

lemma keeps_walk: "preserves P (walk E)"
proof -
  have step: "E' = E \<longrightarrow> P s \<longrightarrow> P r"
    if IH: "\<And>s' r'. w E' s' = Some r' \<Longrightarrow> E' = E \<longrightarrow> P s' \<longrightarrow> P r'"
      and body: "(if ch_index s < length (ch_ids s)
         then walk_turn E' s \<bind> (\<lambda>(e, s). if e = Leaves then Some s else w E' (s\<lparr>ch_index := Suc (ch_index s)\<rparr>))
         else ce_exhausted E' s) = Some r" for w E' s r
  proof (intro impI)
    assume E: "E' = E" and P: "P s"
    show "P r"
    proof (cases "ch_index s < length (ch_ids s)")
      case True
      then obtain e s1 where turn: "walk_turn E s = Some (e, s1)"
        and rest: "(if e = Leaves then Some s1 else w E (s1\<lparr>ch_index := Suc (ch_index s1)\<rparr>)) = Some r"
        using body E by (auto simp: bind_eq_Some_conv)
      have "P s1" using preserves2_holds[OF keeps_walk_turn P] turn by (simp add: holds_def)
      thus ?thesis using rest IH E frame by (auto split: if_splits)
    next
      case False
      thus ?thesis using body E preserves_holds[OF exhausted P] by (simp add: holds_def)
    qed
  qed
  have "P s \<longrightarrow> P r" if "walk E s = Some r" for s r
    using walk.raw_induct[of "\<lambda>E' s r. E' = E \<longrightarrow> P s \<longrightarrow> P r", OF _ that] step by blast
  thus ?thesis by (auto simp: preserves_def holds_def)
qed

lemma keeps_prepare: "preserves P (chain_prepare E as r)"
  by (rule preservesI) (auto simp: chain_prepare_def intro!: frame keeps_cancel holds_call[OF keeps_walk])

lemma keeps_prepare_next: "preserves P (chain_prepare_next E as r)"
  by (rule preservesI) (auto simp: chain_prepare_next_def intro!: frame holds_call[OF keeps_prepare])

lemma keeps_renew_sign_in: "preserves P (chain_renew_sign_in E t sp ac)"
  by (rule preservesI)
    (auto simp: chain_renew_sign_in_def split_beta intro!: frame chain_call_rules split: option.splits)

lemma keeps_pass_current: "preserves P (chain_pass_current E f)"
  by (rule preservesI) (auto simp: chain_pass_current_def intro!: frame chain_call_rules holds_call[OF keeps_walk])

lemma keeps_finish_preparation: "preserves P (chain_finish_preparation E f)"
  by (rule preservesI)
    (auto simp: chain_finish_preparation_def intro!: frame chain_call_rules holds_call[OF keeps_pass_current]
      split: option.splits)

lemma keeps_use_resolved_secrets: "preserves P (chain_use_resolved_secrets E f as)"
  by (rule preservesI)
    (auto simp: chain_use_resolved_secrets_def intro!: frame chain_call_rules holds_call[OF keeps_pass_current]
      holds_call[OF keeps_walk] split: option.splits)

lemma keeps_apply: "preserves P (apply_job (ce_apply E) j f)"
  by (rule preservesI) (auto simp: apply_job_def intro!: chain_call_rules split: option.splits)

lemma keeps_apply_refiner: "preserves P (chain_apply_refiner E j f)"
  by (rule preservesI) (auto simp: chain_apply_refiner_def intro!: frame holds_call[OF keeps_apply] split: option.splits)

lemma keeps_thread_finished: "preserves P (chain_thread_finished E i w)"
  by (rule preservesI)
    (auto simp: chain_thread_finished_def Let_def split_beta intro!: frame holds_call[OF keeps_apply]
      holds_call[OF keeps_apply_refiner] holds_call[OF keeps_finish_preparation]
      holds_call[OF keeps_use_resolved_secrets] split: option.splits prep_task.splits)

end

section \<open>Where a walk ends\<close>

definition chain_view :: "'a chain_scheme \<Rightarrow> qstring list \<times> nat \<times> app_settings \<times> chain_options \<times> reachability" where
  "chain_view s = (ch_ids s, ch_index s, ch_settings s, ch_options s, ch_reachability s)"

text \<open>The calls a walk makes on its way return, and leave the walk where it is.\<close>

definition quiet_call :: "('a chain_scheme \<Rightarrow> 'a chain_scheme option) \<Rightarrow> bool" where
  "quiet_call f \<longleftrightarrow> (\<forall>s. ends (\<lambda>s'. chain_view s' = chain_view s) (f s))"

definition quiet_call2 :: "('a chain_scheme \<Rightarrow> ('v \<times> 'a chain_scheme) option) \<Rightarrow> bool" where
  "quiet_call2 f \<longleftrightarrow> (\<forall>s. ends (\<lambda>(v, s'). chain_view s' = chain_view s) (f s))"

text \<open>The provider the chain is on may take the audio, as far as the chain can tell.\<close>

definition chain_fit :: "'a chain_scheme chain_env \<Rightarrow> 'a chain_scheme \<Rightarrow> bool" where
  "chain_fit E s \<longleftrightarrow> ch_index s < length (ch_ids s)
     \<and> (ch_index s = 0 \<or> listens_for_spoken_language
          (chain_speech_settings (as_speech (ch_settings s)) (chain_current_id s)))
     \<and> \<not> chain_offline_for (ce_lib E) Speech (chain_current_id s) (ch_settings s) s"

definition walk_task :: "'a chain_scheme \<Rightarrow> prep_task \<Rightarrow> bool" where
  "walk_task s t = (case t of
     PrepareSpeech _ _ \<Rightarrow> True
   | ResolveSecrets role provider settings \<Rightarrow>
       role = Speech \<and> provider = chain_current_id s \<and> settings = ch_settings s
   | PrepareRefiner _ \<Rightarrow> False)"

text \<open>What walk() comes to, once it stops at s1: the call it ends in, or a job off the thread.\<close>

definition walk_ends_at :: "'a chain_scheme chain_env \<Rightarrow> 'a chain_scheme \<Rightarrow> 'a chain_scheme option \<Rightarrow> bool" where
  "walk_ends_at E s1 m \<longleftrightarrow>
     (length (ch_ids s1) \<le> ch_index s1 \<and> m = ce_exhausted E s1)
     \<or> (chain_fit E s1 \<and> m = ce_ready E s1)
     \<or> (chain_fit E s1 \<and> (\<exists>t. walk_task s1 t \<and> m = Some (s1\<lparr>ch_runner := runner_run t (ch_runner s1)\<rparr>)))"

definition later_in_walk :: "'a chain_scheme \<Rightarrow> 'a chain_scheme \<Rightarrow> bool" where
  "later_in_walk s s1 \<longleftrightarrow> ch_ids s1 = ch_ids s \<and> ch_index s \<le> ch_index s1 \<and> ch_settings s1 = ch_settings s
     \<and> ch_options s1 = ch_options s \<and> ch_reachability s1 = ch_reachability s"

lemma later_in_walk_view: "chain_view s' = chain_view s \<Longrightarrow> later_in_walk s s'"
  by (simp add: chain_view_def later_in_walk_def)

lemma chain_fit_view: "chain_view s' = chain_view s \<Longrightarrow> chain_fit E s' = chain_fit E s"
  by (simp add: chain_view_def chain_fit_def chain_current_id_def chain_offline_for_def)

locale walk_listeners =
  fixes E :: "'a chain_scheme chain_env"
  assumes quiet_acquire: "quiet_call2 (ce_acquire E i)"
    and quiet_create_prepare_job: "quiet_call2 (ce_create_prepare_job E t sp ac)"
    and quiet_prepare: "quiet_call2 (ce_prepare E t sp ac)"
    and quiet_create_refresh_job: "quiet_call2 (ce_create_refresh_job E t rs ac)"
    and quiet_passed_over: "quiet_call (ce_passed_over E i st f)"
    and quiet_renewing_sign_in: "quiet_call (ce_renewing_sign_in E)"
begin

lemmas quiet_rules =
  quiet_acquire quiet_create_prepare_job quiet_prepare quiet_create_refresh_job

lemma quiet_call2_ends: "quiet_call2 f \<Longrightarrow> (\<And>v s'. chain_view s' = chain_view s \<Longrightarrow> Q (v, s')) \<Longrightarrow> ends Q (f s)"
  by (force simp: quiet_call2_def ends_def)

lemma quiet_call_ends: "quiet_call f \<Longrightarrow> (\<And>s'. chain_view s' = chain_view s \<Longrightarrow> Q s') \<Longrightarrow> ends Q (f s)"
  by (force simp: quiet_call_def ends_def)

text \<open>
  A turn from s0 either goes on, or leaves in ready(), or leaves with a job of the
  provider started; it may leave only when \<^term>\<open>fit\<close>.
\<close>

definition turn_ok :: "bool \<Rightarrow> 'a chain_scheme \<Rightarrow> (walk_end \<times> 'a chain_scheme) option \<Rightarrow> bool" where
  "turn_ok fit s0 m \<longleftrightarrow>
     (\<exists>s1. chain_view s1 = chain_view s0 \<and>
       (m = Some (Continues, s1)
        \<or> (fit \<and> m = (ce_ready E s1 \<bind> (\<lambda>s2. Some (Leaves, s2))))
        \<or> (fit \<and> (\<exists>t. walk_task s1 t \<and>
             m = Some (Leaves, s1\<lparr>ch_runner := runner_run t (ch_runner s1)\<rparr>)))))"

lemma turn_ok_call2:
  assumes "quiet_call2 f" "chain_view s = chain_view s0"
    and "\<And>v s'. chain_view s' = chain_view s0 \<Longrightarrow> turn_ok fit s0 (g (v, s'))"
  shows "turn_ok fit s0 (f s \<bind> g)"
proof -
  obtain v s' where "f s = Some (v, s')" "chain_view s' = chain_view s"
    using assms(1) by (force simp: quiet_call2_def ends_def)
  thus ?thesis using assms(2,3) by simp
qed

lemma turn_ok_call:
  assumes "quiet_call f" "chain_view s = chain_view s0"
    and "\<And>s'. chain_view s' = chain_view s0 \<Longrightarrow> turn_ok fit s0 (g s')"
  shows "turn_ok fit s0 (f s \<bind> g)"
proof -
  obtain s' where "f s = Some s'" "chain_view s' = chain_view s"
    using assms(1) by (force simp: quiet_call_def ends_def)
  thus ?thesis using assms(2,3) by simp
qed

lemma turn_ok_continues: "chain_view s1 = chain_view s0 \<Longrightarrow> turn_ok fit s0 (Some (Continues, s1))"
  by (auto simp: turn_ok_def)

lemma turn_ok_ready: "fit \<Longrightarrow> chain_view s1 = chain_view s0 \<Longrightarrow>
    turn_ok fit s0 (ce_ready E s1 \<bind> (\<lambda>s2. Some (Leaves, s2)))"
  by (auto simp: turn_ok_def)

lemma turn_ok_task: "fit \<Longrightarrow> chain_view s1 = chain_view s0 \<Longrightarrow> walk_task s1 t \<Longrightarrow>
    turn_ok fit s0 (Some (Leaves, s1\<lparr>ch_runner := runner_run t (ch_runner s1)\<rparr>))"
  by (auto simp: turn_ok_def)

lemma quiet_refiner_job: "quiet_call2 (walk_refiner_job E)"
  using quiet_create_refresh_job
  by (auto simp: quiet_call2_def walk_refiner_job_def split: option.splits)

lemma turn_ok_prepare:
  "fit \<Longrightarrow> chain_view s = chain_view s0 \<Longrightarrow> turn_ok fit s0 (walk_prepare E i t sp s)"
  unfolding walk_prepare_def Let_def
  by (rule turn_ok_call2[OF quiet_create_prepare_job], assumption)
    (auto simp: split_beta prepare_speech_def walk_task_def
      intro!: turn_ok_call2[OF quiet_refiner_job] turn_ok_call2[OF quiet_prepare]
        turn_ok_call[OF quiet_renewing_sign_in] turn_ok_call[OF quiet_passed_over] turn_ok_continues
        turn_ok_ready turn_ok_task split: option.splits)

lemma turn_ok_turn:
  assumes "ch_index s < length (ch_ids s)"
  shows "turn_ok (chain_fit E s) s (walk_turn E s)"
  using assms unfolding walk_turn_def Let_def
  by (auto simp: split_beta resolve_secrets_def walk_task_def chain_fit_def chain_current_id_def chain_view_def
      intro!: turn_ok_call2[OF quiet_acquire] turn_ok_call[OF quiet_passed_over] turn_ok_continues
        turn_ok_task turn_ok_prepare split: option.splits)

lemma walk_ends_view:
  "turn_ok (chain_fit E s) s m \<Longrightarrow> later_in_walk s0 s \<Longrightarrow>
   (\<And>s1. chain_view s1 = chain_view s \<Longrightarrow> \<exists>s2. later_in_walk s0 s2 \<and> walk_ends_at E s2 (k s1)) \<Longrightarrow>
   \<exists>s2. later_in_walk s0 s2 \<and> walk_ends_at E s2
     (m \<bind> (\<lambda>(e, s). if e = Leaves then Some s else k s))"
  unfolding turn_ok_def
proof (elim exE conjE disjE)
  fix s1
  assume s1: "chain_view s1 = chain_view s" and k: "\<And>s1. chain_view s1 = chain_view s \<Longrightarrow>
      \<exists>s2. later_in_walk s0 s2 \<and> walk_ends_at E s2 (k s1)" and m: "m = Some (Continues, s1)"
  show ?thesis using k[OF s1] m by simp
next
  fix s1
  assume s1: "chain_view s1 = chain_view s" and later: "later_in_walk s0 s" and fit: "chain_fit E s"
    and m: "m = (ce_ready E s1 \<bind> (\<lambda>s2. Some (Leaves, s2)))"
  have "walk_ends_at E s1 (m \<bind> (\<lambda>(e, s). if e = Leaves then Some s else k s))"
    using chain_fit_view[OF s1] fit by (cases "ce_ready E s1") (simp_all add: m walk_ends_at_def)
  thus ?thesis using later s1 by (auto simp: later_in_walk_def chain_view_def)
next
  fix s1 t
  assume s1: "chain_view s1 = chain_view s" and later: "later_in_walk s0 s" and fit: "chain_fit E s"
    and t: "walk_task s1 t" and m: "m = Some (Leaves, s1\<lparr>ch_runner := runner_run t (ch_runner s1)\<rparr>)"
  have "walk_ends_at E s1 (m \<bind> (\<lambda>(e, s). if e = Leaves then Some s else k s))"
    using chain_fit_view[OF s1] fit t by (auto simp: m walk_ends_at_def)
  thus ?thesis using later s1 by (auto simp: later_in_walk_def chain_view_def)
qed

lemma walk_ends: "\<exists>s1. later_in_walk s s1 \<and> walk_ends_at E s1 (walk E s)"
proof (induction "length (ch_ids s) - ch_index s" arbitrary: s rule: less_induct)
  case less
  show ?case
  proof (cases "ch_index s < length (ch_ids s)")
    case False
    hence "walk_ends_at E s (walk E s)" by (simp add: walk.simps walk_ends_at_def)
    thus ?thesis by (auto simp: later_in_walk_def)
  next
    case True
    have "\<exists>s2. later_in_walk s s2 \<and> walk_ends_at E s2 (walk E (s1\<lparr>ch_index := Suc (ch_index s1)\<rparr>))"
      if "chain_view s1 = chain_view s" for s1
      using less[of "s1\<lparr>ch_index := Suc (ch_index s1)\<rparr>"] that True
      by (fastforce simp: chain_view_def later_in_walk_def)
    from walk_ends_view[OF turn_ok_turn[OF True] _ this] show ?thesis
      using True by (simp add: walk.simps[of E s] later_in_walk_def)
  qed
qed

end

section \<open>SpeechAttemptPolicy\<close>

text \<open>
  The elapsed timer is the time it was started at, none before; \<^term>\<open>now\<close> is the
  monotonic clock in milliseconds and \<^term>\<open>stableMs\<close> stableAttemptMs().
\<close>

definition k_reconnects_per_provider :: nat where
  "k_reconnects_per_provider = 2"

definition k_stable_attempt_ms :: nat where
  "k_stable_attempt_ms = 10000"

record policy =
  po_clock :: "nat option"
  po_reconnects_left :: nat

definition policy_init :: policy where
  "policy_init = \<lparr>po_clock = None, po_reconnects_left = 0\<rparr>"

record speech_failure =
  sf_attempt :: nat
  sf_message :: qstring
  sf_retryable :: bool
  sf_phase :: speech_phase
  sf_kind :: failure_kind
  sf_http_status :: int

definition ended_too_soon :: "nat \<Rightarrow> speech_failure" where
  "ended_too_soon attempt = \<lparr>sf_attempt = attempt,
     sf_message = ''The speech stream ended within seconds of starting'', sf_retryable = True,
     sf_phase = PhaseStreaming, sf_kind = Network, sf_http_status = 0\<rparr>"

definition policy_refill :: "policy \<Rightarrow> policy" where
  "policy_refill p = p\<lparr>po_reconnects_left := k_reconnects_per_provider\<rparr>"

definition policy_was_stable :: "nat \<Rightarrow> nat \<Rightarrow> policy \<Rightarrow> bool" where
  "policy_was_stable stableMs now p = (case po_clock p of None \<Rightarrow> False | Some t \<Rightarrow> stableMs \<le> now - t)"

definition policy_refill_if_stable :: "nat \<Rightarrow> nat \<Rightarrow> policy \<Rightarrow> policy" where
  "policy_refill_if_stable stableMs now p = (if policy_was_stable stableMs now p then policy_refill p else p)"

definition policy_take_reconnect :: "policy \<Rightarrow> bool \<times> policy" where
  "policy_take_reconnect p = (if po_reconnects_left p = 0 then (False, p)
     else (True, p\<lparr>po_reconnects_left := po_reconnects_left p - 1\<rparr>))"

definition policy_attempt_started :: "nat \<Rightarrow> policy \<Rightarrow> policy" where
  "policy_attempt_started now p = p\<lparr>po_clock := Some now\<rparr>"

end
