(* ===== verification/Speech_Attempts.thy ===== *)
theory Speech_Attempts
  imports Speech_Chain
begin

text \<open>
  providers/SpeechAttempts.cpp: the attempts a session opens on the speech
  provider its chain is on, and what of a transcriber's signals counts.

  \<^term>\<open>attempts_env\<close> holds the registry, the virtual methods of the transcriber,
  the handlers of the chain's and the attempts' own signals and of the
  transcript's changed. \<^term>\<open>at_connections\<close> lists the transcribers whose signals
  are connected (m_connections holds the eight of each), so a signal of any other
  is not delivered. Attempt ids are natural numbers: 64 bits of them do not run
  out.
\<close>

record attempts = chain +
  at_transcriber :: "nat option"
  at_connections :: "nat list"
  at_id :: nat
  at_policy :: policy
  at_now :: nat
  at_provider_attempts :: nat
  at_provider_connected :: bool
  at_attempt_connected :: bool
  at_attempt_sent_audio :: bool

type_synonym pcm = "nat list"

record attempt_options =
  ao_timed_segments :: bool
  ao_cut_into_utterances :: bool

record transcript_segment =
  sg_start_ms :: int
  sg_end_ms :: int
  sg_text :: qstring

record 's attempts_env =
  ae_lib :: qt_lib
  ae_labels :: provider_labels
  ae_stable_ms :: nat
  ae_fresh :: bool
  ae_accepts_text :: "('s \<Rightarrow> bool) option"
  ae_create_provider :: "qstring \<Rightarrow> 's \<Rightarrow> (nat option \<times> 's) option"
  ae_shared_provider :: "qstring \<Rightarrow> 's \<Rightarrow> (nat option \<times> 's) option"
  ae_delete_later :: "nat \<Rightarrow> 's step"
  ae_start_attempt :: "nat \<Rightarrow> nat \<Rightarrow> speech_settings \<Rightarrow> attempt_options \<Rightarrow> 's step"
  ae_send_audio :: "nat \<Rightarrow> nat \<Rightarrow> pcm \<Rightarrow> 's step"
  ae_finish_input :: "nat \<Rightarrow> nat \<Rightarrow> 's step"
  ae_cancel_attempt :: "nat \<Rightarrow> nat \<Rightarrow> 's step"
  ae_begin_utterance :: "nat \<Rightarrow> nat \<Rightarrow> 's step"
  ae_end_utterance :: "nat \<Rightarrow> nat \<Rightarrow> 's step"
  ae_streams_final_text :: "nat \<Rightarrow> speech_settings \<Rightarrow> 's \<Rightarrow> bool"
  ae_requires_refresh :: "nat \<Rightarrow> speech_settings \<Rightarrow> account_settings \<Rightarrow> 's \<Rightarrow> bool"
  ae_create_prepare_job :: "nat \<Rightarrow> speech_settings \<Rightarrow> account_settings \<Rightarrow> 's \<Rightarrow> (prep_job option \<times> 's) option"
  ae_prepare :: "nat \<Rightarrow> speech_settings \<Rightarrow> account_settings \<Rightarrow> 's \<Rightarrow> (provider_failure option \<times> 's) option"
  ae_create_refresh_job :: "nat \<Rightarrow> refinement_settings \<Rightarrow> account_settings \<Rightarrow> 's \<Rightarrow> (prep_job option \<times> 's) option"
  ae_apply :: "nat \<Rightarrow> provider_failure option \<Rightarrow> 's step"
  ae_passed_over :: "qstring \<Rightarrow> issue_stage \<Rightarrow> provider_failure \<Rightarrow> 's step"
  ae_renewing_sign_in :: "'s step"
  ae_secrets_resolved :: "app_settings \<Rightarrow> 's step"
  ae_ready :: "'s step"
  ae_exhausted :: "'s step"
  ae_sign_in_renewed :: "provider_failure option \<Rightarrow> 's step"
  ae_changed :: "qstring \<Rightarrow> 's step"
  ae_connected :: "'s step"
  ae_finalized :: "qstring \<Rightarrow> 's step"
  ae_segments :: "transcript_segment list \<Rightarrow> 's step"
  ae_utterance_failed :: "qstring \<Rightarrow> 's step"
  ae_completed :: "'s step"
  ae_failed :: "speech_failure \<Rightarrow> 's step"

section \<open>The transcriber held\<close>

definition attempts_cancel :: "'a attempts_scheme attempts_env \<Rightarrow> 'a attempts_scheme step" where
  "attempts_cancel A s = (case at_transcriber s of
     None \<Rightarrow> Some s
   | Some t \<Rightarrow> ae_cancel_attempt A t (at_id s) (s\<lparr>at_id := Suc (at_id s)\<rparr>))"

definition attempts_disconnect :: "'a attempts_scheme \<Rightarrow> 'a attempts_scheme" where
  "attempts_disconnect s = s\<lparr>at_connections := []\<rparr>"

definition attempts_connect :: "nat \<Rightarrow> 'a attempts_scheme \<Rightarrow> 'a attempts_scheme" where
  "attempts_connect t s = s\<lparr>at_connections := at_connections s @ [t]\<rparr>"

definition attempts_release :: "'a attempts_scheme attempts_env \<Rightarrow> 'a attempts_scheme step" where
  "attempts_release A s = (if at_transcriber s = None then Some s else do {
     s \<leftarrow> attempts_cancel A s;
     let s = attempts_disconnect s;
     s \<leftarrow> (if ae_fresh A
          then (case at_transcriber s of None \<Rightarrow> None | Some t \<Rightarrow> ae_delete_later A t s)
          else Some s);
     Some (s\<lparr>at_transcriber := None\<rparr>) })"

definition attempts_acquire ::
  "'a attempts_scheme attempts_env \<Rightarrow> qstring \<Rightarrow> 'a attempts_scheme \<Rightarrow> (nat option \<times> 'a attempts_scheme) option" where
  "attempts_acquire A provider s = do {
     (t, s) \<leftarrow> (if ae_fresh A
          then do { s \<leftarrow> attempts_release A s; ae_create_provider A provider s }
          else ae_shared_provider A provider (attempts_disconnect s));
     let s = s\<lparr>at_transcriber := t\<rparr>;
     let s = (case t of None \<Rightarrow> s | Some i \<Rightarrow> attempts_connect i s);
     Some (at_transcriber s, s) }"

section \<open>The chain's environment\<close>

text \<open>
  The constructor's wiring: the chain acquires through acquire(), and the first
  handler of ready() sets the provider up before the owner's.
\<close>

definition attempts_ready :: "'a attempts_scheme attempts_env \<Rightarrow> 'a attempts_scheme step" where
  "attempts_ready A s = ae_ready A (s\<lparr>at_policy := policy_refill (at_policy s),
     at_provider_attempts := 0, at_provider_connected := False\<rparr>)"

definition attempts_chain :: "'a attempts_scheme attempts_env \<Rightarrow> 'a attempts_scheme chain_env" where
  "attempts_chain A = \<lparr>
     ce_lib = ae_lib A, ce_label = ae_labels A Speech,
     ce_acquire = attempts_acquire A,
     ce_streams_final_text = ae_streams_final_text A,
     ce_requires_refresh = ae_requires_refresh A,
     ce_create_prepare_job = ae_create_prepare_job A,
     ce_prepare = ae_prepare A,
     ce_create_refresh_job = ae_create_refresh_job A,
     ce_apply = ae_apply A,
     ce_passed_over = ae_passed_over A,
     ce_renewing_sign_in = ae_renewing_sign_in A,
     ce_secrets_resolved = ae_secrets_resolved A,
     ce_ready = attempts_ready A,
     ce_exhausted = ae_exhausted A,
     ce_sign_in_renewed = ae_sign_in_renewed A\<rparr>"

section \<open>Attempts\<close>

definition attempts_commit_partial :: "'a attempts_scheme attempts_env \<Rightarrow> 'a attempts_scheme step" where
  "attempts_commit_partial A s = (let partial = ts_partial s in
     if partial = [] then Some s
     else do {
       s \<leftarrow> ts_commit_final (lib_chars (ae_lib A)) (ae_changed A) partial s;
       ae_finalized A partial s })"

definition attempts_start ::
  "'a attempts_scheme attempts_env \<Rightarrow> speech_settings \<Rightarrow> attempt_options \<Rightarrow> 'a attempts_scheme
   \<Rightarrow> (bool \<times> 'a attempts_scheme) option" where
  "attempts_start A speech opts s =
     (let s = s\<lparr>at_attempt_connected := False, at_attempt_sent_audio := False,
                at_provider_attempts := Suc (at_provider_attempts s),
                at_policy := policy_attempt_started (at_now s) (at_policy s),
                at_id := Suc (at_id s)\<rparr>;
          attempt = at_id s
      in case at_transcriber s of
        None \<Rightarrow> None
      | Some t \<Rightarrow> do {
          s \<leftarrow> ae_start_attempt A t attempt speech opts s;
          (if attempt \<noteq> at_id s then Some (False, s) else do {
             s \<leftarrow> attempts_commit_partial A s;
             (if attempt \<noteq> at_id s then Some (False, s)
              else Some (True, ts_start_attempt (lib_chars (ae_lib A)) (sp_language speech) s)) }) })"

definition attempts_forget :: "'a attempts_scheme \<Rightarrow> 'a attempts_scheme" where
  "attempts_forget s = s\<lparr>at_id := Suc (at_id s)\<rparr>"

definition attempts_send_audio ::
  "'a attempts_scheme attempts_env \<Rightarrow> pcm \<Rightarrow> 'a attempts_scheme \<Rightarrow> (bool \<times> 'a attempts_scheme) option" where
  "attempts_send_audio A audio s =
     (let attempt = at_id s; s = s\<lparr>at_attempt_sent_audio := True\<rparr> in
      case at_transcriber s of
        None \<Rightarrow> None
      | Some t \<Rightarrow> do {
          s \<leftarrow> ae_send_audio A t attempt audio s;
          Some (attempt = at_id s, s) })"

definition attempts_finish_input :: "'a attempts_scheme attempts_env \<Rightarrow> 'a attempts_scheme step" where
  "attempts_finish_input A s = (case at_transcriber s of None \<Rightarrow> None
     | Some t \<Rightarrow> ae_finish_input A t (at_id s) s)"

definition attempts_begin_utterance :: "'a attempts_scheme attempts_env \<Rightarrow> 'a attempts_scheme step" where
  "attempts_begin_utterance A s = (case at_transcriber s of None \<Rightarrow> None
     | Some t \<Rightarrow> ae_begin_utterance A t (at_id s) s)"

definition attempts_end_utterance :: "'a attempts_scheme attempts_env \<Rightarrow> 'a attempts_scheme step" where
  "attempts_end_utterance A s = (case at_transcriber s of None \<Rightarrow> None
     | Some t \<Rightarrow> ae_end_utterance A t (at_id s) s)"

section \<open>What an ended attempt means\<close>

definition attempts_was_stable :: "'a attempts_scheme attempts_env \<Rightarrow> 'a attempts_scheme \<Rightarrow> bool" where
  "attempts_was_stable A s = policy_was_stable (ae_stable_ms A) (at_now s) (at_policy s)"

definition attempt_was_healthy :: "'a attempts_scheme attempts_env \<Rightarrow> 'a attempts_scheme \<Rightarrow> bool" where
  "attempt_was_healthy A s \<longleftrightarrow> at_attempt_connected s \<and> attempts_was_stable A s"

definition nothing_reached_service :: "speech_failure \<Rightarrow> 'a attempts_scheme \<Rightarrow> bool" where
  "nothing_reached_service f s \<longleftrightarrow> at_provider_attempts s = 1 \<and> \<not> at_attempt_connected s
     \<and> (\<not> at_attempt_sent_audio s \<or> sf_phase f = PhaseConnect)"

definition attempts_take_reconnect ::
  "'a attempts_scheme attempts_env \<Rightarrow> speech_failure \<Rightarrow> 'a attempts_scheme \<Rightarrow> bool \<times> 'a attempts_scheme" where
  "attempts_take_reconnect A f s =
     (if \<not> sf_retryable f \<or> sf_phase f \<noteq> PhaseStreaming then (False, s)
      else let p = policy_refill_if_stable (ae_stable_ms A) (at_now s) (at_policy s);
               (ok, p') = policy_take_reconnect p
           in (ok, s\<lparr>at_policy := p'\<rparr>))"

definition attempts_take_rollover ::
  "'a attempts_scheme attempts_env \<Rightarrow> 'a attempts_scheme \<Rightarrow> bool \<times> 'a attempts_scheme" where
  "attempts_take_rollover A s =
     (if \<not> attempts_was_stable A s then (False, s)
      else (True, s\<lparr>at_policy := policy_refill (at_policy s)\<rparr>))"

definition attempts_ended_too_soon :: "'a attempts_scheme \<Rightarrow> speech_failure" where
  "attempts_ended_too_soon s = ended_too_soon (at_id s)"

definition tried_fallbacks :: "attempt_issue list \<Rightarrow> 'a attempts_scheme \<Rightarrow> bool" where
  "tried_fallbacks issues s \<longleftrightarrow> length (ch_ids s) > 1 \<and> issues \<noteq> []"

definition attempts_failure_text ::
  "'a attempts_scheme attempts_env \<Rightarrow> qstring \<Rightarrow> attempt_issue list \<Rightarrow> 'a attempts_scheme \<Rightarrow> qstring" where
  "attempts_failure_text A message issues s =
     (if \<not> tried_fallbacks issues s then message else no_speech_service_text issues (ae_labels A))"

section \<open>What the transcriber sends\<close>

datatype transcriber_signal =
    SigConnected nat
  | SigPartial nat qstring
  | SigFinal nat qstring
  | SigAttemptTranscript nat qstring
  | SigSegments nat "transcript_segment list"
  | SigUtteranceFailed speech_failure
  | SigCompleted nat
  | SigFailed speech_failure

fun sig_attempt :: "transcriber_signal \<Rightarrow> nat" where
  "sig_attempt (SigConnected i) = i"
| "sig_attempt (SigPartial i _) = i"
| "sig_attempt (SigFinal i _) = i"
| "sig_attempt (SigAttemptTranscript i _) = i"
| "sig_attempt (SigSegments i _) = i"
| "sig_attempt (SigUtteranceFailed f) = sf_attempt f"
| "sig_attempt (SigCompleted i) = i"
| "sig_attempt (SigFailed f) = sf_attempt f"

definition attempts_mark_connected :: "'a attempts_scheme attempts_env \<Rightarrow> 'a attempts_scheme step" where
  "attempts_mark_connected A s =
     (if at_attempt_connected s then Some s
      else ae_connected A (s\<lparr>at_attempt_connected := True, at_provider_connected := True\<rparr>))"

definition attempts_takes_text ::
  "'a attempts_scheme attempts_env \<Rightarrow> nat \<Rightarrow> 'a attempts_scheme \<Rightarrow> (bool \<times> 'a attempts_scheme) option" where
  "attempts_takes_text A i s =
     (if i \<noteq> at_id s then Some (False, s)
      else do {
        s \<leftarrow> attempts_mark_connected A s;
        Some (case ae_accepts_text A of None \<Rightarrow> True | Some f \<Rightarrow> f s, s) })"

text \<open>The lambdas connectTranscriber() connects, one case per signal.\<close>

definition attempts_handle ::
  "'a attempts_scheme attempts_env \<Rightarrow> transcriber_signal \<Rightarrow> 'a attempts_scheme step" where
  "attempts_handle A sig s =
     (let q = lib_chars (ae_lib A) in
      case sig of
        SigConnected i \<Rightarrow> if i = at_id s then attempts_mark_connected A s else Some s
      | SigPartial i text \<Rightarrow> do {
          (takes, s) \<leftarrow> attempts_takes_text A i s;
          (if takes then ts_set_partial q (ae_changed A) text s else Some s) }
      | SigFinal i text \<Rightarrow> do {
          (takes, s) \<leftarrow> attempts_takes_text A i s;
          (if takes then do {
             s \<leftarrow> ts_commit_final q (ae_changed A) text s;
             ae_finalized A text s }
           else Some s) }
      | SigAttemptTranscript i text \<Rightarrow> do {
          (takes, s) \<leftarrow> attempts_takes_text A i s;
          (if takes then ts_replace_attempt_finals q (ae_changed A) text s else Some s) }
      | SigSegments i timed \<Rightarrow> if i = at_id s then ae_segments A timed s else Some s
      | SigUtteranceFailed f \<Rightarrow> if sf_attempt f = at_id s then ae_utterance_failed A (sf_message f) s else Some s
      | SigCompleted i \<Rightarrow> if i = at_id s then ae_completed A s else Some s
      | SigFailed f \<Rightarrow> if sf_attempt f = at_id s then ae_failed A f s else Some s)"

text \<open>A signal of transcriber t reaches the handlers while it is connected.\<close>

definition attempts_deliver ::
  "'a attempts_scheme attempts_env \<Rightarrow> nat \<Rightarrow> transcriber_signal \<Rightarrow> 'a attempts_scheme step" where
  "attempts_deliver A t sig s =
     (if t \<in> set (at_connections s) then attempts_handle A sig s else Some s)"

text \<open>A signal of an attempt that is not the current one changes nothing.\<close>

lemma attempts_handle_stale: "sig_attempt sig \<noteq> at_id s \<Longrightarrow> attempts_handle A sig s = Some s"
  by (cases sig) (simp_all add: attempts_handle_def attempts_takes_text_def)

section \<open>What the attempts keep\<close>

text \<open>
  The interface between the attempts and their session: P is kept by every call,
  and minds none of the attempts' members but the id, which it lets grow; S says
  when P still holds once a piece of audio has gone to the transcriber.
\<close>

locale attempts_handlers =
  fixes A :: "'a attempts_scheme attempts_env" and P :: "'a attempts_scheme \<Rightarrow> bool"
    and S :: "pcm \<Rightarrow> 'a attempts_scheme \<Rightarrow> bool"
  assumes create_provider: "preserves2 P (ae_create_provider A i)"
    and shared_provider: "preserves2 P (ae_shared_provider A i)"
    and delete_later: "preserves P (ae_delete_later A t)"
    and start_attempt: "preserves P (ae_start_attempt A t n sp op)"
    and send_audio: "S a s \<Longrightarrow> holds P (ae_send_audio A t n a s)"
    and finish_input: "preserves P (ae_finish_input A t n)"
    and cancel_attempt: "preserves P (ae_cancel_attempt A t n)"
    and begin_utterance: "preserves P (ae_begin_utterance A t n)"
    and end_utterance: "preserves P (ae_end_utterance A t n)"
    and create_prepare_job: "preserves2 P (ae_create_prepare_job A t sp ac)"
    and prepare: "preserves2 P (ae_prepare A t sp ac)"
    and create_refresh_job: "preserves2 P (ae_create_refresh_job A t rs ac)"
    and apply_job_call: "preserves P (ae_apply A n f)"
    and passed_over: "preserves P (ae_passed_over A i st pf)"
    and renewing_sign_in: "preserves P (ae_renewing_sign_in A)"
    and secrets_resolved: "preserves P (ae_secrets_resolved A as)"
    and ready: "preserves P (ae_ready A)"
    and exhausted: "preserves P (ae_exhausted A)"
    and sign_in_renewed: "preserves P (ae_sign_in_renewed A f)"
    and changed: "preserves P (ae_changed A tx)"
    and connected: "preserves P (ae_connected A)"
    and finalized: "preserves P (ae_finalized A tx)"
    and segments: "preserves P (ae_segments A sg)"
    and utterance_failed: "preserves P (ae_utterance_failed A tx)"
    and chain_frame: "P s \<Longrightarrow> P (s\<lparr>ch_ids := ids\<rparr>)" "P s \<Longrightarrow> P (s\<lparr>ch_index := n\<rparr>)"
      "P s \<Longrightarrow> P (s\<lparr>ch_settings := as\<rparr>)" "P s \<Longrightarrow> P (s\<lparr>ch_refiner := r\<rparr>)"
      "P s \<Longrightarrow> P (s\<lparr>ch_refiner_refreshed := b\<rparr>)" "P s \<Longrightarrow> P (s\<lparr>ch_renewing := b\<rparr>)"
      "P s \<Longrightarrow> P (s\<lparr>ch_runner := ru\<rparr>)"
    and transcript_frame: "P s \<Longrightarrow> P (s\<lparr>ts_finals := fs\<rparr>)" "P s \<Longrightarrow> P (s\<lparr>ts_partial := tx\<rparr>)"
      "P s \<Longrightarrow> P (s\<lparr>ts_attempt_base := tx\<rparr>)" "P s \<Longrightarrow> P (s\<lparr>ts_attempt_language := tx\<rparr>)"
      "P s \<Longrightarrow> P (s\<lparr>ts_heard_language := tx\<rparr>)"
    and attempts_frame: "P s \<Longrightarrow> P (s\<lparr>at_transcriber := to\<rparr>)" "P s \<Longrightarrow> P (s\<lparr>at_connections := cs\<rparr>)"
      "P s \<Longrightarrow> at_id s \<le> n \<Longrightarrow> P (s\<lparr>at_id := n\<rparr>)" "P s \<Longrightarrow> P (s\<lparr>at_policy := po\<rparr>)"
      "P s \<Longrightarrow> P (s\<lparr>at_provider_attempts := n\<rparr>)" "P s \<Longrightarrow> P (s\<lparr>at_provider_connected := b\<rparr>)"
      "P s \<Longrightarrow> P (s\<lparr>at_attempt_connected := b\<rparr>)" "P s \<Longrightarrow> P (s\<lparr>at_attempt_sent_audio := b\<rparr>)"
    and send_frame: "S a s \<Longrightarrow> S a (s\<lparr>at_attempt_sent_audio := b\<rparr>)"
begin

lemmas attempts_call_rules =
  holds_call2[OF create_provider] holds_call2[OF shared_provider] holds_call[OF delete_later]
  holds_call[OF start_attempt] holds_call[OF finish_input] holds_call[OF cancel_attempt]
  holds_call[OF begin_utterance] holds_call[OF end_utterance] holds_call[OF changed]
  holds_call[OF connected] holds_call[OF finalized] holds_call[OF segments] holds_call[OF utterance_failed]

lemma keeps_ts_clear: "preserves P (ts_clear q (ae_changed A))"
  by (rule preservesI) (auto simp: ts_clear_def Let_def intro!: transcript_frame attempts_call_rules)

lemma keeps_ts_set_partial: "preserves P (ts_set_partial q (ae_changed A) tx)"
  by (rule preservesI) (auto simp: ts_set_partial_def Let_def intro!: transcript_frame attempts_call_rules)

lemma keeps_ts_commit_final: "preserves P (ts_commit_final q (ae_changed A) tx)"
  by (rule preservesI) (auto simp: ts_commit_final_def Let_def intro!: transcript_frame attempts_call_rules)

lemma keeps_ts_replace_finals: "preserves P (ts_replace_finals q (ae_changed A) tx)"
  by (rule preservesI) (auto simp: ts_replace_finals_def Let_def intro!: transcript_frame attempts_call_rules)

lemma keeps_ts_replace_attempt: "preserves P (ts_replace_attempt_finals q (ae_changed A) tx)"
  by (rule preservesI)
    (auto simp: ts_replace_attempt_finals_def Let_def intro!: transcript_frame holds_call[OF keeps_ts_replace_finals])

lemma keeps_attempts_cancel: "preserves P (attempts_cancel A)"
  by (rule preservesI) (auto simp: attempts_cancel_def intro!: attempts_frame attempts_call_rules split: option.splits)

lemma keeps_attempts_release: "preserves P (attempts_release A)"
  by (rule preservesI)
    (auto simp: attempts_release_def attempts_disconnect_def Let_def
      intro!: attempts_frame attempts_call_rules holds_call[OF keeps_attempts_cancel] split: option.splits)

lemma keeps_attempts_acquire: "preserves2 P (attempts_acquire A i)"
  by (rule preserves2I)
    (auto simp: attempts_acquire_def attempts_disconnect_def attempts_connect_def Let_def split_beta
      intro!: attempts_frame attempts_call_rules holds_call[OF keeps_attempts_release] split: option.splits)

lemma keeps_attempts_ready: "preserves P (attempts_ready A)"
  by (rule preservesI) (auto simp: attempts_ready_def intro!: attempts_frame holds_call[OF ready])

lemma chain_handlers_attempts: "chain_handlers (attempts_chain A) P"
  by unfold_locales
    (simp_all add: attempts_chain_def keeps_attempts_acquire create_prepare_job prepare create_refresh_job
      apply_job_call passed_over renewing_sign_in secrets_resolved keeps_attempts_ready exhausted
      sign_in_renewed chain_frame)

lemma keeps_commit_partial: "preserves P (attempts_commit_partial A)"
  by (rule preservesI)
    (auto simp: attempts_commit_partial_def Let_def intro!: attempts_call_rules holds_call[OF keeps_ts_commit_final])

lemma keeps_start_attempt: "preserves2 P (attempts_start A sp op)"
  by (rule preserves2I)
    (auto simp: attempts_start_def ts_start_attempt_def Let_def
      intro!: attempts_frame transcript_frame attempts_call_rules holds_call[OF keeps_commit_partial]
      split: option.splits)

lemma keeps_forget: "P s \<Longrightarrow> P (attempts_forget s)"
  by (simp add: attempts_forget_def attempts_frame)

lemma keeps_send_audio: "S a s \<Longrightarrow> holds (\<lambda>(b, s'). P s') (attempts_send_audio A a s)"
  by (auto simp: attempts_send_audio_def Let_def intro!: send_audio send_frame split: option.splits)

lemma keeps_finish_input: "preserves P (attempts_finish_input A)"
  by (rule preservesI) (auto simp: attempts_finish_input_def intro!: attempts_call_rules split: option.splits)

lemma keeps_begin_utterance: "preserves P (attempts_begin_utterance A)"
  by (rule preservesI) (auto simp: attempts_begin_utterance_def intro!: attempts_call_rules split: option.splits)

lemma keeps_end_utterance: "preserves P (attempts_end_utterance A)"
  by (rule preservesI) (auto simp: attempts_end_utterance_def intro!: attempts_call_rules split: option.splits)

lemma keeps_take_reconnect: "P s \<Longrightarrow> P (snd (attempts_take_reconnect A f s))"
  by (auto simp: attempts_take_reconnect_def Let_def attempts_frame split: prod.splits)

lemma keeps_take_rollover: "P s \<Longrightarrow> P (snd (attempts_take_rollover A s))"
  by (auto simp: attempts_take_rollover_def attempts_frame)

lemma keeps_mark_connected: "preserves P (attempts_mark_connected A)"
  by (rule preservesI) (auto simp: attempts_mark_connected_def intro!: attempts_frame attempts_call_rules)

lemma keeps_takes_text: "preserves2 P (attempts_takes_text A n)"
  by (rule preserves2I) (auto simp: attempts_takes_text_def intro!: holds_call[OF keeps_mark_connected])

end

text \<open>Once what the session does as an attempt ends or fails keeps P too, so does every signal.\<close>

locale attempts_session = attempts_handlers +
  assumes completed: "preserves P (ae_completed A)"
    and failed: "preserves P (ae_failed A f)"
begin

lemma keeps_handle: "preserves P (attempts_handle A sig)"
  by (rule preservesI, cases sig)
    (auto simp: attempts_handle_def split_beta
      intro!: attempts_call_rules holds_call[OF completed] holds_call[OF failed]
        holds_call2[OF keeps_takes_text] holds_call[OF keeps_mark_connected] holds_call[OF keeps_ts_set_partial]
        holds_call[OF keeps_ts_commit_final] holds_call[OF keeps_ts_replace_attempt])

lemma keeps_deliver: "preserves P (attempts_deliver A t sig)"
  by (rule preservesI) (auto simp: attempts_deliver_def intro!: holds_call[OF keeps_handle])

end

sublocale attempts_handlers \<subseteq> chain: chain_handlers "attempts_chain A" P
  by (rule chain_handlers_attempts)

end
