(* ===== verification/Speech_Stream.thy ===== *)
theory Speech_Stream
  imports Speech_Attempts
begin

text \<open>
  providers/SpeechStream.cpp: one input's audio, kept as it is heard and streamed
  to a session's speech providers.

  Positions are integers: bytes from the start of the input. The send timer is
  the flag \<^term>\<open>st_timer\<close>; its timeout is \<^term>\<open>stream_send_next_chunk\<close>. The
  environment holds the attempts' own (\<^term>\<open>sv_base\<close>: the registry, the
  transcribers, and what the owner connects to the chain's and the attempts'
  signals after the stream), the Recovery and the rollover the owner sets, and the
  handlers of the stream's signals.
\<close>

definition k_speech_bytes_per_second :: int where
  "k_speech_bytes_per_second = 16000 * 2"

definition k_speech_chunk_bytes :: int where
  "k_speech_chunk_bytes = k_speech_bytes_per_second div 10"

record utterance_mark =
  um_position :: int
  um_begins :: bool

record stream = attempts +
  st_settings :: app_settings
  st_timer :: bool
  st_most_kept :: int
  st_pcm :: pcm
  st_dropped :: int
  st_sent :: int
  st_attempt_start :: int
  st_marks :: "utterance_mark list"
  st_next_mark :: nat
  st_input_ended :: bool
  st_input_finished :: bool
  st_streaming :: bool
  st_issues :: "attempt_issue list"
  st_generation :: nat

record 's stream_env =
  sv_base :: "'s attempts_env"
  sv_options :: attempt_options
  sv_recovery :: "(speech_failure \<Rightarrow> 's \<Rightarrow> (bool \<times> 's) option) option"
  sv_rollover :: "'s step option"
  sv_started_over :: "'s step"
  sv_progress :: "int \<Rightarrow> 's step"
  sv_audio_lost :: "int \<Rightarrow> 's step"
  sv_finished :: "'s step"
  sv_failed :: "qstring \<Rightarrow> 's step"

text \<open>The attempts' environment: a fresh transcriber for each provider.\<close>

definition stream_base :: "'a stream_scheme stream_env \<Rightarrow> 'a stream_scheme attempts_env" where
  "stream_base V = (sv_base V)\<lparr>ae_fresh := True\<rparr>"

section \<open>The audio kept\<close>

text \<open>std::ranges::lower_bound over marks in order of position.\<close>

definition marks_before :: "utterance_mark list \<Rightarrow> int \<Rightarrow> nat" where
  "marks_before marks position = length (takeWhile (\<lambda>m. um_position m < position) marks)"

definition st_total :: "'a stream_scheme \<Rightarrow> int" where
  "st_total s = st_dropped s + int (length (st_pcm s))"

definition stream_rewind_to :: "int \<Rightarrow> 'a stream_scheme \<Rightarrow> 'a stream_scheme" where
  "stream_rewind_to position s =
     s\<lparr>st_sent := position, st_next_mark := marks_before (st_marks s) position\<rparr>"

definition stream_forget_before :: "int \<Rightarrow> 'a stream_scheme \<Rightarrow> 'a stream_scheme" where
  "stream_forget_before position s =
     (let passed = marks_before (st_marks s) position in
      s\<lparr>st_pcm := drop (nat (position - st_dropped s)) (st_pcm s),
        st_dropped := position,
        st_sent := max (st_sent s) position,
        st_marks := drop passed (st_marks s),
        st_next_mark := st_next_mark s - passed\<rparr>)"

definition stream_keep_bounded :: "'a stream_scheme stream_env \<Rightarrow> 'a stream_scheme step" where
  "stream_keep_bounded V s =
     (let excess = int (length (st_pcm s)) - st_most_kept s in
      if st_most_kept s = 0 \<or> excess \<le> 0 then Some s
      else sv_audio_lost V (excess * 1000 div k_speech_bytes_per_second)
             (stream_forget_before (st_dropped s + excess) s))"

definition stream_start_timer :: "'a stream_scheme \<Rightarrow> 'a stream_scheme" where
  "stream_start_timer s = (if st_streaming s \<and> \<not> st_timer s then s\<lparr>st_timer := True\<rparr> else s)"

definition stream_append :: "'a stream_scheme stream_env \<Rightarrow> pcm \<Rightarrow> 'a stream_scheme step" where
  "stream_append V audio s = do {
     s \<leftarrow> stream_keep_bounded V (s\<lparr>st_pcm := st_pcm s @ audio\<rparr>);
     Some (stream_start_timer s) }"

definition stream_has_audio :: "'a stream_scheme \<Rightarrow> bool" where
  "stream_has_audio s \<longleftrightarrow> 0 < st_dropped s \<or> st_pcm s \<noteq> []"

definition stream_unsent_bytes :: "'a stream_scheme \<Rightarrow> int" where
  "stream_unsent_bytes s = st_total s - st_sent s"

definition stream_end_input :: "'a stream_scheme \<Rightarrow> 'a stream_scheme" where
  "stream_end_input s = stream_start_timer (s\<lparr>st_input_ended := True\<rparr>)"

definition stream_attempt_start_ms :: "'a stream_scheme \<Rightarrow> int" where
  "stream_attempt_start_ms s = st_attempt_start s * 1000 div k_speech_bytes_per_second"

section \<open>Utterances\<close>

partial_function (option) stream_mark_utterances ::
  "'a stream_scheme stream_env \<Rightarrow> 'a stream_scheme \<Rightarrow> 'a stream_scheme option" where
  "stream_mark_utterances V s =
     (if st_streaming s \<and> st_next_mark s < length (st_marks s)
         \<and> um_position (st_marks s ! st_next_mark s) \<le> st_sent s
      then do {
        s \<leftarrow> (if um_begins (st_marks s ! st_next_mark s)
             then attempts_begin_utterance (stream_base V) (s\<lparr>st_next_mark := Suc (st_next_mark s)\<rparr>)
             else attempts_end_utterance (stream_base V) (s\<lparr>st_next_mark := Suc (st_next_mark s)\<rparr>));
        stream_mark_utterances V s }
      else Some s)"

definition stream_begin_utterance :: "'a stream_scheme stream_env \<Rightarrow> int \<Rightarrow> 'a stream_scheme step" where
  "stream_begin_utterance V voiced s =
     (let p = st_total s - voiced;
          position = (if st_marks s \<noteq> [] then max p (um_position (last (st_marks s))) else p)
      in stream_mark_utterances V
           (s\<lparr>st_marks := st_marks s @ [\<lparr>um_position = position, um_begins = True\<rparr>]\<rparr>))"

definition stream_end_utterance :: "'a stream_scheme stream_env \<Rightarrow> 'a stream_scheme step" where
  "stream_end_utterance V s =
     (if st_input_finished s then Some s
      else stream_mark_utterances V
             (s\<lparr>st_marks := st_marks s @ [\<lparr>um_position = st_total s, um_begins = False\<rparr>]\<rparr>))"

section \<open>Holding and going on\<close>

definition stream_speech_settings :: "'a stream_scheme \<Rightarrow> speech_settings" where
  "stream_speech_settings s = chain_speech_settings (as_speech (st_settings s)) (chain_current_id s)"

definition stream_hold :: "'a stream_scheme \<Rightarrow> 'a stream_scheme" where
  "stream_hold s = s\<lparr>st_timer := False, st_streaming := False\<rparr>"

definition stream_drop_attempt :: "'a stream_scheme stream_env \<Rightarrow> 'a stream_scheme step" where
  "stream_drop_attempt V s = do {
     s \<leftarrow> attempts_commit_partial (stream_base V) (stream_hold s);
     s \<leftarrow> attempts_cancel (stream_base V) s;
     Some (if \<not> at_attempt_connected s
           then stream_rewind_to (max (st_attempt_start s) (st_dropped s)) s else s) }"

definition stream_start_next_attempt :: "'a stream_scheme stream_env \<Rightarrow> 'a stream_scheme step" where
  "stream_start_next_attempt V s = do {
     let s = s\<lparr>st_attempt_start := st_sent s\<rparr>;
     (ok, s) \<leftarrow> attempts_start (stream_base V) (stream_speech_settings s) (sv_options V) s;
     Some s }"

definition stream_resume :: "'a stream_scheme stream_env \<Rightarrow> 'a stream_scheme step" where
  "stream_resume V s = do {
     s \<leftarrow> stream_start_next_attempt V (s\<lparr>st_streaming := True\<rparr>);
     Some (stream_start_timer s) }"

section \<open>Sending\<close>

text \<open>QByteArray::mid; a negative length goes to the end.\<close>

definition byte_mid :: "int \<Rightarrow> int \<Rightarrow> pcm \<Rightarrow> pcm" where
  "byte_mid position n xs = (if n < 0 then drop (nat position) xs else take (nat n) (drop (nat position) xs))"

definition stream_chunk :: "'a stream_scheme \<Rightarrow> pcm" where
  "stream_chunk s =
     (let n = (if st_next_mark s < length (st_marks s)
               then min k_speech_chunk_bytes (um_position (st_marks s ! st_next_mark s) - st_sent s)
               else k_speech_chunk_bytes)
      in byte_mid (st_sent s - st_dropped s) n (st_pcm s))"

text \<open>sendNextChunk's second half: there is audio to send.\<close>

definition stream_send_chunk :: "'a stream_scheme stream_env \<Rightarrow> 'a stream_scheme step" where
  "stream_send_chunk V s = do {
     let chunk = stream_chunk s;
     (ok, s) \<leftarrow> attempts_send_audio (stream_base V) chunk (s\<lparr>st_sent := st_sent s + int (length chunk)\<rparr>);
     (if \<not> ok then Some s else do {
        s \<leftarrow> stream_mark_utterances V s;
        let generation = st_generation s;
        s \<leftarrow> sv_progress V (st_sent s) s;
        Some (if generation = st_generation s \<and> at_attempt_connected s
              then stream_forget_before (st_sent s) s else s) }) }"

definition stream_send_next_chunk :: "'a stream_scheme stream_env \<Rightarrow> 'a stream_scheme step" where
  "stream_send_next_chunk V s = do {
     s \<leftarrow> stream_mark_utterances V s;
     (if st_total s \<le> st_sent s then
       (if \<not> st_input_ended s then Some (s\<lparr>st_timer := False\<rparr>)
        else attempts_finish_input (stream_base V) (s\<lparr>st_timer := False, st_input_finished := True\<rparr>))
     else stream_send_chunk V s) }"

section \<open>The chain's handlers\<close>

definition stream_begin_streaming :: "'a stream_scheme stream_env \<Rightarrow> 'a stream_scheme step" where
  "stream_begin_streaming V s = do {
     let generation = st_generation s;
     s \<leftarrow> ts_clear (lib_chars (ae_lib (stream_base V))) (ae_changed (stream_base V)) s;
     (if generation \<noteq> st_generation s then Some s else do {
        s \<leftarrow> sv_started_over V s;
        (if generation \<noteq> st_generation s then Some s else do {
           let s = (stream_rewind_to (st_dropped s) s)\<lparr>st_input_finished := False\<rparr>;
           let s = s\<lparr>st_attempt_start := st_sent s\<rparr>;
           (ok, s) \<leftarrow> attempts_start (stream_base V) (stream_speech_settings s) (sv_options V) s;
           Some (if ok then s\<lparr>st_streaming := True, st_timer := True\<rparr> else s) }) }) }"

definition stream_note_passed_over ::
  "'a stream_scheme stream_env \<Rightarrow> qstring \<Rightarrow> issue_stage \<Rightarrow> provider_failure \<Rightarrow> 'a stream_scheme step" where
  "stream_note_passed_over V provider stage f s =
     ae_passed_over (stream_base V) provider stage f
       (s\<lparr>st_issues := st_issues s @ [\<lparr>ai_role = Speech, ai_provider = provider, ai_stage = stage,
            ai_kind = pf_kind f, ai_message = pf_message f, ai_offline = False, ai_words_lost = False\<rparr>]\<rparr>)"

text \<open>m_issues.value(0).message: the first issue's, empty when there is none.\<close>

definition first_issue_message :: "attempt_issue list \<Rightarrow> qstring" where
  "first_issue_message issues = (case issues of [] \<Rightarrow> [] | i # _ \<Rightarrow> ai_message i)"

definition stream_exhausted :: "'a stream_scheme stream_env \<Rightarrow> 'a stream_scheme step" where
  "stream_exhausted V s = do {
     s \<leftarrow> sv_failed V (attempts_failure_text (stream_base V) (first_issue_message (st_issues s)) (st_issues s) s) s;
     ae_exhausted (stream_base V) s }"

text \<open>
  The constructor's connections, each before what the owner connects later: those
  to the chain first, as a failure handler walks the chain.
\<close>

definition stream_walk_env :: "'a stream_scheme stream_env \<Rightarrow> 'a stream_scheme attempts_env" where
  "stream_walk_env V = (stream_base V)\<lparr>
     ae_passed_over := stream_note_passed_over V,
     ae_secrets_resolved := (\<lambda>settings s. ae_secrets_resolved (stream_base V) settings (s\<lparr>st_settings := settings\<rparr>)),
     ae_ready := (\<lambda>s. do { s \<leftarrow> stream_begin_streaming V s; ae_ready (stream_base V) s }),
     ae_exhausted := stream_exhausted V\<rparr>"

definition stream_chain :: "'a stream_scheme stream_env \<Rightarrow> 'a stream_scheme chain_env" where
  "stream_chain V = attempts_chain (stream_walk_env V)"

definition stream_handle_failure ::
  "'a stream_scheme stream_env \<Rightarrow> speech_failure \<Rightarrow> 'a stream_scheme step" where
  "stream_handle_failure V f s = do {
     (recovered, s) \<leftarrow> (case sv_recovery V of None \<Rightarrow> Some (False, s) | Some r \<Rightarrow> r f s);
     (if recovered then Some s
      else let nothing = nothing_reached_service f s;
               issue = \<lparr>ai_role = Speech, ai_provider = chain_current_id s,
                 ai_stage = (if nothing then StageConnect else Interrupted),
                 ai_kind = sf_kind f, ai_message = sf_message f, ai_offline = False, ai_words_lost = False\<rparr>
        in if nothing \<and> chain_fallback_remains (sf_kind f) s then do {
             let s = (stream_hold s)\<lparr>st_issues := st_issues s @ [issue]\<rparr>;
             s \<leftarrow> attempts_release (stream_walk_env V) s;
             chain_prepare_next (stream_chain V) (st_settings s) None s }
           else (let (reconnects, s1) = (if st_input_finished s then (False, s)
                                         else attempts_take_reconnect (stream_base V) f s)
             in if reconnects then stream_start_next_attempt V s1
                else let s2 = s1\<lparr>st_issues := st_issues s1 @ [issue]\<rparr>
                  in sv_failed V (if ts_is_empty (lib_chars (ae_lib (stream_base V))) s2
                                  then attempts_failure_text (stream_base V) (sf_message f) (st_issues s2) s2
                                  else sf_message f) s2)) }"

definition stream_handle_completed :: "'a stream_scheme stream_env \<Rightarrow> 'a stream_scheme step" where
  "stream_handle_completed V s =
     (if st_input_finished s then sv_finished V s
      else let (rolls, s) = attempts_take_rollover (stream_base V) s in
        if \<not> rolls then stream_handle_failure V (attempts_ended_too_soon s) s
        else case sv_rollover V of
          Some r \<Rightarrow> r s
        | None \<Rightarrow> stream_start_next_attempt V s)"

definition stream_attempts :: "'a stream_scheme stream_env \<Rightarrow> 'a stream_scheme attempts_env" where
  "stream_attempts V = (stream_walk_env V)\<lparr>
     ae_completed := (\<lambda>s. do { s \<leftarrow> stream_handle_completed V s; ae_completed (stream_base V) s }),
     ae_failed := (\<lambda>f s. do { s \<leftarrow> stream_handle_failure V f s; ae_failed (stream_base V) f s })\<rparr>"

section \<open>The owner's commands\<close>

definition stream_reset :: "'a stream_scheme stream_env \<Rightarrow> 'a stream_scheme step" where
  "stream_reset V s = ts_clear (lib_chars (ae_lib (stream_base V))) (ae_changed (stream_base V))
     (s\<lparr>st_pcm := [], st_dropped := 0, st_sent := 0, st_attempt_start := 0, st_marks := [],
        st_next_mark := 0, st_input_ended := False, st_input_finished := False, st_issues := []\<rparr>)"

definition stream_prepare :: "'a stream_scheme stream_env \<Rightarrow> app_settings \<Rightarrow> 'a stream_scheme step" where
  "stream_prepare V settings s =
     (let s = s\<lparr>st_generation := Suc (st_generation s), st_settings := settings\<rparr>;
          s = chain_begin (sp_provider (as_speech settings)) (sp_fallbacks (as_speech settings)) s;
          problem = spoken_language_problem (lib_names (ae_lib (stream_base V))) (stream_speech_settings s)
                      (ae_labels (stream_base V) Speech (chain_current_id s))
      in if problem \<noteq> [] then sv_failed V problem s
         else chain_prepare (stream_chain V) (st_settings s) None s)"

definition stream_release :: "'a stream_scheme stream_env \<Rightarrow> 'a stream_scheme step" where
  "stream_release V s = do {
     let s = chain_cancel (stream_hold (s\<lparr>st_generation := Suc (st_generation s)\<rparr>));
     s \<leftarrow> attempts_release (stream_walk_env V) s;
     Some (s\<lparr>st_pcm := [], st_dropped := 0\<rparr>) }"

definition stream_renew_sign_in :: "'a stream_scheme stream_env \<Rightarrow> 'a stream_scheme step" where
  "stream_renew_sign_in V s = chain_renew_sign_in (stream_chain V) (at_transcriber s)
     (stream_speech_settings s) (as_accounts (st_settings s)) s"

section \<open>What the stream keeps\<close>

text \<open>
  The interface between the stream and its owner, as that of the attempts: P is
  kept by every call and says what it asks of the audio kept by how the stream
  changes it.
\<close>

locale stream_handlers = base: attempts_handlers "stream_base V" P S
  for V :: "'a stream_scheme stream_env" and P :: "'a stream_scheme \<Rightarrow> bool"
    and S :: "pcm \<Rightarrow> 'a stream_scheme \<Rightarrow> bool" +
  fixes A :: "pcm \<Rightarrow> 'a stream_scheme \<Rightarrow> bool" and N :: "'a stream_scheme \<Rightarrow> bool"
  assumes recovery: "sv_recovery V = Some rc \<Longrightarrow> preserves2 P (rc f)"
    and rollover: "sv_rollover V = Some ro \<Longrightarrow> preserves P ro"
    and started_over: "preserves P (sv_started_over V)"
    and progress: "preserves P (sv_progress V i)"
    and audio_lost: "preserves P (sv_audio_lost V i)"
    and finished: "preserves P (sv_finished V)"
    and failed: "preserves P (sv_failed V tx)"
    and base_completed: "preserves P (ae_completed (stream_base V))"
    and base_failed: "preserves P (ae_failed (stream_base V) f)"
    and stream_frame: "P s \<Longrightarrow> P (s\<lparr>st_settings := as\<rparr>)" "P s \<Longrightarrow> P (s\<lparr>st_timer := b\<rparr>)"
      "P s \<Longrightarrow> P (s\<lparr>st_next_mark := n\<rparr>)" "P s \<Longrightarrow> P (s\<lparr>st_input_ended := b\<rparr>)"
      "P s \<Longrightarrow> P (s\<lparr>st_input_finished := b\<rparr>)" "P s \<Longrightarrow> P (s\<lparr>st_streaming := b\<rparr>)"
      "P s \<Longrightarrow> P (s\<lparr>st_issues := is\<rparr>)" "P s \<Longrightarrow> P (s\<lparr>st_generation := n\<rparr>)"
    and keeps_attempt_start: "P s \<Longrightarrow> P (s\<lparr>st_attempt_start := st_sent s\<rparr>)"
    and keeps_restart: "P s \<Longrightarrow> P (s\<lparr>st_sent := st_dropped s, st_next_mark := n, st_input_finished := b,
        st_attempt_start := st_dropped s\<rparr>)"
    and keeps_rewind: "P s \<Longrightarrow> P (s\<lparr>st_sent := max (st_attempt_start s) (st_dropped s), st_next_mark := n\<rparr>)"
    and keeps_append_beyond: "A a s \<Longrightarrow> st_most_kept s \<noteq> 0 \<Longrightarrow>
        st_most_kept s < int (length (st_pcm s) + length a) \<Longrightarrow>
        P (stream_forget_before (st_dropped s + (int (length (st_pcm s) + length a) - st_most_kept s))
             (s\<lparr>st_pcm := st_pcm s @ a\<rparr>))"
    and keeps_append: "A a s \<Longrightarrow> st_most_kept s = 0 \<or> int (length (st_pcm s) + length a) \<le> st_most_kept s \<Longrightarrow>
        P (s\<lparr>st_pcm := st_pcm s @ a\<rparr>)"
    and keeps_forget_sent: "P s \<Longrightarrow> P (stream_forget_before (st_sent s) s)"
    and keeps_begin_mark: "P s \<Longrightarrow> st_marks s = [] \<Longrightarrow> 0 \<le> v \<Longrightarrow>
        P (s\<lparr>st_marks := [\<lparr>um_position = st_total s - v, um_begins = True\<rparr>]\<rparr>)"
      "P s \<Longrightarrow> st_marks s \<noteq> [] \<Longrightarrow> 0 \<le> v \<Longrightarrow> P (s\<lparr>st_marks := st_marks s @
        [\<lparr>um_position = max (st_total s - v) (um_position (last (st_marks s))), um_begins = True\<rparr>]\<rparr>)"
    and keeps_end_mark: "P s \<Longrightarrow> P (s\<lparr>st_marks := st_marks s @ [\<lparr>um_position = st_total s, um_begins = False\<rparr>]\<rparr>)"
    and keeps_send: "P s \<Longrightarrow> st_sent s < st_total s \<Longrightarrow>
        S (stream_chunk s) (s\<lparr>st_sent := st_sent s + int (length (stream_chunk s))\<rparr>)"
    and keeps_emptied: "N s \<Longrightarrow> P (s\<lparr>st_pcm := [], st_dropped := 0, st_sent := 0, st_attempt_start := 0,
        st_marks := [], st_next_mark := 0, st_input_ended := False, st_input_finished := False, st_issues := []\<rparr>)"
begin

lemmas stream_call_rules =
  holds_call[OF started_over] holds_call[OF progress] holds_call[OF audio_lost] holds_call[OF finished]
  holds_call[OF failed]

lemmas keeps_base = base.keeps_begin_utterance base.keeps_end_utterance
  base.keeps_finish_input base.keeps_commit_partial
  base.keeps_attempts_cancel

lemma keeps_start_timer: "P s \<Longrightarrow> P (stream_start_timer s)"
  by (simp add: stream_start_timer_def stream_frame)

lemma keeps_keep_bounded:
  assumes "A a s"
  shows "holds P (stream_keep_bounded V (s\<lparr>st_pcm := st_pcm s @ a\<rparr>))"
  using keeps_append[OF assms] keeps_append_beyond[OF assms]
  by (auto simp: stream_keep_bounded_def Let_def add_diff_eq intro!: stream_call_rules)

lemma keeps_stream_append: "A a s \<Longrightarrow> holds P (stream_append V a s)"
  unfolding stream_append_def holds_bind holds_Some
  by (rule holds_mono[OF keeps_keep_bounded]) (simp_all add: keeps_start_timer)

lemma keeps_end_input: "P s \<Longrightarrow> P (stream_end_input s)"
  by (simp add: stream_end_input_def keeps_start_timer stream_frame)

lemma keeps_mark_utterances: "preserves P (stream_mark_utterances V)"
proof -
  have step: "E = V \<longrightarrow> P s \<longrightarrow> P r"
    if IH: "\<And>s' r'. w E s' = Some r' \<Longrightarrow> E = V \<longrightarrow> P s' \<longrightarrow> P r'"
      and body: "(if st_streaming s \<and> st_next_mark s < length (st_marks s)
            \<and> um_position (st_marks s ! st_next_mark s) \<le> st_sent s
         then (if um_begins (st_marks s ! st_next_mark s)
               then attempts_begin_utterance (stream_base E) (s\<lparr>st_next_mark := Suc (st_next_mark s)\<rparr>)
               else attempts_end_utterance (stream_base E) (s\<lparr>st_next_mark := Suc (st_next_mark s)\<rparr>))
              \<bind> w E
         else Some s) = Some r" for w E s r
  proof (intro impI)
    assume E: "E = V" and P: "P s"
    have next_P: "P (s\<lparr>st_next_mark := Suc (st_next_mark s)\<rparr>)" by (rule stream_frame(3)[OF P])
    show "P r"
    proof (cases "st_streaming s \<and> st_next_mark s < length (st_marks s)
        \<and> um_position (st_marks s ! st_next_mark s) \<le> st_sent s")
      case True
      then obtain s1 where s1: "(if um_begins (st_marks s ! st_next_mark s)
               then attempts_begin_utterance (stream_base V) (s\<lparr>st_next_mark := Suc (st_next_mark s)\<rparr>)
               else attempts_end_utterance (stream_base V) (s\<lparr>st_next_mark := Suc (st_next_mark s)\<rparr>)) = Some s1"
        and rest: "w V s1 = Some r"
        using body E by (auto simp: bind_eq_Some_conv)
      have "P s1" using s1 preserves_holds[OF keeps_base(1) next_P] preserves_holds[OF keeps_base(2) next_P]
        by (auto simp: holds_def split: if_splits)
      thus ?thesis using IH rest E by blast
    next
      case False
      thus ?thesis using body P by auto
    qed
  qed
  have "P s \<longrightarrow> P r" if "stream_mark_utterances V s = Some r" for s r
    using stream_mark_utterances.raw_induct[of "\<lambda>E s r. E = V \<longrightarrow> P s \<longrightarrow> P r", OF _ that] step by blast
  thus ?thesis by (auto simp: preserves_def holds_def)
qed

lemma keeps_stream_begin_utterance: "0 \<le> v \<Longrightarrow> preserves P (stream_begin_utterance V v)"
  by (rule preservesI)
    (auto simp: stream_begin_utterance_def Let_def intro!: holds_call[OF keeps_mark_utterances] keeps_begin_mark)

lemma keeps_stream_end_utterance: "preserves P (stream_end_utterance V)"
  by (rule preservesI)
    (auto simp: stream_end_utterance_def intro!: holds_call[OF keeps_mark_utterances] keeps_end_mark)

lemma keeps_hold: "P s \<Longrightarrow> P (stream_hold s)"
  by (simp add: stream_hold_def stream_frame)

lemma keeps_drop_attempt: "preserves P (stream_drop_attempt V)"
  by (rule preservesI)
    (auto simp: stream_drop_attempt_def stream_rewind_to_def
      intro!: keeps_hold keeps_rewind holds_call[OF keeps_base(4)] holds_call[OF keeps_base(5)])

lemma keeps_start_next: "preserves P (stream_start_next_attempt V)"
  by (rule preservesI)
    (auto simp: stream_start_next_attempt_def Let_def split_beta
      intro!: keeps_attempt_start holds_call2[OF base.keeps_start_attempt])

lemma keeps_stream_resume: "preserves P (stream_resume V)"
  by (rule preservesI)
    (auto simp: stream_resume_def intro!: stream_frame keeps_start_timer holds_call[OF keeps_start_next])

lemma keeps_send_chunk:
  assumes "P s" "st_sent s < st_total s"
  shows "holds P (stream_send_chunk V s)"
  unfolding stream_send_chunk_def Let_def holds_bind
  by (rule holds_mono[OF base.keeps_send_audio[OF keeps_send[OF assms]]])
    (auto intro!: holds_call[OF keeps_mark_utterances] stream_call_rules keeps_forget_sent)

lemma keeps_send_next_chunk: "preserves P (stream_send_next_chunk V)"
  by (rule preservesI)
    (auto simp: stream_send_next_chunk_def
      intro!: stream_frame keeps_send_chunk holds_call[OF keeps_mark_utterances] holds_call[OF keeps_base(3)])

lemma keeps_begin_streaming: "preserves P (stream_begin_streaming V)"
  by (rule preservesI)
    (auto simp: stream_begin_streaming_def stream_rewind_to_def Let_def split_beta
      intro!: stream_frame keeps_restart stream_call_rules holds_call[OF base.keeps_ts_clear]
        holds_call2[OF base.keeps_start_attempt])

lemma stream_walk_handlers: "attempts_handlers (stream_walk_env V) P S"
proof -
  have note_passed: "preserves P (stream_note_passed_over V i st f)" for i st f
    by (rule preservesI) (auto simp: stream_note_passed_over_def intro!: stream_frame holds_call[OF base.passed_over])
  have secrets: "preserves P (\<lambda>s. ae_secrets_resolved (stream_base V) as (s\<lparr>st_settings := as\<rparr>))" for as
    by (rule preservesI) (auto intro!: stream_frame holds_call[OF base.secrets_resolved])
  have ready: "preserves P (\<lambda>s. stream_begin_streaming V s \<bind> ae_ready (stream_base V))"
    by (rule preserves_bind[OF keeps_begin_streaming base.ready])
  have exhausted: "preserves P (stream_exhausted V)"
    by (rule preservesI) (auto simp: stream_exhausted_def intro!: stream_call_rules holds_call[OF base.exhausted])
  show ?thesis
    using base.attempts_handlers_axioms
    by (simp add: stream_walk_env_def attempts_handlers_def note_passed secrets ready exhausted)
qed

end

sublocale stream_handlers \<subseteq> walk: attempts_handlers "stream_walk_env V" P S
  by (rule stream_walk_handlers)

context stream_handlers
begin

lemma keeps_handle_failure: "preserves P (stream_handle_failure V f)"
proof (rule preservesI)
  fix s assume P: "P s"
  have rec: "holds (\<lambda>(b, s'). P s') (case sv_recovery V of None \<Rightarrow> Some (False, s) | Some r \<Rightarrow> r f s)"
    using recovery P by (auto simp: preserves2_def split: option.split)
  have reconnect: "P (snd (attempts_take_reconnect (stream_base V) f s'))" if "P s'" for s'
    by (rule base.keeps_take_reconnect[OF that])
  show "holds P (stream_handle_failure V f s)"
    unfolding stream_handle_failure_def holds_bind
    by (rule holds_mono[OF rec])
      (auto simp: Let_def split_beta stream_chain_def reconnect
        intro!: stream_frame keeps_hold stream_call_rules holds_call[OF walk.keeps_attempts_release]
          holds_call[OF walk.chain.keeps_prepare_next] holds_call[OF keeps_start_next])
qed

lemma keeps_handle_completed: "preserves P (stream_handle_completed V)"
proof (rule preservesI)
  fix s assume P: "P s"
  from base.keeps_take_rollover[OF P] show "holds P (stream_handle_completed V s)"
    using P by (auto simp: stream_handle_completed_def split_beta Let_def
        intro!: stream_call_rules holds_call[OF keeps_handle_failure] holds_call[OF keeps_start_next]
          holds_call[OF rollover] split: option.splits)
qed

lemma stream_session: "attempts_session (stream_attempts V) P S"
proof -
  have completed: "preserves P (\<lambda>s. stream_handle_completed V s \<bind> ae_completed (stream_base V))"
    by (rule preserves_bind[OF keeps_handle_completed base_completed])
  have failed: "preserves P (\<lambda>s. stream_handle_failure V f s \<bind> ae_failed (stream_base V) f)" for f
    by (rule preserves_bind[OF keeps_handle_failure base_failed])
  show ?thesis
    using walk.attempts_handlers_axioms
    by (simp add: stream_attempts_def attempts_session_def attempts_session_axioms_def attempts_handlers_def
        completed failed)
qed

lemma keeps_deliver: "preserves P (attempts_deliver (stream_attempts V) t sig)"
  by (rule attempts_session.keeps_deliver[OF stream_session])

lemma keeps_thread_finished: "preserves P (chain_thread_finished (stream_chain V) n w)"
  unfolding stream_chain_def by (rule walk.chain.keeps_thread_finished)

lemma keeps_reset: "N s \<Longrightarrow> holds P (stream_reset V s)"
  unfolding stream_reset_def by (rule preserves_holds[OF base.keeps_ts_clear]) (rule keeps_emptied)

lemma keeps_stream_prepare: "preserves P (stream_prepare V as)"
  by (rule preservesI)
    (auto simp: stream_prepare_def Let_def stream_chain_def
      intro!: stream_frame stream_call_rules base.chain.keeps_begin holds_call[OF walk.chain.keeps_prepare])

lemma keeps_renew: "preserves P (stream_renew_sign_in V)"
  by (rule preservesI)
    (auto simp: stream_renew_sign_in_def stream_chain_def intro!: holds_call[OF walk.chain.keeps_renew_sign_in])

end

end
