(* ===== verification/Dictation_Speech.thy ===== *)
theory Dictation_Speech
  imports Speech_Attempts
begin

text \<open>
  dictation/DictationSpeech.cpp and BetweenAttempts.h: a Dictation Session's
  speech, from its first speech provider until every word heard is in the
  transcript.

  The members of BetweenAttempts are the record \<^term>\<open>between\<close>, those of
  DictationSpeech the fields of \<^term>\<open>dictation\<close>. The environment holds the
  registry and the transcribers (\<^term>\<open>dv_base\<close>, whose own handlers nobody else
  connects) and the session's handlers of the speech's signals.
\<close>

section \<open>Between attempts\<close>

record between =
  bw_finishing_paused :: bool
  bw_ended_during_stop :: bool
  bw_awaiting_provider :: bool
  bw_held_past_budget :: bool
  bw_input_ended :: bool
  bw_held :: "pcm list"
  bw_held_bytes :: int

definition between_init :: between where
  "between_init = \<lparr>bw_finishing_paused = False, bw_ended_during_stop = False, bw_awaiting_provider = False,
     bw_held_past_budget = False, bw_input_ended = False, bw_held = [], bw_held_bytes = 0\<rparr>"

definition bw_has_held :: "between \<Rightarrow> bool" where
  "bw_has_held b \<longleftrightarrow> bw_held b \<noteq> []"

definition bw_holds_audio :: "between \<Rightarrow> bool" where
  "bw_holds_audio b \<longleftrightarrow> bw_finishing_paused b \<or> bw_ended_during_stop b \<or> bw_awaiting_provider b
     \<or> bw_input_ended b \<or> bw_has_held b"

definition bw_hold :: "pcm \<Rightarrow> between \<Rightarrow> between" where
  "bw_hold audio b = b\<lparr>bw_held := bw_held b @ [audio], bw_held_bytes := bw_held_bytes b + int (length audio)\<rparr>"

text \<open>takeOldestHeld: only called while something is held.\<close>

definition bw_take_oldest :: "between \<Rightarrow> (pcm \<times> between) option" where
  "bw_take_oldest b = (case bw_held b of
     [] \<Rightarrow> None
   | audio # rest \<Rightarrow> Some (audio, b\<lparr>bw_held := rest, bw_held_bytes := bw_held_bytes b - int (length audio)\<rparr>))"

definition bw_drop_held :: "between \<Rightarrow> between" where
  "bw_drop_held b = b\<lparr>bw_held := [], bw_held_bytes := 0\<rparr>"

section \<open>State and environment\<close>

definition k_max_pending_audio_bytes :: int where
  "k_max_pending_audio_bytes = 10 * 16000 * 2"

datatype speech_state = IdlePhase | Starting | Listening | Paused | Stopping

record dictation = attempts +
  dt_phase :: speech_state
  dt_settings :: "app_settings option"
  dt_refiner :: "nat option"
  dt_between :: between
  dt_switch_failure :: speech_failure
  dt_microphone_starting :: bool
  dt_microphone_stopped :: bool
  dt_no_attempt_to_finish :: bool
  dt_finish_owed :: bool
  dt_open_owed :: bool
  dt_empty_resumed :: nat
  dt_retired :: nat

definition no_speech_failure :: speech_failure where
  "no_speech_failure = \<lparr>sf_attempt = 0, sf_message = [], sf_retryable = False, sf_phase = PhaseConnect,
     sf_kind = OtherFailure, sf_http_status = 0\<rparr>"

definition default_attempt_options :: attempt_options where
  "default_attempt_options = \<lparr>ao_timed_segments = False, ao_cut_into_utterances = False\<rparr>"

record 's dictation_env =
  dv_base :: "'s attempts_env"
  dv_ready_to_listen :: "'s step"
  dv_sign_in_observed :: "qstring \<Rightarrow> bool \<Rightarrow> 's step"
  dv_ran :: "qstring \<Rightarrow> 's step"
  dv_passed_over :: "qstring \<Rightarrow> issue_stage \<Rightarrow> provider_failure \<Rightarrow> 's step"
  dv_renewing_sign_in :: "'s step"
  dv_secrets_resolved :: "app_settings \<Rightarrow> 's step"
  dv_words_may_be_missing :: "speech_failure \<Rightarrow> 's step"
  dv_held_past_budget :: "'s step"
  dv_ended :: "'s step"
  dv_failed :: "speech_failure \<Rightarrow> 's step"
  dv_exhausted :: "speech_failure \<Rightarrow> 's step"

text \<open>The attempts of a Dictation Session take shared transcribers, and text only while the speech runs.\<close>

definition dict_base :: "'a dictation_scheme dictation_env \<Rightarrow> 'a dictation_scheme attempts_env" where
  "dict_base D = (dv_base D)\<lparr>ae_fresh := False, ae_accepts_text := Some (\<lambda>s. dt_phase s \<noteq> IdlePhase)\<rparr>"

abbreviation upd_between :: "(between \<Rightarrow> between) \<Rightarrow> 'a dictation_scheme \<Rightarrow> 'a dictation_scheme" where
  "upd_between f s \<equiv> s\<lparr>dt_between := f (dt_between s)\<rparr>"

section \<open>Sending what is held\<close>

text \<open>m_settings is an optional: reading it unset is undefined.\<close>

definition dict_speech_settings :: "'a dictation_scheme \<Rightarrow> qstring \<Rightarrow> speech_settings option" where
  "dict_speech_settings s provider =
     (case dt_settings s of None \<Rightarrow> None | Some a \<Rightarrow> Some (chain_speech_settings (as_speech a) provider))"

partial_function (option) dict_send_held ::
  "'a dictation_scheme dictation_env \<Rightarrow> 'a dictation_scheme \<Rightarrow> 'a dictation_scheme option" where
  "dict_send_held D s =
     (if \<not> bw_awaiting_provider (dt_between s) \<and> \<not> bw_input_ended (dt_between s) \<and> bw_has_held (dt_between s)
      then do {
        (audio, b) \<leftarrow> bw_take_oldest (dt_between s);
        (ok, s) \<leftarrow> attempts_send_audio (dict_base D) audio (s\<lparr>dt_between := b\<rparr>);
        dict_send_held D s }
      else Some s)"

definition dict_resume_attempt :: "'a dictation_scheme dictation_env \<Rightarrow> 'a dictation_scheme step" where
  "dict_resume_attempt D s = do {
     let provider = chain_current_id s;
     s \<leftarrow> dv_ran D provider s;
     let s = upd_between (\<lambda>b. b\<lparr>bw_input_ended := False\<rparr>) s;
     speech \<leftarrow> dict_speech_settings s provider;
     (ok, s) \<leftarrow> attempts_start (dict_base D) speech default_attempt_options s;
     dict_send_held D s }"

definition dict_end_input :: "'a dictation_scheme dictation_env \<Rightarrow> 'a dictation_scheme step" where
  "dict_end_input D s = do {
     s \<leftarrow> dict_send_held D s;
     (if bw_awaiting_provider (dt_between s) \<or> bw_input_ended (dt_between s) then Some s
      else attempts_finish_input (dict_base D) (upd_between (\<lambda>b. b\<lparr>bw_input_ended := True\<rparr>) s)) }"

definition dict_open_first :: "'a dictation_scheme dictation_env \<Rightarrow> 'a dictation_scheme step" where
  "dict_open_first D s = do {
     let provider = chain_current_id s;
     s \<leftarrow> dv_ran D provider s;
     let s = upd_between (\<lambda>b. b\<lparr>bw_input_ended := False\<rparr>) s;
     speech \<leftarrow> dict_speech_settings s provider;
     (ok, s) \<leftarrow> attempts_start (dict_base D) speech default_attempt_options s;
     (if \<not> ok then Some s else do {
        let attempt = at_id s;
        s \<leftarrow> dict_send_held D s;
        (if dt_phase s \<noteq> Starting \<or> attempt \<noteq> at_id s then Some s
         else dv_ready_to_listen D (s\<lparr>dt_microphone_starting := True\<rparr>)) }) }"

definition dict_end :: "'a dictation_scheme dictation_env \<Rightarrow> 'a dictation_scheme step" where
  "dict_end D s =
     (if bw_awaiting_provider (dt_between s) then Some s
      else if bw_has_held (dt_between s) then do {
        s \<leftarrow> dict_resume_attempt D s;
        (if \<not> bw_awaiting_provider (dt_between s) then dict_end_input D s else Some s) }
      else dv_ended D (s\<lparr>dt_phase := IdlePhase\<rparr>))"

definition dict_ended_while_stopping :: "'a dictation_scheme dictation_env \<Rightarrow> 'a dictation_scheme step" where
  "dict_ended_while_stopping D s =
     (if \<not> dt_microphone_stopped s then Some (upd_between (\<lambda>b. b\<lparr>bw_ended_during_stop := True\<rparr>) s)
      else dict_end D s)"

section \<open>The chain's handlers\<close>

definition dict_refiner_to_renew :: "'a dictation_scheme \<Rightarrow> nat option" where
  "dict_refiner_to_renew s = (if dt_phase s = Starting then dt_refiner s else None)"

definition dict_take_ready_provider :: "'a dictation_scheme dictation_env \<Rightarrow> 'a dictation_scheme step" where
  "dict_take_ready_provider D s =
     (if \<not> bw_awaiting_provider (dt_between s) \<or> dt_settings s = None then Some s
      else do {
        s \<leftarrow> dv_sign_in_observed D (chain_current_id s) True s;
        let s = upd_between (\<lambda>b. b\<lparr>bw_awaiting_provider := False\<rparr>) s;
        case dt_phase s of
          Starting \<Rightarrow> if dt_microphone_starting s then dict_resume_attempt D s else dict_open_first D s
        | Listening \<Rightarrow> dict_resume_attempt D s
        | Paused \<Rightarrow>
            if bw_has_held (dt_between s) then do {
              s \<leftarrow> dict_resume_attempt D s;
              (if \<not> bw_awaiting_provider (dt_between s)
               then dict_end_input D (upd_between (\<lambda>b. b\<lparr>bw_finishing_paused := True\<rparr>) s)
               else Some s) }
            else Some s
        | Stopping \<Rightarrow> dict_ended_while_stopping D s
        | IdlePhase \<Rightarrow> Some s })"

definition dict_exhaust :: "'a dictation_scheme dictation_env \<Rightarrow> 'a dictation_scheme step" where
  "dict_exhaust D s = (let s = (upd_between (\<lambda>b. bw_drop_held (b\<lparr>bw_awaiting_provider := False\<rparr>)) s)
       \<lparr>dt_phase := IdlePhase\<rparr>
     in dv_exhausted D (dt_switch_failure s) s)"

definition dict_chain_secrets :: "'a dictation_scheme dictation_env \<Rightarrow> app_settings \<Rightarrow> 'a dictation_scheme step" where
  "dict_chain_secrets D settings s =
     (if bw_awaiting_provider (dt_between s) \<and> dt_settings s \<noteq> None
      then dv_secrets_resolved D settings (s\<lparr>dt_settings := Some settings\<rparr>)
      else Some s)"

definition dict_walk_env :: "'a dictation_scheme dictation_env \<Rightarrow> 'a dictation_scheme attempts_env" where
  "dict_walk_env D = (dict_base D)\<lparr>
     ae_passed_over := dv_passed_over D,
     ae_renewing_sign_in := dv_renewing_sign_in D,
     ae_secrets_resolved := dict_chain_secrets D,
     ae_ready := dict_take_ready_provider D,
     ae_exhausted := dict_exhaust D\<rparr>"

definition dict_chain :: "'a dictation_scheme dictation_env \<Rightarrow> 'a dictation_scheme chain_env" where
  "dict_chain D = attempts_chain (dict_walk_env D)"

section \<open>What ends an attempt\<close>

definition dict_offline :: "'a dictation_scheme dictation_env \<Rightarrow> 'a dictation_scheme \<Rightarrow> bool" where
  "dict_offline D s = (case dt_settings s of None \<Rightarrow> False
     | Some a \<Rightarrow> chain_offline_for (ae_lib (dv_base D)) Speech (chain_current_id s) a s)"

definition dict_note_failure ::
  "'a dictation_scheme dictation_env \<Rightarrow> speech_failure \<Rightarrow> 'a dictation_scheme step" where
  "dict_note_failure D f s =
     (let connecting = (sf_phase f = PhaseConnect \<or> dt_phase s = Starting) in
      dv_passed_over D (chain_current_id s) (if connecting then StageConnect else Interrupted)
        \<lparr>pf_kind = sf_kind f, pf_message = sf_message f, pf_http_status = sf_http_status f\<rparr> s)"

definition dict_retire_attempt :: "'a dictation_scheme dictation_env \<Rightarrow> 'a dictation_scheme step" where
  "dict_retire_attempt D s = do {
     s \<leftarrow> attempts_commit_partial (dict_base D) (upd_between (\<lambda>b. b\<lparr>bw_awaiting_provider := True\<rparr>) s);
     attempts_release (dict_walk_env D) s }"

definition dict_switch_provider ::
  "'a dictation_scheme dictation_env \<Rightarrow> speech_failure \<Rightarrow> 'a dictation_scheme step" where
  "dict_switch_provider D f s = do {
     s \<leftarrow> dict_retire_attempt D (s\<lparr>dt_switch_failure := f\<rparr>);
     settings \<leftarrow> dt_settings s;
     chain_prepare_next (dict_chain D) settings (dict_refiner_to_renew s) s }"

text \<open>
  The second half of handleFailure, reached by any failure the paused attempt's
  part does not settle.
\<close>

definition dict_fail_attempt ::
  "'a dictation_scheme dictation_env \<Rightarrow> speech_failure \<Rightarrow> 'a dictation_scheme step" where
  "dict_fail_attempt D f s =
     (if dt_phase s \<noteq> Starting \<and> dt_phase s \<noteq> Listening \<and> dt_phase s \<noteq> Stopping then Some s
      else let (reconnects, s) =
             (if dt_phase s = Listening \<and> dt_settings s \<noteq> None \<and> \<not> dict_offline D s
              then attempts_take_reconnect (dict_base D) f s else (False, s))
        in if reconnects then do {
             s \<leftarrow> dv_words_may_be_missing D f s;
             dict_resume_attempt D s }
           else do {
             s \<leftarrow> dict_note_failure D f s;
             (if dt_phase s \<noteq> Stopping \<and> chain_fallback_remains (sf_kind f) s
              then dict_switch_provider D f s
              else dv_failed D f (s\<lparr>dt_phase := IdlePhase\<rparr>)) })"

definition dict_handle_failure ::
  "'a dictation_scheme dictation_env \<Rightarrow> speech_failure \<Rightarrow> 'a dictation_scheme step" where
  "dict_handle_failure D f s = do {
     s \<leftarrow> (if sf_kind f = Authentication then dv_sign_in_observed D (chain_current_id s) False s else Some s);
     let dropped = (sf_retryable f \<and> sf_phase f = PhaseStreaming);
     (if bw_finishing_paused (dt_between s) then do {
        s \<leftarrow> dv_words_may_be_missing D f (upd_between (\<lambda>b. b\<lparr>bw_finishing_paused := False\<rparr>) s);
        let needed = (dt_phase s \<noteq> Stopping \<or> bw_has_held (dt_between s));
        let offline = dict_offline D s;
        (if (\<not> dropped \<or> offline) \<and> needed \<and> chain_fallback_remains (sf_kind f) s then do {
           s \<leftarrow> dict_note_failure D f s;
           dict_switch_provider D f s }
         else if dt_phase s = Paused then Some s
         else if dt_phase s = Listening \<and> \<not> offline then dict_resume_attempt D s
         else if dt_phase s = Stopping then do {
           s \<leftarrow> (if \<not> needed then dict_note_failure D f s else Some s);
           dict_ended_while_stopping D s }
         else dict_fail_attempt D f s) }
      else dict_fail_attempt D f s) }"

definition dict_roll_over :: "'a dictation_scheme dictation_env \<Rightarrow> 'a dictation_scheme step" where
  "dict_roll_over D s = (let (rolls, s) = attempts_take_rollover (dict_base D) s in
     if \<not> rolls then dict_handle_failure D (attempts_ended_too_soon s) s
     else dict_resume_attempt D s)"

definition dict_handle_completed :: "'a dictation_scheme dictation_env \<Rightarrow> 'a dictation_scheme step" where
  "dict_handle_completed D s =
     (let paused = bw_finishing_paused (dt_between s);
          s = upd_between (\<lambda>b. b\<lparr>bw_finishing_paused := False\<rparr>) s
      in if dt_phase s = Stopping then dict_ended_while_stopping D s
         else if dt_phase s = Listening
         then (if paused then dict_resume_attempt D s else dict_roll_over D s)
         else Some s)"

text \<open>The environment of the attempts, with every connection of the constructor made.\<close>

definition dict_attempts :: "'a dictation_scheme dictation_env \<Rightarrow> 'a dictation_scheme attempts_env" where
  "dict_attempts D = (dict_walk_env D)\<lparr>ae_completed := dict_handle_completed D, ae_failed := dict_handle_failure D\<rparr>"

section \<open>The session's commands\<close>

definition dict_begin :: "'a dictation_scheme \<Rightarrow> 'a dictation_scheme" where
  "dict_begin s = (attempts_forget s)\<lparr>dt_settings := None,
     dt_between := between_init\<lparr>bw_awaiting_provider := True\<rparr>,
     dt_microphone_starting := False, dt_empty_resumed := 0, dt_retired := 0,
     dt_finish_owed := False, dt_open_owed := False, dt_switch_failure := no_speech_failure,
     dt_phase := Starting\<rparr>"

definition dict_select_providers ::
  "'a dictation_scheme dictation_env \<Rightarrow> speech_settings \<Rightarrow> 'a dictation_scheme \<Rightarrow> (bool \<times> 'a dictation_scheme) option" where
  "dict_select_providers D speech s = do {
     (t, s) \<leftarrow> attempts_acquire (dict_base D) (sp_provider speech) s;
     Some (if t = None then (False, s)
           else (True, chain_begin (sp_provider speech) (sp_fallbacks speech) s)) }"

definition dict_start ::
  "'a dictation_scheme dictation_env \<Rightarrow> app_settings \<Rightarrow> nat option \<Rightarrow> 'a dictation_scheme step" where
  "dict_start D settings refiner s =
     (let s = s\<lparr>dt_settings := Some settings, dt_refiner := refiner\<rparr>
      in chain_prepare (dict_chain D) settings (dict_refiner_to_renew s) s)"

definition dict_listen :: "'a dictation_scheme \<Rightarrow> 'a dictation_scheme" where
  "dict_listen s = (let s = s\<lparr>dt_microphone_starting := False\<rparr> in
     if dt_phase s = Starting then s\<lparr>dt_phase := Listening\<rparr> else s)"

definition k_too_slow :: speech_failure where
  "k_too_slow = \<lparr>sf_attempt = 0, sf_message = ''It took too long to start'', sf_retryable = False,
     sf_phase = PhaseConnect, sf_kind = Timeout, sf_http_status = 0\<rparr>"

definition dict_hold :: "'a dictation_scheme dictation_env \<Rightarrow> pcm \<Rightarrow> 'a dictation_scheme step" where
  "dict_hold D audio s =
     (if bw_held_past_budget (dt_between s) then Some s
      else if \<not> bw_awaiting_provider (dt_between s) then
        (if bw_held_bytes (dt_between s) + int (length audio) \<le> k_max_pending_audio_bytes
         then Some (upd_between (bw_hold audio) s)
         else dv_held_past_budget D (upd_between (\<lambda>b. b\<lparr>bw_held_past_budget := True\<rparr>) s))
      else let s = upd_between (bw_hold audio) s in
        if bw_held_bytes (dt_between s) \<le> k_max_pending_audio_bytes then Some s
        else do {
          let s = (chain_cancel s)\<lparr>dt_switch_failure := k_too_slow\<rparr>;
          s \<leftarrow> dv_passed_over D (chain_current_id s) StagePrepare
                \<lparr>pf_kind = sf_kind k_too_slow, pf_message = sf_message k_too_slow, pf_http_status = 0\<rparr> s;
          dict_exhaust D s })"

definition dict_hear :: "'a dictation_scheme dictation_env \<Rightarrow> pcm \<Rightarrow> 'a dictation_scheme step" where
  "dict_hear D audio s =
     (if bw_holds_audio (dt_between s) then dict_hold D audio s
      else if at_transcriber s \<noteq> None then do {
        (ok, s) \<leftarrow> attempts_send_audio (dict_base D) audio (s\<lparr>dt_empty_resumed := 0\<rparr>);
        Some s }
      else Some s)"

definition dict_pause :: "'a dictation_scheme \<Rightarrow> 'a dictation_scheme" where
  "dict_pause s =
     (if dt_phase s \<noteq> Listening then s
      else let open = \<not> dt_open_owed s;
               s = s\<lparr>dt_phase := Paused, dt_open_owed := False\<rparr>
        in if \<not> open \<or> bw_finishing_paused (dt_between s) \<or> bw_awaiting_provider (dt_between s) then s
           else (upd_between (\<lambda>b. b\<lparr>bw_finishing_paused := True\<rparr>) s)\<lparr>dt_finish_owed := True\<rparr>)"

definition dict_resume :: "'a dictation_scheme \<Rightarrow> 'a dictation_scheme" where
  "dict_resume s =
     (if dt_phase s \<noteq> Paused then s
      else s\<lparr>dt_phase := Listening,
             dt_open_owed := (\<not> bw_finishing_paused (dt_between s) \<and> \<not> bw_awaiting_provider (dt_between s))\<rparr>)"

definition dict_stop :: "'a dictation_scheme \<Rightarrow> 'a dictation_scheme" where
  "dict_stop s =
     (if dt_phase s \<noteq> Listening \<and> dt_phase s \<noteq> Paused then s
      else let s = (if dt_phase s = Paused then s\<lparr>dt_no_attempt_to_finish := True\<rparr>
                    else s\<lparr>dt_no_attempt_to_finish := dt_open_owed s, dt_open_owed := False\<rparr>);
               s = (if dt_phase s = Listening \<and> dt_empty_resumed s = at_id s
                    then upd_between (\<lambda>b. b\<lparr>bw_ended_during_stop := True\<rparr>)
                           (attempts_forget (s\<lparr>dt_retired := dt_empty_resumed s, dt_empty_resumed := 0\<rparr>))
                    else s)
        in s\<lparr>dt_phase := Stopping, dt_microphone_stopped := False\<rparr>)"

definition dict_cancel_retired :: "'a dictation_scheme dictation_env \<Rightarrow> 'a dictation_scheme step" where
  "dict_cancel_retired D s =
     (let retired = dt_retired s; s = s\<lparr>dt_retired := 0\<rparr> in
      if retired = 0 then Some s
      else case at_transcriber s of None \<Rightarrow> Some s
         | Some t \<Rightarrow> ae_cancel_attempt (dv_base D) t retired s)"

definition dict_finish_stop :: "'a dictation_scheme dictation_env \<Rightarrow> 'a dictation_scheme step" where
  "dict_finish_stop D s =
     (if dt_microphone_stopped s then Some s
      else do {
        s \<leftarrow> dict_cancel_retired D (s\<lparr>dt_microphone_stopped := True\<rparr>);
        (if bw_ended_during_stop (dt_between s)
         then dict_end D (upd_between (\<lambda>b. b\<lparr>bw_ended_during_stop := False\<rparr>) s)
         else if bw_finishing_paused (dt_between s) \<or> bw_awaiting_provider (dt_between s) then Some s
         else if dt_no_attempt_to_finish s then dict_end D s
         else if at_transcriber s \<noteq> None then dict_end_input D s
         else Some s) })"

definition dict_proceed :: "'a dictation_scheme dictation_env \<Rightarrow> 'a dictation_scheme step" where
  "dict_proceed D s = do {
     let phase = dt_phase s;
     let owed = dt_finish_owed s;
     let s = s\<lparr>dt_finish_owed := False\<rparr>;
     s \<leftarrow> (if owed \<and> bw_finishing_paused (dt_between s) then dict_end_input D s else Some s);
     (if owed \<and> dt_phase s \<noteq> phase then Some s
      else case dt_phase s of
        Listening \<Rightarrow>
          (let opens = dt_open_owed s; s = s\<lparr>dt_open_owed := False\<rparr> in
           if opens \<and> \<not> bw_finishing_paused (dt_between s) \<and> \<not> bw_awaiting_provider (dt_between s)
           then do {
             let nothing_held = (\<not> bw_has_held (dt_between s));
             s \<leftarrow> dict_resume_attempt D s;
             Some (if nothing_held then s\<lparr>dt_empty_resumed := at_id s\<rparr> else s) }
           else Some s)
      | Stopping \<Rightarrow> dict_finish_stop D s
      | _ \<Rightarrow> Some s) }"

definition dict_cancel :: "'a dictation_scheme dictation_env \<Rightarrow> 'a dictation_scheme step" where
  "dict_cancel D s = do {
     s \<leftarrow> dict_cancel_retired D (chain_cancel s);
     s \<leftarrow> attempts_cancel (dict_base D) s;
     Some (s\<lparr>dt_settings := None, dt_between := between_init, dt_microphone_starting := False,
             dt_empty_resumed := 0, dt_finish_owed := False, dt_open_owed := False, dt_phase := IdlePhase\<rparr>) }"

section \<open>What the speech keeps\<close>

text \<open>
  The interface between the speech and its session. P is kept by every call and
  minds, of the speech's members, only the audio held and its length; S says when
  it survives sending a piece of audio, H when it survives hearing one. P0 is what
  is left of it while more is held than may be.
\<close>

locale dict_handlers = base: attempts_handlers "dict_base D" P S
  for D :: "'a dictation_scheme dictation_env" and P :: "'a dictation_scheme \<Rightarrow> bool"
    and S :: "pcm \<Rightarrow> 'a dictation_scheme \<Rightarrow> bool" +
  fixes H :: "pcm \<Rightarrow> 'a dictation_scheme \<Rightarrow> bool" and P0 :: "'a dictation_scheme \<Rightarrow> bool"
  assumes ready_to_listen: "preserves P (dv_ready_to_listen D)"
    and sign_in_observed: "preserves P (dv_sign_in_observed D i b)"
    and ran: "preserves P (dv_ran D i)"
    and passed_over: "preserves P (dv_passed_over D i st pf)"
    and renewing_sign_in: "preserves P (dv_renewing_sign_in D)"
    and secrets_resolved: "preserves P (dv_secrets_resolved D as)"
    and words_may_be_missing: "preserves P (dv_words_may_be_missing D f)"
    and held_past_budget: "preserves P (dv_held_past_budget D)"
    and ended: "preserves P (dv_ended D)"
    and failed: "preserves P (dv_failed D f)"
    and exhausted: "preserves P (dv_exhausted D f)"
    and dict_frame: "P s \<Longrightarrow> P (s\<lparr>dt_phase := ph\<rparr>)" "P s \<Longrightarrow> P (s\<lparr>dt_settings := aso\<rparr>)"
      "P s \<Longrightarrow> P (s\<lparr>dt_refiner := ro\<rparr>)" "P s \<Longrightarrow> P (s\<lparr>dt_switch_failure := f\<rparr>)"
      "P s \<Longrightarrow> P (s\<lparr>dt_microphone_starting := b\<rparr>)" "P s \<Longrightarrow> P (s\<lparr>dt_microphone_stopped := b\<rparr>)"
      "P s \<Longrightarrow> P (s\<lparr>dt_no_attempt_to_finish := b\<rparr>)" "P s \<Longrightarrow> P (s\<lparr>dt_finish_owed := b\<rparr>)"
      "P s \<Longrightarrow> P (s\<lparr>dt_open_owed := b\<rparr>)" "P s \<Longrightarrow> P (s\<lparr>dt_empty_resumed := n\<rparr>)"
      "P s \<Longrightarrow> P (s\<lparr>dt_retired := n\<rparr>)"
    and between_frame: "P s \<Longrightarrow> bw_held bw = bw_held (dt_between s) \<Longrightarrow>
        bw_held_bytes bw = bw_held_bytes (dt_between s) \<Longrightarrow> P (s\<lparr>dt_between := bw\<rparr>)"
    and between_drop: "P s \<Longrightarrow> bw_held bw = [] \<Longrightarrow> bw_held_bytes bw = 0 \<Longrightarrow> P (s\<lparr>dt_between := bw\<rparr>)"
    and between_take: "P s \<Longrightarrow> bw_held (dt_between s) = a # bw_held bw \<Longrightarrow>
        bw_held_bytes bw = bw_held_bytes (dt_between s) - int (length a) \<Longrightarrow> S a (s\<lparr>dt_between := bw\<rparr>)"
    and hear_drop: "H a s \<Longrightarrow> P s"
    and hear_hold: "H a s \<Longrightarrow> bw_held_bytes (dt_between s) + int (length a) \<le> k_max_pending_audio_bytes \<Longrightarrow>
        P (s\<lparr>dt_between := bw_hold a (dt_between s)\<rparr>)"
    and hear_exceed: "H a s \<Longrightarrow> P0 (s\<lparr>dt_between := bw_hold a (dt_between s)\<rparr>)"
    and hear_send: "H a s \<Longrightarrow> bw_held (dt_between s) = [] \<Longrightarrow> S a (s\<lparr>dt_empty_resumed := n\<rparr>)"
    and exceed_passed_over: "preserves P0 (dv_passed_over D i st pf)"
    and exceed_frame: "P0 s \<Longrightarrow> P0 (s\<lparr>ch_runner := ru\<rparr>)" "P0 s \<Longrightarrow> P0 (s\<lparr>ch_renewing := b\<rparr>)"
      "P0 s \<Longrightarrow> P0 (s\<lparr>dt_switch_failure := f\<rparr>)"
    and exceed_drop: "P0 s \<Longrightarrow> bw_held bw = [] \<Longrightarrow> bw_held_bytes bw = 0 \<Longrightarrow> P (s\<lparr>dt_between := bw\<rparr>)"
begin

lemmas dict_call_rules =
  holds_call[OF ready_to_listen] holds_call[OF sign_in_observed] holds_call[OF ran]
  holds_call[OF passed_over] holds_call[OF renewing_sign_in] holds_call[OF secrets_resolved]
  holds_call[OF words_may_be_missing] holds_call[OF held_past_budget] holds_call[OF ended]
  holds_call[OF failed] holds_call[OF exhausted]

lemma keeps_send_held: "preserves P (dict_send_held D)"
proof -
  have step: "E = D \<longrightarrow> P s \<longrightarrow> P r"
    if IH: "\<And>s' r'. w E s' = Some r' \<Longrightarrow> E = D \<longrightarrow> P s' \<longrightarrow> P r'"
      and body: "(if \<not> bw_awaiting_provider (dt_between s) \<and> \<not> bw_input_ended (dt_between s)
            \<and> bw_has_held (dt_between s)
         then bw_take_oldest (dt_between s) \<bind> (\<lambda>(audio, b).
                attempts_send_audio (dict_base E) audio (s\<lparr>dt_between := b\<rparr>) \<bind> (\<lambda>(ok, s). w E s))
         else Some s) = Some r" for w E s r
  proof (intro impI)
    assume E: "E = D" and P: "P s"
    show "P r"
    proof (cases "\<not> bw_awaiting_provider (dt_between s) \<and> \<not> bw_input_ended (dt_between s)
        \<and> bw_has_held (dt_between s)")
      case True
      then obtain audio b ok s1 where take: "bw_take_oldest (dt_between s) = Some (audio, b)"
        and send: "attempts_send_audio (dict_base D) audio (s\<lparr>dt_between := b\<rparr>) = Some (ok, s1)"
        and rest: "w D s1 = Some r"
        using body E by (auto simp: bind_eq_Some_conv)
      have "S audio (s\<lparr>dt_between := b\<rparr>)"
        using between_take[OF P, of audio b] take by (auto simp: bw_take_oldest_def split: list.splits)
      from base.keeps_send_audio[OF this] send have "P s1" by (simp add: holds_def)
      thus ?thesis using IH rest E by blast
    next
      case False
      thus ?thesis using body P by auto
    qed
  qed
  have "P s \<longrightarrow> P r" if "dict_send_held D s = Some r" for s r
    using dict_send_held.raw_induct[of "\<lambda>E s r. E = D \<longrightarrow> P s \<longrightarrow> P r", OF _ that] step by blast
  thus ?thesis by (auto simp: preserves_def holds_def)
qed

lemma keeps_resume_attempt: "preserves P (dict_resume_attempt D)"
  by (rule preservesI)
    (auto simp: dict_resume_attempt_def dict_speech_settings_def Let_def split_beta
      intro!: dict_call_rules between_frame holds_call2[OF base.keeps_start_attempt] holds_call[OF keeps_send_held]
      split: option.splits)

lemma keeps_end_input: "preserves P (dict_end_input D)"
  by (rule preservesI)
    (auto simp: dict_end_input_def intro!: between_frame holds_call[OF base.keeps_finish_input]
      holds_call[OF keeps_send_held])

lemma keeps_open_first: "preserves P (dict_open_first D)"
  by (rule preservesI)
    (auto simp: dict_open_first_def dict_speech_settings_def Let_def split_beta
      intro!: dict_call_rules between_frame dict_frame holds_call2[OF base.keeps_start_attempt]
        holds_call[OF keeps_send_held] split: option.splits)

lemma keeps_end: "preserves P (dict_end D)"
  by (rule preservesI)
    (auto simp: dict_end_def intro!: dict_call_rules dict_frame holds_call[OF keeps_resume_attempt]
      holds_call[OF keeps_end_input])

lemma keeps_ended_while_stopping: "preserves P (dict_ended_while_stopping D)"
  by (rule preservesI)
    (auto simp: dict_ended_while_stopping_def intro!: between_frame holds_call[OF keeps_end])

lemma keeps_take_ready: "preserves P (dict_take_ready_provider D)"
  by (rule preservesI)
    (auto simp: dict_take_ready_provider_def Let_def intro!: dict_call_rules between_frame
      holds_call[OF keeps_resume_attempt] holds_call[OF keeps_open_first] holds_call[OF keeps_end_input]
      holds_call[OF keeps_ended_while_stopping] split: speech_state.splits)

lemma keeps_exhaust: "preserves P (dict_exhaust D)"
  by (rule preservesI)
    (auto simp: dict_exhaust_def bw_drop_held_def Let_def intro!: dict_call_rules dict_frame between_drop)

lemma keeps_chain_secrets: "preserves P (dict_chain_secrets D as)"
  by (rule preservesI) (auto simp: dict_chain_secrets_def intro!: dict_call_rules dict_frame)

lemma dict_walk_handlers: "attempts_handlers (dict_walk_env D) P S"
  using base.attempts_handlers_axioms
  by (auto simp: dict_walk_env_def attempts_handlers_def passed_over renewing_sign_in keeps_chain_secrets
      keeps_take_ready keeps_exhaust)

end

sublocale dict_handlers \<subseteq> walk: attempts_handlers "dict_walk_env D" P S
  by (rule dict_walk_handlers)

context dict_handlers
begin

lemma keeps_note_failure: "preserves P (dict_note_failure D f)"
  by (rule preservesI) (auto simp: dict_note_failure_def intro!: dict_call_rules)

lemma keeps_retire: "preserves P (dict_retire_attempt D)"
  by (rule preservesI)
    (auto simp: dict_retire_attempt_def intro!: between_frame holds_call[OF base.keeps_commit_partial]
      holds_call[OF walk.keeps_attempts_release])

lemma keeps_switch: "preserves P (dict_switch_provider D f)"
  by (rule preservesI)
    (auto simp: dict_switch_provider_def dict_chain_def intro!: dict_frame holds_call[OF keeps_retire]
      holds_call[OF walk.chain.keeps_prepare_next] holds_any[where 'a = app_settings])

lemma keeps_fail_attempt: "preserves P (dict_fail_attempt D f)"
proof (rule preservesI)
  fix s assume P: "P s"
  have P': "P (snd (attempts_take_reconnect (dict_base D) f s))" by (rule base.keeps_take_reconnect[OF P])
  show "holds P (dict_fail_attempt D f s)"
    using P P' by (auto simp: dict_fail_attempt_def Let_def split_beta
      intro!: dict_call_rules dict_frame holds_call[OF keeps_resume_attempt] holds_call[OF keeps_note_failure]
        holds_call[OF keeps_switch])
qed

lemma keeps_handle_failure: "preserves P (dict_handle_failure D f)"
  by (rule preservesI)
    (auto simp: dict_handle_failure_def Let_def intro!: dict_call_rules between_frame
      holds_call[OF keeps_note_failure] holds_call[OF keeps_switch] holds_call[OF keeps_resume_attempt]
      holds_call[OF keeps_ended_while_stopping] holds_call[OF keeps_fail_attempt])

lemma keeps_roll_over: "preserves P (dict_roll_over D)"
proof (rule preservesI)
  fix s assume "P s"
  from base.keeps_take_rollover[OF this] show "holds P (dict_roll_over D s)"
    by (auto simp: dict_roll_over_def split_beta Let_def intro!: holds_call[OF keeps_handle_failure]
      holds_call[OF keeps_resume_attempt])
qed

lemma keeps_handle_completed: "preserves P (dict_handle_completed D)"
  by (rule preservesI)
    (auto simp: dict_handle_completed_def Let_def intro!: between_frame
      holds_call[OF keeps_ended_while_stopping] holds_call[OF keeps_resume_attempt] holds_call[OF keeps_roll_over])

lemma dict_session: "attempts_session (dict_attempts D) P S"
  using walk.attempts_handlers_axioms
  by (auto simp: dict_attempts_def attempts_session_def attempts_session_axioms_def attempts_handlers_def
      keeps_handle_completed keeps_handle_failure)

lemma keeps_deliver: "preserves P (attempts_deliver (dict_attempts D) t sig)"
  by (rule attempts_session.keeps_deliver[OF dict_session])

lemma keeps_thread_finished: "preserves P (chain_thread_finished (dict_chain D) n w)"
  unfolding dict_chain_def by (rule walk.chain.keeps_thread_finished)

lemma keeps_dict_begin: "P s \<Longrightarrow> P (dict_begin s)"
  by (auto simp: dict_begin_def between_init_def intro!: dict_frame between_drop base.keeps_forget)

lemma keeps_select: "preserves2 P (dict_select_providers D sp)"
  by (rule preserves2I)
    (auto simp: dict_select_providers_def split_beta intro!: holds_call2[OF base.keeps_attempts_acquire]
      base.chain.keeps_begin)

lemma keeps_start: "preserves P (dict_start D as ro)"
  by (rule preservesI)
    (auto simp: dict_start_def dict_chain_def Let_def intro!: dict_frame holds_call[OF walk.chain.keeps_prepare])

lemma keeps_listen: "P s \<Longrightarrow> P (dict_listen s)"
  by (simp add: dict_listen_def Let_def dict_frame)

lemma keeps_hold:
  assumes "H a s"
  shows "holds P (dict_hold D a s)"
proof -
  let ?s1 = "s\<lparr>dt_between := bw_hold a (dt_between s)\<rparr>"
  let ?s2 = "(chain_cancel ?s1)\<lparr>dt_switch_failure := k_too_slow\<rparr>"
  have "P0 ?s2" unfolding chain_cancel_def by (intro exceed_frame hear_exceed assms)
  hence over: "holds P (dv_passed_over D i st pf ?s2 \<bind> dict_exhaust D)" for i st pf
    by (auto simp: dict_exhaust_def bw_drop_held_def Let_def
        intro!: holds_call[OF exceed_passed_over] holds_call[OF exhausted] dict_frame exceed_drop)
  show ?thesis using assms hear_drop[OF assms] over
    by (auto simp: dict_hold_def bw_hold_def Let_def intro!: dict_call_rules between_frame
        hear_hold[unfolded bw_hold_def])
qed

lemma keeps_hear:
  assumes "H a s"
  shows "holds P (dict_hear D a s)"
proof -
  have "bw_held (dt_between s) = [] \<Longrightarrow>
      holds (\<lambda>(b, s'). P s') (attempts_send_audio (dict_base D) a (s\<lparr>dt_empty_resumed := 0\<rparr>))"
    by (intro base.keeps_send_audio hear_send assms)
  thus ?thesis using keeps_hold[OF assms] hear_drop[OF assms]
    by (auto simp: dict_hear_def bw_holds_audio_def bw_has_held_def case_prod_unfold)
qed

lemma keeps_pause: "P s \<Longrightarrow> P (dict_pause s)"
  by (simp add: dict_pause_def Let_def dict_frame between_frame)

lemma keeps_resume: "P s \<Longrightarrow> P (dict_resume s)"
  by (simp add: dict_resume_def dict_frame)

lemma keeps_stop: "P s \<Longrightarrow> P (dict_stop s)"
  by (auto simp: dict_stop_def Let_def intro!: dict_frame between_frame base.keeps_forget)

lemma keeps_cancel_retired: "preserves P (dict_cancel_retired D)"
proof -
  have "preserves P (ae_cancel_attempt (dv_base D) t n)" for t n
    using base.cancel_attempt by (simp add: dict_base_def)
  thus ?thesis by (intro preservesI) (auto simp: dict_cancel_retired_def Let_def intro!: dict_frame
      holds_call split: option.splits)
qed

lemma keeps_finish_stop: "preserves P (dict_finish_stop D)"
  by (rule preservesI)
    (auto simp: dict_finish_stop_def intro!: dict_frame between_frame holds_call[OF keeps_cancel_retired]
      holds_call[OF keeps_end] holds_call[OF keeps_end_input])

lemma keeps_proceed: "preserves P (dict_proceed D)"
  by (rule preservesI)
    (auto simp: dict_proceed_def Let_def intro!: dict_frame holds_call[OF keeps_end_input]
      holds_call[OF keeps_resume_attempt] holds_call[OF keeps_finish_stop] split: speech_state.splits)

lemma keeps_cancel_speech: "preserves P (dict_cancel D)"
  by (rule preservesI)
    (auto simp: dict_cancel_def between_init_def intro!: dict_frame between_drop base.chain.keeps_cancel
      holds_call[OF keeps_cancel_retired] holds_call[OF base.keeps_attempts_cancel])

end

end
