(* ===== verification/Dictation_Runs.thy ===== *)
theory Dictation_Runs
  imports Dictation_Speech
begin

text \<open>
  Runs of a Dictation Session's speech: the session's commands, the signals of
  transcribers and the threads that finish, in any order, with any of them made
  again from inside any call the speech makes.

  Each call of the speech to its surroundings takes the next script of the run and
  carries it out before it returns; the calls made from inside a script take
  theirs in turn, down to the depth given. A script is any list of actions, so a
  transcriber that fails inside startAttempt() and a session that stops in a
  handler are scripts. Two logs record the audio heard and the audio sent.
\<close>

section \<open>Actions and scripts\<close>

datatype speech_action =
    TranscriberSends nat transcriber_signal
  | ThreadEnds nat worker_results
  | ClockTicks nat
  | DoBegin
  | DoSelect speech_settings
  | DoStart app_settings "nat option"
  | DoListen
  | DoHear pcm
  | DoPause
  | DoResume
  | DoStop
  | DoProceed
  | DoCancel
  | DoSetReachability reachability

record speech_run = dictation +
  sr_scripts :: "speech_action list list"
  sr_heard :: "pcm list"
  sr_sent :: "(nat \<times> nat \<times> pcm) list"

text \<open>What the registry offers and the providers answer.\<close>

record speech_world =
  sw_lib :: qt_lib
  sw_labels :: provider_labels
  sw_stable_ms :: nat
  sw_offers :: "qstring \<Rightarrow> nat option"
  sw_requires_refresh :: "nat \<Rightarrow> speech_settings \<Rightarrow> account_settings \<Rightarrow> bool"
  sw_prepare_job :: "nat \<Rightarrow> speech_settings \<Rightarrow> account_settings \<Rightarrow> prep_job option"
  sw_prepare :: "nat \<Rightarrow> speech_settings \<Rightarrow> account_settings \<Rightarrow> provider_failure option"
  sw_refresh_job :: "nat \<Rightarrow> refinement_settings \<Rightarrow> account_settings \<Rightarrow> prep_job option"

definition answers :: "'s step \<Rightarrow> 'v \<Rightarrow> 's \<Rightarrow> ('v \<times> 's) option" where
  "answers r v s = do { s \<leftarrow> r s; Some (v, s) }"

definition run_base :: "speech_world \<Rightarrow> speech_run step \<Rightarrow> speech_run attempts_env" where
  "run_base W r = \<lparr>
     ae_lib = sw_lib W, ae_labels = sw_labels W, ae_stable_ms = sw_stable_ms W,
     ae_fresh = False, ae_accepts_text = None,
     ae_create_provider = (\<lambda>i. answers r (sw_offers W i)),
     ae_shared_provider = (\<lambda>i. answers r (sw_offers W i)),
     ae_delete_later = (\<lambda>t. Some),
     ae_start_attempt = (\<lambda>t n sp op. r),
     ae_send_audio = (\<lambda>t n a s. r (s\<lparr>sr_sent := sr_sent s @ [(t, n, a)]\<rparr>)),
     ae_finish_input = (\<lambda>t n. r),
     ae_cancel_attempt = (\<lambda>t n. r),
     ae_begin_utterance = (\<lambda>t n. r),
     ae_end_utterance = (\<lambda>t n. r),
     ae_streams_final_text = (\<lambda>t sp s. True),
     ae_requires_refresh = (\<lambda>t sp ac s. sw_requires_refresh W t sp ac),
     ae_create_prepare_job = (\<lambda>t sp ac. answers r (sw_prepare_job W t sp ac)),
     ae_prepare = (\<lambda>t sp ac. answers r (sw_prepare W t sp ac)),
     ae_create_refresh_job = (\<lambda>t rs ac. answers r (sw_refresh_job W t rs ac)),
     ae_apply = (\<lambda>n f. r),
     ae_passed_over = (\<lambda>i st f. Some),
     ae_renewing_sign_in = Some,
     ae_secrets_resolved = (\<lambda>as. Some),
     ae_ready = Some,
     ae_exhausted = Some,
     ae_sign_in_renewed = (\<lambda>f. Some),
     ae_changed = (\<lambda>tx. r),
     ae_connected = Some,
     ae_finalized = (\<lambda>tx. Some),
     ae_segments = (\<lambda>sg. Some),
     ae_utterance_failed = (\<lambda>tx. Some),
     ae_completed = Some,
     ae_failed = (\<lambda>f. Some)\<rparr>"

definition run_env :: "speech_world \<Rightarrow> speech_run step \<Rightarrow> speech_run dictation_env" where
  "run_env W r = \<lparr>
     dv_base = run_base W r,
     dv_ready_to_listen = r,
     dv_sign_in_observed = (\<lambda>i b. r),
     dv_ran = (\<lambda>i. r),
     dv_passed_over = (\<lambda>i st f. r),
     dv_renewing_sign_in = r,
     dv_secrets_resolved = (\<lambda>as. r),
     dv_words_may_be_missing = (\<lambda>f. r),
     dv_held_past_budget = r,
     dv_ended = r,
     dv_failed = (\<lambda>f. r),
     dv_exhausted = (\<lambda>f. r)\<rparr>"

section \<open>Runs\<close>

definition speech_act :: "speech_run dictation_env \<Rightarrow> speech_action \<Rightarrow> speech_run step" where
  "speech_act D a s = (case a of
     TranscriberSends t sig \<Rightarrow> attempts_deliver (dict_attempts D) t sig s
   | ThreadEnds i w \<Rightarrow> chain_thread_finished (dict_chain D) i w s
   | ClockTicks d \<Rightarrow> Some (s\<lparr>at_now := at_now s + d\<rparr>)
   | DoBegin \<Rightarrow> Some (dict_begin s)
   | DoSelect sp \<Rightarrow> do { (ok, s) \<leftarrow> dict_select_providers D sp s; Some s }
   | DoStart as r \<Rightarrow> dict_start D as r s
   | DoListen \<Rightarrow> Some (dict_listen s)
   | DoHear audio \<Rightarrow> dict_hear D audio (s\<lparr>sr_heard := sr_heard s @ [audio]\<rparr>)
   | DoPause \<Rightarrow> Some (dict_pause s)
   | DoResume \<Rightarrow> Some (dict_resume s)
   | DoStop \<Rightarrow> Some (dict_stop s)
   | DoProceed \<Rightarrow> dict_proceed D s
   | DoCancel \<Rightarrow> dict_cancel D s
   | DoSetReachability r \<Rightarrow> Some (chain_set_reachability r s))"

fun speech_acts :: "speech_run dictation_env \<Rightarrow> speech_action list \<Rightarrow> speech_run step" where
  "speech_acts D [] s = Some s"
| "speech_acts D (a # as) s = do { s \<leftarrow> speech_act D a s; speech_acts D as s }"

text \<open>What a call of the speech sets off: the next script, its own calls one level deeper.\<close>

primrec speech_react :: "speech_world \<Rightarrow> nat \<Rightarrow> speech_run step" where
  "speech_react W 0 = Some"
| "speech_react W (Suc n) = (\<lambda>s. case sr_scripts s of
     [] \<Rightarrow> Some s
   | script # rest \<Rightarrow> speech_acts (run_env W (speech_react W n)) script (s\<lparr>sr_scripts := rest\<rparr>))"

definition speech_runs_to :: "speech_world \<Rightarrow> nat \<Rightarrow> speech_action list \<Rightarrow> speech_run step" where
  "speech_runs_to W n = speech_acts (run_env W (speech_react W n))"

section \<open>What every run keeps\<close>

locale speech_runs =
  fixes W :: speech_world
    and P :: "speech_run \<Rightarrow> bool" and S :: "pcm \<Rightarrow> speech_run \<Rightarrow> bool"
    and H :: "pcm \<Rightarrow> speech_run \<Rightarrow> bool" and P0 :: "speech_run \<Rightarrow> bool"
  assumes chain_frame: "P s \<Longrightarrow> P (s\<lparr>ch_ids := ids\<rparr>)" "P s \<Longrightarrow> P (s\<lparr>ch_index := n\<rparr>)"
      "P s \<Longrightarrow> P (s\<lparr>ch_settings := as\<rparr>)" "P s \<Longrightarrow> P (s\<lparr>ch_refiner := ro\<rparr>)"
      "P s \<Longrightarrow> P (s\<lparr>ch_refiner_refreshed := b\<rparr>)" "P s \<Longrightarrow> P (s\<lparr>ch_renewing := b\<rparr>)"
      "P s \<Longrightarrow> P (s\<lparr>ch_runner := ru\<rparr>)" "P s \<Longrightarrow> P (s\<lparr>ch_reachability := re\<rparr>)"
    and transcript_frame: "P s \<Longrightarrow> P (s\<lparr>ts_finals := fs\<rparr>)" "P s \<Longrightarrow> P (s\<lparr>ts_partial := tx\<rparr>)"
      "P s \<Longrightarrow> P (s\<lparr>ts_attempt_base := tx\<rparr>)" "P s \<Longrightarrow> P (s\<lparr>ts_attempt_language := tx\<rparr>)"
      "P s \<Longrightarrow> P (s\<lparr>ts_heard_language := tx\<rparr>)"
    and attempts_frame: "P s \<Longrightarrow> P (s\<lparr>at_transcriber := no\<rparr>)" "P s \<Longrightarrow> P (s\<lparr>at_connections := cs\<rparr>)"
      "P s \<Longrightarrow> at_id s \<le> n \<Longrightarrow> P (s\<lparr>at_id := n\<rparr>)" "P s \<Longrightarrow> P (s\<lparr>at_policy := po\<rparr>)"
      "P s \<Longrightarrow> P (s\<lparr>at_provider_attempts := n\<rparr>)" "P s \<Longrightarrow> P (s\<lparr>at_provider_connected := b\<rparr>)"
      "P s \<Longrightarrow> P (s\<lparr>at_attempt_connected := b\<rparr>)" "P s \<Longrightarrow> P (s\<lparr>at_attempt_sent_audio := b\<rparr>)"
      "P s \<Longrightarrow> P (s\<lparr>at_now := n\<rparr>)"
    and dict_frame: "P s \<Longrightarrow> P (s\<lparr>dt_phase := ph\<rparr>)" "P s \<Longrightarrow> P (s\<lparr>dt_settings := aso\<rparr>)"
      "P s \<Longrightarrow> P (s\<lparr>dt_refiner := ro\<rparr>)" "P s \<Longrightarrow> P (s\<lparr>dt_switch_failure := f\<rparr>)"
      "P s \<Longrightarrow> P (s\<lparr>dt_microphone_starting := b\<rparr>)" "P s \<Longrightarrow> P (s\<lparr>dt_microphone_stopped := b\<rparr>)"
      "P s \<Longrightarrow> P (s\<lparr>dt_no_attempt_to_finish := b\<rparr>)" "P s \<Longrightarrow> P (s\<lparr>dt_finish_owed := b\<rparr>)"
      "P s \<Longrightarrow> P (s\<lparr>dt_open_owed := b\<rparr>)" "P s \<Longrightarrow> P (s\<lparr>dt_empty_resumed := n\<rparr>)"
      "P s \<Longrightarrow> P (s\<lparr>dt_retired := n\<rparr>)"
    and between_frame: "P s \<Longrightarrow> bw_held bw = bw_held (dt_between s) \<Longrightarrow>
        bw_held_bytes bw = bw_held_bytes (dt_between s) \<Longrightarrow> P (s\<lparr>dt_between := bw\<rparr>)"
    and between_drop: "P s \<Longrightarrow> bw_held bw = [] \<Longrightarrow> bw_held_bytes bw = 0 \<Longrightarrow> P (s\<lparr>dt_between := bw\<rparr>)"
    and between_take: "P s \<Longrightarrow> bw_held (dt_between s) = a # bw_held bw \<Longrightarrow>
        bw_held_bytes bw = bw_held_bytes (dt_between s) - int (length a) \<Longrightarrow> S a (s\<lparr>dt_between := bw\<rparr>)"
    and hear_drop: "H a s \<Longrightarrow> P s"
    and hear_hold: "H a s \<Longrightarrow> bw_held_bytes (dt_between s) + int (length a) \<le> k_max_pending_audio_bytes \<Longrightarrow>
        P (s\<lparr>dt_between := bw_hold a (dt_between s)\<rparr>)"
    and hear_exceed: "H a s \<Longrightarrow> P0 (s\<lparr>dt_between := bw_hold a (dt_between s)\<rparr>)"
    and hear_send: "H a s \<Longrightarrow> bw_held (dt_between s) = [] \<Longrightarrow> S a (s\<lparr>dt_empty_resumed := n\<rparr>)"
    and exceed_frame: "P0 s \<Longrightarrow> P0 (s\<lparr>ch_runner := ru\<rparr>)" "P0 s \<Longrightarrow> P0 (s\<lparr>ch_renewing := b\<rparr>)"
      "P0 s \<Longrightarrow> P0 (s\<lparr>dt_switch_failure := f\<rparr>)"
    and exceed_drop: "P0 s \<Longrightarrow> bw_held bw = [] \<Longrightarrow> bw_held_bytes bw = 0 \<Longrightarrow> P (s\<lparr>dt_between := bw\<rparr>)"
    and send_frame: "S a s \<Longrightarrow> S a (s\<lparr>at_attempt_sent_audio := b\<rparr>)"
    and logs_send: "S a s \<Longrightarrow> P (s\<lparr>sr_sent := sr_sent s @ [(t, n, a)]\<rparr>)"
    and logs_hear: "P s \<Longrightarrow> H a (s\<lparr>sr_heard := sr_heard s @ [a]\<rparr>)"
    and scripts_frame: "P s \<Longrightarrow> P (s\<lparr>sr_scripts := sc\<rparr>)"
    and exceed_reacts: "P0 = P \<or> (\<forall>n. preserves P0 (speech_react W n))"
begin

lemma keeps_answers: "preserves P r \<Longrightarrow> preserves2 P (answers r v)"
  by (auto simp: preserves_def preserves2_def answers_def)

lemma run_handlers:
  assumes r: "preserves P r" and r0: "preserves P0 r"
  shows "dict_handlers (run_env W r) P S H P0"
proof -
  note ans = keeps_answers[OF r]
  have send: "S a s \<Longrightarrow> holds P (r (s\<lparr>sr_sent := sr_sent s @ [(t, n, a)]\<rparr>))" for a s t n
    using r logs_send by (auto simp: preserves_def)
  show ?thesis
    by unfold_locales
      (simp_all add: run_env_def run_base_def dict_base_def ans r r0 send chain_frame transcript_frame
        attempts_frame dict_frame between_frame between_drop between_take hear_drop hear_hold hear_exceed
        hear_send exceed_frame exceed_drop send_frame)
qed

lemma keeps_act:
  assumes "preserves P r" "preserves P0 r"
  shows "preserves P (speech_act (run_env W r) a)"
proof -
  note h = run_handlers[OF assms]
  note keeps = dict_handlers.keeps_deliver[OF h] dict_handlers.keeps_thread_finished[OF h]
    dict_handlers.keeps_start[OF h] dict_handlers.keeps_proceed[OF h] dict_handlers.keeps_cancel_speech[OF h]
  show ?thesis
  proof (rule preservesI, cases a)
    fix s sp assume "P s" "a = DoSelect sp"
    thus "holds P (speech_act (run_env W r) a s)"
      by (auto simp: speech_act_def split_beta intro!: holds_call2[OF dict_handlers.keeps_select[OF h]])
  next
    fix s audio assume "P s" "a = DoHear audio"
    thus "holds P (speech_act (run_env W r) a s)"
      by (simp add: speech_act_def dict_handlers.keeps_hear[OF h] logs_hear)
  qed (auto simp: speech_act_def attempts_frame chain_frame chain_set_reachability_def
      dict_handlers.keeps_dict_begin[OF h] dict_handlers.keeps_listen[OF h] dict_handlers.keeps_pause[OF h]
      dict_handlers.keeps_resume[OF h] dict_handlers.keeps_stop[OF h] intro!: keeps[THEN preserves_holds])
qed

lemma keeps_acts:
  assumes "preserves P r" "preserves P0 r"
  shows "preserves P (speech_acts (run_env W r) as)"
proof (induction "as")
  case (Cons a "as")
  thus ?case using keeps_act[OF assms, of a] by (auto simp: preserves_def intro: holds_mono)
qed (simp add: preserves_def)

lemma keeps_react: "preserves P (speech_react W n)"
proof (induction n)
  case (Suc n)
  have "preserves P0 (speech_react W n)" using exceed_reacts Suc by auto
  from keeps_acts[OF Suc this] show ?case
    by (auto simp: preserves_def scripts_frame split: list.split)
qed simp

lemma reacts_handlers: "dict_handlers (run_env W (speech_react W n)) P S H P0"
  using exceed_reacts keeps_react by (intro run_handlers) auto

lemma keeps_run: "preserves P (speech_runs_to W n as)"
  unfolding speech_runs_to_def using exceed_reacts keeps_react by (intro keeps_acts) auto

end

section \<open>The audio held, sent and heard\<close>

text \<open>
  What was sent, then what is held, are in the order heard, each piece once; the
  length held is what is held, and, unless a call is under way that found it over,
  within the budget.
\<close>

definition run_audio_ok :: "bool \<Rightarrow> speech_run \<Rightarrow> bool" where
  "run_audio_ok bounded s \<longleftrightarrow>
     subseq (map (\<lambda>(t, n, a). a) (sr_sent s) @ bw_held (dt_between s)) (sr_heard s)
     \<and> bw_held_bytes (dt_between s) = int (sum_list (map length (bw_held (dt_between s))))
     \<and> (bounded \<longrightarrow> bw_held_bytes (dt_between s) \<le> k_max_pending_audio_bytes)"

definition run_audio_sends :: "bool \<Rightarrow> pcm \<Rightarrow> speech_run \<Rightarrow> bool" where
  "run_audio_sends bounded a s \<longleftrightarrow>
     subseq (map (\<lambda>(t, n, a). a) (sr_sent s) @ a # bw_held (dt_between s)) (sr_heard s)
     \<and> bw_held_bytes (dt_between s) = int (sum_list (map length (bw_held (dt_between s))))
     \<and> (bounded \<longrightarrow> bw_held_bytes (dt_between s) \<le> k_max_pending_audio_bytes)"

definition run_audio_heard :: "bool \<Rightarrow> pcm \<Rightarrow> speech_run \<Rightarrow> bool" where
  "run_audio_heard bounded a s \<longleftrightarrow> run_audio_ok bounded s \<and>
     subseq (map (\<lambda>(t, n, a). a) (sr_sent s) @ bw_held (dt_between s) @ [a]) (sr_heard s)"

lemma subseq_append_drop: "subseq (xs @ ys) zs \<Longrightarrow> subseq xs zs"
  by (meson list_emb_append2 prefix_def subseq_order.order_refl subseq_order.order_trans subseq_rev_drop_many)

lemma subseq_snoc: "subseq (xs @ ys) zs \<Longrightarrow> subseq (xs @ ys @ [a]) (zs @ [a])"
  using list_emb_append_mono[of "(=)" "xs @ ys" zs "[a]" "[a]"] by simp

lemma run_audio_speech_runs:
  assumes "run_audio_ok False = run_audio_ok b \<or> (\<forall>n. preserves (run_audio_ok False) (speech_react W n))"
  shows "speech_runs W (run_audio_ok b) (run_audio_sends b) (run_audio_heard b) (run_audio_ok False)"
  by unfold_locales
    (use assms in \<open>auto simp: run_audio_ok_def run_audio_sends_def run_audio_heard_def bw_hold_def
      subseq_snoc k_max_pending_audio_bytes_def dest: subseq_append_drop\<close>)

interpretation order: speech_runs W "run_audio_ok False" "run_audio_sends False" "run_audio_heard False"
    "run_audio_ok False" for W
  by (rule run_audio_speech_runs) simp

interpretation budget: speech_runs W "run_audio_ok True" "run_audio_sends True" "run_audio_heard True"
    "run_audio_ok False" for W
  by (rule run_audio_speech_runs) (simp add: order.keeps_react)

interpretation held: dict_handlers "run_env W (speech_react W n)" "run_audio_ok True" "run_audio_sends True"
    "run_audio_heard True" "run_audio_ok False" for W n
  by (rule budget.reacts_handlers)

text \<open>Attempt ids only grow.\<close>

interpretation ids: speech_runs W "\<lambda>s. k \<le> at_id s" "\<lambda>a s. k \<le> at_id s" "\<lambda>a s. k \<le> at_id s" "\<lambda>s. k \<le> at_id s"
  for W k
  by unfold_locales simp_all

section \<open>An example\<close>

text \<open>A session before it began, with the scripts of a run.\<close>

definition speech_init :: "speech_action list list \<Rightarrow> speech_run" where
  "speech_init scripts = \<lparr>ts_finals = [], ts_partial = [], ts_attempt_base = [], ts_attempt_language = [],
     ts_heard_language = [], ch_ids = [], ch_index = 0,
     ch_options = \<lparr>co_streamed_finals_only = False, co_ready_later = False\<rparr>,
     ch_reachability = ReachUnknown, ch_settings = default_app_settings, ch_refiner = None,
     ch_refiner_refreshed = False, ch_renewing = False, ch_runner = runner_init,
     at_transcriber = None, at_connections = [], at_id = 0, at_policy = policy_init, at_now = 0,
     at_provider_attempts = 0, at_provider_connected = False, at_attempt_connected = False,
     at_attempt_sent_audio = False, dt_phase = IdlePhase, dt_settings = None, dt_refiner = None,
     dt_between = between_init, dt_switch_failure = no_speech_failure, dt_microphone_starting = False,
     dt_microphone_stopped = False, dt_no_attempt_to_finish = False, dt_finish_owed = False,
     dt_open_owed = False, dt_empty_resumed = 0, dt_retired = 0,
     sr_scripts = scripts, sr_heard = [], sr_sent = []\<rparr>"

lemma run_audio_ok_init: "run_audio_ok b (speech_init scripts)"
  by (simp add: run_audio_ok_def speech_init_def between_init_def k_max_pending_audio_bytes_def)

text \<open>A session on Claude Voice, whose transcriber is 1, and the example's texts in ASCII.\<close>

definition example_lib :: qt_lib where
  "example_lib = \<lparr>lib_chars = ascii, lib_urls = \<lparr>url_host = (\<lambda>u. u), url_scheme = (\<lambda>u. ''http''),
     url_port = (\<lambda>u. None), to_int = (\<lambda>u. None)\<rparr>, lib_names = (\<lambda>l. None)\<rparr>"

definition example_world :: speech_world where
  "example_world = \<lparr>sw_lib = example_lib, sw_labels = (\<lambda>r i. i), sw_stable_ms = k_stable_attempt_ms,
     sw_offers = (\<lambda>i. if i = ''claude'' then Some 1 else if i = ''codex'' then Some 2 else None),
     sw_requires_refresh = (\<lambda>t sp ac. False), sw_prepare_job = (\<lambda>t sp ac. None),
     sw_prepare = (\<lambda>t sp ac. None), sw_refresh_job = (\<lambda>t rs ac. None)\<rparr>"

text \<open>
  The person speaks, pauses, resumes and speaks again. The session listens from
  inside readyToListen(), and the transcriber completes the first attempt from
  inside finishInput().
\<close>

definition example_scripts :: "speech_action list list" where
  "example_scripts = [[], [], [], [], [], [], [], [DoListen], [], [], [TranscriberSends 1 (SigCompleted 2)]]"

definition example_run :: "speech_action list" where
  "example_run = [DoBegin, DoSelect default_speech_settings, DoStart default_app_settings None,
     DoHear [1, 2], DoHear [3], DoPause, DoProceed, DoResume, DoProceed, DoHear [4]]"

lemma bind_case: "m \<bind> f = (case m of None \<Rightarrow> None | Some x \<Rightarrow> f x)"
  by (cases m) auto

lemma walk_case: "walk E s = (if ch_index s < length (ch_ids s)
   then (case walk_turn E s of None \<Rightarrow> None
     | Some (e, s) \<Rightarrow> if e = Leaves then Some s else walk E (s\<lparr>ch_index := Suc (ch_index s)\<rparr>))
   else ce_exhausted E s)"
  by (subst walk.simps) (auto simp: bind_case)

lemma dict_send_held_case: "dict_send_held D s =
     (if \<not> bw_awaiting_provider (dt_between s) \<and> \<not> bw_input_ended (dt_between s) \<and> bw_has_held (dt_between s)
      then (case bw_take_oldest (dt_between s) of None \<Rightarrow> None
        | Some (audio, b) \<Rightarrow>
           (case attempts_send_audio (dict_base D) audio (s\<lparr>dt_between := b\<rparr>) of None \<Rightarrow> None
            | Some (ok, s) \<Rightarrow> dict_send_held D s))
      else Some s)"
  by (subst dict_send_held.simps) (auto simp: bind_case split: option.split)

lemmas run_eval = bind_case speech_act_def dict_begin_def speech_init_def attempts_forget_def
  dict_select_providers_def attempts_acquire_def run_env_def run_base_def dict_base_def example_world_def
  answers_def attempts_disconnect_def attempts_connect_def default_speech_settings_def provider_key_def
  provider_info_of_def k_providers_def chain_begin_def chain_cancel_def dict_start_def chain_prepare_def
  walk_case walk_turn_def walk_prepare_def walk_refiner_job_def dict_chain_def attempts_chain_def dict_walk_env_def
  chain_offline_for_def provider_chain_def default_app_settings_def chain_speech_settings_def
  has_unread_provider_secrets_def unread_provider_secrets_def parse_provider_id_def
  runner_cancel_def runner_init_def between_init_def attempts_ready_def
  dict_take_ready_provider_def dict_open_first_def chain_current_id_def attempts_start_def
  dict_speech_settings_def attempts_commit_partial_def ts_start_attempt_def ts_text_def dict_send_held_case
  bw_has_held_def dict_listen_def dict_hear_def bw_holds_audio_def attempts_send_audio_def dict_hold_def bw_hold_def
  dict_pause_def dict_proceed_def dict_end_input_def attempts_finish_input_def dict_resume_def
  dict_refiner_to_renew_def Let_def example_lib_def simplified_def blank_def trimmed_def
  policy_attempt_started_def policy_refill_def policy_init_def dict_resume_attempt_def dict_attempts_def
  attempts_deliver_def attempts_handle_def dict_handle_completed_def bw_take_oldest_def speech_runs_to_def
  k_max_pending_audio_bytes_def


lemma example_run_sends:
  "map_option sr_sent (speech_runs_to example_world 2 example_run (speech_init example_scripts)) =
   Some [(1, 2, [1, 2]), (1, 2, [3]), (1, 3, [4])]"
  by (simp add: run_eval example_run_def example_scripts_def numeral_2_eq_2)

section \<open>Properties\<close>

text \<open>
  C11. Over any run of a session (commands, transcriber signals and finished threads in any order, each call
  setting off any script), every piece of audio heard goes to a transcriber at most once and in the order
  heard, what is held comes after what was sent, the held length is the length of what is held, and at most
  ten seconds are held once the run is over.
\<close>

theorem audio_sent_once_in_order:
  assumes "speech_runs_to W n as (speech_init scripts) = Some s"
  shows "subseq (map (\<lambda>(t, i, a). a) (sr_sent s) @ bw_held (dt_between s)) (sr_heard s)
    \<and> bw_held_bytes (dt_between s) = int (sum_list (map length (bw_held (dt_between s))))
    \<and> bw_held_bytes (dt_between s) \<le> k_max_pending_audio_bytes"
  using holdsD[OF preserves_holds[OF budget.keeps_run run_audio_ok_init] assms] by (simp add: run_audio_ok_def)

lemma audio_sent_once_in_order_witness:
  "\<exists>s. speech_runs_to example_world 2 example_run (speech_init example_scripts) = Some s
     \<and> map (\<lambda>(t, i, a). a) (sr_sent s) = [[1, 2], [3], [4]]
     \<and> subseq (map (\<lambda>(t, i, a). a) (sr_sent s) @ bw_held (dt_between s)) (sr_heard s)"
proof -
  obtain s where s: "speech_runs_to example_world 2 example_run (speech_init example_scripts) = Some s"
    and sent: "sr_sent s = [(1, 2, [1, 2]), (1, 2, [3]), (1, 3, [4])]"
    using example_run_sends by blast
  show ?thesis using audio_sent_once_in_order[OF s] s sent by auto
qed

text \<open>
  C12. Once an attempt's id is no longer the current one, nothing the transcriber sends for it changes
  anything, after any further run of the session.
\<close>

theorem retired_attempt_never_counts:
  assumes "speech_runs_to W n as s = Some s'" "sig_attempt sig < at_id s"
  shows "attempts_deliver (dict_attempts D) t sig s' = Some s'"
proof -
  have "at_id s \<le> at_id s'" using holdsD[OF preserves_holds[OF ids.keeps_run] assms(1)] by blast
  thus ?thesis using assms(2) attempts_handle_stale[of sig s'] by (simp add: attempts_deliver_def)
qed

lemma retired_attempt_never_counts_witness:
  "\<exists>s'. speech_runs_to example_world 0 [DoBegin] (dict_begin (speech_init [])) = Some s'
     \<and> attempts_deliver (dict_attempts (run_env example_world Some)) 1 (SigFinal 0 ''late'') s' = Some s'"
proof -
  obtain s' where s': "speech_runs_to example_world 0 [DoBegin] (dict_begin (speech_init [])) = Some s'"
    by (simp add: speech_runs_to_def speech_act_def)
  have "sig_attempt (SigFinal 0 ''late'') < at_id (dict_begin (speech_init []))"
    by (simp add: dict_begin_def attempts_forget_def speech_init_def)
  from retired_attempt_never_counts[OF s' this] s' show ?thesis by blast
qed

text \<open>The audio sent and held, in order, and what calls on the way may do with it.\<close>

definition audio_in_order :: "speech_run \<Rightarrow> pcm list" where
  "audio_in_order s = map (\<lambda>(t, n, a). a) (sr_sent s) @ bw_held (dt_between s)"

definition can_send :: "speech_run \<Rightarrow> bool" where
  "can_send s \<longleftrightarrow> bw_awaiting_provider (dt_between s) \<or> bw_input_ended (dt_between s) \<or> at_transcriber s \<noteq> None"

definition passes_audio :: "speech_run step \<Rightarrow> bool" where
  "passes_audio r \<longleftrightarrow> (\<forall>s. can_send s \<longrightarrow>
     ends (\<lambda>s'. can_send s' \<and> prefix (sr_sent s) (sr_sent s') \<and> audio_in_order s' = audio_in_order s) (r s))"

text \<open>
  C16. Sending the held audio returns and loses none of it, whatever its calls set off on the way that neither
  hears nor drops audio: what was sent followed by what stays held is what was before, in order, and some stays
  held only while a provider is awaited or the input has ended, as when a provider fails in the middle and the
  next one is still to come.
\<close>

theorem held_audio_all_sent:
  assumes "passes_audio r" "can_send s"
  shows "\<exists>s'. dict_send_held (run_env W r) s = Some s'
    \<and> audio_in_order s' = audio_in_order s \<and> prefix (sr_sent s) (sr_sent s')
    \<and> (bw_held (dt_between s') = [] \<or> bw_awaiting_provider (dt_between s') \<or> bw_input_ended (dt_between s'))"
  using assms(2)
proof (induction "length (bw_held (dt_between s))" arbitrary: s rule: less_induct)
  case less
  show ?case
  proof (cases "\<not> bw_awaiting_provider (dt_between s) \<and> \<not> bw_input_ended (dt_between s) \<and> bw_held (dt_between s) \<noteq> []")
    case False
    thus ?thesis by (subst dict_send_held_case) (auto simp: bw_has_held_def)
  next
    case True
    then obtain a rest t where held: "bw_held (dt_between s) = a # rest" and t: "at_transcriber s = Some t"
      using less.prems by (auto simp: can_send_def neq_Nil_conv)
    let ?s = "s\<lparr>dt_between := (dt_between s)\<lparr>bw_held := rest, bw_held_bytes := bw_held_bytes (dt_between s) - int (length a)\<rparr>,
        at_attempt_sent_audio := True, sr_sent := sr_sent s @ [(t, at_id s, a)]\<rparr>"
    have "can_send ?s" using t by (simp add: can_send_def)
    then obtain s' where s': "r ?s = Some s'" "can_send s'" "prefix (sr_sent ?s) (sr_sent s')"
        "audio_in_order s' = audio_in_order ?s"
      using assms(1) unfolding passes_audio_def ends_def by blast
    obtain more where more: "sr_sent s' = sr_sent ?s @ more" using s'(3) by (auto simp: prefix_def)
    have "map (\<lambda>(t, n, a). a) more @ bw_held (dt_between s') = rest"
      using s'(4) more by (simp add: audio_in_order_def)
    hence "length (bw_held (dt_between s')) < length (bw_held (dt_between s))" using held by auto
    from less.hyps[OF this s'(2)] obtain s'' where s'': "dict_send_held (run_env W r) s' = Some s''"
        "audio_in_order s'' = audio_in_order s'" "prefix (sr_sent s') (sr_sent s'')"
        "bw_held (dt_between s'') = [] \<or> bw_awaiting_provider (dt_between s'') \<or> bw_input_ended (dt_between s'')"
      by blast
    have "dict_send_held (run_env W r) s = dict_send_held (run_env W r) s'"
      using True held t s'(1)
      by (subst dict_send_held_case)
        (simp add: bw_has_held_def bw_take_oldest_def attempts_send_audio_def dict_base_def run_env_def run_base_def
          bind_case)
    moreover have "audio_in_order ?s = audio_in_order s" using held by (simp add: audio_in_order_def)
    moreover have "prefix (sr_sent s) (sr_sent s'')" using s'(3) s''(3) by (auto simp: prefix_def)
    ultimately show ?thesis using s'' s'(4) by auto
  qed
qed

text \<open>A provider that fails on the way after the first piece, while the next is still prepared.\<close>

definition fails_after_one :: "speech_run step" where
  "fails_after_one s = Some (if length (sr_sent s) = 1
     then s\<lparr>dt_between := (dt_between s)\<lparr>bw_awaiting_provider := True\<rparr>\<rparr> else s)"

lemma held_audio_all_sent_witness:
  "\<exists>s'. dict_send_held (run_env example_world fails_after_one)
      ((speech_init [])\<lparr>at_transcriber := Some 1, at_id := 4, dt_between := bw_hold [7] (bw_hold [5, 6] between_init)\<rparr>)
      = Some s' \<and> audio_in_order s' = [[5, 6], [7]]"
proof -
  have "passes_audio fails_after_one"
    by (auto simp: passes_audio_def fails_after_one_def can_send_def audio_in_order_def)
  from held_audio_all_sent[OF this, of "(speech_init [])\<lparr>at_transcriber := Some 1, at_id := 4,
      dt_between := bw_hold [7] (bw_hold [5, 6] between_init)\<rparr>" example_world]
  show ?thesis by (auto simp: speech_init_def between_init_def bw_hold_def can_send_def audio_in_order_def)
qed

section \<open>The walk of a session\<close>

lemma quiet_calls:
  "quiet_call (Some :: 'a chain_scheme step)" "quiet_call2 (answers Some v)"
  by (simp_all add: quiet_call_def quiet_call2_def answers_def)

lemma quiet_answers: "quiet_call r \<Longrightarrow> quiet_call2 (answers r v)"
  by (auto simp: quiet_call_def quiet_call2_def answers_def)

lemma quiet_walk:
  assumes "quiet_call r"
  shows "walk_listeners (dict_chain (run_env W r))"
proof -
  have returns: "\<exists>s'. r s = Some s' \<and> chain_view s' = chain_view s" for s
    using assms by (auto simp: quiet_call_def ends_def)
  show ?thesis
  proof unfold_locales
    show "quiet_call2 (ce_acquire (dict_chain (run_env W r)) i)" for i
      unfolding quiet_call2_def
    proof
      fix s
      obtain s' where s': "r (s\<lparr>at_connections := []\<rparr>) = Some s'" "chain_view s' = chain_view (s\<lparr>at_connections := []\<rparr>)"
        using returns by blast
      show "ends (\<lambda>(v, s'). chain_view s' = chain_view s) (ce_acquire (dict_chain (run_env W r)) i s)"
        using s' by (auto simp: dict_chain_def attempts_chain_def dict_walk_env_def dict_base_def run_env_def
            run_base_def attempts_acquire_def attempts_disconnect_def attempts_connect_def answers_def
            chain_view_def Let_def split: option.splits)
    qed
  qed (simp_all add: dict_chain_def attempts_chain_def dict_walk_env_def dict_base_def run_env_def run_base_def
      assms quiet_answers quiet_calls)
qed

interpretation quiet: walk_listeners "dict_chain (run_env W Some)" for W
  by (rule quiet_walk) (simp add: quiet_calls)

text \<open>
  C14. As long as the listeners it calls on its way return and leave the chain as it was, a walk comes to an
  end, in one of three ways: past the last provider, with exhausted(); or at a provider within reach that is
  the primary one or hears the Spoken Language, with ready() or with one of its own preparations started.
\<close>

theorem walk_comes_to_an_end:
  assumes "quiet_call r"
  shows "\<exists>s1. later_in_walk s s1
    \<and> walk_ends_at (dict_chain (run_env W r)) s1 (walk (dict_chain (run_env W r)) s)"
  by (rule walk_listeners.walk_ends[OF quiet_walk[OF assms]])

lemma walk_comes_to_an_end_witness:
  "\<exists>s1. later_in_walk (speech_init []) s1
    \<and> walk_ends_at (dict_chain (run_env example_world (\<lambda>s. Some (dict_pause s)))) s1
        (walk (dict_chain (run_env example_world (\<lambda>s. Some (dict_pause s)))) (speech_init []))"
proof (rule walk_comes_to_an_end)
  show "quiet_call (\<lambda>s. Some (dict_pause s))"
    by (simp add: quiet_call_def dict_pause_def chain_view_def Let_def)
qed

section \<open>A failure while paused\<close>

text \<open>A provider that fails the attempt it is on from inside every call, until the session counts it as finishing.\<close>

definition failing :: "speech_world \<Rightarrow> speech_run step \<Rightarrow> nat \<Rightarrow> speech_failure \<Rightarrow> speech_run step" where
  "failing W r t f s =
     (if dt_phase s = Paused \<and> \<not> bw_finishing_paused (dt_between s)
      then speech_act (run_env W r) (TranscriberSends t (SigFailed (f\<lparr>sf_attempt := at_id s\<rparr>))) s
      else Some s)"

lemma failing_unnoticed: "sf_kind f \<noteq> Authentication \<Longrightarrow> failing W r t f = Some"
  by (rule ext)
    (auto simp: failing_def speech_act_def attempts_deliver_def attempts_handle_def dict_attempts_def
      dict_handle_failure_def dict_fail_attempt_def Let_def)

lemma run_calls:
  "dv_ran (run_env W r) i = r" "dv_sign_in_observed (run_env W r) i ok = r"
  "ae_finish_input (dict_base (run_env W r)) t n = r"
  by (simp_all add: run_env_def run_base_def dict_base_def)

text \<open>What sending the held audio leaves alone when nothing comes of its calls.\<close>

lemma held_sent_quietly:
  assumes "at_transcriber s = Some t" "\<not> bw_awaiting_provider (dt_between s)" "\<not> bw_input_ended (dt_between s)"
  shows "\<exists>s' b. dict_send_held (run_env W Some) s = Some s'
    \<and> sr_sent s' = sr_sent s @ map (\<lambda>a. (t, at_id s, a)) (bw_held (dt_between s))
    \<and> bw_held (dt_between s') = [] \<and> bw_awaiting_provider (dt_between s') = bw_awaiting_provider (dt_between s)
    \<and> bw_input_ended (dt_between s') = bw_input_ended (dt_between s)
    \<and> bw_finishing_paused (dt_between s') = bw_finishing_paused (dt_between s)
    \<and> dt_phase s' = dt_phase s \<and> ch_ids s' = ch_ids s \<and> ch_index s' = ch_index s \<and> at_id s' = at_id s
    \<and> at_transcriber s' = at_transcriber s"
  using assms
proof (induction "bw_held (dt_between s)" arbitrary: s)
  case Nil
  thus ?case by (simp add: dict_send_held_case bw_has_held_def)
next
  case (Cons a rest)
  let ?b = "(dt_between s)\<lparr>bw_held := rest, bw_held_bytes := bw_held_bytes (dt_between s) - int (length a)\<rparr>"
  let ?s = "s\<lparr>dt_between := ?b, at_attempt_sent_audio := True, sr_sent := sr_sent s @ [(t, at_id s, a)]\<rparr>"
  have held: "bw_held (dt_between s) = a # rest" using Cons.hyps(2) by simp
  have step: "dict_send_held (run_env W Some) s = dict_send_held (run_env W Some) ?s"
    using Cons.prems held
    by (subst dict_send_held_case)
      (simp add: bw_has_held_def bw_take_oldest_def attempts_send_audio_def dict_base_def run_env_def run_base_def
        bind_case)
  show ?case unfolding step using Cons.hyps(1)[of ?s] Cons.prems held by simp
qed

lemma start_quietly:
  assumes "at_transcriber s = Some t"
  shows "\<exists>ok s'. attempts_start (dict_base (run_env W Some)) speech opts s = Some (ok, s') \<and> sr_sent s' = sr_sent s
    \<and> dt_between s' = dt_between s \<and> dt_phase s' = dt_phase s \<and> ch_ids s' = ch_ids s \<and> ch_index s' = ch_index s
    \<and> at_id s' = Suc (at_id s) \<and> at_transcriber s' = Some t"
  using assms
  by (auto simp: attempts_start_def Let_def dict_base_def run_env_def run_base_def attempts_commit_partial_def
      ts_commit_final_def ts_start_attempt_def)

text \<open>
  C24. A provider that gets ready while the session is paused takes the audio held for it; if it fails the attempt
  from inside the session's calls, with anything but a rejected sign-in, the failure is not noticed: all the
  audio counts as sent to the failed attempt, the session finishes it as if it ran, and no other provider of the
  chain takes over.
\<close>

theorem failure_while_paused_is_dropped:
  assumes "dt_phase s = Paused" "\<not> bw_finishing_paused (dt_between s)" "bw_awaiting_provider (dt_between s)"
    "dt_settings s = Some a" "at_transcriber s = Some t" "bw_held (dt_between s) \<noteq> []" "sf_kind f \<noteq> Authentication"
  shows "\<exists>s'. dict_take_ready_provider (run_env W (failing W r t f)) s = Some s'
    \<and> sr_sent s' = sr_sent s @ map (\<lambda>a. (t, Suc (at_id s), a)) (bw_held (dt_between s))
    \<and> bw_held (dt_between s') = [] \<and> dt_phase s' = Paused
    \<and> bw_finishing_paused (dt_between s') \<and> bw_input_ended (dt_between s') \<and> \<not> bw_awaiting_provider (dt_between s')
    \<and> ch_ids s' = ch_ids s \<and> ch_index s' = ch_index s \<and> at_id s' = Suc (at_id s)"
proof -
  let ?D = "run_env W Some"
  let ?s = "s\<lparr>dt_between := (dt_between s)\<lparr>bw_awaiting_provider := False, bw_input_ended := False\<rparr>\<rparr>"
  obtain speech where speech: "dict_speech_settings ?s (chain_current_id ?s) = Some speech"
    using assms(4) by (simp add: dict_speech_settings_def)
  obtain ok s1 where s1: "attempts_start (dict_base ?D) speech default_attempt_options ?s = Some (ok, s1)"
      "sr_sent s1 = sr_sent s" "dt_between s1 = dt_between ?s" "dt_phase s1 = Paused" "ch_ids s1 = ch_ids s"
      "ch_index s1 = ch_index s" "at_id s1 = Suc (at_id s)" "at_transcriber s1 = Some t"
    using start_quietly[of ?s t W speech default_attempt_options] assms(1,5) by auto
  obtain s2 where s2: "dict_send_held ?D s1 = Some s2" "bw_held (dt_between s2) = []" "dt_phase s2 = Paused"
      "sr_sent s2 = sr_sent s @ map (\<lambda>a. (t, Suc (at_id s), a)) (bw_held (dt_between s))"
      "\<not> bw_awaiting_provider (dt_between s2)" "\<not> bw_input_ended (dt_between s2)"
      "ch_ids s2 = ch_ids s" "ch_index s2 = ch_index s" "at_id s2 = Suc (at_id s)" "at_transcriber s2 = Some t"
    using held_sent_quietly[of s1 t W] s1 by auto
  have same: "chain_current_id (s\<lparr>dt_between := b\<rparr>) = chain_current_id s"
      "dict_speech_settings (s\<lparr>dt_between := b\<rparr>) = dict_speech_settings s" for b
    by (auto simp: chain_current_id_def dict_speech_settings_def fun_eq_iff)
  have "dict_resume_attempt ?D (s\<lparr>dt_between := (dt_between s)\<lparr>bw_awaiting_provider := False\<rparr>\<rparr>) = Some s2"
    using speech s1(1) s2(1) same
    by (simp add: dict_resume_attempt_def run_calls Let_def)
  moreover have "dict_send_held ?D (s2\<lparr>dt_between := (dt_between s2)\<lparr>bw_finishing_paused := True\<rparr>\<rparr>)
      = Some (s2\<lparr>dt_between := (dt_between s2)\<lparr>bw_finishing_paused := True\<rparr>\<rparr>)"
    using s2(2) by (simp add: dict_send_held_case bw_has_held_def)
  ultimately show ?thesis
    unfolding failing_unnoticed[OF assms(7)]
    using assms(1-6) s2
    by (simp add: dict_take_ready_provider_def dict_end_input_def attempts_finish_input_def bw_has_held_def
      run_calls Let_def)
qed

lemma failure_while_paused_is_dropped_witness:
  "\<exists>s'. dict_take_ready_provider (run_env example_world (failing example_world Some 1 k_too_slow))
      ((speech_init [])\<lparr>dt_phase := Paused, dt_settings := Some default_app_settings, at_transcriber := Some 1,
        at_connections := [1], ch_ids := [''claude'', ''codex''],
        dt_between := (bw_hold [7] between_init)\<lparr>bw_awaiting_provider := True\<rparr>\<rparr>) = Some s'
    \<and> sr_sent s' = [(1, 1, [7])] \<and> bw_held (dt_between s') = [] \<and> ch_index s' = 0"
  using failure_while_paused_is_dropped[of "(speech_init [])\<lparr>dt_phase := Paused,
        dt_settings := Some default_app_settings, at_transcriber := Some 1, at_connections := [1],
        ch_ids := [''claude'', ''codex''],
        dt_between := (bw_hold [7] between_init)\<lparr>bw_awaiting_provider := True\<rparr>\<rparr>" default_app_settings 1 k_too_slow
        example_world Some]
  by (auto simp: speech_init_def between_init_def bw_hold_def k_too_slow_def)

end
