(* ===== verification/Stream_Runs.thy ===== *)
theory Stream_Runs
  imports Speech_Stream Dictation_Runs
begin

text \<open>
  Runs of a SpeechStream: its owner's commands, the transcribers' signals, the
  threads that finish and the send timer, in any order and from inside any call
  the stream makes, as the runs of Dictation_Runs. The log records where in the
  input each piece sent began. An owner resets the stream only between releases,
  never inside one.
\<close>

section \<open>Actions and scripts\<close>

datatype stream_action =
    StreamTranscriberSends nat transcriber_signal
  | StreamThreadEnds nat worker_results
  | StreamClockTicks nat
  | TimerFires
  | DoReset
  | DoPrepare app_settings
  | DoAppend pcm
  | DoEndInput
  | DoBeginUtterance nat
  | DoEndUtterance
  | DoHold
  | DoDropAttempt
  | DoStreamResume
  | DoHandleFailure speech_failure
  | DoRenewSignIn
  | DoRelease

record stream_run = stream +
  tr_scripts :: "stream_action list list"
  tr_input :: pcm
  tr_released :: bool
  tr_releasing :: nat
  tr_sent :: "(int \<times> pcm) list"

record stream_world =
  tw_world :: speech_world
  tw_options :: attempt_options
  tw_recovers :: "speech_failure \<Rightarrow> bool"
  tw_rolls_over :: bool

definition stream_run_base :: "speech_world \<Rightarrow> stream_run step \<Rightarrow> stream_run attempts_env" where
  "stream_run_base W r = \<lparr>
     ae_lib = sw_lib W, ae_labels = sw_labels W, ae_stable_ms = sw_stable_ms W,
     ae_fresh = True, ae_accepts_text = None,
     ae_create_provider = (\<lambda>i. answers r (sw_offers W i)),
     ae_shared_provider = (\<lambda>i. answers r (sw_offers W i)),
     ae_delete_later = (\<lambda>t. r),
     ae_start_attempt = (\<lambda>t n sp op. r),
     ae_send_audio = (\<lambda>t n a s. r (s\<lparr>tr_sent := tr_sent s @ [(st_sent s - int (length a), a)]\<rparr>)),
     ae_finish_input = (\<lambda>t n. r),
     ae_cancel_attempt = (\<lambda>t n. r),
     ae_begin_utterance = (\<lambda>t n. r),
     ae_end_utterance = (\<lambda>t n. r),
     ae_streams_final_text = (\<lambda>t sp s. True),
     ae_requires_refresh = (\<lambda>t sp ac s. sw_requires_refresh W t sp ac),
     ae_create_prepare_job = (\<lambda>t sp ac. answers r (sw_prepare_job W t sp ac)),
     ae_prepare = (\<lambda>t sp ac. answers r (sw_prepare W t sp ac)),
     ae_create_refresh_job = (\<lambda>t rs ac. answers r (sw_refresh_job W t rs ac)),
     ae_apply = (\<lambda>n f. r),
     ae_passed_over = (\<lambda>i st f. r),
     ae_renewing_sign_in = r,
     ae_secrets_resolved = (\<lambda>as. r),
     ae_ready = r,
     ae_exhausted = r,
     ae_sign_in_renewed = (\<lambda>f. r),
     ae_changed = (\<lambda>tx. r),
     ae_connected = r,
     ae_finalized = (\<lambda>tx. r),
     ae_segments = (\<lambda>sg. r),
     ae_utterance_failed = (\<lambda>tx. r),
     ae_completed = r,
     ae_failed = (\<lambda>f. r)\<rparr>"

definition stream_run_env :: "stream_world \<Rightarrow> stream_run step \<Rightarrow> stream_run stream_env" where
  "stream_run_env W r = \<lparr>
     sv_base = stream_run_base (tw_world W) r,
     sv_options = tw_options W,
     sv_recovery = Some (\<lambda>f. answers r (tw_recovers W f)),
     sv_rollover = (if tw_rolls_over W then Some r else None),
     sv_started_over = r,
     sv_progress = (\<lambda>i. r),
     sv_audio_lost = (\<lambda>i. r),
     sv_finished = r,
     sv_failed = (\<lambda>tx. r)\<rparr>"

section \<open>Runs\<close>

definition stream_run_release :: "stream_run stream_env \<Rightarrow> stream_run step" where
  "stream_run_release V s = do {
     s \<leftarrow> stream_release V (s\<lparr>tr_released := True, tr_releasing := Suc (tr_releasing s)\<rparr>);
     Some (s\<lparr>tr_releasing := tr_releasing s - 1\<rparr>) }"

definition stream_act :: "stream_run stream_env \<Rightarrow> stream_action \<Rightarrow> stream_run step" where
  "stream_act V a s = (case a of
     StreamTranscriberSends t sig \<Rightarrow> attempts_deliver (stream_attempts V) t sig s
   | StreamThreadEnds i w \<Rightarrow> chain_thread_finished (stream_chain V) i w s
   | StreamClockTicks d \<Rightarrow> Some (s\<lparr>at_now := at_now s + d\<rparr>)
   | TimerFires \<Rightarrow> if st_timer s then stream_send_next_chunk V s else Some s
   | DoReset \<Rightarrow> if tr_releasing s = 0
       then stream_reset V (s\<lparr>tr_input := [], tr_sent := [], tr_released := False\<rparr>) else Some s
   | DoPrepare as \<Rightarrow> stream_prepare V as s
   | DoAppend audio \<Rightarrow> stream_append V audio (s\<lparr>tr_input := tr_input s @ audio\<rparr>)
   | DoEndInput \<Rightarrow> Some (stream_end_input s)
   | DoBeginUtterance v \<Rightarrow> stream_begin_utterance V (int v) s
   | DoEndUtterance \<Rightarrow> stream_end_utterance V s
   | DoHold \<Rightarrow> Some (stream_hold s)
   | DoDropAttempt \<Rightarrow> stream_drop_attempt V s
   | DoStreamResume \<Rightarrow> stream_resume V s
   | DoHandleFailure f \<Rightarrow> stream_handle_failure V f s
   | DoRenewSignIn \<Rightarrow> stream_renew_sign_in V s
   | DoRelease \<Rightarrow> stream_run_release V s)"

fun stream_acts :: "stream_run stream_env \<Rightarrow> stream_action list \<Rightarrow> stream_run step" where
  "stream_acts V [] s = Some s"
| "stream_acts V (a # as) s = do { s \<leftarrow> stream_act V a s; stream_acts V as s }"

primrec stream_react :: "stream_world \<Rightarrow> nat \<Rightarrow> stream_run step" where
  "stream_react W 0 = Some"
| "stream_react W (Suc n) = (\<lambda>s. case tr_scripts s of
     [] \<Rightarrow> Some s
   | script # rest \<Rightarrow> stream_acts (stream_run_env W (stream_react W n)) script (s\<lparr>tr_scripts := rest\<rparr>))"

definition stream_runs_to :: "stream_world \<Rightarrow> nat \<Rightarrow> stream_action list \<Rightarrow> stream_run step" where
  "stream_runs_to W n = stream_acts (stream_run_env W (stream_react W n))"

section \<open>The audio kept and sent\<close>

text \<open>
  What is kept is the input from the bytes dropped on, nothing sent lies beyond it,
  the marks are in order and within it, and each piece sent was the input's own
  from where it began. A released stream says nothing of its audio until it is
  reset. The number of releases under way is k.
\<close>

definition stream_log_ok :: "pcm \<Rightarrow> (int \<times> pcm) list \<Rightarrow> bool" where
  "stream_log_ok input sent \<longleftrightarrow> (\<forall>(p, a)\<in>set sent. 0 \<le> p \<and> a = take (length a) (drop (nat p) input))"

definition stream_input_ok :: "stream_run \<Rightarrow> bool" where
  "stream_input_ok s \<longleftrightarrow>
     st_total s = int (length (tr_input s)) \<and> st_pcm s = drop (nat (st_dropped s)) (tr_input s)
     \<and> st_sent s \<le> st_total s
     \<and> sorted (map um_position (st_marks s)) \<and> (\<forall>m\<in>set (st_marks s). um_position m \<le> st_total s)
     \<and> stream_log_ok (tr_input s) (tr_sent s)"

definition stream_bounds_ok :: "stream_run \<Rightarrow> bool" where
  "stream_bounds_ok s \<longleftrightarrow> 0 \<le> st_most_kept s
     \<and> (st_most_kept s = 0 \<or> int (length (st_pcm s)) \<le> st_most_kept s)
     \<and> 0 \<le> st_dropped s \<and> st_dropped s \<le> st_sent s
     \<and> 0 \<le> st_attempt_start s \<and> st_attempt_start s \<le> st_sent s"

definition stream_run_ok :: "nat \<Rightarrow> stream_run \<Rightarrow> bool" where
  "stream_run_ok k s \<longleftrightarrow> tr_releasing s = k \<and> (k = 0 \<or> tr_released s) \<and> stream_bounds_ok s
     \<and> (tr_released s \<or> stream_input_ok s)"

definition stream_run_sends :: "nat \<Rightarrow> pcm \<Rightarrow> stream_run \<Rightarrow> bool" where
  "stream_run_sends k a s \<longleftrightarrow> stream_run_ok k s \<and>
     (tr_released s \<or> (0 \<le> st_sent s - int (length a) \<and>
        a = take (length a) (drop (nat (st_sent s - int (length a))) (tr_input s))))"

definition stream_run_appends :: "nat \<Rightarrow> pcm \<Rightarrow> stream_run \<Rightarrow> bool" where
  "stream_run_appends k a s \<longleftrightarrow> (\<exists>s0. stream_run_ok k s0 \<and> s = s0\<lparr>tr_input := tr_input s0 @ a\<rparr>)"

definition stream_run_resets :: "nat \<Rightarrow> stream_run \<Rightarrow> bool" where
  "stream_run_resets k s \<longleftrightarrow> tr_releasing s = k \<and> k = 0 \<and> 0 \<le> st_most_kept s
     \<and> tr_input s = [] \<and> tr_sent s = []"

lemma stream_forget_total:
  "st_dropped s \<le> p \<Longrightarrow> p \<le> st_total s \<Longrightarrow> st_total (stream_forget_before p s) = st_total s"
  by (simp add: st_total_def stream_forget_before_def Let_def)

lemma marks_before_drop_set: "set (drop (marks_before ms p) ms) \<subseteq> set ms"
  by (rule set_drop_subset)

lemma take_self_append:
  assumes "a = take (length a) (drop n xs)"
  shows "a = take (length a) (drop n (xs @ ys))"
proof -
  have "length a \<le> length (drop n xs)" by (metis assms length_take min.cobounded1)
  hence "take (length a) (drop n (xs @ ys)) = take (length a) (drop n xs)" by simp
  thus ?thesis using assms by metis
qed

lemma sorted_le_last: "sorted (map f xs) \<Longrightarrow> m \<in> set xs \<Longrightarrow> f m \<le> f (last xs)"
  by (induction xs) (auto split: if_splits)

lemma stream_log_append: "stream_log_ok input sent \<Longrightarrow> stream_log_ok (input @ a) sent"
  unfolding stream_log_ok_def using take_self_append by fast

lemma sorted_map_drop: "sorted (map f xs) \<Longrightarrow> sorted (map f (drop n xs))"
  by (simp add: drop_map[symmetric] sorted_wrt_drop)

lemmas stream_run_defs = stream_run_ok_def stream_bounds_ok_def stream_input_ok_def st_total_def

lemma run_ok_restart:
  "stream_run_ok k s \<Longrightarrow> stream_run_ok k (s\<lparr>st_sent := st_dropped s, st_next_mark := n, st_input_finished := b,
     st_attempt_start := st_dropped s\<rparr>)"
  by (auto simp: stream_run_defs)

lemma run_ok_rewind:
  "stream_run_ok k s \<Longrightarrow>
   stream_run_ok k (s\<lparr>st_sent := max (st_attempt_start s) (st_dropped s), st_next_mark := n\<rparr>)"
  by (auto simp: stream_run_defs)

lemma input_ok_forget:
  assumes ok: "stream_input_ok s" and p: "0 \<le> st_dropped s" "st_dropped s \<le> p" "p \<le> st_total s"
  shows "stream_input_ok (stream_forget_before p s)"
proof -
  have total: "st_total (stream_forget_before p s) = st_total s"
    using stream_forget_total p by blast
  have "drop (nat (p - st_dropped s)) (drop (nat (st_dropped s)) (tr_input s)) = drop (nat p) (tr_input s)"
    using p by (simp add: nat_diff_distrib)
  thus ?thesis using ok p total
    by (auto simp: stream_input_ok_def stream_forget_before_def Let_def sorted_map_drop dest: in_set_dropD)
qed

lemma forget_before_sel [simp]:
  "tr_releasing (stream_forget_before p s) = tr_releasing s"
  "tr_released (stream_forget_before p s) = tr_released s"
  "st_most_kept (stream_forget_before p s) = st_most_kept s"
  "st_dropped (stream_forget_before p s) = p"
  "st_sent (stream_forget_before p s) = max (st_sent s) p"
  "st_attempt_start (stream_forget_before p s) = st_attempt_start s"
  "st_pcm (stream_forget_before p s) = drop (nat (p - st_dropped s)) (st_pcm s)"
  by (simp_all add: stream_forget_before_def Let_def)

lemma run_ok_forget_sent: "stream_run_ok k s \<Longrightarrow> stream_run_ok k (stream_forget_before (st_sent s) s)"
  using input_ok_forget[of s "st_sent s"] by (auto simp: stream_run_ok_def stream_bounds_ok_def stream_input_ok_def)

lemma input_ok_append:
  "stream_input_ok s \<Longrightarrow> stream_input_ok (s\<lparr>tr_input := tr_input s @ a, st_pcm := st_pcm s @ a\<rparr>)"
  if "0 \<le> st_dropped s" "st_dropped s \<le> st_sent s"
  using that by (auto simp: stream_input_ok_def st_total_def intro: stream_log_append)

lemma run_ok_append:
  assumes "stream_run_appends k a s"
    and "st_most_kept s = 0 \<or> int (length (st_pcm s) + length a) \<le> st_most_kept s"
  shows "stream_run_ok k (s\<lparr>st_pcm := st_pcm s @ a\<rparr>)"
proof -
  obtain s0 where ok: "stream_run_ok k s0" and s: "s = s0\<lparr>tr_input := tr_input s0 @ a\<rparr>"
    using assms(1) by (auto simp: stream_run_appends_def)
  have "tr_released s0 \<or> stream_input_ok (s0\<lparr>tr_input := tr_input s0 @ a, st_pcm := st_pcm s0 @ a\<rparr>)"
    using ok input_ok_append[of s0 a] by (auto simp: stream_run_ok_def stream_bounds_ok_def)
  thus ?thesis using ok assms(2) by (simp add: s stream_run_ok_def stream_bounds_ok_def)
qed

lemma run_ok_append_beyond:
  assumes "stream_run_appends k a s" "st_most_kept s \<noteq> 0"
    and "st_most_kept s < int (length (st_pcm s) + length a)"
  shows "stream_run_ok k (stream_forget_before
     (st_dropped s + (int (length (st_pcm s) + length a) - st_most_kept s)) (s\<lparr>st_pcm := st_pcm s @ a\<rparr>))"
proof -
  obtain s0 where ok: "stream_run_ok k s0" and s: "s = s0\<lparr>tr_input := tr_input s0 @ a\<rparr>"
    using assms(1) by (auto simp: stream_run_appends_def)
  let ?s = "s\<lparr>st_pcm := st_pcm s @ a\<rparr>"
  let ?p = "st_dropped s + (int (length (st_pcm s) + length a) - st_most_kept s)"
  have b: "stream_bounds_ok s0" and r: "tr_releasing s = k" "k = 0 \<or> tr_released s"
    using ok s by (auto simp: stream_run_ok_def)
  have "tr_released s \<or> stream_input_ok ?s"
    using ok b input_ok_append[of s0 a] by (auto simp: s stream_run_ok_def stream_bounds_ok_def)
  moreover have "st_dropped ?s \<le> ?p" "?p \<le> st_total ?s" "0 \<le> st_dropped ?s"
    using assms(3) b by (auto simp: s st_total_def stream_bounds_ok_def)
  ultimately have "tr_released s \<or> stream_input_ok (stream_forget_before ?p ?s)"
    using input_ok_forget[of ?s ?p] by blast
  moreover have "stream_bounds_ok (stream_forget_before ?p ?s)"
    using b assms(2,3) by (auto simp: s stream_bounds_ok_def)
  ultimately show ?thesis using r by (simp add: stream_run_ok_def)
qed

lemma take_eq_conv_min: "take n xs = take (min (length xs) n) xs"
  by (cases "n \<le> length xs") simp_all

lemma length_byte_mid: "length (byte_mid p n xs) \<le> length xs - nat p"
  by (simp add: byte_mid_def)

lemma byte_mid_take: "byte_mid p n xs = take (length (byte_mid p n xs)) (drop (nat p) xs)"
  using take_eq_conv_min[of "nat n" "drop (nat p) xs"] by (simp add: byte_mid_def)

lemma run_ok_send:
  assumes ok: "stream_run_ok k s" and lt: "st_sent s < st_total s"
  shows "stream_run_sends k (stream_chunk s) (s\<lparr>st_sent := st_sent s + int (length (stream_chunk s))\<rparr>)"
proof -
  obtain n where chunk: "stream_chunk s = byte_mid (st_sent s - st_dropped s) n (st_pcm s)"
    by (simp add: stream_chunk_def Let_def)
  have b: "stream_bounds_ok s" using ok by (simp add: stream_run_ok_def)
  have "length (stream_chunk s) \<le> length (st_pcm s) - nat (st_sent s - st_dropped s)"
    unfolding chunk by (rule length_byte_mid)
  hence len: "st_sent s + int (length (stream_chunk s)) \<le> st_total s"
    using lt b by (simp add: st_total_def stream_bounds_ok_def)
  have "stream_input_ok s \<Longrightarrow> stream_chunk s = take (length (stream_chunk s)) (drop (nat (st_sent s)) (tr_input s))"
    unfolding chunk by (subst byte_mid_take)
      (use b in \<open>auto simp: stream_input_ok_def stream_bounds_ok_def nat_diff_distrib[symmetric] nat_add_distrib[symmetric]\<close>)
  thus ?thesis using ok len b
    by (auto simp: stream_run_sends_def stream_run_ok_def stream_bounds_ok_def stream_input_ok_def st_total_def)
qed

section \<open>Every run keeps it\<close>

lemma run_ok_frame:
  "stream_run_ok k (s\<lparr>st_settings := as\<rparr>) = stream_run_ok k s"
  "stream_run_ok k (s\<lparr>st_timer := b\<rparr>) = stream_run_ok k s"
  "stream_run_ok k (s\<lparr>st_next_mark := n\<rparr>) = stream_run_ok k s"
  "stream_run_ok k (s\<lparr>st_input_ended := b\<rparr>) = stream_run_ok k s"
  "stream_run_ok k (s\<lparr>st_input_finished := b\<rparr>) = stream_run_ok k s"
  "stream_run_ok k (s\<lparr>st_streaming := b\<rparr>) = stream_run_ok k s"
  "stream_run_ok k (s\<lparr>st_issues := is\<rparr>) = stream_run_ok k s"
  "stream_run_ok k (s\<lparr>st_generation := n\<rparr>) = stream_run_ok k s"
  "stream_run_ok k (s\<lparr>tr_scripts := sc\<rparr>) = stream_run_ok k s"
  by (simp_all add: stream_run_defs)

lemma run_ok_lower_frame:
  "stream_run_ok k (s\<lparr>ch_ids := ids\<rparr>) = stream_run_ok k s"
  "stream_run_ok k (s\<lparr>ch_index := n\<rparr>) = stream_run_ok k s"
  "stream_run_ok k (s\<lparr>ch_settings := as\<rparr>) = stream_run_ok k s"
  "stream_run_ok k (s\<lparr>ch_refiner := no\<rparr>) = stream_run_ok k s"
  "stream_run_ok k (s\<lparr>ch_refiner_refreshed := b\<rparr>) = stream_run_ok k s"
  "stream_run_ok k (s\<lparr>ch_renewing := b\<rparr>) = stream_run_ok k s"
  "stream_run_ok k (s\<lparr>ch_runner := ru\<rparr>) = stream_run_ok k s"
  "stream_run_ok k (s\<lparr>ts_finals := fs\<rparr>) = stream_run_ok k s"
  "stream_run_ok k (s\<lparr>ts_partial := tx\<rparr>) = stream_run_ok k s"
  "stream_run_ok k (s\<lparr>ts_attempt_base := tx\<rparr>) = stream_run_ok k s"
  "stream_run_ok k (s\<lparr>ts_attempt_language := tx\<rparr>) = stream_run_ok k s"
  "stream_run_ok k (s\<lparr>ts_heard_language := tx\<rparr>) = stream_run_ok k s"
  "stream_run_ok k (s\<lparr>at_transcriber := no\<rparr>) = stream_run_ok k s"
  "stream_run_ok k (s\<lparr>at_connections := cs\<rparr>) = stream_run_ok k s"
  "stream_run_ok k (s\<lparr>at_id := n\<rparr>) = stream_run_ok k s"
  "stream_run_ok k (s\<lparr>at_policy := po\<rparr>) = stream_run_ok k s"
  "stream_run_ok k (s\<lparr>at_now := n\<rparr>) = stream_run_ok k s"
  "stream_run_ok k (s\<lparr>at_provider_attempts := n\<rparr>) = stream_run_ok k s"
  "stream_run_ok k (s\<lparr>at_provider_connected := b\<rparr>) = stream_run_ok k s"
  "stream_run_ok k (s\<lparr>at_attempt_connected := b\<rparr>) = stream_run_ok k s"
  "stream_run_ok k (s\<lparr>at_attempt_sent_audio := b\<rparr>) = stream_run_ok k s"
  by (simp_all add: stream_run_defs)

lemma run_ok_begin_mark:
  "stream_run_ok k s \<Longrightarrow> st_marks s = [] \<Longrightarrow> 0 \<le> v \<Longrightarrow>
   stream_run_ok k (s\<lparr>st_marks := [\<lparr>um_position = st_total s - v, um_begins = True\<rparr>]\<rparr>)"
  "stream_run_ok k s \<Longrightarrow> st_marks s \<noteq> [] \<Longrightarrow> 0 \<le> v \<Longrightarrow> stream_run_ok k (s\<lparr>st_marks := st_marks s @
     [\<lparr>um_position = max (st_total s - v) (um_position (last (st_marks s))), um_begins = True\<rparr>]\<rparr>)"
proof -
  show "stream_run_ok k s \<Longrightarrow> st_marks s = [] \<Longrightarrow> 0 \<le> v \<Longrightarrow>
      stream_run_ok k (s\<lparr>st_marks := [\<lparr>um_position = st_total s - v, um_begins = True\<rparr>]\<rparr>)"
    by (auto simp: stream_run_defs)
next
  assume ok: "stream_run_ok k s" and ne: "st_marks s \<noteq> []" and v: "0 \<le> v"
  let ?p = "max (st_total s - v) (um_position (last (st_marks s)))"
  have "stream_input_ok (s\<lparr>st_marks := st_marks s @ [\<lparr>um_position = ?p, um_begins = True\<rparr>]\<rparr>)"
    if i: "stream_input_ok s"
  proof -
    have srt: "sorted (map um_position (st_marks s))" using i by (simp add: stream_input_ok_def)
    have "um_position m \<le> um_position (last (st_marks s))" if "m \<in> set (st_marks s)" for m
      using sorted_le_last[OF srt that] .
    thus ?thesis using i v ne by (auto simp: stream_input_ok_def st_total_def sorted_append max.coboundedI2)
  qed
  thus "stream_run_ok k (s\<lparr>st_marks := st_marks s @ [\<lparr>um_position = ?p, um_begins = True\<rparr>]\<rparr>)"
    using ok by (auto simp: stream_run_ok_def stream_bounds_ok_def)
qed

lemma run_ok_end_mark:
  "stream_run_ok k s \<Longrightarrow>
   stream_run_ok k (s\<lparr>st_marks := st_marks s @ [\<lparr>um_position = st_total s, um_begins = False\<rparr>]\<rparr>)"
  by (auto simp: stream_run_defs sorted_append)

lemma run_ok_emptied:
  "stream_run_resets k s \<Longrightarrow> stream_run_ok k (s\<lparr>st_pcm := [], st_dropped := 0, st_sent := 0,
     st_attempt_start := 0, st_marks := [], st_next_mark := 0, st_input_ended := False,
     st_input_finished := False, st_issues := []\<rparr>)"
  by (auto simp: stream_run_resets_def stream_run_defs stream_log_ok_def)

lemma run_ok_logs_send:
  "stream_run_sends k a s \<Longrightarrow> stream_run_ok k (s\<lparr>tr_sent := tr_sent s @ [(st_sent s - int (length a), a)]\<rparr>)"
  by (auto simp: stream_run_sends_def stream_run_defs stream_log_ok_def)

lemma run_sends_frame: "stream_run_sends k a s \<Longrightarrow> stream_run_sends k a (s\<lparr>at_attempt_sent_audio := b\<rparr>)"
  by (simp add: stream_run_sends_def run_ok_lower_frame)

lemma run_ok_attempt_start: "stream_run_ok k s \<Longrightarrow> stream_run_ok k (s\<lparr>st_attempt_start := st_sent s\<rparr>)"
  by (auto simp: stream_run_defs)

lemma answers_ok: "preserves P r \<Longrightarrow> preserves2 P (answers r v)"
  by (auto simp: preserves_def preserves2_def answers_def)

lemma stream_run_handlers:
  assumes r: "preserves (stream_run_ok k) r"
  shows "stream_handlers (stream_run_env W r) (stream_run_ok k) (stream_run_sends k)
    (stream_run_appends k) (stream_run_resets k)"
proof -
  note ans = answers_ok[OF r]
  have send: "stream_run_sends k a s \<Longrightarrow>
      holds (stream_run_ok k) (r (s\<lparr>tr_sent := tr_sent s @ [(st_sent s - int (length a), a)]\<rparr>))" for a s
    using r run_ok_logs_send by (auto simp: preserves_def)
  show ?thesis
    by unfold_locales
      (auto simp add: stream_run_env_def stream_run_base_def stream_base_def ans r send run_ok_frame
        run_ok_lower_frame run_sends_frame run_ok_attempt_start run_ok_append
        run_ok_append_beyond[simplified] run_ok_forget_sent run_ok_begin_mark run_ok_end_mark run_ok_send
        run_ok_restart[simplified run_ok_frame] run_ok_rewind[simplified run_ok_frame]
        run_ok_emptied[simplified run_ok_frame] split: if_splits)
qed

lemma run_release_ok:
  assumes r: "\<And>k. preserves (stream_run_ok k) r"
  shows "preserves (stream_run_ok k) (stream_run_release (stream_run_env W r))"
proof (rule preservesI)
  fix s assume ok: "stream_run_ok k s"
  let ?V = "stream_run_env W r"
  let ?s = "s\<lparr>tr_released := True, tr_releasing := Suc (tr_releasing s)\<rparr>"
  have k1: "stream_run_ok (Suc k) (chain_cancel (stream_hold (?s\<lparr>st_generation := Suc (st_generation ?s)\<rparr>)))"
    using ok by (auto simp: chain_cancel_def stream_hold_def stream_run_defs)
  have "preserves (stream_run_ok (Suc k)) (attempts_release (stream_walk_env ?V))"
    by (rule attempts_handlers.keeps_attempts_release[OF
          stream_handlers.stream_walk_handlers[OF stream_run_handlers[OF r]]])
  from preserves_holds[OF this k1]
  have "holds (\<lambda>s'. stream_run_ok (Suc k) (s'\<lparr>st_pcm := [], st_dropped := 0\<rparr>))
      (attempts_release (stream_walk_env ?V)
        (chain_cancel (stream_hold (?s\<lparr>st_generation := Suc (st_generation ?s)\<rparr>))))"
    by (rule holds_mono) (auto simp: stream_run_defs)
  hence "holds (\<lambda>s'. stream_run_ok k (s'\<lparr>st_pcm := [], st_dropped := 0, tr_releasing := tr_releasing s' - 1\<rparr>))
      (attempts_release (stream_walk_env ?V)
        (chain_cancel (stream_hold (?s\<lparr>st_generation := Suc (st_generation ?s)\<rparr>))))"
    by (rule holds_mono) (auto simp: stream_run_defs)
  thus "holds (stream_run_ok k) (stream_run_release ?V s)"
    by (simp add: stream_run_release_def stream_release_def Let_def)
qed

lemma stream_act_ok:
  assumes r: "\<And>k. preserves (stream_run_ok k) r"
  shows "preserves (stream_run_ok k) (stream_act (stream_run_env W r) a)"
proof -
  note h = stream_run_handlers[OF r, of W k]
  note keeps = stream_handlers.keeps_deliver[OF h] stream_handlers.keeps_thread_finished[OF h]
    stream_handlers.keeps_send_next_chunk[OF h] stream_handlers.keeps_stream_prepare[OF h]
    stream_handlers.keeps_stream_begin_utterance[OF h] stream_handlers.keeps_stream_end_utterance[OF h]
    stream_handlers.keeps_drop_attempt[OF h] stream_handlers.keeps_stream_resume[OF h]
    stream_handlers.keeps_handle_failure[OF h] stream_handlers.keeps_renew[OF h] run_release_ok[OF r]
  show ?thesis
  proof (rule preservesI, cases a)
    fix s assume "stream_run_ok k s" "a = DoReset"
    thus "holds (stream_run_ok k) (stream_act (stream_run_env W r) a s)"
      using stream_handlers.keeps_reset[OF h, of "s\<lparr>tr_input := [], tr_sent := [], tr_released := False\<rparr>"]
      by (auto simp: stream_act_def stream_run_resets_def stream_run_ok_def stream_bounds_ok_def)
  next
    fix s audio assume ok: "stream_run_ok k s" "a = DoAppend audio"
    hence "stream_run_appends k audio (s\<lparr>tr_input := tr_input s @ audio\<rparr>)"
      by (auto simp: stream_run_appends_def)
    thus "holds (stream_run_ok k) (stream_act (stream_run_env W r) a s)"
      using ok by (simp add: stream_act_def stream_handlers.keeps_stream_append[OF h])
  qed (auto simp: stream_act_def run_ok_lower_frame stream_handlers.keeps_end_input[OF h]
      stream_handlers.keeps_hold[OF h] intro!: keeps[THEN preserves_holds])
qed

lemma stream_acts_ok:
  "(\<And>k. preserves (stream_run_ok k) r) \<Longrightarrow> preserves (stream_run_ok k) (stream_acts (stream_run_env W r) as)"
proof (induction "as")
  case (Cons a "as")
  thus ?case using stream_act_ok[of r k W a] by (auto simp: preserves_def intro: holds_mono)
qed (simp add: preserves_def)

lemma stream_react_ok: "preserves (stream_run_ok k) (stream_react W n)"
proof (induction n arbitrary: k)
  case (Suc n)
  from stream_acts_ok[OF this] show ?case
    by (auto simp: preserves_def run_ok_frame split: list.split)
qed simp

interpretation audio: stream_handlers "stream_run_env W (stream_react W n)" "stream_run_ok k"
    "stream_run_sends k" "stream_run_appends k" "stream_run_resets k" for W n k
  by (rule stream_run_handlers[OF stream_react_ok])

lemma stream_run_keeps: "preserves (stream_run_ok k) (stream_runs_to W n as)"
  unfolding stream_runs_to_def by (rule stream_acts_ok[OF stream_react_ok])

section \<open>An example\<close>

definition stream_init :: "int \<Rightarrow> stream_action list list \<Rightarrow> stream_run" where
  "stream_init most_kept scripts = \<lparr>ts_finals = [], ts_partial = [], ts_attempt_base = [], ts_attempt_language = [],
     ts_heard_language = [], ch_ids = [], ch_index = 0,
     ch_options = \<lparr>co_streamed_finals_only = False, co_ready_later = False\<rparr>,
     ch_reachability = ReachUnknown, ch_settings = default_app_settings, ch_refiner = None,
     ch_refiner_refreshed = False, ch_renewing = False, ch_runner = runner_init,
     at_transcriber = None, at_connections = [], at_id = 0, at_policy = policy_init, at_now = 0,
     at_provider_attempts = 0, at_provider_connected = False, at_attempt_connected = False,
     at_attempt_sent_audio = False, st_settings = default_app_settings, st_timer = False,
     st_most_kept = most_kept, st_pcm = [], st_dropped = 0, st_sent = 0, st_attempt_start = 0, st_marks = [],
     st_next_mark = 0, st_input_ended = False, st_input_finished = False, st_streaming = False, st_issues = [],
     st_generation = 0, tr_scripts = scripts, tr_input = [], tr_released = False, tr_releasing = 0, tr_sent = []\<rparr>"

lemma stream_run_ok_init: "0 \<le> m \<Longrightarrow> stream_run_ok 0 (stream_init m scripts)"
  by (simp add: stream_run_defs stream_init_def stream_log_ok_def)

definition example_stream_world :: stream_world where
  "example_stream_world = \<lparr>tw_world = example_world,
     tw_options = \<lparr>ao_timed_segments = False, ao_cut_into_utterances = True\<rparr>,
     tw_recovers = (\<lambda>f. False), tw_rolls_over = False\<rparr>"

text \<open>
  Five bytes are heard, the stream prepares and sends; an utterance ends after
  the third; at most four bytes are kept.
\<close>

definition example_stream_run :: "stream_action list" where
  "example_stream_run = [DoReset, DoAppend [1, 2, 3], DoEndUtterance, DoPrepare default_app_settings,
     DoAppend [4, 5], TimerFires, StreamTranscriberSends 1 (SigConnected 1), TimerFires]"

lemmas stream_eval = run_eval stream_runs_to_def stream_act_def stream_init_def example_stream_world_def
  stream_run_env_def stream_run_base_def stream_base_def stream_reset_def ts_clear_def stream_append_def
  stream_keep_bounded_def stream_forget_before_def marks_before_def stream_start_timer_def
  stream_end_utterance_def st_total_def stream_prepare_def stream_speech_settings_def
  stream_chain_def stream_walk_env_def stream_begin_streaming_def stream_rewind_to_def
  stream_send_next_chunk_def stream_send_chunk_def stream_chunk_def byte_mid_def k_speech_chunk_bytes_def
  k_speech_bytes_per_second_def attempts_end_utterance_def attempts_begin_utterance_def stream_attempts_def
  attempts_mark_connected_def attempts_release_def attempts_cancel_def

lemma stream_mark_utterances_case: "stream_mark_utterances V s =
     (if st_streaming s \<and> st_next_mark s < length (st_marks s)
         \<and> um_position (st_marks s ! st_next_mark s) \<le> st_sent s
      then (case (if um_begins (st_marks s ! st_next_mark s)
             then attempts_begin_utterance (stream_base V) (s\<lparr>st_next_mark := Suc (st_next_mark s)\<rparr>)
             else attempts_end_utterance (stream_base V) (s\<lparr>st_next_mark := Suc (st_next_mark s)\<rparr>)) of
         None \<Rightarrow> None | Some s \<Rightarrow> stream_mark_utterances V s)
      else Some s)"
  by (subst stream_mark_utterances.simps) (auto simp: bind_case split: option.split)

lemma default_settings_speak:
  "spoken_language_problem names (chain_speech_settings default_speech_settings (sp_provider default_speech_settings))
     label = []"
  by (simp add: spoken_language_problem_def listens_for_spoken_language_def chosen_local_model_def
      spoken_languages_def with_automatic_def chain_speech_settings_def default_speech_settings_def provider_key_def
      provider_info_of_def k_providers_def parse_provider_id_def Let_def claude_voice_languages_def
      k_automatic_def language_codes_def)

lemma example_stream_sends:
  "map_option (\<lambda>s. (tr_sent s, tr_released s))
     (stream_runs_to example_stream_world 0 example_stream_run (stream_init 4 [])) =
   Some ([(1, [2, 3]), (3, [4, 5])], False)"
  by (simp add: stream_eval stream_mark_utterances_case example_stream_run_def
      default_settings_speak[unfolded default_speech_settings_def provider_key_def provider_info_of_def
        k_providers_def, simplified] del: chain_speech_settings_def)

section \<open>Properties\<close>

text \<open>
  C13. Over any run of a stream, whatever its handlers do, the audio kept is the input from the bytes dropped
  on and at most what may be kept, what was sent ends within it, the utterance marks are in order, and every
  piece sent to a transcriber is the input's own bytes from where it began; until a release gives the audio up.
\<close>

theorem stream_sends_the_input:
  assumes "stream_runs_to W n as (stream_init m scripts) = Some s" "0 \<le> m" "\<not> tr_released s"
  shows "st_pcm s = drop (nat (st_dropped s)) (tr_input s)
    \<and> 0 \<le> st_dropped s \<and> st_dropped s \<le> st_sent s \<and> st_sent s \<le> int (length (tr_input s))
    \<and> (st_most_kept s = 0 \<or> int (length (st_pcm s)) \<le> st_most_kept s)
    \<and> sorted (map um_position (st_marks s))
    \<and> (\<forall>(p, a)\<in>set (tr_sent s). 0 \<le> p \<and> a = take (length a) (drop (nat p) (tr_input s)))"
proof -
  have "stream_run_ok 0 s"
    using holdsD[OF preserves_holds[OF stream_run_keeps stream_run_ok_init[OF assms(2)]] assms(1)] .
  hence b: "stream_bounds_ok s" and i: "stream_input_ok s" using assms(3) by (simp_all add: stream_run_ok_def)
  have "stream_log_ok (tr_input s) (tr_sent s)" using i unfolding stream_input_ok_def by blast
  hence l: "\<forall>(p, a)\<in>set (tr_sent s). 0 \<le> p \<and> a = take (length a) (drop (nat p) (tr_input s))"
    unfolding stream_log_ok_def .
  show ?thesis
    using b i unfolding stream_bounds_ok_def stream_input_ok_def by (intro conjI l) simp_all
qed

lemma stream_sends_the_input_witness:
  "\<exists>s. stream_runs_to example_stream_world 0 example_stream_run (stream_init 4 []) = Some s
     \<and> tr_sent s = [(1, [2, 3]), (3, [4, 5])]
     \<and> (\<forall>(p, a)\<in>set (tr_sent s). 0 \<le> p \<and> a = take (length a) (drop (nat p) (tr_input s)))"
proof -
  obtain s where s: "stream_runs_to example_stream_world 0 example_stream_run (stream_init 4 []) = Some s"
    and sent: "tr_sent s = [(1, [2, 3]), (3, [4, 5])]" and still: "\<not> tr_released s"
    using example_stream_sends by auto
  have "0 \<le> (4::int)" by simp
  from stream_sends_the_input[OF s this still] s sent show ?thesis by blast
qed

end
