(* ===== verification/Popup.thy ===== *)
theory Popup
  imports Providers
begin

text \<open>
  What a Dictation Session shows of itself: dictation/DictationTypes.cpp (its
  states, and what controls and status lines say of them),
  dictation/PopupPresentation.cpp (how it ended), core/OutputFormat.cpp and
  dictation/DictationPorts.cpp (what it hands over to be pasted).
\<close>

section \<open>States\<close>

datatype dictation_state = SIdle | SStarting | SListening | SPaused | SStopping | SRefining | SDelivering
  | SError | SReviewing

definition dictation_state_name :: "dictation_state \<Rightarrow> qstring" where
  "dictation_state_name st = (case st of SIdle \<Rightarrow> ''idle'' | SStarting \<Rightarrow> ''starting''
     | SListening \<Rightarrow> ''listening'' | SPaused \<Rightarrow> ''paused'' | SStopping \<Rightarrow> ''stopping''
     | SRefining \<Rightarrow> ''refining'' | SDelivering \<Rightarrow> ''delivering'' | SError \<Rightarrow> ''error''
     | SReviewing \<Rightarrow> ''reviewing'')"

definition dictation_state_label :: "(qstring \<Rightarrow> qstring) \<Rightarrow> dictation_state \<Rightarrow> qstring \<Rightarrow> qstring" where
  "dictation_state_label upper st message =
     (if st = SError then message
      else (let name = dictation_state_name st in upper (q_left 1 name) @ drop 1 name))"

definition dictation_status_label :: "glyphs \<Rightarrow> dictation_state \<Rightarrow> qstring \<Rightarrow> qstring" where
  "dictation_status_label g st message = (case st of
     SStarting \<Rightarrow> ''Listening'' @ gl_ellipsis g
   | SListening \<Rightarrow> ''Listening'' @ gl_ellipsis g
   | SPaused \<Rightarrow> ''Paused''
   | SStopping \<Rightarrow> ''Transcribing'' @ gl_ellipsis g
   | SRefining \<Rightarrow> ''Refining'' @ gl_ellipsis g
   | SDelivering \<Rightarrow> (if message = [] then ''Delivering'' @ gl_ellipsis g else message)
   | SReviewing \<Rightarrow> ''Review the edit in the popup''
   | SError \<Rightarrow> (if message = [] then ''Dictation failed'' else message)
   | SIdle \<Rightarrow> ''Idle'')"

record toggle_action =
  ta_label :: qstring
  ta_enabled :: bool

definition dictation_toggle_action :: "glyphs \<Rightarrow> dictation_state \<Rightarrow> toggle_action" where
  "dictation_toggle_action g st =
     (if st \<in> {SStarting, SListening, SPaused} then \<lparr>ta_label = ''Stop dictation'', ta_enabled = True\<rparr>
      else if st = SRefining then \<lparr>ta_label = ''Cancel refinement'', ta_enabled = True\<rparr>
      else if st = SReviewing then \<lparr>ta_label = ''Ask for more changes'', ta_enabled = True\<rparr>
      else if st \<in> {SStopping, SDelivering} then \<lparr>ta_label = dictation_status_label g st [], ta_enabled = False\<rparr>
      else \<lparr>ta_label = ''Start dictation'', ta_enabled = True\<rparr>)"

definition dictation_listening_presentation :: "dictation_state \<Rightarrow> bool" where
  "dictation_listening_presentation st \<longleftrightarrow> st = SStarting \<or> st = SListening"

definition dictation_cancelable :: "dictation_state \<Rightarrow> bool" where
  "dictation_cancelable st \<longleftrightarrow> st \<in> {SStarting, SListening, SPaused, SStopping, SRefining, SReviewing}"

definition dictation_pausable :: "dictation_state \<Rightarrow> bool" where
  "dictation_pausable st \<longleftrightarrow> st = SListening \<or> st = SPaused"

record session_keys =
  sk_escape :: bool
  sk_enter :: bool

text \<open>A ShortcutBinding is only compared with the one of Escape alone, \<open>escape\<close>.\<close>

definition session_keys_wanted ::
  "'k \<Rightarrow> dictation_state \<Rightarrow> bool \<Rightarrow> bool \<Rightarrow> 'k \<Rightarrow> 'k \<Rightarrow> bool \<Rightarrow> session_keys" where
  "session_keys_wanted escape st review_up escape_cancels cancel_shortcut pause_shortcut suspended =
     (if suspended then \<lparr>sk_escape = False, sk_enter = False\<rparr>
      else (let waiting = (st = SReviewing);
                cancels = (dictation_cancelable st \<and> escape_cancels \<and> pause_shortcut \<noteq> escape);
                keeps_review = (review_up \<and> \<not> (dictation_pausable st \<and> pause_shortcut = escape))
            in \<lparr>sk_escape = (cancel_shortcut \<noteq> escape \<and> (keeps_review \<or> cancels)), sk_enter = waiting\<rparr>))"

definition tray_tool_tip :: "bool \<Rightarrow> bool \<Rightarrow> qstring" where
  "tray_tool_tip listening recording =
     (if listening \<and> recording then ''Speecher is listening and recording''
      else if recording then ''Speecher is recording''
      else if listening then ''Speecher is listening'' else ''Speecher'')"

definition tray_quit_caption :: qstring where
  "tray_quit_caption = ''Quit Speecher''"

section \<open>What a session ran on\<close>

record provider_history =
  ph_speech_ran :: "qstring list"
  ph_refinement_ran :: "qstring list"
  ph_issues :: "attempt_issue list"

definition no_history :: provider_history where
  "no_history = \<lparr>ph_speech_ran = [], ph_refinement_ran = [], ph_issues = []\<rparr>"

section \<open>How a session ended\<close>

datatype popup_outcome = OutcomeInserted | OutcomeCopied | OutcomeFallback | OutcomeError | OutcomeCancelled

datatype error_fix = NoFix | SettingsPage | MicrophonePermission | AccessibilityPermission

record popup_error_action =
  pe_fix :: error_fix
  pe_page :: qstring

definition no_action :: popup_error_action where
  "no_action = \<lparr>pe_fix = NoFix, pe_page = []\<rparr>"

record dictation_outcome =
  do_message :: qstring
  do_outcome :: popup_outcome
  do_fix :: popup_error_action

definition popup_message_separator :: "glyphs \<Rightarrow> qstring" where
  "popup_message_separator g = '' '' @ gl_bullet g @ '' ''"

definition cancelled_outcome_text :: qstring where
  "cancelled_outcome_text = ''Canceled''"

definition k_popup_error_minimum_ms :: int where "k_popup_error_minimum_ms = 8000"
definition k_popup_error_ms_per_character :: int where "k_popup_error_ms_per_character = 60"
definition k_popup_error_maximum_ms :: int where "k_popup_error_maximum_ms = 30000"

definition popup_error_dismiss_ms :: "qchars \<Rightarrow> qstring \<Rightarrow> int" where
  "popup_error_dismiss_ms q message =
     min k_popup_error_maximum_ms (max k_popup_error_minimum_ms
       (int (length (simplified q message)) * k_popup_error_ms_per_character))"

definition stand_in :: "qstring list \<Rightarrow> attempt_issue list \<Rightarrow> bool \<Rightarrow> qstring" where
  "stand_in ran_ids role_issues raw_stood_in =
     (if ran_ids = [] \<or> role_issues = [] \<or> raw_stood_in then []
      else if \<exists>i\<in>set role_issues. ai_provider i = last ran_ids then [] else last ran_ids)"

text \<open>
  The sentences of fallbackNote for one role: what did the work, the services
  that could not, and the sign-ins turned down.
\<close>

definition role_sentences ::
  "provider_labels \<Rightarrow> provider_role \<Rightarrow> attempt_issue list \<Rightarrow> qstring \<Rightarrow> bool \<Rightarrow> bool \<Rightarrow> qstring list" where
  "role_sentences labels role issues used interrupted words_lost =
     (let others = issues_where issues (\<lambda>i. ai_stage i \<noteq> Interrupted \<and> \<not> rejected_sign_in i);
          used_name = labels role used;
          used_sentence =
            (if used = [] then []
             else if role = Speech \<and> interrupted then
               [joined_with_and (map (\<lambda>i. labels role (ai_provider i)) (filter (\<lambda>i. ai_stage i = Interrupted) issues))
                @ '' dropped, so '' @ used_name @ '' finished. A few words may be missing.'']
             else if others = [] then [''Used '' @ used_name @ ''.'']
             else if role = Speech then [''Transcribed with '' @ used_name @ ''.'']
             else [''Cleaned up with '' @ used_name @ ''.'']);
          sentence = shortfall_sentence others labels
      in used_sentence
         @ (if sentence \<noteq> [] then [sentence] else [])
         @ (if role = Speech \<and> words_lost \<and> \<not> interrupted then [''A few words may be missing.''] else [])
         @ sign_in_sentences issues labels)"

text \<open>fallbackNote, with whether it already warns that words may be missing.\<close>

definition fallback_note :: "provider_history \<Rightarrow> bool \<Rightarrow> provider_labels \<Rightarrow> qstring \<times> bool" where
  "fallback_note history used_raw labels =
     (let issues = ph_issues history;
          speech_issues = issues_where issues (\<lambda>i. ai_role i = Speech);
          refinement_issues = issues_where issues (\<lambda>i. ai_role i = Refinement);
          speech_used = stand_in (ph_speech_ran history) speech_issues False;
          refinement_used = stand_in (ph_refinement_ran history) refinement_issues used_raw;
          interrupted = (speech_used \<noteq> [] \<and> (\<exists>i\<in>set speech_issues. ai_stage i = Interrupted));
          words_lost = (interrupted \<or> (speech_used \<noteq> [] \<and> (\<exists>i\<in>set speech_issues. ai_words_lost i)));
          all_offline = (issues \<noteq> [] \<and> (\<forall>i\<in>set issues. ai_offline i))
      in if all_offline \<and> (speech_used \<noteq> [] \<or> refinement_used \<noteq> [])
         then (let names = (if speech_used \<noteq> [] then [labels Speech speech_used] else [])
                       @ (if refinement_used \<noteq> [] then [labels Refinement refinement_used] else []);
                   note = ''No internet, so '' @ joined_with_and names @ '' did this one.''
               in (if words_lost then note @ '' A few words may be missing.'' else note, words_lost))
         else (join '' '' (role_sentences labels Speech speech_issues speech_used interrupted words_lost
                 @ role_sentences labels Refinement refinement_issues refinement_used interrupted words_lost),
               words_lost))"

definition dictation_outcome_of ::
  "glyphs \<Rightarrow> qstring \<Rightarrow> bool \<Rightarrow> provider_history \<Rightarrow> bool \<Rightarrow> qstring \<Rightarrow> provider_labels \<Rightarrow> dictation_outcome" where
  "dictation_outcome_of g receipt copied_only history used_raw speech_warning labels =
     (let sep = popup_message_separator g;
          (note, words_may_be_missing) = fallback_note history used_raw labels;
          message = (if used_raw then ''Used raw transcript'' @ sep @ receipt else receipt);
          message = (if note \<noteq> [] then message @ sep @ note else message);
          message = (if speech_warning \<noteq> [] \<and> \<not> words_may_be_missing then message @ sep @ speech_warning else message)
      in \<lparr>do_message = message,
          do_outcome = (if used_raw \<or> ph_issues history \<noteq> [] then OutcomeFallback
             else if copied_only then OutcomeCopied else OutcomeInserted),
          do_fix = (if \<exists>i\<in>set (ph_issues history). rejected_sign_in i
             then \<lparr>pe_fix = SettingsPage, pe_page = ''accounts''\<rparr> else no_action)\<rparr>)"

definition speech_setup_action :: "qstring \<Rightarrow> popup_error_action" where
  "speech_setup_action provider = (case parse_provider_id provider of
     Some LocalProvider \<Rightarrow> \<lparr>pe_fix = SettingsPage, pe_page = ''models''\<rparr>
   | Some Endpoint \<Rightarrow> \<lparr>pe_fix = SettingsPage, pe_page = ''speech''\<rparr>
   | _ \<Rightarrow> \<lparr>pe_fix = SettingsPage, pe_page = ''accounts''\<rparr>)"

section \<open>What is delivered\<close>

datatype output_format = PlainText | Html

definition output_format_name :: "output_format \<Rightarrow> qstring" where
  "output_format_name f = (if f = Html then ''html'' else ''plain'')"

definition output_format_from_string :: "qchars \<Rightarrow> qstring \<Rightarrow> output_format option" where
  "output_format_from_string q s =
     find (\<lambda>f. same_caseless q (trimmed q s) (output_format_name f)) [PlainText, Html]"

definition escaped_char :: "char \<Rightarrow> qstring" where
  "escaped_char c = (if c = CHR ''<'' then ''&lt;'' else if c = CHR ''>'' then ''&gt;''
     else if c = CHR ''&'' then ''&amp;'' else if c = CHR 0x22 then ''&quot;'' else [c])"

definition html_escaped :: "qstring \<Rightarrow> qstring" where
  "html_escaped s = concat (map escaped_char s)"

definition html_paragraph :: "qchars \<Rightarrow> qstring \<Rightarrow> qstring" where
  "html_paragraph q p = replace_all [CHR 0x0A] ''<br>'' (html_escaped (trimmed q p))"

definition plain_text_as_html :: "qchars \<Rightarrow> qstring \<Rightarrow> qstring" where
  "plain_text_as_html q text_given =
     (let normalized = replace_all [CHR 0x0D] [CHR 0x0A]
            (replace_all [CHR 0x0D, CHR 0x0A] [CHR 0x0A] text_given);
          paragraphs = filter (\<lambda>p. p \<noteq> []) (split_text [CHR 0x0A, CHR 0x0A] normalized)
      in join [CHR 0x0A] (map (\<lambda>e. ''<p>'' @ e @ ''</p>'')
           (filter (\<lambda>e. e \<noteq> []) (map (html_paragraph q) paragraphs))))"

record delivery_content =
  dc_plain :: qstring
  dc_html :: "qstring option"

definition make_delivery_content :: "qchars \<Rightarrow> qstring \<Rightarrow> output_format \<Rightarrow> delivery_content" where
  "make_delivery_content q s f =
     \<lparr>dc_plain = s, dc_html = (if f = Html then Some (plain_text_as_html q s) else None)\<rparr>"

datatype delivery_receipt = ReceiptNone | ReceiptCopied | ReceiptInputSent | ReceiptAcceptedByTarget
  | ReceiptVerifiedInTarget

record delivery_result =
  dr_ok :: bool
  dr_receipt :: delivery_receipt
  dr_format_downgraded :: bool
  dr_message :: qstring

end
