(* ===== verification/Vocabulary_Limit.thy ===== *)
theory Vocabulary_Limit
  imports Providers
begin

text \<open>
  core/VocabularyLimit.cpp: how many of the key terms a speech request carries, in
  terms, tokens and bytes. UTF-8 is a parameter.
\<close>

definition k_max_keyterms :: nat where "k_max_keyterms = 100"
definition k_max_tokens :: nat where "k_max_tokens = 500"
definition k_max_header_bytes :: nat where "k_max_header_bytes = 1024"

text \<open>The regular expression splits at ASCII's white space.\<close>

definition token_count :: "qchars \<Rightarrow> qstring \<Rightarrow> nat" where
  "token_count q term = length (words_of ascii_space (trimmed q term))"

definition token_counts :: "qchars \<Rightarrow> qstring list \<Rightarrow> nat" where
  "token_counts q terms = sum_list (map (token_count q) terms)"

text \<open>The terms kept so far are also the set of those seen.\<close>

fun limited_from :: "qchars \<Rightarrow> qstring list \<Rightarrow> nat \<Rightarrow> qstring list \<Rightarrow> qstring list" where
  "limited_from q kept tokens [] = kept"
| "limited_from q kept tokens (raw # terms) =
     (if length kept \<ge> k_max_keyterms then kept
      else let term = simplified q raw; n = token_count q term in
        if term = [] \<or> term \<in> set kept then limited_from q kept tokens terms
        else if n = 0 \<or> tokens + n > k_max_tokens then limited_from q kept tokens terms
        else limited_from q (kept @ [term]) (tokens + n) terms)"

definition limited :: "qchars \<Rightarrow> qstring list \<Rightarrow> qstring list" where
  "limited q terms = limited_from q [] 0 terms"

fun claude_from ::
  "qchars \<Rightarrow> (qstring \<Rightarrow> qstring) \<Rightarrow> qstring list \<Rightarrow> qstring set \<Rightarrow> nat \<Rightarrow> qstring list \<Rightarrow> qstring list" where
  "claude_from q utf8 kept seen bytes [] = kept"
| "claude_from q utf8 kept seen bytes (raw # terms) =
     (let term = simplified q raw; key = map ascii_lower_char (utf8 term);
          separator = (if kept = [] then 0 else 1) in
      if term = [] \<or> key \<in> seen then claude_from q utf8 kept seen bytes terms
      else if bytes + separator + length (utf8 term) > k_max_header_bytes
        then claude_from q utf8 kept seen bytes terms
      else claude_from q utf8 (kept @ [term]) (insert key seen) (bytes + separator + length (utf8 term)) terms)"

definition claude_voice_keyterms :: "qchars \<Rightarrow> (qstring \<Rightarrow> qstring) \<Rightarrow> qstring list \<Rightarrow> qstring list" where
  "claude_voice_keyterms q utf8 terms = claude_from q utf8 [] {} 0 terms"

definition takes_keyterms :: "qstring \<Rightarrow> bool" where
  "takes_keyterms i \<longleftrightarrow> parse_provider_id i = Some Claude \<or> parse_provider_id i = Some Endpoint"

definition speech_keyterms :: "qchars \<Rightarrow> (qstring \<Rightarrow> qstring) \<Rightarrow> qstring list \<Rightarrow> qstring \<Rightarrow> qstring list" where
  "speech_keyterms q utf8 terms i =
     (if parse_provider_id i = Some Claude then claude_voice_keyterms q utf8 (limited q terms)
      else if parse_provider_id i = Some Endpoint then limited q terms
      else [])"

section \<open>Within the caps\<close>

lemma subseq_set: "subseq xs ys \<Longrightarrow> set xs \<subseteq> set ys"
  by (induction rule: list_emb.induct) auto

lemma subseq_distinct: "subseq xs ys \<Longrightarrow> distinct ys \<Longrightarrow> distinct xs"
  by (induction rule: list_emb.induct) (auto dest: subseq_set)

lemma token_counts_append [simp]: "token_counts q (xs @ ys) = token_counts q xs + token_counts q ys"
  by (simp add: token_counts_def)

lemma token_counts_single [simp]: "token_counts q [x] = token_count q x"
  by (simp add: token_counts_def)

definition within_caps :: "qchars \<Rightarrow> qstring list \<Rightarrow> bool" where
  "within_caps q kept \<longleftrightarrow> length kept \<le> k_max_keyterms \<and> token_counts q kept \<le> k_max_tokens \<and> distinct kept
     \<and> (\<forall>t\<in>set kept. t \<noteq> [] \<and> token_count q t > 0)"

lemma within_caps_snoc:
  "within_caps q kept \<Longrightarrow> length kept < k_max_keyterms \<Longrightarrow> t \<noteq> [] \<Longrightarrow> t \<notin> set kept \<Longrightarrow> token_count q t \<noteq> 0 \<Longrightarrow>
   token_counts q kept + token_count q t \<le> k_max_tokens \<Longrightarrow> within_caps q (kept @ [t])"
  by (auto simp: within_caps_def)

lemma limited_from_caps: "within_caps q kept \<Longrightarrow> within_caps q (limited_from q kept (token_counts q kept) terms)"
proof (induction terms arbitrary: kept)
  case (Cons raw terms)
  let ?t = "simplified q raw"
  have "within_caps q (kept @ [?t]) \<Longrightarrow>
      within_caps q (limited_from q (kept @ [?t]) (token_counts q kept + token_count q ?t) terms)"
    using Cons.IH[of "kept @ [?t]"] by simp
  thus ?case using Cons within_caps_snoc[of q kept ?t] by (simp add: Let_def not_le not_less)
qed simp

lemma limited_caps: "within_caps q (limited q terms)"
  using limited_from_caps[of q "[]" terms] by (simp add: limited_def within_caps_def token_counts_def)

text \<open>A run that adds to what is kept some of the terms still to come, in order.\<close>

definition grows :: "qstring list \<Rightarrow> qstring list \<Rightarrow> qstring list \<Rightarrow> bool" where
  "grows kept terms r \<longleftrightarrow> (\<exists>ys. r = kept @ ys \<and> subseq ys terms)"

lemma grows_refl: "grows kept terms kept"
  by (simp add: grows_def)

lemma grows_skip: "grows kept terms r \<Longrightarrow> grows kept (t # terms) r"
  by (auto simp: grows_def)

lemma grows_take: "grows (kept @ [t]) terms r \<Longrightarrow> grows kept (t # terms) r"
  unfolding grows_def by (metis append.assoc append_Cons append_Nil subseq_Cons2)

lemma limited_from_grows: "grows kept (map (simplified q) terms) (limited_from q kept tokens terms)"
  by (induction terms arbitrary: kept tokens) (simp_all add: grows_refl grows_skip grows_take Let_def)

lemma limited_subseq: "subseq (limited q terms) (map (simplified q) terms)"
  using limited_from_grows[of "[]" q terms 0] by (simp add: limited_def grows_def)

text \<open>A list within the caps, of simplified terms, is all kept.\<close>

lemma limited_from_all:
  "within_caps q (kept @ terms) \<Longrightarrow> tokens = token_counts q kept \<Longrightarrow> (\<forall>t\<in>set terms. simplified q t = t) \<Longrightarrow>
   limited_from q kept tokens terms = kept @ terms"
proof (induction q kept tokens terms rule: limited_from.induct)
  case (2 q kept tokens raw terms)
  have raw: "simplified q raw = raw" "raw \<noteq> []" "token_count q raw > 0" "raw \<notin> set kept"
    "length kept < k_max_keyterms" "tokens + token_count q raw \<le> k_max_tokens"
    using 2(4,5,6) by (auto simp: within_caps_def token_counts_def)
  have "limited_from q kept tokens (raw # terms) = limited_from q (kept @ [raw]) (tokens + token_count q raw) terms"
    using raw by simp
  also have "\<dots> = (kept @ [raw]) @ terms"
    by (rule 2(3)[of raw "token_count q raw"]) (use 2 raw in auto)
  finally show ?case by simp
qed simp

lemma limited_simplified:
  assumes "is_space q CHR '' ''" "t \<in> set (limited q terms)"
  shows "simplified q t = t"
proof -
  have "t \<in> set (map (simplified q) terms)" using assms(2) limited_subseq by (meson subseq_set subsetD)
  thus ?thesis using simplified_idem[OF assms(1)] by auto
qed

lemma limited_idem: "is_space q CHR '' '' \<Longrightarrow> limited q (limited q terms) = limited q terms"
  unfolding limited_def[of q "limited q terms"]
  using limited_from_all[of q "[]" "limited q terms" 0] limited_caps[of q terms] limited_simplified
  by (simp add: token_counts_def)

text \<open>The bytes of the header: the terms in UTF-8 with one separator between two.\<close>

definition header_bytes :: "(qstring \<Rightarrow> qstring) \<Rightarrow> qstring list \<Rightarrow> nat" where
  "header_bytes utf8 kept = length (join '','' (map utf8 kept))"

lemma header_bytes_snoc:
  "header_bytes utf8 (kept @ [t]) = header_bytes utf8 kept + (if kept = [] then 0 else 1) + length (utf8 t)"
proof -
  have "length (join sep (xs @ [x])) = length (join sep xs) + (if xs = [] then 0 else length sep) + length x"
    for sep x and xs :: "qstring list"
  proof (induction xs)
    case (Cons y ys)
    thus ?case by (cases ys) (simp_all add: join_Cons)
  qed simp
  thus ?thesis by (simp add: header_bytes_def)
qed

lemma claude_from_caps:
  "header_bytes utf8 kept = bytes \<Longrightarrow> bytes \<le> k_max_header_bytes \<Longrightarrow>
   seen = set (map (\<lambda>t. map ascii_lower_char (utf8 t)) kept) \<Longrightarrow>
   distinct (map (\<lambda>t. map ascii_lower_char (utf8 t)) kept) \<Longrightarrow>
   (let r = claude_from q utf8 kept seen bytes terms in
     header_bytes utf8 r \<le> k_max_header_bytes \<and> distinct (map (\<lambda>t. map ascii_lower_char (utf8 t)) r))"
proof (induction q utf8 kept seen bytes terms rule: claude_from.induct)
  case (2 q utf8 kept seen bytes raw terms)
  show ?case
    using 2 by (simp add: Let_def header_bytes_snoc)
qed simp

lemma claude_from_grows: "grows kept (map (simplified q) terms) (claude_from q utf8 kept seen bytes terms)"
  by (induction terms arbitrary: kept seen bytes) (simp_all add: grows_refl grows_skip grows_take Let_def)

lemma claude_caps:
  "header_bytes utf8 (claude_voice_keyterms q utf8 terms) \<le> k_max_header_bytes
   \<and> distinct (map (\<lambda>t. map ascii_lower_char (utf8 t)) (claude_voice_keyterms q utf8 terms))"
  using claude_from_caps[of utf8 "[]" 0 "{}" q terms]
  by (simp add: claude_voice_keyterms_def header_bytes_def Let_def)

lemma claude_subseq: "subseq (claude_voice_keyterms q utf8 terms) (map (simplified q) terms)"
  using claude_from_grows[of "[]" q terms utf8 "{}" 0] by (simp add: claude_voice_keyterms_def grows_def)

lemma within_caps_subseq:
  assumes "within_caps q ys" "subseq xs ys"
  shows "within_caps q xs"
proof -
  have "token_counts q xs \<le> token_counts q ys"
    using assms(2) by (induction rule: list_emb.induct) (auto simp: token_counts_def)
  thus ?thesis using assms
    using list_emb_length[OF assms(2)] subseq_set[OF assms(2)] subseq_distinct[OF assms(2)] by (auto simp: within_caps_def)
qed

text \<open>
  C35. What a speech service is sent of a list of terms keeps the list's order and
  stays within the caps: at most 100 terms and 500 tokens, none twice, and for
  Claude Voice at most 1024 bytes of header with no spelling twice in ASCII case.
  Terms limited once are sent as they are by a custom endpoint.
\<close>

theorem keyterms_within_the_caps:
  assumes "is_space q CHR '' ''"
  shows "subseq (speech_keyterms q utf8 terms i) (map (simplified q) terms)
    \<and> length (speech_keyterms q utf8 terms i) \<le> 100
    \<and> token_counts q (speech_keyterms q utf8 terms i) \<le> 500
    \<and> distinct (speech_keyterms q utf8 terms i)
    \<and> (parse_provider_id i = Some Claude \<longrightarrow>
        length (join '','' (map utf8 (speech_keyterms q utf8 terms i))) \<le> 1024
        \<and> distinct (map (\<lambda>t. map ascii_lower_char (utf8 t)) (speech_keyterms q utf8 terms i)))
    \<and> (parse_provider_id i = Some Endpoint \<longrightarrow> speech_keyterms q utf8 (limited q terms) i = limited q terms)"
proof -
  have same: "map (simplified q) (limited q terms) = limited q terms"
    using limited_simplified[OF assms] by (simp add: map_idI)
  have "subseq (claude_voice_keyterms q utf8 (limited q terms)) (limited q terms)"
    using claude_subseq[of q utf8 "limited q terms"] same by simp
  hence claude: "within_caps q (claude_voice_keyterms q utf8 (limited q terms))"
    "subseq (claude_voice_keyterms q utf8 (limited q terms)) (map (simplified q) terms)"
    using within_caps_subseq[OF limited_caps] limited_subseq[of q terms] by (auto intro: subseq_order.trans)
  have "within_caps q (speech_keyterms q utf8 terms i) \<and> subseq (speech_keyterms q utf8 terms i) (map (simplified q) terms)"
    using claude limited_caps[of q terms] limited_subseq[of q terms]
    by (auto simp: speech_keyterms_def within_caps_def token_counts_def)
  thus ?thesis
    using claude_caps[of utf8 q "limited q terms"] limited_idem[OF assms, of terms]
    by (auto simp: within_caps_def k_max_keyterms_def k_max_tokens_def speech_keyterms_def header_bytes_def
        k_max_header_bytes_def)
qed

theorem keyterms_within_the_caps_witness:
  "speech_keyterms ascii id (limited ascii ['' a  b '', ''c'']) ''endpoint'' = limited ascii ['' a  b '', ''c'']"
proof -
  have "parse_provider_id ''endpoint'' = Some Endpoint" by (simp add: parse_provider_id_def k_providers_def)
  thus ?thesis using keyterms_within_the_caps[of ascii id "['' a  b '', ''c'']" "''endpoint''"]
    by (simp add: ascii_space_def)
qed

text \<open>What is kept of a list in two parts: the second goes on from what was kept of the first.\<close>

lemma limited_from_append:
  "tokens = token_counts q kept \<Longrightarrow>
   limited_from q kept tokens (ts @ us)
   = limited_from q (limited_from q kept tokens ts) (token_counts q (limited_from q kept tokens ts)) us"
proof (induction q kept tokens ts rule: limited_from.induct)
  case (2 q kept tokens raw ts)
  show ?case
  proof (cases "length kept \<ge> k_max_keyterms")
    case True
    hence "limited_from q kept n us = kept" for n us by (cases us) simp_all
    thus ?thesis using True 2(4) by simp
  next
    case False
    thus ?thesis using 2 by (simp add: Let_def)
  qed
qed simp

lemma limited_append:
  "limited q (ts @ us) = limited_from q (limited q ts) (token_counts q (limited q ts)) us"
  using limited_from_append[of 0 q "[]" ts us] by (simp add: limited_def token_counts_def)

text \<open>
  C39. A term with more tokens than the cap of 500 leaves after the terms kept before it is skipped as if it
  were not in the list, whatever follows. What is kept is then not a prefix of the list: a later term that is
  new, not blank and still fits, with fewer than 100 kept, is sent.
\<close>

theorem a_later_term_may_be_kept:
  assumes "token_counts q (limited q ts) + token_count q (simplified q t) > 500"
    and "length (limited q ts) < 100" "simplified q u \<noteq> []" "simplified q u \<notin> set (limited q ts)"
    and "token_count q (simplified q u) > 0" "token_counts q (limited q ts) + token_count q (simplified q u) \<le> 500"
  shows "limited q (ts @ t # us) = limited q (ts @ us)
    \<and> limited q (ts @ [t, u]) = limited q ts @ [simplified q u]"
proof -
  let ?n = "token_counts q (limited q ts)"
  have skip: "limited_from q (limited q ts) ?n (t # us) = limited_from q (limited q ts) ?n us" for us
    using assms(1,2) by (simp add: Let_def k_max_tokens_def k_max_keyterms_def)
  moreover have "limited_from q (limited q ts) ?n [u] = limited q ts @ [simplified q u]"
    using assms(2-6) by (simp add: Let_def k_max_tokens_def k_max_keyterms_def)
  ultimately show ?thesis by (simp add: limited_append)
qed

lemma long_term:
  "simplified ascii (join '' '' (replicate 501 ''a'')) = join '' '' (replicate 501 ''a'')"
  "token_count ascii (join '' '' (replicate 501 ''a'')) = 501"
proof -
  let ?a = "join '' '' (replicate 501 ''a'')"
  have w: "words_of ascii_space ?a = replicate 501 ''a''"
    by (rule words_of_join) (simp_all add: ascii_space_def)
  show "simplified ascii ?a = ?a" by (simp only: simplified_def ascii_sel w)
  have "token_count ascii ?a = length (words_of (is_space ascii) (trimmed ascii ?a))" by (simp add: token_count_def)
  also have "\<dots> = 501" unfolding words_of_trimmed by (simp only: ascii_sel w length_replicate)
  finally show "token_count ascii ?a = 501" .
qed

lemma a_later_term_may_be_kept_witness:
  "limited ascii [''k'', join '' '' (replicate 501 ''a''), ''b''] = [''k'', ''b'']"
proof -
  have k: "simplified ascii ''k'' = ''k''" "token_count ascii ''k'' = 1"
    and b: "simplified ascii ''b'' = ''b''" "token_count ascii ''b'' = 1"
    by (simp_all add: simplified_def token_count_def trimmed_def words_of.simps(2) ascii_space_def)
  have "limited ascii [''k''] = [''k'']"
    using k by (simp add: limited_def k_max_tokens_def k_max_keyterms_def)
  hence "limited ascii ([''k''] @ [join '' '' (replicate 501 ''a''), ''b'']) = limited ascii [''k''] @ [simplified ascii ''b'']"
    by (intro a_later_term_may_be_kept[THEN conjunct2]) (simp_all add: long_term k b)
  thus ?thesis using \<open>limited ascii [''k''] = [''k'']\<close> b by simp
qed

end
