(* ===== verification/Targets.thy ===== *)
theory Targets
  imports QtText
begin

text \<open>
  core/Target.h and core/Target.cpp: the app a dictation is typed into, what kind
  of app it is (\<^term>\<open>classify_target\<close>, \<^term>\<open>is_terminal_target\<close>), which Writing
  Profile it gets (\<^term>\<open>resolve_writing_profile\<close>) and the text either side of its
  caret (\<^term>\<open>set_nearby_text\<close>). The regular expressions are written out as scanners.
\<close>

section \<open>Categories and profiles\<close>

datatype app_category = Unknown | General | Terminal | Browser | Email | Office | CodeEditor | AiCoding

fun app_category_name :: "app_category \<Rightarrow> qstring" where
  "app_category_name General = ''general''"
| "app_category_name Terminal = ''terminal''"
| "app_category_name Browser = ''browser''"
| "app_category_name Email = ''email''"
| "app_category_name Office = ''office''"
| "app_category_name CodeEditor = ''code_editor''"
| "app_category_name AiCoding = ''ai_coding''"
| "app_category_name Unknown = ''unknown''"

definition app_category_from_name :: "qchars \<Rightarrow> qstring \<Rightarrow> app_category" where
  "app_category_from_name q name =
     (let normalized = lower q (trimmed q name) in
      if normalized = ''general'' then General
      else if normalized = ''terminal'' then Terminal
      else if normalized = ''browser'' then Browser
      else if normalized = ''email'' then Email
      else if normalized = ''office'' then Office
      else if normalized = ''code_editor'' then CodeEditor
      else if normalized = ''ai_coding'' then AiCoding
      else Unknown)"

definition wp_work :: qstring where "wp_work = ''work''"
definition wp_email :: qstring where "wp_email = ''email''"
definition wp_personal :: qstring where "wp_personal = ''personal''"
definition wp_ai_coding :: qstring where "wp_ai_coding = ''ai_coding''"
definition wp_other :: qstring where "wp_other = ''other''"

definition k_custom_id_prefix :: qstring where "k_custom_id_prefix = ''custom_''"

lemmas profile_ids = wp_work_def wp_email_def wp_personal_def wp_ai_coding_def wp_other_def

definition is_built_in_writing_profile :: "qstring \<Rightarrow> bool" where
  "is_built_in_writing_profile i \<longleftrightarrow>
     i = wp_work \<or> i = wp_email \<or> i = wp_personal \<or> i = wp_ai_coding \<or> i = wp_other"

definition writing_profile_from_name :: "qchars \<Rightarrow> qstring \<Rightarrow> qstring" where
  "writing_profile_from_name q name =
     (let normalized = lower q (trimmed q name) in
      if normalized = ''technical'' then wp_work
      else if is_built_in_writing_profile normalized \<or> starts_with normalized k_custom_id_prefix then normalized
      else wp_other)"

record writing_profile_override =
  wo_application_id :: qstring
  wo_profile :: qstring
  wo_enabled :: bool

record writing_profile_settings =
  wps_profile :: qstring
  wps_cleanup_strength :: qstring
  wps_tone :: qstring
  wps_instructions :: qstring
  wps_name :: qstring
  wps_output_language :: qstring
  wps_speech_provider :: qstring
  wps_speech_model :: qstring
  wps_refinement_provider :: qstring
  wps_refinement_model :: qstring

text \<open>A value with the defaults of the declaration.\<close>

definition profile_settings_of :: "qstring \<Rightarrow> writing_profile_settings" where
  "profile_settings_of i = \<lparr>wps_profile = i, wps_cleanup_strength = ''balanced'', wps_tone = ''none'',
     wps_instructions = [], wps_name = [], wps_output_language = [], wps_speech_provider = [],
     wps_speech_model = [], wps_refinement_provider = [], wps_refinement_model = []\<rparr>"

definition writing_profile_label :: "qstring \<Rightarrow> writing_profile_settings list \<Rightarrow> qstring" where
  "writing_profile_label i profiles =
     (if i = wp_work then ''Work''
      else if i = wp_email then ''Email''
      else if i = wp_personal then ''Personal''
      else if i = wp_ai_coding then ''AI coding''
      else if i = wp_other then ''Other''
      else case find (\<lambda>p. wps_profile p = i) profiles of Some p \<Rightarrow> wps_name p | None \<Rightarrow> [])"

definition offered_writing_profile :: "qstring \<Rightarrow> writing_profile_settings list \<Rightarrow> qstring \<Rightarrow> qstring" where
  "offered_writing_profile i profiles fallback =
     (if is_built_in_writing_profile i then i
      else if \<exists>p\<in>set profiles. wps_profile p = i then i else fallback)"

definition default_writing_profile_settings :: "writing_profile_settings list" where
  "default_writing_profile_settings =
     map profile_settings_of [wp_work, wp_email, wp_personal, wp_ai_coding, wp_other]"

definition writing_profile_settings_for ::
  "writing_profile_settings list \<Rightarrow> qstring \<Rightarrow> writing_profile_settings" where
  "writing_profile_settings_for settings i =
     (case find (\<lambda>p. wps_profile p = i) settings of
        Some p \<Rightarrow> p
      | None \<Rightarrow> (case find (\<lambda>p. wps_profile p = i) default_writing_profile_settings of
          Some p \<Rightarrow> p
        | None \<Rightarrow> profile_settings_of wp_other))"

definition refined_cleanup_level :: "qchars \<Rightarrow> qstring \<Rightarrow> qstring \<Rightarrow> qstring" where
  "refined_cleanup_level q level language =
     (if level = ''none'' \<and> \<not> blank q language then ''light_cleanup'' else level)"

record app_recognition_rule =
  rr_match :: qstring
  rr_category :: "app_category option"
  rr_writing_profile :: "qstring option"

definition recognition_rule :: "qstring \<Rightarrow> app_category option \<Rightarrow> qstring option \<Rightarrow> app_recognition_rule" where
  "recognition_rule m c w = \<lparr>rr_match = m, rr_category = c, rr_writing_profile = w\<rparr>"

section \<open>The target\<close>

record target =
  tg_application_id :: qstring
  tg_application_name :: qstring
  tg_process_name :: qstring
  tg_window_title :: qstring
  tg_document_url :: qstring
  tg_control_name :: qstring
  tg_role :: qstring
  tg_toolkit :: qstring
  tg_nearby_before :: qstring
  tg_nearby_after :: qstring
  tg_selected_text :: qstring
  tg_fingerprint :: qstring
  tg_process_id :: int
  tg_caret_offset :: int
  tg_selection_start :: int
  tg_selection_end :: int
  tg_category :: app_category
  tg_accessible :: bool
  tg_nearby_text_read :: bool
  tg_secure :: bool
  tg_editable :: bool
  tg_terminal_host :: bool
  tg_ai_coding_tool_active :: bool
  tg_compositor_active :: bool
  tg_compositor_window_id :: qstring

definition no_target :: target where
  "no_target = \<lparr>tg_application_id = [], tg_application_name = [], tg_process_name = [], tg_window_title = [],
     tg_document_url = [], tg_control_name = [], tg_role = [], tg_toolkit = [], tg_nearby_before = [],
     tg_nearby_after = [], tg_selected_text = [], tg_fingerprint = [], tg_process_id = 0, tg_caret_offset = -1,
     tg_selection_start = -1, tg_selection_end = -1, tg_category = Unknown, tg_accessible = False,
     tg_nearby_text_read = False, tg_secure = False, tg_editable = True, tg_terminal_host = False,
     tg_ai_coding_tool_active = False, tg_compositor_active = False, tg_compositor_window_id = []\<rparr>"

definition has_identity :: "target \<Rightarrow> bool" where
  "has_identity t \<longleftrightarrow> tg_application_id t \<noteq> [] \<or> tg_process_id t > 0 \<or> tg_application_name t \<noteq> []"

definition has_selection :: "target \<Rightarrow> bool" where
  "has_selection t \<longleftrightarrow> \<not> tg_secure t \<and> tg_editable t \<and> tg_selection_start t \<ge> 0
     \<and> tg_selection_end t > tg_selection_start t \<and> tg_selected_text t \<noteq> []"

definition nearby_text_chars :: nat where "nearby_text_chars = 240"

definition set_nearby_text :: "qchars \<Rightarrow> qstring \<Rightarrow> int \<Rightarrow> int \<Rightarrow> target \<Rightarrow> target" where
  "set_nearby_text q s start fin t =
     (let before = q_right (int nearby_text_chars) (q_left start s);
          after = q_mid fin nearby_text_chars s
      in t\<lparr>tg_nearby_text_read := True,
           tg_nearby_before := (case before of c # cs \<Rightarrow> if is_low_surrogate q c then cs else before | [] \<Rightarrow> []),
           tg_nearby_after := (if after \<noteq> [] \<and> is_high_surrogate q (last after) then butlast after else after)\<rparr>)"

section \<open>Recognising the app\<close>

definition built_in_app_recognition_rules :: "app_recognition_rule list" where
  "built_in_app_recognition_rules = [
    recognition_rule ''t3code'' (Some AiCoding) (Some wp_ai_coding),
    recognition_rule ''chatgpt'' (Some AiCoding) (Some wp_ai_coding),
    recognition_rule ''codex'' (Some AiCoding) (Some wp_ai_coding),
    recognition_rule ''cursor'' (Some AiCoding) (Some wp_ai_coding),
    recognition_rule ''windsurf'' (Some AiCoding) (Some wp_ai_coding),
    recognition_rule ''kiro'' (Some AiCoding) (Some wp_ai_coding),
    recognition_rule ''zed'' (Some AiCoding) (Some wp_ai_coding),
    recognition_rule ''opencode'' (Some AiCoding) (Some wp_ai_coding),
    recognition_rule ''aider'' (Some AiCoding) (Some wp_ai_coding),
    recognition_rule ''claude code'' (Some AiCoding) (Some wp_ai_coding),
    recognition_rule ''gemini cli'' (Some AiCoding) (Some wp_ai_coding),
    recognition_rule ''github copilot'' (Some AiCoding) (Some wp_ai_coding),
    recognition_rule ''replit agent'' (Some AiCoding) (Some wp_ai_coding),
    recognition_rule ''amazon q developer'' (Some AiCoding) (Some wp_ai_coding),
    recognition_rule ''qwen code'' (Some AiCoding) (Some wp_ai_coding),
    recognition_rule ''mistral vibe'' (Some AiCoding) (Some wp_ai_coding),
    recognition_rule ''goose'' (Some AiCoding) (Some wp_ai_coding),
    recognition_rule ''ampcode'' (Some AiCoding) (Some wp_ai_coding),
    recognition_rule ''augment code'' (Some AiCoding) (Some wp_ai_coding),
    recognition_rule ''sourcegraph cody'' (Some AiCoding) (Some wp_ai_coding),
    recognition_rule ''cline'' (Some AiCoding) (Some wp_ai_coding),
    recognition_rule ''roo code'' (Some AiCoding) (Some wp_ai_coding),
    recognition_rule ''kilo code'' (Some AiCoding) (Some wp_ai_coding),
    recognition_rule ''factory droid'' (Some AiCoding) (Some wp_ai_coding),
    recognition_rule ''auggie'' (Some AiCoding) (Some wp_ai_coding),
    recognition_rule ''kimi code'' (Some AiCoding) (Some wp_ai_coding),
    recognition_rule ''pearai'' (Some AiCoding) (Some wp_ai_coding),
    recognition_rule ''trae'' (Some AiCoding) (Some wp_ai_coding),
    recognition_rule ''google antigravity'' (Some AiCoding) (Some wp_ai_coding),
    recognition_rule ''tabnine'' (Some AiCoding) (Some wp_ai_coding),
    recognition_rule ''terminal'' (Some Terminal) (Some wp_work),
    recognition_rule ''konsole'' (Some Terminal) (Some wp_work),
    recognition_rule ''ghostty'' (Some Terminal) (Some wp_work),
    recognition_rule ''alacritty'' (Some Terminal) (Some wp_work),
    recognition_rule ''kitty'' (Some Terminal) (Some wp_work),
    recognition_rule ''wezterm'' (Some Terminal) (Some wp_work),
    recognition_rule ''foot'' (Some Terminal) (Some wp_work),
    recognition_rule ''rio'' (Some Terminal) (Some wp_work),
    recognition_rule ''xterm'' (Some Terminal) (Some wp_work),
    recognition_rule ''urxvt'' (Some Terminal) (Some wp_work),
    recognition_rule ''thunderbird'' (Some Email) (Some wp_email),
    recognition_rule ''kmail'' (Some Email) (Some wp_email),
    recognition_rule ''mail'' (Some Email) (Some wp_email),
    recognition_rule ''firefox'' (Some Browser) None,
    recognition_rule ''chrome'' (Some Browser) None,
    recognition_rule ''chromium'' (Some Browser) None,
    recognition_rule ''helium'' (Some Browser) None,
    recognition_rule ''browser'' (Some Browser) None,
    recognition_rule ''libreoffice'' (Some Office) (Some wp_work),
    recognition_rule ''soffice'' (Some Office) (Some wp_work),
    recognition_rule ''writer'' (Some Office) (Some wp_work),
    recognition_rule ''office'' (Some Office) (Some wp_work),
    recognition_rule ''kate'' (Some CodeEditor) (Some wp_work),
    recognition_rule ''code'' (Some CodeEditor) (Some wp_work),
    recognition_rule ''editor'' (Some CodeEditor) (Some wp_work),
    recognition_rule ''jetbrains'' (Some CodeEditor) (Some wp_work),
    recognition_rule ''signal'' None (Some wp_personal),
    recognition_rule ''discord'' None (Some wp_personal),
    recognition_rule ''telegram'' None (Some wp_personal),
    recognition_rule ''whatsapp'' None (Some wp_personal),
    recognition_rule ''messenger'' None (Some wp_personal),
    recognition_rule ''element'' None (Some wp_personal),
    recognition_rule ''slack'' None (Some wp_work),
    recognition_rule ''microsoft teams'' None (Some wp_work),
    recognition_rule ''linear'' None (Some wp_work),
    recognition_rule ''notion'' None (Some wp_work)]"

definition migrated_profile_overrides ::
  "app_recognition_rule list \<Rightarrow> writing_profile_override list \<Rightarrow> app_recognition_rule list" where
  "migrated_profile_overrides rules overrides =
     rules @ map (\<lambda>r. recognition_rule (wo_application_id r) None (Some (wo_profile r))) (filter wo_enabled overrides)"

text \<open>
  The regular expression of a built-in rule: its text, with no letter or digit
  right before or right after it.
\<close>

definition bounded_here :: "qchars \<Rightarrow> qstring \<Rightarrow> qstring \<Rightarrow> bool" where
  "bounded_here q m s \<longleftrightarrow> same_caseless q (take (length m) s) m
     \<and> (case drop (length m) s of [] \<Rightarrow> True | c # _ \<Rightarrow> \<not> is_letter_or_number q c)"

fun bounded_match :: "qchars \<Rightarrow> bool \<Rightarrow> qstring \<Rightarrow> qstring \<Rightarrow> bool" where
  "bounded_match q bound m [] \<longleftrightarrow> bound \<and> bounded_here q m []"
| "bounded_match q bound m (c # cs) \<longleftrightarrow>
     (bound \<and> bounded_here q m (c # cs)) \<or> bounded_match q (\<not> is_letter_or_number q c) m cs"

definition identity_parts :: "target \<Rightarrow> bool \<Rightarrow> qstring list" where
  "identity_parts t include_title =
     [tg_application_id t, tg_application_name t, tg_process_name t, tg_role t]
     @ (if include_title then [tg_window_title t] else [])"

definition rule_matches :: "qchars \<Rightarrow> app_recognition_rule \<Rightarrow> target \<Rightarrow> bool \<Rightarrow> bool \<Rightarrow> bool" where
  "rule_matches q r t include_title built_in =
     (let parts = identity_parts t include_title; ident = join '' '' parts; m = compact q (rr_match r) in
      if m = [] then False
      else if \<not> built_in then contains_caseless q ident (rr_match r) \<or> contains_text (compact q ident) m
      else \<exists>part\<in>set parts. bounded_match q True (rr_match r) part \<or> compact q part = m)"

definition is_terminal_target :: "qchars \<Rightarrow> target \<Rightarrow> bool" where
  "is_terminal_target q t \<longleftrightarrow>
     tg_terminal_host t \<or> tg_ai_coding_tool_active t \<or> tg_category t = Terminal
     \<or> contains_caseless q (tg_role t) ''terminal''
     \<or> (\<exists>r\<in>set built_in_app_recognition_rules. rr_category r = Some Terminal \<and> rule_matches q r t False True)"

text \<open>The first rule that matches and names what is looked for.\<close>

fun first_naming :: "(app_recognition_rule \<Rightarrow> 'a option) \<Rightarrow> (app_recognition_rule \<Rightarrow> bool) \<Rightarrow>
    app_recognition_rule list \<Rightarrow> 'a option" where
  "first_naming f m [] = None"
| "first_naming f m (r # rs) = (case f r of
     Some v \<Rightarrow> if m r then Some v else first_naming f m rs
   | None \<Rightarrow> first_naming f m rs)"

definition classify_target :: "qchars \<Rightarrow> target \<Rightarrow> app_recognition_rule list \<Rightarrow> app_category" where
  "classify_target q t custom =
     (case first_naming rr_category (\<lambda>r. rule_matches q r t False False) custom of
        Some c \<Rightarrow> c
      | None \<Rightarrow>
          if tg_ai_coding_tool_active t then AiCoding
          else case first_naming rr_category (\<lambda>r. rule_matches q r t False True) built_in_app_recognition_rules of
             Some c \<Rightarrow> c
           | None \<Rightarrow> if has_identity t then General else Unknown)"

section \<open>AI coding tools\<close>

definition ai_coding_commands :: "qstring set" where
  "ai_coding_commands = {''aider'', ''amp'', ''auggie'', ''claude'', ''cline'', ''codex'', ''copilot'', ''crush'', ''cursor-agent'', ''droid'', ''gemini'', ''goose'', ''kiro-cli'', ''kilocode'', ''kimi'', ''opencode'', ''openhands'', ''pi'', ''q'', ''qwen'', ''replit'', ''roo'', ''trae'', ''vibe'', ''windsurf''}"

definition executable_name :: "qchars \<Rightarrow> qstring \<Rightarrow> qstring" where
  "executable_name q path = lower q (trimmed q (rev (takeWhile (\<lambda>c. c \<noteq> CHR ''/'') (rev path))))"

definition executable_parts :: "qchars \<Rightarrow> qstring list \<Rightarrow> qstring list" where
  "executable_parts q arguments =
     concat (map (\<lambda>a. let s = trimmed q a in if s = [] then [] else [s, executable_name q s]) (take 2 arguments))"

definition is_ai_coding_process :: "qchars \<Rightarrow> qstring \<Rightarrow> qstring list \<Rightarrow> bool" where
  "is_ai_coding_process q process_name command_line =
     (if lower q process_name \<in> ai_coding_commands then True
      else case executable_parts q command_line of
        [] \<Rightarrow> False
      | part # parts \<Rightarrow>
          if executable_name q part \<in> ai_coding_commands then True
          else classify_target q (no_target\<lparr>tg_process_name := join '' '' (part # parts)\<rparr>) [] = AiCoding)"

definition terminal_title_names_ai_coding_tool :: "qchars \<Rightarrow> target \<Rightarrow> bool" where
  "terminal_title_names_ai_coding_tool q t \<longleftrightarrow>
     classify_target q (no_target\<lparr>tg_application_name := tg_window_title t\<rparr>) [] = AiCoding"

section \<open>The Writing Profile of an app\<close>

fun profile_of_category :: "app_category \<Rightarrow> qstring \<Rightarrow> qstring" where
  "profile_of_category Email fallback = wp_email"
| "profile_of_category AiCoding fallback = wp_ai_coding"
| "profile_of_category CodeEditor fallback = wp_work"
| "profile_of_category Terminal fallback = wp_work"
| "profile_of_category Office fallback = wp_work"
| "profile_of_category Unknown fallback = fallback"
| "profile_of_category General fallback = fallback"
| "profile_of_category Browser fallback = fallback"

definition infer_writing_profile :: "qchars \<Rightarrow> target \<Rightarrow> qstring \<Rightarrow> qstring" where
  "infer_writing_profile q t fallback =
     (if tg_category t = AiCoding then wp_ai_coding
      else case first_naming rr_writing_profile
          (\<lambda>r. rule_matches q r t (rr_category r \<noteq> Some AiCoding) True) built_in_app_recognition_rules of
        Some p \<Rightarrow> p
      | None \<Rightarrow> profile_of_category (tg_category t) fallback)"

definition override_applies :: "qchars \<Rightarrow> target \<Rightarrow> writing_profile_override \<Rightarrow> bool" where
  "override_applies q t r \<longleftrightarrow> wo_enabled r \<and> \<not> blank q (wo_application_id r)
     \<and> same_caseless q (wo_application_id r) (tg_application_id t)"

definition resolve_writing_profile ::
  "qchars \<Rightarrow> target \<Rightarrow> writing_profile_override list \<Rightarrow> app_recognition_rule list \<Rightarrow> qstring \<Rightarrow> qstring" where
  "resolve_writing_profile q t overrides rules fallback =
     (case find (override_applies q t) overrides of
        Some r \<Rightarrow> wo_profile r
      | None \<Rightarrow> (case first_naming rr_writing_profile (\<lambda>r. rule_matches q r t True False) rules of
          Some p \<Rightarrow> p
        | None \<Rightarrow> infer_writing_profile q t fallback))"


section \<open>Nearby text\<close>

text \<open>A text of whole characters: every high surrogate is followed by its low one.\<close>

fun whole_chars :: "qchars \<Rightarrow> qstring \<Rightarrow> bool" where
  "whole_chars q [] \<longleftrightarrow> True"
| "whole_chars q [c] \<longleftrightarrow> \<not> is_high_surrogate q c \<and> \<not> is_low_surrogate q c"
| "whole_chars q (c # d # cs) \<longleftrightarrow>
     (if is_high_surrogate q c then is_low_surrogate q d \<and> whole_chars q cs
      else \<not> is_low_surrogate q c \<and> whole_chars q (d # cs))"

definition surrogates_apart :: "qchars \<Rightarrow> bool" where
  "surrogates_apart q \<longleftrightarrow> (\<forall>c. \<not> (is_high_surrogate q c \<and> is_low_surrogate q c))"

lemma whole_chars_hd: "surrogates_apart q \<Longrightarrow> whole_chars q (c # cs) \<Longrightarrow> \<not> is_low_surrogate q c"
  by (cases cs) (auto simp: surrogates_apart_def split: if_splits)

lemma whole_chars_tl: "whole_chars q (c # cs) \<Longrightarrow> \<not> is_high_surrogate q c \<Longrightarrow> whole_chars q cs"
  by (cases cs) auto

definition drop_half :: "qchars \<Rightarrow> qstring \<Rightarrow> qstring" where
  "drop_half q s = (case s of c # cs \<Rightarrow> if is_low_surrogate q c then cs else s | [] \<Rightarrow> [])"

definition drop_last_half :: "qchars \<Rightarrow> qstring \<Rightarrow> qstring" where
  "drop_last_half q s = (if s \<noteq> [] \<and> is_high_surrogate q (last s) then butlast s else s)"

lemma drop_half_whole:
  "surrogates_apart q \<Longrightarrow> whole_chars q s \<Longrightarrow> whole_chars q (drop_half q (drop n s))"
proof (induction q s arbitrary: n rule: whole_chars.induct)
  case (2 q c)
  thus ?case by (cases n) (auto simp: drop_half_def)
next
  case (3 q c d cs)
  show ?case
  proof (cases n)
    case 0
    hence "drop_half q (drop n (c # d # cs)) = c # d # cs"
      using whole_chars_hd[OF 3(3,4)] by (simp add: drop_half_def)
    thus ?thesis using 3(4) by simp
  next
    case n: (Suc m)
    show ?thesis
    proof (cases "is_high_surrogate q c")
      case True
      hence d: "is_low_surrogate q d" "whole_chars q cs" using 3 by auto
      show ?thesis
        using 3(1)[OF True, of "m - 1"] d 3(3) n by (cases m) (auto simp: drop_half_def)
    next
      case False
      thus ?thesis using 3(2)[OF False, of m] 3(3,4) n by simp
    qed
  qed
qed (simp add: drop_half_def)

lemma drop_last_half_whole:
  "surrogates_apart q \<Longrightarrow> whole_chars q s \<Longrightarrow> whole_chars q (drop_last_half q (take n s))"
proof (induction q s arbitrary: n rule: whole_chars.induct)
  case (2 q c)
  thus ?case by (cases n) (auto simp: drop_last_half_def)
next
  case (3 q c d cs)
  show ?case
  proof (cases "is_high_surrogate q c")
    case True
    hence d: "is_low_surrogate q d" "whole_chars q cs" "\<not> is_high_surrogate q d"
      using 3 by (auto simp: surrogates_apart_def)
    have rest: "whole_chars q (drop_last_half q (take k cs))" for k using 3(1)[OF True] 3(3) d by blast
    have "n = 0 \<or> n = 1 \<or> (\<exists>k. n = k + 2)" by presburger
    then consider "n = 0" | "n = 1" | k where "n = k + 2" by blast
    thus ?thesis
    proof cases
      case 3
      hence "drop_last_half q (take n (c # d # cs)) = c # d # drop_last_half q (take k cs)"
        using d by (auto simp: drop_last_half_def)
      thus ?thesis using rest[of k] True d by simp
    qed (use True in \<open>auto simp: drop_last_half_def\<close>)
  next
    case False
    hence c: "\<not> is_low_surrogate q c" "whole_chars q (d # cs)" using 3 by auto
    show ?thesis
    proof (cases n)
      case n: (Suc m)
      have "drop_last_half q (take n (c # d # cs)) = c # drop_last_half q (take m (d # cs))"
        using n False by (cases m) (auto simp: drop_last_half_def)
      moreover have "whole_chars q (drop_last_half q (take m (d # cs)))" using 3(2)[OF False] 3(3) c by blast
      ultimately show ?thesis using c False by (cases "drop_last_half q (take m (d # cs))") auto
    qed (simp add: drop_last_half_def)
  qed
qed (simp add: drop_last_half_def)

lemma drop_half_size: "length (drop_half q s) \<le> length s \<and> length s \<le> length (drop_half q s) + 1"
  by (auto simp: drop_half_def split: list.splits)

lemma drop_half_suffix: "suffix (drop_half q s) s"
  by (auto simp: drop_half_def suffix_def split: list.splits)

lemma drop_last_half_size: "length (drop_last_half q s) \<le> length s \<and> length s \<le> length (drop_last_half q s) + 1"
  by (auto simp: drop_last_half_def)

lemma drop_last_half_prefix: "prefix (drop_last_half q s) s"
  by (simp add: drop_last_half_def prefixeq_butlast)

lemma nearby_before:
  "tg_nearby_before (set_nearby_text q s (int a) fin t) = drop_half q (drop (min a (length s) - nearby_text_chars) (take a s))"
proof -
  have "q_right (int nearby_text_chars) (q_left (int a) s) = drop (min a (length s) - nearby_text_chars) (take a s)"
    by (simp add: q_left_def q_right_def min.commute)
  thus ?thesis by (simp add: set_nearby_text_def drop_half_def Let_def)
qed

lemma nearby_after:
  "tg_nearby_after (set_nearby_text q s start (int b) t) = drop_last_half q (take nearby_text_chars (drop b s))"
  by (simp add: set_nearby_text_def drop_last_half_def q_mid_def Let_def)

text \<open>
  C38. The nearby text a capture records is the text right before the selection and
  right after it: at most 240 units each way and short of that by at most the
  half character a cut would leave, which is never kept.
\<close>

theorem nearby_text_is_what_is_near:
  fixes t :: target
  assumes q: "surrogates_apart q"
    and "whole_chars q (take a s)" "whole_chars q (drop b s)"
  defines "t' \<equiv> set_nearby_text q s (int a) (int b) t"
  shows "tg_nearby_text_read t'
    \<and> suffix (tg_nearby_before t') (take a s) \<and> prefix (tg_nearby_after t') (drop b s)
    \<and> whole_chars q (tg_nearby_before t') \<and> whole_chars q (tg_nearby_after t')
    \<and> length (tg_nearby_before t') \<in> {min nearby_text_chars (min a (length s)) - 1 .. nearby_text_chars}
    \<and> length (tg_nearby_after t') \<in> {min nearby_text_chars (length s - b) - 1 .. nearby_text_chars}"
proof -
  let ?b = "drop (min a (length s) - nearby_text_chars) (take a s)"
  let ?a = "take nearby_text_chars (drop b s)"
  have eq: "tg_nearby_before t' = drop_half q ?b" "tg_nearby_after t' = drop_last_half q ?a"
    unfolding t'_def by (rule nearby_before, rule nearby_after)
  have parts: "suffix (drop_half q ?b) (take a s)" "prefix (drop_last_half q ?a) (drop b s)" "tg_nearby_text_read t'"
    using drop_half_suffix[of q ?b] suffix_drop suffix_order.trans
      drop_last_half_prefix[of q ?a] take_is_prefix prefix_order.trans
    by (blast, blast, simp add: t'_def set_nearby_text_def Let_def)
  have len: "length ?b = min nearby_text_chars (min a (length s))" "length ?a = min nearby_text_chars (length s - b)"
    by auto
  have before: "length (drop_half q ?b) \<in> {min nearby_text_chars (min a (length s)) - 1 .. nearby_text_chars}"
    using drop_half_size[of q ?b] unfolding len by force
  have after: "length (drop_last_half q ?a) \<in> {min nearby_text_chars (length s - b) - 1 .. nearby_text_chars}"
    using drop_last_half_size[of q ?a] unfolding len by force
  show ?thesis
    unfolding eq using parts before after drop_half_whole[OF q assms(2)] drop_last_half_whole[OF q assms(3)] by blast
qed

text \<open>Units H and L as the halves of one character: the L before the caret goes.\<close>

theorem nearby_text_is_what_is_near_witness:
  fixes q :: qchars and s and n :: nat
  defines "n \<equiv> 239"
  defines "q \<equiv> ascii\<lparr>is_high_surrogate := \<lambda>c. c = CHR ''H'', is_low_surrogate := \<lambda>c. c = CHR ''L''\<rparr>"
  defines "s \<equiv> ''HL'' @ replicate n CHR ''a''"
  shows "whole_chars q (tg_nearby_before (set_nearby_text q s (int (n + 2)) (int (n + 2)) no_target))
    \<and> tg_nearby_before (set_nearby_text q s (int (n + 2)) (int (n + 2)) no_target) = replicate n CHR ''a''"
proof -
  have a: "\<not> is_high_surrogate q CHR ''a''" "\<not> is_low_surrogate q CHR ''a''" by (simp_all add: q_def)
  have plain: "whole_chars q (replicate k CHR ''a'')" for k
  proof (induction k rule: induct_nat_012)
    case (ge2 k)
    thus ?case using a by simp
  qed (use a in simp_all)
  have s: "take (n + 2) s = s" "drop (n + 2) s = []" by (simp_all add: s_def)
  have "whole_chars q s" using plain[of n] by (simp add: s_def q_def)
  moreover have "surrogates_apart q" by (auto simp: q_def surrogates_apart_def)
  moreover have "min (n + 2) (length s) - nearby_text_chars = 1" by (simp add: nearby_text_chars_def n_def s_def)
  hence "tg_nearby_before (set_nearby_text q s (int (n + 2)) (int (n + 2)) no_target) = replicate n CHR ''a''"
    unfolding nearby_before s by (simp add: s_def drop_half_def q_def)
  moreover have "whole_chars q (take (n + 2) s)" "whole_chars q (drop (n + 2) s)"
    using s calculation(1) by simp_all
  ultimately show ?thesis
    using nearby_text_is_what_is_near[of q "n + 2" s "n + 2" no_target] by metis
qed

section \<open>Overrides become rules\<close>

lemma first_naming_append:
  "first_naming f m (rs @ rs') = (case first_naming f m rs of Some v \<Rightarrow> Some v | None \<Rightarrow> first_naming f m rs')"
  by (induction rs) (auto split: option.splits)

lemma first_naming_not:
  "(\<And>r. r \<in> set rs \<Longrightarrow> f r \<noteq> None \<Longrightarrow> \<not> m r) \<Longrightarrow> first_naming f m rs = None"
  by (induction rs) (auto split: option.splits)

text \<open>An override of the app matches it as a rule too: the app's id is part of what a rule looks in.\<close>

lemma override_matches_as_rule:
  assumes "same_caseless q a (tg_application_id t)" "compact q a \<noteq> []"
  shows "rule_matches q (recognition_rule a c w) t True False"
proof -
  obtain rest where "join '' '' (identity_parts t True) = tg_application_id t @ rest"
    by (simp add: identity_parts_def)
  hence "folded q (join '' '' (identity_parts t True)) = [] @ folded q a @ folded q rest"
    using assms(1) by (simp add: same_caseless_def folded_def)
  hence "contains_caseless q (join '' '' (identity_parts t True)) a"
    unfolding contains_caseless_def contains_text_sublist by blast
  thus ?thesis using assms(2) by (simp add: rule_matches_def recognition_rule_def Let_def)
qed

text \<open>
  Folding the per-app overrides into the recognition rules keeps the Writing
  Profile of an app that no recognition rule names, as long as each override
  that matches it as a rule is an override of that very app.
\<close>

theorem migrated_overrides_keep_the_profile:
  assumes rules: "\<And>r. r \<in> set rules \<Longrightarrow> rr_writing_profile r \<noteq> None \<Longrightarrow> \<not> rule_matches q r t True False"
    and named: "\<And>r. r \<in> set overrides \<Longrightarrow> wo_enabled r \<Longrightarrow>
      \<not> blank q (wo_application_id r) \<and> compact q (wo_application_id r) \<noteq> []"
    and own: "\<And>r. r \<in> set overrides \<Longrightarrow> wo_enabled r \<Longrightarrow>
      rule_matches q (recognition_rule (wo_application_id r) None (Some (wo_profile r))) t True False \<Longrightarrow>
      same_caseless q (wo_application_id r) (tg_application_id t)"
  shows "resolve_writing_profile q t [] (migrated_profile_overrides rules overrides) fallback
    = resolve_writing_profile q t overrides rules fallback"
proof -
  let ?m = "\<lambda>r. rule_matches q r t True False"
  let ?rule = "\<lambda>r. recognition_rule (wo_application_id r) None (Some (wo_profile r))"
  have none: "first_naming rr_writing_profile ?m rules = None" using rules by (rule first_naming_not)
  have "first_naming rr_writing_profile ?m (map ?rule (filter wo_enabled rs))
      = map_option wo_profile (find (override_applies q t) rs)" if "set rs \<subseteq> set overrides" for rs
    using that
  proof (induction rs)
    case (Cons r rs)
    hence r: "r \<in> set overrides" by simp
    have "?m (?rule r) \<longleftrightarrow> override_applies q t r" if "wo_enabled r"
      using override_matches_as_rule own[OF r that] named[OF r that] that
      unfolding override_applies_def by blast
    thus ?case using Cons by (auto simp: recognition_rule_def override_applies_def split: option.splits)
  qed simp
  from this[OF order.refl] none show ?thesis
    by (auto simp: resolve_writing_profile_def migrated_profile_overrides_def first_naming_append split: option.splits)
qed

theorem migrated_overrides_keep_the_profile_witness:
  fixes overrides t
  defines "overrides \<equiv> [\<lparr>wo_application_id = ''Kate'', wo_profile = wp_personal, wo_enabled = True\<rparr>]"
  defines "t \<equiv> no_target\<lparr>tg_application_id := ''kate'', tg_category := CodeEditor\<rparr>"
  shows "resolve_writing_profile ascii t [] (migrated_profile_overrides [] overrides) wp_other = wp_personal"
proof -
  have same: "same_caseless ascii ''Kate'' ''kate''"
    by (simp add: same_caseless_def folded_def ascii_lower_char_def Let_def char_of_eq_iff)
  have "blank ascii ''Kate'' = False" "compact ascii ''Kate'' \<noteq> []"
    by (simp_all add: blank_iff ascii_space_def compact_def ascii_alnum_def)
  moreover from this same have "override_applies ascii t (hd overrides)"
    by (simp add: override_applies_def overrides_def t_def)
  hence "resolve_writing_profile ascii t overrides [] wp_other = wp_personal"
    by (simp add: resolve_writing_profile_def overrides_def)
  ultimately show ?thesis
    using migrated_overrides_keep_the_profile[of "[]" ascii t overrides wp_other] same
    by (simp add: overrides_def t_def)
qed

end
