(* ===== verification/Learned_Corrections.thy ===== *)
theory Learned_Corrections
  imports QtText
begin

text \<open>
  core/LearnedCorrection.cpp: what the edit of an inserted text teaches
  (\<^term>\<open>analyze_correction\<close>): the part that was replaced, when it reads as one
  misheard phrase and as nothing secret. A confidence is a fraction.
\<close>

record learned_correction =
  lc_id :: qstring
  lc_original :: qstring
  lc_corrected :: qstring
  lc_application_id :: qstring
  lc_created_at_ms :: int
  lc_confidence :: rat
  lc_enabled :: bool
  lc_evidence_count :: int
  lc_last_observed_at_ms :: int

record correction_evidence =
  ce_original :: qstring
  ce_corrected :: qstring
  ce_confidence :: rat

definition comparable_text :: "qchars \<Rightarrow> qstring \<Rightarrow> qstring" where
  "comparable_text q s = compact q s"

definition comparable_case_spacing_and_hyphens :: "qchars \<Rightarrow> qstring \<Rightarrow> qstring" where
  "comparable_case_spacing_and_hyphens q s = folded q (filter (\<lambda>c. \<not> is_space q c \<and> c \<noteq> CHR ''-'') s)"

definition text_words :: "qchars \<Rightarrow> qstring \<Rightarrow> qstring list" where
  "text_words q s = map (case_folded q) (words_of (\<lambda>c. \<not> is_letter_or_number q c) s)"

section \<open>What looks secret\<close>

text \<open>
  The regular expressions, without Unicode properties and case-insensitive: the
  classes are ASCII's. \<^term>\<open>at_boundary\<close> is \<open>\b\<close>, between two positions of which
  exactly one holds a word character.
\<close>

definition letter_char :: "char \<Rightarrow> bool" where
  "letter_char c \<longleftrightarrow> ascii_alnum c \<and> \<not> digit_char c"

definition char_at :: "(char \<Rightarrow> bool) \<Rightarrow> qstring \<Rightarrow> nat \<Rightarrow> bool" where
  "char_at P s i \<longleftrightarrow> i < length s \<and> P (s ! i)"

definition at_boundary :: "qstring \<Rightarrow> nat \<Rightarrow> bool" where
  "at_boundary s i \<longleftrightarrow> (0 < i \<and> char_at word_char s (i - 1)) \<noteq> char_at word_char s i"

definition caseless_here :: "qstring \<Rightarrow> qstring \<Rightarrow> bool" where
  "caseless_here word s \<longleftrightarrow> map ascii_lower_char (take (length word) s) = word"

definition url_here :: "qstring \<Rightarrow> bool" where
  "url_here s \<longleftrightarrow> caseless_here ''http://'' s \<or> caseless_here ''https://'' s"

definition mail_char :: "char \<Rightarrow> bool" where
  "mail_char c \<longleftrightarrow> word_char c \<or> c = CHR ''.'' \<or> c = CHR ''-''"

definition address_at :: "qstring \<Rightarrow> nat \<Rightarrow> bool" where
  "address_at s i \<longleftrightarrow> char_at (\<lambda>c. c = CHR ''@'') s i
     \<and> 0 < i \<and> char_at (\<lambda>c. mail_char c \<or> c = CHR ''+'') s (i - 1)
     \<and> (let host = takeWhile mail_char (drop (Suc i) s) in
         list_ex (\<lambda>j. host ! j = CHR ''.'' \<and> char_at letter_char host (j + 1) \<and> char_at letter_char host (j + 2))
           [1..<length host])"

definition labelled_here :: "qstring \<Rightarrow> bool" where
  "labelled_here s \<longleftrightarrow> list_ex (\<lambda>word. caseless_here word s
       \<and> (case dropWhile ascii_space (drop (length word) s) of
            c # _ \<Rightarrow> c = CHR '':'' \<or> c = CHR ''='' | [] \<Rightarrow> False))
     [''password'', ''secret'', ''token'', ''apikey'', ''api key'', ''api_key'', ''api-key'']"

definition number_at :: "qstring \<Rightarrow> nat \<Rightarrow> bool" where
  "number_at s i \<longleftrightarrow> at_boundary s i
     \<and> (let n = length (takeWhile digit_char (drop i s)) in 12 \<le> n \<and> n \<le> 19 \<and> at_boundary s (i + n))"

definition key_char :: "char \<Rightarrow> bool" where
  "key_char c \<longleftrightarrow> word_char c \<or> c = CHR ''/'' \<or> c = CHR ''-''"

definition key_at :: "qstring \<Rightarrow> nat \<Rightarrow> bool" where
  "key_at s i \<longleftrightarrow> at_boundary s i
     \<and> (let n = length (takeWhile key_char (drop i s)) in
         list_ex (\<lambda>k. list_ex (\<lambda>e. take e (drop (i + k) s) = replicate e CHR ''='' \<and> at_boundary s (i + k + e))
           [0, 1, 2]) [20..<Suc n])"

definition card_at :: "qstring \<Rightarrow> nat \<Rightarrow> bool" where
  "card_at s i \<longleftrightarrow> \<not> (0 < i \<and> char_at digit_char s (i - 1))
     \<and> (let n = length (takeWhile digit_char (drop i s)) in 12 \<le> n \<and> n \<le> 19)"

definition looks_secret :: "qstring \<Rightarrow> bool" where
  "looks_secret s \<longleftrightarrow>
     list_ex (\<lambda>i. url_here (drop i s) \<or> address_at s i \<or> labelled_here (drop i s) \<or> number_at s i \<or> key_at s i)
       [0..<Suc (length s)]
     \<or> (let joined = filter (\<lambda>c. \<not> ascii_space c \<and> c \<noteq> CHR ''-'') s in
        list_ex (card_at joined) [0..<Suc (length joined)])"

section \<open>Comparing the two texts\<close>

text \<open>The index only advances, so it is the part of the shorter text still to be found.\<close>

fun is_subsequence :: "qstring \<Rightarrow> qstring \<Rightarrow> bool" where
  "is_subsequence shorter [] \<longleftrightarrow> shorter = []"
| "is_subsequence [] (c # cs) \<longleftrightarrow> is_subsequence [] cs"
| "is_subsequence (x # xs) (c # cs) \<longleftrightarrow> is_subsequence (if x = c then xs else x # xs) cs"

text \<open>One row of the table from the row above it, from the cell to the left and the rest of the row above.\<close>

fun distance_cells :: "qchars \<Rightarrow> char \<Rightarrow> nat \<Rightarrow> nat list \<Rightarrow> qstring \<Rightarrow> nat list" where
  "distance_cells q l left (diagonal # over # previous) (r # rs) =
     (let cell = min (min (over + 1) (left + 1)) (diagonal + (if fold_char q l = fold_char q r then 0 else 1))
      in cell # distance_cells q l cell (over # previous) rs)"
| "distance_cells q l left _ _ = []"

definition distance_row :: "qchars \<Rightarrow> nat \<Rightarrow> char \<Rightarrow> nat list \<Rightarrow> qstring \<Rightarrow> nat list" where
  "distance_row q i l previous right = i # distance_cells q l i previous right"

fun distance_rows :: "qchars \<Rightarrow> nat \<Rightarrow> qstring \<Rightarrow> nat list \<Rightarrow> qstring \<Rightarrow> nat list" where
  "distance_rows q i [] previous right = previous"
| "distance_rows q i (l # ls) previous right = distance_rows q (i + 1) ls (distance_row q i l previous right) right"

definition edit_distance :: "qchars \<Rightarrow> qstring \<Rightarrow> qstring \<Rightarrow> nat" where
  "edit_distance q left right = last (distance_rows q 1 left [0..<Suc (length right)] right)"

fun common_prefix :: "qstring \<Rightarrow> qstring \<Rightarrow> nat" where
  "common_prefix (x # xs) (y # ys) = (if x = y then Suc (common_prefix xs ys) else 0)"
| "common_prefix _ _ = 0"

text \<open>Where the replaced part starts and, in each text, ends: widened to whole words.\<close>

definition change_start :: "qchars \<Rightarrow> qstring \<Rightarrow> qstring \<Rightarrow> nat" where
  "change_start q inserted edited =
     (let n = common_prefix inserted edited
      in n - length (takeWhile (is_letter_or_number q) (rev (take n inserted))))"

definition change_suffix :: "qchars \<Rightarrow> qstring \<Rightarrow> qstring \<Rightarrow> nat" where
  "change_suffix q inserted edited =
     (let n = common_prefix inserted edited;
          tail = common_prefix (rev (drop n inserted)) (rev (drop n edited));
          ahead = zip (drop (length inserted - tail) inserted) (drop (length edited - tail) edited)
      in tail - length (takeWhile (\<lambda>(c, d). is_letter_or_number q c \<and> is_letter_or_number q d) ahead))"

definition changed_part :: "nat \<Rightarrow> nat \<Rightarrow> qstring \<Rightarrow> qstring" where
  "changed_part start tail s = take (length s - tail - start) (drop start s)"

text \<open>The last checks, for two parts that differ in more than case, spacing and hyphens.\<close>

definition reads_as_mishearing :: "qchars \<Rightarrow> qstring \<Rightarrow> qstring \<Rightarrow> bool" where
  "reads_as_mishearing q original corrected =
     (let co = comparable_text q original; cc = comparable_text q corrected;
          ows = text_words q original; cws = text_words q corrected;
          longest = max (length co) (length cc); shortest = min (length co) (length cc)
      in \<not> ((length co < length cc \<and> is_subsequence co cc) \<or> (length cc < length co \<and> is_subsequence cc co))
       \<and> \<not> (length ows > 3 \<or> length cws > 3)
       \<and> \<not> (\<exists>w\<in>set ows. length w > 1 \<and> w \<in> set cws)
       \<and> \<not> (length ows = length cws \<and> length ows > 1
            \<and> length (filter (\<lambda>(a, b). a \<noteq> b) (zip ows cws)) > 1)
       \<and> \<not> (shortest * 3 < longest \<or> edit_distance q co cc > max 3 ((longest + 1) div 2)))"

definition analyze_correction :: "qchars \<Rightarrow> qstring \<Rightarrow> qstring \<Rightarrow> correction_evidence option" where
  "analyze_correction q inserted edited =
     (if inserted = edited \<or> inserted = [] \<or> edited = [] \<or> looks_secret inserted \<or> looks_secret edited then None
      else
        let start = change_start q inserted edited; tail = change_suffix q inserted edited;
            original = trimmed q (changed_part start tail inserted);
            corrected = trimmed q (changed_part start tail edited)
        in if original = [] \<or> corrected = [] \<or> original = corrected
              \<or> length original > 64 \<or> length corrected > 64
              \<or> looks_secret original \<or> looks_secret corrected then None
           else if comparable_text q original = [] \<or> comparable_text q corrected = [] then None
           else if comparable_text q original = comparable_text q corrected
             then if comparable_case_spacing_and_hyphens q original \<noteq> comparable_case_spacing_and_hyphens q corrected
                  then None
                  else Some \<lparr>ce_original = original, ce_corrected = corrected, ce_confidence = 98 / 100\<rparr>
           else if \<not> reads_as_mishearing q original corrected then None
           else Some \<lparr>ce_original = original, ce_corrected = corrected, ce_confidence = 75 / 100\<rparr>)"

section \<open>The distance is the least number of edits\<close>

text \<open>How one text becomes the other character by character, and how many edits that takes.\<close>

inductive aligned :: "qchars \<Rightarrow> qstring \<Rightarrow> qstring \<Rightarrow> nat \<Rightarrow> bool" for q where
  aligned_empty: "aligned q [] [] 0"
| aligned_remove: "aligned q xs ys n \<Longrightarrow> aligned q (x # xs) ys (Suc n)"
| aligned_insert: "aligned q xs ys n \<Longrightarrow> aligned q xs (y # ys) (Suc n)"
| aligned_keep: "aligned q xs ys n \<Longrightarrow> fold_char q x = fold_char q y \<Longrightarrow> aligned q (x # xs) (y # ys) n"
| aligned_replace: "aligned q xs ys n \<Longrightarrow> aligned q (x # xs) (y # ys) (Suc n)"

fun least_edits :: "qchars \<Rightarrow> qstring \<Rightarrow> qstring \<Rightarrow> nat" where
  "least_edits q [] ys = length ys"
| "least_edits q (x # xs) [] = Suc (length xs)"
| "least_edits q (x # xs) (y # ys) =
     min (min (least_edits q xs (y # ys) + 1) (least_edits q (x # xs) ys + 1))
       (least_edits q xs ys + (if fold_char q x = fold_char q y then 0 else 1))"

lemma least_edits_Nil [simp]: "least_edits q xs [] = length xs"
  by (cases xs) auto

lemma aligned_append: "aligned q a b m \<Longrightarrow> aligned q c d n \<Longrightarrow> aligned q (a @ c) (b @ d) (m + n)"
  by (induction rule: aligned.induct) (auto intro: aligned.intros)

lemma aligned_rev: "aligned q a b n \<Longrightarrow> aligned q (rev a) (rev b) n"
proof (induction rule: aligned.induct)
  case (aligned_remove xs ys n x)
  thus ?case using aligned_append[of q "rev xs" "rev ys" n "[x]" "[]" 1] aligned.intros(1)[of q]
    aligned.intros(2)[of q "[]" "[]" 0 x] by simp
next
  case (aligned_insert xs ys n y)
  thus ?case using aligned_append[of q "rev xs" "rev ys" n "[]" "[y]" 1] aligned.intros(1)[of q]
    aligned.intros(3)[of q "[]" "[]" 0 y] by simp
next
  case (aligned_keep xs ys n x y)
  thus ?case using aligned_append[of q "rev xs" "rev ys" n "[x]" "[y]" 0] aligned.intros(1)[of q]
    aligned.intros(4)[of q "[]" "[]" 0 x y] by simp
next
  case (aligned_replace xs ys n x y)
  thus ?case using aligned_append[of q "rev xs" "rev ys" n "[x]" "[y]" 1] aligned.intros(1)[of q]
    aligned.intros(5)[of q "[]" "[]" 0 x y] by simp
qed (simp add: aligned_empty)

lemma aligned_only_left: "aligned q xs [] (length xs)"
  by (induction xs) (auto intro: aligned.intros)

lemma aligned_only_right: "aligned q [] ys (length ys)"
  by (induction ys) (auto intro: aligned.intros)

lemma aligned_least: "aligned q xs ys (least_edits q xs ys)"
proof (induction q xs ys rule: least_edits.induct)
  case (3 q x xs y ys)
  have "least_edits q (x # xs) (y # ys) \<in> {least_edits q xs (y # ys) + 1, least_edits q (x # xs) ys + 1,
      least_edits q xs ys + (if fold_char q x = fold_char q y then 0 else 1)}"
    by (simp add: min_def)
  moreover have "aligned q (x # xs) (y # ys) (least_edits q xs ys + (if fold_char q x = fold_char q y then 0 else 1))"
    using 3(3) by (auto intro: aligned.intros)
  ultimately show ?case using aligned.intros(2)[OF 3(1)] aligned.intros(3)[OF 3(2)] by auto
qed (use aligned_only_left[of _ "_ # _"] in \<open>auto simp: aligned_only_right\<close>)

lemma least_edits_Cons_left: "least_edits q (x # xs) ys \<le> least_edits q xs ys + 1"
  by (cases ys) auto

lemma least_edits_Cons_right: "least_edits q xs (y # ys) \<le> least_edits q xs ys + 1"
  by (cases xs) auto

lemma least_edits_least: "aligned q xs ys n \<Longrightarrow> least_edits q xs ys \<le> n"
proof (induction rule: aligned.induct)
  case (aligned_remove xs ys n x)
  thus ?case using least_edits_Cons_left[of q x xs ys] by linarith
next
  case (aligned_insert xs ys n y)
  thus ?case using least_edits_Cons_right[of q xs y ys] by linarith
qed auto

lemma least_edits_rev: "least_edits q (rev xs) (rev ys) = least_edits q xs ys"
proof (rule antisym)
  show "least_edits q (rev xs) (rev ys) \<le> least_edits q xs ys"
    by (rule least_edits_least[OF aligned_rev[OF aligned_least]])
  show "least_edits q xs ys \<le> least_edits q (rev xs) (rev ys)"
    using least_edits_least[OF aligned_rev[OF aligned_least[of q "rev xs" "rev ys"]]] by simp
qed

text \<open>The cells of a row are the least edits between the parts read so far.\<close>

lemma distance_cells_least:
  "previous = map (\<lambda>k. least_edits q xs (rev (d @ take k rs))) [0..<Suc (length rs)] \<Longrightarrow>
   left = least_edits q (l # xs) (rev d) \<Longrightarrow>
   distance_cells q l left previous rs = map (\<lambda>k. least_edits q (l # xs) (rev (d @ take k rs))) [1..<Suc (length rs)]"
proof (induction rs arbitrary: d left previous)
  case (Cons r rs)
  let ?rest = "map (\<lambda>k. least_edits q xs (rev ((d @ [r]) @ take k rs))) [0..<Suc (length rs)]"
  have up: "[0..<Suc (length (r # rs))] = 0 # map Suc [0..<Suc (length rs)]"
    "[1..<Suc (length (r # rs))] = Suc 0 # map Suc [1..<Suc (length rs)]"
    by (simp_all add: map_Suc_upt upt_conv_Cons del: upt_Suc)
  have prev: "previous = least_edits q xs (rev d) # ?rest"
    unfolding Cons.prems(1) up by simp
  moreover have rest: "?rest = least_edits q xs (r # rev d) # tl ?rest"
    by (simp add: upt_conv_Cons del: upt_Suc)
  ultimately have "distance_cells q l left previous (r # rs) =
      least_edits q (l # xs) (r # rev d) # distance_cells q l (least_edits q (l # xs) (r # rev d)) ?rest rs"
    using Cons.prems(2) by (metis distance_cells.simps(1) least_edits.simps(3))
  moreover have "distance_cells q l (least_edits q (l # xs) (r # rev d)) ?rest rs =
      map (\<lambda>k. least_edits q (l # xs) (rev ((d @ [r]) @ take k rs))) [1..<Suc (length rs)]"
    by (rule Cons.IH) simp_all
  ultimately show ?case unfolding up by simp
qed simp

lemma distance_row_least:
  assumes "previous = map (\<lambda>k. least_edits q xs (rev (take k right))) [0..<Suc (length right)]" "i = Suc (length xs)"
  shows "distance_row q i l previous right = map (\<lambda>k. least_edits q (l # xs) (rev (take k right))) [0..<Suc (length right)]"
  using distance_cells_least[of previous q xs "[]" right i l] assms
  by (simp add: distance_row_def upt_conv_Cons del: upt_Suc)

lemma distance_rows_least:
  "previous = map (\<lambda>k. least_edits q xs (rev (take k right))) [0..<Suc (length right)] \<Longrightarrow> i = Suc (length xs) \<Longrightarrow>
   distance_rows q i left previous right =
     map (\<lambda>k. least_edits q (rev left @ xs) (rev (take k right))) [0..<Suc (length right)]"
proof (induction left arbitrary: previous xs i)
  case (Cons l left)
  show ?case using Cons.IH[OF distance_row_least[OF Cons.prems, of l]] Cons.prems(2) by simp
qed simp

lemma edit_distance_least: "edit_distance q left right = least_edits q left right"
proof -
  have "[0..<Suc (length right)] = map (\<lambda>k. least_edits q [] (rev (take k right))) [0..<Suc (length right)]"
    by (rule nth_equalityI) (simp_all del: upt_Suc)
  hence "distance_rows q 1 left [0..<Suc (length right)] right =
      map (\<lambda>k. least_edits q (rev left) (rev (take k right))) [0..<Suc (length right)]"
    using distance_rows_least[of _ q "[]" right 1 left] by simp
  thus ?thesis by (simp add: edit_distance_def least_edits_rev)
qed

text \<open>
  C36. The distance computed with two rows of the table is the least number of
  characters to remove, insert or replace to turn one text into the other.
\<close>

theorem edit_distance_is_least:
  "aligned q left right (edit_distance q left right)
   \<and> \<not> (\<exists>n. n < edit_distance q left right \<and> aligned q left right n)"
  using aligned_least least_edits_least by (fastforce simp: edit_distance_least)

lemma is_subsequence_subseq: "is_subsequence s l \<longleftrightarrow> subseq s l"
  by (induction s l rule: is_subsequence.induct) (auto simp: subseq_Cons2_iff)

section \<open>What a correction says\<close>

lemma common_prefix_take: "take (common_prefix a b) a = take (common_prefix a b) b"
  by (induction a b rule: common_prefix.induct) auto

lemma common_prefix_le: "common_prefix a b \<le> length a" "common_prefix a b \<le> length b"
  by (induction a b rule: common_prefix.induct) auto

lemma common_suffix:
  "k \<le> common_prefix (rev a) (rev b) \<Longrightarrow> drop (length a - k) a = drop (length b - k) b"
proof -
  assume "k \<le> common_prefix (rev a) (rev b)"
  hence "take k (rev a) = take k (rev b)"
    by (metis common_prefix_take min.absorb1 take_take)
  thus ?thesis by (metis rev_take rev_rev_ident take_rev)
qed

lemma parts_of_change:
  fixes q inserted edited
  defines "a \<equiv> change_start q inserted edited" and "k \<equiv> change_suffix q inserted edited"
  shows "take a inserted = take a edited" "a + k \<le> length inserted" "a + k \<le> length edited"
    "drop (length inserted - k) inserted = drop (length edited - k) edited"
    "take a inserted = [] \<or> \<not> is_letter_or_number q (last (take a inserted))"
proof -
  let ?n = "common_prefix inserted edited"
  let ?k = "common_prefix (rev (drop ?n inserted)) (rev (drop ?n edited))"
  have an: "a \<le> ?n" by (simp add: a_def change_start_def Let_def)
  have kk: "k \<le> ?k" by (simp add: k_def change_suffix_def Let_def)
  have k: "?k \<le> length inserted - ?n" "?k \<le> length edited - ?n"
    using common_prefix_le[of "rev (drop ?n inserted)" "rev (drop ?n edited)"] by simp_all
  show "take a inserted = take a edited"
    using common_prefix_take[of inserted edited] an by (metis min.absorb1 take_take)
  show "a + k \<le> length inserted" "a + k \<le> length edited"
    using an kk k common_prefix_le[of inserted edited] by linarith+
  have "drop (length (drop ?n s) - k) (drop ?n s) = drop (length s - k) s" if "k \<le> length s - ?n" "?n \<le> length s" for s :: qstring
  proof -
    have "?n + (length s - (?n + k)) = length s - k" using that by linarith
    thus ?thesis using that by (simp add: add.commute)
  qed
  from this[of inserted] this[of edited] common_suffix[OF kk] kk k common_prefix_le[of inserted edited]
  show "drop (length inserted - k) inserted = drop (length edited - k) edited" by simp
  have "take a inserted = rev (dropWhile (is_letter_or_number q) (rev (take ?n inserted)))"
    using common_prefix_le(1)[of inserted edited]
    by (simp add: a_def change_start_def Let_def dropWhile_eq_drop rev_drop min_def)
  thus "take a inserted = [] \<or> \<not> is_letter_or_number q (last (take a inserted))"
    using hd_dropWhile[of "is_letter_or_number q" "rev (take ?n inserted)"]
    by (metis last_rev rev_is_Nil_conv)
qed

text \<open>
  C37. What is learned from an edit is one replacement in the inserted text: putting
  the corrected part in the original's place gives the edited text. The original
  starts at the start of a word, the two parts differ, are at most 64 units long, and nothing
  learned or learned from looks secret.
\<close>

theorem correction_is_one_replacement:
  assumes "analyze_correction q inserted edited = Some ev"
  shows "(\<exists>before w w' after. inserted = before @ w @ after \<and> edited = before @ w' @ after
      \<and> trimmed q w = ce_original ev \<and> trimmed q w' = ce_corrected ev
      \<and> (before = [] \<or> \<not> is_letter_or_number q (last before)))
    \<and> ce_original ev \<noteq> ce_corrected ev \<and> ce_original ev \<noteq> [] \<and> ce_corrected ev \<noteq> []
    \<and> length (ce_original ev) \<le> 64 \<and> length (ce_corrected ev) \<le> 64
    \<and> \<not> looks_secret inserted \<and> \<not> looks_secret edited
    \<and> \<not> looks_secret (ce_original ev) \<and> \<not> looks_secret (ce_corrected ev)"
proof -
  let ?a = "change_start q inserted edited" and ?k = "change_suffix q inserted edited"
  have cut: "s = take ?a s @ changed_part ?a ?k s @ drop (length s - ?k) s" if "?a + ?k \<le> length s" for s
    using that append_take_drop_id[of ?a s] append_take_drop_id[of "length s - ?k - ?a" "drop ?a s"]
    by (simp add: changed_part_def add.commute)
  note parts = parts_of_change[where q = q and inserted = inserted and edited = edited]
  have "\<exists>before w w' after. inserted = before @ w @ after \<and> edited = before @ w' @ after
      \<and> w = changed_part ?a ?k inserted \<and> w' = changed_part ?a ?k edited
      \<and> (before = [] \<or> \<not> is_letter_or_number q (last before))"
    using cut[OF parts(2)] cut[OF parts(3)] parts(1,4,5) by metis
  moreover have "ce_original ev = trimmed q (changed_part ?a ?k inserted)"
    "ce_corrected ev = trimmed q (changed_part ?a ?k edited)"
    using assms by (auto simp: analyze_correction_def Let_def split: if_splits)
  ultimately show ?thesis
    using assms by (auto simp: analyze_correction_def Let_def split: if_splits)
qed

theorem correction_is_one_replacement_witness:
  "\<exists>ev. analyze_correction ascii ''use cube now'' ''use kube now'' = Some ev \<and> ce_corrected ev = ''kube''
    \<and> (\<exists>before w w' after. ''use cube now'' = before @ w @ after \<and> ''use kube now'' = before @ w' @ after
      \<and> trimmed ascii w = ce_original ev \<and> trimmed ascii w' = ce_corrected ev)"
proof -
  have "analyze_correction ascii ''use cube now'' ''use kube now'' =
      Some \<lparr>ce_original = ''cube'', ce_corrected = ''kube'', ce_confidence = 75 / 100\<rparr>"
    by code_simp
  thus ?thesis using correction_is_one_replacement[of ascii "''use cube now''" "''use kube now''"] by fastforce
qed

end
