(* ===== verification/Vocabulary.thy ===== *)
theory Vocabulary
  imports Vocabulary_Limit Targets Learned_Corrections "HOL-Library.List_Lexorder" "HOL-Library.Product_Lexorder"
begin

text \<open>
  core/Vocabulary.cpp: the terms a person wants spelled right. The list is kept
  normalised (\<^term>\<open>normalize_vocabulary\<close>), imported from CSV and text files, and
  sent to the speech service within its caps (\<^term>\<open>speech_vocabulary\<close>). UTF-8, the
  decoding of files and QTextBoundaryFinder are parameters.
\<close>

record vocabulary_entry =
  ve_term :: qstring
  ve_source :: qstring
  ve_starred :: bool
  ve_frequency :: int
  ve_last_used_ms :: int
  ve_context :: qstring
  ve_profiles :: "qstring list"
  ve_key_term :: bool

definition vocabulary_entry_of :: "qstring \<Rightarrow> vocabulary_entry" where
  "vocabulary_entry_of term = \<lparr>ve_term = term, ve_source = ''manual'', ve_starred = False, ve_frequency = 0,
     ve_last_used_ms = 0, ve_context = [], ve_profiles = [], ve_key_term = True\<rparr>"

section \<open>The normalised list\<close>

text \<open>QStringList::removeDuplicates keeps the first of each.\<close>

definition first_of_each :: "'a list \<Rightarrow> 'a list" where
  "first_of_each xs = rev (remdups (rev xs))"

definition clean_entry :: "qchars \<Rightarrow> vocabulary_entry \<Rightarrow> vocabulary_entry" where
  "clean_entry q e =
     (let source = simplified q (ve_source e) in
      e\<lparr>ve_term := simplified q (ve_term e),
        ve_source := (if source = [] then ''manual'' else source),
        ve_frequency := max 0 (ve_frequency e),
        ve_last_used_ms := max 0 (ve_last_used_ms e),
        ve_context := trimmed q (ve_context e),
        ve_profiles := first_of_each (filter (\<lambda>p. p \<noteq> []) (ve_profiles e))\<rparr>)"

definition merge_copy :: "vocabulary_entry \<Rightarrow> vocabulary_entry \<Rightarrow> vocabulary_entry" where
  "merge_copy e d = d\<lparr>ve_starred := ve_starred d \<or> ve_starred e,
     ve_frequency := max (ve_frequency d) (ve_frequency e),
     ve_last_used_ms := max (ve_last_used_ms d) (ve_last_used_ms e),
     ve_context := (if ve_context d = [] then ve_context e else ve_context d)\<rparr>"

definition same_term :: "qchars \<Rightarrow> vocabulary_entry \<Rightarrow> vocabulary_entry \<Rightarrow> bool" where
  "same_term q e d \<longleftrightarrow> same_caseless q (ve_term e) (ve_term d)"

text \<open>The first entry with the term, or the end of the list.\<close>

fun add_entry :: "qchars \<Rightarrow> vocabulary_entry \<Rightarrow> vocabulary_entry list \<Rightarrow> vocabulary_entry list" where
  "add_entry q e [] = [e]"
| "add_entry q e (d # ds) = (if same_term q d e then merge_copy e d # ds else d # add_entry q e ds)"

definition normalize_step :: "qchars \<Rightarrow> vocabulary_entry list \<Rightarrow> vocabulary_entry \<Rightarrow> vocabulary_entry list" where
  "normalize_step q normalized e =
     (let e = clean_entry q e in if ve_term e = [] then normalized else add_entry q e normalized)"

text \<open>
  The order terms are sent in. Two entries compare equal only when the texts fold
  alike as a whole but not character by character; std::sort leaves their order
  open and the model keeps it.
\<close>

definition send_rank :: "qchars \<Rightarrow> vocabulary_entry \<Rightarrow> bool \<times> int \<times> int \<times> nat list" where
  "send_rank q e = (\<not> (ve_starred e \<and> ve_key_term e), - ve_frequency e, - ve_last_used_ms e,
     map of_char (case_folded q (ve_term e)))"

definition normalize_vocabulary :: "qchars \<Rightarrow> vocabulary_entry list \<Rightarrow> vocabulary_entry list" where
  "normalize_vocabulary q entries = sort_key (send_rank q) (foldl (normalize_step q) [] entries)"

section \<open>What a dictation uses\<close>

definition vocabulary_entry_applies :: "vocabulary_entry \<Rightarrow> qstring \<Rightarrow> bool" where
  "vocabulary_entry_applies e profile \<longleftrightarrow> ve_profiles e = [] \<or> profile \<in> set (ve_profiles e)"

definition vocabulary_term_excluded :: "qchars \<Rightarrow> vocabulary_entry list \<Rightarrow> qstring \<Rightarrow> qstring \<Rightarrow> bool" where
  "vocabulary_term_excluded q entries term profile \<longleftrightarrow>
     (\<exists>e\<in>set entries. same_caseless q (ve_term e) (simplified q term) \<and> \<not> vocabulary_entry_applies e profile)"

fun append_terms :: "qchars \<Rightarrow> qstring list \<times> qstring set \<Rightarrow> qstring list \<Rightarrow> qstring list \<times> qstring set" where
  "append_terms q acc [] = acc"
| "append_terms q (terms, seen) (t # ts) =
     (let cleaned = simplified q t; key = case_folded q cleaned in
      append_terms q (if key \<in> seen then (terms, seen) else (terms @ [cleaned], insert key seen)) ts)"

definition sent_entry :: "qstring \<Rightarrow> vocabulary_entry \<Rightarrow> bool" where
  "sent_entry profile e \<longleftrightarrow> ve_key_term e \<and> (profile = [] \<or> vocabulary_entry_applies e profile)"

definition sent_correction :: "qchars \<Rightarrow> vocabulary_entry list \<Rightarrow> learned_correction \<Rightarrow> bool" where
  "sent_correction q normalized c \<longleftrightarrow> lc_enabled c
     \<and> \<not> (\<exists>e\<in>set normalized. same_caseless q (ve_term e) (simplified q (lc_corrected c)))"

definition speech_vocabulary ::
  "qchars \<Rightarrow> vocabulary_entry list \<Rightarrow> learned_correction list \<Rightarrow> qstring \<Rightarrow> qstring list \<Rightarrow> qstring list" where
  "speech_vocabulary q entries corrections profile leading =
     (let normalized = normalize_vocabulary q entries in
      limited q (fst (append_terms q ([], {})
        (leading @ map ve_term (filter (sent_entry profile) normalized)
         @ map lc_corrected (filter (sent_correction q normalized) corrections)))))"

definition offered_vocabulary_profiles :: "qstring list \<Rightarrow> writing_profile_settings list \<Rightarrow> qstring list" where
  "offered_vocabulary_profiles ids profiles = filter (\<lambda>i. offered_writing_profile i profiles [] \<noteq> []) ids"

section \<open>Files\<close>

definition parse_vocabulary_file :: "qchars \<Rightarrow> qstring \<Rightarrow> qstring list" where
  "parse_vocabulary_file q s =
     filter (\<lambda>t. t \<noteq> [] \<and> \<not> starts_with t ''#'') (map (simplified q) (split_on (CHR 0x0A) s))"

definition read_vocabulary_file :: "qchars \<Rightarrow> qstring option \<Rightarrow> qstring list option" where
  "read_vocabulary_file q contents = map_option (parse_vocabulary_file q) contents"

fun csv_rows_from :: "qchars \<Rightarrow> bool \<Rightarrow> qstring \<Rightarrow> qstring list \<Rightarrow> qstring list list \<Rightarrow> qstring \<Rightarrow>
    qstring list list option" where
  "csv_rows_from q quoted field row rows [] =
     (if quoted then None
      else Some (if blank q (concat (row @ [field])) then rows else rows @ [row @ [field]]))"
| "csv_rows_from q True field row rows (c # cs) =
     (if c = CHR 0x22
      then (case cs of
          d # ds \<Rightarrow> if d = CHR 0x22 then csv_rows_from q True (field @ [c]) row rows ds
            else csv_rows_from q False field row rows cs
        | [] \<Rightarrow> csv_rows_from q False field row rows cs)
      else csv_rows_from q True (field @ [c]) row rows cs)"
| "csv_rows_from q False field row rows (c # cs) =
     (if c = CHR 0x22 \<and> field = [] then csv_rows_from q True field row rows cs
      else if c = CHR '','' then csv_rows_from q False [] (row @ [field]) rows cs
      else if c = CHR 0x0A then csv_rows_from q False [] []
        (if blank q (concat (row @ [field])) then rows else rows @ [row @ [field]]) cs
      else if c \<noteq> CHR 0x0D then csv_rows_from q False (field @ [c]) row rows cs
      else csv_rows_from q False field row rows cs)"

definition csv_rows :: "qchars \<Rightarrow> qstring \<Rightarrow> qstring list list option" where
  "csv_rows q s = csv_rows_from q False [] [] [] s"

fun index_of :: "qstring \<Rightarrow> qstring list \<Rightarrow> nat option" where
  "index_of x [] = None"
| "index_of x (y # ys) = (if x = y then Some 0 else map_option Suc (index_of x ys))"

definition column :: "qstring list \<Rightarrow> qstring \<Rightarrow> nat option \<Rightarrow> nat option" where
  "column header name fallback = (case index_of name header of Some i \<Rightarrow> Some i | None \<Rightarrow> fallback)"

definition field_at :: "qchars \<Rightarrow> qstring list \<Rightarrow> nat option \<Rightarrow> qstring" where
  "field_at q row i = (case i of Some i \<Rightarrow> if i < length row then trimmed q (row ! i) else [] | None \<Rightarrow> [])"

text \<open>
  QString::toInt and toLongLong of a trimmed text: a sign and digits, 0 for
  anything else and outside the type.
\<close>

definition digits_value :: "qstring \<Rightarrow> int" where
  "digits_value ds = foldl (\<lambda>n c. 10 * n + int (of_char c - 48)) 0 ds"

definition to_number :: "int \<Rightarrow> int \<Rightarrow> qstring \<Rightarrow> int" where
  "to_number lo hi s =
     (let (negative, ds) = (case s of c # cs \<Rightarrow> if c = CHR ''-'' then (True, cs)
            else if c = CHR ''+'' then (False, cs) else (False, s) | [] \<Rightarrow> (False, []));
          v = (if negative then - digits_value ds else digits_value ds)
      in if ds = [] \<or> \<not> list_all digit_char ds \<or> v < lo \<or> v > hi then 0 else v)"

definition to_int :: "qstring \<Rightarrow> int" where
  "to_int = to_number (- (2 ^ 31)) (2 ^ 31 - 1)"

definition to_long_long :: "qstring \<Rightarrow> int" where
  "to_long_long = to_number (- (2 ^ 63)) (2 ^ 63 - 1)"

definition csv_header_name :: "qchars \<Rightarrow> qstring \<Rightarrow> qstring" where
  "csv_header_name q s = map (\<lambda>c. if c = CHR '' '' then CHR ''_'' else c) (case_folded q (trimmed q s))"

record csv_columns =
  cc_term :: "nat option"
  cc_source :: "nat option"
  cc_starred :: "nat option"
  cc_frequency :: "nat option"
  cc_last_used :: "nat option"
  cc_context :: "nat option"

definition csv_columns_of :: "qstring list \<Rightarrow> csv_columns" where
  "csv_columns_of header =
     (if ''term'' \<in> set header
      then \<lparr>cc_term = column header ''term'' None, cc_source = column header ''source'' None,
            cc_starred = column header ''starred'' None, cc_frequency = column header ''frequency'' None,
            cc_last_used = column header ''last_used_ms'' (column header ''last_used'' None),
            cc_context = column header ''context'' None\<rparr>
      else \<lparr>cc_term = Some 0, cc_source = Some 1, cc_starred = Some 2, cc_frequency = Some 3,
            cc_last_used = Some 4, cc_context = Some 5\<rparr>)"

definition entry_of_row :: "qchars \<Rightarrow> csv_columns \<Rightarrow> qstring list \<Rightarrow> vocabulary_entry" where
  "entry_of_row q c row =
     (let source = field_at q row (cc_source c); starred = case_folded q (field_at q row (cc_starred c)) in
      (vocabulary_entry_of (field_at q row (cc_term c)))
        \<lparr>ve_source := (if source = [] then ''csv'' else source),
         ve_starred := starred \<in> {''true'', ''yes'', ''1'', ''starred''},
         ve_frequency := to_int (field_at q row (cc_frequency c)),
         ve_last_used_ms := to_long_long (field_at q row (cc_last_used c)),
         ve_context := field_at q row (cc_context c)\<rparr>)"

text \<open>The entries, and the error when there is one.\<close>

definition parse_vocabulary_csv :: "qchars \<Rightarrow> qstring \<Rightarrow> vocabulary_entry list \<times> qstring" where
  "parse_vocabulary_csv q csv =
     (case csv_rows q csv of
        None \<Rightarrow> ([], ''CSV contains an unterminated quoted field.'')
      | Some [] \<Rightarrow> ([], [])
      | Some (first # rows) \<Rightarrow>
          (let header = map (csv_header_name q) first; c = csv_columns_of header in
           (normalize_vocabulary q
              (map (entry_of_row q c) (if ''term'' \<in> set header then rows else first # rows)), [])))"

section \<open>Finding a term in a text\<close>

text \<open>
  The regular expression of a term: its words with white space between. What is
  left of the text after the match, as the length matched.
\<close>

fun match_words :: "qchars \<Rightarrow> qstring list \<Rightarrow> qstring \<Rightarrow> nat option" where
  "match_words q [] s = Some 0"
| "match_words q [w] s = (if same_caseless q (take (length w) s) w then Some (length w) else None)"
| "match_words q (w # v # ws) s =
     (if same_caseless q (take (length w) s) w
      then (let rest = drop (length w) s; gap = takeWhile (is_space q) rest in
        if gap = [] then None
        else map_option (\<lambda>n. length w + length gap + n) (match_words q (v # ws) (drop (length gap) rest)))
      else None)"

text \<open>The global match: each match, and on from where it ends.\<close>

fun term_matches :: "qchars \<Rightarrow> qstring list \<Rightarrow> nat \<Rightarrow> nat \<Rightarrow> qstring \<Rightarrow> (nat \<times> nat) list" where
  "term_matches q ws pos skip [] = []"
| "term_matches q ws pos skip (c # cs) =
     (if skip > 0 then term_matches q ws (Suc pos) (skip - 1) cs
      else case match_words q ws (c # cs) of
        Some n \<Rightarrow> (pos, pos + n) # term_matches q ws (Suc pos) (n - 1) cs
      | None \<Rightarrow> term_matches q ws (Suc pos) 0 cs)"

definition contains_vocabulary_term :: "qchars \<Rightarrow> (qstring \<Rightarrow> nat \<Rightarrow> bool) \<Rightarrow> qstring \<Rightarrow> qstring \<Rightarrow> bool" where
  "contains_vocabulary_term q boundary s term =
     (let ws = filter (\<lambda>w. w \<noteq> []) (split_on CHR '' '' (simplified q term)) in
      if ws = [] then False
      else list_ex (\<lambda>(a, b). boundary s a \<and> boundary s b) (term_matches q ws 0 0 s))"

section \<open>The list is normal\<close>

text \<open>What Qt documents of white space: the space is, no letter or digit of ASCII is.\<close>

definition usual_space :: "qchars \<Rightarrow> bool" where
  "usual_space q \<longleftrightarrow> is_space q CHR '' '' \<and> (\<forall>c. ascii_alnum c \<longrightarrow> \<not> is_space q c)"

lemma usual_ascii: "usual_space ascii"
  by (auto simp: usual_space_def ascii_space_def ascii_alnum_def Let_def)

lemma simplified_word:
  assumes "w \<noteq> []" "list_all (\<lambda>c. \<not> is_space q c) w"
  shows "simplified q w = w"
  using words_of_append_space[of "is_space q" w "[]"] assms by (simp add: simplified_def)

lemma simplified_manual: "usual_space q \<Longrightarrow> simplified q ''manual'' = ''manual''"
  by (rule simplified_word) (auto simp: usual_space_def ascii_alnum_def Let_def)

lemma first_of_each_distinct: "distinct (first_of_each xs)"
  by (simp add: first_of_each_def)

lemma first_of_each_set [simp]: "set (first_of_each xs) = set xs"
  by (simp add: first_of_each_def)

lemma first_of_each_id: "distinct xs \<Longrightarrow> first_of_each xs = xs"
  by (simp add: first_of_each_def distinct_remdups_id)

text \<open>An entry cleaning leaves as it is, field by field.\<close>

definition entry_clean :: "qchars \<Rightarrow> vocabulary_entry \<Rightarrow> bool" where
  "entry_clean q e \<longleftrightarrow> simplified q (ve_term e) = ve_term e \<and> ve_term e \<noteq> []
     \<and> simplified q (ve_source e) = ve_source e \<and> ve_source e \<noteq> []
     \<and> 0 \<le> ve_frequency e \<and> 0 \<le> ve_last_used_ms e \<and> trimmed q (ve_context e) = ve_context e
     \<and> distinct (ve_profiles e) \<and> [] \<notin> set (ve_profiles e)"

lemma clean_entry_clean: "entry_clean q e \<Longrightarrow> clean_entry q e = e"
proof -
  assume e: "entry_clean q e"
  hence "filter (\<lambda>p. p \<noteq> []) (ve_profiles e) = ve_profiles e" by (intro filter_True) (auto simp: entry_clean_def)
  thus ?thesis using e by (simp add: entry_clean_def clean_entry_def first_of_each_id Let_def)
qed

lemma clean_is_clean:
  "usual_space q \<Longrightarrow> ve_term (clean_entry q e) \<noteq> [] \<Longrightarrow> entry_clean q (clean_entry q e)"
  using simplified_manual[of q] simplified_idem[of q]
  by (auto simp: entry_clean_def clean_entry_def Let_def first_of_each_distinct usual_space_def)

lemma merge_clean: "entry_clean q e \<Longrightarrow> entry_clean q d \<Longrightarrow> entry_clean q (merge_copy e d)"
  by (auto simp: entry_clean_def merge_copy_def)

lemma merge_keeps [simp]:
  "ve_term (merge_copy e d) = ve_term d" "ve_key_term (merge_copy e d) = ve_key_term d"
  "ve_profiles (merge_copy e d) = ve_profiles d" "ve_source (merge_copy e d) = ve_source d"
  by (simp_all add: merge_copy_def)

definition folded_terms :: "qchars \<Rightarrow> vocabulary_entry list \<Rightarrow> qstring list" where
  "folded_terms q es = map (\<lambda>e. folded q (ve_term e)) es"

definition normal :: "qchars \<Rightarrow> vocabulary_entry list \<Rightarrow> bool" where
  "normal q es \<longleftrightarrow> (\<forall>e\<in>set es. entry_clean q e) \<and> distinct (folded_terms q es)"

lemma folded_terms_add:
  "folded_terms q (add_entry q e ds) = (if folded q (ve_term e) \<in> set (folded_terms q ds) then folded_terms q ds
    else folded_terms q ds @ [folded q (ve_term e)])"
  by (induction ds) (auto simp: folded_terms_def same_term_def same_caseless_def)

lemma add_entry_clean: "entry_clean q e \<Longrightarrow> \<forall>d\<in>set ds. entry_clean q d \<Longrightarrow> \<forall>d\<in>set (add_entry q e ds). entry_clean q d"
  by (induction ds) (auto simp: merge_clean)

lemma normal_step: "usual_space q \<Longrightarrow> normal q es \<Longrightarrow> normal q (normalize_step q es e)"
  using clean_is_clean[of q e] add_entry_clean[of q "clean_entry q e" es]
  by (auto simp: normalize_step_def normal_def folded_terms_add Let_def)

lemma normal_foldl: "usual_space q \<Longrightarrow> normal q es \<Longrightarrow> normal q (foldl (normalize_step q) es entries)"
  by (induction entries arbitrary: es) (simp_all add: normal_step)

lemma normal_sort: "normal q es \<Longrightarrow> normal q (sort_key k es)"
  by (simp add: normal_def folded_terms_def distinct_map)

lemma normal_normalized: "usual_space q \<Longrightarrow> normal q (normalize_vocabulary q entries)"
  unfolding normalize_vocabulary_def
  by (rule normal_sort[OF normal_foldl]) (simp_all add: normal_def folded_terms_def)

lemma add_new: "folded q (ve_term e) \<notin> set (folded_terms q ds) \<Longrightarrow> add_entry q e ds = ds @ [e]"
  by (induction ds) (auto simp: folded_terms_def same_term_def same_caseless_def)

lemma foldl_normal: "normal q (ds @ es) \<Longrightarrow> foldl (normalize_step q) ds es = ds @ es"
proof (induction es arbitrary: ds)
  case (Cons e es)
  have e: "clean_entry q e = e" "ve_term e \<noteq> []" "folded q (ve_term e) \<notin> set (folded_terms q ds)"
    using Cons.prems clean_entry_clean[of q e] by (auto simp: normal_def entry_clean_def folded_terms_def)
  thus ?case using Cons.IH[of "ds @ [e]"] Cons.prems by (simp add: normalize_step_def add_new)
qed simp

lemma foldl_folded_terms:
  "set (folded_terms q (foldl (normalize_step q) ds es)) =
   set (folded_terms q ds) \<union> folded q ` {t \<in> simplified q ` ve_term ` set es. t \<noteq> []}"
proof (induction es arbitrary: ds)
  case (Cons e es)
  have "ve_term (clean_entry q e) = simplified q (ve_term e)" by (simp add: clean_entry_def Let_def)
  hence "set (folded_terms q (normalize_step q ds e)) =
      set (folded_terms q ds) \<union> folded q ` {t \<in> {simplified q (ve_term e)}. t \<noteq> []}"
    by (auto simp: normalize_step_def folded_terms_add Let_def)
  thus ?case using Cons by auto
qed simp

text \<open>
  The normalised list holds every term that is not blank exactly once, ignoring
  case, in the order terms are sent, and normalising it again changes nothing.
\<close>

theorem normalized_list_is_normal:
  fixes entries :: "vocabulary_entry list"
  assumes "usual_space q"
  defines "ns \<equiv> normalize_vocabulary q entries"
  shows "distinct (map (\<lambda>e. folded q (ve_term e)) ns) \<and> sorted (map (send_rank q) ns)
    \<and> (\<lambda>e. folded q (ve_term e)) ` set ns = folded q ` {t \<in> simplified q ` ve_term ` set entries. t \<noteq> []}
    \<and> normalize_vocabulary q ns = ns"
proof -
  have n: "normal q ns" unfolding ns_def by (rule normal_normalized[OF assms(1)])
  have "sorted (map (send_rank q) ns)" by (simp add: ns_def normalize_vocabulary_def)
  moreover from this have "normalize_vocabulary q ns = ns"
    using foldl_normal[of q "[]" ns] n by (simp add: normalize_vocabulary_def[of q ns] sort_key_id_if_sorted)
  moreover have "set (folded_terms q ns) = folded q ` {t \<in> simplified q ` ve_term ` set entries. t \<noteq> []}"
    using foldl_folded_terms[of q "[]" entries] by (simp add: ns_def normalize_vocabulary_def folded_terms_def)
  ultimately show ?thesis using n by (simp add: normal_def folded_terms_def)
qed

theorem normalized_list_is_normal_witness:
  "normalize_vocabulary ascii (normalize_vocabulary ascii [vocabulary_entry_of ''b'', vocabulary_entry_of '' A'']) =
   normalize_vocabulary ascii [vocabulary_entry_of ''b'', vocabulary_entry_of '' A'']"
  using normalized_list_is_normal[OF usual_ascii, of "[vocabulary_entry_of ''b'', vocabulary_entry_of '' A'']"] by blast

text \<open>The first entry with a term keeps deciding for it.\<close>

definition decides :: "vocabulary_entry \<Rightarrow> vocabulary_entry \<Rightarrow> bool" where
  "decides e d \<longleftrightarrow> ve_term d = ve_term e \<and> ve_key_term d = ve_key_term e \<and> ve_profiles d = ve_profiles e
     \<and> ve_source d = ve_source e"

lemma decides_step: "\<exists>d\<in>set ds. decides e d \<Longrightarrow> \<exists>d\<in>set (normalize_step q ds x). decides e d"
proof -
  have "\<exists>d\<in>set ds. decides e d \<Longrightarrow> \<exists>d\<in>set (add_entry q x ds). decides e d" for x
    by (induction ds) (auto simp: decides_def)
  thus "\<exists>d\<in>set ds. decides e d \<Longrightarrow> \<exists>d\<in>set (normalize_step q ds x). decides e d"
    by (auto simp: normalize_step_def Let_def)
qed

lemma decides_foldl: "\<exists>d\<in>set ds. decides e d \<Longrightarrow> \<exists>d\<in>set (foldl (normalize_step q) ds es). decides e d"
  by (induction es arbitrary: ds) (simp_all add: decides_step)

text \<open>
  A later copy of a term, such as an imported row, cannot send the term to the
  speech service or lift its limit: Key term, profiles and source stay those of
  the first entry that names it.
\<close>

theorem first_entry_decides:
  assumes "simplified q (ve_term e) \<noteq> []"
    and "\<forall>d\<in>set before. \<not> same_caseless q (simplified q (ve_term d)) (simplified q (ve_term e))"
  shows "\<exists>d\<in>set (normalize_vocabulary q (before @ e # after)).
    ve_term d = simplified q (ve_term e) \<and> ve_key_term d = ve_key_term e
    \<and> ve_profiles d = first_of_each (filter (\<lambda>p. p \<noteq> []) (ve_profiles e))"
proof -
  let ?ds = "foldl (normalize_step q) [] before" and ?e = "clean_entry q e"
  have tm: "ve_term ?e = simplified q (ve_term e)" by (simp add: clean_entry_def Let_def)
  have "folded q (simplified q (ve_term e)) \<notin> set (folded_terms q ?ds)"
    unfolding foldl_folded_terms using assms(2) by (auto simp: folded_terms_def same_caseless_def)
  hence "normalize_step q ?ds e = ?ds @ [?e]"
    using add_new[of q ?e ?ds] assms(1) tm by (simp add: normalize_step_def Let_def)
  hence "\<exists>d\<in>set (foldl (normalize_step q) [] (before @ e # after)). decides ?e d"
    using decides_foldl[of "?ds @ [?e]" ?e q after] by (simp add: decides_def)
  thus ?thesis by (auto simp: normalize_vocabulary_def decides_def clean_entry_def Let_def)
qed

theorem first_entry_decides_witness:
  fixes mine imported
  defines "mine \<equiv> (vocabulary_entry_of ''Kube'')\<lparr>ve_key_term := False\<rparr>"
  defines "imported \<equiv> (vocabulary_entry_of ''kube'')\<lparr>ve_source := ''csv''\<rparr>"
  shows "\<exists>d\<in>set (normalize_vocabulary ascii ([] @ mine # [imported])). \<not> ve_key_term d"
proof -
  have "simplified ascii (ve_term mine) \<noteq> []"
    by (simp add: mine_def vocabulary_entry_of_def blank_iff ascii_space_def)
  hence "\<exists>d\<in>set (normalize_vocabulary ascii ([] @ mine # [imported])). ve_key_term d = ve_key_term mine"
    using first_entry_decides[of ascii mine "[]" "[imported]"] by (simp; blast)
  thus ?thesis by (simp add: mine_def)
qed

section \<open>What is sent\<close>

lemma append_terms_from:
  "set (fst (append_terms q acc ts)) \<subseteq> set (fst acc) \<union> simplified q ` set ts"
proof (induction ts arbitrary: acc)
  case (Cons t ts)
  show ?case
  proof (cases acc)
    case (Pair terms seen)
    show ?thesis
      using Cons[of "(terms, seen)"] Cons[of "(terms @ [simplified q t], insert (case_folded q (simplified q t)) seen)"]
      by (auto simp: Pair Let_def)
  qed
qed simp

lemma limited_from_set: "set (limited q terms) \<subseteq> simplified q ` set terms"
  using subseq_set[OF limited_subseq[of q terms]] by auto

lemma normal_unique:
  "normal q es \<Longrightarrow> e \<in> set es \<Longrightarrow> e' \<in> set es \<Longrightarrow> same_caseless q (ve_term e) (ve_term e') \<Longrightarrow> e = e'"
  by (auto simp: normal_def folded_terms_def same_caseless_def distinct_map dest: inj_onD)

text \<open>
  C34. A term of the list whose Key term is off, or that is limited to other Writing
  Profiles, is not sent to the speech service in any spelling, not even as a
  Learned Correction's text; only the caller's leading terms can bring it.
\<close>

theorem withheld_term_is_never_sent:
  assumes q: "usual_space q"
    and e: "e \<in> set (normalize_vocabulary q entries)" "\<not> sent_entry profile e"
    and lead: "\<forall>l\<in>set leading. \<not> same_caseless q (simplified q l) (ve_term e)"
  shows "\<forall>t\<in>set (speech_vocabulary q entries corrections profile leading). \<not> same_caseless q t (ve_term e)"
proof
  fix t assume "t \<in> set (speech_vocabulary q entries corrections profile leading)"
  let ?ns = "normalize_vocabulary q entries"
  let ?in = "leading @ map ve_term (filter (sent_entry profile) ?ns)
      @ map lc_corrected (filter (sent_correction q ?ns) corrections)"
  have n: "normal q ?ns" by (rule normal_normalized[OF q])
  have sp: "is_space q CHR '' ''" using q by (simp add: usual_space_def)
  obtain u where u: "u \<in> set (fst (append_terms q ([], {}) ?in))" "t = simplified q u"
    using \<open>t \<in> _\<close> limited_from_set[of q] unfolding speech_vocabulary_def Let_def by blast
  have "set (fst (append_terms q ([], {}) xs)) \<subseteq> simplified q ` set xs" for xs
    using append_terms_from[of q "([], {})" xs] by simp
  then obtain v where v: "v \<in> set ?in" "u = simplified q v" using u(1) by blast
  hence t: "t = simplified q v" using u simplified_idem[OF sp] by simp
  from v(1) consider "v \<in> set leading" | d where "d \<in> set ?ns" "sent_entry profile d" "v = ve_term d"
    | c where "sent_correction q ?ns c" "v = lc_corrected c" by auto
  thus "\<not> same_caseless q t (ve_term e)"
  proof cases
    case 1
    thus ?thesis using lead t by simp
  next
    case 2
    hence "t = ve_term d" using n t by (auto simp: normal_def entry_clean_def)
    thus ?thesis using normal_unique[OF n 2(1) e(1)] 2(2) e(2) by auto
  next
    case 3
    thus ?thesis using e(1) t by (auto simp: sent_correction_def same_caseless_sym)
  qed
qed

theorem withheld_term_is_never_sent_witness:
  fixes mine c
  defines "mine \<equiv> (vocabulary_entry_of ''kube'')\<lparr>ve_key_term := False\<rparr>"
  defines "c \<equiv> \<lparr>lc_id = [], lc_original = ''cube'', lc_corrected = ''Kube'', lc_application_id = [],
    lc_created_at_ms = 0, lc_confidence = 1, lc_enabled = True, lc_evidence_count = 1, lc_last_observed_at_ms = 0\<rparr>"
  shows "list_all (\<lambda>t. \<not> same_caseless ascii t ''kube'')
    (speech_vocabulary ascii [mine] [c] ''work'' [''ok''])"
proof -
  have w: "simplified ascii ''kube'' = ''kube''" "simplified ascii ''ok'' = ''ok''"
    "simplified ascii ''manual'' = ''manual''"
    by (simp_all add: simplified_def words_of.simps(2) ascii_space_def)
  have "clean_entry ascii mine = mine"
    by (simp add: clean_entry_def mine_def vocabulary_entry_of_def w first_of_each_def Let_def)
  moreover have "ve_term mine \<noteq> []" by (simp add: mine_def vocabulary_entry_of_def)
  ultimately have "normalize_vocabulary ascii [mine] = [mine]"
    by (simp add: normalize_vocabulary_def normalize_step_def)
  moreover have "\<not> sent_entry ''work'' mine" "ve_term mine = ''kube''"
    by (simp_all add: sent_entry_def mine_def vocabulary_entry_of_def)
  ultimately show ?thesis
    using withheld_term_is_never_sent[OF usual_ascii, of mine "[mine]" "''work''" "[''ok'']" "[c]"]
    by (simp add: w same_caseless_def folded_def list_all_iff)
qed

section \<open>A quoted file is read back\<close>

definition quote_field :: "qstring \<Rightarrow> qstring" where
  "quote_field f = CHR 0x22 # concat (map (\<lambda>c. if c = CHR 0x22 then [c, c] else [c]) f) @ [CHR 0x22]"

definition quoted_csv :: "qstring list list \<Rightarrow> qstring" where
  "quoted_csv rows = concat (map (\<lambda>row. join '','' (map quote_field row) @ [CHR 0x0A]) rows)"

lemma csv_quoted_body:
  "rest = [] \<or> hd rest \<noteq> CHR 0x22 \<Longrightarrow>
   csv_rows_from q True field row rows (concat (map (\<lambda>c. if c = CHR 0x22 then [c, c] else [c]) f) @ CHR 0x22 # rest) =
   csv_rows_from q False (field @ f) row rows rest"
  by (induction f arbitrary: field) (auto split: list.split)

lemma csv_quoted_field:
  "rest = [] \<or> hd rest \<noteq> CHR 0x22 \<Longrightarrow>
   csv_rows_from q False [] row rows (quote_field f @ rest) = csv_rows_from q False f row rows rest"
  using csv_quoted_body[of rest q "[]" row rows f] by (simp add: quote_field_def)

lemma csv_quoted_row:
  "fs \<noteq> [] \<Longrightarrow> \<not> blank q (concat (row @ fs)) \<Longrightarrow>
   csv_rows_from q False [] row rows (join '','' (map quote_field fs) @ CHR 0x0A # rest) =
   csv_rows_from q False [] [] (rows @ [row @ fs]) rest"
proof (induction fs arbitrary: row)
  case (Cons f fs)
  show ?case
  proof (cases fs)
    case Nil
    thus ?thesis using Cons.prems csv_quoted_field[of "CHR 0x0A # rest" q row rows f] by simp
  next
    case (Cons g gs)
    have "csv_rows_from q False [] row rows (join '','' (map quote_field (f # fs)) @ CHR 0x0A # rest) =
        csv_rows_from q False [] row rows
          (quote_field f @ CHR '','' # join '','' (map quote_field fs) @ CHR 0x0A # rest)"
      using Cons by simp
    also have "\<dots> = csv_rows_from q False [] (row @ [f]) rows (join '','' (map quote_field fs) @ CHR 0x0A # rest)"
      by (subst csv_quoted_field) simp_all
    also have "\<dots> = csv_rows_from q False [] [] (rows @ [(row @ [f]) @ fs]) rest"
      using Cons.IH[of "row @ [f]"] Cons.prems Cons by simp
    finally show ?thesis by simp
  qed
qed simp

text \<open>
  A CSV file whose fields are all quoted, each quote in them doubled, is read
  back as the rows it was written from, with every comma, quote and line break
  in the fields.
\<close>

theorem quoted_rows_read_back:
  assumes "\<forall>row\<in>set rows. row \<noteq> [] \<and> \<not> blank q (concat row)"
  shows "csv_rows q (quoted_csv rows) = Some rows"
proof -
  have "csv_rows_from q False [] [] done (quoted_csv rows) = Some (done @ rows)" for "done"
    using assms
  proof (induction rows arbitrary: "done")
    case (Cons row rows)
    have "csv_rows_from q False [] [] done (quoted_csv (row # rows)) =
        csv_rows_from q False [] [] (done @ [row]) (quoted_csv rows)"
      using csv_quoted_row[of row q "[]" "done" "quoted_csv rows"] Cons.prems by (simp add: quoted_csv_def)
    thus ?case using Cons by simp
  qed (simp add: quoted_csv_def blank_def)
  from this[of "[]"] show ?thesis by (simp add: csv_rows_def)
qed

theorem quoted_rows_read_back_witness:
  "csv_rows ascii (quoted_csv [[''a,b'', ''c''], [[CHR 0x22, CHR 0x0A], ''x'']]) =
   Some [[''a,b'', ''c''], [[CHR 0x22, CHR 0x0A], ''x'']]"
proof -
  have "\<forall>row\<in>set [[''a,b'', ''c''], [[CHR 0x22, CHR 0x0A], ''x'']]. row \<noteq> [] \<and> \<not> blank ascii (concat row)"
    by (simp add: blank_iff ascii_space_def)
  from quoted_rows_read_back[OF this] show ?thesis .
qed

section \<open>A match that overlaps\<close>

text \<open>An occurrence of the term's words, wherever it begins and whatever is around it.\<close>

definition occurs_at :: "qchars \<Rightarrow> qstring \<Rightarrow> qstring \<Rightarrow> nat \<Rightarrow> nat \<Rightarrow> bool" where
  "occurs_at q term s a n \<longleftrightarrow> a < length s
     \<and> match_words q (filter (\<lambda>w. w \<noteq> []) (split_on CHR '' '' (simplified q term))) (drop a s) = Some n"

definition whole_words_at :: "qchars \<Rightarrow> (qstring \<Rightarrow> nat \<Rightarrow> bool) \<Rightarrow> qstring \<Rightarrow> qstring \<Rightarrow> nat \<Rightarrow> nat \<Rightarrow> bool" where
  "whole_words_at q boundary term s a n \<longleftrightarrow> occurs_at q term s a n \<and> boundary s a \<and> boundary s (a + n)"

text \<open>The global match looks only at occurrences, one after the other, and not before what it skips ends.\<close>

lemma looked_at:
  "(a, b) \<in> set (term_matches q ws pos skip cs) \<Longrightarrow>
   pos + skip \<le> a \<and> a < pos + length cs \<and> a \<le> b \<and> match_words q ws (drop (a - pos) cs) = Some (b - a)"
proof (induction q ws pos skip cs rule: term_matches.induct)
  case (2 q ws pos skip c cs)
  have later: ?case if "(a, b) \<in> set (term_matches q ws (Suc pos) k cs)" "skip \<le> Suc k"
      "Suc pos + k \<le> a \<and> a < Suc pos + length cs \<and> a \<le> b \<and> match_words q ws (drop (a - Suc pos) cs) = Some (b - a)" for k
  proof -
    have "drop (a - pos) (c # cs) = drop (a - Suc pos) cs" using that(3) by (simp add: drop_Cons')
    thus ?thesis using that by simp
  qed
  show ?case
  proof (cases "skip > 0")
    case True
    thus ?thesis using 2(1)[OF True] 2(4) later[of "skip - 1"] by simp
  next
    case False
    thus ?thesis using 2(2,3,4) later
      by (cases "match_words q ws (c # cs)") (fastforce)+
  qed
qed simp

lemma looked_at_first:
  "p < length cs \<Longrightarrow> match_words q ws (drop p cs) = Some m \<Longrightarrow> (\<And>a. a < p \<Longrightarrow> match_words q ws (drop a cs) = None) \<Longrightarrow>
   term_matches q ws pos 0 cs = (pos + p, pos + p + m) # term_matches q ws (Suc (pos + p)) (m - 1) (drop (Suc p) cs)"
proof (induction p arbitrary: cs pos)
  case 0
  then obtain c rest where "cs = c # rest" by (cases cs) auto
  thus ?case using 0 by simp
next
  case (Suc p)
  then obtain c rest where cs: "cs = c # rest" by (cases cs) auto
  have "match_words q ws (drop a rest) = None" if "a < p" for a using Suc.prems(3)[of "Suc a"] that by (simp add: cs)
  moreover have "match_words q ws (c # rest) = None" using Suc.prems(3)[of 0] by (simp add: cs)
  ultimately show ?case using Suc.IH[of rest "Suc pos"] Suc.prems(1,2) by (simp add: cs)
qed

lemma looked_at_occurs:
  assumes "(a, b) \<in> set (term_matches q (filter (\<lambda>w. w \<noteq> []) (split_on CHR '' '' (simplified q term))) 0 0 s)"
  shows "occurs_at q term s a (b - a) \<and> a \<le> b"
  using looked_at[OF assms] by (simp add: occurs_at_def)

text \<open>
  C40. The search for a term goes on after the end of a match that is no whole word, so it misses an occurrence
  that begins inside it, be it one of whole words, with a boundary where it begins and where it ends: when all
  the occurrences of whole words begin inside the first occurrence there is, the term is not found, though it is
  there. In "aha ha ha" the term "ha ha" is the last two words, and the search stops at the second letter.
\<close>

theorem overlapping_term_is_missed:
  assumes "occurs_at q term s p m" "\<And>a n. a < p \<Longrightarrow> \<not> occurs_at q term s a n"
    and "whole_words_at q boundary term s p' n'"
    and "\<And>a n. whole_words_at q boundary term s a n \<Longrightarrow> p < a \<and> a < p + m"
  shows "p < p' \<and> p' < p + m \<and> \<not> contains_vocabulary_term q boundary s term"
proof -
  let ?ws = "filter (\<lambda>w. w \<noteq> []) (split_on CHR '' '' (simplified q term))"
  have "term_matches q ?ws 0 0 s = (p, p + m) # term_matches q ?ws (Suc p) (m - 1) (drop (Suc p) s)"
    using looked_at_first[of p s q ?ws m 0] assms(1,2) by (force simp: occurs_at_def)
  hence past: "a = p \<or> p + m \<le> a" if "(a, b) \<in> set (term_matches q ?ws 0 0 s)" for a b
    using that looked_at[of a b q ?ws "Suc p" "m - 1" "drop (Suc p) s"] by auto
  have "\<not> (boundary s a \<and> boundary s b)" if "(a, b) \<in> set (term_matches q ?ws 0 0 s)" for a b
  proof
    assume "boundary s a \<and> boundary s b"
    hence "whole_words_at q boundary term s a (b - a)"
      using looked_at_occurs[OF that] by (simp add: whole_words_at_def)
    thus False using assms(4) past[OF that] by fastforce
  qed
  hence "\<not> contains_vocabulary_term q boundary s term"
    by (auto simp: contains_vocabulary_term_def Let_def list_ex_iff)
  thus ?thesis using assms(3,4) by simp
qed

lemma overlapping_term_is_missed_witness:
  "\<not> contains_vocabulary_term ascii at_boundary ''aha ha ha'' ''ha ha''"
proof -
  have w: "simplified ascii ''ha ha'' = ''ha ha''"
    by (simp add: simplified_def words_of.simps(2) ascii_space_def)
  have occurs: "occurs_at ascii ''ha ha'' ''aha ha ha'' a n \<longleftrightarrow> (a = 1 \<or> a = 4) \<and> n = 5" for a n
  proof (cases "a < 9")
    case True
    hence "a \<in> {0, 1, 2, 3, 4, 5, 6, 7, 8}" by auto
    thus ?thesis
      by (auto simp: occurs_at_def w same_caseless_def folded_def ascii_lower_char_def ascii_space_def Let_def)
  qed (auto simp: occurs_at_def)
  have edges: "\<not> at_boundary ''aha ha ha'' 1" "at_boundary ''aha ha ha'' 4" "at_boundary ''aha ha ha'' 9"
    by (simp_all add: at_boundary_def char_at_def word_char_def ascii_alnum_def Let_def nth_Cons')
  hence whole: "whole_words_at ascii at_boundary ''ha ha'' ''aha ha ha'' a n \<longleftrightarrow> a = 4 \<and> n = 5" for a n
    using occurs edges by (auto simp: whole_words_at_def)
  have "1 < (4::nat) \<and> 4 < 1 + (5::nat) \<and> \<not> contains_vocabulary_term ascii at_boundary ''aha ha ha'' ''ha ha''"
    by (rule overlapping_term_is_missed[where n' = 5]) (simp_all add: occurs whole)
  thus ?thesis by simp
qed

end
