(* ===== verification/Bindings.thy ===== *)
theory Bindings
  imports QtText "HOL-Library.Product_Lexorder"
begin

text \<open>
  core/bindings/BindingMatcher.cpp and core/BindingProcessor.cpp: the spoken
  phrases a person binds to replacement texts. The transcript is cut into tokens
  (\<^term>\<open>tokenize\<close>), the rules are found in it (\<^term>\<open>find_matches\<close>) and replaced,
  once by their text and once by a placeholder that a refinement keeps and
  \<^term>\<open>restore_placeholders\<close> then fills in. The regular expressions of the source
  are written out as scanners.
\<close>

section \<open>Tokens\<close>

record binding_rule =
  br_phrase :: qstring
  br_replacement :: qstring

record token =
  tk_text :: qstring
  tk_start :: nat
  tk_end :: nat

text \<open>The loop of tokenizeWithSpans at an index, with the token being read.\<close>

fun scan_tokens :: "qchars \<Rightarrow> qstring \<Rightarrow> nat \<Rightarrow> qstring \<Rightarrow> nat \<Rightarrow> token list" where
  "scan_tokens q [] index current start =
     (if current = [] then []
      else [\<lparr>tk_text = case_folded q current, tk_start = start, tk_end = index\<rparr>])"
| "scan_tokens q (c # cs) index current start =
     (if is_letter_or_number q c
      then scan_tokens q cs (Suc index) (current @ [c]) (if current = [] then index else start)
      else if current = [] then scan_tokens q cs (Suc index) [] start
      else \<lparr>tk_text = case_folded q current, tk_start = start, tk_end = index\<rparr>
             # scan_tokens q cs (Suc index) [] start)"

definition tokenize :: "qchars \<Rightarrow> qstring \<Rightarrow> token list" where
  "tokenize q text = scan_tokens q text 0 [] 0"

definition normalized_tokens :: "qchars \<Rightarrow> qstring \<Rightarrow> qstring list" where
  "normalized_tokens q text = map tk_text (tokenize q text)"

definition normalized_phrase :: "qchars \<Rightarrow> qstring \<Rightarrow> qstring" where
  "normalized_phrase q text = join '' '' (normalized_tokens q text)"

section \<open>Finding the rules\<close>

record compiled_rule =
  cr_rule :: binding_rule
  cr_tokens :: "qstring list"
  cr_order :: nat

fun compile_from :: "qchars \<Rightarrow> nat \<Rightarrow> qstring set \<Rightarrow> binding_rule list \<Rightarrow> compiled_rule list" where
  "compile_from q index seen [] = []"
| "compile_from q index seen (r # rs) =
     (let phrase = trimmed q (br_phrase r);
          tokens = normalized_tokens q phrase;
          normalized = join '' '' tokens
      in if phrase = [] \<or> trimmed q (br_replacement r) = [] \<or> tokens = [] \<or> normalized \<in> seen
         then compile_from q (Suc index) seen rs
         else \<lparr>cr_rule = r\<lparr>br_phrase := phrase\<rparr>, cr_tokens = tokens, cr_order = index\<rparr>
                # compile_from q (Suc index) (insert normalized seen) rs)"

definition compile_rules :: "qchars \<Rightarrow> binding_rule list \<Rightarrow> compiled_rule list" where
  "compile_rules q rules = compile_from q 0 {} rules"

definition sequence_matches :: "token list \<Rightarrow> nat \<Rightarrow> qstring list \<Rightarrow> bool" where
  "sequence_matches ts start rule \<longleftrightarrow> start + length rule \<le> length ts
     \<and> (\<forall>k<length rule. tk_text (ts ! (start + k)) = rule ! k)"

record candidate =
  cd_rule :: compiled_rule
  cd_start :: nat
  cd_count :: nat

text \<open>
  The starts tried for a rule run from 0 on, as long as the rule's tokens still
  fit: one of at least one token, so the last of them is the length less its count.
\<close>

definition rule_candidates :: "token list \<Rightarrow> compiled_rule \<Rightarrow> candidate list" where
  "rule_candidates ts r = map (\<lambda>start. \<lparr>cd_rule = r, cd_start = start, cd_count = length (cr_tokens r)\<rparr>)
     (filter (\<lambda>start. sequence_matches ts start (cr_tokens r))
        [0..<Suc (length ts) - length (cr_tokens r)])"

text \<open>Longer phrases first, then earlier ones, then earlier rules.\<close>

definition candidate_rank :: "candidate \<Rightarrow> int \<times> nat \<times> nat" where
  "candidate_rank c = (- int (cd_count c), cd_start c, cr_order (cd_rule c))"

record binding_match =
  bm_rule :: binding_rule
  bm_start_token :: nat
  bm_token_count :: nat
  bm_start :: nat
  bm_end :: nat

definition overlaps_taken :: "bool list \<Rightarrow> candidate \<Rightarrow> bool" where
  "overlaps_taken occupied c \<longleftrightarrow> (\<exists>k<cd_count c. occupied ! (cd_start c + k))"

fun occupy :: "nat \<Rightarrow> nat \<Rightarrow> bool list \<Rightarrow> bool list" where
  "occupy start 0 occupied = occupied"
| "occupy start (Suc n) occupied = (occupy start n occupied)[start + n := True]"

definition match_of :: "token list \<Rightarrow> candidate \<Rightarrow> binding_match" where
  "match_of ts c = \<lparr>bm_rule = cr_rule (cd_rule c), bm_start_token = cd_start c, bm_token_count = cd_count c,
     bm_start = tk_start (ts ! cd_start c), bm_end = tk_end (ts ! (cd_start c + cd_count c - 1))\<rparr>"

fun accept_candidates :: "bool list \<Rightarrow> candidate list \<Rightarrow> candidate list" where
  "accept_candidates occupied [] = []"
| "accept_candidates occupied (c # cs) =
     (if overlaps_taken occupied c then accept_candidates occupied cs
      else c # accept_candidates (occupy (cd_start c) (cd_count c) occupied) cs)"

definition all_candidates :: "qchars \<Rightarrow> token list \<Rightarrow> binding_rule list \<Rightarrow> candidate list" where
  "all_candidates q ts rules = concat (map (rule_candidates ts) (compile_rules q rules))"

definition find_matches :: "qchars \<Rightarrow> qstring \<Rightarrow> binding_rule list \<Rightarrow> binding_match list" where
  "find_matches q transcript rules =
     (let ts = tokenize q transcript in
      if ts = [] \<or> rules = [] then []
      else sort_key bm_start (map (match_of ts)
             (accept_candidates (replicate (length ts) False)
                (sort_key candidate_rank (all_candidates q ts rules)))))"

section \<open>Replacing them\<close>

text \<open>replaceMatches from a cursor on; \<^term>\<open>index\<close> counts the matches.\<close>

fun replace_from :: "qstring \<Rightarrow> (nat \<Rightarrow> binding_match \<Rightarrow> qstring) \<Rightarrow> nat \<Rightarrow> nat \<Rightarrow> binding_match list \<Rightarrow> qstring" where
  "replace_from transcript f cursor index [] = drop cursor transcript"
| "replace_from transcript f cursor index (m # ms) =
     take (bm_start m - cursor) (drop cursor transcript) @ f index m
     @ replace_from transcript f (bm_end m) (Suc index) ms"

definition replace_matches ::
  "qstring \<Rightarrow> binding_match list \<Rightarrow> (nat \<Rightarrow> binding_match \<Rightarrow> qstring) \<Rightarrow> qstring" where
  "replace_matches transcript ms f = replace_from transcript f 0 0 ms"

text \<open>The words left over, from an index on; the matches that end before it are dropped.\<close>

fun words_covered_from :: "qchars \<Rightarrow> qstring \<Rightarrow> nat \<Rightarrow> binding_match list \<Rightarrow> bool" where
  "words_covered_from q [] index ms = True"
| "words_covered_from q (c # cs) index ms =
     (if \<not> is_letter_or_number q c then words_covered_from q cs (Suc index) ms
      else (let ms = dropWhile (\<lambda>m. bm_end m \<le> index) ms in
            case ms of [] \<Rightarrow> False
            | m # _ \<Rightarrow> bm_start m \<le> index \<and> index < bm_end m \<and> words_covered_from q cs (Suc index) ms))"

definition all_words_covered :: "qchars \<Rightarrow> qstring \<Rightarrow> binding_match list \<Rightarrow> bool" where
  "all_words_covered q transcript ms \<longleftrightarrow> ms \<noteq> [] \<and> words_covered_from q transcript 0 ms"

definition k_placeholder_stem :: qstring where
  "k_placeholder_stem = ''SPEECHER_BINDING_''"

definition placeholder_name :: "nat \<Rightarrow> qstring" where
  "placeholder_name i = k_placeholder_stem @ decimal i"

record binding_placeholder =
  bp_placeholder :: qstring
  bp_replacement :: qstring

record binding_result =
  bs_bound_text :: qstring
  bs_placeholder_text :: qstring
  bs_can_skip_refinement :: bool
  bs_placeholders :: "binding_placeholder list"

definition process_bindings :: "qchars \<Rightarrow> qstring \<Rightarrow> binding_rule list \<Rightarrow> binding_result" where
  "process_bindings q transcript rules =
     (let ms = find_matches q transcript rules in
      if ms = []
      then \<lparr>bs_bound_text = transcript, bs_placeholder_text = transcript, bs_can_skip_refinement = False,
            bs_placeholders = []\<rparr>
      else \<lparr>bs_bound_text = replace_matches transcript ms (\<lambda>i m. br_replacement (bm_rule m)),
            bs_placeholder_text = replace_matches transcript ms (\<lambda>i m. placeholder_name i),
            bs_can_skip_refinement = all_words_covered q transcript ms,
            bs_placeholders = map (\<lambda>i. \<lparr>bp_placeholder = placeholder_name i,
               bp_replacement = br_replacement (bm_rule (ms ! i))\<rparr>) [0..<length ms]\<rparr>)"

section \<open>Placeholders in a text\<close>

text \<open>
  How long the match of the exact placeholder is at the head of a text: all the
  digits, as what follows may be no word character.
\<close>

definition placeholder_length :: "qstring \<Rightarrow> nat option" where
  "placeholder_length s =
     (if starts_with s k_placeholder_stem
      then (let digits = takeWhile digit_char (drop (length k_placeholder_stem) s);
                n = length k_placeholder_stem + length digits
            in if digits = [] then None
               else case drop n s of [] \<Rightarrow> Some n | c # _ \<Rightarrow> if word_char c then None else Some n)
      else None)"

datatype piece = PlainChar char | Placeholder qstring

text \<open>The global match of the exact placeholder: what it finds and the characters between.\<close>

function placeholder_pieces :: "bool \<Rightarrow> qstring \<Rightarrow> piece list" where
  "placeholder_pieces after_word [] = []"
| "placeholder_pieces after_word (c # cs) =
     (case (if after_word then None else placeholder_length (c # cs)) of
        Some n \<Rightarrow> Placeholder (take n (c # cs)) # placeholder_pieces True (drop n (c # cs))
      | None \<Rightarrow> PlainChar c # placeholder_pieces (word_char c) cs)"
  by pat_completeness auto

termination placeholder_pieces
  by (relation "measure (\<lambda>(b, s). length s)")
    (auto simp: placeholder_length_def k_placeholder_stem_def Let_def split: if_splits list.splits)

declare placeholder_pieces.simps [simp del]

text \<open>The text between two placeholders goes through the rules as one.\<close>

fun apply_pieces :: "qchars \<Rightarrow> binding_rule list \<Rightarrow> qstring \<Rightarrow> piece list \<Rightarrow> qstring" where
  "apply_pieces q rules plain [] = bs_bound_text (process_bindings q plain rules)"
| "apply_pieces q rules plain (PlainChar c # ps) = apply_pieces q rules (plain @ [c]) ps"
| "apply_pieces q rules plain (Placeholder p # ps) =
     bs_bound_text (process_bindings q plain rules) @ p @ apply_pieces q rules [] ps"

definition apply_outside_placeholders :: "qchars \<Rightarrow> qstring \<Rightarrow> binding_rule list \<Rightarrow> qstring" where
  "apply_outside_placeholders q text rules =
     (if text = [] \<or> rules = [] then text else apply_pieces q rules [] (placeholder_pieces False text))"

section \<open>Text that looks like one\<close>

text \<open>The maximal runs of word characters, and the text after each.\<close>

function word_runs :: "qstring \<Rightarrow> (qstring \<times> qstring) list" where
  "word_runs [] = []"
| "word_runs (c # cs) =
     (if word_char c
      then (takeWhile word_char (c # cs), dropWhile word_char (c # cs)) # word_runs (dropWhile word_char (c # cs))
      else word_runs cs)"
  by pat_completeness auto

termination word_runs
  by (relation "measure length") (auto simp: le_imp_less_Suc length_dropWhile_le)

declare word_runs.simps [simp del]

text \<open>
  What the reworded expression matches from a place on: the letters in any case,
  blanks, underscores and hyphens between, a digit, the word to its end.
\<close>

definition joint_char :: "char \<Rightarrow> bool" where
  "joint_char c \<longleftrightarrow> ascii_space c \<or> c = CHR ''_'' \<or> c = CHR ''-''"

definition after_caseless :: "qstring \<Rightarrow> qstring \<Rightarrow> qstring option" where
  "after_caseless word s = (if map ascii_lower_char (take (length word) s) = word
     then Some (drop (length word) s) else None)"

definition reworded_rest :: "qstring \<Rightarrow> qstring option" where
  "reworded_rest s = (case after_caseless ''speecher'' s of None \<Rightarrow> None
     | Some s \<Rightarrow> (case after_caseless ''binding'' (dropWhile joint_char s) of None \<Rightarrow> None
       | Some s \<Rightarrow> (case dropWhile joint_char s of [] \<Rightarrow> None
         | c # cs \<Rightarrow> if digit_char c then Some (dropWhile word_char cs) else None)))"

text \<open>
  The match that starts with a run of word characters: the letters before
  "speecher" are as many as can be, tried from the run's end back to its start.
\<close>

fun reworded_from :: "nat \<Rightarrow> qstring \<Rightarrow> qstring option" where
  "reworded_from n s = (case reworded_rest (drop n s) of
     Some rest \<Rightarrow> Some rest
   | None \<Rightarrow> (case n of 0 \<Rightarrow> None | Suc m \<Rightarrow> reworded_from m s))"

declare reworded_from.simps [simp del]

function reworded_runs :: "bool \<Rightarrow> qstring \<Rightarrow> qstring list" where
  "reworded_runs after_word [] = []"
| "reworded_runs after_word (c # cs) =
     (case (if after_word \<or> \<not> word_char c then None
            else reworded_from (length (takeWhile word_char (c # cs))) (c # cs)) of
        Some rest \<Rightarrow>
          if length rest \<le> length cs
          then take (Suc (length cs) - length rest) (c # cs) # reworded_runs True rest
          else []
      | None \<Rightarrow> reworded_runs (word_char c) cs)"
  by pat_completeness auto

termination reworded_runs
  by (relation "measure (\<lambda>(b, s). length s)") auto

declare reworded_runs.simps [simp del]

definition placeholder_like_runs :: "qchars \<Rightarrow> qstring \<Rightarrow> qstring set" where
  "placeholder_like_runs q text =
     set (filter (\<lambda>r. contains_text r ''SPEECHER_BINDING'') (map fst (word_runs text)))
     \<union> set (map (lower q) (reworded_runs False text))"

text \<open>QString::toInt: decimal digits, within an int.\<close>

definition is_decimal_int :: "qstring \<Rightarrow> bool" where
  "is_decimal_int s \<longleftrightarrow> s \<noteq> [] \<and> list_all digit_char s
     \<and> foldl (\<lambda>n c. n * 10 + (of_char c - 48)) 0 s \<le> (2147483647::nat)"

definition is_placeholder_index :: "qstring \<Rightarrow> bool" where
  "is_placeholder_index t \<longleftrightarrow> is_decimal_int t
     \<or> t \<in> {''zero'', ''one'', ''two'', ''three'', ''four'', ''five'', ''six'', ''seven'', ''eight'', ''nine''}"

fun spoken_indexes :: "qstring list \<Rightarrow> qstring set" where
  "spoken_indexes (a # b # c # ts) =
     (if a = ''speecher'' \<and> b = ''binding'' \<and> is_placeholder_index c then {c} else {})
     \<union> spoken_indexes (b # c # ts)"
| "spoken_indexes ts = {}"

definition spoken_placeholder_indexes :: "qchars \<Rightarrow> qstring \<Rightarrow> qstring set" where
  "spoken_placeholder_indexes q text = spoken_indexes (normalized_tokens q text)"

section \<open>Restoring\<close>

text \<open>QHash::insert replaces: the last replacement of a placeholder counts.\<close>

definition replacements_by_placeholder :: "binding_placeholder list \<Rightarrow> qstring \<rightharpoonup> qstring" where
  "replacements_by_placeholder ps = map_of (rev (map (\<lambda>p. (bp_placeholder p, bp_replacement p)) ps))"

definition restored_piece :: "(qstring \<rightharpoonup> qstring) \<Rightarrow> piece \<Rightarrow> qstring" where
  "restored_piece m p = (case p of PlainChar c \<Rightarrow> [c]
     | Placeholder s \<Rightarrow> (case m s of Some r \<Rightarrow> r | None \<Rightarrow> s))"

definition residue_piece :: "(qstring \<rightharpoonup> qstring) \<Rightarrow> piece \<Rightarrow> qstring" where
  "residue_piece m p = (case p of PlainChar c \<Rightarrow> [c]
     | Placeholder s \<Rightarrow> (case m s of Some r \<Rightarrow> [] | None \<Rightarrow> s))"

text \<open>The restored text, or None where the result is not ok.\<close>

definition restore_placeholders ::
  "qchars \<Rightarrow> qstring \<Rightarrow> binding_placeholder list \<Rightarrow> qstring \<Rightarrow> qstring option" where
  "restore_placeholders q refined placeholders source =
     (let runs = placeholder_like_runs q source;
          m = replacements_by_placeholder placeholders;
          pieces = placeholder_pieces False refined;
          residue = concat (map (residue_piece m) pieces)
      in if list_ex (\<lambda>p. bp_placeholder p \<in> runs) placeholders then None
         else if \<not> placeholder_like_runs q residue \<subseteq> runs then None
         else if \<not> spoken_placeholder_indexes q residue \<subseteq> spoken_placeholder_indexes q source then None
         else Some (concat (map (restored_piece m) pieces)))"

text \<open>lastIndexOf, from the end back.\<close>

fun last_index_of :: "qstring \<Rightarrow> qstring \<Rightarrow> nat \<Rightarrow> nat option" where
  "last_index_of p s n = (if starts_with (drop n s) p \<and> n + length p \<le> length s then Some n
     else case n of 0 \<Rightarrow> None | Suc m \<Rightarrow> last_index_of p s m)"

declare last_index_of.simps [simp del]

definition preview_text :: "qstring \<Rightarrow> qstring" where
  "preview_text text = (case last_index_of ''SPEECHER'' text (length text) of
     None \<Rightarrow> text
   | Some tail \<Rightarrow>
       (let rest = drop tail text;
            digits = takeWhile digit_char (drop (length k_placeholder_stem) rest)
        in if \<not> starts_with rest k_placeholder_stem \<or> digits = []
              \<or> tail + length k_placeholder_stem + length digits = length text
           then take tail text else text))"

definition restore_for_preview :: "qstring \<Rightarrow> (qstring \<rightharpoonup> qstring) \<Rightarrow> qstring" where
  "restore_for_preview text m = concat (map (restored_piece m) (placeholder_pieces False (preview_text text)))"

end
