(* ===== verification/Binding_Rules.thy ===== *)
theory Binding_Rules
  imports Bindings
begin

text \<open>
  core/BindingProcessor.cpp: the binding rules a person edits or imports are
  checked row by row (\<^term>\<open>validate_rules\<close>); the JSON text itself is QJsonDocument's,
  a parameter. core/bindings/NoBindDirectiveParser.cpp: the spoken "do not
  bind that" and the phrases it leaves out (\<^term>\<open>excluded_phrases\<close>).
\<close>

section \<open>Checking the rules\<close>

datatype issue_type = EmptyPhrase | EmptyReplacement | DuplicatePhrase

record validation_issue =
  vi_type :: issue_type
  vi_row :: nat
  vi_duplicate_of :: int
  vi_message :: qstring

definition validation_message :: "issue_type \<Rightarrow> nat \<Rightarrow> nat \<Rightarrow> qstring" where
  "validation_message ty row duplicate_of = (case ty of
     EmptyPhrase \<Rightarrow> ''Row '' @ decimal (row + 1) @ '' needs a spoken phrase containing at least one letter or number.''
   | EmptyReplacement \<Rightarrow> ''Row '' @ decimal (row + 1) @ '' needs replacement text.''
   | DuplicatePhrase \<Rightarrow> ''Row '' @ decimal (row + 1) @ '' duplicates the normalized spoken phrase from row ''
       @ decimal (duplicate_of + 1) @ ''.'')"

record validation_result =
  vr_issues :: "validation_issue list"
  vr_rules :: "binding_rule list"

definition vr_ok :: "validation_result \<Rightarrow> bool" where
  "vr_ok r \<longleftrightarrow> vr_issues r = []"

definition vr_messages :: "validation_result \<Rightarrow> qstring list" where
  "vr_messages r = map vi_message (vr_issues r)"

definition empty_issue :: "issue_type \<Rightarrow> nat \<Rightarrow> validation_issue" where
  "empty_issue ty row = \<lparr>vi_type = ty, vi_row = row, vi_duplicate_of = -1, vi_message = validation_message ty row 0\<rparr>"

fun validate_from :: "qchars \<Rightarrow> nat \<Rightarrow> (qstring \<rightharpoonup> nat) \<Rightarrow> binding_rule list \<Rightarrow> validation_result" where
  "validate_from q row seen [] = \<lparr>vr_issues = [], vr_rules = []\<rparr>"
| "validate_from q row seen (r # rs) =
     (let phrase = trimmed q (br_phrase r);
          tokens = normalized_tokens q phrase;
          normalized = join '' '' tokens;
          skip = (\<lambda>issue. let rest = validate_from q (Suc row) seen rs in rest\<lparr>vr_issues := issue # vr_issues rest\<rparr>)
      in if phrase = [] \<or> tokens = [] then skip (empty_issue EmptyPhrase row)
         else if trimmed q (br_replacement r) = [] then skip (empty_issue EmptyReplacement row)
         else case seen normalized of
           Some d \<Rightarrow> skip \<lparr>vi_type = DuplicatePhrase, vi_row = row, vi_duplicate_of = int d,
             vi_message = validation_message DuplicatePhrase row d\<rparr>
         | None \<Rightarrow> (let rest = validate_from q (Suc row) (seen(normalized \<mapsto> row)) rs
             in rest\<lparr>vr_rules := r\<lparr>br_phrase := phrase\<rparr> # vr_rules rest\<rparr>))"

definition validate_rules :: "qchars \<Rightarrow> binding_rule list \<Rightarrow> validation_result" where
  "validate_rules q rules = validate_from q 0 Map.empty rules"

section \<open>Importing\<close>

text \<open>
  A parsed document: QJsonObject keeps its keys in order, the last value of a
  repeated key. What it is read from is QJsonDocument's.
\<close>

datatype json = JString qstring | JArray "json list" | JObject "(qstring \<times> json) list" | JOther

definition json_member :: "qstring \<Rightarrow> json \<Rightarrow> json option" where
  "json_member k j = (case j of JObject ms \<Rightarrow> map_of ms k | _ \<Rightarrow> None)"

definition json_text :: "json option \<Rightarrow> qstring \<Rightarrow> qstring" where
  "json_text j otherwise = (case j of Some (JString s) \<Rightarrow> s | _ \<Rightarrow> otherwise)"

definition rule_of_json :: "json \<Rightarrow> binding_rule" where
  "rule_of_json j = \<lparr>
     br_phrase = json_text (json_member ''phrase'' j) (json_text (json_member ''trigger'' j) []),
     br_replacement = json_text (json_member ''replacement'' j)
       (json_text (json_member ''expansion'' j) (json_text (json_member ''text'' j) []))\<rparr>"

fun rules_of_members :: "(qstring \<times> json) list \<Rightarrow> binding_rule list" where
  "rules_of_members [] = []"
| "rules_of_members ((k, v) # ms) = (case v of
     JString s \<Rightarrow> \<lparr>br_phrase = k, br_replacement = s\<rparr> # rules_of_members ms
   | _ \<Rightarrow> rules_of_members ms)"

text \<open>\<^term>\<open>parse\<close> is fromJson: the error's text, or the document. The result is an error or the rules.\<close>

definition parse_json_import ::
  "qchars \<Rightarrow> (qstring \<Rightarrow> qstring + json) \<Rightarrow> qstring \<Rightarrow> qstring + binding_rule list" where
  "parse_json_import q parse text = (case parse text of
     Inl e \<Rightarrow> Inl (''Invalid JSON: '' @ e)
   | Inr document \<Rightarrow>
      (let checked = (\<lambda>rules. let v = validate_rules q rules in
             if vr_ok v then Inr (vr_rules v) else Inl (join [CHR 0x0A] (vr_messages v)))
       in case document of
         JArray js \<Rightarrow> checked (map rule_of_json js)
       | JObject ms \<Rightarrow> (case map_of ms ''snippets'' of
            Some (JArray js) \<Rightarrow> checked (map rule_of_json js)
          | _ \<Rightarrow> checked (rules_of_members ms))
       | _ \<Rightarrow> Inl ''Snippet JSON must be an array or object.''))"

section \<open>The words a refinement should know\<close>

fun add_terms :: "qchars \<Rightarrow> qstring list \<Rightarrow> qstring set \<Rightarrow> qstring list \<times> qstring set" where
  "add_terms q [] seen = ([], seen)"
| "add_terms q (c # cs) seen =
     (let term = simplified q c; key = case_folded q term in
      if term \<noteq> [] \<and> key \<notin> seen
      then (let (ts, seen') = add_terms q cs (insert key seen) in (term # ts, seen'))
      else add_terms q cs seen)"

definition refinement_vocabulary :: "qchars \<Rightarrow> binding_rule list \<Rightarrow> qstring list" where
  "refinement_vocabulary q rules = fst (add_terms q
     (concat (map (\<lambda>r. let phrase = trimmed q (br_phrase r) in [phrase, normalized_phrase q phrase])
        (vr_rules (validate_rules q rules)))) {})"

section \<open>Directives not to bind\<close>

record directive =
  ds_start_token :: nat
  ds_end_token :: nat
  ds_start :: nat
  ds_end :: nat
  ds_target_follows :: bool

definition token_is :: "token list \<Rightarrow> nat \<Rightarrow> qstring list \<Rightarrow> bool" where
  "token_is ts i ws \<longleftrightarrow> i < length ts \<and> tk_text (ts ! i) \<in> set ws"

text \<open>How many tokens a negation at an index has, None for no negation there.\<close>

definition negation_at :: "token list \<Rightarrow> nat \<Rightarrow> nat option" where
  "negation_at ts i =
     (if token_is ts i [''not'', ''never'', ''dont''] then Some 1
      else if token_is ts i [''don''] \<and> token_is ts (Suc i) [''t''] then Some 2
      else if token_is ts i [''do''] \<and> token_is ts (Suc i) [''not''] then Some 2
      else None)"

text \<open>The loops over a range of indexes, to the first that satisfies the test.\<close>

definition first_index :: "nat \<Rightarrow> nat \<Rightarrow> (nat \<Rightarrow> bool) \<Rightarrow> nat option" where
  "first_index from until p = find p [from..<until]"

definition turn_action :: "token list \<Rightarrow> nat \<Rightarrow> nat option" where
  "turn_action ts i =
     (case first_index (Suc i) (min (length ts) (i + 8)) (\<lambda>k. token_is ts k [''into'']) of
        None \<Rightarrow> None
      | Some into \<Rightarrow> first_index (Suc into) (min (length ts) (into + 5))
          (\<lambda>k. token_is ts k [''binding'', ''bindings'']))"

definition action_at :: "token list \<Rightarrow> nat \<Rightarrow> nat option" where
  "action_at ts i =
     (if token_is ts i [''bind'', ''binding'', ''bindings'', ''replace'', ''replaces'', ''replacing'', ''replacement'']
      then Some i
      else if token_is ts i [''turn''] then turn_action ts i
      else None)"

fun first_action :: "token list \<Rightarrow> nat list \<Rightarrow> nat option" where
  "first_action ts [] = None"
| "first_action ts (i # is) = (case action_at ts i of Some e \<Rightarrow> Some e | None \<Rightarrow> first_action ts is)"

definition find_binding_action :: "token list \<Rightarrow> nat \<Rightarrow> nat option" where
  "find_binding_action ts start = first_action ts [start..<min (length ts) (start + 12)]"

definition directive_at :: "token list \<Rightarrow> nat \<Rightarrow> directive option" where
  "directive_at ts i = (case negation_at ts i of
     None \<Rightarrow> None
   | Some n \<Rightarrow> (case find_binding_action ts (i + n) of
        None \<Rightarrow> None
      | Some e \<Rightarrow>
          (let anaphora = list_ex (\<lambda>k. token_is ts k [''that'', ''this'', ''it''])
                 [i + n..<Suc (min (length ts - 1) (Suc e))]
           in Some \<lparr>ds_start_token = i, ds_end_token = Suc e, ds_start = tk_start (ts ! i),
                ds_end = tk_end (ts ! e), ds_target_follows = (Suc e < length ts \<and> \<not> anaphora)\<rparr>)))"

definition directive_spans :: "qchars \<Rightarrow> qstring \<Rightarrow> directive list" where
  "directive_spans q text = (let ts = tokenize q text in List.map_filter (directive_at ts) [0..<length ts])"

definition has_directive :: "qchars \<Rightarrow> qstring \<Rightarrow> bool" where
  "has_directive q text \<longleftrightarrow> directive_spans q text \<noteq> []"

definition append_no_bind_phrase :: "qchars \<Rightarrow> binding_rule \<Rightarrow> qstring list \<Rightarrow> qstring list" where
  "append_no_bind_phrase q r phrases =
     (let n = normalized_phrase q (br_phrase r) in
      if n \<noteq> [] \<and> n \<notin> set phrases then phrases @ [n] else phrases)"

definition match_inside :: "binding_match \<Rightarrow> directive \<Rightarrow> bool" where
  "match_inside m d \<longleftrightarrow> ds_start_token d \<le> bm_start_token m
     \<and> bm_start_token m + bm_token_count m \<le> ds_end_token d"

text \<open>
  The nearest match: the first of those with the least distance, at most eight
  tokens away. \<^term>\<open>distance\<close> is None for a match on the other side.
\<close>

fun nearest_match :: "(binding_match \<Rightarrow> nat option) \<Rightarrow> (nat \<times> binding_match) option \<Rightarrow> binding_match list
    \<Rightarrow> (nat \<times> binding_match) option" where
  "nearest_match distance best [] = best"
| "nearest_match distance best (m # ms) = nearest_match distance
     (case distance m of
        None \<Rightarrow> best
      | Some d \<Rightarrow> if d \<le> 8 \<and> (case best of None \<Rightarrow> True | Some (b, _) \<Rightarrow> d < b) then Some (d, m) else best) ms"

definition distance_before :: "directive \<Rightarrow> binding_match \<Rightarrow> nat option" where
  "distance_before d m = (let e = bm_start_token m + bm_token_count m in
     if ds_start_token d < e then None else Some (ds_start_token d - e))"

definition distance_after :: "directive \<Rightarrow> binding_match \<Rightarrow> nat option" where
  "distance_after d m =
     (if bm_start_token m < ds_end_token d then None else Some (bm_start_token m - ds_end_token d))"

definition exclude_directive ::
  "qchars \<Rightarrow> binding_match list \<Rightarrow> directive \<Rightarrow> qstring list \<Rightarrow> qstring list" where
  "exclude_directive q ms d phrases =
     (let inside = filter (\<lambda>m. match_inside m d) ms in
      if inside \<noteq> [] then foldl (\<lambda>ps m. append_no_bind_phrase q (bm_rule m) ps) phrases inside
      else case nearest_match (if ds_target_follows d then distance_after d else distance_before d) None ms of
        None \<Rightarrow> phrases
      | Some (_, m) \<Rightarrow> append_no_bind_phrase q (bm_rule m) phrases)"

definition excluded_phrases :: "qchars \<Rightarrow> qstring \<Rightarrow> binding_rule list \<Rightarrow> qstring list" where
  "excluded_phrases q transcript rules =
     (let ds = directive_spans q transcript in
      if ds = [] then []
      else foldl (\<lambda>ps d. exclude_directive q (find_matches q transcript rules) d ps) [] ds)"

definition explicit_no_bind_phrases :: "qchars \<Rightarrow> qstring \<Rightarrow> binding_rule list \<Rightarrow> qstring list" where
  "explicit_no_bind_phrases q transcript rules =
     excluded_phrases q transcript (vr_rules (validate_rules q rules))"


section \<open>What the checks and the directives give\<close>

definition rule_words :: "qchars \<Rightarrow> binding_rule \<Rightarrow> qstring" where
  "rule_words q r = join '' '' (normalized_tokens q (trimmed q (br_phrase r)))"

definition usable_rule :: "qchars \<Rightarrow> binding_rule \<Rightarrow> bool" where
  "usable_rule q r \<longleftrightarrow> trimmed q (br_phrase r) \<noteq> [] \<and> normalized_tokens q (trimmed q (br_phrase r)) \<noteq> []
     \<and> trimmed q (br_replacement r) \<noteq> []"

abbreviation clean_rule :: "qchars \<Rightarrow> binding_rule \<Rightarrow> binding_rule" where
  "clean_rule q r \<equiv> r\<lparr>br_phrase := trimmed q (br_phrase r)\<rparr>"

lemma rule_words_clean [simp]: "rule_words q (clean_rule q r) = rule_words q r"
    "usable_rule q (clean_rule q r) = usable_rule q r"
  by (simp_all add: rule_words_def usable_rule_def)

lemma validate_from_keeps:
  assumes "usable_rule q r" "seen (rule_words q r) = None"
  shows "validate_from q row seen (r # rs) = (let rest = validate_from q (Suc row) (seen(rule_words q r \<mapsto> row)) rs
    in rest\<lparr>vr_rules := clean_rule q r # vr_rules rest\<rparr>)"
  using assms by (simp add: usable_rule_def rule_words_def Let_def)

lemma validate_from_reports:
  assumes "\<not> (usable_rule q r \<and> seen (rule_words q r) = None)"
  shows "\<exists>i. vi_row i = row \<and> validate_from q row seen (r # rs) = (let rest = validate_from q (Suc row) seen rs
    in rest\<lparr>vr_issues := i # vr_issues rest\<rparr>)"
proof -
  consider "trimmed q (br_phrase r) = [] \<or> normalized_tokens q (trimmed q (br_phrase r)) = []"
    | "trimmed q (br_phrase r) \<noteq> []" "normalized_tokens q (trimmed q (br_phrase r)) \<noteq> []" "trimmed q (br_replacement r) = []"
    | d where "usable_rule q r" "seen (rule_words q r) = Some d"
    using assms by (auto simp: usable_rule_def)
  thus ?thesis
  proof cases
    case 1
    thus ?thesis by (intro exI[of _ "empty_issue EmptyPhrase row"]) (auto simp: empty_issue_def Let_def)
  next
    case 2
    thus ?thesis by (intro exI[of _ "empty_issue EmptyReplacement row"]) (simp add: empty_issue_def Let_def)
  next
    case (3 d)
    thus ?thesis by (intro exI conjI) (auto simp: usable_rule_def rule_words_def Let_def)
  qed
qed

lemma compile_from_keeps:
  "usable_rule q r \<Longrightarrow> rule_words q r \<notin> s \<Longrightarrow> map cr_rule (compile_from q n s (r # rs))
     = clean_rule q r # map cr_rule (compile_from q (Suc n) (insert (rule_words q r) s) rs)"
  by (simp add: usable_rule_def rule_words_def Let_def)

lemma validated_rules_kept:
  "dom seen = dom seen' \<Longrightarrow>
   vr_issues (validate_from q n seen' (vr_rules (validate_from q row seen rs))) = []
   \<and> vr_rules (validate_from q n seen' (vr_rules (validate_from q row seen rs))) = vr_rules (validate_from q row seen rs)
   \<and> map cr_rule (compile_from q n (dom seen) (vr_rules (validate_from q row seen rs)))
       = vr_rules (validate_from q row seen rs)"
proof (induction rs arbitrary: row seen n seen')
  case (Cons r rs)
  show ?case
  proof (cases "usable_rule q r \<and> seen (rule_words q r) = None")
    case True
    hence new: "seen' (rule_words q r) = None" "rule_words q r \<notin> dom seen" using Cons.prems by (metis domIff)+
    define seen2 where "seen2 = seen(rule_words q r \<mapsto> row)"
    define seen2' where "seen2' = seen'(rule_words q r \<mapsto> n)"
    let ?rest = "vr_rules (validate_from q (Suc row) seen2 rs)"
    have doms: "dom seen2 = insert (rule_words q r) (dom seen)" "dom seen2 = dom seen2'"
      using Cons.prems by (simp_all add: seen2_def seen2'_def)
    have "validate_from q row seen (r # rs) = (let rest = validate_from q (Suc row) seen2 rs
        in rest\<lparr>vr_rules := clean_rule q r # vr_rules rest\<rparr>)"
      unfolding seen2_def using True by (intro validate_from_keeps) auto
    hence rules: "vr_rules (validate_from q row seen (r # rs)) = clean_rule q r # ?rest" by (simp add: Let_def)
    have "validate_from q n seen' (clean_rule q r # ?rest)
        = (let rest = validate_from q (Suc n) seen2' ?rest in rest\<lparr>vr_rules := clean_rule q r # vr_rules rest\<rparr>)"
      unfolding seen2'_def
      using validate_from_keeps[of q "clean_rule q r" seen' n ?rest] True new(1) by (simp only: rule_words_clean) simp
    moreover have "map cr_rule (compile_from q n (dom seen) (clean_rule q r # ?rest)) = clean_rule q r
        # map cr_rule (compile_from q (Suc n) (dom seen2) ?rest)"
      unfolding doms(1)
      using compile_from_keeps[of q "clean_rule q r" "dom seen" n ?rest] True new(2) by (simp only: rule_words_clean) simp
    ultimately show ?thesis using Cons.IH[OF doms(2), of "Suc n" "Suc row"] unfolding rules by (simp add: Let_def)
  next
    case False
    then obtain i where "validate_from q row seen (r # rs) = (let rest = validate_from q (Suc row) seen rs
        in rest\<lparr>vr_issues := i # vr_issues rest\<rparr>)" using validate_from_reports by blast
    thus ?thesis using Cons.IH[OF Cons.prems] by (simp add: Let_def del: validate_from.simps compile_from.simps)
  qed
qed simp

lemma validate_from_counts:
  "length (vr_issues (validate_from q row seen rs)) + length (vr_rules (validate_from q row seen rs)) = length rs
   \<and> sorted_wrt (<) (map vi_row (vr_issues (validate_from q row seen rs)))
   \<and> (\<forall>i\<in>set (vr_issues (validate_from q row seen rs)). row \<le> vi_row i)"
proof (induction rs arbitrary: row seen)
  case (Cons r rs)
  show ?case
  proof (cases "usable_rule q r \<and> seen (rule_words q r) = None")
    case True
    define seen2 where "seen2 = seen(rule_words q r \<mapsto> row)"
    have "validate_from q row seen (r # rs) = (let rest = validate_from q (Suc row) seen2 rs
        in rest\<lparr>vr_rules := clean_rule q r # vr_rules rest\<rparr>)"
      unfolding seen2_def using True by (intro validate_from_keeps) auto
    thus ?thesis using Cons.IH[of "Suc row" seen2] by (auto simp: Let_def dest: Suc_leD)
  next
    case False
    then obtain i where "vi_row i = row" "validate_from q row seen (r # rs) = (let rest = validate_from q (Suc row) seen rs
        in rest\<lparr>vr_issues := i # vr_issues rest\<rparr>)" using validate_from_reports by blast
    thus ?thesis using Cons.IH[of "Suc row" seen]
      by (auto simp: Let_def Suc_le_eq less_imp_le simp del: validate_from.simps)
  qed
qed simp

lemma append_no_bind_phrase_set:
  "set (append_no_bind_phrase q r ps) \<subseteq> insert (normalized_phrase q (br_phrase r)) (set ps)"
  "distinct ps \<Longrightarrow> distinct (append_no_bind_phrase q r ps)"
  by (auto simp: append_no_bind_phrase_def Let_def)

lemma nearest_match_member:
  "nearest_match f best ms = Some (d, m) \<Longrightarrow> m \<in> set ms \<or> best = Some (d, m)"
  by (induction f best ms rule: nearest_match.induct) (auto split: option.splits if_splits)

definition matched_phrases :: "qchars \<Rightarrow> binding_match list \<Rightarrow> qstring set" where
  "matched_phrases q ms = (\<lambda>m. normalized_phrase q (br_phrase (bm_rule m))) ` set ms"

lemma append_all_phrases:
  "set inside \<subseteq> set ms \<Longrightarrow> set ps \<subseteq> matched_phrases q ms \<and> distinct ps \<Longrightarrow>
   set (foldl (\<lambda>ps m. append_no_bind_phrase q (bm_rule m) ps) ps inside) \<subseteq> matched_phrases q ms
   \<and> distinct (foldl (\<lambda>ps m. append_no_bind_phrase q (bm_rule m) ps) ps inside)"
proof (induction inside arbitrary: ps)
  case (Cons m inside)
  hence "normalized_phrase q (br_phrase (bm_rule m)) \<in> matched_phrases q ms" by (auto simp: matched_phrases_def)
  hence "set (append_no_bind_phrase q (bm_rule m) ps) \<subseteq> matched_phrases q ms
      \<and> distinct (append_no_bind_phrase q (bm_rule m) ps)"
    using append_no_bind_phrase_set Cons.prems by blast
  with Cons show ?case by simp
qed simp

lemma exclude_directive_phrases:
  assumes "set ps \<subseteq> matched_phrases q ms \<and> distinct ps"
  shows "set (exclude_directive q ms d ps) \<subseteq> matched_phrases q ms \<and> distinct (exclude_directive q ms d ps)"
proof -
  have one: "set (append_no_bind_phrase q (bm_rule m) ps) \<subseteq> matched_phrases q ms
      \<and> distinct (append_no_bind_phrase q (bm_rule m) ps)" if "m \<in> set ms" for m
    using append_all_phrases[OF _ assms, of "[m]"] that by simp
  have "set (filter (\<lambda>m. match_inside m d) ms) \<subseteq> set ms" by auto
  from append_all_phrases[OF this assms] show ?thesis
    using one assms by (auto simp: exclude_directive_def Let_def split: option.splits dest!: nearest_match_member)
qed

section \<open>Properties\<close>

text \<open>
  The rules the check lets through are clean: checking them again reports nothing and changes nothing,
  and the matcher uses each of them as it is. Every row is kept or reported, once, in the order of the rows.
\<close>

theorem checked_rules_are_clean:
  "vr_ok (validate_rules q (vr_rules (validate_rules q rules)))
   \<and> vr_rules (validate_rules q (vr_rules (validate_rules q rules))) = vr_rules (validate_rules q rules)
   \<and> map cr_rule (compile_rules q (vr_rules (validate_rules q rules))) = vr_rules (validate_rules q rules)
   \<and> length (vr_issues (validate_rules q rules)) + length (vr_rules (validate_rules q rules)) = length rules
   \<and> sorted_wrt (<) (map vi_row (vr_issues (validate_rules q rules)))"
  using validated_rules_kept[of Map.empty Map.empty q 0 0 rules] validate_from_counts[of q 0 Map.empty rules]
  by (simp add: validate_rules_def vr_ok_def compile_rules_def)

text \<open>
  A spoken directive leaves out only phrases of rules found in the same transcript, each once; without a
  directive nothing is left out.
\<close>

theorem directives_exclude_what_was_found:
  "set (excluded_phrases q transcript rules) \<subseteq> matched_phrases q (find_matches q transcript rules)
   \<and> distinct (excluded_phrases q transcript rules)
   \<and> (excluded_phrases q transcript rules = [] \<or> has_directive q transcript)"
proof -
  let ?ms = "find_matches q transcript rules"
  have "set (foldl (\<lambda>ps d. exclude_directive q ?ms d ps) ps ds) \<subseteq> matched_phrases q ?ms
      \<and> distinct (foldl (\<lambda>ps d. exclude_directive q ?ms d ps) ps ds)"
    if "set ps \<subseteq> matched_phrases q ?ms \<and> distinct ps" for ps ds
    using that by (induction ds arbitrary: ps) (simp_all add: exclude_directive_phrases)
  from this[of "[]"] show ?thesis by (simp add: excluded_phrases_def has_directive_def Let_def)
qed

end
