(* ===== verification/List_Edits.thy ===== *)
theory List_Edits
  imports Vocabulary Binding_Rules
begin

text \<open>
  core/SettingsEdit.h: what the edits of a person's lists share. An edit of an
  entry is made on a copy, checked, which may tidy it, and stored when nothing is
  refused; a removal gives the edit that undoes it. The locale \<open>edited_list\<close> is the
  contract between an edit and its check: what a check lets through clashes with no
  other entry, so no list ever holds two that clash.
\<close>

datatype edit_refusal = NoRefusal | Blank | Taken | Incomplete | Missing | BuiltIn

type_synonym 'e check = "'e \<Rightarrow> nat option \<Rightarrow> edit_refusal \<times> 'e"

definition change_entry :: "'e list \<Rightarrow> nat option \<Rightarrow> ('e \<Rightarrow> 'e) \<Rightarrow> 'e check \<Rightarrow> edit_refusal \<times> 'e list" where
  "change_entry xs index change check =
     (case index of None \<Rightarrow> (Missing, xs)
      | Some i \<Rightarrow> (let (refusal, e) = check (change (xs ! i)) (Some i)
          in (refusal, if refusal = NoRefusal then xs[i := e] else xs)))"

definition append_entry :: "'e list \<Rightarrow> 'e \<Rightarrow> 'e check \<Rightarrow> edit_refusal \<times> 'e list" where
  "append_entry xs e check =
     (let (refusal, e) = check e None in (refusal, if refusal = NoRefusal then xs @ [e] else xs))"

definition take_entry :: "'e list \<Rightarrow> nat \<Rightarrow> 'e list" where
  "take_entry xs i = take i xs @ drop (Suc i) xs"

definition put_back :: "('e \<Rightarrow> 'e \<Rightarrow> bool) \<Rightarrow> nat \<Rightarrow> 'e \<Rightarrow> 'e list \<Rightarrow> 'e list" where
  "put_back same i removed back =
     (if \<exists>e\<in>set back. same e removed then back
      else (let k = min i (length back) in take k back @ removed # drop k back))"

text \<open>The index of the first entry picked; whether another entry than the one at self is the same.\<close>

fun index_where :: "('e \<Rightarrow> bool) \<Rightarrow> 'e list \<Rightarrow> nat option" where
  "index_where P [] = None"
| "index_where P (x # xs) = (if P x then Some 0 else map_option Suc (index_where P xs))"

definition taken_by_another :: "'e list \<Rightarrow> nat option \<Rightarrow> 'e \<Rightarrow> ('e \<Rightarrow> 'e \<Rightarrow> bool) \<Rightarrow> bool" where
  "taken_by_another xs self e same \<longleftrightarrow> list_ex (\<lambda>i. Some i \<noteq> self \<and> same (xs ! i) e) [0..<length xs]"

lemma index_where_Some:
  "index_where P xs = Some i \<Longrightarrow> i < length xs \<and> P (xs ! i) \<and> (\<forall>j<i. \<not> P (xs ! j))"
proof (induction xs arbitrary: i)
  case (Cons x xs)
  thus ?case by (cases i) (auto split: if_splits simp: less_Suc_eq_0_disj)
qed simp

lemma index_where_less: "index_where P xs = Some i \<Longrightarrow> i < length xs"
  using index_where_Some by blast

lemma index_where_None: "index_where P xs = None \<longleftrightarrow> (\<forall>x\<in>set xs. \<not> P x)"
  by (induction xs) auto

lemma take_entry_nth:
  "i < length xs \<Longrightarrow> j < length xs - 1 \<Longrightarrow> take_entry xs i ! j = xs ! (if j < i then j else Suc j)"
  by (auto simp: take_entry_def nth_append min_def)

lemma take_entry_length [simp]: "i < length xs \<Longrightarrow> length (take_entry xs i) = length xs - 1"
  by (simp add: take_entry_def min_def)

lemma take_entry_set: "set (take_entry xs i) \<subseteq> set xs"
  by (auto simp: take_entry_def dest: in_set_takeD in_set_dropD)

lemma put_back_set: "set (put_back same i e xs) \<subseteq> insert e (set xs)"
  by (auto simp: put_back_def Let_def dest: in_set_takeD in_set_dropD)

lemma take_entry_sorted: "i < length xs \<Longrightarrow> sorted (map f xs) \<Longrightarrow> sorted (map f (take_entry xs i))"
  by (subst (asm) id_take_nth_drop[of i xs]) (auto simp: take_entry_def sorted_append)

lemma take_entry_distinct: "i < length xs \<Longrightarrow> distinct (map f xs) \<Longrightarrow> distinct (map f (take_entry xs i))"
  by (subst (asm) id_take_nth_drop[of i xs]) (auto simp: take_entry_def)

section \<open>No two entries clash\<close>

text \<open>No two entries of a list are the same by a relation, which is symmetric where it is used.\<close>

definition apart :: "('e \<Rightarrow> 'e \<Rightarrow> bool) \<Rightarrow> 'e list \<Rightarrow> bool" where
  "apart clash xs \<longleftrightarrow> sorted_wrt (\<lambda>a b. \<not> clash a b) xs"

lemma apart_simps [simp]:
  "apart clash []"
  "apart clash (x # xs) \<longleftrightarrow> (\<forall>y\<in>set xs. \<not> clash x y) \<and> apart clash xs"
  "apart clash (xs @ ys) \<longleftrightarrow> apart clash xs \<and> apart clash ys \<and> (\<forall>x\<in>set xs. \<forall>y\<in>set ys. \<not> clash x y)"
  by (simp_all add: apart_def sorted_wrt_append)

lemma apart_or: "apart f xs \<Longrightarrow> apart g xs \<Longrightarrow> apart (\<lambda>a b. f a b \<or> g a b) xs"
  by (induction xs) auto

lemma apart_split: "i < length xs \<Longrightarrow> apart clash xs \<longleftrightarrow> apart clash (take i xs @ xs ! i # drop (Suc i) xs)"
  by (simp only: id_take_nth_drop[symmetric])

text \<open>Apart by a key: the keys are distinct.\<close>

lemma apart_key: "apart (\<lambda>a b. f a = f b) xs \<longleftrightarrow> distinct (map f xs)"
  by (induction xs) auto

locale edited_list =
  fixes clash :: "'e \<Rightarrow> 'e \<Rightarrow> bool"
    and check :: "'e list \<Rightarrow> 'e check"
    and ok :: "'e \<Rightarrow> bool"
  assumes clash_sym: "clash a b \<Longrightarrow> clash b a"
    and check_free: "check xs e self = (NoRefusal, e') \<Longrightarrow> i < length xs \<Longrightarrow> self \<noteq> Some i \<Longrightarrow> \<not> clash (xs ! i) e'"
    and check_ok: "check xs e self = (NoRefusal, e') \<Longrightarrow> ok e'"
begin

definition sound :: "'e list \<Rightarrow> bool" where
  "sound xs \<longleftrightarrow> apart clash xs \<and> (\<forall>e\<in>set xs. ok e)"

lemma sound_append: "sound xs \<Longrightarrow> sound (snd (append_entry xs e (check xs)))"
proof -
  assume s: "sound xs"
  obtain r e' where c: "check xs e None = (r, e')" by force
  show ?thesis
  proof (cases "r = NoRefusal")
    case True
    hence "\<forall>x\<in>set xs. \<not> clash x e'" using check_free[of xs e None e'] c by (auto simp: in_set_conv_nth)
    thus ?thesis using s True c check_ok[of xs e None e'] by (simp add: append_entry_def sound_def)
  qed (use s c in \<open>simp add: append_entry_def\<close>)
qed

lemma sound_update:
  assumes "sound xs" "i < length xs" "ok e" "\<And>j. j < length xs \<Longrightarrow> j \<noteq> i \<Longrightarrow> \<not> clash (xs ! j) e"
  shows "sound (xs[i := e])"
proof -
  have free: "\<not> clash d e" "\<not> clash e d" if d: "d \<in> set (take i xs) \<union> set (drop (Suc i) xs)" for d
  proof -
    obtain j where "j < length xs" "j \<noteq> i" "d = xs ! j"
    proof (cases "d \<in> set (take i xs)")
      case True
      then obtain j where "j < i" "d = xs ! j" using assms(2) by (auto simp: in_set_conv_nth)
      thus thesis using that[of j] assms(2) by simp
    next
      case False
      then obtain j where "j < length xs - Suc i" "d = xs ! (Suc i + j)" using d by (auto simp: in_set_conv_nth)
      thus thesis using that[of "Suc i + j"] by simp
    qed
    thus "\<not> clash d e" "\<not> clash e d" using assms(4) clash_sym by blast+
  qed
  have "apart clash (take i xs @ e # drop (Suc i) xs)"
    using assms(1,2) free by (simp add: sound_def apart_split)
  moreover have "\<forall>d\<in>set (take i xs @ e # drop (Suc i) xs). ok d"
    using assms(1,3) by (auto simp: sound_def dest: in_set_takeD in_set_dropD)
  ultimately show ?thesis using assms(2) by (simp add: upd_conv_take_nth_drop sound_def)
qed

lemma sound_change:
  assumes "sound xs" "\<And>i. index = Some i \<Longrightarrow> i < length xs"
  shows "sound (snd (change_entry xs index change (check xs)))"
proof (cases index)
  case (Some i)
  obtain r e' where c: "check xs (change (xs ! i)) (Some i) = (r, e')" by force
  show ?thesis
  proof (cases "r = NoRefusal")
    case True
    have "sound (xs[i := e'])"
      by (rule sound_update[OF assms(1) assms(2)[OF Some] check_ok[OF c[unfolded True]]])
        (use check_free[OF c[unfolded True]] in auto)
    thus ?thesis using Some c True by (simp add: change_entry_def)
  qed (use Some c assms(1) in \<open>simp add: change_entry_def\<close>)
qed (use assms(1) in \<open>simp add: change_entry_def\<close>)

lemma sound_take: "i < length xs \<Longrightarrow> sound xs \<Longrightarrow> sound (take_entry xs i)"
  using take_entry_set[of xs i] by (auto simp: sound_def take_entry_def apart_split[of i xs])

lemma sound_put_back:
  assumes "sound back" "ok removed" "\<And>e. clash e removed \<Longrightarrow> same e removed"
  shows "sound (put_back same i removed back)"
proof (cases "\<exists>e\<in>set back. same e removed")
  case False
  let ?k = "min i (length back)"
  have free: "\<not> clash e removed" "\<not> clash removed e" if "e \<in> set (take ?k back) \<union> set (drop ?k back)" for e
  proof -
    have "e \<in> set back" using that by (auto dest: in_set_takeD in_set_dropD)
    thus "\<not> clash e removed" "\<not> clash removed e" using False assms(3) clash_sym by blast+
  qed
  have "apart clash (take ?k back @ drop ?k back)" using assms(1) by (simp add: sound_def)
  hence "apart clash (take ?k back @ removed # drop ?k back)"
    using free unfolding apart_simps list.set by blast
  moreover have "\<forall>e\<in>set (take ?k back @ removed # drop ?k back). ok e"
    using assms(1,2) by (auto simp: sound_def dest: in_set_takeD in_set_dropD)
  ultimately show ?thesis using False by (simp add: put_back_def sound_def Let_def)
qed (use assms(1) in \<open>simp add: put_back_def\<close>)

end

text \<open>A removal undone at once leaves the list as it was.\<close>

lemma put_back_take:
  assumes "i < length xs" "\<And>j. j < length xs \<Longrightarrow> j \<noteq> i \<Longrightarrow> \<not> same (xs ! j) (xs ! i)"
  shows "put_back same i (xs ! i) (take_entry xs i) = xs"
proof -
  have "\<not> same e (xs ! i)" if "e \<in> set (take_entry xs i)" for e
  proof -
    from that obtain j where "j < length xs - 1" "e = take_entry xs i ! j"
      using assms(1) by (auto simp: in_set_conv_nth)
    hence "j < length xs - 1" "e = xs ! (if j < i then j else Suc j)" using assms(1) by (simp_all add: take_entry_nth)
    thus ?thesis using assms(2)[of "if j < i then j else Suc j"] by (auto split: if_splits)
  qed
  moreover have "take i (take_entry xs i) @ xs ! i # drop i (take_entry xs i) = xs"
    using assms(1) by (simp add: take_entry_def min_def id_take_nth_drop[symmetric])
  ultimately show ?thesis using assms(1) by (auto simp: put_back_def Let_def min_def)
qed

end
