(* ===== verification/Vocabulary_Edits.thy ===== *)
theory Vocabulary_Edits
  imports List_Edits
begin

text \<open>
  core/VocabularyEdits.cpp: the edits a person makes to the terms, the Learned
  Corrections and the replacements. A removal gives the edit that undoes it, None
  where nothing was removed.
\<close>

text \<open>The lists of AppSettings that the edits write.\<close>

record user_lists =
  ul_vocabulary :: "vocabulary_entry list"
  ul_corrections :: "learned_correction list"
  ul_bindings :: "binding_rule list"
  ul_recognition_rules :: "app_recognition_rule list"
  ul_overrides :: "writing_profile_override list"
  ul_profiles :: "writing_profile_settings list"

type_synonym 's undo = "('s \<Rightarrow> 's) option"

section \<open>Terms\<close>

definition listed_terms :: "qchars \<Rightarrow> 'a user_lists_scheme \<Rightarrow> 'a user_lists_scheme" where
  "listed_terms q s = s\<lparr>ul_vocabulary := normalize_vocabulary q (ul_vocabulary s)\<rparr>"

definition index_of_term :: "qchars \<Rightarrow> vocabulary_entry list \<Rightarrow> qstring \<Rightarrow> nat option" where
  "index_of_term q terms t = index_where (\<lambda>e. same_caseless q (ve_term e) (simplified q t)) terms"

definition check_term :: "qchars \<Rightarrow> writing_profile_settings list \<Rightarrow> vocabulary_entry list \<Rightarrow> vocabulary_entry check" where
  "check_term q profiles terms e self =
     (let e = e\<lparr>ve_term := simplified q (ve_term e), ve_context := trimmed q (ve_context e),
                ve_profiles := offered_vocabulary_profiles (ve_profiles e) profiles\<rparr>
      in (if ve_term e = [] then Blank
          else if taken_by_another terms self e (same_term q) then Taken else NoRefusal, e))"

definition add_vocabulary_entry ::
  "qchars \<Rightarrow> vocabulary_entry \<Rightarrow> 'a user_lists_scheme \<Rightarrow> edit_refusal \<times> 'a user_lists_scheme" where
  "add_vocabulary_entry q e s =
     (let s = listed_terms q s;
          (refusal, terms) = append_entry (ul_vocabulary s) e (check_term q (ul_profiles s) (ul_vocabulary s))
      in (refusal, s\<lparr>ul_vocabulary := terms\<rparr>))"

definition edit_vocabulary_entry ::
  "qchars \<Rightarrow> qstring \<Rightarrow> (vocabulary_entry \<Rightarrow> vocabulary_entry) \<Rightarrow> 'a user_lists_scheme \<Rightarrow>
   edit_refusal \<times> 'a user_lists_scheme" where
  "edit_vocabulary_entry q t change s =
     (let s = listed_terms q s;
          (refusal, terms) = change_entry (ul_vocabulary s) (index_of_term q (ul_vocabulary s) t) change
            (check_term q (ul_profiles s) (ul_vocabulary s))
      in (refusal, s\<lparr>ul_vocabulary := terms\<rparr>))"

definition remove_vocabulary_entry ::
  "qchars \<Rightarrow> qstring \<Rightarrow> 'a user_lists_scheme \<Rightarrow> 'a user_lists_scheme undo \<times> 'a user_lists_scheme" where
  "remove_vocabulary_entry q t s =
     (let s = listed_terms q s; terms = ul_vocabulary s in
      case index_of_term q terms t of
        None \<Rightarrow> (None, s)
      | Some i \<Rightarrow> (Some (\<lambda>draft. let draft = listed_terms q draft in
            draft\<lparr>ul_vocabulary := put_back (same_term q) i (terms ! i) (ul_vocabulary draft)\<rparr>),
          s\<lparr>ul_vocabulary := take_entry terms i\<rparr>))"

definition import_vocabulary_entries ::
  "qchars \<Rightarrow> vocabulary_entry list \<Rightarrow> 'a user_lists_scheme \<Rightarrow> int \<times> 'a user_lists_scheme" where
  "import_vocabulary_entries q incoming s =
     (let s = listed_terms q s; listed = length (ul_vocabulary s);
          s = s\<lparr>ul_vocabulary := normalize_vocabulary q (ul_vocabulary s @ incoming)\<rparr>
      in (int (length (ul_vocabulary s)) - int listed, s))"

section \<open>Learned Corrections\<close>

definition same_correction :: "qchars \<Rightarrow> learned_correction \<Rightarrow> learned_correction \<Rightarrow> bool" where
  "same_correction q a b \<longleftrightarrow> same_caseless q (lc_original a) (lc_original b)
     \<and> same_caseless q (lc_application_id a) (lc_application_id b)"

definition check_correction :: "qchars \<Rightarrow> learned_correction list \<Rightarrow> learned_correction check" where
  "check_correction q corrections c self =
     (let c = c\<lparr>lc_original := trimmed q (lc_original c), lc_corrected := trimmed q (lc_corrected c)\<rparr>
      in (if lc_original c = [] then Blank
          else if lc_corrected c = [] then Incomplete
          else if taken_by_another corrections self c (same_correction q) then Taken else NoRefusal, c))"

definition edit_learned_correction ::
  "qchars \<Rightarrow> qstring \<Rightarrow> (learned_correction \<Rightarrow> learned_correction) \<Rightarrow> 'a user_lists_scheme \<Rightarrow>
   edit_refusal \<times> 'a user_lists_scheme" where
  "edit_learned_correction q i change s =
     (let (refusal, cs) = change_entry (ul_corrections s) (index_where (\<lambda>c. lc_id c = i) (ul_corrections s)) change
            (check_correction q (ul_corrections s))
      in (refusal, s\<lparr>ul_corrections := cs\<rparr>))"

definition same_or_id :: "qchars \<Rightarrow> learned_correction \<Rightarrow> learned_correction \<Rightarrow> bool" where
  "same_or_id q c removed \<longleftrightarrow> lc_id c = lc_id removed \<or> same_correction q c removed"

definition remove_learned_correction ::
  "qchars \<Rightarrow> qstring \<Rightarrow> 'a user_lists_scheme \<Rightarrow> 'a user_lists_scheme undo \<times> 'a user_lists_scheme" where
  "remove_learned_correction q i s =
     (let cs = ul_corrections s in
      case index_where (\<lambda>c. lc_id c = i) cs of
        None \<Rightarrow> (None, s)
      | Some n \<Rightarrow> (Some (\<lambda>draft. draft\<lparr>ul_corrections := put_back (same_or_id q) n (cs ! n) (ul_corrections draft)\<rparr>),
          s\<lparr>ul_corrections := take_entry cs n\<rparr>))"

section \<open>Replacements\<close>

definition same_phrase :: "qchars \<Rightarrow> binding_rule \<Rightarrow> binding_rule \<Rightarrow> bool" where
  "same_phrase q a b \<longleftrightarrow> normalized_phrase q (br_phrase a) = normalized_phrase q (br_phrase b)"

definition check_replacement :: "qchars \<Rightarrow> binding_rule list \<Rightarrow> binding_rule check" where
  "check_replacement q rules r self =
     (let r = r\<lparr>br_phrase := trimmed q (br_phrase r)\<rparr>; alone = validate_rules q [r]
      in (if \<not> vr_ok alone then (if vi_type (hd (vr_issues alone)) = EmptyPhrase then Blank else Incomplete)
          else if taken_by_another rules self r (same_phrase q) then Taken else NoRefusal, r))"

definition index_of_phrase :: "qchars \<Rightarrow> binding_rule list \<Rightarrow> qstring \<Rightarrow> nat option" where
  "index_of_phrase q rules phrase = index_where (\<lambda>r. same_phrase q r \<lparr>br_phrase = phrase, br_replacement = []\<rparr>) rules"

definition add_binding_rule ::
  "qchars \<Rightarrow> binding_rule \<Rightarrow> 'a user_lists_scheme \<Rightarrow> edit_refusal \<times> 'a user_lists_scheme" where
  "add_binding_rule q r s =
     (let (refusal, rules) = append_entry (ul_bindings s) r (check_replacement q (ul_bindings s))
      in (refusal, s\<lparr>ul_bindings := rules\<rparr>))"

definition edit_binding_rule ::
  "qchars \<Rightarrow> qstring \<Rightarrow> (binding_rule \<Rightarrow> binding_rule) \<Rightarrow> 'a user_lists_scheme \<Rightarrow>
   edit_refusal \<times> 'a user_lists_scheme" where
  "edit_binding_rule q phrase change s =
     (let (refusal, rules) = change_entry (ul_bindings s) (index_of_phrase q (ul_bindings s) phrase) change
            (check_replacement q (ul_bindings s))
      in (refusal, s\<lparr>ul_bindings := rules\<rparr>))"

definition remove_binding_rule ::
  "qchars \<Rightarrow> qstring \<Rightarrow> 'a user_lists_scheme \<Rightarrow> 'a user_lists_scheme undo \<times> 'a user_lists_scheme" where
  "remove_binding_rule q phrase s =
     (let rules = ul_bindings s in
      case index_of_phrase q rules phrase of
        None \<Rightarrow> (None, s)
      | Some i \<Rightarrow> (Some (\<lambda>draft. draft\<lparr>ul_bindings := put_back (same_phrase q) i (rules ! i) (ul_bindings draft)\<rparr>),
          s\<lparr>ul_bindings := take_entry rules i\<rparr>))"

fun import_binding_rules ::
  "qchars \<Rightarrow> binding_rule list \<Rightarrow> 'a user_lists_scheme \<Rightarrow> nat \<times> 'a user_lists_scheme" where
  "import_binding_rules q [] s = (0, s)"
| "import_binding_rules q (r # rs) s =
     (let (refusal, s) = add_binding_rule q r s; (n, s) = import_binding_rules q rs s
      in (if refusal = NoRefusal then Suc n else n, s))"

section \<open>The lists stay sound\<close>

lemma taken_by_another_iff:
  "taken_by_another xs self e same \<longleftrightarrow> (\<exists>i<length xs. self \<noteq> Some i \<and> same (xs ! i) e)"
  by (auto simp: taken_by_another_def list_ex_iff)

definition term_ok :: "vocabulary_entry \<Rightarrow> bool" where
  "term_ok e \<longleftrightarrow> ve_term e \<noteq> []"

definition correction_ok :: "learned_correction \<Rightarrow> bool" where
  "correction_ok c \<longleftrightarrow> lc_original c \<noteq> [] \<and> lc_corrected c \<noteq> []"

lemma check_term_NoRefusal:
  "check_term q profiles terms e self = (NoRefusal, e') \<Longrightarrow>
   ve_term e' \<noteq> [] \<and> \<not> taken_by_another terms self e' (same_term q)"
  by (auto simp: check_term_def Let_def split: if_splits)

lemma check_correction_NoRefusal:
  "check_correction q cs c self = (NoRefusal, c') \<Longrightarrow> correction_ok c' \<and> \<not> taken_by_another cs self c' (same_correction q)"
  by (auto simp: check_correction_def correction_ok_def Let_def split: if_splits)

lemma validate_single: "vr_ok (validate_rules q [r]) \<longleftrightarrow> usable_rule q r"
  by (auto simp: validate_rules_def vr_ok_def usable_rule_def Let_def)

lemma check_replacement_NoRefusal:
  "check_replacement q rules r self = (NoRefusal, r') \<Longrightarrow> usable_rule q r' \<and> \<not> taken_by_another rules self r' (same_phrase q)"
  by (auto simp: check_replacement_def validate_single Let_def split: if_splits)

interpretation terms: edited_list "same_term q" "check_term q profiles" term_ok for q profiles
proof unfold_locales
  show "same_term q a b \<Longrightarrow> same_term q b a" for a b by (simp add: same_term_def same_caseless_sym)
qed (auto dest!: check_term_NoRefusal simp: taken_by_another_iff term_ok_def)

interpretation corrections: edited_list "same_correction q" "check_correction q" correction_ok for q
proof unfold_locales
  show "same_correction q a b \<Longrightarrow> same_correction q b a" for a b by (auto simp: same_correction_def same_caseless_def)
qed (auto dest!: check_correction_NoRefusal simp: taken_by_another_iff)

interpretation replacements: edited_list "same_phrase q" "check_replacement q" "usable_rule q" for q
proof unfold_locales
  show "same_phrase q a b \<Longrightarrow> same_phrase q b a" for a b by (simp add: same_phrase_def)
qed (auto dest!: check_replacement_NoRefusal simp: taken_by_another_iff)

lemmas edit_defs = add_vocabulary_entry_def edit_vocabulary_entry_def remove_vocabulary_entry_def
  import_vocabulary_entries_def edit_learned_correction_def remove_learned_correction_def
  add_binding_rule_def edit_binding_rule_def remove_binding_rule_def

definition sound_lists :: "qchars \<Rightarrow> 'a user_lists_scheme \<Rightarrow> bool" where
  "sound_lists q s \<longleftrightarrow> apart (same_term q) (ul_vocabulary s) \<and> (\<forall>e\<in>set (ul_vocabulary s). ve_term e \<noteq> [])
     \<and> apart (same_correction q) (ul_corrections s) \<and> (\<forall>c\<in>set (ul_corrections s). correction_ok c)
     \<and> apart (same_phrase q) (ul_bindings s) \<and> (\<forall>r\<in>set (ul_bindings s). usable_rule q r)"

lemma sound_lists_iff:
  "sound_lists q s \<longleftrightarrow> terms.sound q (ul_vocabulary s) \<and> corrections.sound q (ul_corrections s)
     \<and> replacements.sound q (ul_bindings s)"
  by (auto simp: sound_lists_def terms.sound_def corrections.sound_def replacements.sound_def term_ok_def)

text \<open>The normalised terms are sound whatever they came from.\<close>

lemma terms_sound_normal: "usual_space q \<Longrightarrow> terms.sound q (normalize_vocabulary q es)"
proof -
  assume "usual_space q"
  hence "normal q (normalize_vocabulary q es)" by (rule normal_normalized)
  moreover have "same_term q = (\<lambda>a b. folded q (ve_term a) = folded q (ve_term b))"
    by (intro ext) (simp add: same_term_def same_caseless_def)
  ultimately have "apart (same_term q) (normalize_vocabulary q es)"
    by (simp add: apart_key normal_def folded_terms_def)
  thus ?thesis using \<open>normal q _\<close> by (simp add: terms.sound_def normal_def term_ok_def entry_clean_def)
qed

lemma sound_import:
  "replacements.sound q (ul_bindings s) \<Longrightarrow> replacements.sound q (ul_bindings (snd (import_binding_rules q rs s)))
   \<and> ul_vocabulary (snd (import_binding_rules q rs s)) = ul_vocabulary s
   \<and> ul_corrections (snd (import_binding_rules q rs s)) = ul_corrections s"
proof (induction rs arbitrary: s)
  case (Cons r rs)
  obtain refusal s1 where s1: "add_binding_rule q r s = (refusal, s1)" by force
  hence "replacements.sound q (ul_bindings s1)" "ul_vocabulary s1 = ul_vocabulary s" "ul_corrections s1 = ul_corrections s"
    using replacements.sound_append[OF Cons.prems, of r] by (auto simp: add_binding_rule_def split: prod.splits)
  thus ?case using Cons.IH[of s1] s1 by (auto split: prod.splits)
qed simp

text \<open>What a person does to the lists: an edit, a removal, an import, or an undo of an earlier removal.\<close>

datatype list_edit =
  AddTerm vocabulary_entry
  | EditTerm qstring "vocabulary_entry \<Rightarrow> vocabulary_entry"
  | RemoveTerm qstring
  | ImportTerms "vocabulary_entry list"
  | EditCorrection qstring "learned_correction \<Rightarrow> learned_correction"
  | RemoveCorrection qstring
  | AddReplacement binding_rule
  | EditReplacement qstring "binding_rule \<Rightarrow> binding_rule"
  | RemoveReplacement qstring
  | ImportReplacements "binding_rule list"
  | UndoRemoval nat

text \<open>The draft with the undo edits the pages hold, newest first.\<close>

type_synonym draft = "user_lists \<times> (user_lists \<Rightarrow> user_lists) list"

definition with_undo :: "user_lists undo \<times> user_lists \<Rightarrow> (user_lists \<Rightarrow> user_lists) list \<Rightarrow> draft" where
  "with_undo r undos = (snd r, case fst r of Some u \<Rightarrow> u # undos | None \<Rightarrow> undos)"

fun apply_edit :: "qchars \<Rightarrow> list_edit \<Rightarrow> draft \<Rightarrow> draft" where
  "apply_edit q (AddTerm e) (s, us) = (snd (add_vocabulary_entry q e s), us)"
| "apply_edit q (EditTerm t f) (s, us) = (snd (edit_vocabulary_entry q t f s), us)"
| "apply_edit q (RemoveTerm t) (s, us) = with_undo (remove_vocabulary_entry q t s) us"
| "apply_edit q (ImportTerms es) (s, us) = (snd (import_vocabulary_entries q es s), us)"
| "apply_edit q (EditCorrection i f) (s, us) = (snd (edit_learned_correction q i f s), us)"
| "apply_edit q (RemoveCorrection i) (s, us) = with_undo (remove_learned_correction q i s) us"
| "apply_edit q (AddReplacement r) (s, us) = (snd (add_binding_rule q r s), us)"
| "apply_edit q (EditReplacement p f) (s, us) = (snd (edit_binding_rule q p f s), us)"
| "apply_edit q (RemoveReplacement p) (s, us) = with_undo (remove_binding_rule q p s) us"
| "apply_edit q (ImportReplacements rs) (s, us) = (snd (import_binding_rules q rs s), us)"
| "apply_edit q (UndoRemoval n) (s, us) = (if n < length us then ((us ! n) s, us) else (s, us))"

definition sound_draft :: "qchars \<Rightarrow> draft \<Rightarrow> bool" where
  "sound_draft q d \<longleftrightarrow> sound_lists q (fst d) \<and> (\<forall>u\<in>set (snd d). \<forall>s. sound_lists q s \<longrightarrow> sound_lists q (u s))"

lemma sound_with_undo:
  "sound_lists q (snd r) \<Longrightarrow> (\<And>u s. fst r = Some u \<Longrightarrow> sound_lists q s \<Longrightarrow> sound_lists q (u s)) \<Longrightarrow>
   sound_draft q (s0, us) \<Longrightarrow> sound_draft q (with_undo r us)"
  by (cases "fst r") (auto simp: with_undo_def sound_draft_def)

lemma sound_ok: "i < length xs \<Longrightarrow> \<forall>x\<in>set xs. P x \<Longrightarrow> P (xs ! i)"
  by simp

lemma sound_remove_term:
  assumes "usual_space q" "sound_lists q s"
  shows "sound_lists q (snd (remove_vocabulary_entry q t s))"
    "fst (remove_vocabulary_entry q t s) = Some u \<Longrightarrow> sound_lists q d \<Longrightarrow> sound_lists q (u d)"
proof -
  let ?ts = "normalize_vocabulary q (ul_vocabulary s)"
  note normal = terms_sound_normal[OF assms(1), of "ul_vocabulary s"]
  have i: "i < length ?ts" if "index_of_term q ?ts t = Some i" for i
    using that index_where_Some by (auto simp: index_of_term_def)
  show "sound_lists q (snd (remove_vocabulary_entry q t s))"
    using assms(2) normal i terms.sound_take[OF i normal]
    by (auto simp: remove_vocabulary_entry_def listed_terms_def sound_lists_iff Let_def split: option.split)
  assume u: "fst (remove_vocabulary_entry q t s) = Some u" and d: "sound_lists q d"
  then obtain n where n: "index_of_term q ?ts t = Some n"
    "u = (\<lambda>draft. let draft = listed_terms q draft in
       draft\<lparr>ul_vocabulary := put_back (same_term q) n (?ts ! n) (ul_vocabulary draft)\<rparr>)"
    by (auto simp: remove_vocabulary_entry_def listed_terms_def Let_def split: option.splits)
  have "term_ok (?ts ! n)" using normal i[OF n(1)] by (auto simp: terms.sound_def)
  hence "terms.sound q (put_back (same_term q) n (?ts ! n) (normalize_vocabulary q (ul_vocabulary d)))"
    by (rule terms.sound_put_back[OF terms_sound_normal[OF assms(1)]]) simp
  thus "sound_lists q (u d)" using d n(2) by (simp add: sound_lists_iff listed_terms_def Let_def)
qed

lemma sound_remove_correction:
  assumes "sound_lists q s"
  shows "sound_lists q (snd (remove_learned_correction q i s))"
    "fst (remove_learned_correction q i s) = Some u \<Longrightarrow> sound_lists q d \<Longrightarrow> sound_lists q (u d)"
proof -
  let ?cs = "ul_corrections s" and ?n = "index_where (\<lambda>c. lc_id c = i) (ul_corrections s)"
  have sound: "corrections.sound q ?cs" using assms by (simp add: sound_lists_iff)
  have n: "n < length ?cs" if "?n = Some n" for n using that index_where_Some by blast
  show "sound_lists q (snd (remove_learned_correction q i s))"
    using assms corrections.sound_take[OF n sound]
    by (auto simp: remove_learned_correction_def sound_lists_iff Let_def split: option.split)
  assume u: "fst (remove_learned_correction q i s) = Some u" and d: "sound_lists q d"
  then obtain k where k: "?n = Some k"
    "u = (\<lambda>draft. draft\<lparr>ul_corrections := put_back (same_or_id q) k (?cs ! k) (ul_corrections draft)\<rparr>)"
    by (auto simp: remove_learned_correction_def Let_def split: option.splits)
  have "correction_ok (?cs ! k)" using sound n[OF k(1)] by (auto simp: corrections.sound_def)
  hence "corrections.sound q (put_back (same_or_id q) k (?cs ! k) (ul_corrections d))"
    using d by (intro corrections.sound_put_back) (auto simp: sound_lists_iff same_or_id_def)
  thus "sound_lists q (u d)" using d k(2) by (simp add: sound_lists_iff)
qed

lemma sound_remove_replacement:
  assumes "sound_lists q s"
  shows "sound_lists q (snd (remove_binding_rule q p s))"
    "fst (remove_binding_rule q p s) = Some u \<Longrightarrow> sound_lists q d \<Longrightarrow> sound_lists q (u d)"
proof -
  let ?rs = "ul_bindings s"
  have sound: "replacements.sound q ?rs" using assms by (simp add: sound_lists_iff)
  have n: "n < length ?rs" if "index_of_phrase q ?rs p = Some n" for n
    using that index_where_Some by (auto simp: index_of_phrase_def)
  show "sound_lists q (snd (remove_binding_rule q p s))"
    using assms replacements.sound_take[OF n sound]
    by (auto simp: remove_binding_rule_def sound_lists_iff Let_def split: option.split)
  assume u: "fst (remove_binding_rule q p s) = Some u" and d: "sound_lists q d"
  then obtain k where k: "index_of_phrase q ?rs p = Some k"
    "u = (\<lambda>draft. draft\<lparr>ul_bindings := put_back (same_phrase q) k (?rs ! k) (ul_bindings draft)\<rparr>)"
    by (auto simp: remove_binding_rule_def Let_def split: option.splits)
  have "usable_rule q (?rs ! k)" using sound n[OF k(1)] by (auto simp: replacements.sound_def)
  hence "replacements.sound q (put_back (same_phrase q) k (?rs ! k) (ul_bindings d))"
    using d by (intro replacements.sound_put_back) (auto simp: sound_lists_iff)
  thus "sound_lists q (u d)" using d k(2) by (simp add: sound_lists_iff)
qed

lemma sound_edit:
  assumes q: "usual_space q" and d: "sound_draft q d"
  shows "sound_draft q (apply_edit q e d)"
proof -
  obtain s us where su: "d = (s, us)" by force
  have s: "sound_lists q s" using d su by (simp add: sound_draft_def)
  have parts: "terms.sound q (ul_vocabulary s)" "corrections.sound q (ul_corrections s)" "replacements.sound q (ul_bindings s)"
    using s by (simp_all add: sound_lists_iff)
  have "sound_lists q s' \<Longrightarrow> sound_draft q (s', us)" for s' using d su by (simp add: sound_draft_def)
  moreover have "sound_lists q (snd (add_vocabulary_entry q x s))" for x
    using s terms.sound_append[OF terms_sound_normal[OF q]]
    by (auto simp: add_vocabulary_entry_def listed_terms_def sound_lists_iff Let_def split: prod.split) (metis snd_conv)
  moreover have "sound_lists q (snd (edit_vocabulary_entry q t f s))" for t f
  proof -
    let ?ts = "normalize_vocabulary q (ul_vocabulary s)"
    have "terms.sound q (snd (change_entry ?ts (index_of_term q ?ts t) f (check_term q (ul_profiles s) ?ts)))"
      by (rule terms.sound_change[OF terms_sound_normal[OF q]]) (use index_where_Some in \<open>auto simp: index_of_term_def\<close>)
    thus ?thesis using s
      by (auto simp: edit_vocabulary_entry_def listed_terms_def sound_lists_iff Let_def split: prod.split)
  qed
  moreover have "sound_lists q (snd (import_vocabulary_entries q es s))" for es
    using s terms_sound_normal[OF q] by (simp add: import_vocabulary_entries_def listed_terms_def sound_lists_iff Let_def)
  moreover have "sound_lists q (snd (edit_learned_correction q i f s))" for i f
    using s corrections.sound_change[OF parts(2), of "index_where (\<lambda>c. lc_id c = i) (ul_corrections s)" f, OF index_where_less]
    by (auto simp: edit_learned_correction_def sound_lists_iff split: prod.split)
  moreover have "sound_lists q (snd (add_binding_rule q r s))" for r
    using s replacements.sound_append[OF parts(3), of r] by (auto simp: add_binding_rule_def sound_lists_iff split: prod.split)
  moreover have "sound_lists q (snd (edit_binding_rule q p f s))" for p f
    using s replacements.sound_change[OF parts(3),
        of "index_where (\<lambda>r. same_phrase q r \<lparr>br_phrase = p, br_replacement = []\<rparr>) (ul_bindings s)" f, OF index_where_less]
    by (auto simp: edit_binding_rule_def index_of_phrase_def sound_lists_iff split: prod.split)
  moreover have "sound_lists q (snd (import_binding_rules q rs s))" for rs
    using s sound_import[OF parts(3), of rs] by (simp add: sound_lists_iff)
  moreover have "sound_lists q ((us ! n) s)" if "n < length us" for n
    using d su s that by (auto simp: sound_draft_def)
  moreover have "sound_draft q (with_undo (remove_vocabulary_entry q t s) us)" for t
    using sound_with_undo[of q "remove_vocabulary_entry q t s" s us] sound_remove_term[OF q s, of t] d su by blast
  moreover have "sound_draft q (with_undo (remove_learned_correction q i s) us)" for i
    using sound_with_undo[of q "remove_learned_correction q i s" s us] sound_remove_correction[OF s, of i] d su by blast
  moreover have "sound_draft q (with_undo (remove_binding_rule q p s) us)" for p
    using sound_with_undo[of q "remove_binding_rule q p s" s us] sound_remove_replacement[OF s, of p] d su by blast
  ultimately show ?thesis unfolding su by (cases e) (simp_all add: d[unfolded su])
qed

text \<open>
  C29. Whatever a person does to the lists, in any order, removals undone late
  included, no two terms, corrections or replacements ever compete for the same
  words, and none is blank or incomplete.
\<close>

theorem edits_keep_the_lists_sound:
  assumes "usual_space q" "sound_lists q s"
  shows "sound_lists q (fst (fold (apply_edit q) edits (s, [])))"
proof -
  have "sound_draft q (fold (apply_edit q) edits d)" if "sound_draft q d" for d
    using that
  proof (induction edits arbitrary: d)
    case (Cons e edits)
    show ?case using Cons.IH[OF sound_edit[OF assms(1) Cons.prems]] by simp
  qed simp
  from this[of "(s, [])"] show ?thesis using assms(2) by (simp add: sound_draft_def)
qed

theorem edits_keep_the_lists_sound_witness:
  fixes s :: user_lists
  defines "s \<equiv> \<lparr>ul_vocabulary = [], ul_corrections = [], ul_bindings = [], ul_recognition_rules = [],
    ul_overrides = [], ul_profiles = default_writing_profile_settings\<rparr>"
  shows "sound_lists ascii (fst (fold (apply_edit ascii)
    [AddTerm (vocabulary_entry_of ''Kube''), RemoveTerm ''kube'', AddTerm (vocabulary_entry_of ''KUBE''), UndoRemoval 0] (s, [])))"
proof -
  have "sound_lists ascii s" by (simp add: sound_lists_def s_def)
  thus ?thesis by (rule edits_keep_the_lists_sound[OF usual_ascii])
qed

section \<open>Undoing at once\<close>

lemma apart_index:
  assumes "apart clash xs" "\<And>a b. clash a b \<Longrightarrow> clash b a" "i < length xs" "j < length xs" "j \<noteq> i"
  shows "\<not> clash (xs ! j) (xs ! i)"
  using assms(1,3,4,5) assms(2) unfolding apart_def sorted_wrt_iff_nth_less by (metis nat_neq_iff)

lemma put_back_apart:
  assumes "i < length xs" "apart same xs" "\<And>a b. same a b \<Longrightarrow> same b a"
  shows "put_back same i (xs ! i) (take_entry xs i) = xs"
  by (rule put_back_take[OF assms(1)]) (rule apart_index[OF assms(2,3,1)])

lemma undo_term:
  assumes "usual_space q"
  shows "case remove_vocabulary_entry q t s of (Some u, s') \<Rightarrow> u s' = listed_terms q s | (None, s') \<Rightarrow> s' = listed_terms q s"
proof (cases "index_of_term q (normalize_vocabulary q (ul_vocabulary s)) t")
  case (Some n)
  let ?ts = "normalize_vocabulary q (ul_vocabulary s)"
  have n: "n < length ?ts" using Some index_where_less by (auto simp: index_of_term_def)
  have normal: "normal q ?ts" by (rule normal_normalized[OF assms])
  have sorted: "sorted (map (send_rank q) ?ts)" by (simp add: normalize_vocabulary_def)
  have "normal q (take_entry ?ts n)" "sorted (map (send_rank q) (take_entry ?ts n))"
    using normal take_entry_sorted[OF n sorted] take_entry_distinct[OF n] take_entry_set[of ?ts n]
    by (auto simp: normal_def folded_terms_def)
  hence "normalize_vocabulary q (take_entry ?ts n) = take_entry ?ts n"
    using foldl_normal[of q "[]" "take_entry ?ts n"] by (simp add: normalize_vocabulary_def sort_key_id_if_sorted)
  moreover have "apart (same_term q) ?ts" using terms_sound_normal[OF assms] by (simp add: terms.sound_def)
  hence "put_back (same_term q) n (?ts ! n) (take_entry ?ts n) = ?ts"
    by (rule put_back_apart[OF n]) (rule terms.clash_sym)
  ultimately show ?thesis using Some by (simp add: remove_vocabulary_entry_def listed_terms_def Let_def)
qed (simp add: remove_vocabulary_entry_def listed_terms_def Let_def)

lemma undo_correction:
  assumes "apart (same_correction q) (ul_corrections s)" "distinct (map lc_id (ul_corrections s))"
  shows "case remove_learned_correction q i s of (Some u, s') \<Rightarrow> u s' = s | (None, s') \<Rightarrow> s' = s"
proof (cases "index_where (\<lambda>c. lc_id c = i) (ul_corrections s)")
  case (Some n)
  let ?cs = "ul_corrections s"
  have n: "n < length ?cs" by (rule index_where_less[OF Some])
  have "apart (same_or_id q) ?cs"
    using apart_or[OF assms(2)[folded apart_key] assms(1)] by (simp add: same_or_id_def[abs_def])
  hence "put_back (same_or_id q) n (?cs ! n) (take_entry ?cs n) = ?cs"
    by (rule put_back_apart[OF n]) (use corrections.clash_sym in \<open>auto simp: same_or_id_def\<close>)
  thus ?thesis using Some by (simp add: remove_learned_correction_def Let_def)
qed (simp add: remove_learned_correction_def Let_def)

lemma undo_replacement:
  assumes "apart (same_phrase q) (ul_bindings s)"
  shows "case remove_binding_rule q p s of (Some u, s') \<Rightarrow> u s' = s | (None, s') \<Rightarrow> s' = s"
proof (cases "index_of_phrase q (ul_bindings s) p")
  case (Some n)
  hence n: "n < length (ul_bindings s)" using index_where_less by (auto simp: index_of_phrase_def)
  have "put_back (same_phrase q) n (ul_bindings s ! n) (take_entry (ul_bindings s) n) = ul_bindings s"
    by (rule put_back_apart[OF n assms]) (rule replacements.clash_sym)
  thus ?thesis using Some by (simp add: remove_binding_rule_def Let_def)
qed (simp add: remove_binding_rule_def Let_def)

text \<open>
  A removal undone at once leaves the settings as they were: the entry is back
  in its place with its values. (The terms are compared as the page lists them.)
\<close>

theorem undo_puts_everything_back:
  assumes "usual_space q" "sound_lists q s" "distinct (map lc_id (ul_corrections s))"
  shows "(case remove_vocabulary_entry q t s of (Some u, s') \<Rightarrow> u s' = listed_terms q s | (None, s') \<Rightarrow> s' = listed_terms q s)
    \<and> (case remove_learned_correction q i s of (Some u, s') \<Rightarrow> u s' = s | (None, s') \<Rightarrow> s' = s)
    \<and> (case remove_binding_rule q p s of (Some u, s') \<Rightarrow> u s' = s | (None, s') \<Rightarrow> s' = s)"
  using assms by (intro conjI undo_term undo_correction undo_replacement) (simp_all add: sound_lists_def)

theorem undo_puts_everything_back_witness:
  fixes s :: user_lists and r :: binding_rule
  defines "r \<equiv> \<lparr>br_phrase = ''my mail'', br_replacement = ''a@b.c''\<rparr>"
  defines "s \<equiv> \<lparr>ul_vocabulary = [], ul_corrections = [], ul_bindings = [r], ul_recognition_rules = [],
    ul_overrides = [], ul_profiles = []\<rparr>"
  shows "case remove_binding_rule ascii ''My mail'' s of (Some u, s') \<Rightarrow> u s' = s | (None, s') \<Rightarrow> s' = s"
proof -
  have "usable_rule ascii r" unfolding r_def by code_simp
  hence "sound_lists ascii s" by (simp add: sound_lists_def s_def)
  thus ?thesis using undo_puts_everything_back[OF usual_ascii, of s] by (simp add: s_def)
qed

end
