(* ===== verification/Profile_Edits.thy ===== *)
theory Profile_Edits
  imports Vocabulary_Edits
begin

text \<open>
  core/WritingProfileEdits.cpp: the edits a person makes to the Writing Profiles,
  the custom tones and cleanup levels and the app matches. Removing a tone or a
  level takes it from every profile that chose it (\<^term>\<open>remove_choice\<close>); the random
  part of a new id is a parameter.
\<close>

record custom_tone =
  ct_id :: qstring
  ct_name :: qstring
  ct_instruction :: qstring

record custom_cleanup_level =
  cl_id :: qstring
  cl_name :: qstring
  cl_base :: qstring
  cl_instructions :: qstring

record profile_lists = user_lists +
  ul_tones :: "custom_tone list"
  ul_levels :: "custom_cleanup_level list"

definition k_built_in_tones :: "qstring list" where
  "k_built_in_tones = [''none'', ''formal'', ''casual'', ''very_casual'', ''excited'', ''gen_z'']"

definition k_built_in_cleanup_levels :: "qstring list" where
  "k_built_in_cleanup_levels = [''none'', ''light_cleanup'', ''balanced'', ''strong_polish'']"

definition k_custom_only_cleanup_base :: qstring where
  "k_custom_only_cleanup_base = ''custom_only''"

definition cleanup_bases :: "qstring list" where
  "cleanup_bases = [''light_cleanup'', ''balanced'', ''strong_polish'', k_custom_only_cleanup_base]"

section \<open>Ids\<close>

definition random_id_length :: nat where "random_id_length = 8"

text \<open>Ids are drawn until one is free; None when the draws given run out.\<close>

fun new_custom_id :: "qstring \<Rightarrow> qstring list \<Rightarrow> qstring list \<Rightarrow> qstring option" where
  "new_custom_id stem taken [] = None"
| "new_custom_id stem taken (r # rs) =
     (let i = stem @ ''_'' @ take random_id_length r in
      if i \<in> set taken then new_custom_id stem taken rs else Some i)"

definition id_free :: "'e list \<Rightarrow> ('e \<Rightarrow> qstring) \<Rightarrow> qstring \<Rightarrow> bool" where
  "id_free xs id_of i \<longleftrightarrow> starts_with i k_custom_id_prefix \<and> index_where (\<lambda>e. id_of e = i) xs = None"

definition name_free :: "qchars \<Rightarrow> 'e list \<Rightarrow> nat option \<Rightarrow> qstring \<Rightarrow> ('e \<Rightarrow> qstring) \<Rightarrow> bool" where
  "name_free q xs self name name_of \<longleftrightarrow>
     \<not> list_ex (\<lambda>i. Some i \<noteq> self \<and> same_caseless q (name_of (xs ! i)) name) [0..<length xs]"

definition choice_name_free :: "qchars \<Rightarrow> 'e list \<Rightarrow> nat option \<Rightarrow> qstring \<Rightarrow> ('e \<Rightarrow> qstring) \<Rightarrow> qstring list \<Rightarrow> bool" where
  "choice_name_free q xs self name name_of built_in_names \<longleftrightarrow>
     \<not> (\<exists>b\<in>set built_in_names. same_caseless q b name) \<and> name_free q xs self name name_of"

section \<open>Profiles\<close>

definition level_offered :: "qstring \<Rightarrow> 'a profile_lists_scheme \<Rightarrow> bool" where
  "level_offered i s \<longleftrightarrow> i \<in> set k_built_in_cleanup_levels \<or> index_where (\<lambda>l. cl_id l = i) (ul_levels s) \<noteq> None"

definition tone_offered :: "qstring \<Rightarrow> 'a profile_lists_scheme \<Rightarrow> bool" where
  "tone_offered i s \<longleftrightarrow> i \<in> set k_built_in_tones \<or> index_where (\<lambda>t. ct_id t = i) (ul_tones s) \<noteq> None"

definition service_offered :: "provider_role \<Rightarrow> qstring \<Rightarrow> bool" where
  "service_offered r i \<longleftrightarrow> i = [] \<or> is_chain_provider_id r i"

definition kept_choice :: "writing_profile_settings option \<Rightarrow> (writing_profile_settings \<Rightarrow> qstring) \<Rightarrow> qstring \<Rightarrow> bool" where
  "kept_choice stored field v \<longleftrightarrow> (case stored of Some p \<Rightarrow> field p = v | None \<Rightarrow> False)"

definition tidied_profile :: "qchars \<Rightarrow> writing_profile_settings \<Rightarrow> writing_profile_settings" where
  "tidied_profile q p = p\<lparr>wps_output_language := trimmed q (wps_output_language p),
     wps_speech_model := trimmed q (wps_speech_model p), wps_refinement_model := trimmed q (wps_refinement_model p)\<rparr>"

definition choices_refusal ::
  "writing_profile_settings option \<Rightarrow> 'a profile_lists_scheme \<Rightarrow> writing_profile_settings \<Rightarrow> edit_refusal" where
  "choices_refusal stored s p =
     (if (kept_choice stored wps_cleanup_strength (wps_cleanup_strength p) \<or> level_offered (wps_cleanup_strength p) s)
         \<and> (kept_choice stored wps_tone (wps_tone p) \<or> tone_offered (wps_tone p) s)
         \<and> (kept_choice stored wps_speech_provider (wps_speech_provider p)
            \<or> service_offered Speech (wps_speech_provider p))
         \<and> (kept_choice stored wps_refinement_provider (wps_refinement_provider p)
            \<or> service_offered Refinement (wps_refinement_provider p))
      then NoRefusal else Missing)"

definition check_profile ::
  "qchars \<Rightarrow> 'a profile_lists_scheme \<Rightarrow> writing_profile_settings option \<Rightarrow> writing_profile_settings check" where
  "check_profile q s stored p self =
     (let p = tidied_profile q p in
      if is_built_in_writing_profile (wps_profile p)
      then (if (case stored of Some st \<Rightarrow> wps_name p \<noteq> wps_name st | None \<Rightarrow> False) then (BuiltIn, p)
            else (choices_refusal stored s p, p))
      else (let p = p\<lparr>wps_name := trimmed q (wps_name p)\<rparr> in
        if wps_name p = [] then (Blank, p)
        else if \<not> name_free q (ul_profiles s) self (wps_name p)
            (\<lambda>other. writing_profile_label (wps_profile other) (ul_profiles s)) then (Taken, p)
        else (choices_refusal stored s p, p)))"

definition add_writing_profile ::
  "qchars \<Rightarrow> writing_profile_settings \<Rightarrow> 'a profile_lists_scheme \<Rightarrow> edit_refusal \<times> 'a profile_lists_scheme" where
  "add_writing_profile q p s =
     (if \<not> id_free (ul_profiles s) wps_profile (wps_profile p) then (Taken, s)
      else (let (refusal, ps) = append_entry (ul_profiles s) p (check_profile q s None)
        in (refusal, s\<lparr>ul_profiles := ps\<rparr>)))"

definition edit_writing_profile ::
  "qchars \<Rightarrow> qstring \<Rightarrow> (writing_profile_settings \<Rightarrow> writing_profile_settings) \<Rightarrow> 'a profile_lists_scheme \<Rightarrow>
   edit_refusal \<times> 'a profile_lists_scheme" where
  "edit_writing_profile q i change s =
     (let ps = ul_profiles s;
          (refusal, ps') = change_entry ps (index_where (\<lambda>p. wps_profile p = i) ps) change
            (\<lambda>p self. check_profile q s (map_option (\<lambda>n. ps ! n) self) p self)
      in (refusal, s\<lparr>ul_profiles := ps'\<rparr>))"

definition remove_writing_profile :: "qstring \<Rightarrow> 'a profile_lists_scheme \<Rightarrow> bool \<times> 'a profile_lists_scheme" where
  "remove_writing_profile i s =
     (if is_built_in_writing_profile i then (False, s)
      else (let kept = filter (\<lambda>p. wps_profile p \<noteq> i) (ul_profiles s)
        in (length kept < length (ul_profiles s), s\<lparr>ul_profiles := kept\<rparr>)))"

section \<open>Tones and cleanup levels\<close>

definition check_tone :: "qchars \<Rightarrow> qstring list \<Rightarrow> custom_tone list \<Rightarrow> custom_tone check" where
  "check_tone q built_in_names tones t self =
     (let t = t\<lparr>ct_name := trimmed q (ct_name t)\<rparr>
      in (if ct_name t = [] then Blank
          else if \<not> choice_name_free q tones self (ct_name t) ct_name built_in_names then Taken
          else if blank q (ct_instruction t) then Incomplete else NoRefusal, t))"

definition check_level :: "qchars \<Rightarrow> qstring list \<Rightarrow> custom_cleanup_level list \<Rightarrow> custom_cleanup_level check" where
  "check_level q built_in_names levels l self =
     (let l = l\<lparr>cl_name := trimmed q (cl_name l)\<rparr>
      in (if cl_name l = [] then Blank
          else if \<not> choice_name_free q levels self (cl_name l) cl_name built_in_names then Taken
          else if cl_base l \<notin> set cleanup_bases then Missing
          else if cl_base l \<noteq> k_custom_only_cleanup_base \<or> \<not> blank q (cl_instructions l) then NoRefusal
          else Incomplete, l))"

definition add_custom_tone ::
  "qchars \<Rightarrow> qstring list \<Rightarrow> custom_tone \<Rightarrow> 'a profile_lists_scheme \<Rightarrow> edit_refusal \<times> 'a profile_lists_scheme" where
  "add_custom_tone q names t s =
     (if \<not> id_free (ul_tones s) ct_id (ct_id t) then (Taken, s)
      else (let (refusal, ts) = append_entry (ul_tones s) t (check_tone q names (ul_tones s))
        in (refusal, s\<lparr>ul_tones := ts\<rparr>)))"

definition edit_custom_tone ::
  "qchars \<Rightarrow> qstring list \<Rightarrow> qstring \<Rightarrow> (custom_tone \<Rightarrow> custom_tone) \<Rightarrow> 'a profile_lists_scheme \<Rightarrow>
   edit_refusal \<times> 'a profile_lists_scheme" where
  "edit_custom_tone q names i change s =
     (let (refusal, ts) = change_entry (ul_tones s) (index_where (\<lambda>t. ct_id t = i) (ul_tones s)) change
            (check_tone q names (ul_tones s))
      in (refusal, s\<lparr>ul_tones := ts\<rparr>))"

definition add_custom_cleanup_level ::
  "qchars \<Rightarrow> qstring list \<Rightarrow> custom_cleanup_level \<Rightarrow> 'a profile_lists_scheme \<Rightarrow> edit_refusal \<times> 'a profile_lists_scheme" where
  "add_custom_cleanup_level q names l s =
     (if \<not> id_free (ul_levels s) cl_id (cl_id l) then (Taken, s)
      else (let (refusal, ls) = append_entry (ul_levels s) l (check_level q names (ul_levels s))
        in (refusal, s\<lparr>ul_levels := ls\<rparr>)))"

definition edit_custom_cleanup_level ::
  "qchars \<Rightarrow> qstring list \<Rightarrow> qstring \<Rightarrow> (custom_cleanup_level \<Rightarrow> custom_cleanup_level) \<Rightarrow> 'a profile_lists_scheme \<Rightarrow>
   edit_refusal \<times> 'a profile_lists_scheme" where
  "edit_custom_cleanup_level q names i change s =
     (let (refusal, ls) = change_entry (ul_levels s) (index_where (\<lambda>l. cl_id l = i) (ul_levels s)) change
            (check_level q names (ul_levels s))
      in (refusal, s\<lparr>ul_levels := ls\<rparr>))"

text \<open>
  The member pointers of the source: how a list of choices and the profiles'
  field that names one are read and written.
\<close>

record ('e, 's) choice_ref =
  cr_id :: "'e \<Rightarrow> qstring"
  cr_name :: "'e \<Rightarrow> qstring"
  cr_get :: "'s \<Rightarrow> 'e list"
  cr_set :: "'e list \<Rightarrow> 's \<Rightarrow> 's"
  cr_field :: "writing_profile_settings \<Rightarrow> qstring"
  cr_choose :: "qstring \<Rightarrow> writing_profile_settings \<Rightarrow> writing_profile_settings"

definition same_choice :: "qchars \<Rightarrow> ('e, 's) choice_ref \<Rightarrow> 'e \<Rightarrow> 'e \<Rightarrow> bool" where
  "same_choice q r e removed \<longleftrightarrow> cr_id r e = cr_id r removed \<or> same_caseless q (cr_name r e) (cr_name r removed)"

definition move_profiles ::
  "('e, 's) choice_ref \<Rightarrow> (writing_profile_settings \<Rightarrow> bool) \<Rightarrow> qstring \<Rightarrow> writing_profile_settings list \<Rightarrow>
   writing_profile_settings list" where
  "move_profiles r P i ps = map (\<lambda>p. if P p then cr_choose r i p else p) ps"

definition restore_choice ::
  "qchars \<Rightarrow> ('e, 'a profile_lists_scheme) choice_ref \<Rightarrow> qstring \<Rightarrow> qstring \<Rightarrow> nat \<Rightarrow> 'e \<Rightarrow> qstring list \<Rightarrow>
   'a profile_lists_scheme \<Rightarrow> 'a profile_lists_scheme" where
  "restore_choice q r i instead n removed moved draft =
     (let back = put_back (same_choice q r) n removed (cr_get r draft); draft = cr_set r back draft in
      if index_where (\<lambda>e. cr_id r e = i) back = None then draft
      else draft\<lparr>ul_profiles := move_profiles r
        (\<lambda>p. wps_profile p \<in> set moved \<and> cr_field r p = instead) i (ul_profiles draft)\<rparr>)"

definition remove_choice ::
  "qchars \<Rightarrow> ('e, 'a profile_lists_scheme) choice_ref \<Rightarrow> qstring \<Rightarrow> qstring \<Rightarrow> 'a profile_lists_scheme \<Rightarrow>
   'a profile_lists_scheme undo \<times> 'a profile_lists_scheme" where
  "remove_choice q r i instead s =
     (let xs = cr_get r s in
      case index_where (\<lambda>e. cr_id r e = i) xs of
        None \<Rightarrow> (None, s)
      | Some n \<Rightarrow>
          (let moved = map wps_profile (filter (\<lambda>p. cr_field r p = i) (ul_profiles s));
               s' = cr_set r (take_entry xs n) s
           in (Some (restore_choice q r i instead n (xs ! n) moved),
               s'\<lparr>ul_profiles := move_profiles r (\<lambda>p. cr_field r p = i) instead (ul_profiles s')\<rparr>)))"

definition tone_ref :: "(custom_tone, 'a profile_lists_scheme) choice_ref" where
  "tone_ref = \<lparr>cr_id = ct_id, cr_name = ct_name, cr_get = ul_tones, cr_set = (\<lambda>ts s. s\<lparr>ul_tones := ts\<rparr>),
     cr_field = wps_tone, cr_choose = (\<lambda>i p. p\<lparr>wps_tone := i\<rparr>)\<rparr>"

definition level_ref :: "(custom_cleanup_level, 'a profile_lists_scheme) choice_ref" where
  "level_ref = \<lparr>cr_id = cl_id, cr_name = cl_name, cr_get = ul_levels, cr_set = (\<lambda>ls s. s\<lparr>ul_levels := ls\<rparr>),
     cr_field = wps_cleanup_strength, cr_choose = (\<lambda>i p. p\<lparr>wps_cleanup_strength := i\<rparr>)\<rparr>"

definition remove_custom_tone ::
  "qchars \<Rightarrow> qstring \<Rightarrow> 'a profile_lists_scheme \<Rightarrow> 'a profile_lists_scheme undo \<times> 'a profile_lists_scheme" where
  "remove_custom_tone q i s = remove_choice q tone_ref i ''none'' s"

definition level_instead :: "qstring \<Rightarrow> custom_cleanup_level list \<Rightarrow> qstring" where
  "level_instead i levels = (case index_where (\<lambda>l. cl_id l = i) levels of
     Some n \<Rightarrow> if cl_base (levels ! n) = k_custom_only_cleanup_base then ''balanced'' else cl_base (levels ! n)
   | None \<Rightarrow> ''balanced'')"

definition remove_custom_cleanup_level ::
  "qchars \<Rightarrow> qstring \<Rightarrow> 'a profile_lists_scheme \<Rightarrow> 'a profile_lists_scheme undo \<times> 'a profile_lists_scheme" where
  "remove_custom_cleanup_level q i s = remove_choice q level_ref i (level_instead i (ul_levels s)) s"

section \<open>App matches\<close>

definition overrides_retired :: "'a user_lists_scheme \<Rightarrow> 'a user_lists_scheme" where
  "overrides_retired s = s\<lparr>ul_recognition_rules := migrated_profile_overrides (ul_recognition_rules s) (ul_overrides s),
     ul_overrides := []\<rparr>"

definition index_of_match :: "qchars \<Rightarrow> app_recognition_rule list \<Rightarrow> qstring \<Rightarrow> nat option" where
  "index_of_match q rules m = index_where (\<lambda>r. same_caseless q (rr_match r) (trimmed q m)) rules"

definition check_rule :: "qchars \<Rightarrow> writing_profile_settings list \<Rightarrow> app_recognition_rule list \<Rightarrow> app_recognition_rule check" where
  "check_rule q profiles rules r self =
     (let r = r\<lparr>rr_match := trimmed q (rr_match r)\<rparr>
      in (if rr_match r = [] then Blank
          else if \<not> name_free q rules self (rr_match r) rr_match then Taken
          else if rr_category r = None \<and> rr_writing_profile r = None then Incomplete
          else (case rr_writing_profile r of
              None \<Rightarrow> NoRefusal
            | Some p \<Rightarrow> if offered_writing_profile p profiles [] \<noteq> [] then NoRefusal else Missing), r))"

definition add_app_recognition_rule ::
  "qchars \<Rightarrow> app_recognition_rule \<Rightarrow> 'a user_lists_scheme \<Rightarrow> edit_refusal \<times> 'a user_lists_scheme" where
  "add_app_recognition_rule q r s =
     (let s = overrides_retired s;
          (refusal, rules) = append_entry (ul_recognition_rules s) r (check_rule q (ul_profiles s) (ul_recognition_rules s))
      in (refusal, s\<lparr>ul_recognition_rules := rules\<rparr>))"

definition edit_app_recognition_rule ::
  "qchars \<Rightarrow> qstring \<Rightarrow> (app_recognition_rule \<Rightarrow> app_recognition_rule) \<Rightarrow> 'a user_lists_scheme \<Rightarrow>
   edit_refusal \<times> 'a user_lists_scheme" where
  "edit_app_recognition_rule q m change s =
     (let s = overrides_retired s;
          (refusal, rules) = change_entry (ul_recognition_rules s) (index_of_match q (ul_recognition_rules s) m) change
            (check_rule q (ul_profiles s) (ul_recognition_rules s))
      in (refusal, s\<lparr>ul_recognition_rules := rules\<rparr>))"

definition same_match :: "qchars \<Rightarrow> app_recognition_rule \<Rightarrow> app_recognition_rule \<Rightarrow> bool" where
  "same_match q a b \<longleftrightarrow> same_caseless q (rr_match a) (rr_match b)"

definition remove_app_recognition_rule ::
  "qchars \<Rightarrow> qstring \<Rightarrow> 'a user_lists_scheme \<Rightarrow> 'a user_lists_scheme undo \<times> 'a user_lists_scheme" where
  "remove_app_recognition_rule q m s =
     (let s = overrides_retired s; rules = ul_recognition_rules s in
      case index_of_match q rules m of
        None \<Rightarrow> (None, s)
      | Some i \<Rightarrow> (Some (\<lambda>draft. let draft = overrides_retired draft in
            draft\<lparr>ul_recognition_rules := put_back (same_match q) i (rules ! i) (ul_recognition_rules draft)\<rparr>),
          s\<lparr>ul_recognition_rules := take_entry rules i\<rparr>))"

section \<open>A choice the profiles make\<close>

text \<open>
  What removing a choice asks of the members it is given: they read and write one
  list and one field of a profile, and nothing else.
\<close>

locale profile_choice =
  fixes r :: "('e, 'a profile_lists_scheme) choice_ref"
  assumes get_set: "cr_get r (cr_set r xs s) = xs"
    and set_get: "cr_set r (cr_get r s) s = s"
    and set_set: "cr_set r xs (cr_set r ys s) = cr_set r xs s"
    and set_profiles: "ul_profiles (cr_set r xs s) = ul_profiles s"
    and get_profiles: "cr_get r (s\<lparr>ul_profiles := ps\<rparr>) = cr_get r s"
    and set_moves: "cr_set r xs (s\<lparr>ul_profiles := ps\<rparr>) = (cr_set r xs s)\<lparr>ul_profiles := ps\<rparr>"
    and field_choose: "cr_field r (cr_choose r i p) = i"
    and choose_field: "cr_choose r (cr_field r p) p = p"
    and choose_choose: "cr_choose r i (cr_choose r j p) = cr_choose r i p"
    and choose_profile: "wps_profile (cr_choose r i p) = wps_profile p"
begin

definition chosen :: "qstring set \<Rightarrow> 'a profile_lists_scheme \<Rightarrow> bool" where
  "chosen built_in s \<longleftrightarrow> (\<forall>p\<in>set (ul_profiles s). cr_field r p \<in> built_in \<union> cr_id r ` set (cr_get r s))"

lemma move_profiles_field:
  "p \<in> set (move_profiles r P i ps) \<Longrightarrow> cr_field r p = i \<or> (\<exists>p'\<in>set ps. \<not> P p' \<and> p = p')"
  by (auto simp: move_profiles_def field_choose)

lemma take_keeps_others:
  "i < length xs \<Longrightarrow> x \<in> set xs \<Longrightarrow> x \<noteq> xs ! i \<Longrightarrow> x \<in> set (take_entry xs i)"
  using id_take_nth_drop[of i xs] unfolding take_entry_def
  by (metis Un_iff empty_iff insert_iff list.set(2) set_append)

lemma remove_chosen:
  assumes "chosen built_in s" "instead \<in> built_in"
  shows "chosen built_in (snd (remove_choice q r i instead s))"
proof (cases "index_where (\<lambda>e. cr_id r e = i) (cr_get r s)")
  case (Some n)
  note n = index_where_Some[OF Some]
  have "cr_field r p \<in> built_in \<union> cr_id r ` set (take_entry (cr_get r s) n)"
    if "p \<in> set (move_profiles r (\<lambda>p. cr_field r p = i) instead (ul_profiles s))" for p
  proof -
    from move_profiles_field[OF that] consider "cr_field r p = instead"
      | "p \<in> set (ul_profiles s)" "cr_field r p \<noteq> i" by blast
    thus ?thesis
    proof cases
      case 2
      hence "cr_field r p \<in> built_in \<or> (\<exists>e\<in>set (cr_get r s). cr_field r p = cr_id r e)"
        using assms(1) by (auto simp: chosen_def)
      thus ?thesis using 2(2) n take_keeps_others[of n "cr_get r s"] by fastforce
    qed (use assms(2) in simp)
  qed
  thus ?thesis using Some by (simp add: remove_choice_def chosen_def get_set set_profiles get_profiles Let_def)
qed (use assms in \<open>simp add: remove_choice_def\<close>)

lemma put_back_mem: "set xs \<subseteq> set (put_back same n e xs)"
  by (auto simp: put_back_def Let_def) (metis Un_iff append_take_drop_id set_append)

lemma restore_chosen:
  assumes "chosen built_in d"
  shows "chosen built_in (restore_choice q r i instead n e moved d)"
proof -
  let ?bk = "put_back (same_choice q r) n e (cr_get r d)"
  have grown: "cr_field r p \<in> built_in \<union> cr_id r ` set ?bk" if "p \<in> set (ul_profiles d)" for p
    using that assms put_back_mem[of "cr_get r d"] by (fastforce simp: chosen_def)
  show ?thesis
  proof (cases "index_where (\<lambda>e. cr_id r e = i) ?bk")
    case (Some k)
    hence "i \<in> cr_id r ` set ?bk" using index_where_Some[OF Some] by force
    hence "cr_field r p \<in> built_in \<union> cr_id r ` set ?bk"
      if "p \<in> set (move_profiles r P i (ul_profiles d))" for p P
      using move_profiles_field[OF that] grown by auto
    thus ?thesis using Some by (simp add: restore_choice_def chosen_def get_set set_profiles get_profiles Let_def)
  qed (use grown in \<open>simp add: restore_choice_def chosen_def get_set set_profiles Let_def\<close>)
qed

text \<open>Once removed, a choice is no profile's any more.\<close>

lemma removed_is_unchosen:
  assumes "remove_choice q r i instead s = (Some u, s')" "instead \<noteq> i" "p \<in> set (ul_profiles s')"
  shows "cr_field r p \<noteq> i"
  using assms move_profiles_field[of p "\<lambda>p. cr_field r p = i" instead "ul_profiles s"]
  by (auto simp: remove_choice_def set_profiles Let_def split: option.splits)

lemma undo_choice:
  assumes "distinct (map wps_profile (ul_profiles s))"
    and "apart (same_choice q r) (cr_get r s)" "\<And>a b. same_choice q r a b \<Longrightarrow> same_choice q r b a"
    and "remove_choice q r i instead s = (Some u, s')"
  shows "u s' = s"
proof -
  let ?xs = "cr_get r s" and ?ps = "ul_profiles s"
  let ?moved = "map wps_profile (filter (\<lambda>p. cr_field r p = i) ?ps)"
  obtain n where n: "index_where (\<lambda>e. cr_id r e = i) ?xs = Some n"
    using assms(4) by (auto simp: remove_choice_def Let_def split: option.splits)
  have bk: "put_back (same_choice q r) n (?xs ! n) (take_entry ?xs n) = ?xs"
    by (rule put_back_take) (use index_where_less[OF n] apart_index[OF assms(2,3)] in auto)
  have "wps_profile p \<in> set ?moved \<longleftrightarrow> cr_field r p = i" if "p \<in> set ?ps" for p
    using that assms(1) by (auto simp: distinct_map dest: inj_onD)
  hence "move_profiles r (\<lambda>p. wps_profile p \<in> set ?moved \<and> cr_field r p = instead) i
      (move_profiles r (\<lambda>p. cr_field r p = i) instead ?ps) = ?ps"
    unfolding move_profiles_def map_map
    by (intro map_idI) (auto simp: field_choose choose_choose choose_profile choose_field split: if_splits)
  thus ?thesis using assms(4) n bk
    by (auto simp: remove_choice_def restore_choice_def Let_def get_set set_get set_set set_profiles get_profiles set_moves)
qed

end

lemma choice_ref_sel [simp]:
  "cr_id tone_ref = ct_id" "cr_name tone_ref = ct_name" "cr_get tone_ref = ul_tones" "cr_field tone_ref = wps_tone"
  "cr_set tone_ref ts s = s\<lparr>ul_tones := ts\<rparr>" "cr_choose tone_ref i p = p\<lparr>wps_tone := i\<rparr>"
  "cr_id level_ref = cl_id" "cr_name level_ref = cl_name" "cr_get level_ref = ul_levels"
  "cr_field level_ref = wps_cleanup_strength"
  "cr_set level_ref ls s = s\<lparr>ul_levels := ls\<rparr>" "cr_choose level_ref i p = p\<lparr>wps_cleanup_strength := i\<rparr>"
  by (simp_all add: tone_ref_def level_ref_def)

interpretation tone: profile_choice tone_ref
  by unfold_locales simp_all

interpretation level: profile_choice level_ref
  by unfold_locales simp_all

section \<open>The checks of tones, levels and matches\<close>

lemma name_free_iff: "name_free q xs self nm f \<longleftrightarrow> (\<forall>i<length xs. self \<noteq> Some i \<longrightarrow> \<not> same_caseless q (f (xs ! i)) nm)"
  by (auto simp: name_free_def list_ex_iff)

definition tone_ok :: "qchars \<Rightarrow> qstring list \<Rightarrow> custom_tone \<Rightarrow> bool" where
  "tone_ok q names t \<longleftrightarrow> ct_name t \<noteq> [] \<and> \<not> blank q (ct_instruction t) \<and> \<not> (\<exists>b\<in>set names. same_caseless q b (ct_name t))"

definition level_ok :: "qchars \<Rightarrow> qstring list \<Rightarrow> custom_cleanup_level \<Rightarrow> bool" where
  "level_ok q names l \<longleftrightarrow> cl_name l \<noteq> [] \<and> cl_base l \<in> set cleanup_bases \<and> \<not> (\<exists>b\<in>set names. same_caseless q b (cl_name l))"

definition match_ok :: "writing_profile_settings list \<Rightarrow> app_recognition_rule \<Rightarrow> bool" where
  "match_ok profiles r \<longleftrightarrow> rr_match r \<noteq> [] \<and> (rr_category r \<noteq> None \<or> rr_writing_profile r \<noteq> None)
     \<and> (\<forall>p. rr_writing_profile r = Some p \<longrightarrow> offered_writing_profile p profiles [] \<noteq> [])"

interpretation tones: edited_list "\<lambda>a b. same_caseless q (ct_name a) (ct_name b)" "check_tone q names" "tone_ok q names" for q names
  by unfold_locales (auto simp: same_caseless_sym check_tone_def choice_name_free_def name_free_iff tone_ok_def Let_def split: if_splits)

interpretation levels: edited_list "\<lambda>a b. same_caseless q (cl_name a) (cl_name b)" "check_level q names" "level_ok q names" for q names
  by unfold_locales (auto simp: same_caseless_sym check_level_def choice_name_free_def name_free_iff level_ok_def Let_def split: if_splits)

interpretation matches: edited_list "same_match q" "check_rule q profiles" "match_ok profiles" for q profiles
  by unfold_locales (auto simp: same_match_def same_caseless_sym check_rule_def name_free_iff match_ok_def Let_def
      split: if_splits option.splits)

section \<open>Every choice stays offered\<close>

text \<open>What a person does to the profiles. A page's edit keeps the id of what it edits.\<close>

datatype profile_edit =
  AddProfile writing_profile_settings
  | EditProfile qstring "writing_profile_settings \<Rightarrow> writing_profile_settings"
  | RemoveProfile qstring
  | AddTone "qstring list" custom_tone
  | EditTone "qstring list" qstring "custom_tone \<Rightarrow> custom_tone"
  | RemoveTone qstring
  | AddLevel "qstring list" custom_cleanup_level
  | EditLevel "qstring list" qstring "custom_cleanup_level \<Rightarrow> custom_cleanup_level"
  | RemoveLevel qstring
  | UndoChoice nat

type_synonym profile_draft = "profile_lists \<times> (profile_lists \<Rightarrow> profile_lists) list"

definition with_choice_undo :: "profile_lists undo \<times> profile_lists \<Rightarrow> (profile_lists \<Rightarrow> profile_lists) list \<Rightarrow> profile_draft" where
  "with_choice_undo r undos = (snd r, case fst r of Some u \<Rightarrow> u # undos | None \<Rightarrow> undos)"

fun apply_profile_edit :: "qchars \<Rightarrow> profile_edit \<Rightarrow> profile_draft \<Rightarrow> profile_draft" where
  "apply_profile_edit q (AddProfile p) (s, us) = (snd (add_writing_profile q p s), us)"
| "apply_profile_edit q (EditProfile i f) (s, us) = (snd (edit_writing_profile q i f s), us)"
| "apply_profile_edit q (RemoveProfile i) (s, us) = (snd (remove_writing_profile i s), us)"
| "apply_profile_edit q (AddTone names t) (s, us) = (snd (add_custom_tone q names t s), us)"
| "apply_profile_edit q (EditTone names i f) (s, us) = (snd (edit_custom_tone q names i f s), us)"
| "apply_profile_edit q (RemoveTone i) (s, us) = with_choice_undo (remove_custom_tone q i s) us"
| "apply_profile_edit q (AddLevel names l) (s, us) = (snd (add_custom_cleanup_level q names l s), us)"
| "apply_profile_edit q (EditLevel names i f) (s, us) = (snd (edit_custom_cleanup_level q names i f s), us)"
| "apply_profile_edit q (RemoveLevel i) (s, us) = with_choice_undo (remove_custom_cleanup_level q i s) us"
| "apply_profile_edit q (UndoChoice n) (s, us) = (if n < length us then ((us ! n) s, us) else (s, us))"

fun keeps_ids :: "profile_edit \<Rightarrow> bool" where
  "keeps_ids (EditTone names i f) \<longleftrightarrow> (\<forall>t. ct_id (f t) = ct_id t)"
| "keeps_ids (EditLevel names i f) \<longleftrightarrow> (\<forall>l. cl_id (f l) = cl_id l)"
| "keeps_ids _ \<longleftrightarrow> True"

text \<open>Every profile's tone and level is a built-in one or one the settings hold.\<close>

definition choices_offered :: "'a profile_lists_scheme \<Rightarrow> bool" where
  "choices_offered s \<longleftrightarrow>
     (\<forall>p\<in>set (ul_profiles s). wps_tone p \<in> set k_built_in_tones \<union> ct_id ` set (ul_tones s)
        \<and> wps_cleanup_strength p \<in> set k_built_in_cleanup_levels \<union> cl_id ` set (ul_levels s))
     \<and> (\<forall>l\<in>set (ul_levels s). cl_base l \<in> set cleanup_bases)"

lemma tone_offered_iff: "tone_offered i s \<longleftrightarrow> i \<in> set k_built_in_tones \<union> ct_id ` set (ul_tones s)"
  using index_where_None[of "\<lambda>t. ct_id t = i" "ul_tones s"] by (auto simp: tone_offered_def)

lemma level_offered_iff: "level_offered i s \<longleftrightarrow> i \<in> set k_built_in_cleanup_levels \<union> cl_id ` set (ul_levels s)"
  using index_where_None[of "\<lambda>l. cl_id l = i" "ul_levels s"] by (auto simp: level_offered_def)

lemma choices_offered_iff:
  "choices_offered s \<longleftrightarrow> tone.chosen (set k_built_in_tones) s \<and> level.chosen (set k_built_in_cleanup_levels) s
     \<and> (\<forall>l\<in>set (ul_levels s). cl_base l \<in> set cleanup_bases)"
  by (auto simp: choices_offered_def tone.chosen_def level.chosen_def)

definition profile_choices :: "'a profile_lists_scheme \<Rightarrow> writing_profile_settings \<Rightarrow> bool" where
  "profile_choices s p \<longleftrightarrow> tone_offered (wps_tone p) s \<and> level_offered (wps_cleanup_strength p) s"

lemma choices_offered_profiles:
  "choices_offered s \<longleftrightarrow> (\<forall>p\<in>set (ul_profiles s). profile_choices s p) \<and> (\<forall>l\<in>set (ul_levels s). cl_base l \<in> set cleanup_bases)"
  by (auto simp: choices_offered_def profile_choices_def tone_offered_iff level_offered_iff)

lemma check_profile_choices:
  assumes "check_profile q s stored p self = (NoRefusal, p')" "\<And>st. stored = Some st \<Longrightarrow> profile_choices s st"
  shows "profile_choices s p'"
proof -
  have "choices_refusal stored s p' = NoRefusal"
    using assms(1) by (auto simp: check_profile_def Let_def split: if_splits)
  thus ?thesis using assms(2)
    by (auto simp: choices_refusal_def kept_choice_def profile_choices_def split: if_splits option.splits)
qed

lemma offered_update_profiles:
  "choices_offered s \<Longrightarrow> (\<And>p. p \<in> set ps \<Longrightarrow> profile_choices s p) \<Longrightarrow> choices_offered (s\<lparr>ul_profiles := ps\<rparr>)"
  by (simp add: choices_offered_profiles profile_choices_def tone_offered_def level_offered_def)

lemma offered_more_tones:
  "choices_offered s \<Longrightarrow> ct_id ` set (ul_tones s) \<subseteq> ct_id ` set ts \<Longrightarrow> choices_offered (s\<lparr>ul_tones := ts\<rparr>)"
  unfolding choices_offered_def by (simp; blast)

lemma offered_more_levels:
  "choices_offered s \<Longrightarrow> cl_id ` set (ul_levels s) \<subseteq> cl_id ` set ls \<Longrightarrow> (\<forall>l\<in>set ls. cl_base l \<in> set cleanup_bases) \<Longrightarrow>
   choices_offered (s\<lparr>ul_levels := ls\<rparr>)"
  unfolding choices_offered_def by (simp; blast)

lemma append_entry_set: "set xs \<subseteq> set (snd (append_entry xs e check))"
  by (auto simp: append_entry_def split: prod.split)

lemma change_entry_cases:
  assumes "index = None \<or> (\<exists>i. index = Some i \<and> i < length xs)"
  obtains "snd (change_entry xs index f check) = xs"
  | i e where "index = Some i" "i < length xs" "check (f (xs ! i)) (Some i) = (NoRefusal, e)"
      "snd (change_entry xs index f check) = xs[i := e]"
proof (cases index)
  case (Some i)
  obtain refusal e where "check (f (xs ! i)) (Some i) = (refusal, e)" by force
  thus thesis using that Some assms by (cases "refusal = NoRefusal") (auto simp: change_entry_def)
qed (use that in \<open>simp add: change_entry_def\<close>)

lemma index_where_bound: "index_where P xs = None \<or> (\<exists>i. index_where P xs = Some i \<and> i < length xs)"
  using index_where_less by (cases "index_where P xs") auto

lemma update_same_key: "i < length xs \<Longrightarrow> f e = f (xs ! i) \<Longrightarrow> f ` set (xs[i := e]) = f ` set xs"
proof -
  assume i: "i < length xs" and e: "f e = f (xs ! i)"
  hence "map f (xs[i := e]) = map f xs" by (simp add: map_update list_update_same_conv)
  thus ?thesis by (metis list.set_map)
qed

lemma offered_profile_edits:
  assumes s: "choices_offered s"
  shows "choices_offered (snd (add_writing_profile q p s))" "choices_offered (snd (edit_writing_profile q i f s))"
    "choices_offered (snd (remove_writing_profile i s))"
proof -
  have old: "profile_choices s x" if "x \<in> set (ul_profiles s)" for x using s that by (simp add: choices_offered_profiles)
  obtain refusal p' where c: "check_profile q s None p None = (refusal, p')" by force
  have "refusal = NoRefusal \<Longrightarrow> profile_choices s p'" using check_profile_choices c by blast
  hence "profile_choices s x" if "x \<in> set (snd (append_entry (ul_profiles s) p (check_profile q s None)))" for x
    using that old c by (auto simp: append_entry_def split: if_splits)
  thus "choices_offered (snd (add_writing_profile q p s))"
    using s offered_update_profiles[OF s] by (auto simp: add_writing_profile_def split: prod.split)
  let ?ps = "ul_profiles s"
  let ?ch = "change_entry ?ps (index_where (\<lambda>p. wps_profile p = i) ?ps) f
      (\<lambda>p self. check_profile q s (map_option (\<lambda>n. ?ps ! n) self) p self)"
  have "profile_choices s x" if "x \<in> set (snd ?ch)" for x
    using index_where_bound[of "\<lambda>p. wps_profile p = i" ?ps]
  proof (rule change_entry_cases)
    fix n e assume n: "n < length ?ps" and e: "check_profile q s (map_option (\<lambda>n. ?ps ! n) (Some n)) (f (?ps ! n)) (Some n) = (NoRefusal, e)"
      and ch: "snd ?ch = ?ps[n := e]"
    have "profile_choices s e" by (rule check_profile_choices[OF e]) (use old n in auto)
    thus ?thesis using that old ch set_update_subset_insert[of ?ps n e] by auto
  qed (use that old in simp)
  thus "choices_offered (snd (edit_writing_profile q i f s))"
    using s offered_update_profiles[OF s] by (auto simp: edit_writing_profile_def Let_def split: prod.split)
  show "choices_offered (snd (remove_writing_profile i s))"
    using s by (auto simp: remove_writing_profile_def Let_def intro!: offered_update_profiles old)
qed

lemma offered_tone_edits:
  assumes s: "choices_offered s"
  shows "choices_offered (snd (add_custom_tone q names t s))"
    "(\<And>t. ct_id (f t) = ct_id t) \<Longrightarrow> choices_offered (snd (edit_custom_tone q names i f s))"
proof -
  show "choices_offered (snd (add_custom_tone q names t s))"
    using s append_entry_set[of "ul_tones s" t "check_tone q names (ul_tones s)"]
    by (auto simp: add_custom_tone_def intro!: offered_more_tones split: prod.split)
  assume f: "\<And>t. ct_id (f t) = ct_id t"
  let ?ch = "change_entry (ul_tones s) (index_where (\<lambda>t. ct_id t = i) (ul_tones s)) f (check_tone q names (ul_tones s))"
  have "ct_id ` set (snd ?ch) = ct_id ` set (ul_tones s)"
    using index_where_bound[of "\<lambda>t. ct_id t = i" "ul_tones s"]
  proof (rule change_entry_cases)
    fix n e assume n: "n < length (ul_tones s)" and e: "check_tone q names (ul_tones s) (f (ul_tones s ! n)) (Some n) = (NoRefusal, e)"
      and ch: "snd ?ch = (ul_tones s)[n := e]"
    have "ct_id e = ct_id (ul_tones s ! n)" using e f by (auto simp: check_tone_def Let_def split: if_splits)
    thus ?thesis unfolding ch by (rule update_same_key[OF n])
  qed simp
  thus "choices_offered (snd (edit_custom_tone q names i f s))"
    using s by (auto simp: edit_custom_tone_def intro!: offered_more_tones split: prod.split)
qed

lemma offered_level_edits:
  assumes s: "choices_offered s"
  shows "choices_offered (snd (add_custom_cleanup_level q names l s))"
    "(\<And>l. cl_id (f l) = cl_id l) \<Longrightarrow> choices_offered (snd (edit_custom_cleanup_level q names i f s))"
proof -
  have bases: "\<forall>l\<in>set (ul_levels s). cl_base l \<in> set cleanup_bases" using s by (simp add: choices_offered_def)
  have "\<forall>l\<in>set (snd (append_entry (ul_levels s) l (check_level q names (ul_levels s)))). cl_base l \<in> set cleanup_bases"
    using bases levels.check_ok[of q names "ul_levels s" l None]
    by (auto simp: append_entry_def level_ok_def split: prod.split)
  thus "choices_offered (snd (add_custom_cleanup_level q names l s))"
    using s append_entry_set[of "ul_levels s" l "check_level q names (ul_levels s)"]
    by (auto simp: add_custom_cleanup_level_def intro!: offered_more_levels split: prod.split)
  assume f: "\<And>l. cl_id (f l) = cl_id l"
  let ?ch = "change_entry (ul_levels s) (index_where (\<lambda>l. cl_id l = i) (ul_levels s)) f (check_level q names (ul_levels s))"
  have "cl_id ` set (snd ?ch) = cl_id ` set (ul_levels s) \<and> (\<forall>l\<in>set (snd ?ch). cl_base l \<in> set cleanup_bases)"
    using index_where_bound[of "\<lambda>l. cl_id l = i" "ul_levels s"]
  proof (rule change_entry_cases)
    fix n e assume n: "n < length (ul_levels s)" and e: "check_level q names (ul_levels s) (f (ul_levels s ! n)) (Some n) = (NoRefusal, e)"
      and ch: "snd ?ch = (ul_levels s)[n := e]"
    have "cl_id e = cl_id (ul_levels s ! n)" using e f by (auto simp: check_level_def Let_def split: if_splits)
    moreover have "cl_base e \<in> set cleanup_bases" using levels.check_ok[OF e] by (simp add: level_ok_def)
    ultimately show ?thesis unfolding ch
      using update_same_key[OF n, of cl_id e] bases set_update_subset_insert[of "ul_levels s" n e] by auto
  qed (use bases in simp)
  thus "choices_offered (snd (edit_custom_cleanup_level q names i f s))"
    using s by (auto simp: edit_custom_cleanup_level_def intro!: offered_more_levels split: prod.split)
qed


text \<open>Moving the profiles' tones leaves their levels, and the other way round.\<close>

lemma moved_fields:
  "wps_cleanup_strength ` set (move_profiles tone_ref P i ps) = wps_cleanup_strength ` set ps"
  "wps_tone ` set (move_profiles level_ref P i ps) = wps_tone ` set ps"
proof -
  have "map wps_cleanup_strength (move_profiles tone_ref P i ps) = map wps_cleanup_strength ps"
    "map wps_tone (move_profiles level_ref P i ps) = map wps_tone ps"
    by (simp_all add: move_profiles_def)
  thus "wps_cleanup_strength ` set (move_profiles tone_ref P i ps) = wps_cleanup_strength ` set ps"
    "wps_tone ` set (move_profiles level_ref P i ps) = wps_tone ` set ps"
    by (metis list.set_map)+
qed

lemma chosen_fields:
  "tone.chosen B s \<longleftrightarrow> wps_tone ` set (ul_profiles s) \<subseteq> B \<union> ct_id ` set (ul_tones s)"
  "level.chosen B s \<longleftrightarrow> wps_cleanup_strength ` set (ul_profiles s) \<subseteq> B \<union> cl_id ` set (ul_levels s)"
  by (auto simp: tone.chosen_def level.chosen_def)

lemma offered_remove_tone:
  assumes "choices_offered s"
  shows "choices_offered (snd (remove_custom_tone q i s))"
    "fst (remove_custom_tone q i s) = Some u \<Longrightarrow> choices_offered d \<Longrightarrow> choices_offered (u d)"
proof -
  have "tone.chosen (set k_built_in_tones) (snd (remove_custom_tone q i s))"
    using assms tone.remove_chosen[of _ s "''none''"] by (simp add: choices_offered_iff remove_custom_tone_def k_built_in_tones_def)
  moreover have "level.chosen B (snd (remove_custom_tone q i s)) \<longleftrightarrow> level.chosen B s"
    "ul_levels (snd (remove_custom_tone q i s)) = ul_levels s" for B
    by (auto simp: chosen_fields remove_custom_tone_def remove_choice_def Let_def moved_fields split: option.split)
  ultimately show "choices_offered (snd (remove_custom_tone q i s))" using assms by (simp add: choices_offered_iff)
  assume u: "fst (remove_custom_tone q i s) = Some u" and d: "choices_offered d"
  then obtain n e moved where u: "u = restore_choice q tone_ref i ''none'' n e moved"
    by (auto simp: remove_custom_tone_def remove_choice_def Let_def split: option.splits)
  have "level.chosen B (u d) \<longleftrightarrow> level.chosen B d" "ul_levels (u d) = ul_levels d" for B
    by (auto simp: chosen_fields u restore_choice_def Let_def moved_fields)
  thus "choices_offered (u d)" using d tone.restore_chosen u by (auto simp: choices_offered_iff)
qed

lemma level_instead_built_in:
  "\<forall>l\<in>set ls. cl_base l \<in> set cleanup_bases \<Longrightarrow> level_instead i ls \<in> set k_built_in_cleanup_levels"
proof -
  assume b: "\<forall>l\<in>set ls. cl_base l \<in> set cleanup_bases"
  show ?thesis
  proof (cases "index_where (\<lambda>l. cl_id l = i) ls")
    case (Some n)
    hence "cl_base (ls ! n) \<in> set cleanup_bases" using b index_where_less[OF Some] by simp
    thus ?thesis using Some by (auto simp: level_instead_def cleanup_bases_def k_built_in_cleanup_levels_def)
  qed (simp add: level_instead_def k_built_in_cleanup_levels_def)
qed

lemma offered_remove_level:
  assumes "choices_offered s"
  shows "choices_offered (snd (remove_custom_cleanup_level q i s))"
    "fst (remove_custom_cleanup_level q i s) = Some u \<Longrightarrow> choices_offered d \<Longrightarrow> choices_offered (u d)"
proof -
  let ?r = "remove_custom_cleanup_level q i s"
  have bases: "\<forall>l\<in>set (ul_levels s). cl_base l \<in> set cleanup_bases" using assms by (simp add: choices_offered_def)
  have "level.chosen (set k_built_in_cleanup_levels) (snd ?r)"
    using assms level.remove_chosen[of _ s, OF _ level_instead_built_in[OF bases]]
    by (simp add: choices_offered_iff remove_custom_cleanup_level_def)
  moreover have "tone.chosen B (snd ?r) \<longleftrightarrow> tone.chosen B s" for B
    by (auto simp: chosen_fields remove_custom_cleanup_level_def remove_choice_def Let_def moved_fields split: option.split)
  moreover have "set (ul_levels (snd ?r)) \<subseteq> set (ul_levels s)"
    by (auto simp: remove_custom_cleanup_level_def remove_choice_def Let_def dest: subsetD[OF take_entry_set] split: option.split)
  ultimately show "choices_offered (snd ?r)" using assms by (auto simp: choices_offered_iff)
  assume u: "fst ?r = Some u" and d: "choices_offered d"
  then obtain n moved where u: "u = restore_choice q level_ref i (level_instead i (ul_levels s)) n (ul_levels s ! n) moved"
      and n: "index_where (\<lambda>l. cl_id l = i) (ul_levels s) = Some n"
    by (auto simp: remove_custom_cleanup_level_def remove_choice_def Let_def split: option.splits)
  have "cl_base (ul_levels s ! n) \<in> set cleanup_bases" using bases index_where_less[OF n] by simp
  hence "\<forall>l\<in>set (ul_levels (u d)). cl_base l \<in> set cleanup_bases"
    using d by (auto simp: u restore_choice_def Let_def choices_offered_def dest!: subsetD[OF put_back_set])
  moreover have "tone.chosen B (u d) \<longleftrightarrow> tone.chosen B d" for B
    by (auto simp: chosen_fields u restore_choice_def Let_def moved_fields)
  ultimately show "choices_offered (u d)" using d level.restore_chosen u by (auto simp: choices_offered_iff)
qed

definition offered_draft :: "profile_draft \<Rightarrow> bool" where
  "offered_draft d \<longleftrightarrow> choices_offered (fst d) \<and> (\<forall>u\<in>set (snd d). \<forall>s. choices_offered s \<longrightarrow> choices_offered (u s))"

lemma offered_with_undo:
  "choices_offered (snd r) \<Longrightarrow> (\<And>u s. fst r = Some u \<Longrightarrow> choices_offered s \<Longrightarrow> choices_offered (u s)) \<Longrightarrow>
   offered_draft (s0, us) \<Longrightarrow> offered_draft (with_choice_undo r us)"
  by (cases "fst r") (auto simp: with_choice_undo_def offered_draft_def)

lemma offered_edit:
  assumes d: "offered_draft d" and e: "keeps_ids e"
  shows "offered_draft (apply_profile_edit q e d)"
proof -
  obtain s us where su: "d = (s, us)" by force
  have s: "choices_offered s" and u: "\<And>n. n < length us \<Longrightarrow> choices_offered ((us ! n) s)"
    using d su by (auto simp: offered_draft_def)
  have state: "choices_offered s' \<Longrightarrow> offered_draft (s', us)" for s' using d su by (simp add: offered_draft_def)
  have tone: "offered_draft (with_choice_undo (remove_custom_tone q i s) us)" for i
    using offered_with_undo[of "remove_custom_tone q i s" s us] offered_remove_tone[OF s, of q i] d su by blast
  have level: "offered_draft (with_choice_undo (remove_custom_cleanup_level q i s) us)" for i
    using offered_with_undo[of "remove_custom_cleanup_level q i s" s us] offered_remove_level[OF s, of q i] d su by blast
  show ?thesis
    unfolding su using e
    by (cases e) (simp_all add: state s u tone level offered_profile_edits[OF s] offered_tone_edits[OF s]
        offered_level_edits[OF s])
qed

text \<open>
  C30. Whatever a person adds, edits, removes or takes back, no Writing Profile ever
  names a tone or cleanup level the settings do not offer: a removal moves the
  profiles that chose it to a built-in one, and its undo points them back only
  once the choice is there again.
\<close>

theorem every_choice_stays_offered:
  assumes "choices_offered s" "\<forall>e\<in>set edits. keeps_ids e"
  shows "choices_offered (fst (fold (apply_profile_edit q) edits (s, [])))"
proof -
  have "offered_draft (fold (apply_profile_edit q) edits d)" if "offered_draft d" for d
    using that assms(2)
  proof (induction edits arbitrary: d)
    case (Cons e edits)
    thus ?case using offered_edit[of d e q] by simp
  qed simp
  from this[of "(s, [])"] show ?thesis using assms(1) by (simp add: offered_draft_def)
qed

theorem every_choice_stays_offered_witness:
  fixes s :: profile_lists and t :: custom_tone
  defines "t \<equiv> \<lparr>ct_id = ''custom_1'', ct_name = ''Pirate'', ct_instruction = ''Arr''\<rparr>"
  defines "s \<equiv> \<lparr>ul_vocabulary = [], ul_corrections = [], ul_bindings = [], ul_recognition_rules = [], ul_overrides = [],
    ul_profiles = [(profile_settings_of wp_work)\<lparr>wps_tone := ''custom_1''\<rparr>], ul_tones = [t], ul_levels = []\<rparr>"
  shows "choices_offered (fst (fold (apply_profile_edit ascii)
    [RemoveTone ''custom_1'', EditTone [] ''custom_1'' (\<lambda>t. t\<lparr>ct_name := ''X''\<rparr>), UndoChoice 0] (s, [])))"
proof -
  have "choices_offered s"
    by (simp add: choices_offered_def s_def t_def profile_settings_of_def k_built_in_cleanup_levels_def)
  thus ?thesis by (rule every_choice_stays_offered) simp
qed

lemma remove_choice_none: "remove_choice q r i instead s = (None, s') \<Longrightarrow> s' = s"
  by (auto simp: remove_choice_def Let_def split: option.splits)

text \<open>
  Removing a tone or a cleanup level and taking that back at once leaves the
  settings as they were, the profiles' choices included, and in between no
  profile holds what was removed.
\<close>

theorem removed_choice_comes_back:
  assumes "distinct (map wps_profile (ul_profiles s))"
    and tones: "distinct (map ct_id (ul_tones s))" "apart (\<lambda>a b. same_caseless q (ct_name a) (ct_name b)) (ul_tones s)"
    and levels: "distinct (map cl_id (ul_levels s))" "apart (\<lambda>a b. same_caseless q (cl_name a) (cl_name b)) (ul_levels s)"
    and offered: "i \<notin> set k_built_in_tones \<union> set k_built_in_cleanup_levels" "\<forall>l\<in>set (ul_levels s). cl_base l \<in> set cleanup_bases"
  shows "(case remove_custom_tone q i s of (None, s') \<Rightarrow> s' = s
      | (Some u, s') \<Rightarrow> u s' = s \<and> (\<forall>p\<in>set (ul_profiles s'). wps_tone p \<noteq> i))
    \<and> (case remove_custom_cleanup_level q i s of (None, s') \<Rightarrow> s' = s
      | (Some u, s') \<Rightarrow> u s' = s \<and> (\<forall>p\<in>set (ul_profiles s'). wps_cleanup_strength p \<noteq> i))"
proof -
  have instead: "''none'' \<noteq> i" "level_instead i (ul_levels s) \<noteq> i"
    using offered(1) level_instead_built_in[OF offered(2), of i] by (auto simp: k_built_in_tones_def)
  have at: "apart (same_choice q tone_ref) (ul_tones s)"
    using apart_or[OF tones(1)[folded apart_key] tones(2)] by (simp add: same_choice_def[abs_def])
  have al: "apart (same_choice q level_ref) (ul_levels s)"
    using apart_or[OF levels(1)[folded apart_key] levels(2)] by (simp add: same_choice_def[abs_def])
  have "u s' = s \<and> (\<forall>p\<in>set (ul_profiles s'). wps_tone p \<noteq> i)"
    if "remove_choice q tone_ref i ''none'' s = (Some u, s')" for u s'
  proof
    show "u s' = s" by (rule tone.undo_choice[OF assms(1) _ _ that]) (use at in \<open>auto simp: same_choice_def same_caseless_sym\<close>)
  qed (use tone.removed_is_unchosen[OF that instead(1)] in simp)
  moreover have "u s' = s \<and> (\<forall>p\<in>set (ul_profiles s'). wps_cleanup_strength p \<noteq> i)"
    if "remove_choice q level_ref i (level_instead i (ul_levels s)) s = (Some u, s')" for u s'
  proof
    show "u s' = s" by (rule level.undo_choice[OF assms(1) _ _ that]) (use al in \<open>auto simp: same_choice_def same_caseless_sym\<close>)
  qed (use level.removed_is_unchosen[OF that instead(2)] in simp)
  ultimately show ?thesis
    by (auto simp: remove_custom_tone_def remove_custom_cleanup_level_def remove_choice_none split: option.split prod.split)
qed

theorem removed_choice_comes_back_witness:
  fixes s :: profile_lists and t :: custom_tone
  defines "t \<equiv> \<lparr>ct_id = ''custom_1'', ct_name = ''Pirate'', ct_instruction = ''Arr''\<rparr>"
  defines "s \<equiv> \<lparr>ul_vocabulary = [], ul_corrections = [], ul_bindings = [], ul_recognition_rules = [], ul_overrides = [],
    ul_profiles = [(profile_settings_of wp_work)\<lparr>wps_tone := ''custom_1''\<rparr>], ul_tones = [t], ul_levels = []\<rparr>"
  shows "\<exists>u s'. remove_custom_tone ascii ''custom_1'' s = (Some u, s') \<and> u s' = s
    \<and> map wps_tone (ul_profiles s') = [''none'']"
proof -
  obtain u s' where r: "remove_custom_tone ascii ''custom_1'' s = (Some u, s')" "map wps_tone (ul_profiles s') = [''none'']"
    by (simp add: remove_custom_tone_def remove_choice_def s_def t_def take_entry_def move_profiles_def profile_settings_of_def)
  have "u s' = s"
    using removed_choice_comes_back[of s ascii "''custom_1''"] r(1)
    by (simp add: s_def k_built_in_tones_def k_built_in_cleanup_levels_def)
  thus ?thesis using r by (intro exI[of _ u] exI[of _ s'] conjI) simp_all
qed

end
