(* ===== verification/Binding_Matches.thy ===== *)
theory Binding_Matches
  imports Binding_Rules
begin

text \<open>
  What the matches of the binding rules are: the tokens are the maximal runs of
  letters and digits, the matches are occurrences of rules that do not overlap,
  longest first, and filling the placeholders back in gives the text with the
  replacements.
\<close>

section \<open>The tokens\<close>

definition token_ok :: "qchars \<Rightarrow> qstring \<Rightarrow> token \<Rightarrow> bool" where
  "token_ok q text t \<longleftrightarrow> tk_start t < tk_end t \<and> tk_end t \<le> length text
     \<and> (\<forall>i\<in>{tk_start t..<tk_end t}. is_letter_or_number q (text ! i))
     \<and> (tk_start t = 0 \<or> \<not> is_letter_or_number q (text ! (tk_start t - 1)))
     \<and> (tk_end t = length text \<or> \<not> is_letter_or_number q (text ! tk_end t))
     \<and> tk_text t = case_folded q (take (tk_end t - tk_start t) (drop (tk_start t) text))"

abbreviation tokens_apart :: "token list \<Rightarrow> bool" where
  "tokens_apart \<equiv> sorted_wrt (\<lambda>a b. tk_end a < tk_start b)"

text \<open>The token being read at an index, from its start on; none when it is empty.\<close>

definition reading_ok :: "qchars \<Rightarrow> qstring \<Rightarrow> nat \<Rightarrow> qstring \<Rightarrow> nat \<Rightarrow> bool" where
  "reading_ok q text index current start \<longleftrightarrow> index \<le> length text \<and>
     (if current = [] then index = 0 \<or> \<not> is_letter_or_number q (text ! (index - 1))
      else start < index \<and> current = take (index - start) (drop start text)
        \<and> (\<forall>i\<in>{start..<index}. is_letter_or_number q (text ! i))
        \<and> (start = 0 \<or> \<not> is_letter_or_number q (text ! (start - 1))))"

lemma reading_ok_letter:
  assumes "reading_ok q text index current start" "index < length text" "is_letter_or_number q (text ! index)"
  shows "reading_ok q text (Suc index) (current @ [text ! index]) (if current = [] then index else start)"
proof (cases "current = []")
  case True
  thus ?thesis using assms by (auto simp: reading_ok_def take_Suc_conv_app_nth)
next
  case False
  hence "take (Suc index - start) (drop start text) = current @ [text ! index]"
    using assms take_Suc_conv_app_nth[of "index - start" "drop start text"] diff_less_mono[of index "length text" start]
    by (simp add: reading_ok_def Suc_diff_le)
  thus ?thesis using False assms by (auto simp: reading_ok_def less_Suc_eq)
qed

lemma reading_ok_token:
  assumes "reading_ok q text index current start" "current \<noteq> []"
    "index = length text \<or> \<not> is_letter_or_number q (text ! index)"
  shows "token_ok q text \<lparr>tk_text = case_folded q current, tk_start = start, tk_end = index\<rparr>"
  using assms by (auto simp: reading_ok_def token_ok_def)

lemma scan_tokens_ok:
  assumes "reading_ok q text index current start" "cs = drop index text"
  shows "(\<forall>t\<in>set (scan_tokens q cs index current start). token_ok q text t
      \<and> (if current = [] then index else start) \<le> tk_start t)
    \<and> tokens_apart (scan_tokens q cs index current start)"
  using assms
proof (induction cs arbitrary: index current start)
  case Nil
  hence "index = length text" by (simp add: reading_ok_def)
  thus ?case using reading_ok_token[OF Nil(1)] by auto
next
  case (Cons c cs)
  have index: "index < length text" using Cons(3) by (metis drop_all list.distinct(1) not_le)
  hence c: "text ! index = c" and cs: "cs = drop (Suc index) text"
    using Cons(3) Cons_nth_drop_Suc[OF index] by (metis list.inject)+
  show ?case
  proof (cases "is_letter_or_number q c")
    case True
    have "reading_ok q text (Suc index) (current @ [c]) (if current = [] then index else start)"
      using reading_ok_letter[OF Cons(2) index] c True by simp
    from Cons(1)[OF this cs] show ?thesis using True by auto
  next
    case False
    have "reading_ok q text (Suc index) [] start'" for start'
      using index False c by (simp add: reading_ok_def)
    note rest = Cons(1)[OF this cs]
    show ?thesis
    proof (cases "current = []")
      case True
      thus ?thesis using rest[of start] False by (auto dest: Suc_leD)
    next
      case ne: False
      have "token_ok q text \<lparr>tk_text = case_folded q current, tk_start = start, tk_end = index\<rparr>"
        using reading_ok_token[OF Cons(2) ne] False c by simp
      moreover have "start < index" using Cons(2) ne by (simp add: reading_ok_def)
      ultimately show ?thesis using rest[of start] False ne by (auto simp: Suc_le_eq dest: bspec)
    qed
  qed
qed

lemma tokenize_ok: "(\<forall>t\<in>set (tokenize q text). token_ok q text t) \<and> tokens_apart (tokenize q text)"
  using scan_tokens_ok[of q "text" 0 "[]" 0 "text"] by (auto simp: tokenize_def reading_ok_def)

lemma tokens_apart_nth:
  "tokens_apart ts \<Longrightarrow> i < j \<Longrightarrow> j < length ts \<Longrightarrow> tk_end (ts ! i) < tk_start (ts ! j)"
  by (rule sorted_wrt_nth_less)

section \<open>The candidates\<close>

definition candidate_ok :: "qchars \<Rightarrow> token list \<Rightarrow> binding_rule list \<Rightarrow> candidate \<Rightarrow> bool" where
  "candidate_ok q ts rules c \<longleftrightarrow> cd_rule c \<in> set (compile_rules q rules) \<and> cd_count c = length (cr_tokens (cd_rule c))
     \<and> sequence_matches ts (cd_start c) (cr_tokens (cd_rule c))"

lemma compile_from_tokens: "r \<in> set (compile_from q n seen rules) \<Longrightarrow> cr_tokens r \<noteq> []"
  by (induction q n seen rules rule: compile_from.induct) (auto simp: Let_def split: if_splits)

lemma all_candidates_ok: "c \<in> set (all_candidates q ts rules) \<longleftrightarrow> candidate_ok q ts rules c"
proof -
  have "c \<in> set (rule_candidates ts r) \<longleftrightarrow> cd_rule c = r \<and> cd_count c = length (cr_tokens r)
      \<and> sequence_matches ts (cd_start c) (cr_tokens r)" for r
    by (cases c) (auto simp: rule_candidates_def sequence_matches_def)
  thus ?thesis by (auto simp: all_candidates_def candidate_ok_def)
qed

definition token_range :: "candidate \<Rightarrow> nat set" where
  "token_range c = {cd_start c..<cd_start c + cd_count c}"

lemma occupy_nth: "length (occupy s n xs) = length xs
    \<and> (i < length xs \<longrightarrow> occupy s n xs ! i = (xs ! i \<or> (s \<le> i \<and> i < s + n)))"
proof (induction n)
  case (Suc n)
  thus ?case by (cases "i = s + n") auto
qed auto

lemma accept_candidates_spec:
  assumes "\<forall>c\<in>set cs. cd_start c + cd_count c \<le> length occupied"
    and "taken = {i. i < length occupied \<and> occupied ! i}"
  shows "(\<forall>c\<in>set (accept_candidates occupied cs). c \<in> set cs \<and> token_range c \<inter> taken = {})
    \<and> sorted_wrt (\<lambda>a b. token_range a \<inter> token_range b = {}) (accept_candidates occupied cs)
    \<and> subseq (accept_candidates occupied cs) cs
    \<and> (\<forall>i<length cs. cs ! i \<in> set (accept_candidates occupied cs) \<or> token_range (cs ! i) \<inter> taken \<noteq> {}
        \<or> (\<exists>j<i. cs ! j \<in> set (accept_candidates occupied cs) \<and> token_range (cs ! j) \<inter> token_range (cs ! i) \<noteq> {}))"
  using assms
proof (induction occupied cs arbitrary: taken rule: accept_candidates.induct)
  case (2 occupied c cs)
  have over: "overlaps_taken occupied c \<longleftrightarrow> token_range c \<inter> taken \<noteq> {}"
    using 2(3,4) by (force simp: overlaps_taken_def token_range_def le_iff_add)
  show ?case
  proof (cases "overlaps_taken occupied c")
    case True
    note IH = 2(1)[OF True _ 2(4)]
    show ?thesis
      using IH 2(3) True over by (auto simp: less_Suc_eq_0_disj nth_Cons split: nat.splits) blast+
  next
    case False
    let ?o = "occupy (cd_start c) (cd_count c) occupied" and ?t = "taken \<union> token_range c"
    have len: "length ?o = length occupied" using occupy_nth by blast
    have "?t = {i. i < length ?o \<and> ?o ! i}"
      using 2(3,4) occupy_nth[of "cd_start c" "cd_count c" occupied] by (auto simp: token_range_def)
    note IH = 2(2)[OF False _ this]
    hence IH: "(\<forall>d\<in>set (accept_candidates ?o cs). d \<in> set cs \<and> token_range d \<inter> ?t = {})"
      "sorted_wrt (\<lambda>a b. token_range a \<inter> token_range b = {}) (accept_candidates ?o cs)"
      "subseq (accept_candidates ?o cs) cs"
      "\<forall>i<length cs. cs ! i \<in> set (accept_candidates ?o cs) \<or> token_range (cs ! i) \<inter> ?t \<noteq> {}
        \<or> (\<exists>j<i. cs ! j \<in> set (accept_candidates ?o cs) \<and> token_range (cs ! j) \<inter> token_range (cs ! i) \<noteq> {})"
      using 2(3) len by auto
    have "(c # cs) ! i \<in> set (accept_candidates occupied (c # cs)) \<or> token_range ((c # cs) ! i) \<inter> taken \<noteq> {}
        \<or> (\<exists>j<i. (c # cs) ! j \<in> set (accept_candidates occupied (c # cs))
            \<and> token_range ((c # cs) ! j) \<inter> token_range ((c # cs) ! i) \<noteq> {})" if "i < length (c # cs)" for i
    proof (cases i)
      case (Suc k)
      from IH(4) that Suc consider "cs ! k \<in> set (accept_candidates ?o cs)" | "token_range (cs ! k) \<inter> taken \<noteq> {}"
        | "token_range c \<inter> token_range (cs ! k) \<noteq> {}"
        | j where "j < k" "cs ! j \<in> set (accept_candidates ?o cs)" "token_range (cs ! j) \<inter> token_range (cs ! k) \<noteq> {}"
        by force
      thus ?thesis
      proof cases
        case 3
        thus ?thesis using Suc False by force
      next
        case 4
        thus ?thesis using Suc False by (intro disjI2 exI[of _ "Suc j"]) simp
      qed (use Suc False in simp_all)
    qed (use False in simp)
    thus ?thesis using IH(1,2,3) False over by auto
  qed
qed simp


section \<open>The matches\<close>

definition accepted :: "qchars \<Rightarrow> qstring \<Rightarrow> binding_rule list \<Rightarrow> candidate list" where
  "accepted q transcript rules = (let ts = tokenize q transcript in
     accept_candidates (replicate (length ts) False) (sort_key candidate_rank (all_candidates q ts rules)))"

lemma accepted_spec:
  "(\<forall>c\<in>set (accepted q transcript rules). candidate_ok q (tokenize q transcript) rules c)
   \<and> sorted_wrt (\<lambda>a b. token_range a \<inter> token_range b = {}) (accepted q transcript rules)
   \<and> (\<forall>c. candidate_ok q (tokenize q transcript) rules c \<longrightarrow>
        (\<exists>a\<in>set (accepted q transcript rules). candidate_rank a \<le> candidate_rank c
           \<and> token_range a \<inter> token_range c \<noteq> {}))"
proof -
  let ?ts = "tokenize q transcript" and ?o = "replicate (length (tokenize q transcript)) False"
  define cs where "cs = sort_key candidate_rank (all_candidates q ?ts rules)"
  have ranked: "sorted (map candidate_rank cs)" by (simp add: cs_def)
  have ok: "c \<in> set cs \<longleftrightarrow> candidate_ok q ?ts rules c" for c by (simp add: cs_def all_candidates_ok)
  have fits: "\<forall>c\<in>set cs. cd_start c + cd_count c \<le> length ?o"
    using ok by (auto simp: candidate_ok_def sequence_matches_def)
  have nonempty: "token_range c \<noteq> {}" if "candidate_ok q ?ts rules c" for c
    using that compile_from_tokens by (auto simp: candidate_ok_def token_range_def compile_rules_def)
  have acc: "accepted q transcript rules = accept_candidates ?o cs" by (simp add: accepted_def cs_def Let_def)
  have free: "{} = {i. i < length ?o \<and> ?o ! i}" by auto
  note spec = accept_candidates_spec[OF fits free, folded acc]
  have "\<exists>a\<in>set (accepted q transcript rules). candidate_rank a \<le> candidate_rank c \<and> token_range a \<inter> token_range c \<noteq> {}"
    if "candidate_ok q ?ts rules c" for c
  proof -
    have "c \<in> set cs" using ok that by blast
    then obtain i where i: "i < length cs" "cs ! i = c" unfolding in_set_conv_nth by blast
    have sorted: "j < i \<Longrightarrow> candidate_rank (cs ! j) \<le> candidate_rank c" for j
      using i sorted_nth_mono[OF ranked, of j i] by simp
    have "cs ! i \<in> set (accepted q transcript rules) \<or> token_range (cs ! i) \<inter> {} \<noteq> {}
        \<or> (\<exists>j<i. cs ! j \<in> set (accepted q transcript rules) \<and> token_range (cs ! j) \<inter> token_range (cs ! i) \<noteq> {})"
      by (rule spec[THEN conjunct2, THEN conjunct2, THEN conjunct2, rule_format, OF i(1)])
    then consider "c \<in> set (accepted q transcript rules)" | j where "j < i"
        "cs ! j \<in> set (accepted q transcript rules)" "token_range (cs ! j) \<inter> token_range c \<noteq> {}"
      unfolding i(2) by (metis Int_empty_right)
    thus ?thesis using sorted nonempty[OF that] by cases auto
  qed
  moreover have "\<forall>c\<in>set (accepted q transcript rules). candidate_ok q ?ts rules c" using spec ok by blast
  ultimately show ?thesis using spec by blast
qed

lemma find_matches_accepted:
  "find_matches q transcript rules
    = sort_key bm_start (map (match_of (tokenize q transcript)) (accepted q transcript rules))"
proof -
  have "rules = [] \<Longrightarrow> accepted q transcript rules = []"
    by (simp add: accepted_def all_candidates_def compile_rules_def Let_def)
  moreover have "accepted q transcript rules = []" if "tokenize q transcript = []"
  proof -
    have "\<not> candidate_ok q [] rules c" for c
      using compile_from_tokens by (auto simp: candidate_ok_def sequence_matches_def compile_rules_def)
    thus ?thesis using accepted_spec[of q transcript rules] that by (metis list.set_intros(1) neq_Nil_conv)
  qed
  ultimately show ?thesis by (auto simp: find_matches_def accepted_def Let_def)
qed

lemma sorted_wrt_distinct_imp:
  assumes "sorted_wrt P xs" "distinct xs" "\<And>x y. x \<in> set xs \<Longrightarrow> y \<in> set xs \<Longrightarrow> x \<noteq> y \<Longrightarrow> P x y \<Longrightarrow> Q x y"
  shows "sorted_wrt Q xs"
  using assms by (auto simp: sorted_wrt_iff_nth_less nth_eq_iff_index_eq)

lemma candidate_bounds:
  assumes "candidate_ok q ts rules c"
  shows "0 < cd_count c" "cd_start c + cd_count c \<le> length ts"
  using assms compile_from_tokens by (auto simp: candidate_ok_def sequence_matches_def compile_rules_def)

lemma matches_apart:
  assumes "tokens_apart ts" "candidate_ok q ts rules c" "candidate_ok q ts rules d"
    "token_range c \<inter> token_range d = {}" "cd_start c \<le> cd_start d"
  shows "bm_end (match_of ts c) < bm_start (match_of ts d)"
proof -
  note b = candidate_bounds[OF assms(2)] candidate_bounds[OF assms(3)]
  have "cd_start c + cd_count c \<le> cd_start d"
  proof (rule ccontr)
    assume "\<not> ?thesis"
    hence "cd_start d \<in> token_range c \<inter> token_range d" using b assms(5) by (simp add: token_range_def)
    thus False using assms(4) by blast
  qed
  thus ?thesis using b tokens_apart_nth[OF assms(1), of "cd_start c + cd_count c - 1" "cd_start d"]
    by (simp add: match_of_def)
qed

lemma match_bounds:
  assumes "\<forall>t\<in>set ts. token_ok q text t" "tokens_apart ts" "candidate_ok q ts rules c"
  shows "bm_start (match_of ts c) < bm_end (match_of ts c)"
proof -
  let ?last = "cd_start c + cd_count c - 1"
  note b = candidate_bounds[OF assms(3)]
  have "tk_start (ts ! cd_start c) \<le> tk_start (ts ! ?last)"
  proof (cases "cd_count c = 1")
    case False
    hence "tk_end (ts ! cd_start c) < tk_start (ts ! ?last)"
      using b tokens_apart_nth[OF assms(2), of "cd_start c" ?last] by simp
    moreover have "tk_start (ts ! cd_start c) < tk_end (ts ! cd_start c)"
      using assms(1) b by (auto simp: token_ok_def)
    ultimately show ?thesis by simp
  qed simp
  moreover have "tk_start (ts ! ?last) < tk_end (ts ! ?last)" using assms(1) b by (auto simp: token_ok_def)
  ultimately show ?thesis by (simp add: match_of_def)
qed

text \<open>The matches are apart: some other character stands between two of them.\<close>

lemma find_matches_apart:
  "sorted_wrt (\<lambda>a b. bm_end a < bm_start b) (find_matches q transcript rules)"
proof -
  let ?ts = "tokenize q transcript" and ?acc = "accepted q transcript rules"
  have toks: "\<forall>t\<in>set ?ts. token_ok q transcript t" "tokens_apart ?ts" using tokenize_ok by blast+
  have ok: "\<forall>c\<in>set ?acc. candidate_ok q ?ts rules c"
    and disj: "sorted_wrt (\<lambda>a b. token_range a \<inter> token_range b = {}) ?acc"
    using accepted_spec by blast+
  have apart: "bm_end (match_of ?ts a) < bm_start (match_of ?ts b) \<or> bm_end (match_of ?ts b) < bm_start (match_of ?ts a)"
    if "i < j" "j < length ?acc" "a = ?acc ! i" "b = ?acc ! j" for i j a b
  proof -
    have "token_range a \<inter> token_range b = {}" using disj that by (simp add: sorted_wrt_iff_nth_less)
    moreover have "candidate_ok q ?ts rules a" "candidate_ok q ?ts rules b" using ok that by auto
    ultimately show ?thesis
      using matches_apart[OF toks(2), of q rules a b] matches_apart[OF toks(2), of q rules b a]
      by (cases "cd_start a \<le> cd_start b") (auto simp: Int_commute)
  qed
  have wide: "\<forall>m\<in>set (map (match_of ?ts) ?acc). bm_start m < bm_end m"
    using ok match_bounds[OF toks] by auto
  have pair: "bm_end x < bm_start y \<or> bm_end y < bm_start x"
    if x: "x \<in> set (map (match_of ?ts) ?acc)" and y: "y \<in> set (map (match_of ?ts) ?acc)" and "x \<noteq> y" for x y
  proof -
    obtain i j where "i < length ?acc" "j < length ?acc" "x = match_of ?ts (?acc ! i)" "y = match_of ?ts (?acc ! j)"
      using x y unfolding set_map image_iff by (metis in_set_conv_nth)
    thus ?thesis using apart[OF _ _ refl refl, of i j] apart[OF _ _ refl refl, of j i] \<open>x \<noteq> y\<close> by (cases i j rule: linorder_cases) auto
  qed
  have "distinct (map (match_of ?ts) ?acc)"
  proof (unfold distinct_conv_nth, intro allI impI)
    fix i j assume "i < length (map (match_of ?ts) ?acc)" "j < length (map (match_of ?ts) ?acc)" "i \<noteq> j"
    moreover from this have "bm_start (match_of ?ts (?acc ! i)) < bm_end (match_of ?ts (?acc ! i))" using wide by simp
    ultimately show "map (match_of ?ts) ?acc ! i \<noteq> map (match_of ?ts) ?acc ! j"
      using apart[OF _ _ refl refl, of i j] apart[OF _ _ refl refl, of j i] by (cases i j rule: linorder_cases) auto
  qed
  moreover have "sorted_wrt (\<lambda>a b. bm_start a \<le> bm_start b) (sort_key bm_start (map (match_of ?ts) ?acc))"
    using sorted_sort_key[of bm_start "map (match_of ?ts) ?acc"] by (simp only: sorted_map)
  ultimately show ?thesis
    unfolding find_matches_accepted using pair wide
    by (elim sorted_wrt_distinct_imp) (auto, force)
qed

section \<open>Where a match stands in the text\<close>

definition match_ok :: "qchars \<Rightarrow> qstring \<Rightarrow> binding_match \<Rightarrow> bool" where
  "match_ok q text m \<longleftrightarrow> bm_start m < bm_end m \<and> bm_end m \<le> length text
     \<and> (bm_start m = 0 \<or> \<not> is_letter_or_number q (text ! (bm_start m - 1)))
     \<and> (bm_end m = length text \<or> \<not> is_letter_or_number q (text ! bm_end m))"

lemma find_matches_member:
  assumes "m \<in> set (find_matches q transcript rules)"
  obtains c where "candidate_ok q (tokenize q transcript) rules c" "m = match_of (tokenize q transcript) c"
    "match_ok q transcript m"
proof -
  let ?ts = "tokenize q transcript"
  obtain c where c: "candidate_ok q ?ts rules c" "m = match_of ?ts c"
    using assms accepted_spec[of q transcript rules] by (auto simp: find_matches_accepted)
  have toks: "\<forall>t\<in>set ?ts. token_ok q transcript t" "tokens_apart ?ts" using tokenize_ok by blast+
  have "token_ok q transcript (?ts ! cd_start c)" "token_ok q transcript (?ts ! (cd_start c + cd_count c - 1))"
    using toks(1) candidate_bounds[OF c(1)] by auto
  hence "match_ok q transcript m"
    using match_bounds[OF toks c(1)] by (simp add: match_ok_def c(2) token_ok_def match_of_def)
  thus ?thesis using that c by blast
qed

section \<open>Placeholders written and read\<close>

lemma decimal_value: "foldl (\<lambda>n c. n * 10 + (of_char c - 48)) 0 (decimal n) = n"
  by (induction n rule: decimal.induct) (subst decimal.simps, auto)

lemma decimal_inj [simp]: "decimal m = decimal n \<longleftrightarrow> m = n"
  by (metis decimal_value)

lemma decimal_digits: "decimal n \<noteq> [] \<and> list_all digit_char (decimal n)"
proof (induction n rule: decimal.induct)
  case (1 n)
  have "digit_char (char_of (48 + n mod 10))" by (simp add: digit_char_def)
  moreover have "n < 10 \<Longrightarrow> n mod 10 = n" by simp
  ultimately show ?case using 1 by (cases "n < 10") (simp_all add: decimal.simps[of n])
qed

lemma placeholder_name_inj [simp]: "placeholder_name m = placeholder_name n \<longleftrightarrow> m = n"
  by (simp add: placeholder_name_def)

lemma stem_once: "CHR ''S'' \<notin> set (tl k_placeholder_stem)" "hd k_placeholder_stem = CHR ''S''"
    "CHR ''_'' \<in> set k_placeholder_stem" "k_placeholder_stem \<noteq> []"
  by (simp_all add: k_placeholder_stem_def)

text \<open>A plain text with no underscore holds no start of a placeholder, even before one.\<close>

lemma no_stem_start:
  assumes "s \<noteq> []" "CHR ''_'' \<notin> set s" "rest = [] \<or> hd rest = CHR ''S''"
  shows "\<not> starts_with (s @ rest) k_placeholder_stem"
proof
  assume "starts_with (s @ rest) k_placeholder_stem"
  then obtain z where z: "s @ rest = k_placeholder_stem @ z" by (auto simp: starts_with_prefix prefix_def)
  then obtain u where "s = k_placeholder_stem @ u \<or> (s @ u = k_placeholder_stem \<and> rest = u @ z)"
    by (auto simp: append_eq_append_conv2)
  with assms(2) stem_once(3) have u: "s @ u = k_placeholder_stem" "rest = u @ z" by auto
  show False
  proof (cases u)
    case Nil
    thus ?thesis using u assms(2) stem_once(3) by auto
  next
    case (Cons a v)
    hence "a = CHR ''S''" using assms(3) u by auto
    moreover obtain b s' where "s = b # s'" using assms(1) by (cases s) auto
    ultimately have "tl k_placeholder_stem = s' @ CHR ''S'' # v" unfolding u(1)[symmetric] using Cons by simp
    hence "CHR ''S'' \<in> set (tl k_placeholder_stem)" by (simp only: set_append list.set) blast
    thus ?thesis using stem_once(1) by blast
  qed
qed

lemma pieces_plain:
  assumes "CHR ''_'' \<notin> set s" "rest = [] \<or> hd rest = CHR ''S''"
  shows "placeholder_pieces aw (s @ rest) = map PlainChar s
    @ placeholder_pieces (if s = [] then aw else word_char (last s)) rest"
  using assms(1)
proof (induction s arbitrary: aw)
  case (Cons c s)
  have "placeholder_length ((c # s) @ rest) = None"
    using no_stem_start[OF _ Cons.prems assms(2)] by (simp add: placeholder_length_def)
  thus ?case using Cons by (simp add: placeholder_pieces.simps(2)[of aw c])
qed simp

lemma digit_word: "digit_char c \<Longrightarrow> word_char c"
  by (auto simp: digit_char_def word_char_def ascii_alnum_def Let_def)

lemma pieces_placeholder:
  assumes "after = [] \<or> \<not> word_char (hd after)"
  shows "placeholder_pieces False (placeholder_name i @ after)
    = Placeholder (placeholder_name i) # placeholder_pieces True after"
proof -
  have all: "takeWhile digit_char (decimal i) = decimal i"
    using decimal_digits[of i] by (simp add: list_all_iff takeWhile_eq_all_conv)
  have tw: "takeWhile digit_char (decimal i @ after) = decimal i"
    using assms decimal_digits[of i] digit_word by (cases after) (auto simp: list_all_iff takeWhile_append)
  have "placeholder_length (placeholder_name i @ after) = Some (length k_placeholder_stem + length (decimal i))"
    using assms decimal_digits[of i]
    by (simp add: placeholder_length_def placeholder_name_def starts_with_def Let_def tw split: list.split) auto
  hence len: "placeholder_length (placeholder_name i @ after) = Some (length (placeholder_name i))"
    by (simp add: placeholder_name_def)
  obtain c cs where "placeholder_name i @ after = c # cs"
    by (cases "placeholder_name i @ after") (auto simp: placeholder_name_def stem_once)
  thus ?thesis using len by (simp add: placeholder_pieces.simps(2)[of False c cs])
    (metis append_eq_conv_conj)
qed

text \<open>Reading the placeholders of a text with its matches replaced by them.\<close>

lemma pieces_of_replaced:
  assumes chars: "\<forall>c. ascii_alnum c \<longrightarrow> is_letter_or_number q c" "CHR ''_'' \<notin> set text"
    and h: "\<And>c. h (PlainChar c) = [c]"
      "\<And>k. k < length ms \<Longrightarrow> h (Placeholder (placeholder_name (index + k))) = r (index + k) (ms ! k)"
    and ms: "\<forall>m\<in>set ms. match_ok q text m" "sorted_wrt (\<lambda>a b. bm_end a < bm_start b) ms"
    and cursor: "\<forall>m\<in>set ms. cursor < bm_start m \<or> (\<not> aw \<and> cursor = 0 \<and> cursor \<le> bm_start m)"
  shows "concat (map h (placeholder_pieces aw (replace_from text (\<lambda>i m. placeholder_name i) cursor index ms)))
    = replace_from text r cursor index ms"
  using h(2) ms cursor
proof (induction ms arbitrary: aw cursor index)
  case Nil
  have "CHR ''_'' \<notin> set (drop cursor text)" using chars(2) by (auto dest: in_set_dropD)
  from pieces_plain[OF this, of "[]" aw] h(1) show ?case by (simp add: placeholder_pieces.simps comp_def)
next
  case (Cons m ms)
  let ?seg = "take (bm_start m - cursor) (drop cursor text)"
  let ?after = "replace_from text (\<lambda>i m. placeholder_name i) (bm_end m) (Suc index) ms"
  have m: "match_ok q text m" using Cons.prems(2) by simp
  have plain: "CHR ''_'' \<notin> set ?seg" using chars(2) by (auto dest: in_set_dropD in_set_takeD)
  have word: "\<not> word_char c" if "c \<in> set text" "\<not> is_letter_or_number q c" for c
    using that chars by (auto simp: word_char_def)
  have len: "length ?seg = bm_start m - cursor" using m by (auto simp: match_ok_def)
  have before: "\<not> (if ?seg = [] then aw else word_char (last ?seg))"
  proof (cases "?seg = []")
    case True
    thus ?thesis using Cons.prems(4) len by (auto simp del: take_eq_Nil)
  next
    case False
    hence lt: "cursor < bm_start m" using len by (metis length_greater_0_conv zero_less_diff)
    hence "last ?seg = text ! (bm_start m - 1)"
      using False len m by (simp add: last_conv_nth match_ok_def del: take_eq_Nil length_take length_drop)
    thus ?thesis using False lt m word[of "text ! (bm_start m - 1)"] by (auto simp: match_ok_def)
  qed
  have apart: "\<forall>n\<in>set ms. bm_end m < bm_start n" using Cons.prems(3) by simp
  have after: "?after = [] \<or> \<not> word_char (hd ?after)"
  proof (cases "bm_end m = length text")
    case True
    have "ms = []" using apart Cons.prems(2) True by (cases ms) (auto simp: match_ok_def)
    thus ?thesis using True by simp
  next
    case False
    hence lt: "bm_end m < length text" using m by (auto simp: match_ok_def)
    have "\<exists>z. ?after = text ! bm_end m # z"
      using apart lt Cons_nth_drop_Suc[OF lt] by (cases ms) (auto simp: take_Cons' dest!: sym[of _ "drop (bm_end m) text"])
    thus ?thesis using lt False m word[of "text ! bm_end m"] by (auto simp: match_ok_def)
  qed
  have name: "placeholder_name index @ ?after = [] \<or> hd (placeholder_name index @ ?after) = CHR ''S''"
    using stem_once by (simp add: placeholder_name_def)
  have "placeholder_pieces aw (?seg @ placeholder_name index @ ?after)
    = map PlainChar ?seg @ Placeholder (placeholder_name index) # placeholder_pieces True ?after"
    unfolding pieces_plain[OF plain name] using before pieces_placeholder[OF after] by simp
  moreover have "concat (map h (placeholder_pieces True ?after)) = replace_from text r (bm_end m) (Suc index) ms"
    using Cons.IH[of "Suc index" "bm_end m" True] Cons.prems(1)[of "Suc k" for k] Cons.prems(2,3) apart by auto
  moreover have "h (Placeholder (placeholder_name index)) = r index m" using Cons.prems(1)[of 0] by simp
  ultimately show ?case using h(1) by (simp add: comp_def)
qed

section \<open>The replacements of a result\<close>

lemma replacements_lookup:
  assumes "k < n"
  shows "replacements_by_placeholder (map (\<lambda>i. \<lparr>bp_placeholder = placeholder_name i, bp_replacement = f i\<rparr>) [0..<n])
      (placeholder_name k) = Some (f k)"
proof -
  have "map_of (rev (map (\<lambda>i. (placeholder_name i, f i)) [0..<n])) (placeholder_name k) = Some (f k)"
    using assms by (intro map_of_is_SomeI) (auto simp: distinct_map inj_on_def comp_def)
  thus ?thesis by (simp add: replacements_by_placeholder_def comp_def)
qed

lemma process_bindings_texts:
  "bs_bound_text (process_bindings q text rules)
     = replace_matches text (find_matches q text rules) (\<lambda>i m. br_replacement (bm_rule m))"
  "bs_placeholder_text (process_bindings q text rules)
     = replace_matches text (find_matches q text rules) (\<lambda>i m. placeholder_name i)"
  "bs_placeholders (process_bindings q text rules) = map (\<lambda>i. \<lparr>bp_placeholder = placeholder_name i,
     bp_replacement = br_replacement (bm_rule (find_matches q text rules ! i))\<rparr>) [0..<length (find_matches q text rules)]"
  by (auto simp: process_bindings_def Let_def replace_matches_def)

text \<open>The transcript with its matches taken out: what a refinement could mistake for a placeholder.\<close>

definition unbound_text :: "qchars \<Rightarrow> qstring \<Rightarrow> binding_rule list \<Rightarrow> qstring" where
  "unbound_text q text rules = replace_matches text (find_matches q text rules) (\<lambda>i m. [])"

lemma no_stem_in_runs:
  assumes "CHR ''_'' \<notin> set text" "\<forall>s. CHR ''S'' \<notin> set (lower q s)"
  shows "placeholder_name i \<notin> placeholder_like_runs q text"
proof
  assume "placeholder_name i \<in> placeholder_like_runs q text"
  moreover have "placeholder_name i \<noteq> lower q s" for s
  proof -
    have "CHR ''S'' \<in> set (placeholder_name i)" by (simp add: placeholder_name_def k_placeholder_stem_def)
    thus ?thesis using assms(2) by metis
  qed
  ultimately obtain rest where "(placeholder_name i, rest) \<in> set (word_runs text)"
    by (auto simp: placeholder_like_runs_def)
  moreover have "(r, t) \<in> set (word_runs s) \<Longrightarrow> set r \<subseteq> set s" for r t s
    by (induction s rule: word_runs.induct)
      (auto simp: word_runs.simps dest: set_takeWhileD set_dropWhileD split: if_splits)
  ultimately have "set (placeholder_name i) \<subseteq> set text" by blast
  moreover have "CHR ''_'' \<in> set (placeholder_name i)" using stem_once by (simp add: placeholder_name_def)
  ultimately show False using assms(1) by blast
qed

section \<open>Properties\<close>

text \<open>
  C32. The matches found do not overlap or touch, come in the order of the text, and each stands over whole
  words that are those of its rule, case aside.
\<close>

theorem matches_are_occurrences:
  "sorted_wrt (\<lambda>a b. bm_end a < bm_start b) (find_matches q transcript rules)
   \<and> (\<forall>m\<in>set (find_matches q transcript rules). match_ok q transcript m
        \<and> (\<exists>r\<in>set (compile_rules q rules). bm_rule m = cr_rule r
             \<and> sequence_matches (tokenize q transcript) (bm_start_token m) (cr_tokens r)
             \<and> bm_token_count m = length (cr_tokens r)))"
proof (intro conjI ballI)
  fix m assume "m \<in> set (find_matches q transcript rules)"
  then obtain c where "candidate_ok q (tokenize q transcript) rules c" "m = match_of (tokenize q transcript) c"
    "match_ok q transcript m" by (rule find_matches_member)
  thus "match_ok q transcript m" "\<exists>r\<in>set (compile_rules q rules). bm_rule m = cr_rule r
      \<and> sequence_matches (tokenize q transcript) (bm_start_token m) (cr_tokens r) \<and> bm_token_count m = length (cr_tokens r)"
    by (auto simp: candidate_ok_def match_of_def)
qed (rule find_matches_apart)

definition example_rules :: "binding_rule list" where
  "example_rules = [\<lparr>br_phrase = ''my mail'', br_replacement = ''a@b''\<rparr>, \<lparr>br_phrase = ''mail'', br_replacement = ''post''\<rparr>]"

lemmas binding_eval = example_rules_def find_matches_def tokenize_def compile_rules_def normalized_tokens_def
  all_candidates_def rule_candidates_def sequence_matches_def candidate_rank_def overlaps_taken_def match_of_def
  trimmed_def ascii_space_def ascii_alnum_def ascii_lower_char_def Let_def All_less_Suc Ex_less_Suc numeral_2_eq_2
  upt_rec

lemma example_matches:
  "map (\<lambda>m. (br_replacement (bm_rule m), bm_start m, bm_end m)) (find_matches ascii ''My mail, mail'' example_rules)
   = [(''a@b'', 0, 7), (''post'', 9, 13)]"
  by (simp add: binding_eval char_of_eq_iff)

lemma matches_are_occurrences_witness:
  "\<exists>a b. find_matches ascii ''My mail, mail'' example_rules = [a, b] \<and> bm_end a < bm_start b
     \<and> match_ok ascii ''My mail, mail'' a"
proof -
  obtain a b where ab: "find_matches ascii ''My mail, mail'' example_rules = [a, b]"
    using example_matches by (auto simp: map_eq_Cons_conv)
  thus ?thesis using matches_are_occurrences[of ascii "''My mail, mail''" example_rules] by simp
qed

text \<open>
  C31. Longest first: where a rule's words occur, a match overlaps them whose phrase has more words; or as
  many and begins earlier; or as many at the same place and whose rule is not a later one.
\<close>

theorem longest_match_wins:
  assumes "r \<in> set (compile_rules q rules)" "sequence_matches (tokenize q transcript) start (cr_tokens r)"
  shows "\<exists>m\<in>set (find_matches q transcript rules).
      {bm_start_token m..<bm_start_token m + bm_token_count m} \<inter> {start..<start + length (cr_tokens r)} \<noteq> {}
      \<and> (length (cr_tokens r) < bm_token_count m
         \<or> (bm_token_count m = length (cr_tokens r) \<and> bm_start_token m \<le> start))"
proof -
  let ?c = "\<lparr>cd_rule = r, cd_start = start, cd_count = length (cr_tokens r)\<rparr>"
  have "candidate_ok q (tokenize q transcript) rules ?c" using assms by (simp add: candidate_ok_def)
  then obtain a where a: "a \<in> set (accepted q transcript rules)" "candidate_rank a \<le> candidate_rank ?c"
    "token_range a \<inter> token_range ?c \<noteq> {}"
    using accepted_spec[of q transcript rules] by blast
  let ?m = "match_of (tokenize q transcript) a"
  have "?m \<in> set (find_matches q transcript rules)" using a(1) by (simp add: find_matches_accepted)
  moreover have "{bm_start_token ?m..<bm_start_token ?m + bm_token_count ?m} \<inter> {start..<start + length (cr_tokens r)} \<noteq> {}"
    using a(3) by (simp add: match_of_def token_range_def)
  moreover have "length (cr_tokens r) < bm_token_count ?m
      \<or> (bm_token_count ?m = length (cr_tokens r) \<and> bm_start_token ?m \<le> start)"
    using a(2) by (auto simp: candidate_rank_def match_of_def)
  ultimately show ?thesis by blast
qed

lemma longest_match_wins_witness:
  "\<exists>m\<in>set (find_matches ascii ''My mail, mail'' example_rules).
      {bm_start_token m..<bm_start_token m + bm_token_count m} \<inter> {1..<2} \<noteq> {}"
proof -
  let ?r = "\<lparr>cr_rule = \<lparr>br_phrase = ''mail'', br_replacement = ''post''\<rparr>, cr_tokens = [''mail''], cr_order = 1\<rparr>"
  have "?r \<in> set (compile_rules ascii example_rules)" "sequence_matches (tokenize ascii ''My mail, mail'') 1 (cr_tokens ?r)"
    by (simp_all add: binding_eval char_of_eq_iff)
  from longest_match_wins[OF this] show ?thesis by auto
qed

text \<open>
  C33. A refinement that leaves the placeholders as they are gives the bound text back: restoring them in the
  text with placeholders is the text with the replacements, and is not refused. It is so for a transcript with
  no underscore, where taking the matches out makes no word, and no spoken index, that looks like a placeholder
  and the transcript does not have; the letters and digits of ASCII are letters and digits, and no lower-cased
  text has a capital S.
\<close>

theorem placeholders_round_trip:
  assumes "\<forall>c. ascii_alnum c \<longrightarrow> is_letter_or_number q c" "\<forall>s. CHR ''S'' \<notin> set (lower q s)"
    and "CHR ''_'' \<notin> set transcript"
    and "placeholder_like_runs q (unbound_text q transcript rules) \<subseteq> placeholder_like_runs q transcript"
    and "spoken_placeholder_indexes q (unbound_text q transcript rules) \<subseteq> spoken_placeholder_indexes q transcript"
  shows "restore_placeholders q (bs_placeholder_text (process_bindings q transcript rules))
      (bs_placeholders (process_bindings q transcript rules)) transcript
    = Some (bs_bound_text (process_bindings q transcript rules))"
proof -
  let ?ms = "find_matches q transcript rules" and ?ps = "bs_placeholders (process_bindings q transcript rules)"
  let ?M = "replacements_by_placeholder ?ps"
  have found: "?M (placeholder_name k) = Some (br_replacement (bm_rule (?ms ! k)))" if "k < length ?ms" for k
    using replacements_lookup[OF that] by (simp add: process_bindings_texts)
  have ok: "\<forall>m\<in>set ?ms. match_ok q transcript m" "sorted_wrt (\<lambda>a b. bm_end a < bm_start b) ?ms"
    using find_matches_member find_matches_apart by blast+
  have fill: "concat (map h (placeholder_pieces False (bs_placeholder_text (process_bindings q transcript rules))))
      = replace_matches transcript ?ms r"
    if "\<And>c. h (PlainChar c) = [c]" "\<And>k. k < length ?ms \<Longrightarrow> h (Placeholder (placeholder_name k)) = r k (?ms ! k)" for h r
    using pieces_of_replaced[OF assms(1,3) that(1), of ?ms 0 r 0 False] that(2) ok
    by (simp add: process_bindings_texts replace_matches_def)
  have "\<not> list_ex (\<lambda>p. bp_placeholder p \<in> placeholder_like_runs q transcript) ?ps"
    using no_stem_in_runs[OF assms(3,2)] by (auto simp: list_ex_iff process_bindings_texts)
  moreover have "concat (map (residue_piece ?M) (placeholder_pieces False
      (bs_placeholder_text (process_bindings q transcript rules)))) = unbound_text q transcript rules"
    unfolding unbound_text_def by (rule fill) (simp_all add: residue_piece_def found)
  moreover have "concat (map (restored_piece ?M) (placeholder_pieces False
      (bs_placeholder_text (process_bindings q transcript rules)))) = bs_bound_text (process_bindings q transcript rules)"
    unfolding process_bindings_texts(1) by (rule fill) (simp_all add: restored_piece_def found)
  ultimately show ?thesis using assms(4,5) by (simp add: restore_placeholders_def Let_def)
qed

lemma placeholders_round_trip_witness:
  "restore_placeholders ascii (bs_placeholder_text (process_bindings ascii ''My mail, mail'' example_rules))
      (bs_placeholders (process_bindings ascii ''My mail, mail'' example_rules)) ''My mail, mail''
    = Some (bs_bound_text (process_bindings ascii ''My mail, mail'' example_rules))"
proof (rule placeholders_round_trip)
  have residue: "unbound_text ascii ''My mail, mail'' example_rules = '', ''"
    using example_matches by (auto simp: unbound_text_def replace_matches_def map_eq_Cons_conv)
  show "placeholder_like_runs ascii (unbound_text ascii ''My mail, mail'' example_rules)
      \<subseteq> placeholder_like_runs ascii ''My mail, mail''"
    unfolding residue by (simp add: placeholder_like_runs_def word_runs.simps reworded_runs.simps word_char_def
        ascii_alnum_def Let_def)
  show "spoken_placeholder_indexes ascii (unbound_text ascii ''My mail, mail'' example_rules)
      \<subseteq> spoken_placeholder_indexes ascii ''My mail, mail''"
    unfolding residue by (simp add: spoken_placeholder_indexes_def normalized_tokens_def tokenize_def ascii_alnum_def
        Let_def)
  show "\<forall>s. CHR ''S'' \<notin> set (lower ascii s)"
  proof -
    have "ascii_lower_char c \<noteq> CHR ''S''" for c
    proof
      assume "ascii_lower_char c = CHR ''S''"
      hence n: "(of_char (ascii_lower_char c) :: nat) = 83" by simp
      show False using n by (auto simp: ascii_lower_char_def Let_def split: if_splits)
    qed
    thus ?thesis by (metis ascii_sel(4) imageE list.set_map)
  qed
qed simp_all

end
