(* ===== verification/Paste_Rules.thy ===== *)
theory Paste_Rules
  imports Targets
begin

text \<open>
  core/PasteRules.cpp: how a text is pasted into an app. The rules are a list in
  which the first that matches counts; \<^term>\<open>find_paste_rule\<close>, \<^term>\<open>set_paste_rule\<close> and
  \<^term>\<open>remove_paste_rule\<close> use it as a map from what a rule is for to its method, which is
  the contract the locale \<open>rule_book\<close> states, and \<^term>\<open>resolve_paste_rule\<close> reads it.
\<close>

datatype paste_scope = GlobalScope | CategoryScope | ApplicationScope

datatype paste_method = StandardPaste | TerminalPaste | DirectInsert | ClipboardOnly

record paste_rule =
  pr_scope :: paste_scope
  pr_match :: qstring
  pr_method :: paste_method
  pr_enabled :: bool

definition paste_rule_of :: "paste_scope \<Rightarrow> qstring \<Rightarrow> paste_method \<Rightarrow> bool \<Rightarrow> paste_rule" where
  "paste_rule_of sc m me on = \<lparr>pr_scope = sc, pr_match = m, pr_method = me, pr_enabled = on\<rparr>"

fun paste_scope_name :: "paste_scope \<Rightarrow> qstring" where
  "paste_scope_name ApplicationScope = ''application''"
| "paste_scope_name CategoryScope = ''category''"
| "paste_scope_name GlobalScope = ''global''"

definition paste_scope_from_name :: "qstring \<Rightarrow> paste_scope" where
  "paste_scope_from_name name =
     (if name = ''application'' then ApplicationScope
      else if name = ''category'' then CategoryScope else GlobalScope)"

fun paste_method_name :: "paste_method \<Rightarrow> qstring" where
  "paste_method_name TerminalPaste = ''terminal_paste''"
| "paste_method_name DirectInsert = ''direct_insert''"
| "paste_method_name ClipboardOnly = ''clipboard_only''"
| "paste_method_name StandardPaste = ''standard_paste''"

definition paste_method_from_name :: "qstring \<Rightarrow> paste_method" where
  "paste_method_from_name name =
     (if name = ''terminal_paste'' then TerminalPaste
      else if name = ''direct_insert'' then DirectInsert
      else if name = ''clipboard_only'' then ClipboardOnly else StandardPaste)"

definition default_paste_rules :: "paste_rule list" where
  "default_paste_rules =
     [paste_rule_of CategoryScope (app_category_name Terminal) TerminalPaste True,
      paste_rule_of GlobalScope [] StandardPaste True]"

fun comparable_match :: "qchars \<Rightarrow> paste_scope \<Rightarrow> qstring \<Rightarrow> qstring" where
  "comparable_match q ApplicationScope m = case_folded q (trimmed q m)"
| "comparable_match q CategoryScope m = lower q (trimmed q m)"
| "comparable_match q GlobalScope m = []"

definition paste_rule_matches :: "qchars \<Rightarrow> paste_rule \<Rightarrow> paste_scope \<Rightarrow> qstring \<Rightarrow> bool" where
  "paste_rule_matches q r sc m \<longleftrightarrow>
     pr_scope r = sc \<and> comparable_match q sc (pr_match r) = comparable_match q sc m"

definition global_paste_method :: "paste_rule list \<Rightarrow> paste_method" where
  "global_paste_method rules =
     (case find (\<lambda>r. pr_enabled r \<and> pr_scope r = GlobalScope) rules of
        Some r \<Rightarrow> pr_method r | None \<Rightarrow> ClipboardOnly)"

definition enabled_rule :: "qchars \<Rightarrow> paste_rule list \<Rightarrow> paste_scope \<Rightarrow> qstring \<Rightarrow> paste_rule option" where
  "enabled_rule q rules sc m = find (\<lambda>r. pr_enabled r \<and> paste_rule_matches q r sc m) rules"

definition resolve_paste_rule :: "qchars \<Rightarrow> paste_rule list \<Rightarrow> target \<Rightarrow> paste_rule" where
  "resolve_paste_rule q rules t =
     (case (if blank q (tg_application_id t) then None
            else enabled_rule q rules ApplicationScope (tg_application_id t)) of
        Some r \<Rightarrow> r
      | None \<Rightarrow>
     (case (if is_terminal_target q t then enabled_rule q rules CategoryScope (app_category_name Terminal)
            else None) of
        Some r \<Rightarrow> r
      | None \<Rightarrow>
     (case enabled_rule q rules CategoryScope (app_category_name (tg_category t)) of
        Some r \<Rightarrow> r
      | None \<Rightarrow> paste_rule_of GlobalScope [] (global_paste_method rules) True)))"

definition find_paste_rule :: "qchars \<Rightarrow> paste_rule list \<Rightarrow> paste_scope \<Rightarrow> qstring \<Rightarrow> paste_rule option" where
  "find_paste_rule q rules sc m = find (\<lambda>r. paste_rule_matches q r sc m) rules"

fun set_paste_rule :: "qchars \<Rightarrow> paste_rule list \<Rightarrow> paste_scope \<Rightarrow> qstring \<Rightarrow> paste_method \<Rightarrow> paste_rule list" where
  "set_paste_rule q [] sc m me = [paste_rule_of sc m me True]"
| "set_paste_rule q (r # rs) sc m me =
     (if paste_rule_matches q r sc m then r\<lparr>pr_method := me, pr_enabled := True\<rparr> # rs
      else r # set_paste_rule q rs sc m me)"

definition remove_paste_rule :: "qchars \<Rightarrow> paste_rule list \<Rightarrow> paste_scope \<Rightarrow> qstring \<Rightarrow> paste_rule list" where
  "remove_paste_rule q rules sc m = filter (\<lambda>r. \<not> paste_rule_matches q r sc m) rules"

fun repeats_application :: "qchars \<Rightarrow> qstring set \<Rightarrow> paste_rule list \<Rightarrow> bool" where
  "repeats_application q seen [] \<longleftrightarrow> False"
| "repeats_application q seen (r # rs) \<longleftrightarrow>
     (if pr_scope r \<noteq> ApplicationScope then repeats_application q seen rs
      else let i = comparable_match q (pr_scope r) (pr_match r) in
        i \<in> seen \<or> repeats_application q (insert i seen) rs)"

definition validate_paste_rules :: "qchars \<Rightarrow> paste_rule list \<Rightarrow> qstring list" where
  "validate_paste_rules q rules =
     (if repeats_application q {} rules then [''Each application ID can have only one paste rule.''] else [])"

section \<open>The rules as a map\<close>

text \<open>What a rule is for, as rules are compared.\<close>

type_synonym rule_key = "paste_scope \<times> qstring"

definition rule_key :: "qchars \<Rightarrow> paste_scope \<Rightarrow> qstring \<Rightarrow> rule_key" where
  "rule_key q sc m = (sc, comparable_match q sc m)"

definition key_of :: "qchars \<Rightarrow> paste_rule \<Rightarrow> rule_key" where
  "key_of q r = rule_key q (pr_scope r) (pr_match r)"

lemma paste_rule_matches_key: "paste_rule_matches q r sc m \<longleftrightarrow> key_of q r = rule_key q sc m"
  by (auto simp: paste_rule_matches_def key_of_def rule_key_def)

lemma key_of_updates [simp]:
  "key_of q (r\<lparr>pr_method := me\<rparr>) = key_of q r" "key_of q (r\<lparr>pr_enabled := e\<rparr>) = key_of q r"
  "key_of q (paste_rule_of sc m me e) = rule_key q sc m"
  by (simp_all add: key_of_def paste_rule_of_def)

text \<open>
  The interface the settings pages use: a book of rules, each for what its
  argument compares as, set and removed without touching the other rules.
\<close>

locale rule_book =
  fixes compared :: "'a \<Rightarrow> 'k"
    and look :: "'b \<Rightarrow> 'a \<Rightarrow> 'v option"
    and put :: "'b \<Rightarrow> 'a \<Rightarrow> 'm \<Rightarrow> 'b"
    and cut :: "'b \<Rightarrow> 'a \<Rightarrow> 'b"
    and meth :: "'v \<Rightarrow> 'm"
    and active :: "'v \<Rightarrow> bool"
  assumes look_same: "compared a = compared a' \<Longrightarrow> look b a = look b a'"
    and look_put: "\<exists>v. look (put b a m) a = Some v \<and> meth v = m \<and> active v"
    and look_put_other: "compared a \<noteq> compared a' \<Longrightarrow> look (put b a m) a' = look b a'"
    and look_cut: "look (cut b a) a = None"
    and look_cut_other: "compared a \<noteq> compared a' \<Longrightarrow> look (cut b a) a' = look b a'"
begin

text \<open>What the client sees of a book: the method that is on for each argument.\<close>

definition view :: "'b \<Rightarrow> 'a \<Rightarrow> 'm option" where
  "view b a = (case look b a of Some v \<Rightarrow> if active v then Some (meth v) else None | None \<Rightarrow> None)"

lemma view_put: "view (put b a m) a' = (if compared a' = compared a then Some m else view b a')"
  using look_put[of b a m] look_put_other[of a a' b m] look_same[of a' a "put b a m"] by (auto simp: view_def)

lemma view_cut: "view (cut b a) a' = (if compared a' = compared a then None else view b a')"
  using look_cut[of b a] look_cut_other[of a a' b] look_same[of a' a "cut b a"] by (auto simp: view_def)

lemma cut_put: "view (cut (put b a m) a) a' = view (cut b a) a'"
  by (simp add: view_put view_cut)

end

text \<open>A book whose owner checks it before it is saved.\<close>

locale checked_rule_book = rule_book compared look put cut meth active
  for compared :: "'a \<Rightarrow> 'k" and look :: "'b \<Rightarrow> 'a \<Rightarrow> 'v option" and put :: "'b \<Rightarrow> 'a \<Rightarrow> 'm \<Rightarrow> 'b"
    and cut :: "'b \<Rightarrow> 'a \<Rightarrow> 'b" and meth :: "'v \<Rightarrow> 'm" and active :: "'v \<Rightarrow> bool" +
  fixes valid :: "'b \<Rightarrow> bool"
  assumes valid_put: "valid b \<Longrightarrow> valid (put b a m)"
    and valid_cut: "valid b \<Longrightarrow> valid (cut b a)"
begin

lemma valid_edits:
  "valid b \<Longrightarrow> valid (foldl (\<lambda>b (a, m). case m of Some m \<Rightarrow> put b a m | None \<Rightarrow> cut b a) b edits)"
  by (induction edits arbitrary: b) (auto simp: valid_put valid_cut split: option.split)

end

definition look_rule :: "qchars \<Rightarrow> paste_rule list \<Rightarrow> rule_key \<Rightarrow> paste_rule option" where
  "look_rule q rules k = find (\<lambda>r. key_of q r = k) rules"

lemma find_paste_rule_key: "find_paste_rule q rules sc m = look_rule q rules (rule_key q sc m)"
  by (simp add: find_paste_rule_def look_rule_def paste_rule_matches_key)

lemma find_set_same:
  "\<exists>r. find_paste_rule q (set_paste_rule q rules sc m me) sc m = Some r \<and> pr_method r = me \<and> pr_enabled r"
  by (induction rules) (auto simp: find_paste_rule_def paste_rule_matches_key, auto simp: paste_rule_of_def)

lemma look_set_other:
  "k \<noteq> rule_key q sc m \<Longrightarrow> look_rule q (set_paste_rule q rules sc m me) k = look_rule q rules k"
  by (induction rules) (auto simp: look_rule_def paste_rule_matches_key)

lemma look_remove: "look_rule q (remove_paste_rule q rules sc m) k =
    (if k = rule_key q sc m then None else look_rule q rules k)"
  by (induction rules) (auto simp: look_rule_def remove_paste_rule_def paste_rule_matches_key)

text \<open>The ids of the application rules, which validation wants to differ.\<close>

definition application_ids :: "qchars \<Rightarrow> paste_rule list \<Rightarrow> qstring list" where
  "application_ids q rules = map (\<lambda>r. comparable_match q ApplicationScope (pr_match r))
     (filter (\<lambda>r. pr_scope r = ApplicationScope) rules)"

lemma repeats_application_ids:
  "repeats_application q seen rules \<longleftrightarrow>
   \<not> (distinct (application_ids q rules) \<and> set (application_ids q rules) \<inter> seen = {})"
  by (induction rules arbitrary: seen) (auto simp: application_ids_def Let_def)

lemma valid_paste_rules: "validate_paste_rules q rules = [] \<longleftrightarrow> distinct (application_ids q rules)"
  by (simp add: validate_paste_rules_def repeats_application_ids)

lemma application_ids_set:
  "application_ids q (set_paste_rule q rules sc m me) =
   (if (\<exists>r\<in>set rules. paste_rule_matches q r sc m) \<or> sc \<noteq> ApplicationScope then application_ids q rules
    else application_ids q rules @ [comparable_match q sc m])"
  by (induction rules) (auto simp: application_ids_def paste_rule_matches_def paste_rule_of_def)

lemma valid_set: "validate_paste_rules q rules = [] \<Longrightarrow> validate_paste_rules q (set_paste_rule q rules sc m me) = []"
  unfolding valid_paste_rules application_ids_set
  by (auto simp: application_ids_def paste_rule_matches_def)

lemma distinct_map_filtered: "distinct (map f xs) \<Longrightarrow> distinct (map f (filter P xs))"
  by (induction xs) auto

lemma valid_remove: "validate_paste_rules q rules = [] \<Longrightarrow> validate_paste_rules q (remove_paste_rule q rules sc m) = []"
  unfolding valid_paste_rules application_ids_def remove_paste_rule_def
  using distinct_map_filtered[of _ "filter (\<lambda>r. pr_scope r = ApplicationScope) rules" "\<lambda>r. \<not> paste_rule_matches q r sc m"]
  by (simp add: conj_commute)

interpretation pb: checked_rule_book "\<lambda>(sc, m). rule_key q sc m" "\<lambda>rules (sc, m). find_paste_rule q rules sc m"
  "\<lambda>rules (sc, m) me. set_paste_rule q rules sc m me" "\<lambda>rules (sc, m). remove_paste_rule q rules sc m"
  pr_method pr_enabled "\<lambda>rules. validate_paste_rules q rules = []" for q
  using find_set_same
  by unfold_locales (auto simp: find_paste_rule_key look_set_other look_remove valid_set valid_remove)

definition method_on :: "qchars \<Rightarrow> paste_rule list \<Rightarrow> paste_scope \<Rightarrow> qstring \<Rightarrow> paste_method option" where
  "method_on q rules sc m = (case find_paste_rule q rules sc m of
     Some r \<Rightarrow> if pr_enabled r then Some (pr_method r) else None | None \<Rightarrow> None)"

lemma method_on_view: "method_on q rules sc m = pb.view q rules (sc, m)"
  by (simp add: method_on_def pb.view_def)

text \<open>
  The paste rules work as a map from app, app type or the global rule to a
  method: a rule set is the one found for everything that compares as its match,
  a rule removed is found for none of it, and every other answer is unchanged.
\<close>

theorem paste_rules_are_a_map:
  "method_on q (set_paste_rule q rules sc m me) sc' m' =
     (if rule_key q sc' m' = rule_key q sc m then Some me else method_on q rules sc' m')
   \<and> method_on q (remove_paste_rule q rules sc m) sc' m' =
     (if rule_key q sc' m' = rule_key q sc m then None else method_on q rules sc' m')"
  using pb.view_put[of q rules "(sc, m)" me "(sc', m')"] pb.view_cut[of q rules "(sc, m)" "(sc', m')"]
  by (simp add: method_on_view)

section \<open>Which rule decides\<close>

lemma enabled_set:
  "if rule_key q sc' m' = rule_key q sc m
   then \<exists>r. enabled_rule q (set_paste_rule q rules sc m me) sc' m' = Some r \<and> pr_method r = me
   else enabled_rule q (set_paste_rule q rules sc m me) sc' m' = enabled_rule q rules sc' m'"
  by (induction rules) (auto simp: enabled_rule_def paste_rule_matches_key, auto simp: paste_rule_of_def)

lemma global_set:
  "sc \<noteq> GlobalScope \<Longrightarrow> global_paste_method (set_paste_rule q rules sc m me) = global_paste_method rules"
  by (induction rules) (auto simp: global_paste_method_def paste_rule_matches_def, auto simp: paste_rule_of_def)

text \<open>
  Choosing a method for an app decides how every target of that app is
  pasted into, however its id is spelled and whatever other rules there are, and
  changes nothing for a target of another app.
\<close>

theorem app_rule_decides_its_app:
  assumes "\<not> blank q (tg_application_id t)"
  shows "if comparable_match q ApplicationScope (tg_application_id t) = comparable_match q ApplicationScope app
     then pr_method (resolve_paste_rule q (set_paste_rule q rules ApplicationScope app me) t) = me
     else resolve_paste_rule q (set_paste_rule q rules ApplicationScope app me) t = resolve_paste_rule q rules t"
proof -
  let ?rs = "set_paste_rule q rules ApplicationScope app me"
  have cat: "enabled_rule q ?rs CategoryScope c = enabled_rule q rules CategoryScope c" for c
    using enabled_set[of q CategoryScope c ApplicationScope app rules me] by (simp add: rule_key_def)
  have glob: "global_paste_method ?rs = global_paste_method rules" by (rule global_set) simp
  have "if comparable_match q ApplicationScope (tg_application_id t) = comparable_match q ApplicationScope app
      then \<exists>r. enabled_rule q ?rs ApplicationScope (tg_application_id t) = Some r \<and> pr_method r = me
      else enabled_rule q ?rs ApplicationScope (tg_application_id t) = enabled_rule q rules ApplicationScope (tg_application_id t)"
    using enabled_set[of q ApplicationScope "tg_application_id t" ApplicationScope app rules me]
    by (simp add: rule_key_def)
  thus ?thesis using assms unfolding resolve_paste_rule_def cat glob by (auto split: if_splits)
qed

theorem app_rule_decides_its_app_witness:
  "pr_method (resolve_paste_rule ascii (set_paste_rule ascii default_paste_rules ApplicationScope '' Kate'' DirectInsert)
     (no_target\<lparr>tg_application_id := ''kate''\<rparr>)) = DirectInsert"
proof -
  have "\<not> blank ascii (tg_application_id (no_target\<lparr>tg_application_id := ''kate''\<rparr>))"
    by (simp add: blank_iff ascii_space_def)
  moreover have "comparable_match ascii ApplicationScope '' Kate'' = comparable_match ascii ApplicationScope ''kate''"
    by (simp add: trimmed_def ascii_space_def ascii_lower_char_def Let_def char_of_eq_iff)
  ultimately show ?thesis
    using app_rule_decides_its_app[of ascii "no_target\<lparr>tg_application_id := ''kate''\<rparr>" "'' Kate''"
        default_paste_rules DirectInsert] by simp
qed

text \<open>
  A coding agent found in a terminal decides twice: the dictation gets the AI
  coding profile, and the text is still pasted the way the terminal takes it,
  unless a recognition rule of the user's names the app's type.
\<close>

theorem coding_agent_in_a_terminal:
  fixes t :: target
  assumes "tg_ai_coding_tool_active t"
    and "\<And>r. r \<in> set custom \<Longrightarrow> rr_category r \<noteq> None \<Longrightarrow> \<not> rule_matches q r t False False"
  defines "t' \<equiv> t\<lparr>tg_category := classify_target q t custom\<rparr>"
  shows "resolve_writing_profile q t' [] [] fallback = wp_ai_coding
    \<and> pr_method (resolve_paste_rule q default_paste_rules t') = TerminalPaste"
proof -
  have "tg_category t' = AiCoding"
    using assms first_naming_not[of custom rr_category "\<lambda>r. rule_matches q r t False False"]
    by (simp add: classify_target_def t'_def)
  moreover have "is_terminal_target q t'" using assms(1) by (simp add: is_terminal_target_def t'_def)
  ultimately show ?thesis
    by (simp add: resolve_writing_profile_def infer_writing_profile_def resolve_paste_rule_def enabled_rule_def
        default_paste_rules_def paste_rule_of_def paste_rule_matches_def)
qed

theorem coding_agent_in_a_terminal_witness:
  "pr_method (resolve_paste_rule ascii default_paste_rules
     (no_target\<lparr>tg_ai_coding_tool_active := True, tg_category := classify_target ascii
        (no_target\<lparr>tg_ai_coding_tool_active := True\<rparr>) []\<rparr>)) = TerminalPaste"
  using coding_agent_in_a_terminal[of "no_target\<lparr>tg_ai_coding_tool_active := True\<rparr>" "[]" ascii wp_other] by simp

text \<open>The stored names of paste scopes and methods are read back as the same values.\<close>

theorem paste_names_round_trip:
  "paste_scope_from_name (paste_scope_name sc) = sc \<and> paste_method_from_name (paste_method_name me) = me"
  by (cases sc; cases me; simp add: paste_scope_from_name_def paste_method_from_name_def)

end
