(* ===== verification/Pipeline.thy ===== *)
theory Pipeline
  imports Popup Profile_Edits Binding_Matches Paste_Rules Readiness
begin

text \<open>
  dictation/TranscriptPipeline.cpp and core/WritingProfileProviders.cpp: what a
  Dictation Session runs with once its target is known, what refinement is given
  of a transcript, and what comes back of its answer.

  \<open>session_settings\<close> are the members of AppSettings a session reads:
  \<open>ss_app\<close> holds those the providers read too, and \<open>refinement_choices\<close> the
  members of RefinementSettings they do not. Today's date and the time, as the
  locale writes them, are arguments.
\<close>

section \<open>Data\<close>

record ui_settings =
  ui_preview_words :: int
  ui_transcription_preview :: bool
  ui_refinement_preview :: bool
  ui_selection_edit_review :: bool
  ui_pause_media :: bool

record output_settings =
  os_method :: qstring
  os_format :: output_format
  os_ydotool :: bool
  os_restore_clipboard :: bool
  os_completion_ms :: int
  os_paste_rules :: "paste_rule list"

record refinement_choices =
  rc_style :: qstring
  rc_default_profile :: qstring
  rc_profiles :: "writing_profile_settings list"
  rc_overrides :: "writing_profile_override list"
  rc_use_target_context :: bool
  rc_include_screenshot :: bool
  rc_additional_instructions :: qstring
  rc_custom_prompt_enabled :: bool
  rc_custom_prompt :: qstring
  rc_tones :: "custom_tone list"
  rc_levels :: "custom_cleanup_level list"

record session_settings =
  ss_app :: app_settings
  ss_choices :: refinement_choices
  ss_ui :: ui_settings
  ss_rules :: "app_recognition_rule list"
  ss_output :: output_settings
  ss_bindings :: "binding_rule list"
  ss_vocabulary :: "vocabulary_entry list"
  ss_corrections :: "learned_correction list"
  ss_insights :: bool

record run_choices =
  ru_profile :: qstring
  ru_vocabulary :: "qstring list"

definition no_choices :: run_choices where
  "no_choices = \<lparr>ru_profile = [], ru_vocabulary = []\<rparr>"

record refinement_context =
  rx_target :: target
  rx_profile :: qstring
  rx_profile_name :: qstring
  rx_tone :: qstring
  rx_binding_vocabulary :: "qstring list"
  rx_additional_instructions :: qstring
  rx_profile_instructions :: qstring
  rx_output_language :: qstring
  rx_vocabulary_context :: "qstring \<rightharpoonup> qstring"
  rx_spoken_language :: qstring
  rx_custom_prompt :: qstring
  rx_custom_tone :: "custom_tone option"
  rx_cleanup_level :: "custom_cleanup_level option"
  rx_include_nearby :: bool
  rx_edit_selection :: bool
  rx_screenshot :: "nat list"
  rx_screenshot_type :: qstring

definition default_context :: refinement_context where
  "default_context = \<lparr>rx_target = no_target, rx_profile = wp_other, rx_profile_name = [], rx_tone = ''none'',
     rx_binding_vocabulary = [], rx_additional_instructions = [], rx_profile_instructions = [],
     rx_output_language = [], rx_vocabulary_context = Map.empty, rx_spoken_language = [], rx_custom_prompt = [],
     rx_custom_tone = None, rx_cleanup_level = None, rx_include_nearby = True, rx_edit_selection = False,
     rx_screenshot = [], rx_screenshot_type = []\<rparr>"

definition has_screenshot :: "refinement_context \<Rightarrow> bool" where
  "has_screenshot c \<longleftrightarrow> rx_screenshot c \<noteq> [] \<and> rx_screenshot_type c \<noteq> []"

record pipeline =
  pl_binding :: binding_result
  pl_active_rules :: "binding_rule list"
  pl_no_bind :: "qstring list"
  pl_services :: refinement_settings
  pl_choices :: refinement_choices
  pl_vocabulary :: "qstring list"
  pl_context :: refinement_context
  pl_fallback :: qstring
  pl_input :: qstring
  pl_source :: qstring
  pl_allow_post_bindings :: bool
  pl_edits_selection :: bool

section \<open>The Writing Profile's own services\<close>

definition page_chain_after :: "qstring \<Rightarrow> qstring list \<Rightarrow> qstring list" where
  "page_chain_after provider chain = filter (\<lambda>p. p \<noteq> provider) chain"

definition profile_picks_speech_model :: "qstring \<Rightarrow> bool" where
  "profile_picks_speech_model provider \<longleftrightarrow> parse_provider_id provider = Some LocalProvider"

definition set_refinement_model :: "refinement_settings \<Rightarrow> qstring \<Rightarrow> refinement_settings" where
  "set_refinement_model r model = (case refinement_model_setting (rs_provider r) of
     Some ref \<Rightarrow> ref_set ref model r | None \<Rightarrow> r)"

definition profile_speech_settings :: "speech_settings \<Rightarrow> writing_profile_settings \<Rightarrow> speech_settings option" where
  "profile_speech_settings s p =
     (if \<not> is_chain_provider_id Speech (wps_speech_provider p) then None
      else (let chosen = s\<lparr>sp_provider := wps_speech_provider p\<rparr>;
                chosen = (if profile_picks_speech_model (sp_provider chosen) \<and> wps_speech_model p \<noteq> []
                  then chosen\<lparr>sp_local := (sp_local chosen)\<lparr>ls_model_id := wps_speech_model p\<rparr>\<rparr> else chosen)
            in Some (chosen\<lparr>sp_fallbacks := page_chain_after (sp_provider chosen)
                 (provider_chain Speech (sp_provider s) (sp_fallbacks s))\<rparr>)))"

definition profile_refinement_settings ::
  "refinement_settings \<Rightarrow> writing_profile_settings \<Rightarrow> refinement_settings" where
  "profile_refinement_settings r p =
     (if is_chain_provider_id Refinement (wps_refinement_provider p)
      then (let chain = provider_chain Refinement (rs_provider r) (rs_fallbacks r);
                chosen = r\<lparr>rs_provider := wps_refinement_provider p,
                           rs_fallbacks := page_chain_after (wps_refinement_provider p) chain\<rparr>
            in if wps_refinement_model p \<noteq> [] then set_refinement_model chosen (wps_refinement_model p) else chosen)
      else r)"

definition with_writing_profile_providers :: "app_settings \<Rightarrow> writing_profile_settings \<Rightarrow> app_settings" where
  "with_writing_profile_providers a p =
     (let a = (case profile_speech_settings (as_speech a) p of
          Some speech \<Rightarrow> if listens_for_spoken_language speech then a\<lparr>as_speech := speech\<rparr> else a
        | None \<Rightarrow> a)
      in a\<lparr>as_refinement := profile_refinement_settings (as_refinement a) p\<rparr>)"

section \<open>The Writing Profile\<close>

definition writing_profile_for :: "qchars \<Rightarrow> session_settings \<Rightarrow> run_choices \<Rightarrow> target \<Rightarrow> qstring" where
  "writing_profile_for q s c t =
     (if ru_profile c \<noteq> [] then ru_profile c
      else resolve_writing_profile q t (rc_overrides (ss_choices s)) (ss_rules s)
             (writing_profile_from_name q (rc_default_profile (ss_choices s))))"

definition pipeline_speech_vocabulary :: "qchars \<Rightarrow> session_settings \<Rightarrow> run_choices \<Rightarrow> target \<Rightarrow> qstring list" where
  "pipeline_speech_vocabulary q s c t =
     speech_vocabulary q (ss_vocabulary s) (ss_corrections s) (writing_profile_for q s c t) (ru_vocabulary c)"

definition pipeline_writing_profile ::
  "qchars \<Rightarrow> session_settings \<Rightarrow> run_choices \<Rightarrow> target \<Rightarrow> writing_profile_settings" where
  "pipeline_writing_profile q s c t =
     writing_profile_settings_for (rc_profiles (ss_choices s)) (writing_profile_for q s c t)"

text \<open>effectiveRefinementSettings changes only the style.\<close>

definition effective_choices :: "qchars \<Rightarrow> session_settings \<Rightarrow> run_choices \<Rightarrow> target \<Rightarrow> refinement_choices" where
  "effective_choices q s c t =
     (let p = pipeline_writing_profile q s c t
      in (ss_choices s)\<lparr>rc_style := refined_cleanup_level q (wps_cleanup_strength p) (wps_output_language p)\<rparr>)"

section \<open>The terms refinement reads\<close>

definition k_max_refinement_terms :: nat where
  "k_max_refinement_terms = 1000"

text \<open>
  The append of refinementVocabulary: the spelling kept for the term, with the
  spellings by their case-folded form and the terms so far.
\<close>

type_synonym kept_terms = "(qstring \<rightharpoonup> qstring) \<times> qstring list"

definition keep_term :: "qchars \<Rightarrow> qstring \<Rightarrow> kept_terms \<Rightarrow> qstring \<times> kept_terms" where
  "keep_term q t k =
     (let (kept, terms) = k; cleaned = simplified q t; key = case_folded q cleaned
      in if cleaned = [] \<or> kept key \<noteq> None then (case kept key of Some w \<Rightarrow> w | None \<Rightarrow> [], k)
         else if length terms \<ge> k_max_refinement_terms then ([], k)
         else (cleaned, (kept(key \<mapsto> cleaned), terms @ [cleaned])))"

fun keep_terms :: "qchars \<Rightarrow> qstring list \<Rightarrow> kept_terms \<Rightarrow> kept_terms" where
  "keep_terms q [] k = k"
| "keep_terms q (t # ts) k = keep_terms q ts (snd (keep_term q t k))"

fun keep_entries ::
  "qchars \<Rightarrow> vocabulary_entry list \<Rightarrow> kept_terms \<Rightarrow> (qstring \<rightharpoonup> qstring) \<Rightarrow> kept_terms \<times> (qstring \<rightharpoonup> qstring)" where
  "keep_entries q [] k context = (k, context)"
| "keep_entries q (e # es) k context =
     (let (spelling, k') = keep_term q (ve_term e) k
      in keep_entries q es k' (if spelling \<noteq> [] \<and> ve_context e \<noteq> [] then context(spelling \<mapsto> ve_context e) else context))"

definition pipeline_vocabulary ::
  "qchars \<Rightarrow> session_settings \<Rightarrow> qstring list \<Rightarrow> qstring \<Rightarrow> qstring list \<times> (qstring \<rightharpoonup> qstring)" where
  "pipeline_vocabulary q s run_terms profile =
     (let entries = normalize_vocabulary q (ss_vocabulary s);
          corrections = filter (\<lambda>c. lc_enabled c
            \<and> \<not> vocabulary_term_excluded q entries (lc_corrected c) profile) (ss_corrections s);
          k = keep_terms q (map lc_corrected corrections @ run_terms) (Map.empty, []);
          (k, context) = keep_entries q (filter (\<lambda>e. vocabulary_entry_applies e profile) entries) k Map.empty
      in (snd k, context))"

section \<open>The rules that apply\<close>

definition with_variables_filled :: "qstring \<Rightarrow> qstring \<Rightarrow> binding_rule list \<Rightarrow> binding_rule list" where
  "with_variables_filled date time rules =
     map (\<lambda>r. r\<lparr>br_replacement := replace_all ''{time}'' time (replace_all ''{date}'' date (br_replacement r))\<rparr>) rules"

text \<open>One pass of appendCorrections over the Learned Corrections: the rules and the phrases claimed.\<close>

fun append_corrections ::
  "qchars \<Rightarrow> (learned_correction \<Rightarrow> bool) \<Rightarrow> vocabulary_entry list \<Rightarrow> qstring \<Rightarrow> learned_correction list
   \<Rightarrow> binding_rule list \<times> qstring set \<Rightarrow> binding_rule list \<times> qstring set" where
  "append_corrections q applies entries profile [] acc = acc"
| "append_corrections q applies entries profile (c # cs) (rules, claimed) =
     (let phrase = normalized_phrase q (lc_original c)
      in append_corrections q applies entries profile cs
           (if lc_enabled c \<and> applies c \<and> phrase \<noteq> [] \<and> phrase \<notin> claimed
               \<and> \<not> vocabulary_term_excluded q entries (lc_corrected c) profile
            then (rules @ [\<lparr>br_phrase = lc_original c, br_replacement = lc_corrected c\<rparr>], insert phrase claimed)
            else (rules, claimed)))"

definition active_bindings ::
  "qchars \<Rightarrow> qstring \<Rightarrow> qstring \<Rightarrow> session_settings \<Rightarrow> target \<Rightarrow> qstring \<Rightarrow> binding_rule list" where
  "active_bindings q date time s t profile =
     (let entries = normalize_vocabulary q (ss_vocabulary s);
          acc = (with_variables_filled date time (ss_bindings s),
                 set (map (\<lambda>r. normalized_phrase q (br_phrase r)) (ss_bindings s)));
          exact = (\<lambda>c. lc_application_id c \<noteq> [] \<and> same_caseless q (lc_application_id c) (tg_application_id t));
          acc = append_corrections q exact entries profile (ss_corrections s) acc;
          acc = append_corrections q (\<lambda>c. lc_application_id c = []) entries profile (ss_corrections s) acc
      in fst acc)"

definition without_no_bind_phrases :: "qchars \<Rightarrow> binding_rule list \<Rightarrow> qstring list \<Rightarrow> binding_rule list" where
  "without_no_bind_phrases q rules phrases =
     (if phrases = [] then rules else filter (\<lambda>r. normalized_phrase q (br_phrase r) \<notin> set phrases) rules)"

section \<open>What refinement is given\<close>

definition fill_user_instructions ::
  "refinement_choices \<Rightarrow> writing_profile_settings \<Rightarrow> refinement_context \<Rightarrow> refinement_context" where
  "fill_user_instructions r p x = x\<lparr>rx_additional_instructions := rc_additional_instructions r,
     rx_profile_instructions := wps_instructions p, rx_output_language := wps_output_language p,
     rx_custom_prompt := (if rc_custom_prompt_enabled r then rc_custom_prompt r else [])\<rparr>"

text \<open>The two loops assign every match, so the last one counts; the style changes under the second.\<close>

fun resolve_levels :: "custom_cleanup_level list \<Rightarrow> pipeline \<Rightarrow> pipeline" where
  "resolve_levels [] p = p"
| "resolve_levels (l # ls) p = resolve_levels ls
     (if cl_id l = rc_style (pl_choices p)
      then p\<lparr>pl_context := (pl_context p)\<lparr>rx_cleanup_level := Some l\<rparr>,
             pl_choices := (pl_choices p)\<lparr>rc_style := cl_base l\<rparr>\<rparr> else p)"

definition resolve_custom_choices :: "pipeline \<Rightarrow> pipeline" where
  "resolve_custom_choices p =
     (let x = (pl_context p)\<lparr>rx_custom_tone := None, rx_cleanup_level := None\<rparr>;
          x = x\<lparr>rx_custom_tone := find (\<lambda>t. ct_id t = rx_tone x) (rev (rc_tones (pl_choices p)))\<rparr>
      in resolve_levels (rc_levels (pl_choices p)) (p\<lparr>pl_context := x\<rparr>))"

definition prepare_pipeline ::
  "qchars \<Rightarrow> qstring \<Rightarrow> qstring \<Rightarrow> qstring \<Rightarrow> session_settings \<Rightarrow> run_choices \<Rightarrow> target \<Rightarrow> qstring \<Rightarrow> pipeline" where
  "prepare_pipeline q date time raw s c t language =
     (let profile_id = writing_profile_for q s c t;
          bindings = active_bindings q date time s t profile_id;
          no_bind = explicit_no_bind_phrases q raw bindings;
          active = without_no_bind_phrases q bindings no_bind;
          bound = process_bindings q raw active;
          edits = has_selection t;
          choices = effective_choices q s c t;
          (terms, term_context) = pipeline_vocabulary q s (ru_vocabulary c) profile_id;
          p = writing_profile_settings_for (rc_profiles choices) profile_id;
          x = default_context\<lparr>rx_target := t, rx_spoken_language := language, rx_profile := profile_id,
                rx_profile_name := writing_profile_label profile_id (rc_profiles choices),
                rx_vocabulary_context := term_context, rx_tone := wps_tone p,
                rx_binding_vocabulary := refinement_vocabulary q bindings\<rparr>;
          r = resolve_custom_choices \<lparr>pl_binding = bound, pl_active_rules = active, pl_no_bind = no_bind,
                pl_services = as_refinement (ss_app s), pl_choices = choices, pl_vocabulary = terms,
                pl_context = fill_user_instructions choices p x,
                pl_fallback = (if edits then tg_selected_text t else bs_bound_text bound),
                pl_input = bs_placeholder_text bound,
                pl_source = (if edits then raw @ [CHR 0x0A] @ tg_selected_text t else raw),
                pl_allow_post_bindings = ((\<not> has_directive q raw \<or> no_bind \<noteq> []) \<and> \<not> edits),
                pl_edits_selection = edits\<rparr>;
          y = (pl_context r)\<lparr>rx_include_nearby := rc_use_target_context (pl_choices r) \<and> \<not> tg_secure t,
                rx_edit_selection := edits\<rparr>
      in r\<lparr>pl_context := (if rc_use_target_context (pl_choices r) then y
            else y\<lparr>rx_target := (rx_target y)\<lparr>tg_nearby_before := [], tg_nearby_after := []\<rparr>\<rparr>)\<rparr>)"

definition include_screenshot_context :: "bool \<Rightarrow> nat list \<Rightarrow> qstring \<Rightarrow> pipeline \<Rightarrow> pipeline" where
  "include_screenshot_context supported picture media_type p =
     (let included = (rc_include_screenshot (pl_choices p) \<and> \<not> pl_edits_selection p
            \<and> \<not> tg_secure (rx_target (pl_context p)) \<and> supported \<and> picture \<noteq> [] \<and> media_type \<noteq> [])
      in p\<lparr>pl_context := (pl_context p)\<lparr>rx_screenshot := (if included then picture else []),
             rx_screenshot_type := (if included then media_type else [])\<rparr>\<rparr>)"

section \<open>What comes back\<close>

text \<open>
  The regular expression's \<open>\\s\<close> is ASCII's white space: up to the last line break
  of the white space a text begins with, and all the white space it ends with.
\<close>

definition without_blank_lines :: "qstring \<Rightarrow> qstring" where
  "without_blank_lines s =
     (let run = takeWhile ascii_space s
      in if CHR 0x0A \<in> set run
         then rev (takeWhile (\<lambda>c. c \<noteq> CHR 0x0A) (rev run)) @ drop (length run) s else s)"

definition trimmed_keeping_indentation :: "qstring \<Rightarrow> qstring" where
  "trimmed_keeping_indentation s = rev (dropWhile ascii_space (rev (without_blank_lines s)))"

definition restore_refined_result :: "qchars \<Rightarrow> pipeline \<Rightarrow> qstring \<Rightarrow> qstring option" where
  "restore_refined_result q p answer =
     (let refined = (if pl_edits_selection p then trimmed_keeping_indentation answer else trimmed q answer)
      in if refined = [] then None
         else restore_placeholders q
                (if pl_allow_post_bindings p then apply_outside_placeholders q refined (pl_active_rules p) else refined)
                (bs_placeholders (pl_binding p)) (pl_source p))"


section \<open>The terms kept\<close>

definition kept_ok :: "qchars \<Rightarrow> kept_terms \<Rightarrow> bool" where
  "kept_ok q k \<longleftrightarrow> length (snd k) \<le> k_max_refinement_terms \<and> distinct (map (case_folded q) (snd k))
     \<and> dom (fst k) = set (map (case_folded q) (snd k))
     \<and> (\<forall>key w. fst k key = Some w \<longrightarrow> w \<in> set (snd k) \<and> w \<noteq> [] \<and> simplified q w = w)
     \<and> (\<forall>w\<in>set (snd k). w \<noteq> [] \<and> simplified q w = w)"

lemma kept_ok_empty: "kept_ok q (Map.empty, [])"
  by (simp add: kept_ok_def)

lemma keep_term_ok:
  assumes "is_space q CHR '' ''" "kept_ok q k" "keep_term q t k = (spelling, k')"
  shows "kept_ok q k'" "set (snd k) \<subseteq> set (snd k')" "spelling \<noteq> [] \<Longrightarrow> spelling \<in> set (snd k')"
    "length (snd k') \<le> Suc (length (snd k))"
    "length (snd k) < k_max_refinement_terms \<Longrightarrow> \<not> blank q t \<Longrightarrow>
       case_folded q (simplified q t) \<in> set (map (case_folded q) (snd k'))"
proof -
  obtain kept terms where k: "k = (kept, terms)" by (rule prod.exhaust)
  let ?c = "simplified q t" and ?key = "case_folded q (simplified q t)"
  have c: "simplified q ?c = ?c" by (rule simplified_idem[OF assms(1)])
  note ok = assms(2)[unfolded kept_ok_def k fst_conv snd_conv]
  consider (old) "?c = [] \<or> kept ?key \<noteq> None" "k' = k" "spelling = (case kept ?key of Some w \<Rightarrow> w | None \<Rightarrow> [])"
    | (full) "?c \<noteq> []" "kept ?key = None" "length terms \<ge> k_max_refinement_terms" "k' = k" "spelling = []"
    | (added) "?c \<noteq> []" "kept ?key = None" "length terms < k_max_refinement_terms"
        "k' = (kept(?key \<mapsto> ?c), terms @ [?c])" "spelling = ?c"
  proof (cases "?c = [] \<or> kept ?key \<noteq> None")
    case True
    hence "(spelling, k') = (case kept ?key of Some w \<Rightarrow> w | None \<Rightarrow> [], k)"
      using assms(3) by (simp add: keep_term_def k Let_def)
    thus thesis using True by (intro old) simp_all
  next
    case False
    show thesis
    proof (cases "length terms \<ge> k_max_refinement_terms")
      case True
      thus thesis using False assms(3) by (intro full) (auto simp: keep_term_def k Let_def)
    next
      case short: False
      thus thesis using False assms(3) by (intro added) (auto simp: keep_term_def k Let_def)
    qed
  qed
  hence "kept_ok q k' \<and> set (snd k) \<subseteq> set (snd k') \<and> (spelling \<noteq> [] \<longrightarrow> spelling \<in> set (snd k'))
    \<and> length (snd k') \<le> Suc (length (snd k))
    \<and> (length (snd k) < k_max_refinement_terms \<longrightarrow> \<not> blank q t \<longrightarrow> ?key \<in> set (map (case_folded q) (snd k')))"
  proof cases
    case old
    moreover have "kept ?key \<noteq> None \<Longrightarrow> ?key \<in> set (map (case_folded q) terms)" using ok by (metis domIff)
    ultimately show ?thesis using assms(2) ok k by (auto split: option.splits)
  next
    case full
    thus ?thesis using assms(2) k by simp
  next
    case added
    have "?key \<notin> set (map (case_folded q) terms)" using ok added(2) by (metis domIff)
    hence "kept_ok q k'" using ok added c by (simp add: kept_ok_def)
    thus ?thesis using added k by auto
  qed
  thus "kept_ok q k'" "set (snd k) \<subseteq> set (snd k')" "spelling \<noteq> [] \<Longrightarrow> spelling \<in> set (snd k')"
    "length (snd k') \<le> Suc (length (snd k))"
    "length (snd k) < k_max_refinement_terms \<Longrightarrow> \<not> blank q t \<Longrightarrow> ?key \<in> set (map (case_folded q) (snd k'))"
    by blast+
qed

lemma keep_terms_ok:
  assumes "is_space q CHR '' ''"
  shows "kept_ok q k \<Longrightarrow> kept_ok q (keep_terms q ts k) \<and> set (snd k) \<subseteq> set (snd (keep_terms q ts k))"
proof (induction ts arbitrary: k)
  case (Cons t ts)
  obtain w k' where k: "keep_term q t k = (w, k')" by (rule prod.exhaust)
  show ?case using Cons.IH[of k'] keep_term_ok(1,2)[OF assms Cons.prems k] k by auto
qed simp

lemma keep_terms_reach:
  assumes "is_space q CHR '' ''"
  shows "kept_ok q k \<Longrightarrow> length (snd k) + length ts \<le> k_max_refinement_terms \<Longrightarrow> t \<in> set ts \<Longrightarrow> \<not> blank q t \<Longrightarrow>
    case_folded q (simplified q t) \<in> set (map (case_folded q) (snd (keep_terms q ts k)))"
proof (induction ts arbitrary: k)
  case (Cons u ts)
  obtain w k' where k: "keep_term q u k = (w, k')" by (rule prod.exhaust)
  note ok = keep_term_ok[OF assms Cons.prems(1) k]
  show ?case
  proof (cases "t = u")
    case True
    have "set (snd k') \<subseteq> set (snd (keep_terms q ts k'))" using keep_terms_ok[OF assms ok(1)] by simp
    thus ?thesis using ok(5) Cons.prems True k by auto
  next
    case False
    thus ?thesis using Cons.IH[OF ok(1)] ok(4) Cons.prems k by simp
  qed
qed simp

lemma keep_terms_append: "keep_terms q (as @ bs) k = keep_terms q bs (keep_terms q as k)"
  by (induction as arbitrary: k) simp_all

lemma keep_entries_ok:
  assumes "is_space q CHR '' ''"
  shows "kept_ok q k \<Longrightarrow> dom x \<subseteq> set (snd k) \<Longrightarrow> keep_entries q es k x = (k', x') \<Longrightarrow>
    kept_ok q k' \<and> dom x' \<subseteq> set (snd k') \<and> set (snd k) \<subseteq> set (snd k')"
proof (induction es arbitrary: k x)
  case (Cons e es)
  obtain w k1 where k: "keep_term q (ve_term e) k = (w, k1)" by (rule prod.exhaust)
  note ok = keep_term_ok[OF assms Cons.prems(1) k]
  let ?x = "if w \<noteq> [] \<and> ve_context e \<noteq> [] then x(w \<mapsto> ve_context e) else x"
  have "dom ?x \<subseteq> set (snd k1)" using ok(2,3) Cons.prems(2) by auto
  from Cons.IH[OF ok(1) this] show ?case using Cons.prems(3) ok(2) k by auto
qed simp

section \<open>Properties\<close>

lemma chain_behind_profile:
  "is_chain_provider_id r p \<Longrightarrow> provider_chain r p (page_chain_after p (provider_chain r x fs))
   = p # filter (\<lambda>i. i \<noteq> p \<and> is_chain_provider_id r i) (provider_chain r x fs)"
proof -
  assume p: "is_chain_provider_id r p"
  hence "\<not> (r = Refinement \<and> p = k_no_refinement_provider)"
    by (auto simp: is_chain_provider_id_def k_no_refinement_provider_def parse_provider_id_def k_providers_def
      split: option.splits if_splits)
  moreover have "extend_chain r c is = c @ filter (\<lambda>i. i \<notin> set c \<and> is_chain_provider_id r i) is"
    if "distinct is" for c "is"
    using that by (induction r c "is" rule: extend_chain.induct) (auto intro!: filter_cong)
  moreover have "distinct (page_chain_after p (provider_chain r x fs))"
    by (simp add: page_chain_after_def distinct_provider_chain)
  ultimately show ?thesis
    by (auto simp: provider_chain_def[of r p] page_chain_after_def conj_commute intro!: filter_cong)
qed


lemma set_refinement_model_chain [simp]:
  "rs_provider (set_refinement_model r m) = rs_provider r" "rs_fallbacks (set_refinement_model r m) = rs_fallbacks r"
  by (auto simp: set_refinement_model_def refinement_model_setting_def split: option.splits provider_id.splits)

text \<open>
  A Writing Profile's own services lead the chains: its speech service, then
  the Dictation page's whole chain without it, in the page's order, and likewise
  for refinement, unless that is off.
\<close>

theorem profile_services_lead:
  fixes a p
  defines "a' \<equiv> with_writing_profile_providers a p"
  assumes "is_chain_provider_id Speech (wps_speech_provider p)"
    and "is_chain_provider_id Refinement (wps_refinement_provider p)"
  shows "provider_chain Speech (sp_provider (as_speech a')) (sp_fallbacks (as_speech a'))
      = (let page = provider_chain Speech (sp_provider (as_speech a)) (sp_fallbacks (as_speech a))
         in if listens_for_spoken_language (the (profile_speech_settings (as_speech a) p))
            then wps_speech_provider p # filter (\<lambda>i. i \<noteq> wps_speech_provider p \<and> is_chain_provider_id Speech i) page
            else page)
    \<and> provider_chain Refinement (rs_provider (as_refinement a')) (rs_fallbacks (as_refinement a'))
      = wps_refinement_provider p
        # filter (\<lambda>i. i \<noteq> wps_refinement_provider p \<and> is_chain_provider_id Refinement i)
            (provider_chain Refinement (rs_provider (as_refinement a)) (rs_fallbacks (as_refinement a)))"
proof -
  obtain speech where s: "profile_speech_settings (as_speech a) p = Some speech"
    "sp_provider speech = wps_speech_provider p"
    "sp_fallbacks speech = page_chain_after (wps_speech_provider p)
       (provider_chain Speech (sp_provider (as_speech a)) (sp_fallbacks (as_speech a)))"
    using assms(2) by (simp add: profile_speech_settings_def Let_def)
  have r: "rs_provider (profile_refinement_settings (as_refinement a) p) = wps_refinement_provider p"
    "rs_fallbacks (profile_refinement_settings (as_refinement a) p) = page_chain_after (wps_refinement_provider p)
       (provider_chain Refinement (rs_provider (as_refinement a)) (rs_fallbacks (as_refinement a)))"
    using assms(3) by (simp_all add: profile_refinement_settings_def Let_def)
  show ?thesis
    unfolding a'_def with_writing_profile_providers_def Let_def s(1) option.case option.sel
    using s(2,3) r assms(2,3) by (simp add: chain_behind_profile)
qed

definition claude_first :: writing_profile_settings where
  "claude_first = (profile_settings_of wp_other)\<lparr>wps_speech_provider := ''claude'', wps_refinement_provider := ''anthropic''\<rparr>"

lemma profile_services_lead_witness:
  "provider_chain Refinement
     (rs_provider (as_refinement (with_writing_profile_providers default_app_settings claude_first)))
     (rs_fallbacks (as_refinement (with_writing_profile_providers default_app_settings claude_first)))
   = [''anthropic'', ''openai'']"
proof -
  have "is_chain_provider_id Speech ''claude''" "is_chain_provider_id Refinement ''anthropic''"
    "is_chain_provider_id Refinement ''openai''" "provider_key OpenAi = ''openai''"
    by (simp_all add: is_chain_provider_id_def parse_provider_id_def provider_serves_def provider_info_of_def
        k_providers_def provider_key_def)
  thus ?thesis
    using profile_services_lead[of claude_first default_app_settings]
    by (simp add: claude_first_def default_app_settings_def default_refinement_settings_def provider_chain_def
        k_no_refinement_provider_def)
qed

text \<open>
  C28. The terms refinement reads: at most a thousand, none blank, no two alike but
  for case, a context only for a term of the list, and, however many terms the
  run and the vocabulary have, every Learned Correction that applies, up to a
  thousand of them.
\<close>

theorem refinement_terms_are_sound:
  fixes q s run_terms profile
  defines "sent \<equiv> filter (\<lambda>c. lc_enabled c \<and> \<not> vocabulary_term_excluded q
      (normalize_vocabulary q (ss_vocabulary s)) (lc_corrected c) profile) (ss_corrections s)"
  assumes space: "is_space q CHR '' ''" and v: "pipeline_vocabulary q s run_terms profile = (terms, context)"
  shows "length terms \<le> k_max_refinement_terms \<and> distinct (map (case_folded q) terms)
    \<and> list_all (\<lambda>t. t \<noteq> [] \<and> simplified q t = t) terms \<and> dom context \<subseteq> set terms
    \<and> (length sent \<le> k_max_refinement_terms \<longrightarrow>
         (\<forall>c\<in>set sent. \<not> blank q (lc_corrected c) \<longrightarrow>
            case_folded q (simplified q (lc_corrected c)) \<in> set (map (case_folded q) terms)))"
proof -
  define k where "k = keep_terms q (map lc_corrected sent) (Map.empty, [])"
  define k1 where "k1 = keep_terms q run_terms k"
  obtain k2 where k2: "keep_entries q (filter (\<lambda>e. vocabulary_entry_applies e profile)
      (normalize_vocabulary q (ss_vocabulary s))) k1 Map.empty = (k2, context)" "terms = snd k2"
    using v by (auto simp: pipeline_vocabulary_def Let_def sent_def k_def k1_def keep_terms_append split: prod.splits)
  have k: "kept_ok q k" using keep_terms_ok[OF space kept_ok_empty] by (simp add: k_def)
  hence k1: "kept_ok q k1" "set (snd k) \<subseteq> set (snd k1)" using keep_terms_ok[OF space] by (simp_all add: k1_def)
  have e: "kept_ok q k2 \<and> dom context \<subseteq> set (snd k2) \<and> set (snd k1) \<subseteq> set (snd k2)"
    using keep_entries_ok[OF space k1(1) _ k2(1)] by simp
  have "case_folded q (simplified q (lc_corrected c)) \<in> set (map (case_folded q) terms)"
    if "length sent \<le> k_max_refinement_terms" "c \<in> set sent" "\<not> blank q (lc_corrected c)" for c
    using keep_terms_reach[OF space kept_ok_empty, of "map lc_corrected sent" "lc_corrected c"] that k1(2) e k2(2)
    by (auto simp: k_def)
  thus ?thesis using e k2(2) by (auto simp: kept_ok_def list_all_iff)
qed

definition default_session_settings :: session_settings where
  "default_session_settings = \<lparr>ss_app = default_app_settings,
     ss_choices = \<lparr>rc_style = ''balanced'', rc_default_profile = wp_other,
       rc_profiles = default_writing_profile_settings, rc_overrides = [], rc_use_target_context = True,
       rc_include_screenshot = False, rc_additional_instructions = [], rc_custom_prompt_enabled = False,
       rc_custom_prompt = [], rc_tones = [], rc_levels = []\<rparr>,
     ss_ui = \<lparr>ui_preview_words = 7, ui_transcription_preview = True, ui_refinement_preview = True,
       ui_selection_edit_review = True, ui_pause_media = True\<rparr>,
     ss_rules = [],
     ss_output = \<lparr>os_method = ''automatic'', os_format = PlainText, os_ydotool = False,
       os_restore_clipboard = False, os_completion_ms = 500, os_paste_rules = default_paste_rules\<rparr>,
     ss_bindings = [], ss_vocabulary = [], ss_corrections = [], ss_insights = True\<rparr>"

lemma refinement_terms_are_sound_witness:
  "distinct (map (case_folded ascii)
     (fst (pipeline_vocabulary ascii default_session_settings [''Kube'', ''kube'', '' ''] wp_other)))"
proof -
  let ?v = "pipeline_vocabulary ascii default_session_settings [''Kube'', ''kube'', '' ''] wp_other"
  show ?thesis
    using refinement_terms_are_sound[of ascii default_session_settings "[''Kube'', ''kube'', '' '']" wp_other "fst ?v" "snd ?v"]
    by (simp add: ascii_space_def)
qed

end
