(* ===== verification/Refinement_Chain.thy ===== *)
theory Refinement_Chain
  imports Speech_Chain Pipeline
begin

text \<open>
  providers/RefinementChain.cpp: a session's refiners, primary first, and the one
  it is on.

  The chain's members are \<open>rchain\<close>, a member of its owner's state, which
  \<open>rn_get\<close> and \<open>rn_put\<close> of the environment read and write. What it calls and the
  signals it emits are functions of the owner's whole state, so a handler may
  cancel the walk or start another; \<open>rf_generation\<close> tells the walk that one did.
  The RefinementSettings it is given are the two records the model splits them
  into.
\<close>

section \<open>State and environment\<close>

record rchain =
  rf_ids :: "qstring list"
  rf_index :: nat
  rf_reachability :: reachability
  rf_settings :: app_settings
  rf_services :: refinement_settings
  rf_choices :: refinement_choices
  rf_refiner :: "nat option"
  rf_generation :: nat
  rf_runner :: runner

record 's refine_env =
  rn_lib :: qt_lib
  rn_get :: "'s \<Rightarrow> rchain"
  rn_put :: "rchain \<Rightarrow> 's \<Rightarrow> 's"
  rn_acquire :: "qstring \<Rightarrow> 's \<Rightarrow> (nat option \<times> 's) option"
  rn_create_refresh_job :: "nat \<Rightarrow> refinement_settings \<Rightarrow> account_settings \<Rightarrow> 's \<Rightarrow> (prep_job option \<times> 's) option"
  rn_prepare :: "nat \<Rightarrow> refinement_settings \<Rightarrow> account_settings \<Rightarrow> 's \<Rightarrow> (provider_failure option \<times> 's) option"
  rn_apply :: "nat \<Rightarrow> provider_failure option \<Rightarrow> 's step"
  rn_passed_over :: "qstring \<Rightarrow> issue_stage \<Rightarrow> provider_failure \<Rightarrow> 's step"
  rn_preparing :: "'s step"
  rn_secrets_resolved :: "app_settings \<Rightarrow> 's step"
  rn_ready :: "'s step"
  rn_exhausted :: "'s step"

definition rn_upd :: "'s refine_env \<Rightarrow> (rchain \<Rightarrow> rchain) \<Rightarrow> 's \<Rightarrow> 's" where
  "rn_upd E f s = rn_put E (f (rn_get E s)) s"

section \<open>Queries and commands without signals\<close>

definition rchain_current_id :: "rchain \<Rightarrow> qstring" where
  "rchain_current_id c = (if rf_index c < length (rf_ids c) then rf_ids c ! rf_index c else [])"

definition rchain_current_settings :: "rchain \<Rightarrow> refinement_settings" where
  "rchain_current_settings c = (rf_services c)\<lparr>rs_provider := rchain_current_id c,
     rs_endpoint := (rs_endpoint (rf_services c))\<lparr>re_api_key := re_api_key (rs_endpoint (as_refinement (rf_settings c)))\<rparr>,
     rs_cliproxy_api_key := rs_cliproxy_api_key (as_refinement (rf_settings c))\<rparr>"

definition rchain_cancel :: "rchain \<Rightarrow> rchain" where
  "rchain_cancel c = c\<lparr>rf_generation := Suc (rf_generation c), rf_runner := runner_cancel (rf_runner c)\<rparr>"

definition rchain_begin :: "qstring \<Rightarrow> qstring list \<Rightarrow> rchain \<Rightarrow> rchain" where
  "rchain_begin primary fallbacks c =
     (rchain_cancel c)\<lparr>rf_ids := provider_chain Refinement primary fallbacks, rf_index := 0\<rparr>"

definition rchain_set_reachability :: "reachability \<Rightarrow> rchain \<Rightarrow> rchain" where
  "rchain_set_reachability r c = c\<lparr>rf_reachability := r\<rparr>"

section \<open>The walk\<close>

text \<open>
  What passing the current refiner over comes to: the walk goes on unless a
  handler moved it.
\<close>

definition rchain_pass :: "'s refine_env \<Rightarrow> qstring \<Rightarrow> provider_failure \<Rightarrow> 's \<Rightarrow> (walk_end \<times> 's) option" where
  "rchain_pass E provider f s = do {
     let generation = rf_generation (rn_get E s);
     s \<leftarrow> rn_passed_over E provider StagePrepare f s;
     Some (if generation \<noteq> rf_generation (rn_get E s) then Leaves else Continues, s) }"

definition rchain_prepare_current :: "'s refine_env \<Rightarrow> 's \<Rightarrow> (walk_end \<times> 's) option" where
  "rchain_prepare_current E s = (case rf_refiner (rn_get E s) of
     None \<Rightarrow> None
   | Some r \<Rightarrow> do {
       (failure, s) \<leftarrow> rn_prepare E r (rchain_current_settings (rn_get E s))
          (as_accounts (rf_settings (rn_get E s))) s;
       case failure of
         Some f \<Rightarrow> rchain_pass E (rchain_current_id (rn_get E s)) f s
       | None \<Rightarrow> do { s \<leftarrow> rn_ready E s; Some (Leaves, s) } })"

definition rchain_turn :: "'s refine_env \<Rightarrow> 's \<Rightarrow> (walk_end \<times> 's) option" where
  "rchain_turn E s =
     (let c = rn_get E s; q = lib_chars (rn_lib E); u = lib_urls (rn_lib E);
          provider = rf_ids c ! rf_index c
      in if rf_reachability c = ReachOffline \<and> needs_internet q u Refinement provider (rf_settings c)
         then rchain_pass E provider no_internet_failure s
         else do {
           (r, s) \<leftarrow> rn_acquire E provider s;
           let s = rn_upd E (\<lambda>c. c\<lparr>rf_refiner := r\<rparr>) s;
           let c = rn_get E s;
           case r of
             None \<Rightarrow> rchain_pass E provider (unavailable (''Unknown refinement provider: '' @ provider)) s
           | Some r \<Rightarrow>
               if has_unread_provider_secrets q u (rf_settings c) Refinement provider
               then do {
                 s \<leftarrow> rn_preparing E (rn_upd E (\<lambda>c. c\<lparr>rf_runner :=
                        resolve_secrets Refinement provider (rf_settings c) (rf_runner c)\<rparr>) s);
                 Some (Leaves, s) }
               else do {
                 (job, s) \<leftarrow> rn_create_refresh_job E r (rchain_current_settings c) (as_accounts (rf_settings c)) s;
                 case job of
                   Some j \<Rightarrow> do {
                     s \<leftarrow> rn_preparing E (rn_upd E (\<lambda>c. c\<lparr>rf_runner := prepare_refiner j (rf_runner c)\<rparr>) s);
                     Some (Leaves, s) }
                 | None \<Rightarrow> rchain_prepare_current E s } })"

text \<open>
  prepareCurrent, called by a turn, walks on itself when the refiner fails to
  prepare; the loop of the walk that called it then returns. So both are the next
  turn.
\<close>

partial_function (option) rchain_walk :: "'s refine_env \<Rightarrow> 's \<Rightarrow> 's option" where
  "rchain_walk E s =
     (if rf_index (rn_get E s) < length (rf_ids (rn_get E s)) then do {
        (e, s) \<leftarrow> rchain_turn E s;
        (if e = Leaves then Some s
         else rchain_walk E (rn_upd E (\<lambda>c. c\<lparr>rf_index := Suc (rf_index c)\<rparr>) s)) }
      else rn_exhausted E s)"

definition rchain_go_on :: "'s refine_env \<Rightarrow> walk_end \<times> 's \<Rightarrow> 's option" where
  "rchain_go_on E = (\<lambda>(e, s). if e = Leaves then Some s
     else rchain_walk E (rn_upd E (\<lambda>c. c\<lparr>rf_index := Suc (rf_index c)\<rparr>) s))"

definition rchain_prepare ::
  "'s refine_env \<Rightarrow> app_settings \<Rightarrow> refinement_settings \<Rightarrow> refinement_choices \<Rightarrow> 's step" where
  "rchain_prepare E settings services choices s =
     rchain_walk E (rn_upd E (\<lambda>c. c\<lparr>rf_generation := Suc (rf_generation c), rf_settings := settings,
        rf_services := services, rf_choices := choices\<rparr>) s)"

definition rchain_prepare_next ::
  "'s refine_env \<Rightarrow> app_settings \<Rightarrow> refinement_settings \<Rightarrow> refinement_choices \<Rightarrow> 's step" where
  "rchain_prepare_next E settings services choices s =
     rchain_prepare E settings services choices (rn_upd E (\<lambda>c. c\<lparr>rf_index := Suc (rf_index c)\<rparr>) s)"

section \<open>What the runner reports\<close>

definition rchain_finish_preparation :: "'s refine_env \<Rightarrow> provider_failure option \<Rightarrow> 's step" where
  "rchain_finish_preparation E failure s = (case failure of
     Some f \<Rightarrow> rchain_pass E (rchain_current_id (rn_get E s)) f s \<bind> rchain_go_on E
   | None \<Rightarrow> rchain_prepare_current E s \<bind> rchain_go_on E)"

definition rchain_use_resolved_secrets ::
  "'s refine_env \<Rightarrow> provider_failure option \<Rightarrow> app_settings \<Rightarrow> 's step" where
  "rchain_use_resolved_secrets E failure settings s = (case failure of
     Some f \<Rightarrow> rchain_pass E (rchain_current_id (rn_get E s)) f s \<bind> rchain_go_on E
   | None \<Rightarrow> do {
       let s = rn_upd E (\<lambda>c. c\<lparr>rf_settings := settings\<rparr>) s;
       let generation = rf_generation (rn_get E s);
       s \<leftarrow> rn_secrets_resolved E settings s;
       (if generation \<noteq> rf_generation (rn_get E s) then Some s else rchain_walk E s) })"

definition rchain_thread_finished :: "'s refine_env \<Rightarrow> nat \<Rightarrow> worker_results \<Rightarrow> 's step" where
  "rchain_thread_finished E i w s0 =
     (let (task, r) = thread_finished i (rf_runner (rn_get E s0));
          s = rn_upd E (\<lambda>c. c\<lparr>rf_runner := r\<rparr>) s0 in
      case task of
        Some (PrepareRefiner job) \<Rightarrow> do {
          s \<leftarrow> apply_job (rn_apply E) (Some job) (run_job (wr_jobs w) job) s;
          rchain_finish_preparation E (run_job (wr_jobs w) job) s }
      | Some (ResolveSecrets role provider settings) \<Rightarrow>
          (let (e, settings') = resolve_provider_secrets (lib_chars (rn_lib E)) (lib_urls (rn_lib E))
                 (wr_secret w) (wr_read_failure w) role provider settings
           in rchain_use_resolved_secrets E (secrets_failure e) settings' s)
      | _ \<Rightarrow> Some s)"


section \<open>Every walk ends\<close>

text \<open>
  The interface between the chain and its owner. W is what the owner keeps while
  a walk is under way, Q what it keeps otherwise. A call of a walk leaves W in
  place unless its handlers moved the chain's generation, which ends the walk;
  then every command returns, with no refiner passed over twice in a walk. A
  preparation that reports finds W again.
\<close>

definition rchain_stays :: "rchain \<Rightarrow> rchain \<Rightarrow> bool" where
  "rchain_stays c d \<longleftrightarrow> rf_ids d = rf_ids c \<and> rf_index d = rf_index c"

locale refinement_listeners =
  fixes E :: "'s refine_env" and W :: "'s \<Rightarrow> bool" and Q :: "'s \<Rightarrow> bool"
  assumes get_put: "rn_get E (rn_put E c s) = c"
    and acquire: "W s \<Longrightarrow> ends (\<lambda>(r, s'). W s' \<and> rn_get E s' = rn_get E s
        \<and> W (rn_upd E (\<lambda>c. c\<lparr>rf_refiner := r\<rparr>) s')) (rn_acquire E i s)"
    and create_job: "W s \<Longrightarrow> ends (\<lambda>(j, s'). W s' \<and> rn_get E s' = rn_get E s) (rn_create_refresh_job E r rs ac s)"
    and prepares: "W s \<Longrightarrow> ends (\<lambda>(f, s'). W s' \<and> rn_get E s' = rn_get E s) (rn_prepare E r rs ac s)"
    and applies: "W s \<Longrightarrow> ends (\<lambda>s'. W s' \<and> rn_get E s' = rn_get E s) (rn_apply E n pf s)"
    and passes: "W s \<Longrightarrow> ends (\<lambda>s'. if rf_generation (rn_get E s') = rf_generation (rn_get E s)
        then W s' \<and> rchain_stays (rn_get E s) (rn_get E s') else Q s') (rn_passed_over E i st f s)"
    and waits_keys: "W s \<Longrightarrow> ends Q (rn_preparing E
        (rn_upd E (\<lambda>c. c\<lparr>rf_runner := resolve_secrets role i (rf_settings c) (rf_runner c)\<rparr>) s))"
    and waits_job: "W s \<Longrightarrow> rf_refiner (rn_get E s) \<noteq> None \<Longrightarrow> ends Q (rn_preparing E
        (rn_upd E (\<lambda>c. c\<lparr>rf_runner := prepare_refiner j (rf_runner c)\<rparr>) s))"
    and resolves: "W s \<Longrightarrow> ends (\<lambda>s'. if rf_generation (rn_get E s') = rf_generation (rn_get E s)
        then W s' else Q s') (rn_secrets_resolved E as s)"
    and takes: "W s \<Longrightarrow> rf_refiner (rn_get E s) \<noteq> None \<Longrightarrow> ends Q (rn_ready E s)"
    and gives_up: "W s \<Longrightarrow> ends Q (rn_exhausted E s)"
    and frame: "W s \<Longrightarrow> W (rn_upd E (\<lambda>c. c\<lparr>rf_index := Suc (rf_index c)\<rparr>) s)"
      "W s \<Longrightarrow> W (rn_upd E (\<lambda>c. c\<lparr>rf_settings := as\<rparr>) s)"
      "W s \<Longrightarrow> W (rn_upd E (\<lambda>c. c\<lparr>rf_generation := Suc (rf_generation c), rf_settings := as,
        rf_services := rs, rf_choices := ch\<rparr>) s)"
    and reports: "Q s \<Longrightarrow> thread_finished n (rf_runner (rn_get E s)) = (Some t, ru) \<Longrightarrow>
        W (rn_upd E (\<lambda>c. c\<lparr>rf_runner := ru\<rparr>) s)
        \<and> (case t of PrepareSpeech _ _ \<Rightarrow> False | PrepareRefiner _ \<Rightarrow> rf_refiner (rn_get E s) \<noteq> None | _ \<Rightarrow> True)"
    and quits: "Q s \<Longrightarrow> thread_finished n (rf_runner (rn_get E s)) = (None, ru) \<Longrightarrow>
        Q (rn_upd E (\<lambda>c. c\<lparr>rf_runner := ru\<rparr>) s)"
begin

lemma get_upd: "rn_get E (rn_upd E f s) = f (rn_get E s)"
  by (simp add: rn_upd_def get_put)

text \<open>What a turn may come to.\<close>

definition turned :: "rchain \<Rightarrow> walk_end \<times> 's \<Rightarrow> bool" where
  "turned c = (\<lambda>(e, s). if e = Leaves then Q s else W s \<and> rchain_stays c (rn_get E s))"

lemma pass_turns: "W s \<Longrightarrow> rchain_stays c (rn_get E s) \<Longrightarrow> ends (turned c) (rchain_pass E i f s)"
  by (auto simp: rchain_pass_def Let_def turned_def rchain_stays_def split: if_splits intro!: ends_mono[OF passes])

lemma ready_turns: "W s \<Longrightarrow> rf_refiner (rn_get E s) \<noteq> None \<Longrightarrow>
    ends (turned c) (rn_ready E s \<bind> (\<lambda>s. Some (Leaves, s)))"
  using takes[of s] by (auto simp: ends_def turned_def)

lemma prepare_current_turns:
  assumes "W s" "rf_refiner (rn_get E s) \<noteq> None" "rchain_stays c (rn_get E s)"
  shows "ends (turned c) (rchain_prepare_current E s)"
proof -
  obtain r where r: "rf_refiner (rn_get E s) = Some r" using assms(2) by auto
  obtain f s' where f: "rn_prepare E r (rchain_current_settings (rn_get E s)) (as_accounts (rf_settings (rn_get E s))) s
      = Some (f, s')" "W s'" "rn_get E s' = rn_get E s"
    using prepares[OF assms(1), of r "rchain_current_settings (rn_get E s)" "as_accounts (rf_settings (rn_get E s))"]
    by (auto simp: ends_def)
  show ?thesis
    using pass_turns[OF f(2), of c] ready_turns[OF f(2), of c] assms f
    by (cases f) (simp_all add: rchain_prepare_current_def r)
qed

lemma turn_ends: "W s \<Longrightarrow> ends (turned (rn_get E s)) (rchain_turn E s)"
proof -
  assume W: "W s"
  let ?c = "rn_get E s" and ?i = "rf_ids (rn_get E s) ! rf_index (rn_get E s)"
  have here: "rchain_stays ?c ?c" by (simp add: rchain_stays_def)
  obtain r s1 where a: "rn_acquire E ?i s = Some (r, s1)" "W s1" "rn_get E s1 = ?c"
    "W (rn_upd E (\<lambda>c. c\<lparr>rf_refiner := r\<rparr>) s1)"
    using acquire[OF W, of ?i] by (auto simp: ends_def)
  let ?s2 = "rn_upd E (\<lambda>c. c\<lparr>rf_refiner := r\<rparr>) s1"
  note g = get_upd[of "\<lambda>c. c\<lparr>rf_refiner := r\<rparr>" s1]
  have there: "rchain_stays ?c (rn_get E ?s2)" by (simp add: g a(3) rchain_stays_def)
  show ?thesis
  proof (cases r)
    case None
    thus ?thesis
      using pass_turns[OF W here] pass_turns[OF a(4) there] a by (simp add: rchain_turn_def Let_def)
  next
    case (Some t)
    obtain j s3 where j: "rn_create_refresh_job E t (rchain_current_settings (rn_get E ?s2))
        (as_accounts (rf_settings (rn_get E ?s2))) ?s2 = Some (j, s3)" "W s3" "rn_get E s3 = rn_get E ?s2"
      using create_job[OF a(4), of t "rchain_current_settings (rn_get E ?s2)" "as_accounts (rf_settings (rn_get E ?s2))"]
      by (auto simp: ends_def)
    have r3: "rf_refiner (rn_get E s3) \<noteq> None" by (simp add: j(3) get_upd Some)
    have more: "ends (turned ?c) (case j of Some j \<Rightarrow>
          rn_preparing E (rn_upd E (\<lambda>c. c\<lparr>rf_runner := prepare_refiner j (rf_runner c)\<rparr>) s3) \<bind> (\<lambda>s. Some (Leaves, s))
        | None \<Rightarrow> rchain_prepare_current E s3)"
      using ends_mono[OF waits_job[OF j(2) r3]] prepare_current_turns[OF j(2) r3, of ?c] there j(3)
      by (cases j) (simp_all add: turned_def)
    show ?thesis
      using pass_turns[OF W here] a j more ends_mono[OF waits_keys[OF a(4)]] Some
      by (simp add: rchain_turn_def Let_def turned_def)
  qed
qed

lemma walk_returns: "W s \<Longrightarrow> ends Q (rchain_walk E s)"
proof (induction "length (rf_ids (rn_get E s)) - rf_index (rn_get E s)" arbitrary: s rule: less_induct)
  case less
  show ?case
  proof (cases "rf_index (rn_get E s) < length (rf_ids (rn_get E s))")
    case True
    obtain e s1 where t: "rchain_turn E s = Some (e, s1)" "turned (rn_get E s) (e, s1)"
      using turn_ends[OF less.prems] by (auto simp: ends_def)
    let ?s2 = "rn_upd E (\<lambda>c. c\<lparr>rf_index := Suc (rf_index c)\<rparr>) s1"
    have "ends Q (rchain_walk E ?s2)" if "e = Continues"
      using less.hyps[of ?s2] t(2) True that frame(1)[of s1] by (auto simp: turned_def rchain_stays_def get_upd)
    thus ?thesis using t True by (cases e) (simp_all add: rchain_walk.simps[of E s] turned_def)
  qed (simp add: rchain_walk.simps[of E s] gives_up less.prems)
qed

lemma go_on_returns: "turned c x \<Longrightarrow> ends Q (rchain_go_on E x)"
  by (cases x; cases "fst x") (auto simp: rchain_go_on_def turned_def intro!: walk_returns frame)

lemma prepare_returns: "W s \<Longrightarrow> ends Q (rchain_prepare E as rs ch s)"
  by (simp add: rchain_prepare_def walk_returns frame)

lemma prepare_next_returns: "W s \<Longrightarrow> ends Q (rchain_prepare_next E as rs ch s)"
  by (simp add: rchain_prepare_next_def prepare_returns frame)

lemma pass_goes_on: "W s \<Longrightarrow> ends Q (rchain_pass E i f s \<bind> rchain_go_on E)"
  using ends_mono[OF pass_turns go_on_returns] by (simp add: rchain_stays_def)

lemma finish_returns: "W s \<Longrightarrow> rf_refiner (rn_get E s) \<noteq> None \<Longrightarrow> ends Q (rchain_finish_preparation E f s)"
  using ends_mono[OF prepare_current_turns go_on_returns, of s "rn_get E s"] pass_goes_on[of s]
  by (cases f) (simp_all add: rchain_finish_preparation_def rchain_stays_def)

lemma secrets_returns: "W s \<Longrightarrow> ends Q (rchain_use_resolved_secrets E f as s)"
proof (cases f)
  case None
  assume "W s"
  let ?s = "rn_upd E (\<lambda>c. c\<lparr>rf_settings := as\<rparr>) s"
  obtain s' where "rn_secrets_resolved E as ?s = Some s'"
    "if rf_generation (rn_get E s') = rf_generation (rn_get E ?s) then W s' else Q s'"
    using resolves[OF frame(2)[OF \<open>W s\<close>], of as "as"] by (auto simp: ends_def)
  thus ?thesis using None walk_returns[of s'] by (simp add: rchain_use_resolved_secrets_def Let_def)
qed (use pass_goes_on[of s] in \<open>simp add: rchain_use_resolved_secrets_def\<close>)

lemma thread_finished_returns: "Q s \<Longrightarrow> ends Q (rchain_thread_finished E i w s)"
proof -
  assume Q: "Q s"
  obtain t r where t: "thread_finished i (rf_runner (rn_get E s)) = (t, r)" by (rule prod.exhaust)
  let ?s = "rn_upd E (\<lambda>c. c\<lparr>rf_runner := r\<rparr>) s"
  show ?thesis
  proof (cases t)
    case None
    thus ?thesis using quits[OF Q, of i r] t by (simp add: rchain_thread_finished_def)
  next
    case (Some task)
    have W: "W ?s" "task = PrepareRefiner j \<Longrightarrow> rf_refiner (rn_get E ?s) \<noteq> None" for j
      using reports[OF Q, of i task r] t Some by (auto simp: get_upd split: prep_task.splits)
    have "ends (\<lambda>s'. W s' \<and> rn_get E s' = rn_get E ?s) (apply_job (rn_apply E) (Some j) f ?s)" for j f
      using applies[OF W(1)] W(1) by (simp add: apply_job_def split: option.split)
    hence "ends Q (apply_job (rn_apply E) (Some j) f ?s \<bind> rchain_finish_preparation E f)"
      if "task = PrepareRefiner j" for j f
    proof -
      have "ends Q (rchain_finish_preparation E f s')" if "W s' \<and> rn_get E s' = rn_get E ?s" for s'
        using that W(2)[OF \<open>task = PrepareRefiner j\<close>] finish_returns by simp
      thus ?thesis using \<open>\<And>j f. ends _ (apply_job (rn_apply E) (Some j) f ?s)\<close> unfolding ends_bind
        by (blast intro: ends_mono)
    qed
    thus ?thesis
      using t Some secrets_returns[OF W(1)] reports[OF Q, of i task r]
      by (cases task) (simp_all add: rchain_thread_finished_def Let_def split_beta)
  qed
qed

end

end
