(* ===== verification/Selection_Edit.thy ===== *)
theory Selection_Edit
  imports QtText "HOL-Library.Word"
begin

text \<open>
  dictation/SelectionEditPresentation.cpp and core/WordSpacing.h: a selection
  edit as the review shows it, the revised selection against the original, word
  by word.

  Qt's word boundaries (QTextBoundaryFinder), the script of a character and the
  characters beyond HOL's are the fields of \<open>shape\<close>. The table of the
  comparison keeps the 16 bits of its cells, so a sum that would not fit wraps.
\<close>

section \<open>Data\<close>

datatype qscript = Han | Hiragana | Katakana | Thai | Lao | Khmer | Myanmar | Tibetan | OtherScript

definition written_without_spaces :: "qscript \<Rightarrow> bool" where
  "written_without_spaces s = (case s of OtherScript \<Rightarrow> False | _ \<Rightarrow> True)"

record shape =
  sh_chars :: qchars
  sh_boundaries :: "qstring \<Rightarrow> nat list"
  sh_script :: "char \<Rightarrow> qscript"
  sh_glyphs :: glyphs

datatype run_kind = Kept | Removed | Added | Omitted

record edit_run =
  er_kind :: run_kind
  er_text :: qstring
  er_trailing :: qstring

definition run_of :: "run_kind \<Rightarrow> qstring \<Rightarrow> edit_run" where
  "run_of k t = \<lparr>er_kind = k, er_text = t, er_trailing = []\<rparr>"

record review_keys =
  rk_keep :: qstring
  rk_replace :: qstring
  rk_follow_up :: qstring

record selection_edit_review =
  rv_instruction :: qstring
  rv_runs :: "edit_run list"
  rv_folded :: "edit_run list"
  rv_summary :: qstring
  rv_keys :: review_keys
  rv_following :: bool

definition k_fold_above_words :: nat where "k_fold_above_words = 40"
definition k_fold_context_words :: nat where "k_fold_context_words = 6"
definition k_fold_minimum_words :: nat where "k_fold_minimum_words = 3"
definition k_shown_instructions :: nat where "k_shown_instructions = 3"
definition k_max_diff_cells :: nat where "k_max_diff_cells = 4000000"

section \<open>Words\<close>

text \<open>
  The loop of words() over the boundaries: the words so far and the spaces before
  the first one.
\<close>

fun gather_words :: "qchars \<Rightarrow> qstring \<Rightarrow> nat \<Rightarrow> nat list \<Rightarrow> qstring list \<Rightarrow> qstring \<Rightarrow> qstring list" where
  "gather_words q s start [] ws leading = (if leading = [] then ws else ws @ [leading])"
| "gather_words q s start (e # es) ws leading =
     (let piece = take (e - start) (drop start s) in
      if \<not> blank q piece then gather_words q s e es (ws @ [leading @ piece]) []
      else if ws = [] then gather_words q s e es ws (leading @ piece)
      else gather_words q s e es (butlast ws @ [last ws @ piece]) leading)"

definition edit_words :: "shape \<Rightarrow> qstring \<Rightarrow> qstring list" where
  "edit_words h s = gather_words (sh_chars h) s 0 (sh_boundaries h s) [] []"

definition written_with_spaces :: "shape \<Rightarrow> char \<Rightarrow> bool" where
  "written_with_spaces h c \<longleftrightarrow> \<not> written_without_spaces (sh_script h c) \<and> is_letter_or_number (sh_chars h) c"

definition comparable_words :: "shape \<Rightarrow> qstring list \<Rightarrow> qstring list" where
  "comparable_words h ws = map (trimmed (sh_chars h)) ws"

definition count_proper :: "shape \<Rightarrow> qstring list \<Rightarrow> nat" where
  "count_proper h ws = length (filter (list_ex (is_letter_or_number (sh_chars h))) ws)"

section \<open>The comparison\<close>

fun shared_start :: "'k list \<Rightarrow> 'k list \<Rightarrow> nat" where
  "shared_start (b # bs) (a # as) = (if b = a then Suc (shared_start bs as) else 0)"
| "shared_start _ _ = 0"

text \<open>One row of the table, from its last column to its first, over the row after it.\<close>

fun share_row :: "'k \<Rightarrow> 'k list \<Rightarrow> 16 word list \<Rightarrow> 16 word list" where
  "share_row b [] below = [0]"
| "share_row b (a # as) below =
     (let right = share_row b as (tl below)
      in (if b = a then hd (tl below) + 1 else max (hd below) (hd right)) # right)"

fun share_rows :: "'k list \<Rightarrow> 'k list \<Rightarrow> 16 word list list" where
  "share_rows [] as = [replicate (Suc (length as)) 0]"
| "share_rows (b # bs) as = (let rs = share_rows bs as in share_row b as (hd rs) # rs)"

text \<open>
  The walk through the table: what each step adds to the runs. The word kept is
  the revised text's.
\<close>

function diff_walk ::
  "16 word list list \<Rightarrow> 'k list \<Rightarrow> 'k list \<Rightarrow> qstring list \<Rightarrow> qstring list \<Rightarrow> nat \<Rightarrow> nat
   \<Rightarrow> (run_kind \<times> qstring) list" where
  "diff_walk shared bk ak before after i j =
     (if i < length bk \<or> j < length ak then
        (if i < length bk \<and> j < length ak \<and> bk ! i = ak ! j then
           (Kept, after ! j) # diff_walk shared bk ak before after (Suc i) (Suc j)
         else if i < length bk \<and> (length ak \<le> j \<or> shared ! i ! Suc j \<le> shared ! Suc i ! j) then
           (Removed, before ! i) # diff_walk shared bk ak before after (Suc i) j
         else (Added, after ! j) # diff_walk shared bk ak before after i (Suc j))
      else [])"
  by pat_completeness auto
termination by (relation "measure (\<lambda>(_, bk, ak, _, _, i, j). (length bk - i) + (length ak - j))") auto

declare diff_walk.simps [simp del]

text \<open>
  diff() up to the runs it gathers: the words set aside at the start and at the
  end, and the stretch between; nothing when the stretch is too long to compare.
\<close>

definition diff_marks :: "shape \<Rightarrow> qstring list \<Rightarrow> qstring list \<Rightarrow> (run_kind \<times> qstring) list option" where
  "diff_marks h before after =
     (let bk = comparable_words h before; ak = comparable_words h after;
          start = shared_start bk ak;
          fin = shared_start (rev (drop start bk)) (rev (drop start ak));
          n = length before - start - fin; m = length after - start - fin;
          bk' = take n (drop start bk); ak' = take m (drop start ak)
      in if (n + 1) * (m + 1) > k_max_diff_cells then None
         else Some (map (Pair Kept) (take start after)
              @ diff_walk (share_rows bk' ak') bk' ak' (drop start before) (drop start after) 0 0
              @ map (Pair Kept) (drop (length after - fin) after)))"

fun add_run :: "run_kind \<times> qstring \<Rightarrow> edit_run list \<Rightarrow> edit_run list" where
  "add_run (k, w) rs = (if rs \<noteq> [] \<and> er_kind (last rs) = k
     then butlast rs @ [(last rs)\<lparr>er_text := er_text (last rs) @ w\<rparr>] else rs @ [run_of k w])"

definition diff :: "shape \<Rightarrow> qstring list \<Rightarrow> qstring list \<Rightarrow> edit_run list option" where
  "diff h before after = map_option (\<lambda>ms. fold add_run ms []) (diff_marks h before after)"

section \<open>The marks\<close>

text \<open>
  One turn of separateMarks at a run: the runs before it (whose last may get a
  space), the run, and the one after it.
\<close>

definition spaced_before :: "shape \<Rightarrow> edit_run \<Rightarrow> edit_run list \<Rightarrow> edit_run list" where
  "spaced_before h run earlier =
     (if er_kind run = Removed \<and> earlier \<noteq> [] \<and> er_text run \<noteq> [] \<and> written_with_spaces h (hd (er_text run))
         \<and> er_text (last earlier) \<noteq> [] \<and> \<not> is_space (sh_chars h) (last (er_text (last earlier)))
      then butlast earlier @ [(last earlier)\<lparr>er_text := er_text (last earlier) @ '' ''\<rparr>]
      else earlier)"

definition closing_spaces :: "qchars \<Rightarrow> qstring \<Rightarrow> qstring" where
  "closing_spaces q s = rev (takeWhile (is_space q) (rev s))"

definition separated_run :: "shape \<Rightarrow> edit_run \<Rightarrow> edit_run list \<Rightarrow> edit_run" where
  "separated_run h run rest =
     (let spaces = closing_spaces (sh_chars h) (er_text run);
          t = take (length (er_text run) - length spaces) (er_text run);
          replaced = (rest \<noteq> [] \<and> er_kind (hd rest) = Added)
      in run\<lparr>er_text := t,
             er_trailing := (if er_kind run = Removed \<and> replaced \<and> spaces = [] \<and> t \<noteq> []
                                \<and> written_with_spaces h (last t) then '' '' else spaces)\<rparr>)"

fun separate_from :: "shape \<Rightarrow> edit_run list \<Rightarrow> edit_run list \<Rightarrow> edit_run list" where
  "separate_from h earlier [] = earlier"
| "separate_from h earlier (run # rest) =
     (if er_kind run = Kept then separate_from h (earlier @ [run]) rest
      else separate_from h (spaced_before h run earlier @ [separated_run h run rest]) rest)"

definition separate_marks :: "shape \<Rightarrow> edit_run list \<Rightarrow> edit_run list" where
  "separate_marks h runs = separate_from h [] runs"

section \<open>The review\<close>

fun change_count_from :: "run_kind option \<Rightarrow> edit_run list \<Rightarrow> nat" where
  "change_count_from previous [] = 0"
| "change_count_from previous (r # rs) =
     (if er_kind r \<noteq> Kept \<and> (previous = None \<or> previous = Some Kept) then 1 else 0)
     + change_count_from (Some (er_kind r)) rs"

definition change_count :: "edit_run list \<Rightarrow> nat" where
  "change_count runs = change_count_from None runs"

definition kept_words :: "shape \<Rightarrow> edit_run list \<Rightarrow> nat" where
  "kept_words h runs = (\<Sum>r\<leftarrow>runs. if er_kind r = Kept then count_proper h (edit_words h (er_text r)) else 0)"

definition folded_run :: "shape \<Rightarrow> nat \<Rightarrow> nat \<Rightarrow> edit_run \<Rightarrow> edit_run list" where
  "folded_run h k n run =
     (let ws = edit_words h (er_text run);
          before = (if k = 0 then 0 else k_fold_context_words);
          behind = (if k = n - 1 then 0 else k_fold_context_words)
      in if er_kind run \<noteq> Kept \<or> length ws < before + behind + k_fold_minimum_words then [run]
         else (if 0 < before then [run_of Kept (concat (take before ws))] else [])
              @ [\<lparr>er_kind = Omitted, er_text = gl_ellipsis (sh_glyphs h), er_trailing = '' ''\<rparr>]
              @ (if 0 < behind then [run_of Kept (concat (drop (length ws - behind) ws))] else []))"

definition fold_runs :: "shape \<Rightarrow> edit_run list \<Rightarrow> edit_run list" where
  "fold_runs h runs =
     (if (\<Sum>r\<leftarrow>runs. count_proper h (edit_words h (er_text r))) \<le> k_fold_above_words then []
      else (let folded = concat (map (\<lambda>(k, r). folded_run h k (length runs) r) (enumerate 0 runs))
            in if folded = runs then [] else folded))"

definition changes_summary :: "nat \<Rightarrow> qstring" where
  "changes_summary n = (if n = 1 then ''1 change'' else decimal n @ '' changes'')"

definition said_instructions :: "shape \<Rightarrow> qstring list \<Rightarrow> qstring" where
  "said_instructions h instructions =
     (let quoted = map (\<lambda>s. gl_open_quote (sh_glyphs h) @ simplified (sh_chars h) s @ gl_close_quote (sh_glyphs h))
                     (filter (\<lambda>s. simplified (sh_chars h) s \<noteq> []) instructions)
      in (if length quoted > k_shown_instructions then gl_ellipsis (sh_glyphs h) @ '' then '' else [])
         @ join '' then '' (drop (length quoted - min (length quoted) k_shown_instructions) quoted))"

definition selection_edit_review_of ::
  "shape \<Rightarrow> qstring \<Rightarrow> qstring \<Rightarrow> qstring list \<Rightarrow> review_keys \<Rightarrow> selection_edit_review" where
  "selection_edit_review_of h original revised instructions keys =
     (let before = edit_words h original; after = edit_words h revised;
          runs = diff h before after;
          whole = \<lparr>rv_instruction = said_instructions h instructions, rv_runs = [run_of Kept revised],
                   rv_folded = [], rv_summary = [], rv_keys = keys, rv_following = False\<rparr>;
          longer_words = max (count_proper h before) (count_proper h after)
      in if runs \<noteq> None \<and> change_count (the runs) = 0
         then whole\<lparr>rv_summary := (if original = revised then ''No changes'' else ''Spacing changes only'')\<rparr>
         else if runs = None \<or> 2 * kept_words h (the runs) < longer_words
         then whole\<lparr>rv_summary := ''Rewritten''\<rparr>
         else (let shown = separate_marks h (the runs)
               in whole\<lparr>rv_runs := shown, rv_folded := fold_runs h shown,
                        rv_summary := changes_summary (change_count (the runs))\<rparr>))"

definition escape_key_name :: qstring where "escape_key_name = ''Esc''"

definition enter_key_name :: "bool \<Rightarrow> qstring" where
  "enter_key_name macos = (if macos then ''Return'' else ''Enter'')"

definition review_keys_for :: "bool \<Rightarrow> bool \<Rightarrow> bool \<Rightarrow> qstring \<Rightarrow> qstring \<Rightarrow> review_keys" where
  "review_keys_for macos escape_held enter_held cancel_shortcut global_shortcut =
     \<lparr>rk_keep = (if escape_held then escape_key_name else cancel_shortcut),
      rk_replace = (if enter_held then enter_key_name macos else []), rk_follow_up = global_shortcut\<rparr>"

definition selection_changed_note :: qstring where
  "selection_changed_note = ''Your selection changed''"


section \<open>The longest common subsequence\<close>

text \<open>The reference the table computes, by the texts that are left of both.\<close>

fun lcs :: "'k list \<Rightarrow> 'k list \<Rightarrow> nat" where
  "lcs (b # bs) (a # as) = (if b = a then Suc (lcs bs as) else max (lcs bs (a # as)) (lcs (b # bs) as))"
| "lcs _ _ = 0"

lemma lcs_Nil [simp]: "lcs [] as = 0" "lcs bs [] = 0"
  by (cases bs; simp)+

lemma lcs_le: "lcs bs as \<le> length bs" "lcs bs as \<le> length as"
  by (induction bs as rule: lcs.induct) auto

lemma lcs_greatest: "subseq xs bs \<Longrightarrow> subseq xs as \<Longrightarrow> length xs \<le> lcs bs as"
proof (induction bs as arbitrary: xs rule: lcs.induct)
  case (1 b bs a as)
  show ?case
  proof (cases xs)
    case (Cons x ys)
    show ?thesis
    proof (cases "b = a")
      case True
      have "subseq ys bs" "subseq ys as"
        using "1.prems" Cons by (auto simp: subseq_Cons2_iff split: if_splits dest: subseq_Cons')
      thus ?thesis using "1.IH"(1)[OF True] True Cons by simp
    next
      case False
      have "subseq xs bs \<or> subseq xs as"
        using "1.prems" Cons False by (auto simp: subseq_Cons2_iff split: if_splits)
      thus ?thesis using "1.IH"(2,3)[OF False, of xs] "1.prems" False by auto
    qed
  qed simp
qed (auto dest: list_emb_Nil2)

lemma lcs_common_start: "lcs (xs @ bs) (xs @ as) = length xs + lcs bs as"
  by (induction xs) auto

lemma subseq_butlast: "subseq xs (bs @ [s]) \<Longrightarrow> subseq (butlast xs) bs"
proof -
  assume "subseq xs (bs @ [s])"
  then obtain u v where x: "xs = u @ v" "subseq u bs" "subseq v [s]" by (auto simp: subseq_append_iff)
  have "length v \<le> 1" using list_emb_length[OF x(3)] by simp
  hence "butlast xs = u \<or> (v = [] \<and> butlast xs = butlast u)"
    using x(1) by (cases v) (auto simp: butlast_append)
  moreover have "subseq (butlast u) u" by (metis append_butlast_last_id butlast.simps(1) list_emb_append2 subseq_order.order_refl subseq_rev_drop_many)
  ultimately show ?thesis using x(2) by (auto intro: subseq_order.order_trans)
qed

lemma common_within:
  "subseq xs (bs @ fin) \<Longrightarrow> subseq xs (as @ fin) \<Longrightarrow> length xs \<le> lcs bs as + length fin"
proof (induction fin arbitrary: xs rule: rev_induct)
  case Nil thus ?case by (simp add: lcs_greatest)
next
  case (snoc s fin)
  have "length (butlast xs) \<le> lcs bs as + length fin"
    using snoc by (intro snoc.IH subseq_butlast[of _ _ s]) simp_all
  thus ?case by simp
qed

lemma common_between:
  "subseq xs (start @ bs @ fin) \<Longrightarrow> subseq xs (start @ as @ fin) \<Longrightarrow> length xs \<le> length start + lcs bs as + length fin"
proof (induction start arbitrary: xs)
  case Nil thus ?case by (simp add: common_within)
next
  case (Cons c start)
  have "subseq (tl xs) (start @ bs @ fin) \<and> subseq (tl xs) (start @ as @ fin)"
    using Cons.prems by (cases xs) (auto simp: subseq_Cons2_iff split: if_splits intro: subseq_Cons')
  from Cons.IH[of "tl xs"] this show ?case by (cases xs) auto
qed

section \<open>The table computes it\<close>

fun lcs_row :: "'k list \<Rightarrow> 'k list \<Rightarrow> nat list" where
  "lcs_row bs [] = [0]"
| "lcs_row bs (a # as) = lcs bs (a # as) # lcs_row bs as"

lemma lcs_row_nth: "j \<le> length as \<Longrightarrow> lcs_row bs as ! j = lcs bs (drop j as)"
  by (induction bs as arbitrary: j rule: lcs_row.induct) (auto simp: nth_Cons' drop_Cons')

lemma lcs_row_hd: "hd (lcs_row bs as) = lcs bs as" "lcs_row bs as \<noteq> []"
  by (cases as; simp)+

lemma of_nat_max16: "x < 65536 \<Longrightarrow> y < 65536 \<Longrightarrow> max (of_nat x :: 16 word) (of_nat y) = of_nat (max x y)"
  by (simp add: max_def word_le_nat_alt unat_of_nat)

lemma share_row_lcs:
  "length bs < 65535 \<or> length as < 65536 \<Longrightarrow> share_row b as (map of_nat (lcs_row bs as)) = map of_nat (lcs_row (b # bs) as)"
proof (induction as)
  case (Cons a as)
  have "lcs bs (a # as) < 65536" "lcs (b # bs) as < 65536"
    using lcs_le[of bs "a # as"] lcs_le[of "b # bs" as] Cons.prems by auto
  moreover have "length bs < 65535 \<or> length as < 65536" using Cons.prems by auto
  ultimately show ?case using Cons.IH by (simp add: Let_def lcs_row_hd hd_map of_nat_max16)
qed simp

lemma share_rows_lcs:
  "length bs < 65536 \<or> length as < 65536 \<Longrightarrow> length (share_rows bs as) = Suc (length bs)
   \<and> (\<forall>i\<le>length bs. share_rows bs as ! i = map of_nat (lcs_row (drop i bs) as))"
proof (induction bs)
  case Nil
  have "replicate (Suc (length as)) (0 :: 16 word) = map of_nat (lcs_row [] as)" by (induction as) simp_all
  thus ?case by simp
next
  case (Cons b bs)
  hence "hd (share_rows bs as) = map of_nat (lcs_row bs as)"
    by (metis Suc_lessD drop_0 hd_conv_nth le0 length_Cons length_greater_0_conv zero_less_Suc)
  moreover have "share_row b as (map of_nat (lcs_row bs as)) = map of_nat (lcs_row (b # bs) as)"
    using Cons.prems by (intro share_row_lcs) auto
  ultimately show ?case using Cons by (auto simp: Let_def nth_Cons' drop_Cons')
qed

lemma share_rows_nth:
  assumes "length bs < 65536 \<or> length as < 65536" "i \<le> length bs" "j \<le> length as"
  shows "share_rows bs as ! i ! j = (of_nat (lcs (drop i bs) (drop j as)) :: 16 word)"
  using assms share_rows_lcs[of bs as] lcs_row_nth[of j as] length_map
proof -
  have "length (lcs_row cs as) = Suc (length as)" for cs :: "'a list" by (induction as) simp_all
  thus ?thesis using assms share_rows_lcs[of bs as] by (simp add: lcs_row_nth)
qed


section \<open>What the walk adds\<close>

definition kept_in :: "(run_kind \<times> 'w) list \<Rightarrow> 'w list" where
  "kept_in ms = map snd (filter (\<lambda>m. fst m = Kept) ms)"

definition revised_in :: "(run_kind \<times> 'w) list \<Rightarrow> 'w list" where
  "revised_in ms = map snd (filter (\<lambda>m. fst m \<noteq> Removed) ms)"

definition original_in :: "(run_kind \<times> 'w) list \<Rightarrow> 'w list" where
  "original_in ms = map snd (filter (\<lambda>m. fst m \<noteq> Added) ms)"

lemma marks_in [simp]:
  "kept_in [] = []" "revised_in [] = []" "original_in [] = []"
  "kept_in (m # ms) = (if fst m = Kept then snd m # kept_in ms else kept_in ms)"
  "revised_in (m # ms) = (if fst m = Removed then revised_in ms else snd m # revised_in ms)"
  "original_in (m # ms) = (if fst m = Added then original_in ms else snd m # original_in ms)"
  "kept_in (as @ bs) = kept_in as @ kept_in bs"
  "revised_in (as @ bs) = revised_in as @ revised_in bs"
  "original_in (as @ bs) = original_in as @ original_in bs"
  "kept_in (map (Pair Kept) ws) = ws" "revised_in (map (Pair Kept) ws) = ws" "original_in (map (Pair Kept) ws) = ws"
  by (simp_all add: kept_in_def revised_in_def original_in_def filter_map o_def)

lemma walk_revised:
  "length ak \<le> length after \<Longrightarrow> j \<le> length ak \<Longrightarrow>
   revised_in (diff_walk shared bk ak before after i j) = take (length ak - j) (drop j after)"
proof (induction shared bk ak before after i j rule: diff_walk.induct)
  case (1 shared bk ak before after i j)
  have take: "j < length ak \<Longrightarrow> take (length ak - j) (drop j after)
      = after ! j # take (length ak - Suc j) (drop (Suc j) after)"
    using "1.prems" by (metis Cons_nth_drop_Suc Suc_diff_Suc less_le_trans take_Suc_Cons)
  show ?case using 1 by (subst diff_walk.simps) (auto simp: take)
qed

lemma walk_original:
  assumes "map f (take (length bk) before) = bk" "map f (take (length ak) after) = ak"
  shows "i \<le> length bk \<Longrightarrow> j \<le> length ak \<Longrightarrow>
    map f (original_in (diff_walk shared bk ak before after i j)) = drop i bk"
  using assms
proof (induction shared bk ak before after i j rule: diff_walk.induct)
  case (1 shared bk ak before after i j)
  have b: "i < length bk \<Longrightarrow> f (before ! i) = bk ! i"
    using "1.prems"(3) by (metis length_map length_take min_less_iff_conj nth_map nth_take)
  have a: "j < length ak \<Longrightarrow> f (after ! j) = ak ! j"
    using "1.prems"(4) by (metis length_map length_take min_less_iff_conj nth_map nth_take)
  have "i < length bk \<Longrightarrow> drop i bk = bk ! i # drop (Suc i) bk" by (simp add: Cons_nth_drop_Suc)
  thus ?case using 1 a b by (subst diff_walk.simps) auto
qed

lemma lcs_drop: "i < length bk \<Longrightarrow> j < length ak \<Longrightarrow> lcs (drop i bk) (drop j ak) =
    (if bk ! i = ak ! j then Suc (lcs (drop (Suc i) bk) (drop (Suc j) ak))
     else max (lcs (drop (Suc i) bk) (drop j ak)) (lcs (drop i bk) (drop (Suc j) ak)))"
  using lcs.simps(1)[of "bk ! i" "drop (Suc i) bk" "ak ! j" "drop (Suc j) ak"] by (simp add: Cons_nth_drop_Suc)

text \<open>The shorter side fits the cells.\<close>

definition fits :: "'k list \<Rightarrow> 'k list \<Rightarrow> bool" where
  "fits bs as \<longleftrightarrow> length bs < 65536 \<or> length as < 65536"

lemma shared_le:
  assumes "fits bk ak" "i < length bk" "j < length ak"
  shows "share_rows bk ak ! i ! Suc j \<le> share_rows bk ak ! Suc i ! j
    \<longleftrightarrow> lcs (drop i bk) (drop (Suc j) ak) \<le> lcs (drop (Suc i) bk) (drop j ak)"
proof -
  have "lcs (drop i bk) (drop (Suc j) ak) < 65536" "lcs (drop (Suc i) bk) (drop j ak) < 65536"
    using assms lcs_le[of "drop i bk" "drop (Suc j) ak"] lcs_le[of "drop (Suc i) bk" "drop j ak"]
    by (auto simp: fits_def)
  thus ?thesis using assms by (simp add: fits_def share_rows_nth word_le_nat_alt unat_of_nat)
qed

lemma walk_kept:
  assumes "fits bk ak" "shared = share_rows bk ak"
  shows "i \<le> length bk \<Longrightarrow> j \<le> length ak \<Longrightarrow>
    length (kept_in (diff_walk shared bk ak before after i j)) = lcs (drop i bk) (drop j ak)"
  using assms
proof (induction shared bk ak before after i j rule: diff_walk.induct)
  case (1 shared bk ak before after i j)
  consider "i < length bk" "j < length ak" | "i = length bk" | "j = length ak"
    using "1.prems" by linarith
  thus ?case
  proof cases
    case 1
    note c = shared_le[OF "1.prems"(3) 1]
    have prem: "Suc i \<le> length bk" "Suc j \<le> length ak" "i \<le> length bk" "j \<le> length ak" "fits bk ak" "shared = share_rows bk ak"
      using "1.prems" 1 by simp_all
    show ?thesis
    proof (cases "bk ! i = ak ! j")
      case True
      thus ?thesis using "1.IH"(1)[OF _ _ prem(1,2,5,6)] 1 by (subst diff_walk.simps) (simp add: lcs_drop)
    next
      case False
      thus ?thesis using "1.IH"(2)[OF _ _ _ prem(1,4,5,6)] "1.IH"(3)[OF _ _ _ prem(3,2,5,6)] 1 c prem(6)
        by (cases "lcs (drop i bk) (drop (Suc j) ak) \<le> lcs (drop (Suc i) bk) (drop j ak)"; subst diff_walk.simps; simp add: lcs_drop)
    qed
  next
    case 2
    thus ?thesis using "1.IH"(3) "1.prems" by (subst diff_walk.simps) simp
  next
    case 3
    thus ?thesis using "1.IH"(2) "1.prems" by (cases "i < length bk"; subst diff_walk.simps) simp_all
  qed
qed

section \<open>The comparison as a whole\<close>

lemma shared_start_le: "shared_start bs as \<le> length bs" "shared_start bs as \<le> length as"
  by (induction bs as rule: shared_start.induct) auto

lemma shared_start_same: "take (shared_start bs as) bs = take (shared_start bs as) as"
  by (induction bs as rule: shared_start.induct) auto

text \<open>Both texts' words, cut into what they share at the start, the stretch between and the shared end.\<close>

lemma cut_apart:
  fixes bk ak :: "'k list"
  defines "start \<equiv> shared_start bk ak"
  defines "fin \<equiv> shared_start (rev (drop start bk)) (rev (drop start ak))"
  shows "start + fin \<le> length bk" "start + fin \<le> length ak"
    "bk = take start ak @ take (length bk - start - fin) (drop start bk) @ drop (length ak - fin) ak"
    "ak = take start ak @ take (length ak - start - fin) (drop start ak) @ drop (length ak - fin) ak"
proof -
  have le: "start \<le> length bk" "start \<le> length ak" by (simp_all add: start_def shared_start_le)
  have f: "fin \<le> length bk - start" "fin \<le> length ak - start"
    using shared_start_le[of "rev (drop start bk)" "rev (drop start ak)"] by (simp_all add: fin_def)
  show ge: "start + fin \<le> length bk" "start + fin \<le> length ak" using le f by simp_all
  have "take start bk = take start ak" by (simp add: start_def shared_start_same)
  moreover have "drop (length bk - fin) bk = drop (length ak - fin) ak"
  proof -
    have "rev (take fin (rev (drop start bk))) = rev (take fin (rev (drop start ak)))"
      by (simp add: fin_def shared_start_same)
    thus ?thesis using ge by (simp add: rev_take)
  qed
  moreover have "xs = take start xs @ take (length xs - start - fin) (drop start xs) @ drop (length xs - fin) xs"
    if "start + fin \<le> length xs" for xs :: "'k list"
  proof -
    have "drop (length xs - fin) xs = drop (length xs - start - fin) (drop start xs)" using that by simp
    thus ?thesis by (metis append_take_drop_id)
  qed
  ultimately show
    "bk = take start ak @ take (length bk - start - fin) (drop start bk) @ drop (length ak - fin) ak"
    "ak = take start ak @ take (length ak - start - fin) (drop start ak) @ drop (length ak - fin) ak"
    using ge by metis+
qed


lemma diff_marks_parts:
  fixes h before after
  defines "bk \<equiv> comparable_words h before" and "ak \<equiv> comparable_words h after"
  assumes d: "diff_marks h before after = Some ms"
  obtains start fin bm am where
    "ms = map (Pair Kept) (take start after)
       @ diff_walk (share_rows bm am) bm am (drop start before) (drop start after) 0 0
       @ map (Pair Kept) (drop (length after - fin) after)"
    "bk = take start ak @ bm @ drop (length ak - fin) ak"
    "ak = take start ak @ am @ drop (length ak - fin) ak"
    "am = comparable_words h (take (length am) (drop start after))"
    "bm = comparable_words h (take (length bm) (drop start before))"
    "length after = start + length am + fin" "fits bm am"
proof -
  define start where "start = shared_start bk ak"
  define fin where "fin = shared_start (rev (drop start bk)) (rev (drop start ak))"
  define bm am where "bm = take (length bk - start - fin) (drop start bk)"
    and "am = take (length ak - start - fin) (drop start ak)"
  have l: "length bk = length before" "length ak = length after"
    by (simp_all add: bk_def ak_def comparable_words_def)
  note c = cut_apart[where bk = bk and ak = ak, folded start_def, folded fin_def]
  have len: "length bm = length bk - start - fin" "length am = length ak - start - fin"
    using c(1,2) by (simp_all add: bm_def am_def)
  have "\<not> (length bm + 1) * (length am + 1) > k_max_diff_cells"
    using d by (auto simp: diff_marks_def Let_def bk_def[symmetric] ak_def[symmetric] start_def[symmetric]
      fin_def[symmetric] len l split: if_splits)
  moreover have "65537 * 65537 \<le> (length bm + 1) * (length am + 1)" if "\<not> fits bm am"
    using that by (intro mult_le_mono) (auto simp: fits_def)
  ultimately have "fits bm am" by (auto simp: k_max_diff_cells_def)
  moreover have "ms = map (Pair Kept) (take start after)
       @ diff_walk (share_rows bm am) bm am (drop start before) (drop start after) 0 0
       @ map (Pair Kept) (drop (length after - fin) after)"
    using d by (auto simp: diff_marks_def Let_def bk_def[symmetric] ak_def[symmetric] start_def[symmetric]
      fin_def[symmetric] bm_def am_def l split: if_splits)
  moreover have "bm = comparable_words h (take (length bm) (drop start before))"
    "am = comparable_words h (take (length am) (drop start after))"
    unfolding len by (simp_all add: bm_def am_def bk_def ak_def comparable_words_def take_map drop_map)
  moreover have "length after = start + length am + fin" using c(2) len(2) l(2) by simp
  moreover note c(3,4)[folded bm_def am_def]
  ultimately show thesis by - (rule that; assumption)
qed

lemma marks_revised: "diff_marks h before after = Some ms \<Longrightarrow> revised_in ms = after"
proof (erule diff_marks_parts)
  fix start fin bm am
  assume ms: "ms = map (Pair Kept) (take start after)
       @ diff_walk (share_rows bm am) bm am (drop start before) (drop start after) 0 0
       @ map (Pair Kept) (drop (length after - fin) after)"
    and l: "length after = start + length am + fin"
  have "revised_in ms = take start after @ take (length am) (drop start after) @ drop (start + length am) after"
    using ms l by (simp add: walk_revised)
  thus "revised_in ms = after" by (metis append_take_drop_id drop_drop add.commute)
qed

lemma marks_original:
  "diff_marks h before after = Some ms \<Longrightarrow> comparable_words h (original_in ms) = comparable_words h before"
proof (erule diff_marks_parts)
  fix start fin bm am
  assume a: "ms = map (Pair Kept) (take start after)
       @ diff_walk (share_rows bm am) bm am (drop start before) (drop start after) 0 0
       @ map (Pair Kept) (drop (length after - fin) after)"
    "comparable_words h before = take start (comparable_words h after) @ bm
       @ drop (length (comparable_words h after) - fin) (comparable_words h after)"
    "am = comparable_words h (take (length am) (drop start after))"
    "bm = comparable_words h (take (length bm) (drop start before))"
  have "map (trimmed (sh_chars h))
      (original_in (diff_walk (share_rows bm am) bm am (drop start before) (drop start after) 0 0)) = drop 0 bm"
    using a(3,4) by (intro walk_original) (simp_all add: comparable_words_def)
  thus "comparable_words h (original_in ms) = comparable_words h before"
    unfolding a(2) using a(1) by (simp add: comparable_words_def take_map drop_map)
qed

lemma marks_longest:
  "diff_marks h before after = Some ms \<Longrightarrow> subseq xs (comparable_words h before) \<Longrightarrow>
   subseq xs (comparable_words h after) \<Longrightarrow> length xs \<le> length (kept_in ms)"
proof (erule diff_marks_parts)
  fix start fin bm am
  let ?ak = "comparable_words h after"
  assume a: "ms = map (Pair Kept) (take start after)
       @ diff_walk (share_rows bm am) bm am (drop start before) (drop start after) 0 0
       @ map (Pair Kept) (drop (length after - fin) after)"
    "comparable_words h before = take start ?ak @ bm @ drop (length ?ak - fin) ?ak"
    "?ak = take start ?ak @ am @ drop (length ?ak - fin) ?ak"
    "length after = start + length am + fin" "fits bm am"
    and xs: "subseq xs (comparable_words h before)" "subseq xs ?ak"
  have "length xs \<le> length (take start ?ak) + lcs bm am + length (drop (length ?ak - fin) ?ak)"
    using xs a(2,3) by (metis common_between)
  also have "\<dots> = length (kept_in ms)"
    using a(1,4,5) by (simp add: walk_kept comparable_words_def)
  finally show "length xs \<le> length (kept_in ms)" .
qed

lemma marks_common:
  assumes "diff_marks h before after = Some ms"
  shows "subseq (comparable_words h (kept_in ms)) (comparable_words h before)"
    "subseq (comparable_words h (kept_in ms)) (comparable_words h after)"
proof -
  have "subseq (kept_in ms) (original_in ms)" "subseq (kept_in ms) (revised_in ms)"
    by (induction ms) auto
  hence "subseq (comparable_words h (kept_in ms)) (comparable_words h (original_in ms))"
    "subseq (comparable_words h (kept_in ms)) (comparable_words h (revised_in ms))"
    by (simp_all add: comparable_words_def subseq_map)
  thus "subseq (comparable_words h (kept_in ms)) (comparable_words h before)"
    "subseq (comparable_words h (kept_in ms)) (comparable_words h after)"
    using assms by (simp_all add: marks_original marks_revised)
qed


section \<open>The text of the runs\<close>

definition run_text :: "edit_run \<Rightarrow> qstring" where
  "run_text r = er_text r @ er_trailing r"

definition shown :: "(run_kind \<Rightarrow> bool) \<Rightarrow> edit_run list \<Rightarrow> qstring" where
  "shown P runs = concat (map run_text (filter (\<lambda>r. P (er_kind r)) runs))"

definition inked :: "qchars \<Rightarrow> qstring \<Rightarrow> qstring" where
  "inked q s = filter (\<lambda>c. \<not> is_space q c) s"

lemma shown_simps [simp]:
  "shown P [] = []" "shown P (r # rs) = (if P (er_kind r) then run_text r @ shown P rs else shown P rs)"
  "shown P (as @ bs) = shown P as @ shown P bs"
  by (simp_all add: shown_def)

lemma inked_simps [simp]: "inked q [] = []" "inked q (a @ b) = inked q a @ inked q b"
  by (simp_all add: inked_def)

lemma inked_blank: "list_all (is_space q) s \<Longrightarrow> inked q s = []"
  by (simp add: inked_def list_all_iff)

lemma inked_trimmed: "inked q (trimmed q s) = inked q s"
proof -
  have "inked q (rev s) = rev (inked q s)" for s by (simp add: inked_def rev_filter)
  moreover have "inked q (dropWhile (is_space q) s) = inked q s" for s by (induction s) (simp_all add: inked_def)
  ultimately show ?thesis by (metis trimmed_def rev_rev_ident)
qed

lemma inked_concat: "map (trimmed q) xs = map (trimmed q) ys \<Longrightarrow> inked q (concat xs) = inked q (concat ys)"
proof (induction xs arbitrary: ys)
  case (Cons x xs)
  then obtain y ys' where "ys = y # ys'" "trimmed q x = trimmed q y" "map (trimmed q) xs = map (trimmed q) ys'" by auto
  thus ?case using Cons.IH by (metis concat.simps(2) inked_simps(2) inked_trimmed)
qed simp

definition plain_runs :: "edit_run list \<Rightarrow> bool" where
  "plain_runs rs \<longleftrightarrow> list_all (\<lambda>r. er_trailing r = []) rs"

lemma plain_runs_simps [simp]:
  "plain_runs []" "plain_runs (r # rs) \<longleftrightarrow> er_trailing r = [] \<and> plain_runs rs"
  "plain_runs (as @ bs) \<longleftrightarrow> plain_runs as \<and> plain_runs bs"
  by (simp_all add: plain_runs_def)

lemma split_last: "rs \<noteq> [] \<Longrightarrow> (\<And>as r. rs = as @ [r] \<Longrightarrow> Q) \<Longrightarrow> Q"
  by (metis append_butlast_last_id)

lemma add_run_shown:
  "plain_runs rs \<Longrightarrow> plain_runs (add_run m rs)
   \<and> shown P (add_run m rs) = shown P rs @ (if P (fst m) then snd m else [])"
  by (cases m; cases "rs = []") (auto elim!: split_last simp: run_of_def run_text_def)

lemma gathered_shown:
  "plain_runs rs \<Longrightarrow> plain_runs (fold add_run ms rs)
   \<and> shown P (fold add_run ms rs) = shown P rs @ concat (map snd (filter (\<lambda>m. P (fst m)) ms))"
  by (induction ms arbitrary: rs) (simp_all add: add_run_shown del: add_run.simps)

lemma closing_spaces:
  "list_all (is_space q) (closing_spaces q s)" "take (length s - length (closing_spaces q s)) s @ closing_spaces q s = s"
proof -
  show "list_all (is_space q) (closing_spaces q s)"
    by (auto simp: closing_spaces_def list_all_iff dest: set_takeWhileD)
  have "rev (dropWhile (is_space q) (rev s)) @ closing_spaces q s = s"
    unfolding closing_spaces_def by (metis rev_append rev_rev_ident takeWhile_dropWhile_id)
  thus "take (length s - length (closing_spaces q s)) s @ closing_spaces q s = s"
    by (metis append_eq_conv_conj append_take_drop_id length_append add_diff_cancel_right' length_rev)
qed

lemma separated_run_shown:
  assumes "is_space (sh_chars h) CHR '' ''" "er_trailing r = []"
  shows "inked (sh_chars h) (run_text (separated_run h r rest)) = inked (sh_chars h) (run_text r)"
    "er_kind (separated_run h r rest) = er_kind r"
proof -
  let ?q = "sh_chars h" and ?t = "er_text r"
  let ?u = "take (length ?t - length (closing_spaces ?q ?t)) ?t"
  have "inked ?q ?t = inked ?q ?u @ inked ?q (closing_spaces ?q ?t)"
    by (metis closing_spaces(2) inked_simps(2))
  moreover have "inked ?q (closing_spaces ?q ?t) = []" "inked ?q '' '' = []"
    using assms(1) by (simp_all add: inked_blank closing_spaces(1))
  ultimately show "inked ?q (run_text (separated_run h r rest)) = inked ?q (run_text r)"
    using assms(2) by (simp add: separated_run_def run_text_def Let_def)
  show "er_kind (separated_run h r rest) = er_kind r" by (simp add: separated_run_def Let_def)
qed

lemma spaced_before_shown:
  "is_space (sh_chars h) CHR '' '' \<Longrightarrow>
   inked (sh_chars h) (shown P (spaced_before h r rs)) = inked (sh_chars h) (shown P rs)"
  by (cases "rs = []") (auto elim!: split_last simp: spaced_before_def run_text_def inked_def)

lemma separate_from_shown:
  "is_space (sh_chars h) CHR '' '' \<Longrightarrow> plain_runs rs \<Longrightarrow>
   inked (sh_chars h) (shown P (separate_from h earlier rs)) = inked (sh_chars h) (shown P (earlier @ rs))"
  by (induction h earlier rs rule: separate_from.induct)
    (auto simp: spaced_before_shown separated_run_shown)

section \<open>The text of the words\<close>

text \<open>What QTextBoundaryFinder documents: its boundaries ascend and the last one is the end of the text.\<close>

definition cuts_all :: "shape \<Rightarrow> qstring \<Rightarrow> bool" where
  "cuts_all h s \<longleftrightarrow> sorted (sh_boundaries h s) \<and> last (0 # sh_boundaries h s) = length s"

lemma gather_words_text:
  "sorted (start # es) \<Longrightarrow> ws = [] \<or> leading = [] \<Longrightarrow>
   concat (gather_words q s start es ws leading)
   = concat ws @ leading @ take (last (start # es) - start) (drop start s)"
proof (induction q s start es ws leading rule: gather_words.induct)
  case (2 q s start e es ws leading)
  have "take (last (e # es) - start) (drop start s)
      = take (e - start) (drop start s) @ take (last (e # es) - e) (drop e s)"
  proof -
    have "e \<le> last (e # es)" "start \<le> e"
      using "2.prems"(1) by (auto simp: last_ConsR dest: last_in_set)
    hence "last (e # es) - start = (e - start) + (last (e # es) - e)" "e - start + start = e" by simp_all
    thus ?thesis by (simp only: take_add drop_drop)
  qed
  moreover have "ws \<noteq> [] \<Longrightarrow> concat ws = concat (butlast ws) @ last ws"
    by (metis append_butlast_last_id concat_append concat.simps append_Nil2)
  ultimately show ?case using 2 by (auto simp: Let_def)
qed auto

lemma edit_words_text: "cuts_all h s \<Longrightarrow> concat (edit_words h s) = s"
  unfolding edit_words_def cuts_all_def by (subst gather_words_text) auto

text \<open>Texts whose whole table fits are always compared.\<close>

lemma short_texts_compared:
  assumes "(length before + 1) * (length after + 1) \<le> k_max_diff_cells"
  shows "\<exists>ms. diff_marks h before after = Some ms"
proof -
  have "\<not> (length before - x - y + 1) * (length after - x - y + 1) > k_max_diff_cells" for x y
    unfolding not_less by (rule order_trans[OF _ assms]) (intro mult_le_mono; simp)
  thus ?thesis unfolding diff_marks_def Let_def by (simp only: if_False option.inject simp_thms)
qed

section \<open>Properties\<close>

text \<open>
  C26. The comparison of two texts keeps as many words as they share in order, and
  neither the table's 16 bits nor the words set aside at both ends cost any: the
  words kept are a common subsequence of both (compared without the spaces
  around them), no common subsequence is longer, and the runs hold every word of
  the revised text, in order, kept or added, and every word of the original,
  kept or removed.
\<close>

theorem diff_keeps_the_most:
  assumes "diff_marks h before after = Some ms"
  shows "revised_in ms = after \<and> comparable_words h (original_in ms) = comparable_words h before
    \<and> subseq (comparable_words h (kept_in ms)) (comparable_words h before)
    \<and> subseq (comparable_words h (kept_in ms)) (comparable_words h after)
    \<and> \<not> (\<exists>xs. subseq xs (comparable_words h before) \<and> subseq xs (comparable_words h after)
           \<and> length (kept_in ms) < length xs)"
proof (intro conjI)
  show "revised_in ms = after" "comparable_words h (original_in ms) = comparable_words h before"
    "subseq (comparable_words h (kept_in ms)) (comparable_words h before)"
    "subseq (comparable_words h (kept_in ms)) (comparable_words h after)"
    by (rule marks_revised[OF assms] marks_original[OF assms] marks_common[OF assms])+
  show "\<not> (\<exists>xs. subseq xs (comparable_words h before) \<and> subseq xs (comparable_words h after)
           \<and> length (kept_in ms) < length xs)"
    using marks_longest[OF assms] by (meson leD)
qed

definition plain_shape :: shape where
  "plain_shape = \<lparr>sh_chars = ascii, sh_boundaries = (\<lambda>s. [length s]), sh_script = (\<lambda>_. OtherScript),
     sh_glyphs = ascii_glyphs\<rparr>"

lemma diff_keeps_the_most_witness:
  "\<not> (\<exists>xs. subseq xs (comparable_words plain_shape [''the '', ''old '', ''cat''])
      \<and> subseq xs (comparable_words plain_shape [''the '', ''cat ''])
      \<and> length (kept_in (the (diff_marks plain_shape [''the '', ''old '', ''cat''] [''the '', ''cat '']))) < length xs)"
proof -
  have "\<exists>ms. diff_marks plain_shape [''the '', ''old '', ''cat''] [''the '', ''cat ''] = Some ms"
    by (rule short_texts_compared) (simp add: k_max_diff_cells_def)
  thus ?thesis using diff_keeps_the_most[of plain_shape "[''the '', ''old '', ''cat'']" "[''the '', ''cat '']"] by fastforce
qed

text \<open>Runs without a change are all kept ones.\<close>

lemma no_change_from: "p = None \<or> p = Some Kept \<Longrightarrow> change_count_from p rs = 0 \<Longrightarrow> list_all (\<lambda>r. er_kind r = Kept) rs"
  by (induction p rs rule: change_count_from.induct) (auto split: if_splits)

lemma all_kept_shown:
  "list_all (\<lambda>r. er_kind r = Kept) rs \<Longrightarrow> P Kept \<Longrightarrow> Q Kept \<Longrightarrow> shown P rs = shown Q rs"
  by (induction rs) (auto simp: shown_def)

lemma other_summaries: "changes_summary n \<noteq> ''Rewritten''"
proof
  assume "changes_summary n = ''Rewritten''"
  hence "last (changes_summary n) = CHR ''n''" by simp
  thus False by (simp add: changes_summary_def split: if_splits)
qed

text \<open>An edit the review shows as a whole: too long to compare, or keeping fewer than half of the words.\<close>

definition too_different :: "shape \<Rightarrow> qstring \<Rightarrow> qstring \<Rightarrow> bool" where
  "too_different h original revised =
     (case diff h (edit_words h original) (edit_words h revised) of None \<Rightarrow> True
      | Some runs \<Rightarrow> change_count runs \<noteq> 0
          \<and> 2 * kept_words h runs < max (count_proper h (edit_words h original)) (count_proper h (edit_words h revised)))"

lemma review_runs:
  assumes "\<not> too_different h original revised"
  obtains ms where "diff_marks h (edit_words h original) (edit_words h revised) = Some ms"
    "rv_runs (selection_edit_review_of h original revised instructions keys)
     = (if change_count (fold add_run ms []) = 0 then [run_of Kept revised] else separate_marks h (fold add_run ms []))"
proof -
  let ?b = "edit_words h original" and ?a = "edit_words h revised"
  obtain ms where ms: "diff_marks h ?b ?a = Some ms"
    using assms by (cases "diff_marks h ?b ?a") (simp_all add: too_different_def diff_def)
  hence d: "diff h ?b ?a = Some (fold add_run ms [])" by (simp add: diff_def)
  have "rv_runs (selection_edit_review_of h original revised instructions keys)
     = (if change_count (fold add_run ms []) = 0 then [run_of Kept revised] else separate_marks h (fold add_run ms []))"
    using assms by (auto simp: too_different_def selection_edit_review_of_def d Let_def)
  thus thesis by (rule that[OF ms])
qed

lemma review_summary:
  "rv_summary (selection_edit_review_of h original revised instructions keys) = ''Rewritten''
   \<longleftrightarrow> too_different h original revised"
  by (auto simp: too_different_def selection_edit_review_of_def other_summaries Let_def split: option.split)

lemma review_of_too_different:
  "too_different h original revised \<Longrightarrow>
   rv_runs (selection_edit_review_of h original revised instructions keys) = [run_of Kept revised]"
  by (auto simp: too_different_def selection_edit_review_of_def Let_def split: option.splits)

text \<open>
  C27. The runs of a review but the removed ones are the revised selection, up to white space. The runs but the
  added ones are the original selection, up to white space, unless the edit is too different: too long to
  compare, or changed so that the words kept are fewer than half of those of the longer text. Then, and only
  then, the review says "Rewritten" and shows just the revised selection. The boundaries Qt finds ascend and
  end with the text, and the space is white space.
\<close>

theorem review_shows_the_edit:
  fixes h original revised instructions keys
  defines "r \<equiv> selection_edit_review_of h original revised instructions keys"
  assumes space: "is_space (sh_chars h) CHR '' ''" and cuts: "cuts_all h original" "cuts_all h revised"
  shows "inked (sh_chars h) (shown (\<lambda>k. k \<noteq> Removed) (rv_runs r)) = inked (sh_chars h) revised
    \<and> (if too_different h original revised then rv_summary r = ''Rewritten'' \<and> rv_runs r = [run_of Kept revised]
       else rv_summary r \<noteq> ''Rewritten''
         \<and> inked (sh_chars h) (shown (\<lambda>k. k \<noteq> Added) (rv_runs r)) = inked (sh_chars h) original)"
proof (cases "too_different h original revised")
  case True
  thus ?thesis using review_of_too_different[OF True] review_summary by (simp add: r_def run_of_def run_text_def)
next
  case False
  let ?q = "sh_chars h" and ?b = "edit_words h original"
  obtain ms where ms: "diff_marks h ?b (edit_words h revised) = Some ms"
      "rv_runs r = (if change_count (fold add_run ms []) = 0 then [run_of Kept revised]
                    else separate_marks h (fold add_run ms []))"
    using review_runs[OF False] unfolding r_def by blast
  have gathered: "shown P (fold add_run ms []) = concat (map snd (filter (\<lambda>m. P (fst m)) ms))" for P
    using gathered_shown[of "[]" ms P] by simp
  have separated: "inked ?q (shown P (separate_marks h (fold add_run ms [])))
      = inked ?q (concat (map snd (filter (\<lambda>m. P (fst m)) ms)))" for P
    using gathered_shown[of "[]" ms P] space by (simp add: separate_marks_def separate_from_shown)
  have revised: "concat (revised_in ms) = revised" by (simp add: marks_revised[OF ms(1)] edit_words_text cuts)
  have original: "inked ?q (concat (original_in ms)) = inked ?q original"
    using inked_concat[of ?q "original_in ms" ?b] marks_original[OF ms(1)]
    by (simp add: comparable_words_def edit_words_text cuts)
  have same: "inked ?q revised = inked ?q original" if "change_count (fold add_run ms []) = 0"
  proof -
    have "list_all (\<lambda>r. er_kind r = Kept) (fold add_run ms [])"
      using no_change_from[of None] that by (simp add: change_count_def)
    hence "concat (original_in ms) = concat (revised_in ms)"
      using all_kept_shown[of "fold add_run ms []" "\<lambda>k. k \<noteq> Added" "\<lambda>k. k \<noteq> Removed"]
      unfolding gathered by (simp add: revised_in_def original_in_def)
    thus ?thesis using revised original by simp
  qed
  show ?thesis
    using False review_summary[of h original revised] ms(2) separated revised original same
    by (auto simp: r_def revised_in_def original_in_def run_of_def run_text_def)
qed

definition spaced_shape :: shape where
  "spaced_shape = \<lparr>sh_chars = ascii,
     sh_boundaries = (\<lambda>s. filter (\<lambda>i. i = length s \<or> s ! (i - 1) = CHR '' '') [1..<Suc (length s)]),
     sh_script = (\<lambda>_. OtherScript), sh_glyphs = ascii_glyphs\<rparr>"

lemma spaced_words:
  "edit_words spaced_shape ''the old cat'' = [''the '', ''old '', ''cat'']"
  "edit_words spaced_shape ''the cat'' = [''the '', ''cat'']"
  by code_simp+

lemma spaced_runs:
  "diff spaced_shape [''the '', ''old '', ''cat''] [''the '', ''cat'']
     = Some [run_of Kept ''the '', run_of Removed ''old '', run_of Kept ''cat'']"
  by (simp add: diff_def diff_marks_def comparable_words_def spaced_shape_def trimmed_def ascii_space_def Let_def
    diff_walk.simps k_max_diff_cells_def run_of_def)

lemma spaced_counts:
  "edit_words spaced_shape ''the '' = [''the '']" "edit_words spaced_shape ''old'' = [''old'']"
  "edit_words spaced_shape ''cat'' = [''cat'']"
  "count_proper spaced_shape [''the '', ''old '', ''cat''] = 3" "count_proper spaced_shape [''the '', ''cat''] = 2"
  "count_proper spaced_shape [''the ''] = 1" "count_proper spaced_shape [''old''] = 1"
  "count_proper spaced_shape [''cat''] = 1"
  by (simp_all add: edit_words_def count_proper_def spaced_shape_def upt_conv_Cons blank_iff ascii_alnum_def
    ascii_space_def Let_def)

lemma spaced_separate:
  "separate_marks spaced_shape [run_of Kept ''the '', run_of Removed ''old '', run_of Kept ''cat'']
   = [run_of Kept ''the '', (run_of Removed ''old '')\<lparr>er_text := ''old'', er_trailing := '' ''\<rparr>, run_of Kept ''cat'']"
  by (simp add: separate_marks_def spaced_before_def separated_run_def closing_spaces_def spaced_shape_def run_of_def
    ascii_space_def ascii_alnum_def written_with_spaces_def written_without_spaces_def Let_def)

lemma spaced_review:
  "selection_edit_review_of spaced_shape ''the old cat'' ''the cat'' [] keys
   = \<lparr>rv_instruction = [], rv_runs = [run_of Kept ''the '', (run_of Removed ''old '')\<lparr>er_text := ''old'', er_trailing := '' ''\<rparr>,
        run_of Kept ''cat''], rv_folded = [], rv_summary = ''1 change'', rv_keys = keys, rv_following = False\<rparr>"
  unfolding selection_edit_review_of_def Let_def spaced_words spaced_runs
  by (simp add: spaced_counts spaced_separate change_count_def kept_words_def fold_runs_def said_instructions_def
    changes_summary_def k_fold_above_words_def k_shown_instructions_def run_of_def Let_def
    spaced_separate[unfolded run_of_def])

definition no_keys :: review_keys where
  "no_keys = \<lparr>rk_keep = [], rk_replace = [], rk_follow_up = []\<rparr>"

lemma review_shows_the_edit_witness:
  "rv_runs (selection_edit_review_of spaced_shape ''the old cat'' ''the cat'' [] no_keys)
     = [run_of Kept ''the '', (run_of Removed ''old '')\<lparr>er_text := ''old'', er_trailing := '' ''\<rparr>, run_of Kept ''cat'']
   \<and> inked ascii (shown (\<lambda>k. k \<noteq> Added) (rv_runs (selection_edit_review_of spaced_shape ''the old cat'' ''the cat'' [] no_keys)))
     = inked ascii ''the old cat''"
proof -
  have cuts: "cuts_all spaced_shape ''the old cat''" "cuts_all spaced_shape ''the cat''"
    by (simp_all add: cuts_all_def spaced_shape_def upt_conv_Cons)
  have near: "\<not> too_different spaced_shape ''the old cat'' ''the cat''"
    unfolding review_summary[symmetric, of _ _ _ "[]" no_keys] spaced_review by simp
  have "sh_chars spaced_shape = ascii" by (simp add: spaced_shape_def)
  thus ?thesis
    using review_shows_the_edit[OF _ cuts, of "[]" no_keys] near by (simp add: spaced_review ascii_space_def)
qed

end
