(* ===== verification/Edit_Review.thy ===== *)
theory Edit_Review
  imports Pipeline Selection_Edit
begin

text \<open>
  dictation/EditReview.cpp: the selection edit a Dictation Session holds for
  review, and whether a follow-up instruction for it is being dictated.
\<close>

record revision =
  rvn_edit :: qstring
  rvn_instructions :: "qstring list"
  rvn_target :: target
  rvn_settings :: session_settings
  rvn_choices :: run_choices
  rvn_pipeline :: pipeline
  rvn_warning :: qstring
  rvn_history :: provider_history
  rvn_words :: int
  rvn_listening_ms :: int

record edit_review =
  ew_revision :: "revision option"
  ew_following :: bool
  ew_keys :: review_keys

definition no_review :: edit_review where
  "no_review = \<lparr>ew_revision = None, ew_following = False, ew_keys = \<lparr>rk_keep = [], rk_replace = [], rk_follow_up = []\<rparr>\<rparr>"

fun merged_ids :: "qstring list \<Rightarrow> qstring list \<Rightarrow> qstring list" where
  "merged_ids earlier [] = earlier"
| "merged_ids earlier (i # is) = merged_ids (if i \<in> set earlier then earlier else earlier @ [i]) is"

definition review_is_up :: "edit_review \<Rightarrow> bool" where
  "review_is_up w \<longleftrightarrow> ew_revision w \<noteq> None"

definition review_revise :: "revision \<Rightarrow> edit_review \<Rightarrow> edit_review" where
  "review_revise r w =
     (let r = (case (ew_following w, ew_revision w) of
          (True, Some b) \<Rightarrow> r\<lparr>rvn_instructions := rvn_instructions b @ rvn_instructions r,
             rvn_words := rvn_words r + rvn_words b,
             rvn_listening_ms := rvn_listening_ms r + rvn_listening_ms b,
             rvn_history := (rvn_history r)\<lparr>
               ph_speech_ran := merged_ids (ph_speech_ran (rvn_history b)) (ph_speech_ran (rvn_history r)),
               ph_refinement_ran := merged_ids (ph_refinement_ran (rvn_history b)) (ph_refinement_ran (rvn_history r))\<rparr>\<rparr>
        | _ \<Rightarrow> r)
      in w\<lparr>ew_following := False, ew_revision := Some r\<rparr>)"

definition review_start_follow_up :: "edit_review \<Rightarrow> edit_review" where
  "review_start_follow_up w = w\<lparr>ew_following := True\<rparr>"

definition review_end_follow_up :: "edit_review \<Rightarrow> edit_review" where
  "review_end_follow_up w = w\<lparr>ew_following := False\<rparr>"

definition review_end :: "edit_review \<Rightarrow> edit_review" where
  "review_end w = w\<lparr>ew_following := False, ew_revision := None\<rparr>"

definition review_set_keys :: "review_keys \<Rightarrow> edit_review \<Rightarrow> bool \<times> edit_review" where
  "review_set_keys keys w = (ew_keys w \<noteq> keys, w\<lparr>ew_keys := keys\<rparr>)"

text \<open>presentation() reads the revision, which is undefined while none is up.\<close>

definition review_presentation :: "shape \<Rightarrow> edit_review \<Rightarrow> selection_edit_review option" where
  "review_presentation h w = (case ew_revision w of
     None \<Rightarrow> None
   | Some r \<Rightarrow> Some ((selection_edit_review_of h (tg_selected_text (rvn_target r)) (rvn_edit r)
       (rvn_instructions r) (ew_keys w))\<lparr>rv_following := ew_following w\<rparr>))"

lemma merged_ids_set: "set (merged_ids as bs) = set as \<union> set bs"
  by (induction as bs rule: merged_ids.induct) auto

lemma merged_ids_distinct: "distinct as \<Longrightarrow> distinct (merged_ids as bs)"
  by (induction as bs rule: merged_ids.induct) auto

lemma merged_ids_prefix: "\<exists>rest. merged_ids as bs = as @ rest"
  by (induction as bs rule: merged_ids.induct) auto

end
