(* ===== verification/Dictation_Session.thy ===== *)
theory Dictation_Session
  imports Dictation_Speech Refinement_Chain Edit_Review
begin

text \<open>
  dictation/DictationSession.cpp: a Dictation Session, from the toggle that starts
  it until its words are delivered, through its speech, its refinement and the
  review of a selection edit.

  The members of DictationSession extend those of its speech and its transcript;
  the refinement chain is the field \<open>se_chain\<close>. Every call the session makes to
  what surrounds it, signals included, is a \<open>session_call\<close>, carried out by the
  environment's \<open>sn_call\<close> on the whole state, so whatever it leads to may call the
  session again; the code after a call goes on from the state that left. What
  the surroundings call is a \<open>session_input\<close>. A reading of an unset optional, or
  a call through a null pointer, is None.
\<close>

section \<open>What a session calls\<close>

datatype microphone = MicOff | MicStarting | MicOn | MicPausing | MicStopping

datatype focus_match = FocusSame | FocusTitleChanged | FocusDifferent

text \<open>What a session asked of the platform, with what the answer's callback keeps.\<close>

datatype target_question = AskStart nat nat | AskFocus nat | AskSelection nat

record dictation_record =
  rec_audio_ms :: int
  rec_words :: int
  rec_app_name :: qstring
  rec_profile :: qstring
  rec_profile_name :: qstring
  rec_speech_providers :: "qstring list"
  rec_refinement_providers :: "qstring list"

datatype session_call =
    StateChanged dictation_state
  | StatusChanged qstring
  | PreviewChanged qstring
  | PreviewDisplayChanged qstring
  | TranscriptDelivered qstring
  | DictationRecorded dictation_record
  | AudioLevelChanged rat
  | PopupShow nat
  | PopupHide
  | PopupRefinementPreview qstring
  | PopupSignInRenewal
  | PopupMessage qstring popup_outcome popup_error_action
  | PopupError qstring popup_error_action
  | PopupReview selection_edit_review
  | SignInObserved qstring bool
  | MicrophoneChanged bool
  | ListeningChanged bool
  | PaintTimer nat
  | HideTimer int nat
  | AudioStart
  | AudioStop
  | AudioAbort
  | AudioClearPreRoll
  | MediaPause
  | MediaResume
  | CaptureTarget target_question
  | MatchFocus target target_question
  | ScreenshotCapture
  | ScreenshotCancel
  | RefinerRefine nat qstring "qstring list" refinement_context refinement_settings refinement_choices account_settings
  | RefinerCancel nat
  | RecordVocabularyUsage qstring
  | Deliver output_settings delivery_content target
  | SpeechStart app_settings "nat option"
  | SpeechProceed
  | SpeechCancel
  | SpeechHear pcm

section \<open>State and environment\<close>

record awaited_delivery =
  ad_step :: nat
  ad_text :: qstring
  ad_note :: qstring
  ad_words :: int
  ad_app_name :: qstring
  ad_profile :: qstring
  ad_profile_name :: qstring
  ad_completion_ms :: int

definition no_delivery :: awaited_delivery where
  "no_delivery = \<lparr>ad_step = 0, ad_text = [], ad_note = [], ad_words = 0, ad_app_name = [], ad_profile = [],
     ad_profile_name = [], ad_completion_ms = 0\<rparr>"

text \<open>
  \<open>se_saved\<close> is what the settings store holds, \<open>se_chain_saved\<close> the members of the
  AppSettings given to the chain that \<open>rf_settings\<close> has not; \<open>se_completion\<close> is the
  completion timer while it runs, \<open>se_clock\<close> what the listening clock started
  at, \<open>se_connection\<close> the refiner listened to, with its revision.
\<close>

record session = dictation +
  se_saved :: session_settings
  se_ui :: ui_settings
  se_state :: dictation_state
  se_message :: qstring
  se_warning :: qstring
  se_last_transcript :: qstring
  se_review :: edit_review
  se_pipeline :: pipeline
  se_generation :: nat
  se_step :: nat
  se_continued :: nat
  se_settings :: "session_settings option"
  se_choices :: run_choices
  se_target :: target
  se_screenshot :: "nat list"
  se_screenshot_type :: qstring
  se_screenshot_generation :: nat
  se_refinement_generation :: nat
  se_stream :: qstring
  se_replacements :: "qstring \<rightharpoonup> qstring"
  se_heard_speech :: bool
  se_clock :: nat
  se_listening_ms :: int
  se_revision :: nat
  se_used_raw :: bool
  se_history :: provider_history
  se_awaited :: awaited_delivery
  se_unanswered :: int
  se_reachability :: reachability
  se_microphone :: microphone
  se_held :: bool
  se_listening :: bool
  se_refiner :: "nat option"
  se_connection :: "(nat \<times> nat) option"
  se_chain :: rchain
  se_chain_saved :: session_settings
  se_completion :: "int option"
  se_asked :: "target_question list"

record 's session_env =
  sn_lib :: qt_lib
  sn_shape :: shape
  sn_upper :: "qstring \<Rightarrow> qstring"
  sn_labels :: provider_labels
  sn_date :: "'s \<Rightarrow> qstring"
  sn_time :: "'s \<Rightarrow> qstring"
  sn_reads_target :: bool
  sn_takes_screenshots :: bool
  sn_offers_speech :: "qstring \<Rightarrow> bool"
  sn_offers_refiner :: "qstring \<Rightarrow> nat option"
  sn_reads_screenshots :: "qstring \<Rightarrow> bool"
  sn_select_speech :: "speech_settings \<Rightarrow> 's \<Rightarrow> (bool \<times> 's) option"
  sn_refresh_job :: "nat \<Rightarrow> refinement_settings \<Rightarrow> account_settings \<Rightarrow> prep_job option"
  sn_prepare :: "nat \<Rightarrow> refinement_settings \<Rightarrow> account_settings \<Rightarrow> provider_failure option"
  sn_apply :: "nat \<Rightarrow> provider_failure option \<Rightarrow> 's step"
  sn_call :: "session_call \<Rightarrow> 's step"

abbreviation sn_chars :: "'s session_env \<Rightarrow> qchars" where
  "sn_chars E \<equiv> lib_chars (sn_lib E)"

abbreviation sn_glyphs :: "'s session_env \<Rightarrow> glyphs" where
  "sn_glyphs E \<equiv> sh_glyphs (sn_shape E)"

record session_overrides =
  so_format :: "output_format option"
  so_profile :: "qstring option"
  so_language :: "qstring option"

definition no_overrides :: session_overrides where
  "no_overrides = \<lparr>so_format = None, so_profile = None, so_language = None\<rparr>"

definition no_pipeline :: pipeline where
  "no_pipeline = \<lparr>pl_binding = \<lparr>bs_bound_text = [], bs_placeholder_text = [], bs_can_skip_refinement = False,
       bs_placeholders = []\<rparr>, pl_active_rules = [], pl_no_bind = [], pl_services = default_refinement_settings,
     pl_choices = ss_choices default_session_settings, pl_vocabulary = [], pl_context = default_context,
     pl_fallback = [], pl_input = [], pl_source = [], pl_allow_post_bindings = True, pl_edits_selection = False\<rparr>"

text \<open>DictationRecord.cpp: the segments between word boundaries that hold a letter or a number.\<close>

fun boundary_segments :: "qstring \<Rightarrow> nat \<Rightarrow> nat list \<Rightarrow> qstring list" where
  "boundary_segments s start [] = []"
| "boundary_segments s start (e # es) = take (e - start) (drop start s) # boundary_segments s e es"

definition count_words :: "shape \<Rightarrow> qstring \<Rightarrow> int" where
  "count_words h s = int (count_proper h (boundary_segments s 0 (sh_boundaries h s)))"

section \<open>Queries\<close>

definition session_last_transcript :: "qchars \<Rightarrow> 'a session_scheme \<Rightarrow> qstring" where
  "session_last_transcript q s = (if se_last_transcript s = [] then ts_text q s else se_last_transcript s)"

definition session_listening_ms :: "'a session_scheme \<Rightarrow> int" where
  "session_listening_ms s =
     se_listening_ms s + (if se_state s = SListening then int (at_now s - se_clock s) else 0)"

definition session_state_name :: "'a session_scheme \<Rightarrow> qstring" where
  "session_state_name s = dictation_state_name (se_state s)"

definition session_review_up :: "'a session_scheme \<Rightarrow> bool" where
  "session_review_up s = review_is_up (se_review s)"

text \<open>response: whether it worked, the state's name and a message.\<close>

definition session_response :: "bool \<Rightarrow> qstring \<Rightarrow> 'a session_scheme \<Rightarrow> bool \<times> qstring \<times> qstring" where
  "session_response ok message s =
     (ok, session_state_name s, if message = [] then se_message s else message)"

definition session_following :: "'a session_scheme \<Rightarrow> bool" where
  "session_following s = ew_following (se_review s)"

definition session_offline_for :: "'a session_scheme session_env \<Rightarrow> provider_role \<Rightarrow> qstring \<Rightarrow> 'a session_scheme \<Rightarrow> bool" where
  "session_offline_for E role provider s = (case se_settings s of None \<Rightarrow> False
     | Some settings \<Rightarrow> se_reachability s = ReachOffline
         \<and> needs_internet (sn_chars E) (lib_urls (sn_lib E)) role provider (ss_app settings))"

text \<open>partMissingWarning of the file's anonymous namespace.\<close>

definition part_missing_warning :: "speech_failure \<Rightarrow> qstring" where
  "part_missing_warning f = ''Part of the dictation may be missing. '' @
     (if sf_phase f = PhaseFinalize then sf_message f
      else if sf_phase f = PhaseConnect \<and> sf_kind f = Timeout then ''A speech service took too long to start.''
      else ''The connection dropped.'')"

definition session_failure_text :: "'a session_scheme session_env \<Rightarrow> qstring \<Rightarrow> 'a session_scheme \<Rightarrow> qstring" where
  "session_failure_text E message s =
     (if tried_fallbacks (ph_issues (se_history s)) s
      then no_speech_service_text (ph_issues (se_history s)) (sn_labels E) else message)"

section \<open>Screenshot, microphone and media\<close>

definition clear_screenshot :: "'a session_scheme session_env \<Rightarrow> 'a session_scheme step" where
  "clear_screenshot E s = do {
     s \<leftarrow> (if sn_takes_screenshots E then sn_call E ScreenshotCancel s else Some s);
     Some (s\<lparr>se_screenshot := [], se_screenshot_type := [], se_screenshot_generation := 0\<rparr>) }"

definition forget_session :: "'a session_scheme session_env \<Rightarrow> 'a session_scheme step" where
  "forget_session E s = do {
     s \<leftarrow> clear_screenshot E s;
     Some (s\<lparr>se_settings := None, se_target := no_target, se_pipeline := no_pipeline\<rparr>) }"

definition update_microphone_held :: "'a session_scheme session_env \<Rightarrow> 'a session_scheme step" where
  "update_microphone_held E s =
     (let was = se_held s;
          held = (se_microphone s \<noteq> MicOff \<or> se_state s = SStarting \<or> se_state s = SListening);
          s = s\<lparr>se_held := held\<rparr>
      in if was \<noteq> held then sn_call E (MicrophoneChanged held) s else Some s)"

definition update_listening :: "'a session_scheme session_env \<Rightarrow> 'a session_scheme step" where
  "update_listening E s =
     (let was = se_listening s; listening = (se_state s = SListening \<or> se_state s = SPaused);
          s = s\<lparr>se_listening := listening\<rparr>
      in if was \<noteq> listening then sn_call E (ListeningChanged listening) s else Some s)"

definition start_microphone :: "'a session_scheme session_env \<Rightarrow> 'a session_scheme step" where
  "start_microphone E s = do {
     s \<leftarrow> update_microphone_held E (s\<lparr>se_microphone := MicStarting\<rparr>);
     sn_call E AudioStart s }"

definition abort_microphone :: "'a session_scheme session_env \<Rightarrow> 'a session_scheme step" where
  "abort_microphone E s = do {
     let was = se_microphone s;
     let s = s\<lparr>se_microphone := MicOff\<rparr>;
     s \<leftarrow> (if was \<noteq> MicOff then sn_call E AudioAbort s else Some s);
     update_microphone_held E s }"

section \<open>States\<close>

definition emit_review :: "'a session_scheme session_env \<Rightarrow> 'a session_scheme step" where
  "emit_review E s = (case review_presentation (sn_shape E) (se_review s) of
     None \<Rightarrow> None
   | Some review \<Rightarrow> sn_call E (PopupReview review) s)"

text \<open>
  setState past its first branch, and the step it took.
\<close>

definition enter_state ::
  "'a session_scheme session_env \<Rightarrow> dictation_state \<Rightarrow> qstring \<Rightarrow> popup_error_action \<Rightarrow> 'a session_scheme
   \<Rightarrow> (nat \<times> 'a session_scheme) option" where
  "enter_state E st message fix s = do {
     let step = Suc (se_step s);
     let s = s\<lparr>se_step := step\<rparr>;
     let s = (if st = SListening then s\<lparr>se_clock := at_now s\<rparr>
              else if se_state s = SListening
              then s\<lparr>se_listening_ms := se_listening_ms s + int (at_now s - se_clock s)\<rparr> else s);
     let s = s\<lparr>se_state := st, se_message := message\<rparr>;
     let label = dictation_state_label (sn_upper E) st message;
     s \<leftarrow> (if st = SError \<and> message \<noteq> [] then sn_call E (PopupError message fix) s else Some s);
     s \<leftarrow> sn_call E (StateChanged st) s;
     s \<leftarrow> (if step \<noteq> se_step s then Some s else do {
        s \<leftarrow> sn_call E (StatusChanged label) s;
        s \<leftarrow> update_microphone_held E s;
        update_listening E s });
     Some (step, s) }"

definition enter_review :: "'a session_scheme session_env \<Rightarrow> 'a session_scheme step" where
  "enter_review E s = do {
     let keys = ew_keys (se_review s);
     (step, s) \<leftarrow> enter_state E SReviewing [] no_action s;
     (if step \<noteq> se_step s then Some s
      else if ew_keys (se_review s) = keys then emit_review E s else Some s) }"

definition return_to_review :: "'a session_scheme session_env \<Rightarrow> 'a session_scheme step" where
  "return_to_review E s = do {
     let s = s\<lparr>se_review := review_end_follow_up (se_review s), se_refinement_generation := 0\<rparr>;
     r \<leftarrow> ew_revision (se_review s);
     enter_review E (s\<lparr>se_target := rvn_target r, se_settings := Some (rvn_settings r),
       se_choices := rvn_choices r, se_pipeline := rvn_pipeline r, se_used_raw := False,
       se_warning := rvn_warning r, se_history := rvn_history r\<rparr>) }"

text \<open>A follow-up that fails goes back to its review, whose state is never Error.\<close>

definition set_state ::
  "'a session_scheme session_env \<Rightarrow> dictation_state \<Rightarrow> qstring \<Rightarrow> popup_error_action \<Rightarrow> 'a session_scheme
   \<Rightarrow> (nat \<times> 'a session_scheme) option" where
  "set_state E st message fix s =
     (if st = SError \<and> session_following s then do {
        let step = Suc (se_step s);
        s \<leftarrow> return_to_review E (s\<lparr>se_step := step\<rparr>);
        Some (step, s) }
      else enter_state E st message fix s)"

text \<open>The announcement of a state whose step the caller does not look at.\<close>

definition announce ::
  "'a session_scheme session_env \<Rightarrow> dictation_state \<Rightarrow> qstring \<Rightarrow> popup_error_action \<Rightarrow> 'a session_scheme step" where
  "announce E st message fix s = do { (step, s) \<leftarrow> set_state E st message fix s; Some s }"

definition fail_session :: "'a session_scheme session_env \<Rightarrow> qstring \<Rightarrow> popup_error_action \<Rightarrow> 'a session_scheme step" where
  "fail_session E message fix s = do {
     s \<leftarrow> abort_microphone E s;
     s \<leftarrow> clear_screenshot E s;
     s \<leftarrow> sn_call E MediaResume (s\<lparr>se_settings := None\<rparr>);
     announce E SError message fix s }"

definition fail_startup :: "'a session_scheme session_env \<Rightarrow> qstring \<Rightarrow> popup_error_action \<Rightarrow> 'a session_scheme step" where
  "fail_startup E message fix s = do {
     let step = se_step s;
     s \<leftarrow> sn_call E (PreviewDisplayChanged []) s;
     (if step \<noteq> se_step s then Some s else fail_session E message fix s) }"

text \<open>discard: every pending completion is stale, and nothing is delivered.\<close>

definition discard :: "'a session_scheme session_env \<Rightarrow> 'a session_scheme step" where
  "discard E s = do {
     s \<leftarrow> abort_microphone E (s\<lparr>se_generation := Suc (se_generation s)\<rparr>);
     s \<leftarrow> sn_call E SpeechCancel s;
     let s = s\<lparr>se_chain := rchain_cancel (se_chain s)\<rparr>;
     s \<leftarrow> (case se_refiner s of None \<Rightarrow> Some s | Some r \<Rightarrow> sn_call E (RefinerCancel r) s);
     s \<leftarrow> forget_session E (s\<lparr>se_refinement_generation := 0, se_completion := None\<rparr>);
     sn_call E MediaResume s }"

section \<open>Delivery\<close>

definition session_app_name :: "target \<Rightarrow> qstring" where
  "session_app_name t = (if tg_application_name t \<noteq> [] then tg_application_name t
     else if tg_process_name t \<noteq> [] then tg_process_name t else ''Unknown app'')"

definition k_options_unavailable :: qstring where
  "k_options_unavailable = ''Dictation session options are unavailable''"

definition deliver_final ::
  "'a session_scheme session_env \<Rightarrow> qstring \<Rightarrow> qstring \<Rightarrow> int option \<Rightarrow> 'a session_scheme step" where
  "deliver_final E words note spoken s = (case se_settings s of
     None \<Rightarrow> fail_session E k_options_unavailable no_action s
   | Some settings \<Rightarrow> do {
       let profile = rx_profile (pl_context (se_pipeline s));
       let profile_name = (if is_built_in_writing_profile profile then []
             else writing_profile_label profile (rc_profiles (ss_choices settings)));
       let app_name = session_app_name (se_target s);
       let counted = (case spoken of Some n \<Rightarrow> n | None \<Rightarrow> count_words (sn_shape E)
             (if pl_edits_selection (se_pipeline s) then ts_text (sn_chars E) s else words));
       (step, s) \<leftarrow> set_state E SDelivering [] no_action (s\<lparr>se_refinement_generation := 0, se_last_transcript := words\<rparr>);
       (if step \<noteq> se_step s then Some s else do {
          s \<leftarrow> sn_call E (RecordVocabularyUsage words) s;
          (if step \<noteq> se_step s then Some s
           else sn_call E (Deliver (ss_output settings)
                  (make_delivery_content (sn_chars E) words (os_format (ss_output settings))) (se_target s))
                (s\<lparr>se_awaited := \<lparr>ad_step = step, ad_text = words, ad_note = note, ad_words = counted,
                     ad_app_name = app_name, ad_profile = profile, ad_profile_name = profile_name,
                     ad_completion_ms = os_completion_ms (ss_output settings)\<rparr>,
                   se_unanswered := se_unanswered s + 1\<rparr>)) }) })"

text \<open>The issues an outcome names: those of a role whose chain has fallbacks.\<close>

definition named_issues :: "'a session_scheme \<Rightarrow> attempt_issue list" where
  "named_issues s = filter (\<lambda>i. 2 \<le> length (if ai_role i = Speech then ch_ids s else rf_ids (se_chain s)))
     (ph_issues (se_history s))"

definition session_record :: "awaited_delivery \<Rightarrow> 'a session_scheme \<Rightarrow> dictation_record" where
  "session_record d s = \<lparr>rec_audio_ms = se_listening_ms s, rec_words = ad_words d, rec_app_name = ad_app_name d,
     rec_profile = ad_profile d, rec_profile_name = ad_profile_name d,
     rec_speech_providers = ph_speech_ran (se_history s), rec_refinement_providers = ph_refinement_ran (se_history s)\<rparr>"

definition session_outcome ::
  "'a session_scheme session_env \<Rightarrow> awaited_delivery \<Rightarrow> delivery_result \<Rightarrow> 'a session_scheme \<Rightarrow> dictation_outcome" where
  "session_outcome E d result s =
     (let out = dictation_outcome_of (sn_glyphs E) (dr_message result) (dr_receipt result = ReceiptCopied)
            ((se_history s)\<lparr>ph_issues := named_issues s\<rparr>) (se_used_raw s) (se_warning s) (sn_labels E)
      in if ad_note d \<noteq> [] then out\<lparr>do_message := do_message out @ popup_message_separator (sn_glyphs E) @ ad_note d\<rparr>
         else out)"

definition finish_delivery :: "'a session_scheme session_env \<Rightarrow> delivery_result \<Rightarrow> 'a session_scheme step" where
  "finish_delivery E result s0 =
     (let s = s0\<lparr>se_unanswered := se_unanswered s0 - 1\<rparr> in
      if se_unanswered s > 0 then Some s
      else (let d = se_awaited s; s = s\<lparr>se_awaited := no_delivery\<rparr> in
        if ad_step d \<noteq> se_step s then Some s
        else do {
          s \<leftarrow> clear_screenshot E s;
          let s = s\<lparr>se_settings := None, se_target := no_target\<rparr>;
          (if dr_ok result then do {
             s \<leftarrow> sn_call E (TranscriptDelivered (ad_text d)) s;
             s \<leftarrow> (if ss_insights (se_saved s) then sn_call E (DictationRecorded (session_record d s)) s else Some s);
             let out = session_outcome E d result s;
             let message = do_message out;
             s \<leftarrow> sn_call E (PopupMessage message (do_outcome out) (do_fix out)) (s\<lparr>se_message := message\<rparr>);
             s \<leftarrow> sn_call E (StatusChanged message) s;
             Some (s\<lparr>se_completion := Some (if pe_fix (do_fix out) = NoFix then ad_completion_ms d
               else max (popup_error_dismiss_ms (sn_chars E) message) (ad_completion_ms d))\<rparr>) }
           else announce E SError (if se_warning s = [] then dr_message result
                  else dr_message result @ popup_message_separator (sn_glyphs E) @ se_warning s) no_action s) }))"

section \<open>What the providers did\<close>

definition note_sign_in :: "'a session_scheme session_env \<Rightarrow> qstring \<Rightarrow> bool \<Rightarrow> 'a session_scheme step" where
  "note_sign_in E provider signed_in s =
     (if provider_signs_in provider then sn_call E (SignInObserved provider signed_in) s else Some s)"

definition note_ran :: "provider_role \<Rightarrow> qstring \<Rightarrow> 'a session_scheme \<Rightarrow> 'a session_scheme" where
  "note_ran role provider s =
     (let h = se_history s; add = (\<lambda>ran. if provider \<in> set ran then ran else ran @ [provider])
      in s\<lparr>se_history := (if role = Speech then h\<lparr>ph_speech_ran := add (ph_speech_ran h)\<rparr>
             else h\<lparr>ph_refinement_ran := add (ph_refinement_ran h)\<rparr>)\<rparr>)"

definition note_provider_issue ::
  "'a session_scheme session_env \<Rightarrow> provider_role \<Rightarrow> qstring \<Rightarrow> issue_stage \<Rightarrow> provider_failure
   \<Rightarrow> 'a session_scheme step" where
  "note_provider_issue E role provider stage f s =
     (let offline = ((pf_kind f = Network \<or> pf_kind f = Timeout) \<and> session_offline_for E role provider s);
          words_lost = (role = Speech \<and> stage = StageConnect \<and> se_state s \<noteq> SStarting);
          s = s\<lparr>se_history := (se_history s)\<lparr>ph_issues := ph_issues (se_history s) @
            [\<lparr>ai_role = role, ai_provider = provider, ai_stage = stage, ai_kind = pf_kind f, ai_message = pf_message f,
              ai_offline = offline, ai_words_lost = words_lost\<rparr>]\<rparr>\<rparr>
      in if pf_kind f = Authentication then note_sign_in E provider False s else Some s)"

section \<open>The refiner\<close>

definition disconnect_refiner :: "'a session_scheme \<Rightarrow> 'a session_scheme" where
  "disconnect_refiner s = s\<lparr>se_connection := None\<rparr>"

definition connect_refiner :: "nat \<Rightarrow> 'a session_scheme \<Rightarrow> 'a session_scheme" where
  "connect_refiner r s = (let s = disconnect_refiner s; revision = Suc (se_revision s)
     in s\<lparr>se_refiner := Some r, se_revision := revision, se_connection := Some (r, revision)\<rparr>)"

definition select_refiner :: "'a session_scheme session_env \<Rightarrow> qstring \<Rightarrow> 'a session_scheme \<Rightarrow> bool \<times> 'a session_scheme" where
  "select_refiner E provider s = (case sn_offers_refiner E provider of
     None \<Rightarrow> (False, s)
   | Some r \<Rightarrow> (True, connect_refiner r s))"

definition retire_refiner :: "'a session_scheme session_env \<Rightarrow> 'a session_scheme step" where
  "retire_refiner E s = do {
     let s = disconnect_refiner (s\<lparr>se_revision := Suc (se_revision s)\<rparr>);
     s \<leftarrow> (case se_refiner s of None \<Rightarrow> Some s | Some r \<Rightarrow> sn_call E (RefinerCancel r) s);
     sn_call E (PopupRefinementPreview []) (s\<lparr>se_stream := []\<rparr>) }"

definition pass_over_refiner ::
  "'a session_scheme session_env \<Rightarrow> qstring \<Rightarrow> issue_stage \<Rightarrow> provider_failure \<Rightarrow> 'a session_scheme step" where
  "pass_over_refiner E provider stage f s = do {
     s \<leftarrow> note_provider_issue E Refinement provider stage f (s\<lparr>se_message := pf_message f\<rparr>);
     retire_refiner E s }"

definition enter_refining :: "'a session_scheme session_env \<Rightarrow> 'a session_scheme \<Rightarrow> (bool \<times> 'a session_scheme) option" where
  "enter_refining E s =
     (if se_state s = SRefining then Some (True, s)
      else do {
        (step, s) \<leftarrow> set_state E SRefining (se_message s) no_action
          (s\<lparr>se_refinement_generation := se_generation s\<rparr>);
        Some (step = se_step s, s) })"

definition fail_selection_edit :: "'a session_scheme session_env \<Rightarrow> qstring \<Rightarrow> 'a session_scheme step" where
  "fail_selection_edit E message s = fail_session E message no_action
     (s\<lparr>se_refinement_generation := 0, se_target := no_target, se_pipeline := no_pipeline\<rparr>)"

definition deliver_without_refinement :: "'a session_scheme session_env \<Rightarrow> 'a session_scheme step" where
  "deliver_without_refinement E s =
     (if pl_edits_selection (se_pipeline s) then fail_selection_edit E (se_message s) s
      else deliver_final E (pl_fallback (se_pipeline s)) [] None (s\<lparr>se_used_raw := True\<rparr>))"

text \<open>startRefiner once the session is Refining, and from its start.\<close>

definition refine_with ::
  "'a session_scheme session_env \<Rightarrow> refinement_settings \<Rightarrow> refinement_choices \<Rightarrow> 'a session_scheme step" where
  "refine_with E services choices s = do {
     let p = include_screenshot_context (sn_reads_screenshots E (rs_provider services))
           (se_screenshot s) (se_screenshot_type s) (se_pipeline s);
     let s = note_ran Refinement (rs_provider services) (s\<lparr>se_stream := [],
           se_replacements := replacements_by_placeholder (bs_placeholders (pl_binding (se_pipeline s))),
           se_pipeline := p\<rparr>);
     refiner \<leftarrow> se_refiner s;
     settings \<leftarrow> se_settings s;
     sn_call E (RefinerRefine refiner (pl_input p) (pl_vocabulary p) (pl_context p) services choices
       (as_accounts (ss_app settings))) s }"

definition start_refiner :: "'a session_scheme session_env \<Rightarrow> 'a session_scheme step" where
  "start_refiner E s = do {
     let services = rchain_current_settings (se_chain s);
     let choices = rf_choices (se_chain s);
     let step = se_step s;
     s \<leftarrow> note_sign_in E (rs_provider services) True s;
     (if step \<noteq> se_step s then Some s else do {
        (entered, s) \<leftarrow> enter_refining E s;
        (if \<not> entered then Some s else refine_with E services choices s) }) }"

text \<open>The chain's owner: what it acquires and its handlers.\<close>

definition session_refinement :: "'a session_scheme session_env \<Rightarrow> 'a session_scheme refine_env" where
  "session_refinement E = \<lparr>
     rn_lib = sn_lib E,
     rn_get = se_chain,
     rn_put = (\<lambda>c s. s\<lparr>se_chain := c\<rparr>),
     rn_acquire = (\<lambda>provider s. let (found, s) = select_refiner E provider s
        in Some (if found then se_refiner s else None, s)),
     rn_create_refresh_job = (\<lambda>r rs ac s. Some (sn_refresh_job E r rs ac, s)),
     rn_prepare = (\<lambda>r rs ac s. Some (sn_prepare E r rs ac, s)),
     rn_apply = sn_apply E,
     rn_passed_over = pass_over_refiner E,
     rn_preparing = (\<lambda>s. do { (entered, s) \<leftarrow> enter_refining E s; Some s }),
     rn_secrets_resolved = (\<lambda>app s. Some (s\<lparr>se_settings := Some ((se_chain_saved s)\<lparr>ss_app := app\<rparr>)\<rparr>)),
     rn_ready = start_refiner E,
     rn_exhausted = deliver_without_refinement E\<rparr>"

section \<open>Refinement\<close>

definition no_speech_message :: "'a session_scheme \<Rightarrow> qstring" where
  "no_speech_message s =
     (if se_heard_speech s then ''No transcript was returned. Try again or check the speech connection.''
      else ''No speech was detected. Check the selected microphone and input level, then try again.'')"

definition begin_refinement :: "'a session_scheme session_env \<Rightarrow> nat \<Rightarrow> 'a session_scheme step" where
  "begin_refinement E generation s0 =
     (if generation \<noteq> se_generation s0 \<or> se_state s0 \<noteq> SStopping then Some s0
      else if ts_is_empty (sn_chars E) s0 then fail_session E (no_speech_message s0) no_action s0
      else case se_settings s0 of
        None \<Rightarrow> fail_session E k_options_unavailable no_action s0
      | Some settings \<Rightarrow> do {
          target \<leftarrow> (if session_following s0
             then (case ew_revision (se_review s0) of None \<Rightarrow> None
                 | Some r \<Rightarrow> Some ((se_target s0)\<lparr>tg_selected_text := rvn_edit r\<rparr>))
             else Some (se_target s0));
          let p = prepare_pipeline (sn_chars E) (sn_date E s0) (sn_time E s0) (ts_text (sn_chars E) s0) settings
                (se_choices s0) target (ts_heard (sn_chars E) s0);
          let s = s0\<lparr>se_pipeline := p\<rparr>;
          (if rs_provider (as_refinement (ss_app settings)) = k_no_refinement_provider
              \<or> rc_style (pl_choices p) = ''none''
           then (if pl_edits_selection p
                 then fail_selection_edit E ''Selection editing requires refinement to be enabled'' s
                 else deliver_final E (pl_fallback p) [] None s)
           else if \<not> pl_edits_selection p \<and> bs_can_skip_refinement (pl_binding p)
           then deliver_final E (pl_fallback p) [] None s
           else rchain_prepare (session_refinement E) (ss_app settings) (pl_services p) (pl_choices p)
                  (s\<lparr>se_chain_saved := settings\<rparr>)) })"

definition handle_refinement_failure ::
  "'a session_scheme session_env \<Rightarrow> provider_failure \<Rightarrow> 'a session_scheme step" where
  "handle_refinement_failure E f s =
     (if permits_provider_fallback (pf_kind f) then do {
        let step = se_step s;
        s \<leftarrow> pass_over_refiner E (rchain_current_id (se_chain s)) StageConnect f s;
        (if step \<noteq> se_step s then Some s else do {
           settings \<leftarrow> se_settings s;
           rchain_prepare_next (session_refinement E) (ss_app settings) (pl_services (se_pipeline s))
             (pl_choices (se_pipeline s)) (s\<lparr>se_chain_saved := settings\<rparr>) }) }
      else deliver_without_refinement E (s\<lparr>se_message := pf_message f\<rparr>))"

section \<open>The review of a selection edit\<close>

definition revise_selection_edit :: "'a session_scheme session_env \<Rightarrow> qstring \<Rightarrow> 'a session_scheme step" where
  "revise_selection_edit E revised s = do {
     settings \<leftarrow> se_settings s;
     let spoken = ts_text (sn_chars E) s;
     Some (s\<lparr>se_review := review_revise \<lparr>rvn_edit = revised, rvn_instructions = [spoken], rvn_target = se_target s,
       rvn_settings = settings, rvn_choices = se_choices s, rvn_pipeline = se_pipeline s, rvn_warning = se_warning s,
       rvn_history = se_history s, rvn_words = count_words (sn_shape E) spoken,
       rvn_listening_ms = se_listening_ms s\<rparr> (se_review s)\<rparr>) }"

definition review_selection_edit :: "'a session_scheme session_env \<Rightarrow> qstring \<Rightarrow> 'a session_scheme step" where
  "review_selection_edit E revised s = do {
     s \<leftarrow> revise_selection_edit E revised s;
     enter_review E (s\<lparr>se_refinement_generation := 0\<rparr>) }"

definition deliver_revision :: "'a session_scheme session_env \<Rightarrow> bool \<Rightarrow> 'a session_scheme step" where
  "deliver_revision E unchanged s = do {
     r \<leftarrow> ew_revision (se_review s);
     let s = s\<lparr>se_review := review_end (se_review s), se_listening_ms := rvn_listening_ms r,
       se_history := rvn_history r\<rparr>;
     (if unchanged then deliver_final E (rvn_edit r) [] (Some (rvn_words r)) s
      else do {
        settings \<leftarrow> se_settings s;
        deliver_final E (rvn_edit r) selection_changed_note (Some (rvn_words r))
          (s\<lparr>se_settings := Some (settings\<lparr>ss_output := (ss_output settings)\<lparr>os_paste_rules :=
             [\<lparr>pr_scope = GlobalScope, pr_match = [], pr_method = ClipboardOnly, pr_enabled = True\<rparr>]\<rparr>\<rparr>)\<rparr>) }) }"

text \<open>What replaceWithRevision does with the answer.\<close>

definition selection_checked :: "'a session_scheme session_env \<Rightarrow> nat \<Rightarrow> bool \<Rightarrow> 'a session_scheme step" where
  "selection_checked E step unchanged s =
     (if step = se_step s then deliver_revision E unchanged s else Some s)"

definition ask_target :: "'a session_scheme session_env \<Rightarrow> (target_question \<Rightarrow> session_call) \<Rightarrow> target_question
    \<Rightarrow> 'a session_scheme step" where
  "ask_target E c q s = sn_call E (c q) (s\<lparr>se_asked := se_asked s @ [q]\<rparr>)"

definition replace_with_revision :: "'a session_scheme session_env \<Rightarrow> 'a session_scheme step" where
  "replace_with_revision E s =
     (if sn_reads_target E then ask_target E (MatchFocus (se_target s)) (AskFocus (se_step s)) s
      else selection_checked E (se_step s) True s)"

definition replace_selection :: "'a session_scheme session_env \<Rightarrow> 'a session_scheme step" where
  "replace_selection E s =
     (if se_state s \<noteq> SReviewing \<or> se_settings s = None then Some s else replace_with_revision E s)"

definition set_review_keys :: "'a session_scheme session_env \<Rightarrow> review_keys \<Rightarrow> 'a session_scheme step" where
  "set_review_keys E keys s =
     (let (changed, w) = review_set_keys keys (se_review s); s = s\<lparr>se_review := w\<rparr>
      in if changed \<and> review_is_up w then emit_review E s else Some s)"

section \<open>Starting\<close>

text \<open>ProviderRegistry::withProfileProviders: a speech provider the registry has not is not taken.\<close>

definition with_profile_providers ::
  "'a session_scheme session_env \<Rightarrow> app_settings \<Rightarrow> writing_profile_settings \<Rightarrow> app_settings" where
  "with_profile_providers E a p =
     (let resolved = with_writing_profile_providers a p
      in if sn_offers_speech E (sp_provider (as_speech resolved)) then resolved
         else resolved\<lparr>as_speech := as_speech a\<rparr>)"

definition speech_page :: popup_error_action where
  "speech_page = \<lparr>pe_fix = SettingsPage, pe_page = ''speech''\<rparr>"

definition select_providers :: "'a session_scheme session_env \<Rightarrow> 'a session_scheme \<Rightarrow> (bool \<times> 'a session_scheme) option" where
  "select_providers E s = do {
     saved \<leftarrow> se_settings s;
     let app = with_profile_providers E (ss_app saved)
           (pipeline_writing_profile (sn_chars E) saved (se_choices s) (se_target s));
     let speech = as_speech app;
     let refinement = as_refinement app;
     (known, s) \<leftarrow> sn_select_speech E speech (s\<lparr>se_settings := Some (saved\<lparr>ss_app := app\<rparr>)\<rparr>);
     (if \<not> known then do {
        s \<leftarrow> fail_startup E (''Unknown speech provider: '' @ sp_provider speech)
               (speech_setup_action (sp_provider speech)) s;
        Some (False, s) }
      else (let problem = spoken_language_problem (lib_names (sn_lib E)) speech (sn_labels E Speech (sp_provider speech)) in
        if problem \<noteq> [] then do { s \<leftarrow> fail_startup E problem speech_page s; Some (False, s) }
        else (let s = (if rs_provider refinement \<noteq> k_no_refinement_provider
                       then snd (select_refiner E (rs_provider refinement) s) else s)
              in Some (True, s\<lparr>se_chain := rchain_begin (rs_provider refinement) (rs_fallbacks refinement) (se_chain s)\<rparr>)))) }"

definition wants_screenshot :: "'a session_scheme session_env \<Rightarrow> session_settings \<Rightarrow> 'a session_scheme \<Rightarrow> bool" where
  "wants_screenshot E settings s \<longleftrightarrow> rc_include_screenshot (ss_choices settings)
     \<and> rc_style (effective_choices (sn_chars E) settings (se_choices s) (se_target s)) \<noteq> ''none''
     \<and> sn_takes_screenshots E \<and> list_ex (sn_reads_screenshots E) (rf_ids (se_chain s))
     \<and> \<not> tg_secure (se_target s) \<and> \<not> has_selection (se_target s) \<and> \<not> session_following s"

definition continue_startup_with_target ::
  "'a session_scheme session_env \<Rightarrow> nat \<Rightarrow> target \<Rightarrow> 'a session_scheme step" where
  "continue_startup_with_target E generation t s = do {
     settings \<leftarrow> se_settings s;
     let target = t\<lparr>tg_category := classify_target (sn_chars E) t (ss_rules settings)\<rparr>;
     (selected, s) \<leftarrow> select_providers E (s\<lparr>se_target := target\<rparr>);
     (if \<not> selected then Some s else do {
        settings \<leftarrow> se_settings s;
        let app = ss_app settings;
        let settings = settings\<lparr>ss_app := app\<lparr>as_speech := (as_speech app)\<lparr>sp_vocabulary :=
              pipeline_speech_vocabulary (sn_chars E) settings (se_choices s) (se_target s)\<rparr>\<rparr>\<rparr>;
        let s = s\<lparr>se_settings := Some settings\<rparr>;
        s \<leftarrow> (if wants_screenshot E settings s
             then sn_call E ScreenshotCapture (s\<lparr>se_screenshot_generation := generation\<rparr>) else Some s);
        s \<leftarrow> (if ui_pause_media (ss_ui settings) then sn_call E MediaPause s else Some s);
        latest \<leftarrow> se_settings s;
        sn_call E (SpeechStart (ss_app latest)
          (if rs_provider (as_refinement (ss_app settings)) \<noteq> k_no_refinement_provider then se_refiner s else None)) s }) }"

definition continue_startup :: "'a session_scheme session_env \<Rightarrow> nat \<Rightarrow> 'a session_scheme step" where
  "continue_startup E generation s =
     (if generation \<noteq> se_generation s \<or> generation = se_continued s \<or> se_state s \<noteq> SStarting \<or> se_settings s = None
      then Some s
      else do {
        s \<leftarrow> clear_screenshot E (s\<lparr>se_continued := generation\<rparr>);
        (if session_following s then do {
           r \<leftarrow> ew_revision (se_review s);
           continue_startup_with_target E generation (rvn_target r) s }
         else if \<not> sn_reads_target E then continue_startup_with_target E generation no_target s
         else ask_target E CaptureTarget (AskStart generation (se_step s)) s) })"

definition with_overrides :: "session_overrides \<Rightarrow> session_settings \<Rightarrow> session_settings" where
  "with_overrides v s =
     (let s = (case so_format v of None \<Rightarrow> s | Some f \<Rightarrow> s\<lparr>ss_output := (ss_output s)\<lparr>os_format := f\<rparr>\<rparr>)
      in case so_language v of None \<Rightarrow> s
         | Some l \<Rightarrow> s\<lparr>ss_app := (ss_app s)\<lparr>as_speech := (as_speech (ss_app s))\<lparr>sp_language := l\<rparr>\<rparr>\<rparr>)"

text \<open>The handler of TranscriptState::changed.\<close>

definition transcript_changed :: "'a session_scheme session_env \<Rightarrow> qstring \<Rightarrow> 'a session_scheme step" where
  "transcript_changed E words s = do {
     s \<leftarrow> sn_call E (PreviewDisplayChanged (if ui_transcription_preview (se_ui s)
            then last_words (sn_chars E) words (ui_preview_words (se_ui s)) else [])) s;
     sn_call E (PreviewChanged words) s }"

text \<open>
  startSession past its branch for a review without a follow-up.
\<close>

definition begin_session :: "'a session_scheme session_env \<Rightarrow> session_overrides \<Rightarrow> 'a session_scheme step" where
  "begin_session E overrides s =
     (let follow_up = (se_state s = SReviewing \<and> session_following s);
          showing_receipt = (se_state s = SDelivering \<and> se_completion s \<noteq> None)
      in if se_state s \<noteq> SIdle \<and> se_state s \<noteq> SError \<and> \<not> follow_up \<and> \<not> showing_receipt then Some s
      else do {
        let s = s\<lparr>se_completion := None\<rparr>;
        (settings, choices) \<leftarrow> (if follow_up
           then (case ew_revision (se_review s) of None \<Rightarrow> None | Some r \<Rightarrow> Some (rvn_settings r, rvn_choices r))
           else Some (se_saved s, no_choices));
        let choices = (case so_profile overrides of None \<Rightarrow> choices | Some p \<Rightarrow> choices\<lparr>ru_profile := p\<rparr>);
        let s = dict_begin (s\<lparr>se_generation := Suc (se_generation s)\<rparr>);
        let generation = se_generation s;
        (step, s) \<leftarrow> set_state E SStarting [] no_action (s\<lparr>se_settings := Some (with_overrides overrides settings),
           se_choices := choices, se_heard_speech := False, se_target := no_target,
           se_chain := rchain_begin k_no_refinement_provider [] (se_chain s),
           se_used_raw := False, se_history := no_history, se_listening_ms := 0\<rparr>);
        (if step \<noteq> se_step s then Some s else do {
           s \<leftarrow> ts_clear (sn_chars E) (transcript_changed E)
                (s\<lparr>se_warning := [], se_last_transcript := []\<rparr>);
           s \<leftarrow> sn_call E (PreviewDisplayChanged []) (s\<lparr>se_pipeline := no_pipeline\<rparr>);
           (if step \<noteq> se_step s then Some s else do {
              s \<leftarrow> sn_call E (PopupShow generation) s;
              sn_call E (PaintTimer generation) s }) }) })"

definition start_follow_up :: "'a session_scheme session_env \<Rightarrow> 'a session_scheme step" where
  "start_follow_up E s = do {
     let s = s\<lparr>se_review := review_start_follow_up (se_review s)\<rparr>;
     let step = se_step s;
     s \<leftarrow> emit_review E s;
     (if step \<noteq> se_step s then Some s else begin_session E no_overrides s) }"

definition start_session :: "'a session_scheme session_env \<Rightarrow> session_overrides \<Rightarrow> 'a session_scheme step" where
  "start_session E overrides s =
     (if se_state s = SReviewing \<and> \<not> session_following s then start_follow_up E s
      else begin_session E overrides s)"

section \<open>Stopping and cancelling\<close>

definition end_quietly :: "'a session_scheme session_env \<Rightarrow> 'a session_scheme step" where
  "end_quietly E s = do { s \<leftarrow> sn_call E PopupHide s; announce E SIdle [] no_action s }"

text \<open>stopListening in Error.\<close>

definition dismiss_error :: "'a session_scheme session_env \<Rightarrow> 'a session_scheme step" where
  "dismiss_error E s = end_quietly E (s\<lparr>se_generation := Suc (se_generation s)\<rparr>)"

definition cancel_session :: "'a session_scheme session_env \<Rightarrow> 'a session_scheme step" where
  "cancel_session E s =
     (if se_state s = SIdle \<or> se_state s = SDelivering then Some s
      else if se_state s = SError then dismiss_error E s
      else if se_state s = SReviewing then do {
        s \<leftarrow> discard E (s\<lparr>se_review := review_end (se_review s)\<rparr>);
        end_quietly E s }
      else if session_following s then do {
        s \<leftarrow> discard E s;
        return_to_review E s }
      else do {
        s \<leftarrow> discard E s;
        (step, s) \<leftarrow> set_state E SIdle [] no_action s;
        (if step \<noteq> se_step s then Some s else do {
           s \<leftarrow> sn_call E (PopupMessage cancelled_outcome_text OutcomeCancelled no_action) s;
           sn_call E (HideTimer (os_completion_ms (ss_output (se_saved s))) (se_generation s)) s }) })"

definition cancel_for_shutdown :: "'a session_scheme session_env \<Rightarrow> 'a session_scheme step" where
  "cancel_for_shutdown E s =
     (if se_state s = SIdle then Some s
      else do {
        s \<leftarrow> discard E (s\<lparr>se_review := review_end (se_review s)\<rparr>);
        end_quietly E s })"

definition microphone_stopped :: "'a session_scheme session_env \<Rightarrow> 'a session_scheme step" where
  "microphone_stopped E s = do {
     let was = se_microphone s;
     s \<leftarrow> update_microphone_held E (s\<lparr>se_microphone := MicOff\<rparr>);
     (if was = MicPausing \<and> se_state s = SListening then do {
        (step, s) \<leftarrow> set_state E SPaused [] no_action (dict_pause s);
        s \<leftarrow> sn_call E (AudioLevelChanged 0) s;
        (if step = se_step s then sn_call E SpeechProceed s else Some s) }
      else if was = MicStopping \<and> se_state s = SStopping then do {
        s \<leftarrow> sn_call E MediaResume s;
        sn_call E SpeechProceed s }
      else Some s) }"

definition stop_microphone :: "'a session_scheme session_env \<Rightarrow> microphone \<Rightarrow> 'a session_scheme step" where
  "stop_microphone E stopping s =
     (let was = se_microphone s; s = s\<lparr>se_microphone := stopping\<rparr>
      in if was = MicOff then microphone_stopped E s
         else if was = MicStarting \<or> was = MicOn then sn_call E AudioStop s
         else Some s)"

text \<open>stopListening while refining.\<close>

definition stop_refining :: "'a session_scheme session_env \<Rightarrow> 'a session_scheme step" where
  "stop_refining E s = do {
     let s = s\<lparr>se_refinement_generation := 0, se_chain := rchain_cancel (se_chain s)\<rparr>;
     s \<leftarrow> (case se_refiner s of None \<Rightarrow> Some s | Some r \<Rightarrow> sn_call E (RefinerCancel r) s);
     (if pl_edits_selection (se_pipeline s) then do {
        s \<leftarrow> forget_session E s;
        end_quietly E s }
      else deliver_final E (pl_fallback (se_pipeline s)) [] None
             (s\<lparr>se_message := ''Refinement cancelled'', se_used_raw := True\<rparr>)) }"

definition stop_listening :: "'a session_scheme session_env \<Rightarrow> 'a session_scheme step" where
  "stop_listening E s =
     (if session_following s \<and> (se_state s = SStarting \<or> se_state s = SRefining) then cancel_session E s
      else if se_state s = SError then dismiss_error E s
      else if se_state s = SRefining then stop_refining E s
      else if se_state s = SPaused then do {
        (step, s) \<leftarrow> set_state E SStopping (se_message s) no_action (dict_stop s);
        s \<leftarrow> sn_call E MediaResume s;
        (if step = se_step s then sn_call E SpeechProceed s else Some s) }
      else if se_state s = SStarting then do {
        s \<leftarrow> discard E s;
        end_quietly E s }
      else if se_state s \<noteq> SListening then Some s
      else do {
        let generation = se_generation s;
        s \<leftarrow> announce E SStopping (se_message s) no_action (dict_stop s);
        (if generation \<noteq> se_generation s then Some s else stop_microphone E MicStopping s) })"

section \<open>Pausing\<close>

definition pause_session :: "'a session_scheme session_env \<Rightarrow> 'a session_scheme step" where
  "pause_session E s =
     (if se_state s \<noteq> SListening \<or> se_microphone s = MicPausing then Some s
      else stop_microphone E MicPausing s)"

definition resume_session :: "'a session_scheme session_env \<Rightarrow> 'a session_scheme step" where
  "resume_session E s =
     (if se_state s \<noteq> SPaused \<or> se_settings s = None then Some s
      else do {
        (step, s) \<leftarrow> set_state E SListening [] no_action (dict_resume s);
        (if step \<noteq> se_step s then Some s else do {
           s \<leftarrow> sn_call E SpeechProceed s;
           (if step \<noteq> se_step s then Some s else do {
              s \<leftarrow> sn_call E AudioClearPreRoll s;
              start_microphone E s }) }) })"

definition toggle_pause :: "'a session_scheme session_env \<Rightarrow> 'a session_scheme step" where
  "toggle_pause E s =
     (if se_state s = SPaused then resume_session E s
      else if se_microphone s = MicPausing then start_microphone E s
      else pause_session E s)"

definition toggle_session :: "'a session_scheme session_env \<Rightarrow> session_overrides \<Rightarrow> 'a session_scheme step" where
  "toggle_session E overrides s =
     (if se_state s = SIdle \<or> se_state s = SError \<or> se_state s = SDelivering then start_session E overrides s
      else if se_state s = SStarting \<or> se_state s = SListening \<or> se_state s = SPaused \<or> se_state s = SRefining
      then stop_listening E s
      else if se_state s = SReviewing then start_session E overrides s
      else Some s)"

section \<open>What the speech says\<close>

definition end_speech_after_failure :: "'a session_scheme session_env \<Rightarrow> speech_failure \<Rightarrow> 'a session_scheme step" where
  "end_speech_after_failure E f s =
     (let hearing = (se_state s = SListening \<or> se_state s = SPaused) in
      if \<not> ts_is_empty (sn_chars E) s \<and> (hearing \<or> se_state s = SStopping)
      then (let s = s\<lparr>se_warning := part_missing_warning f, se_used_raw := True\<rparr> in
        if hearing then do {
          s \<leftarrow> sn_call E SpeechCancel s;
          s \<leftarrow> abort_microphone E s;
          (step, s) \<leftarrow> set_state E SStopping (sf_message f) no_action s;
          s \<leftarrow> sn_call E MediaResume s;
          (if step = se_step s then begin_refinement E (se_generation s) s else Some s) }
        else do {
          s \<leftarrow> (if se_microphone s \<noteq> MicOff then do {
               s \<leftarrow> abort_microphone E s;
               sn_call E MediaResume s } else Some s);
          begin_refinement E (se_generation s) (s\<lparr>se_message := sf_message f\<rparr>) })
      else do {
        s \<leftarrow> sn_call E SpeechCancel s;
        fail_session E (session_failure_text E (sf_message f) s)
          (if tried_fallbacks (ph_issues (se_history s)) s then speech_page else no_action) s })"

definition speech_chain_exhausted :: "'a session_scheme session_env \<Rightarrow> speech_failure \<Rightarrow> 'a session_scheme step" where
  "speech_chain_exhausted E f s =
     (if se_state s \<noteq> SStarting then end_speech_after_failure E f s
      else let issues = ph_issues (se_history s);
               message = session_failure_text E (case issues of [] \<Rightarrow> [] | only # _ \<Rightarrow> ai_message only) s
        in if \<not> tried_fallbacks issues s
           then fail_startup E message (case issues of [] \<Rightarrow> speech_setup_action []
                  | only # _ \<Rightarrow> if ai_offline only then no_action else speech_setup_action (ai_provider only)) s
           else fail_startup E message speech_page s)"

definition held_past_the_budget :: "'a session_scheme session_env \<Rightarrow> 'a session_scheme step" where
  "held_past_the_budget E s =
     (let s = (if se_warning s = [] then s\<lparr>se_warning := ''Part of the dictation may be missing. ''
            @ ''Too much was said while earlier words were still transcribed.''\<rparr> else s)
      in if se_state s = SListening then stop_listening E s else Some s)"

definition speech_signed_in :: "'a session_scheme session_env \<Rightarrow> qstring \<Rightarrow> bool \<Rightarrow> 'a session_scheme step" where
  "speech_signed_in E provider signed_in s = do {
     s \<leftarrow> (if signed_in then sn_call E (PreviewDisplayChanged []) s else Some s);
     note_sign_in E provider signed_in s }"

definition speech_secrets_resolved :: "app_settings \<Rightarrow> 'a session_scheme \<Rightarrow> 'a session_scheme" where
  "speech_secrets_resolved app s = (case se_settings s of None \<Rightarrow> s
     | Some settings \<Rightarrow> s\<lparr>se_settings := Some (settings\<lparr>ss_app := app\<rparr>)\<rparr>)"

text \<open>
  The environment of the session's speech: the registry and the transcribers
  (\<open>base\<close>), with the connections of the session's constructor.
\<close>

definition session_speech ::
  "'a session_scheme session_env \<Rightarrow> 'a session_scheme attempts_env \<Rightarrow> 'a session_scheme dictation_env" where
  "session_speech E base = \<lparr>
     dv_base = base\<lparr>ae_changed := transcript_changed E\<rparr>,
     dv_ready_to_listen = start_microphone E,
     dv_sign_in_observed = speech_signed_in E,
     dv_ran = (\<lambda>provider s. Some (note_ran Speech provider s)),
     dv_passed_over = note_provider_issue E Speech,
     dv_renewing_sign_in = sn_call E PopupSignInRenewal,
     dv_secrets_resolved = (\<lambda>app s. Some (speech_secrets_resolved app s)),
     dv_words_may_be_missing = (\<lambda>f s. Some (s\<lparr>se_warning := part_missing_warning f\<rparr>)),
     dv_held_past_budget = held_past_the_budget E,
     dv_ended = (\<lambda>s. begin_refinement E (se_generation s) s),
     dv_failed = end_speech_after_failure E,
     dv_exhausted = speech_chain_exhausted E\<rparr>"

section \<open>What the microphone says\<close>

definition microphone_started :: "'a session_scheme session_env \<Rightarrow> 'a session_scheme step" where
  "microphone_started E s =
     (if se_microphone s \<noteq> MicStarting then Some s
      else let s = s\<lparr>se_microphone := MicOn\<rparr> in
        if se_state s \<noteq> SStarting then Some s else announce E SListening [] no_action (dict_listen s))"

definition microphone_failed :: "'a session_scheme session_env \<Rightarrow> qstring \<Rightarrow> 'a session_scheme step" where
  "microphone_failed E message s0 =
     (let was = se_microphone s0; s = s0\<lparr>se_microphone := MicOff\<rparr> in
      if was = MicOff then Some s
      else if se_state s = SStarting then do {
        s \<leftarrow> sn_call E SpeechCancel s;
        fail_session E message no_action s }
      else if was = MicStarting then stop_listening E s
      else if \<not> ts_is_empty (sn_chars E) s \<or> se_heard_speech s
      then stop_listening E (s\<lparr>se_message := message, se_used_raw := True\<rparr>)
      else do {
        s \<leftarrow> sn_call E SpeechCancel s;
        fail_session E message no_action s })"

text \<open>The float 0.02f, exactly.\<close>

definition k_speech_level :: rat where
  "k_speech_level = 10737418 / 536870912"

definition hear_level :: "'a session_scheme session_env \<Rightarrow> rat \<Rightarrow> 'a session_scheme step" where
  "hear_level E level s = do {
     s \<leftarrow> sn_call E (AudioLevelChanged level) s;
     Some (if se_state s = SListening \<and> level \<ge> k_speech_level then s\<lparr>se_heard_speech := True\<rparr> else s) }"

definition hear_audio :: "'a session_scheme session_env \<Rightarrow> pcm \<Rightarrow> 'a session_scheme step" where
  "hear_audio E audio s =
     (if se_settings s = None \<or> \<not> (se_state s = SStarting \<or> se_state s = SListening \<or> se_state s = SStopping)
      then Some s else sn_call E (SpeechHear audio) s)"

section \<open>What the refiner says\<close>

datatype refiner_signal = RefinerDelta qstring | RefinerCompleted qstring | RefinerFailed provider_failure

definition refiner_is_current :: "nat \<Rightarrow> 'a session_scheme \<Rightarrow> bool" where
  "refiner_is_current revision s \<longleftrightarrow> se_state s = SRefining \<and> se_refinement_generation s = se_generation s
     \<and> se_revision s = revision"

definition refiner_delta :: "'a session_scheme session_env \<Rightarrow> qstring \<Rightarrow> 'a session_scheme step" where
  "refiner_delta E words s =
     (if pl_edits_selection (se_pipeline s) then Some s
      else let s = s\<lparr>se_stream := se_stream s @ words\<rparr> in
        if \<not> ui_refinement_preview (se_ui s) then sn_call E (PopupRefinementPreview []) s
        else sn_call E (PopupRefinementPreview (last_words (sn_chars E)
               (restore_for_preview (se_stream s) (se_replacements s)) (ui_preview_words (se_ui s)))) s)"

definition refiner_completed :: "'a session_scheme session_env \<Rightarrow> qstring \<Rightarrow> 'a session_scheme step" where
  "refiner_completed E answer s0 =
     (let edits = pl_edits_selection (se_pipeline s0) in
      case restore_refined_result (sn_chars E) (se_pipeline s0) answer of
        None \<Rightarrow>
          if edits then fail_selection_edit E ''The refinement model returned an unusable selection edit'' s0
          else deliver_final E (pl_fallback (se_pipeline s0)) [] None s0
      | Some refined \<Rightarrow>
          let s = s0\<lparr>se_message := [], se_used_raw := False\<rparr> in
          if edits \<and> ui_selection_edit_review (se_ui s) then review_selection_edit E refined s
          else if session_following s then do {
            s \<leftarrow> revise_selection_edit E refined s;
            (step, s) \<leftarrow> set_state E SReviewing [] no_action (s\<lparr>se_refinement_generation := 0\<rparr>);
            (if step \<noteq> se_step s then Some s else replace_with_revision E s) }
          else deliver_final E refined [] None s)"

definition refiner_sends :: "'a session_scheme session_env \<Rightarrow> nat \<Rightarrow> refiner_signal \<Rightarrow> 'a session_scheme step" where
  "refiner_sends E refiner signal s = (case se_connection s of
     None \<Rightarrow> Some s
   | Some (r, revision) \<Rightarrow>
       if r \<noteq> refiner \<or> \<not> refiner_is_current revision s then Some s
       else case signal of
         RefinerDelta words \<Rightarrow> refiner_delta E words s
       | RefinerCompleted answer \<Rightarrow> refiner_completed E answer s
       | RefinerFailed f \<Rightarrow> handle_refinement_failure E f s)"

section \<open>What the platform answers\<close>

text \<open>An answer is given once, to a question asked.\<close>

definition target_captured :: "'a session_scheme session_env \<Rightarrow> target_question \<Rightarrow> target \<Rightarrow> 'a session_scheme step" where
  "target_captured E q t s0 =
     (if q \<notin> set (se_asked s0) then Some s0
      else let s = s0\<lparr>se_asked := remove1 q (se_asked s0)\<rparr> in
        case q of
          AskStart generation step \<Rightarrow>
            if generation = se_generation s \<and> step = se_step s then continue_startup_with_target E generation t s
            else Some s
        | AskSelection step \<Rightarrow> selection_checked E step
            (tg_selected_text t = tg_selected_text (se_target s)
             \<and> tg_selection_start t = tg_selection_start (se_target s)
             \<and> tg_selection_end t = tg_selection_end (se_target s)) s
        | AskFocus step \<Rightarrow> Some s0)"

definition focus_matched :: "'a session_scheme session_env \<Rightarrow> target_question \<Rightarrow> focus_match \<Rightarrow> 'a session_scheme step" where
  "focus_matched E q focus s0 =
     (if q \<notin> set (se_asked s0) then Some s0
      else let s = s0\<lparr>se_asked := remove1 q (se_asked s0)\<rparr> in
        case q of
          AskFocus step \<Rightarrow>
            if focus \<noteq> FocusSame \<or> step \<noteq> se_step s then selection_checked E step False s
            else ask_target E CaptureTarget (AskSelection step) s
        | _ \<Rightarrow> Some s0)"

definition screenshot_captured :: "nat list \<Rightarrow> qstring \<Rightarrow> 'a session_scheme \<Rightarrow> 'a session_scheme" where
  "screenshot_captured picture media_type s = (case se_settings s of
     None \<Rightarrow> s
   | Some settings \<Rightarrow>
       if se_screenshot_generation s \<noteq> se_generation s \<or> \<not> rc_include_screenshot (ss_choices settings) then s
       else s\<lparr>se_screenshot := picture, se_screenshot_type := media_type\<rparr>)"

section \<open>Everything that reaches a session\<close>

definition set_reachability :: "reachability \<Rightarrow> 'a session_scheme \<Rightarrow> 'a session_scheme" where
  "set_reachability r s = (let s = chain_set_reachability r (s\<lparr>se_reachability := r\<rparr>)
     in s\<lparr>se_chain := rchain_set_reachability r (se_chain s)\<rparr>)"

definition settings_saved :: "session_settings \<Rightarrow> 'a session_scheme \<Rightarrow> 'a session_scheme" where
  "settings_saved saved s = s\<lparr>se_saved := saved, se_ui := ss_ui saved\<rparr>"

definition completion_timeout :: "'a session_scheme session_env \<Rightarrow> 'a session_scheme step" where
  "completion_timeout E s =
     (if se_completion s = None then Some s
      else let s = s\<lparr>se_completion := None\<rparr> in
        if se_state s \<noteq> SDelivering then Some s else end_quietly E s)"

definition hide_timeout :: "'a session_scheme session_env \<Rightarrow> nat \<Rightarrow> 'a session_scheme step" where
  "hide_timeout E generation s =
     (if generation = se_generation s \<and> se_state s = SIdle then sn_call E PopupHide s else Some s)"

datatype session_command =
    Toggle session_overrides
  | StartListening session_overrides
  | StopListening
  | CancelForShutdown
  | CancelSession
  | ReplaceSelection
  | PauseSession
  | ResumeSession
  | TogglePause
  | PopupPresented nat
  | SetReachability reachability
  | SetReviewKeys review_keys
  | SaveSettings session_settings

definition session_command :: "'a session_scheme session_env \<Rightarrow> session_command \<Rightarrow> 'a session_scheme step" where
  "session_command E c s = (case c of
     Toggle overrides \<Rightarrow> toggle_session E overrides s
   | StartListening overrides \<Rightarrow> start_session E overrides s
   | StopListening \<Rightarrow> stop_listening E s
   | CancelForShutdown \<Rightarrow> cancel_for_shutdown E s
   | CancelSession \<Rightarrow> cancel_session E s
   | ReplaceSelection \<Rightarrow> replace_selection E s
   | PauseSession \<Rightarrow> pause_session E s
   | ResumeSession \<Rightarrow> resume_session E s
   | TogglePause \<Rightarrow> toggle_pause E s
   | PopupPresented generation \<Rightarrow> continue_startup E generation s
   | SetReachability r \<Rightarrow> Some (set_reachability r s)
   | SetReviewKeys keys \<Rightarrow> set_review_keys E keys s
   | SaveSettings saved \<Rightarrow> Some (settings_saved saved s))"

datatype session_event =
    MicrophoneStarted
  | MicrophoneStopped
  | MicrophoneFailed qstring
  | MicrophoneLevel rat
  | MicrophoneAudio pcm
  | TargetCaptured target_question target
  | FocusMatched target_question focus_match
  | ScreenshotCaptured "nat list" qstring
  | RefinerSends nat refiner_signal
  | RefinerThreadEnds nat worker_results
  | DeliveryAnswered delivery_result
  | PaintTimeout nat
  | CompletionTimeout
  | HideTimeout nat
  | SessionClockTicks nat

definition session_event :: "'a session_scheme session_env \<Rightarrow> session_event \<Rightarrow> 'a session_scheme step" where
  "session_event E e s = (case e of
     MicrophoneStarted \<Rightarrow> microphone_started E s
   | MicrophoneStopped \<Rightarrow> microphone_stopped E s
   | MicrophoneFailed message \<Rightarrow> microphone_failed E message s
   | MicrophoneLevel level \<Rightarrow> hear_level E level s
   | MicrophoneAudio audio \<Rightarrow> hear_audio E audio s
   | TargetCaptured q t \<Rightarrow> target_captured E q t s
   | FocusMatched q focus \<Rightarrow> focus_matched E q focus s
   | ScreenshotCaptured picture media_type \<Rightarrow> Some (screenshot_captured picture media_type s)
   | RefinerSends r signal \<Rightarrow> refiner_sends E r signal s
   | RefinerThreadEnds i w \<Rightarrow> rchain_thread_finished (session_refinement E) i w s
   | DeliveryAnswered result \<Rightarrow> finish_delivery E result s
   | PaintTimeout generation \<Rightarrow> continue_startup E generation s
   | CompletionTimeout \<Rightarrow> completion_timeout E s
   | HideTimeout generation \<Rightarrow> hide_timeout E generation s
   | SessionClockTicks d \<Rightarrow> Some (s\<lparr>at_now := at_now s + d\<rparr>))"

text \<open>The destructor, and a session as the constructor leaves it.\<close>

definition session_destroyed :: "'a session_scheme session_env \<Rightarrow> 'a session_scheme step" where
  "session_destroyed E s = do {
     s \<leftarrow> sn_call E SpeechCancel s;
     s \<leftarrow> (case se_refiner s of None \<Rightarrow> Some s | Some r \<Rightarrow> sn_call E (RefinerCancel r) s);
     clear_screenshot E s }"

end
