(* ===== verification/Session_Runs.thy ===== *)
theory Session_Runs
  imports Dictation_Session
begin

text \<open>
  Runs of a Dictation Session: the person's commands, the microphone, the target,
  the refiner, the threads, the deliveries and the timers, in any order, with the
  session commanded again from inside what it calls.

  A call takes the next script of the run and carries out of it what such a call
  may lead to: a signal's handlers command the session; a call of the speech lets
  the speech say anything it may say in its phase; a refiner may send from inside
  refine() and cancel(); the platform may answer, and anything else happen, from
  inside capture() and focusMatch(). The ports of DictationPorts.h that promise
  not to call back, the popup and the timers only take the call. The log keeps
  every call with the generation it was made in.
\<close>

section \<open>Runs\<close>

datatype speech_signal =
    SpeechReady
  | SpeechSignedIn qstring bool
  | SpeechRan qstring
  | SpeechPassedOver qstring issue_stage provider_failure
  | SpeechRenewsSignIn
  | SpeechSecrets app_settings
  | SpeechMissesWords speech_failure
  | SpeechHeldTooMuch
  | SpeechWords "qstring list" qstring
  | SpeechEnds
  | SpeechFails speech_failure
  | SpeechExhausts speech_failure

datatype session_act = Command session_command | Event session_event | Says speech_signal

record session_run = session +
  sx_scripts :: "session_act list list"
  sx_log :: "(nat \<times> session_call) list"
  sx_refining :: "nat option"

text \<open>What surrounds a run and never changes.\<close>

record session_world =
  gw_lib :: qt_lib
  gw_shape :: shape
  gw_upper :: "qstring \<Rightarrow> qstring"
  gw_labels :: provider_labels
  gw_date :: qstring
  gw_time :: qstring
  gw_reads_target :: bool
  gw_takes_screenshots :: bool
  gw_offers_speech :: "qstring \<Rightarrow> bool"
  gw_offers_refiner :: "qstring \<Rightarrow> nat option"
  gw_reads_screenshots :: "qstring \<Rightarrow> bool"
  gw_refresh_job :: "nat \<Rightarrow> refinement_settings \<Rightarrow> account_settings \<Rightarrow> prep_job option"
  gw_prepare :: "nat \<Rightarrow> refinement_settings \<Rightarrow> account_settings \<Rightarrow> provider_failure option"

text \<open>
  The speech as the session knows it: it says nothing before it is started or
  once it has ended; the microphone may start only before the session listens,
  and the speech ends only once the microphone of a stop has stopped. What ends it
  finds it idle, as in DictationSpeech.
\<close>

definition speech_runs_now :: "'a dictation_scheme \<Rightarrow> bool" where
  "speech_runs_now s \<longleftrightarrow> dt_settings s \<noteq> None \<and> dt_phase s \<noteq> IdlePhase"

definition speech_says :: "'a session_scheme session_env \<Rightarrow> speech_signal \<Rightarrow> 'a session_scheme step" where
  "speech_says E signal s =
     (if \<not> speech_runs_now s then Some s
      else case signal of
        SpeechReady \<Rightarrow> if dt_phase s = Starting then start_microphone E s else Some s
      | SpeechSignedIn provider b \<Rightarrow> speech_signed_in E provider b s
      | SpeechRan provider \<Rightarrow> Some (note_ran Speech provider s)
      | SpeechPassedOver provider stage f \<Rightarrow> note_provider_issue E Speech provider stage f s
      | SpeechRenewsSignIn \<Rightarrow> sn_call E PopupSignInRenewal s
      | SpeechSecrets app \<Rightarrow> Some (speech_secrets_resolved app s)
      | SpeechMissesWords f \<Rightarrow> Some (s\<lparr>se_warning := part_missing_warning f\<rparr>)
      | SpeechHeldTooMuch \<Rightarrow> held_past_the_budget E s
      | SpeechWords finals partial \<Rightarrow>
          (let s = s\<lparr>ts_finals := finals, ts_partial := partial\<rparr> in transcript_changed E (ts_text (sn_chars E) s) s)
      | SpeechEnds \<Rightarrow>
          if dt_phase s = Stopping \<and> dt_microphone_stopped s
          then begin_refinement E (se_generation s) (s\<lparr>dt_phase := IdlePhase\<rparr>) else Some s
      | SpeechFails f \<Rightarrow> end_speech_after_failure E f (s\<lparr>dt_phase := IdlePhase\<rparr>)
      | SpeechExhausts f \<Rightarrow> speech_chain_exhausted E f (s\<lparr>dt_phase := IdlePhase\<rparr>))"

text \<open>
  A refiner sends only what refine() asked for, and nothing once it has answered;
  a delivery is answered once asked for.
\<close>

definition run_event :: "session_run session_env \<Rightarrow> session_event \<Rightarrow> session_run step" where
  "run_event E e s = (case e of
     RefinerSends r signal \<Rightarrow>
       if sx_refining s \<noteq> Some r then Some s
       else refiner_sends E r signal (case signal of RefinerDelta _ \<Rightarrow> s | _ \<Rightarrow> s\<lparr>sx_refining := None\<rparr>)
   | DeliveryAnswered result \<Rightarrow> if se_unanswered s \<le> 0 then Some s else finish_delivery E result s
   | _ \<Rightarrow> session_event E e s)"

definition session_act :: "session_run session_env \<Rightarrow> session_act \<Rightarrow> session_run step" where
  "session_act E a s = (case a of
     Command c \<Rightarrow> session_command E c s
   | Event e \<Rightarrow> run_event E e s
   | Says signal \<Rightarrow> speech_says E signal s)"

fun session_acts :: "session_run session_env \<Rightarrow> session_act list \<Rightarrow> session_run step" where
  "session_acts E [] s = Some s"
| "session_acts E (a # as) s = do { s \<leftarrow> session_act E a s; session_acts E as s }"

text \<open>The signals whose handlers may command the session.\<close>

fun heard_outside :: "session_call \<Rightarrow> bool" where
  "heard_outside (StateChanged _) = True"
| "heard_outside (StatusChanged _) = True"
| "heard_outside (PreviewChanged _) = True"
| "heard_outside (PreviewDisplayChanged _) = True"
| "heard_outside (TranscriptDelivered _) = True"
| "heard_outside (DictationRecorded _) = True"
| "heard_outside (PopupShow _) = True"
| "heard_outside (PopupRefinementPreview _) = True"
| "heard_outside (PopupReview _) = True"
| "heard_outside (SignInObserved _ _) = True"
| "heard_outside (RecordVocabularyUsage _) = True"
| "heard_outside _ = False"

fun may_lead_to :: "session_call \<Rightarrow> session_act \<Rightarrow> bool" where
  "may_lead_to (SpeechStart _ _) a = (case a of Event _ \<Rightarrow> False | _ \<Rightarrow> True)"
| "may_lead_to SpeechProceed a = (case a of Event _ \<Rightarrow> False | _ \<Rightarrow> True)"
| "may_lead_to (SpeechHear _) a = (case a of Event _ \<Rightarrow> False | _ \<Rightarrow> True)"
| "may_lead_to (RefinerRefine _ _ _ _ _ _ _) a = (case a of Event (RefinerSends _ _) \<Rightarrow> True | _ \<Rightarrow> False)"
| "may_lead_to (RefinerCancel _) a = (case a of Event (RefinerSends _ _) \<Rightarrow> True | _ \<Rightarrow> False)"
| "may_lead_to (CaptureTarget _) a = True"
| "may_lead_to (MatchFocus _ _) a = True"
| "may_lead_to c a = (heard_outside c \<and> (case a of Command _ \<Rightarrow> True | _ \<Rightarrow> False))"

definition logged :: "session_call \<Rightarrow> session_run \<Rightarrow> session_run" where
  "logged c s = s\<lparr>sx_log := sx_log s @ [(se_generation s, c)]\<rparr>"

definition run_call :: "(session_call \<Rightarrow> session_run step) \<Rightarrow> session_call \<Rightarrow> session_run step" where
  "run_call react c s0 = (let s = logged c s0 in case c of
     SpeechStart app refiner \<Rightarrow> react c (s\<lparr>dt_settings := Some app, dt_refiner := refiner\<rparr>)
   | SpeechProceed \<Rightarrow> react c (if dt_phase s = Stopping then s\<lparr>dt_microphone_stopped := True\<rparr> else s)
   | SpeechCancel \<Rightarrow> Some (s\<lparr>dt_settings := None, dt_phase := IdlePhase\<rparr>)
   | RefinerRefine r _ _ _ _ _ _ \<Rightarrow> react c (s\<lparr>sx_refining := Some r\<rparr>)
   | RefinerCancel r \<Rightarrow> do { s \<leftarrow> react c s; Some (s\<lparr>sx_refining := None\<rparr>) }
   | _ \<Rightarrow> react c s)"

definition run_session_env ::
  "session_world \<Rightarrow> (session_call \<Rightarrow> session_run step) \<Rightarrow> session_run session_env" where
  "run_session_env G react = \<lparr>
     sn_lib = gw_lib G, sn_shape = gw_shape G, sn_upper = gw_upper G, sn_labels = gw_labels G,
     sn_date = (\<lambda>s. gw_date G), sn_time = (\<lambda>s. gw_time G),
     sn_reads_target = gw_reads_target G, sn_takes_screenshots = gw_takes_screenshots G,
     sn_offers_speech = gw_offers_speech G, sn_offers_refiner = gw_offers_refiner G,
     sn_reads_screenshots = gw_reads_screenshots G,
     sn_select_speech = (\<lambda>sp s. Some (if gw_offers_speech G (sp_provider sp)
        then (True, chain_begin (sp_provider sp) (sp_fallbacks sp) s) else (False, s))),
     sn_refresh_job = gw_refresh_job G, sn_prepare = gw_prepare G, sn_apply = (\<lambda>n f. Some),
     sn_call = run_call react\<rparr>"

text \<open>What a call sets off: the next script, its own calls one level deeper.\<close>

primrec session_react :: "session_world \<Rightarrow> nat \<Rightarrow> session_call \<Rightarrow> session_run step" where
  "session_react G 0 = (\<lambda>c. Some)"
| "session_react G (Suc n) = (\<lambda>c s. case sx_scripts s of
     [] \<Rightarrow> Some s
   | script # rest \<Rightarrow> session_acts (run_session_env G (session_react G n)) (filter (may_lead_to c) script)
       (s\<lparr>sx_scripts := rest\<rparr>))"

definition session_runs_to :: "session_world \<Rightarrow> nat \<Rightarrow> session_act list \<Rightarrow> session_run step" where
  "session_runs_to G n = session_acts (run_session_env G (session_react G n))"

text \<open>A session as its constructor leaves it.\<close>

definition rchain_init :: rchain where
  "rchain_init = \<lparr>rf_ids = [], rf_index = 0, rf_reachability = ReachUnknown, rf_settings = default_app_settings,
     rf_services = default_refinement_settings, rf_choices = ss_choices default_session_settings,
     rf_refiner = None, rf_generation = 0, rf_runner = runner_init\<rparr>"

definition session_init :: "session_settings \<Rightarrow> session_act list list \<Rightarrow> session_run" where
  "session_init saved scripts = \<lparr>ts_finals = [], ts_partial = [], ts_attempt_base = [], ts_attempt_language = [],
     ts_heard_language = [], ch_ids = [], ch_index = 0,
     ch_options = \<lparr>co_streamed_finals_only = False, co_ready_later = False\<rparr>,
     ch_reachability = ReachUnknown, ch_settings = default_app_settings, ch_refiner = None,
     ch_refiner_refreshed = False, ch_renewing = False, ch_runner = runner_init,
     at_transcriber = None, at_connections = [], at_id = 0, at_policy = policy_init, at_now = 0,
     at_provider_attempts = 0, at_provider_connected = False, at_attempt_connected = False,
     at_attempt_sent_audio = False, dt_phase = IdlePhase, dt_settings = None, dt_refiner = None,
     dt_between = between_init, dt_switch_failure = no_speech_failure, dt_microphone_starting = False,
     dt_microphone_stopped = False, dt_no_attempt_to_finish = False, dt_finish_owed = False,
     dt_open_owed = False, dt_empty_resumed = 0, dt_retired = 0,
     se_saved = saved, se_ui = ss_ui saved, se_state = SIdle, se_message = [], se_warning = [],
     se_last_transcript = [], se_review = no_review, se_pipeline = no_pipeline, se_generation = 0, se_step = 0,
     se_continued = 0, se_settings = None, se_choices = no_choices, se_target = no_target, se_screenshot = [],
     se_screenshot_type = [], se_screenshot_generation = 0, se_refinement_generation = 0, se_stream = [],
     se_replacements = Map.empty, se_heard_speech = False, se_clock = 0, se_listening_ms = 0, se_revision = 0,
     se_used_raw = False, se_history = no_history, se_awaited = no_delivery, se_unanswered = 0,
     se_reachability = ReachUnknown, se_microphone = MicOff, se_held = False, se_listening = False,
     se_refiner = None, se_connection = None, se_chain = rchain_init, se_chain_saved = saved,
     se_completion = None, se_asked = [],
     sx_scripts = scripts, sx_log = [], sx_refining = None\<rparr>"

section \<open>What every run keeps\<close>

definition is_out :: "session_call \<Rightarrow> bool" where
  "is_out c \<longleftrightarrow> (case c of TranscriptDelivered _ \<Rightarrow> True | _ \<Rightarrow> False)"

definition is_delivery :: "session_call \<Rightarrow> bool" where
  "is_delivery c \<longleftrightarrow> (case c of Deliver _ _ _ \<Rightarrow> True | _ \<Rightarrow> is_out c)"

text \<open>The deliveries asked for and the words that went out, with their generations.\<close>

definition outgoing :: "(nat \<times> session_call) list \<Rightarrow> (nat \<times> session_call) list" where
  "outgoing calls = filter (\<lambda>x. is_delivery (snd x)) calls"

definition once_out :: "(nat \<times> session_call) list \<Rightarrow> bool" where
  "once_out calls \<longleftrightarrow> sorted_wrt (\<lambda>x y. is_out (snd x) \<longrightarrow> fst x < fst y) (outgoing calls)"

fun start_asks :: "target_question list \<Rightarrow> nat list" where
  "start_asks [] = []"
| "start_asks (AskStart g n # qs) = g # start_asks qs"
| "start_asks (q # qs) = start_asks qs"

definition ask_ok :: "session_run \<Rightarrow> target_question \<Rightarrow> bool" where
  "ask_ok s q = (case q of
     AskStart g n \<Rightarrow> g \<le> se_generation s \<and> n \<le> se_step s
       \<and> (g = se_generation s \<longrightarrow> se_continued s = g
          \<and> (n = se_step s \<longrightarrow> se_state s = SStarting \<and> dt_settings s = None))
   | AskFocus n \<Rightarrow> n \<le> se_step s \<and> (n = se_step s \<longrightarrow> se_state s = SReviewing)
   | AskSelection n \<Rightarrow> n \<le> se_step s \<and> (n = se_step s \<longrightarrow> se_state s = SReviewing))"

text \<open>The state the session shows in a phase of its speech.\<close>

definition phase_state :: "speech_state \<Rightarrow> dictation_state" where
  "phase_state p = (case p of IdlePhase \<Rightarrow> SIdle | Starting \<Rightarrow> SStarting | Listening \<Rightarrow> SListening
     | Paused \<Rightarrow> SPaused | Stopping \<Rightarrow> SStopping)"

text \<open>The chain's preparation under way.\<close>

definition chain_task :: "rchain \<Rightarrow> prep_task option" where
  "chain_task c = map_option snd (rn_current (rf_runner c))"

definition task_ok :: "prep_task \<Rightarrow> nat option \<Rightarrow> bool" where
  "task_ok t refiner = (case t of PrepareSpeech _ _ \<Rightarrow> False | PrepareRefiner _ \<Rightarrow> refiner \<noteq> None | _ \<Rightarrow> True)"

definition chain_ok :: "session_run \<Rightarrow> bool" where
  "chain_ok s \<longleftrightarrow>
     (chain_task (se_chain s) \<noteq> None \<longrightarrow> se_state s = SRefining
        \<and> se_refinement_generation s = se_generation s \<and> sx_refining s = None
        \<and> task_ok (the (chain_task (se_chain s))) (rf_refiner (se_chain s)))
   \<and> (rf_refiner (se_chain s) \<noteq> None \<longrightarrow> se_refiner s \<noteq> None)
   \<and> (sx_refining s \<noteq> None \<longrightarrow> se_state s = SRefining \<and> se_refiner s = sx_refining s)"

definition outgoing_ok :: "session_run \<Rightarrow> bool" where
  "outgoing_ok s \<longleftrightarrow> once_out (sx_log s) \<and> (\<forall>x\<in>set (outgoing (sx_log s)). fst x \<le> se_generation s
     \<and> (is_out (snd x) \<and> fst x = se_generation s \<longrightarrow>
          se_state s \<in> {SDelivering, SIdle} \<and> ad_step (se_awaited s) \<noteq> se_step s))"

definition rest_ok :: "session_run \<Rightarrow> bool" where
  "rest_ok s \<longleftrightarrow>
     (se_state s \<notin> {SIdle, SError, SDelivering} \<longrightarrow> se_settings s \<noteq> None)
   \<and> (speech_runs_now s \<longrightarrow> se_state s = phase_state (dt_phase s))
   \<and> (se_state s = SStarting \<longrightarrow> dt_phase s = Starting \<or> dt_phase s = IdlePhase)
   \<and> (se_microphone s \<noteq> MicOff \<longrightarrow> se_state s \<in> {SStarting, SListening, SStopping})
   \<and> (speech_runs_now s \<and> dt_phase s = Stopping \<and> dt_microphone_stopped s \<longrightarrow> se_microphone s = MicOff)
   \<and> (session_following s \<or> se_state s = SReviewing \<longrightarrow> ew_revision (se_review s) \<noteq> None)
   \<and> se_refinement_generation s \<le> se_generation s
   \<and> (se_state s \<noteq> SIdle \<longrightarrow> 0 < se_generation s)
   \<and> list_all (ask_ok s) (se_asked s) \<and> distinct (start_asks (se_asked s))
   \<and> (se_state s = SStarting \<and> dt_settings s \<noteq> None \<longrightarrow> se_continued s = se_generation s)
   \<and> ad_step (se_awaited s) \<le> se_step s
   \<and> (ad_step (se_awaited s) = se_step s \<and> 0 < se_step s \<longrightarrow> se_state s = SDelivering)
   \<and> (0 < se_unanswered s \<longrightarrow> 0 < se_step s)"

definition session_ok :: "session_run \<Rightarrow> bool" where
  "session_ok s \<longleftrightarrow> rest_ok s \<and> chain_ok s \<and> outgoing_ok s"

text \<open>What the log of a state was extended with to reach that of another.\<close>

definition log_grows :: "session_run \<Rightarrow> session_run \<Rightarrow> bool" where
  "log_grows s s' \<longleftrightarrow> (\<exists>new. sx_log s' = sx_log s @ new \<and> (\<forall>x\<in>set new. se_generation s \<le> fst x))"

text \<open>
  The two counters of DictationSession.h: whatever moves a session on counts a
  step, and a session that starts or is thrown away a generation.
\<close>

definition moved :: "session_run \<Rightarrow> session_run \<Rightarrow> bool" where
  "moved s s' \<longleftrightarrow> se_generation s \<le> se_generation s' \<and> se_step s \<le> se_step s'
     \<and> (se_step s' = se_step s \<longrightarrow> se_state s' = se_state s \<and> se_generation s' = se_generation s)
     \<and> log_grows s s' \<and> (se_refiner s \<noteq> None \<longrightarrow> se_refiner s' \<noteq> None)
     \<and> rf_generation (se_chain s) \<le> rf_generation (se_chain s')"

definition frozen :: "session_run \<Rightarrow> session_run \<Rightarrow> bool" where
  "frozen s s' \<longleftrightarrow> se_refinement_generation s' = se_refinement_generation s
     \<and> rchain_stays (se_chain s) (se_chain s') \<and> rf_generation (se_chain s') = rf_generation (se_chain s)
     \<and> rf_refiner (se_chain s') = rf_refiner (se_chain s)
     \<and> (chain_task (se_chain s) = None \<longrightarrow> chain_task (se_chain s') = None)
     \<and> (sx_refining s = None \<longrightarrow> sx_refining s' = None)
     \<and> (se_microphone s = MicOff \<longrightarrow> se_microphone s' = MicOff)
     \<and> (\<not> speech_runs_now s \<longrightarrow> \<not> speech_runs_now s')
     \<and> outgoing (sx_log s') = outgoing (sx_log s)"

text \<open>What a command, made from inside a call of the session, may have done to it.\<close>

definition led :: "session_run \<Rightarrow> session_run \<Rightarrow> bool" where
  "led s s' \<longleftrightarrow> moved s s'
     \<and> (se_state s \<in> {SStopping, SRefining, SDelivering} \<and> se_step s' = se_step s \<longrightarrow> frozen s s')
     \<and> (se_state s \<in> {SStopping, SRefining} \<and> rf_generation (se_chain s') = rf_generation (se_chain s)
          \<longrightarrow> se_step s' = se_step s)
     \<and> (se_state s = SStopping \<and> se_generation s' = se_generation s \<longrightarrow> se_step s' = se_step s)
     \<and> (se_state s = SStarting \<and> se_continued s = se_generation s \<and> \<not> speech_runs_now s \<and> se_step s' = se_step s
          \<longrightarrow> \<not> speech_runs_now s' \<and> se_continued s' = se_generation s')"

definition same_session :: "session_run \<Rightarrow> session_run \<Rightarrow> bool" where
  "same_session s s' \<longleftrightarrow> se_state s' = se_state s \<and> se_step s' = se_step s \<and> se_generation s' = se_generation s
     \<and> se_refinement_generation s' = se_refinement_generation s \<and> se_settings s' = se_settings s
     \<and> se_microphone s' = se_microphone s \<and> se_review s' = se_review s \<and> se_continued s' = se_continued s
     \<and> se_asked s' = se_asked s \<and> se_chain s' = se_chain s \<and> se_refiner s' = se_refiner s
     \<and> se_awaited s' = se_awaited s \<and> se_unanswered s' = se_unanswered s \<and> sx_refining s' = sx_refining s
     \<and> outgoing (sx_log s') = outgoing (sx_log s) \<and> log_grows s s'"

text \<open>Nothing the invariant minds has changed.\<close>

definition calm :: "session_run \<Rightarrow> session_run \<Rightarrow> bool" where
  "calm s s' \<longleftrightarrow> same_session s s' \<and> dt_settings s' = dt_settings s \<and> dt_phase s' = dt_phase s
     \<and> dt_microphone_stopped s' = dt_microphone_stopped s"

lemma log_grows_refl [simp]: "log_grows s s"
  by (simp add: log_grows_def)

lemma log_grows_trans: "log_grows s s' \<Longrightarrow> log_grows s' s'' \<Longrightarrow> se_generation s \<le> se_generation s' \<Longrightarrow> log_grows s s''"
  by (fastforce simp: log_grows_def)

lemma moved_refl [simp]: "moved s s"
  by (simp add: moved_def)

lemma moved_trans: "moved s s' \<Longrightarrow> moved s' s'' \<Longrightarrow> moved s s''"
  by (auto simp: moved_def intro: log_grows_trans)

lemma frozen_refl [simp]: "frozen s s"
  by (simp add: frozen_def rchain_stays_def)

lemma frozen_trans: "frozen s s' \<Longrightarrow> frozen s' s'' \<Longrightarrow> frozen s s''"
  by (simp add: frozen_def rchain_stays_def)

lemma led_refl [simp]: "led s s"
  by (simp add: led_def)

lemma led_moved: "led s s' \<Longrightarrow> moved s s'"
  by (simp add: led_def)

lemma led_trans:
  assumes a: "led s s'" and b: "led s' s''"
  shows "led s s''"
proof -
  have m: "moved s s'" "moved s' s''" "moved s s''" using assms led_moved moved_trans by blast+
  have le: "se_step s \<le> se_step s'" "se_step s' \<le> se_step s''" "se_generation s \<le> se_generation s'"
    "se_generation s' \<le> se_generation s''" using m by (simp_all add: moved_def)
  have rle: "rf_generation (se_chain s) \<le> rf_generation (se_chain s')"
    "rf_generation (se_chain s') \<le> rf_generation (se_chain s'')" using m by (simp_all add: moved_def)
  have step: "se_step s' = se_step s" "se_step s'' = se_step s'" if "se_step s'' = se_step s"
    using le that by simp_all
  have gen: "se_generation s' = se_generation s" "se_generation s'' = se_generation s'"
    if "se_generation s'' = se_generation s" using le that by simp_all
  have rf: "rf_generation (se_chain s') = rf_generation (se_chain s)"
    "rf_generation (se_chain s'') = rf_generation (se_chain s')"
    if "rf_generation (se_chain s'') = rf_generation (se_chain s)" using rle that by simp_all
  have same: "se_state s' = se_state s" "se_generation s' = se_generation s" if "se_step s' = se_step s"
    using m(1) that unfolding moved_def by simp_all
  note A = a[unfolded led_def] and B = b[unfolded led_def]
  show ?thesis
    unfolding led_def
  proof (intro conjI impI)
    assume h: "se_state s \<in> {SStopping, SRefining, SDelivering} \<and> se_step s'' = se_step s"
    have "frozen s s'" "frozen s' s''"
      using A B h step same by auto
    thus "frozen s s''" by (rule frozen_trans)
  next
    assume h: "se_state s \<in> {SStopping, SRefining} \<and> rf_generation (se_chain s'') = rf_generation (se_chain s)"
    have 1: "se_step s' = se_step s" using A h rf(1) by auto
    have "se_step s'' = se_step s'" using B h rf(2) same(1)[OF 1] by auto
    thus "se_step s'' = se_step s" using 1 by simp
  next
    assume h: "se_state s = SStopping \<and> se_generation s'' = se_generation s"
    have 1: "se_step s' = se_step s" using A h gen(1) by auto
    have "se_step s'' = se_step s'" using B h gen(2) same(1)[OF 1] by auto
    thus "se_step s'' = se_step s" using 1 by simp
  next
    assume h: "se_state s = SStarting \<and> se_continued s = se_generation s \<and> \<not> speech_runs_now s \<and> se_step s'' = se_step s"
    have st: "se_step s' = se_step s" "se_step s'' = se_step s'" using step h by simp_all
    have 1: "\<not> speech_runs_now s'" "se_continued s' = se_generation s'" using A h st(1) by auto
    show "\<not> speech_runs_now s''" using B h 1 st(2) same(1)[OF st(1)] by auto
    show "se_continued s'' = se_generation s''" using B h 1 st(2) same(1)[OF st(1)] by auto
  qed (use m(3) in simp_all)
qed

lemma calm_refl [simp]: "calm s s"
  by (simp add: calm_def same_session_def)

lemma calm_trans: "calm s s' \<Longrightarrow> calm s' s'' \<Longrightarrow> calm s s''"
  by (auto simp: calm_def same_session_def intro: log_grows_trans)

lemmas calm_fields = calm_def same_session_def

lemma calm_led: "calm s s' \<Longrightarrow> led s s'"
  by (simp add: calm_fields led_def moved_def frozen_def rchain_stays_def speech_runs_now_def)

lemma ask_ok_calm: "calm s s' \<Longrightarrow> ask_ok s' = ask_ok s"
  by (rule ext) (simp add: calm_fields ask_ok_def split: target_question.split)

lemma session_ok_calm: "calm s s' \<Longrightarrow> session_ok s' = session_ok s"
  using ask_ok_calm[of s s']
  by (simp add: calm_fields session_ok_def rest_ok_def speech_runs_now_def chain_ok_def outgoing_ok_def once_out_def
      session_following_def)

text \<open>The members no invariant minds.\<close>

lemma calm_to [simp]:
  "calm s (t\<lparr>se_saved := x1\<rparr>) = calm s t"
  "calm s (t\<lparr>se_ui := x2\<rparr>) = calm s t"
  "calm s (t\<lparr>se_message := x3\<rparr>) = calm s t"
  "calm s (t\<lparr>se_warning := x4\<rparr>) = calm s t"
  "calm s (t\<lparr>se_last_transcript := x5\<rparr>) = calm s t"
  "calm s (t\<lparr>se_choices := x6\<rparr>) = calm s t"
  "calm s (t\<lparr>se_target := x7\<rparr>) = calm s t"
  "calm s (t\<lparr>se_screenshot := x8\<rparr>) = calm s t"
  "calm s (t\<lparr>se_screenshot_type := x9\<rparr>) = calm s t"
  "calm s (t\<lparr>se_screenshot_generation := x10\<rparr>) = calm s t"
  "calm s (t\<lparr>se_stream := x11\<rparr>) = calm s t"
  "calm s (t\<lparr>se_replacements := x12\<rparr>) = calm s t"
  "calm s (t\<lparr>se_heard_speech := x13\<rparr>) = calm s t"
  "calm s (t\<lparr>se_clock := x14\<rparr>) = calm s t"
  "calm s (t\<lparr>se_listening_ms := x15\<rparr>) = calm s t"
  "calm s (t\<lparr>se_used_raw := x16\<rparr>) = calm s t"
  "calm s (t\<lparr>se_history := x17\<rparr>) = calm s t"
  "calm s (t\<lparr>se_reachability := x18\<rparr>) = calm s t"
  "calm s (t\<lparr>se_held := x19\<rparr>) = calm s t"
  "calm s (t\<lparr>se_listening := x20\<rparr>) = calm s t"
  "calm s (t\<lparr>se_chain_saved := x21\<rparr>) = calm s t"
  "calm s (t\<lparr>se_completion := x22\<rparr>) = calm s t"
  "calm s (t\<lparr>dt_refiner := x23\<rparr>) = calm s t"
  "calm s (t\<lparr>ts_finals := x24\<rparr>) = calm s t"
  "calm s (t\<lparr>ts_partial := x25\<rparr>) = calm s t"
  "calm s (t\<lparr>at_now := x26\<rparr>) = calm s t"
  "calm s (t\<lparr>sx_scripts := x27\<rparr>) = calm s t"
  "calm s (t\<lparr>se_connection := y0\<rparr>) = calm s t"
  "calm s (t\<lparr>se_revision := y1\<rparr>) = calm s t"
  "calm s (t\<lparr>se_pipeline := y2\<rparr>) = calm s t"
  by (simp_all add: calm_fields log_grows_def)

lemma calm_from [simp]:
  "calm (t\<lparr>se_saved := x28\<rparr>) s = calm t s"
  "calm (t\<lparr>se_ui := x29\<rparr>) s = calm t s"
  "calm (t\<lparr>se_message := x30\<rparr>) s = calm t s"
  "calm (t\<lparr>se_warning := x31\<rparr>) s = calm t s"
  "calm (t\<lparr>se_last_transcript := x32\<rparr>) s = calm t s"
  "calm (t\<lparr>se_choices := x33\<rparr>) s = calm t s"
  "calm (t\<lparr>se_target := x34\<rparr>) s = calm t s"
  "calm (t\<lparr>se_screenshot := x35\<rparr>) s = calm t s"
  "calm (t\<lparr>se_screenshot_type := x36\<rparr>) s = calm t s"
  "calm (t\<lparr>se_screenshot_generation := x37\<rparr>) s = calm t s"
  "calm (t\<lparr>se_stream := x38\<rparr>) s = calm t s"
  "calm (t\<lparr>se_replacements := x39\<rparr>) s = calm t s"
  "calm (t\<lparr>se_heard_speech := x40\<rparr>) s = calm t s"
  "calm (t\<lparr>se_clock := x41\<rparr>) s = calm t s"
  "calm (t\<lparr>se_listening_ms := x42\<rparr>) s = calm t s"
  "calm (t\<lparr>se_used_raw := x43\<rparr>) s = calm t s"
  "calm (t\<lparr>se_history := x44\<rparr>) s = calm t s"
  "calm (t\<lparr>se_reachability := x45\<rparr>) s = calm t s"
  "calm (t\<lparr>se_held := x46\<rparr>) s = calm t s"
  "calm (t\<lparr>se_listening := x47\<rparr>) s = calm t s"
  "calm (t\<lparr>se_chain_saved := x48\<rparr>) s = calm t s"
  "calm (t\<lparr>se_completion := x49\<rparr>) s = calm t s"
  "calm (t\<lparr>dt_refiner := x50\<rparr>) s = calm t s"
  "calm (t\<lparr>ts_finals := x51\<rparr>) s = calm t s"
  "calm (t\<lparr>ts_partial := x52\<rparr>) s = calm t s"
  "calm (t\<lparr>at_now := x53\<rparr>) s = calm t s"
  "calm (t\<lparr>sx_scripts := x54\<rparr>) s = calm t s"
  "calm (t\<lparr>se_connection := y0\<rparr>) s = calm t s"
  "calm (t\<lparr>se_revision := y1\<rparr>) s = calm t s"
  "calm (t\<lparr>se_pipeline := y2\<rparr>) s = calm t s"
  by (simp_all add: calm_fields log_grows_def)

lemmas unminded = calm_to[THEN iffD2, OF calm_refl]

lemmas session_ok_unminded [simp] = unminded[THEN session_ok_calm]

lemma led_calm: "led s s' \<Longrightarrow> calm s' s'' \<Longrightarrow> led s s''"
  by (blast intro: led_trans calm_led)

lemma calm_moved: "calm s s' \<Longrightarrow> moved s s'"
  by (simp add: led_moved calm_led)

section \<open>What the surroundings promise\<close>

text \<open>The calls that lead to nothing, deliveries apart.\<close>

fun quiet_session_call :: "session_call \<Rightarrow> bool" where
  "quiet_session_call (SpeechStart _ _) = False"
| "quiet_session_call SpeechProceed = False"
| "quiet_session_call SpeechCancel = False"
| "quiet_session_call (SpeechHear _) = False"
| "quiet_session_call (RefinerRefine _ _ _ _ _ _ _) = False"
| "quiet_session_call (RefinerCancel _) = False"
| "quiet_session_call (CaptureTarget _) = False"
| "quiet_session_call (MatchFocus _ _) = False"
| "quiet_session_call (Deliver _ _ _) = False"
| "quiet_session_call c = (\<not> heard_outside c)"

text \<open>
  The interface between a session and what surrounds it. Handlers of its signals
  may command it; the speech, the refiner and the platform may do more, while the
  state they find is sound.
\<close>

locale session_surroundings =
  fixes E :: "session_run session_env"
  assumes quiet: "quiet_session_call c \<Longrightarrow> ends (calm s) (sn_call E c s)"
    and heard: "heard_outside c \<Longrightarrow> \<not> is_out c \<Longrightarrow> session_ok s \<Longrightarrow>
      ends (\<lambda>s'. session_ok s' \<and> led s s') (sn_call E c s)"
    and hands_out: "session_ok (logged (TranscriptDelivered w) s) \<Longrightarrow>
      ends (\<lambda>s'. session_ok s' \<and> led (logged (TranscriptDelivered w) s) s') (sn_call E (TranscriptDelivered w) s)"
    and delivers: "ends (calm (logged (Deliver os dc t) s)) (sn_call E (Deliver os dc t) s)"
    and speech_starts: "session_ok (s\<lparr>dt_settings := Some app\<rparr>) \<Longrightarrow>
      ends (\<lambda>s'. session_ok s' \<and> moved s s') (sn_call E (SpeechStart app rf) s)"
    and speech_proceeds: "session_ok (if dt_phase s = Stopping then s\<lparr>dt_microphone_stopped := True\<rparr> else s) \<Longrightarrow>
      ends (\<lambda>s'. session_ok s' \<and> moved s s') (sn_call E SpeechProceed s)"
    and speech_hears: "session_ok s \<Longrightarrow> ends (\<lambda>s'. session_ok s' \<and> moved s s') (sn_call E (SpeechHear a) s)"
    and speech_cancels: "ends (calm (s\<lparr>dt_settings := None, dt_phase := IdlePhase\<rparr>)) (sn_call E SpeechCancel s)"
    and refines: "session_ok (s\<lparr>sx_refining := Some r\<rparr>) \<Longrightarrow>
      ends (\<lambda>s'. session_ok s' \<and> moved s s') (sn_call E (RefinerRefine r ip v cx rs ch ac) s)"
    and refiner_cancels: "se_connection s = None \<or> se_refinement_generation s \<noteq> se_generation s \<Longrightarrow>
      ends (calm (s\<lparr>sx_refining := None\<rparr>)) (sn_call E (RefinerCancel r) s)"
    and captures: "session_ok s \<Longrightarrow> ends (\<lambda>s'. session_ok s' \<and> moved s s') (sn_call E (CaptureTarget q) s)"
    and matches: "session_ok s \<Longrightarrow> ends (\<lambda>s'. session_ok s' \<and> moved s s') (sn_call E (MatchFocus t q) s)"
    and selects: "ends (\<lambda>(b, s'). calm s s') (sn_select_speech E sp s)"
    and applies: "ends (calm s) (sn_apply E n f s)"
begin

lemma calm_clear_screenshot: "ends (calm s) (clear_screenshot E s)"
  using quiet[of ScreenshotCancel s] by (auto simp: clear_screenshot_def ends_def)

lemma calm_forget:
  "ends (calm (s\<lparr>se_settings := None\<rparr>)) (forget_session E s)"
  by (auto simp: forget_session_def intro!: ends_mono[OF calm_clear_screenshot])
    (auto simp: calm_fields log_grows_def)

lemma quiet_after: "quiet_session_call c \<Longrightarrow> calm s t \<Longrightarrow> ends (calm s) (sn_call E c t)"
  by (rule ends_mono[OF quiet]) (auto intro: calm_trans)

lemma calm_held: "ends (calm s) (update_microphone_held E s)"
  by (simp add: update_microphone_held_def Let_def quiet_after)

lemma calm_listening: "ends (calm s) (update_listening E s)"
  by (simp add: update_listening_def Let_def quiet_after)

lemma calm_abort: "ends (calm (s\<lparr>se_microphone := MicOff\<rparr>)) (abort_microphone E s)"
  by (auto simp: abort_microphone_def Let_def intro!: ends_mono[OF quiet] ends_mono[OF calm_held]
      intro: calm_trans)

end

end
