(* ===== verification/Session_Safety.thy ===== *)
theory Session_Safety
  imports Session_Runs
begin

text \<open>
  What every run of a Dictation Session keeps: proved once of every operation,
  from what its surroundings promise.
\<close>

definition entered :: "session_run \<Rightarrow> dictation_state \<Rightarrow> session_run" where
  "entered s st = s\<lparr>se_step := Suc (se_step s), se_state := st\<rparr>"

lemma entered_fields [simp]:
  "se_step (entered s st) = Suc (se_step s)" "se_state (entered s st) = st"
  by (simp_all add: entered_def)

definition ask_within :: "nat \<Rightarrow> nat \<Rightarrow> nat \<Rightarrow> target_question \<Rightarrow> bool" where
  "ask_within generation step continued q = (case q of
     AskStart g n \<Rightarrow> g \<le> generation \<and> n \<le> step \<and> (g = generation \<longrightarrow> continued = g)
   | AskFocus n \<Rightarrow> n \<le> step | AskSelection n \<Rightarrow> n \<le> step)"

text \<open>What is sound of a session whatever state it enters.\<close>

definition sound :: "session_run \<Rightarrow> bool" where
  "sound s \<longleftrightarrow> (session_following s \<longrightarrow> ew_revision (se_review s) \<noteq> None)
     \<and> (rf_refiner (se_chain s) \<noteq> None \<longrightarrow> se_refiner s \<noteq> None)
     \<and> se_refinement_generation s \<le> se_generation s
     \<and> list_all (ask_within (se_generation s) (se_step s) (se_continued s)) (se_asked s)
     \<and> distinct (start_asks (se_asked s)) \<and> ad_step (se_awaited s) \<le> se_step s
     \<and> once_out (sx_log s) \<and> (\<forall>x\<in>set (outgoing (sx_log s)). fst x \<le> se_generation s)"

definition unsent :: "session_run \<Rightarrow> bool" where
  "unsent s \<longleftrightarrow> (\<forall>x\<in>set (outgoing (sx_log s)). is_out (snd x) \<longrightarrow> fst x < se_generation s)"

lemma ends_then: "ends P m \<Longrightarrow> (\<And>s. P s \<Longrightarrow> ends Q (f s)) \<Longrightarrow> ends Q (m \<bind> f)"
  by (auto simp: ends_def)

lemma ends_then2: "ends (\<lambda>(v, s). P v s) m \<Longrightarrow> (\<And>v s. P v s \<Longrightarrow> ends Q (f v s)) \<Longrightarrow>
    ends Q (m \<bind> (\<lambda>(v, s). f v s))"
  by (auto simp: ends_def)

lemma ends_if: "(b \<Longrightarrow> ends P x) \<Longrightarrow> (\<not> b \<Longrightarrow> ends P y) \<Longrightarrow> ends P (if b then x else y)"
  by simp

lemma session_okD:
  assumes "session_ok s"
  shows "se_state s \<notin> {SIdle, SError, SDelivering} \<Longrightarrow> se_settings s \<noteq> None"
    and "speech_runs_now s \<Longrightarrow> se_state s = phase_state (dt_phase s)"
    and "se_state s = SStarting \<Longrightarrow> dt_phase s = Starting \<or> dt_phase s = IdlePhase"
    and "se_microphone s \<noteq> MicOff \<Longrightarrow> se_state s \<in> {SStarting, SListening, SStopping}"
    and "speech_runs_now s \<Longrightarrow> dt_phase s = Stopping \<Longrightarrow> dt_microphone_stopped s \<Longrightarrow> se_microphone s = MicOff"
    and "session_following s \<Longrightarrow> ew_revision (se_review s) \<noteq> None"
    and "se_state s = SReviewing \<Longrightarrow> ew_revision (se_review s) \<noteq> None"
    and "chain_task (se_chain s) \<noteq> None \<Longrightarrow> se_state s = SRefining \<and> se_refinement_generation s = se_generation s
        \<and> sx_refining s = None \<and> task_ok (the (chain_task (se_chain s))) (rf_refiner (se_chain s))"
    and "rf_refiner (se_chain s) \<noteq> None \<Longrightarrow> se_refiner s \<noteq> None"
    and "sx_refining s \<noteq> None \<Longrightarrow> se_state s = SRefining \<and> se_refiner s = sx_refining s"
    and "se_refinement_generation s \<le> se_generation s"
    and "se_state s \<noteq> SIdle \<Longrightarrow> 0 < se_generation s"
    and "list_all (ask_ok s) (se_asked s)" and "distinct (start_asks (se_asked s))"
    and "se_state s = SStarting \<Longrightarrow> dt_settings s \<noteq> None \<Longrightarrow> se_continued s = se_generation s"
    and "ad_step (se_awaited s) \<le> se_step s"
    and "ad_step (se_awaited s) = se_step s \<Longrightarrow> 0 < se_step s \<Longrightarrow> se_state s = SDelivering"
    and "0 < se_unanswered s \<Longrightarrow> 0 < se_step s"
    and "once_out (sx_log s)" and "x \<in> set (outgoing (sx_log s)) \<Longrightarrow> fst x \<le> se_generation s"
    and "x \<in> set (outgoing (sx_log s)) \<Longrightarrow> is_out (snd x) \<Longrightarrow> fst x = se_generation s \<Longrightarrow>
        se_state s \<in> {SDelivering, SIdle} \<and> ad_step (se_awaited s) \<noteq> se_step s"
  using assms by (simp_all add: session_ok_def rest_ok_def chain_ok_def outgoing_ok_def)

lemma ok_unsent: "session_ok s \<Longrightarrow> se_state s \<notin> {SDelivering, SIdle} \<Longrightarrow> unsent s"
  using session_okD(20,21) by (fastforce simp: unsent_def)

lemma asks_within:
  assumes "session_ok s"
  shows "list_all (ask_within (se_generation s) (se_step s) (se_continued s)) (se_asked s)"
  by (rule list.pred_mono_strong[OF session_okD(13)[OF assms]])
    (simp add: ask_ok_def ask_within_def split: target_question.splits)

lemma asks_within_later:
  assumes "session_ok s"
  shows "list_all (ask_within (Suc (se_generation s)) (se_step s) c) (se_asked s)"
  by (rule list.pred_mono_strong[OF asks_within[OF assms]]) (simp add: ask_within_def split: target_question.splits)

lemma session_ok_sound: "session_ok s \<Longrightarrow> sound s"
  using session_okD(6,9,11,14,16,19)[of s] session_okD(20)[of s] asks_within[of s] by (simp add: sound_def)

lemma asks_entered:
  "list_all (ask_within (se_generation s) (se_step s) (se_continued s)) qs \<Longrightarrow> list_all (ask_ok (entered s st)) qs"
  by (erule list.pred_mono_strong) (auto simp: ask_ok_def ask_within_def entered_def split: target_question.splits)

lemma entered_ok:
  assumes "sound s" and "st \<notin> {SIdle, SError, SDelivering} \<Longrightarrow> se_settings s \<noteq> None"
    and "speech_runs_now s \<Longrightarrow> st = phase_state (dt_phase s)"
    and "st = SStarting \<Longrightarrow> dt_phase s = Starting \<or> dt_phase s = IdlePhase"
    and "se_microphone s \<noteq> MicOff \<Longrightarrow> st \<in> {SStarting, SListening, SStopping}"
    and "speech_runs_now s \<Longrightarrow> dt_phase s = Stopping \<Longrightarrow> dt_microphone_stopped s \<Longrightarrow> se_microphone s = MicOff"
    and "st = SReviewing \<Longrightarrow> ew_revision (se_review s) \<noteq> None"
    and "chain_task (se_chain s) \<noteq> None \<Longrightarrow> st = SRefining \<and> se_refinement_generation s = se_generation s
        \<and> sx_refining s = None \<and> task_ok (the (chain_task (se_chain s))) (rf_refiner (se_chain s))"
    and "sx_refining s \<noteq> None \<Longrightarrow> st = SRefining \<and> se_refiner s = sx_refining s"
    and "st \<noteq> SIdle \<Longrightarrow> 0 < se_generation s"
    and "st = SStarting \<Longrightarrow> dt_settings s \<noteq> None \<Longrightarrow> se_continued s = se_generation s"
    and "st \<notin> {SDelivering, SIdle} \<Longrightarrow> unsent s"
  shows "session_ok (entered s st)"
proof -
  have "list_all (ask_ok (entered s st)) (se_asked s)"
    using assms(1) by (simp add: sound_def asks_entered)
  moreover have "outgoing_ok (entered s st)"
    using assms(1,12) by (fastforce simp: outgoing_ok_def sound_def unsent_def entered_def)
  ultimately show ?thesis
    using assms(1-11)
    by (simp add: session_ok_def rest_ok_def chain_ok_def sound_def speech_runs_now_def session_following_def entered_def)
qed

lemma calm_facts:
  assumes "calm s s'"
  shows "sound s' = sound s" "unsent s' = unsent s" "speech_runs_now s' = speech_runs_now s"
    "session_following s' = session_following s"
  using assms by (simp_all add: calm_fields sound_def once_out_def unsent_def speech_runs_now_def session_following_def)

text \<open>A step on, which is more than having moved.\<close>

definition bumped :: "session_run \<Rightarrow> session_run \<Rightarrow> bool" where
  "bumped s s' \<longleftrightarrow> se_step s < se_step s' \<and> se_generation s \<le> se_generation s' \<and> log_grows s s'
     \<and> (se_refiner s \<noteq> None \<longrightarrow> se_refiner s' \<noteq> None)
     \<and> rf_generation (se_chain s) \<le> rf_generation (se_chain s')"

lemma bumped_moved: "bumped s s' \<Longrightarrow> moved s s'"
  by (simp add: bumped_def moved_def)

lemma bumped_led: "bumped s s' \<Longrightarrow>
    (se_state s \<in> {SStopping, SRefining} \<Longrightarrow> rf_generation (se_chain s) < rf_generation (se_chain s')) \<Longrightarrow>
    (se_state s = SStopping \<Longrightarrow> se_generation s < se_generation s') \<Longrightarrow> led s s'"
  by (auto simp: bumped_def moved_def led_def)

lemma moved_bumped: "moved s t \<Longrightarrow> bumped t s' \<Longrightarrow> bumped s s'"
  by (auto simp: bumped_def moved_def intro: log_grows_trans)

lemma bumped_moved_trans: "bumped s t \<Longrightarrow> moved t s' \<Longrightarrow> bumped s s'"
  by (auto simp: bumped_def moved_def intro: log_grows_trans)

lemma bumped_entered: "bumped s (entered s st)"
  by (simp add: bumped_def entered_def log_grows_def)

lemma bumped_step: "moved s t \<Longrightarrow> se_step t \<noteq> se_step s \<Longrightarrow> bumped s t"
  by (simp add: bumped_def moved_def)

text \<open>The members neither the invariant nor the relations between states mind.\<close>

lemma moved_to [simp]:
  "moved s (t\<lparr>se_saved := x0\<rparr>) = moved s t"
  "moved s (t\<lparr>se_ui := x1\<rparr>) = moved s t"
  "moved s (t\<lparr>se_message := x2\<rparr>) = moved s t"
  "moved s (t\<lparr>se_warning := x3\<rparr>) = moved s t"
  "moved s (t\<lparr>se_last_transcript := x4\<rparr>) = moved s t"
  "moved s (t\<lparr>se_choices := x5\<rparr>) = moved s t"
  "moved s (t\<lparr>se_target := x6\<rparr>) = moved s t"
  "moved s (t\<lparr>se_screenshot := x7\<rparr>) = moved s t"
  "moved s (t\<lparr>se_screenshot_type := x8\<rparr>) = moved s t"
  "moved s (t\<lparr>se_screenshot_generation := x9\<rparr>) = moved s t"
  "moved s (t\<lparr>se_stream := x10\<rparr>) = moved s t"
  "moved s (t\<lparr>se_replacements := x11\<rparr>) = moved s t"
  "moved s (t\<lparr>se_heard_speech := x12\<rparr>) = moved s t"
  "moved s (t\<lparr>se_clock := x13\<rparr>) = moved s t"
  "moved s (t\<lparr>se_listening_ms := x14\<rparr>) = moved s t"
  "moved s (t\<lparr>se_used_raw := x15\<rparr>) = moved s t"
  "moved s (t\<lparr>se_history := x16\<rparr>) = moved s t"
  "moved s (t\<lparr>se_reachability := x17\<rparr>) = moved s t"
  "moved s (t\<lparr>se_held := x18\<rparr>) = moved s t"
  "moved s (t\<lparr>se_listening := x19\<rparr>) = moved s t"
  "moved s (t\<lparr>se_chain_saved := x20\<rparr>) = moved s t"
  "moved s (t\<lparr>se_completion := x21\<rparr>) = moved s t"
  "moved s (t\<lparr>dt_refiner := x22\<rparr>) = moved s t"
  "moved s (t\<lparr>ts_finals := x23\<rparr>) = moved s t"
  "moved s (t\<lparr>ts_partial := x24\<rparr>) = moved s t"
  "moved s (t\<lparr>at_now := x25\<rparr>) = moved s t"
  "moved s (t\<lparr>sx_scripts := x26\<rparr>) = moved s t"
  "moved s (t\<lparr>se_connection := x27\<rparr>) = moved s t"
  "moved s (t\<lparr>se_revision := x28\<rparr>) = moved s t"
  "moved s (t\<lparr>se_pipeline := x29\<rparr>) = moved s t"
  by (simp_all add: moved_def log_grows_def)

lemma led_to [simp]:
  "led s (t\<lparr>se_saved := x0\<rparr>) = led s t"
  "led s (t\<lparr>se_ui := x1\<rparr>) = led s t"
  "led s (t\<lparr>se_message := x2\<rparr>) = led s t"
  "led s (t\<lparr>se_warning := x3\<rparr>) = led s t"
  "led s (t\<lparr>se_last_transcript := x4\<rparr>) = led s t"
  "led s (t\<lparr>se_choices := x5\<rparr>) = led s t"
  "led s (t\<lparr>se_target := x6\<rparr>) = led s t"
  "led s (t\<lparr>se_screenshot := x7\<rparr>) = led s t"
  "led s (t\<lparr>se_screenshot_type := x8\<rparr>) = led s t"
  "led s (t\<lparr>se_screenshot_generation := x9\<rparr>) = led s t"
  "led s (t\<lparr>se_stream := x10\<rparr>) = led s t"
  "led s (t\<lparr>se_replacements := x11\<rparr>) = led s t"
  "led s (t\<lparr>se_heard_speech := x12\<rparr>) = led s t"
  "led s (t\<lparr>se_clock := x13\<rparr>) = led s t"
  "led s (t\<lparr>se_listening_ms := x14\<rparr>) = led s t"
  "led s (t\<lparr>se_used_raw := x15\<rparr>) = led s t"
  "led s (t\<lparr>se_history := x16\<rparr>) = led s t"
  "led s (t\<lparr>se_reachability := x17\<rparr>) = led s t"
  "led s (t\<lparr>se_held := x18\<rparr>) = led s t"
  "led s (t\<lparr>se_listening := x19\<rparr>) = led s t"
  "led s (t\<lparr>se_chain_saved := x20\<rparr>) = led s t"
  "led s (t\<lparr>se_completion := x21\<rparr>) = led s t"
  "led s (t\<lparr>dt_refiner := x22\<rparr>) = led s t"
  "led s (t\<lparr>ts_finals := x23\<rparr>) = led s t"
  "led s (t\<lparr>ts_partial := x24\<rparr>) = led s t"
  "led s (t\<lparr>at_now := x25\<rparr>) = led s t"
  "led s (t\<lparr>sx_scripts := x26\<rparr>) = led s t"
  "led s (t\<lparr>se_connection := x27\<rparr>) = led s t"
  "led s (t\<lparr>se_revision := x28\<rparr>) = led s t"
  "led s (t\<lparr>se_pipeline := x29\<rparr>) = led s t"
  by (simp_all add: led_def frozen_def speech_runs_now_def)

lemma bumped_to [simp]:
  "bumped s (t\<lparr>se_saved := x0\<rparr>) = bumped s t"
  "bumped s (t\<lparr>se_ui := x1\<rparr>) = bumped s t"
  "bumped s (t\<lparr>se_message := x2\<rparr>) = bumped s t"
  "bumped s (t\<lparr>se_warning := x3\<rparr>) = bumped s t"
  "bumped s (t\<lparr>se_last_transcript := x4\<rparr>) = bumped s t"
  "bumped s (t\<lparr>se_choices := x5\<rparr>) = bumped s t"
  "bumped s (t\<lparr>se_target := x6\<rparr>) = bumped s t"
  "bumped s (t\<lparr>se_screenshot := x7\<rparr>) = bumped s t"
  "bumped s (t\<lparr>se_screenshot_type := x8\<rparr>) = bumped s t"
  "bumped s (t\<lparr>se_screenshot_generation := x9\<rparr>) = bumped s t"
  "bumped s (t\<lparr>se_stream := x10\<rparr>) = bumped s t"
  "bumped s (t\<lparr>se_replacements := x11\<rparr>) = bumped s t"
  "bumped s (t\<lparr>se_heard_speech := x12\<rparr>) = bumped s t"
  "bumped s (t\<lparr>se_clock := x13\<rparr>) = bumped s t"
  "bumped s (t\<lparr>se_listening_ms := x14\<rparr>) = bumped s t"
  "bumped s (t\<lparr>se_used_raw := x15\<rparr>) = bumped s t"
  "bumped s (t\<lparr>se_history := x16\<rparr>) = bumped s t"
  "bumped s (t\<lparr>se_reachability := x17\<rparr>) = bumped s t"
  "bumped s (t\<lparr>se_held := x18\<rparr>) = bumped s t"
  "bumped s (t\<lparr>se_listening := x19\<rparr>) = bumped s t"
  "bumped s (t\<lparr>se_chain_saved := x20\<rparr>) = bumped s t"
  "bumped s (t\<lparr>se_completion := x21\<rparr>) = bumped s t"
  "bumped s (t\<lparr>dt_refiner := x22\<rparr>) = bumped s t"
  "bumped s (t\<lparr>ts_finals := x23\<rparr>) = bumped s t"
  "bumped s (t\<lparr>ts_partial := x24\<rparr>) = bumped s t"
  "bumped s (t\<lparr>at_now := x25\<rparr>) = bumped s t"
  "bumped s (t\<lparr>sx_scripts := x26\<rparr>) = bumped s t"
  "bumped s (t\<lparr>se_connection := x27\<rparr>) = bumped s t"
  "bumped s (t\<lparr>se_revision := x28\<rparr>) = bumped s t"
  "bumped s (t\<lparr>se_pipeline := x29\<rparr>) = bumped s t"
  by (simp_all add: bumped_def log_grows_def)

lemma moved_from [simp]:
  "moved (s\<lparr>se_saved := x0\<rparr>) t = moved s t"
  "moved (s\<lparr>se_ui := x1\<rparr>) t = moved s t"
  "moved (s\<lparr>se_message := x2\<rparr>) t = moved s t"
  "moved (s\<lparr>se_warning := x3\<rparr>) t = moved s t"
  "moved (s\<lparr>se_last_transcript := x4\<rparr>) t = moved s t"
  "moved (s\<lparr>se_choices := x5\<rparr>) t = moved s t"
  "moved (s\<lparr>se_target := x6\<rparr>) t = moved s t"
  "moved (s\<lparr>se_screenshot := x7\<rparr>) t = moved s t"
  "moved (s\<lparr>se_screenshot_type := x8\<rparr>) t = moved s t"
  "moved (s\<lparr>se_screenshot_generation := x9\<rparr>) t = moved s t"
  "moved (s\<lparr>se_stream := x10\<rparr>) t = moved s t"
  "moved (s\<lparr>se_replacements := x11\<rparr>) t = moved s t"
  "moved (s\<lparr>se_heard_speech := x12\<rparr>) t = moved s t"
  "moved (s\<lparr>se_clock := x13\<rparr>) t = moved s t"
  "moved (s\<lparr>se_listening_ms := x14\<rparr>) t = moved s t"
  "moved (s\<lparr>se_used_raw := x15\<rparr>) t = moved s t"
  "moved (s\<lparr>se_history := x16\<rparr>) t = moved s t"
  "moved (s\<lparr>se_reachability := x17\<rparr>) t = moved s t"
  "moved (s\<lparr>se_held := x18\<rparr>) t = moved s t"
  "moved (s\<lparr>se_listening := x19\<rparr>) t = moved s t"
  "moved (s\<lparr>se_chain_saved := x20\<rparr>) t = moved s t"
  "moved (s\<lparr>se_completion := x21\<rparr>) t = moved s t"
  "moved (s\<lparr>dt_refiner := x22\<rparr>) t = moved s t"
  "moved (s\<lparr>ts_finals := x23\<rparr>) t = moved s t"
  "moved (s\<lparr>ts_partial := x24\<rparr>) t = moved s t"
  "moved (s\<lparr>at_now := x25\<rparr>) t = moved s t"
  "moved (s\<lparr>sx_scripts := x26\<rparr>) t = moved s t"
  "moved (s\<lparr>se_connection := x27\<rparr>) t = moved s t"
  "moved (s\<lparr>se_revision := x28\<rparr>) t = moved s t"
  "moved (s\<lparr>se_pipeline := x29\<rparr>) t = moved s t"
  by (simp_all add: moved_def log_grows_def)

lemma led_from [simp]:
  "led (s\<lparr>se_saved := x0\<rparr>) t = led s t"
  "led (s\<lparr>se_ui := x1\<rparr>) t = led s t"
  "led (s\<lparr>se_message := x2\<rparr>) t = led s t"
  "led (s\<lparr>se_warning := x3\<rparr>) t = led s t"
  "led (s\<lparr>se_last_transcript := x4\<rparr>) t = led s t"
  "led (s\<lparr>se_choices := x5\<rparr>) t = led s t"
  "led (s\<lparr>se_target := x6\<rparr>) t = led s t"
  "led (s\<lparr>se_screenshot := x7\<rparr>) t = led s t"
  "led (s\<lparr>se_screenshot_type := x8\<rparr>) t = led s t"
  "led (s\<lparr>se_screenshot_generation := x9\<rparr>) t = led s t"
  "led (s\<lparr>se_stream := x10\<rparr>) t = led s t"
  "led (s\<lparr>se_replacements := x11\<rparr>) t = led s t"
  "led (s\<lparr>se_heard_speech := x12\<rparr>) t = led s t"
  "led (s\<lparr>se_clock := x13\<rparr>) t = led s t"
  "led (s\<lparr>se_listening_ms := x14\<rparr>) t = led s t"
  "led (s\<lparr>se_used_raw := x15\<rparr>) t = led s t"
  "led (s\<lparr>se_history := x16\<rparr>) t = led s t"
  "led (s\<lparr>se_reachability := x17\<rparr>) t = led s t"
  "led (s\<lparr>se_held := x18\<rparr>) t = led s t"
  "led (s\<lparr>se_listening := x19\<rparr>) t = led s t"
  "led (s\<lparr>se_chain_saved := x20\<rparr>) t = led s t"
  "led (s\<lparr>se_completion := x21\<rparr>) t = led s t"
  "led (s\<lparr>dt_refiner := x22\<rparr>) t = led s t"
  "led (s\<lparr>ts_finals := x23\<rparr>) t = led s t"
  "led (s\<lparr>ts_partial := x24\<rparr>) t = led s t"
  "led (s\<lparr>at_now := x25\<rparr>) t = led s t"
  "led (s\<lparr>sx_scripts := x26\<rparr>) t = led s t"
  "led (s\<lparr>se_connection := x27\<rparr>) t = led s t"
  "led (s\<lparr>se_revision := x28\<rparr>) t = led s t"
  "led (s\<lparr>se_pipeline := x29\<rparr>) t = led s t"
  by (simp_all add: led_def moved_def log_grows_def frozen_def speech_runs_now_def)

lemma bumped_from [simp]:
  "bumped (s\<lparr>se_saved := x0\<rparr>) t = bumped s t"
  "bumped (s\<lparr>se_ui := x1\<rparr>) t = bumped s t"
  "bumped (s\<lparr>se_message := x2\<rparr>) t = bumped s t"
  "bumped (s\<lparr>se_warning := x3\<rparr>) t = bumped s t"
  "bumped (s\<lparr>se_last_transcript := x4\<rparr>) t = bumped s t"
  "bumped (s\<lparr>se_choices := x5\<rparr>) t = bumped s t"
  "bumped (s\<lparr>se_target := x6\<rparr>) t = bumped s t"
  "bumped (s\<lparr>se_screenshot := x7\<rparr>) t = bumped s t"
  "bumped (s\<lparr>se_screenshot_type := x8\<rparr>) t = bumped s t"
  "bumped (s\<lparr>se_screenshot_generation := x9\<rparr>) t = bumped s t"
  "bumped (s\<lparr>se_stream := x10\<rparr>) t = bumped s t"
  "bumped (s\<lparr>se_replacements := x11\<rparr>) t = bumped s t"
  "bumped (s\<lparr>se_heard_speech := x12\<rparr>) t = bumped s t"
  "bumped (s\<lparr>se_clock := x13\<rparr>) t = bumped s t"
  "bumped (s\<lparr>se_listening_ms := x14\<rparr>) t = bumped s t"
  "bumped (s\<lparr>se_used_raw := x15\<rparr>) t = bumped s t"
  "bumped (s\<lparr>se_history := x16\<rparr>) t = bumped s t"
  "bumped (s\<lparr>se_reachability := x17\<rparr>) t = bumped s t"
  "bumped (s\<lparr>se_held := x18\<rparr>) t = bumped s t"
  "bumped (s\<lparr>se_listening := x19\<rparr>) t = bumped s t"
  "bumped (s\<lparr>se_chain_saved := x20\<rparr>) t = bumped s t"
  "bumped (s\<lparr>se_completion := x21\<rparr>) t = bumped s t"
  "bumped (s\<lparr>dt_refiner := x22\<rparr>) t = bumped s t"
  "bumped (s\<lparr>ts_finals := x23\<rparr>) t = bumped s t"
  "bumped (s\<lparr>ts_partial := x24\<rparr>) t = bumped s t"
  "bumped (s\<lparr>at_now := x25\<rparr>) t = bumped s t"
  "bumped (s\<lparr>sx_scripts := x26\<rparr>) t = bumped s t"
  "bumped (s\<lparr>se_connection := x27\<rparr>) t = bumped s t"
  "bumped (s\<lparr>se_revision := x28\<rparr>) t = bumped s t"
  "bumped (s\<lparr>se_pipeline := x29\<rparr>) t = bumped s t"
  by (simp_all add: bumped_def log_grows_def)

lemma ask_ok_refiner [simp]: "ask_ok (s\<lparr>se_connection := c\<rparr>) = ask_ok s" "ask_ok (s\<lparr>se_revision := n\<rparr>) = ask_ok s"
  "ask_ok (s\<lparr>se_pipeline := p\<rparr>) = ask_ok s" "ask_ok (s\<lparr>se_refiner := r\<rparr>) = ask_ok s" "ask_ok (s\<lparr>se_chain := ch\<rparr>) = ask_ok s"
  "ask_ok (s\<lparr>se_settings := as\<rparr>) = ask_ok s" "ask_ok (s\<lparr>sx_refining := rf\<rparr>) = ask_ok s"
  by (rule ext, simp add: ask_ok_def split: target_question.split)+

lemma rest_ok_refiner:
  "rest_ok (s\<lparr>sx_refining := r\<rparr>) = rest_ok s" "rest_ok (s\<lparr>se_chain := c\<rparr>) = rest_ok s"
  "rest_ok (s\<lparr>se_refiner := rf\<rparr>) = rest_ok s"
  by (simp_all add: rest_ok_def speech_runs_now_def session_following_def)

text \<open>What \<open>discard\<close> leaves.\<close>

definition discarded :: "session_run \<Rightarrow> session_run" where
  "discarded s = s\<lparr>se_generation := Suc (se_generation s), se_microphone := MicOff, dt_settings := None,
     dt_phase := IdlePhase, se_chain := rchain_cancel (se_chain s), sx_refining := None,
     se_refinement_generation := 0, se_settings := None\<rparr>"

lemma chain_task_cancel [simp]: "chain_task (rchain_cancel c) = None"
  by (simp add: chain_task_def rchain_cancel_def runner_cancel_def split: option.split)

lemma rchain_cancel_fields [simp]:
  "rf_generation (rchain_cancel c) = Suc (rf_generation c)" "rf_refiner (rchain_cancel c) = rf_refiner c"
  "rf_ids (rchain_cancel c) = rf_ids c" "rf_index (rchain_cancel c) = rf_index c"
  by (simp_all add: rchain_cancel_def)

lemma rchain_begin_fields [simp]:
  "rf_generation (rchain_begin p fs c) = Suc (rf_generation c)" "rf_refiner (rchain_begin p fs c) = rf_refiner c"
  "chain_task (rchain_begin p fs c) = None"
  using chain_task_cancel[of c] by (simp_all add: rchain_begin_def chain_task_def rchain_cancel_def)

lemma sound_later_generation:
  assumes "sound s"
  shows "unsent (s\<lparr>se_generation := Suc (se_generation s)\<rparr>)"
  using assms by (fastforce simp: sound_def unsent_def)

lemma discarded_rests:
  assumes "session_ok s"
  shows "sound (discarded s)" "unsent (discarded s)" "\<not> speech_runs_now (discarded s)"
proof -
  show "sound (discarded s)"
    using session_okD(6,9,14,16,19)[OF assms] session_okD(20)[OF assms] asks_within_later[OF assms]
    by (auto simp: sound_def discarded_def session_following_def le_SucI)
  show "unsent (discarded s)" using session_okD(20)[OF assms] by (auto simp: unsent_def discarded_def le_imp_less_Suc)
  show "\<not> speech_runs_now (discarded s)" by (simp add: speech_runs_now_def discarded_def)
qed

text \<open>What it takes to throw a session away; one whose review just ended may be.\<close>

definition tossable :: "session_run \<Rightarrow> bool" where
  "tossable s \<longleftrightarrow> sound (discarded s) \<and> unsent (discarded s) \<and> se_refinement_generation s \<le> se_generation s
     \<and> (sx_refining s \<noteq> None \<longrightarrow> se_refiner s = sx_refining s)"

lemma ok_tossable: "session_ok s \<Longrightarrow> tossable s"
  using discarded_rests[of s] session_okD(10,11)[of s] by (simp add: tossable_def)

lemma ended_review_tossable: "session_ok s \<Longrightarrow> tossable (s\<lparr>se_review := review_end (se_review s)\<rparr>)"
  using ok_tossable[of s]
  by (auto simp: tossable_def discarded_def sound_def unsent_def session_following_def review_end_def)

lemma later_generation_sound:
  assumes "session_ok s"
  shows "sound (s\<lparr>se_generation := Suc (se_generation s)\<rparr>)" "unsent (s\<lparr>se_generation := Suc (se_generation s)\<rparr>)"
  using session_okD(6,9,11,14,16,19)[OF assms] session_okD(20)[OF assms] asks_within_later[OF assms]
  by (auto simp: sound_def unsent_def session_following_def le_SucI le_imp_less_Suc)

text \<open>Outside a session's own activities nothing of it runs.\<close>

lemma ok_silent:
  assumes "session_ok s" "se_state s \<in> {SIdle, SError, SDelivering, SReviewing, SRefining}"
  shows "\<not> speech_runs_now s"
proof
  assume "speech_runs_now s"
  hence "se_state s = phase_state (dt_phase s)" "dt_phase s \<noteq> IdlePhase"
    using session_okD(2)[OF assms(1)] by (simp_all add: speech_runs_now_def)
  thus False using assms(2) by (cases "dt_phase s") (auto simp: phase_state_def)
qed

lemma ok_microphone_off: "session_ok s \<Longrightarrow> se_state s \<notin> {SStarting, SListening, SStopping} \<Longrightarrow> se_microphone s = MicOff"
  using session_okD(4)[of s] by blast

lemma ok_unrefined: "session_ok s \<Longrightarrow> se_state s \<noteq> SRefining \<Longrightarrow> chain_task (se_chain s) = None \<and> sx_refining s = None"
  using session_okD(8,10)[of s] by blast

lemma log_grows_later:
  assumes "log_grows t s'" "sx_log t = sx_log s" "se_generation s \<le> se_generation t"
  shows "log_grows s s'"
  using assms unfolding log_grows_def by (metis order_trans)

lemma led_discarded:
  assumes "calm (discarded s) t" "bumped t s'"
  shows "bumped s s'" "led s s'" "Suc (se_generation s) \<le> se_generation s'"
proof -
  have "log_grows s t" using assms(1) by (auto simp: calm_def same_session_def discarded_def intro: log_grows_later)
  moreover have "se_generation s \<le> se_generation t" using assms(1) by (simp add: calm_fields discarded_def)
  ultimately show b: "bumped s s'"
    using assms by (auto simp: calm_fields discarded_def bumped_def intro: log_grows_trans)
  show "Suc (se_generation s) \<le> se_generation s'" using assms by (auto simp: calm_fields discarded_def bumped_def)
  show "led s s'" by (rule bumped_led[OF b]) (use assms in \<open>auto simp: calm_fields discarded_def bumped_def\<close>)
qed

lemma outgoing_logged:
  "outgoing (sx_log (logged c s)) = outgoing (sx_log s) @ (if is_delivery c then [(se_generation s, c)] else [])"
  by (simp add: outgoing_def logged_def)

lemma logged_fields [simp]:
  "se_generation (logged c s) = se_generation s" "se_step (logged c s) = se_step s" "se_state (logged c s) = se_state s"
  "se_asked (logged c s) = se_asked s"
  by (simp_all add: logged_def)

lemma once_out_logged: "once_out (sx_log s) \<Longrightarrow> unsent s \<Longrightarrow> once_out (sx_log (logged c s))"
  by (simp add: once_out_def outgoing_logged unsent_def sorted_wrt_append)

lemma ask_ok_logged [simp]: "ask_ok (logged c s) = ask_ok s"
  by (rule ext) (simp add: ask_ok_def logged_def split: target_question.split)

lemma ask_ok_delivered [simp]: "ask_ok (s\<lparr>se_awaited := a, se_unanswered := n, sx_log := l\<rparr>) = ask_ok s"
  by (rule ext) (simp add: ask_ok_def split: target_question.split)

lemma ok_delivers:
  assumes ok: "session_ok s" and st: "se_state s = SDelivering" and un: "unsent s" and step: "0 < se_step s"
    and a: "ad_step a = se_step s"
  shows "session_ok (logged (Deliver os dc t) (s\<lparr>se_awaited := a, se_unanswered := n\<rparr>))"
proof -
  let ?t = "s\<lparr>se_awaited := a, se_unanswered := n\<rparr>"
  have "unsent ?t" "once_out (sx_log ?t)" using un session_okD(19)[OF ok] by (simp_all add: unsent_def)
  hence "once_out (sx_log (logged (Deliver os dc t) ?t))" by (rule once_out_logged[rotated])
  moreover have "\<forall>x\<in>set (outgoing (sx_log (logged (Deliver os dc t) ?t))). fst x \<le> se_generation s
      \<and> (is_out (snd x) \<longrightarrow> fst x < se_generation s)"
    using session_okD(20)[OF ok] un by (auto simp: outgoing_logged is_out_def unsent_def)
  ultimately have "outgoing_ok (logged (Deliver os dc t) ?t)" by (auto simp: outgoing_ok_def)
  thus ?thesis using ok st a step
    unfolding session_ok_def rest_ok_def by (simp add: chain_ok_def speech_runs_now_def session_following_def logged_def)
qed

lemma chain_ok_unrefined: "chain_ok s \<Longrightarrow> chain_ok (s\<lparr>sx_refining := None\<rparr>)"
  by (auto simp: chain_ok_def)

lemma session_ok_unrefined: "session_ok s \<Longrightarrow> session_ok (s\<lparr>sx_refining := None\<rparr>)"
  by (simp add: session_ok_def chain_ok_unrefined outgoing_ok_def rest_ok_refiner)

lemma frozen_unrefined: "frozen t s \<Longrightarrow> frozen t (s\<lparr>sx_refining := None\<rparr>)"
  by (simp add: frozen_def speech_runs_now_def)

lemma moved_refining: "moved t (s\<lparr>sx_refining := r\<rparr>) = moved t s"
  by (simp add: moved_def log_grows_def)

lemma led_unrefined: "led t s \<Longrightarrow> led t (s\<lparr>sx_refining := None\<rparr>)"
  unfolding led_def moved_refining using frozen_unrefined[of t s] by (simp add: speech_runs_now_def)

text \<open>What a session is while it looks for a refiner.\<close>

definition walks :: "session_run \<Rightarrow> bool" where
  "walks s \<longleftrightarrow> session_ok s \<and> se_state s \<in> {SStopping, SRefining}
     \<and> (se_state s = SRefining \<longrightarrow> se_refinement_generation s = se_generation s)
     \<and> \<not> speech_runs_now s \<and> se_microphone s = MicOff \<and> chain_task (se_chain s) = None \<and> sx_refining s = None"

lemma walks_rests:
  assumes "walks s"
  shows "sound s" "unsent s" "\<not> speech_runs_now s" "se_microphone s = MicOff" "chain_task (se_chain s) = None"
    "sx_refining s = None" "0 < se_generation s"
  using assms session_ok_sound[of s] ok_unsent[of s] session_okD(12)[of s] by (auto simp: walks_def)

context session_surroundings
begin

lemma quietly: "quiet_session_call c \<Longrightarrow> session_ok t \<Longrightarrow> led s t \<Longrightarrow>
    ends (\<lambda>s'. session_ok s' \<and> led s s') (sn_call E c t)"
  by (rule ends_mono[OF quiet]) (auto simp: session_ok_calm intro: led_calm)

lemma hear: "heard_outside c \<Longrightarrow> \<not> is_out c \<Longrightarrow> session_ok t \<Longrightarrow> led s t \<Longrightarrow>
    ends (\<lambda>s'. session_ok s' \<and> led s s') (sn_call E c t)"
  by (rule ends_mono[OF heard]) (auto intro: led_trans)

lemma updates_led: "session_ok t \<Longrightarrow> led s t \<Longrightarrow>
    ends (\<lambda>s'. session_ok s' \<and> led s s') (update_microphone_held E t \<bind> update_listening E)"
  by (auto intro!: ends_mono[OF calm_held] ends_mono[OF calm_listening] simp: session_ok_calm intro: led_calm)

lemma enter_state_ok:
  assumes "session_ok (entered s st)"
  shows "ends (\<lambda>(step, s'). step = Suc (se_step s) \<and> session_ok s' \<and> led (entered s st) s') (enter_state E st m fix s)"
proof -
  let ?a = "if st = SListening then (s\<lparr>se_step := Suc (se_step s)\<rparr>)\<lparr>se_clock := at_now s\<rparr>
      else if se_state s = SListening
      then (s\<lparr>se_step := Suc (se_step s)\<rparr>)\<lparr>se_listening_ms := se_listening_ms s + int (at_now s - se_clock s)\<rparr>
      else s\<lparr>se_step := Suc (se_step s)\<rparr>"
  define t where "t = ?a\<lparr>se_state := st, se_message := m\<rparr>"
  have c: "calm (entered s st) t" by (simp add: t_def entered_def calm_fields log_grows_def)
  hence ok: "session_ok t" "led (entered s st) t" using assms session_ok_calm calm_led by blast+
  let ?P = "\<lambda>s'. session_ok s' \<and> led (entered s st) s'"
  have 1: "ends ?P (if st = SError \<and> m \<noteq> [] then sn_call E (PopupError m fix) t else Some t)"
    using ok by (auto intro!: quietly)
  have 2: "ends ?P (sn_call E (StateChanged st) t)" if "?P t" for t
    using that by (intro hear) (auto simp: is_out_def)
  have 3: "ends ?P (if Suc (se_step s) \<noteq> se_step t then Some t else do {
        s \<leftarrow> sn_call E (StatusChanged label) t;
        s \<leftarrow> update_microphone_held E s;
        update_listening E s })" if "?P t" for t label
    using that updates_led by (auto simp: is_out_def intro!: ends_mono[OF hear])
  have eq: "enter_state E st m fix s = do {
      t \<leftarrow> (if st = SError \<and> m \<noteq> [] then sn_call E (PopupError m fix) t else Some t);
      t \<leftarrow> sn_call E (StateChanged st) t;
      t \<leftarrow> (if Suc (se_step s) \<noteq> se_step t then Some t else do {
        s \<leftarrow> sn_call E (StatusChanged (dictation_state_label (sn_upper E) st m)) t;
        s \<leftarrow> update_microphone_held E s;
        update_listening E s });
      Some (Suc (se_step s), t) }"
    by (simp add: enter_state_def t_def Let_def)
  show ?thesis
    unfolding eq
    by (rule ends_then[OF 1], rule ends_then[OF 2], assumption, rule ends_then[OF 3], assumption) simp
qed

lemma emit_review_ok: "session_ok t \<Longrightarrow> ew_revision (se_review t) \<noteq> None \<Longrightarrow> led s t \<Longrightarrow>
    ends (\<lambda>s'. session_ok s' \<and> led s s') (emit_review E t)"
  by (auto simp: emit_review_def review_presentation_def is_out_def intro!: hear)

lemma enter_review_ok:
  assumes "session_ok (entered s SReviewing)"
  shows "ends (\<lambda>s'. session_ok s' \<and> led (entered s SReviewing) s') (enter_review E s)"
proof -
  have "ends (\<lambda>s'. session_ok s' \<and> led (entered s SReviewing) s')
      (if step \<noteq> se_step t then Some t else if ew_keys (se_review t) = keys then emit_review E t else Some t)"
    if t: "step = Suc (se_step s) \<and> session_ok t \<and> led (entered s SReviewing) t" for step t keys
  proof (cases "step = se_step t")
    case True
    hence "se_state t = SReviewing" using t by (auto simp: led_def moved_def)
    hence "ew_revision (se_review t) \<noteq> None" using t by (auto simp: session_ok_def rest_ok_def)
    thus ?thesis using t emit_review_ok by auto
  qed (use t in simp)
  thus ?thesis
    unfolding enter_review_def Let_def by (rule ends_then2[OF enter_state_ok[OF assms]])
qed

lemma set_state_ok:
  assumes "session_ok (entered s st)" "st = SError \<Longrightarrow> \<not> session_following s"
  shows "ends (\<lambda>(step, s'). step = Suc (se_step s) \<and> session_ok s' \<and> led (entered s st) s') (set_state E st m fix s)"
  using enter_state_ok[OF assms(1)] assms(2) by (auto simp: set_state_def)

lemma announce_ok:
  assumes "session_ok (entered s st)" "st = SError \<Longrightarrow> \<not> session_following s"
  shows "ends (\<lambda>s'. session_ok s' \<and> led (entered s st) s') (announce E st m fix s)"
  unfolding announce_def by (rule ends_then2[OF set_state_ok[OF assms]]) auto

lemma cancels_refiner:
  assumes "se_connection s = None \<or> se_refinement_generation s \<noteq> se_generation s"
    and "sx_refining s \<noteq> None \<Longrightarrow> se_refiner s = sx_refining s"
  shows "ends (calm (s\<lparr>sx_refining := None\<rparr>))
    (case se_refiner s of None \<Rightarrow> Some s | Some r \<Rightarrow> sn_call E (RefinerCancel r) s)"
proof (cases "se_refiner s")
  case None
  hence "sx_refining s = None" using assms(2) by (cases "sx_refining s") auto
  thus ?thesis using None by (simp add: calm_fields log_grows_def)
qed (use refiner_cancels[OF assms(1)] in simp)

lemma calm_discard:
  assumes "tossable s"
  shows "ends (calm (discarded s)) (discard E s)"
proof -
  let ?s = "s\<lparr>se_generation := Suc (se_generation s)\<rparr>"
  show ?thesis
    unfolding discard_def Let_def
  proof (rule ends_then[OF calm_abort], rule ends_then[OF speech_cancels])
    fix t u
    assume t: "calm (?s\<lparr>se_microphone := MicOff\<rparr>) t" and u: "calm (t\<lparr>dt_settings := None, dt_phase := IdlePhase\<rparr>) u"
    let ?u = "u\<lparr>se_chain := rchain_cancel (se_chain u)\<rparr>"
    have c: "ends (calm (?u\<lparr>sx_refining := None\<rparr>))
        (case se_refiner ?u of None \<Rightarrow> Some ?u | Some r \<Rightarrow> sn_call E (RefinerCancel r) ?u)"
      by (rule cancels_refiner) (use t u assms in \<open>auto simp: calm_fields tossable_def\<close>)
    show "ends (calm (discarded s)) ((case se_refiner ?u of None \<Rightarrow> Some ?u | Some r \<Rightarrow> sn_call E (RefinerCancel r) ?u)
        \<bind> (\<lambda>s. forget_session E (s\<lparr>se_refinement_generation := 0, se_completion := None\<rparr>) \<bind> sn_call E MediaResume))"
    proof (rule ends_then[OF c])
      fix v assume v: "calm (?u\<lparr>sx_refining := None\<rparr>) v"
      show "ends (calm (discarded s)) (forget_session E (v\<lparr>se_refinement_generation := 0, se_completion := None\<rparr>)
          \<bind> sn_call E MediaResume)"
      proof (rule ends_then[OF calm_forget], rule quiet_after)
        fix w assume "calm ((v\<lparr>se_refinement_generation := 0, se_completion := None\<rparr>)
          \<lparr>se_settings := None\<rparr>) w"
        thus "calm (discarded s) w" using t u v by (auto simp: calm_fields log_grows_def discarded_def)
      qed simp
    qed
  qed
qed

text \<open>Leaving an activity: to Idle, to Error or, from a follow-up, back to the review.\<close>

lemma return_to_review_ok:
  assumes "sound s" "unsent s" "\<not> speech_runs_now s" "se_microphone s = MicOff" "chain_task (se_chain s) = None"
    and "sx_refining s = None" "0 < se_generation s" "ew_revision (se_review s) \<noteq> None"
  shows "ends (\<lambda>s'. session_ok s' \<and> bumped s s') (return_to_review E s)"
proof -
  obtain r where r: "ew_revision (se_review s) = Some r" using assms(8) by auto
  let ?t = "s\<lparr>se_review := review_end_follow_up (se_review s), se_refinement_generation := 0,
       se_target := rvn_target r, se_settings := Some (rvn_settings r),
       se_choices := rvn_choices r, se_pipeline := rvn_pipeline r, se_used_raw := False,
       se_warning := rvn_warning r, se_history := rvn_history r\<rparr>"
  have "session_ok (entered ?t SReviewing)"
    by (rule entered_ok)
      (use assms r in \<open>auto simp: sound_def unsent_def speech_runs_now_def session_following_def review_end_follow_up_def\<close>)
  moreover have "bumped s (entered ?t SReviewing)" by (simp add: bumped_def entered_def log_grows_def)
  ultimately show ?thesis
    by (auto simp: return_to_review_def r review_end_follow_up_def
        intro!: ends_mono[OF enter_review_ok] intro: bumped_moved_trans led_moved)
qed

lemma set_error_ok:
  assumes "sound s" "unsent s" "\<not> speech_runs_now s" "se_microphone s = MicOff" "chain_task (se_chain s) = None"
    and "sx_refining s = None" "0 < se_generation s"
  shows "ends (\<lambda>s'. session_ok s' \<and> bumped s s') (announce E SError m fix s)"
proof (cases "session_following s")
  case True
  let ?t = "s\<lparr>se_step := Suc (se_step s)\<rparr>"
  have "ends (\<lambda>s'. session_ok s' \<and> bumped ?t s') (return_to_review E ?t)"
    by (rule return_to_review_ok)
      (use assms True in \<open>auto simp: sound_def unsent_def speech_runs_now_def session_following_def
        ask_within_def list_all_iff le_SucI split: target_question.splits\<close>)
  moreover have "bumped s s'" if "bumped ?t s'" for s'
    using that by (auto simp: bumped_def log_grows_def)
  ultimately show ?thesis using True by (auto simp: announce_def set_state_def Let_def elim: ends_mono)
next
  case False
  have "session_ok (entered s SError)"
    by (rule entered_ok) (use assms in auto)
  thus ?thesis
    using False by (auto intro!: ends_mono[OF announce_ok] intro: bumped_moved_trans bumped_entered led_moved)
qed

lemma fail_session_ok:
  assumes "sound s" "unsent s" "\<not> speech_runs_now s" "chain_task (se_chain s) = None"
    and "sx_refining s = None" "0 < se_generation s"
  shows "ends (\<lambda>s'. session_ok s' \<and> bumped s s') (fail_session E m fix s)"
  unfolding fail_session_def
proof (rule ends_then[OF calm_abort], rule ends_then[OF calm_clear_screenshot], rule ends_then[OF quiet])
  fix t u v
  assume "calm (s\<lparr>se_microphone := MicOff\<rparr>) t" "calm t u" "calm (u\<lparr>se_settings := None\<rparr>) v"
  hence c: "calm (s\<lparr>se_microphone := MicOff, se_settings := None\<rparr>) v"
    by (auto simp: calm_fields log_grows_def)
  note f = calm_facts[OF c]
  have "ends (\<lambda>s'. session_ok s' \<and> bumped v s') (announce E SError m fix v)"
    by (rule set_error_ok) (use assms c f in \<open>auto simp: calm_fields sound_def unsent_def speech_runs_now_def
        session_following_def once_out_def\<close>)
  moreover have "moved s v" using c by (auto simp: calm_fields moved_def log_grows_def)
  ultimately show "ends (\<lambda>s'. session_ok s' \<and> bumped s s') (announce E SError m fix v)"
    by (auto elim!: ends_mono intro: moved_bumped)
qed simp

lemma end_quietly_ok:
  assumes "sound s" "\<not> speech_runs_now s" "se_microphone s = MicOff" "chain_task (se_chain s) = None"
    and "sx_refining s = None"
  shows "ends (\<lambda>s'. session_ok s' \<and> bumped s s') (end_quietly E s)"
  unfolding end_quietly_def
proof (rule ends_then[OF quiet])
  fix t assume c: "calm s t"
  have "session_ok (entered t SIdle)"
    by (rule entered_ok) (use assms c calm_facts[OF c] in \<open>auto simp: calm_fields\<close>)
  thus "ends (\<lambda>s'. session_ok s' \<and> bumped s s') (announce E SIdle [] no_action t)"
    by (rule ends_mono[OF announce_ok])
      (auto intro: bumped_moved_trans moved_bumped[OF calm_moved[OF c]] bumped_entered led_moved)
qed simp

lemma dismiss_error_ok:
  assumes ok: "session_ok s" and st: "se_state s = SError"
  shows "ends (\<lambda>s'. session_ok s' \<and> led s s') (dismiss_error E s)"
proof -
  let ?t = "s\<lparr>se_generation := Suc (se_generation s)\<rparr>"
  have "ends (\<lambda>s'. session_ok s' \<and> bumped ?t s') (end_quietly E ?t)"
    by (rule end_quietly_ok)
      (use st ok_silent[OF ok] ok_microphone_off[OF ok] ok_unrefined[OF ok] later_generation_sound[OF ok]
        in \<open>auto simp: speech_runs_now_def\<close>)
  moreover have "led s s'" if "bumped ?t s'" for s'
    by (rule bumped_led) (use that st in \<open>auto simp: bumped_def intro: log_grows_later\<close>)
  ultimately show ?thesis unfolding dismiss_error_def by (auto elim!: ends_mono)
qed

text \<open>Any session thrown away.\<close>

lemma calm_rests:
  assumes "tossable s" "calm (discarded s) t"
  shows "sound t" "unsent t" "\<not> speech_runs_now t" "se_microphone t = MicOff" "chain_task (se_chain t) = None"
    "sx_refining t = None" "0 < se_generation t" "se_review t = se_review s" "session_following t = session_following s"
  using assms(1) calm_facts[OF assms(2)] assms(2)
  by (simp_all add: tossable_def calm_fields discarded_def session_following_def speech_runs_now_def)

lemma throws_away:
  assumes "tossable s"
  shows "ends (\<lambda>s'. session_ok s' \<and> led s s' \<and> Suc (se_generation s) \<le> se_generation s')
    (discard E s \<bind> end_quietly E)"
proof (rule ends_then[OF calm_discard[OF assms]])
  fix t assume c: "calm (discarded s) t"
  note r = calm_rests[OF assms c]
  show "ends (\<lambda>s'. session_ok s' \<and> led s s' \<and> Suc (se_generation s) \<le> se_generation s') (end_quietly E t)"
    by (rule ends_mono[OF end_quietly_ok[OF r(1,3,4,5,6)]]) (use led_discarded[OF c] in auto)
qed

lemma led_ended_review: "led (s\<lparr>se_review := w\<rparr>) s' \<longleftrightarrow> led s s'"
  by (simp add: led_def moved_def frozen_def log_grows_def speech_runs_now_def)

lemma throws_review_away:
  "session_ok s \<Longrightarrow> ends (\<lambda>s'. session_ok s' \<and> led s s' \<and> Suc (se_generation s) \<le> se_generation s')
    (discard E (s\<lparr>se_review := review_end (se_review s)\<rparr>) \<bind> end_quietly E)"
  using throws_away[OF ended_review_tossable, of s] by (simp add: led_ended_review)

lemma cancel_follow_up:
  assumes "session_ok s" "session_following s"
  shows "ends (\<lambda>s'. session_ok s' \<and> led s s' \<and> Suc (se_generation s) \<le> se_generation s')
    (discard E s \<bind> return_to_review E)"
proof (rule ends_then[OF calm_discard[OF ok_tossable[OF assms(1)]]])
  fix t assume c: "calm (discarded s) t"
  note r = calm_rests[OF ok_tossable[OF assms(1)] c]
  have "ew_revision (se_review t) \<noteq> None" using r(8) session_okD(6)[OF assms] by simp
  from return_to_review_ok[OF r(1-7) this]
  show "ends (\<lambda>s'. session_ok s' \<and> led s s' \<and> Suc (se_generation s) \<le> se_generation s') (return_to_review E t)"
    by (rule ends_mono) (use led_discarded[OF c] in auto)
qed

lemma cancel_announces:
  assumes "session_ok s"
  shows "ends (\<lambda>s'. session_ok s' \<and> led s s' \<and> Suc (se_generation s) \<le> se_generation s') (do {
        s \<leftarrow> discard E s;
        (step, s) \<leftarrow> set_state E SIdle [] no_action s;
        (if step \<noteq> se_step s then Some s else do {
           s \<leftarrow> sn_call E (PopupMessage cancelled_outcome_text OutcomeCancelled no_action) s;
           sn_call E (HideTimer (os_completion_ms (ss_output (se_saved s))) (se_generation s)) s }) })"
proof (rule ends_then[OF calm_discard[OF ok_tossable[OF assms]]])
  fix t assume c: "calm (discarded s) t"
  note r = calm_rests[OF ok_tossable[OF assms] c]
  let ?P = "\<lambda>s'. session_ok s' \<and> bumped t s'"
  have ok: "session_ok (entered t SIdle)" by (rule entered_ok) (use r in auto)
  have "ends ?P (if step \<noteq> se_step u then Some u else do {
           s \<leftarrow> sn_call E (PopupMessage cancelled_outcome_text OutcomeCancelled no_action) u;
           sn_call E (HideTimer (os_completion_ms (ss_output (se_saved s))) (se_generation s)) s })"
    if u: "step = Suc (se_step t) \<and> session_ok u \<and> led (entered t SIdle) u" for step u
  proof -
    have b: "bumped t u" using u bumped_moved_trans[OF bumped_entered led_moved] by blast
    show ?thesis
      using u b by (auto intro!: ends_mono[OF quiet] simp: session_ok_calm
          intro: bumped_moved_trans calm_moved calm_trans)
  qed
  note rest = this
  have "ends ?P (set_state E SIdle [] no_action t \<bind> (\<lambda>(step, s). if step \<noteq> se_step s then Some s else do {
           s \<leftarrow> sn_call E (PopupMessage cancelled_outcome_text OutcomeCancelled no_action) s;
           sn_call E (HideTimer (os_completion_ms (ss_output (se_saved s))) (se_generation s)) s }))"
    by (rule ends_then2[OF set_state_ok[OF ok]], simp, rule rest)
  thus "ends (\<lambda>s'. session_ok s' \<and> led s s' \<and> Suc (se_generation s) \<le> se_generation s')
      (set_state E SIdle [] no_action t \<bind> (\<lambda>(step, s). if step \<noteq> se_step s then Some s else do {
           s \<leftarrow> sn_call E (PopupMessage cancelled_outcome_text OutcomeCancelled no_action) s;
           sn_call E (HideTimer (os_completion_ms (ss_output (se_saved s))) (se_generation s)) s }))"
    by (rule ends_mono) (use led_discarded[OF c] in auto)
qed

text \<open>What is cancelled has a later generation, unless nothing was cancelled.\<close>

lemma cancel_ok:
  assumes ok: "session_ok s"
  shows "ends (\<lambda>s'. session_ok s' \<and> led s s'
      \<and> (se_state s \<in> {SIdle, SDelivering, SError} \<or> Suc (se_generation s) \<le> se_generation s')) (cancel_session E s)"
  using dismiss_error_ok[OF ok] throws_review_away[OF ok] cancel_follow_up[OF ok] cancel_announces[OF ok] ok
  by (auto simp: cancel_session_def elim!: ends_mono)

lemma shutdown_ok: "session_ok s \<Longrightarrow> ends (\<lambda>s'. session_ok s' \<and> led s s') (cancel_for_shutdown E s)"
  using throws_review_away[of s] by (auto simp: cancel_for_shutdown_def elim!: ends_mono)

lemma deliver_final_ok:
  assumes "sound s" "unsent s" "\<not> speech_runs_now s" "se_microphone s = MicOff" "chain_task (se_chain s) = None"
    and "sx_refining s = None" "0 < se_generation s"
  shows "ends (\<lambda>s'. session_ok s' \<and> bumped s s') (deliver_final E w note spoken s)"
proof (cases "se_settings s")
  case None
  thus ?thesis using fail_session_ok[OF assms(1-3,5-7)] by (simp add: deliver_final_def)
next
  case (Some settings)
  let ?P = "\<lambda>s'. session_ok s' \<and> bumped s s'"
  let ?t = "s\<lparr>se_refinement_generation := 0, se_last_transcript := w\<rparr>"
  have ok: "session_ok (entered ?t SDelivering)"
    by (rule entered_ok) (use assms in \<open>auto simp: sound_def session_following_def speech_runs_now_def\<close>)
  have b: "bumped s (entered ?t SDelivering)" by (simp add: bumped_def entered_def log_grows_def)
  have sent: "unsent u" if "led (entered ?t SDelivering) u" "se_step u = Suc (se_step s)" for u
    using that assms(2) by (simp add: led_def moved_def frozen_def unsent_def entered_def)
  have deliver: "ends ?P (sn_call E (Deliver os dc tg) (u\<lparr>se_awaited := a, se_unanswered := n\<rparr>))"
    if u: "session_ok u" "led (entered ?t SDelivering) u" "se_step u = Suc (se_step s)" and a: "ad_step a = Suc (se_step s)"
    for u a n os dc tg
  proof (rule ends_mono[OF delivers])
    let ?u = "logged (Deliver os dc tg) (u\<lparr>se_awaited := a, se_unanswered := n\<rparr>)"
    have st: "se_state u = SDelivering" using u by (simp add: led_def moved_def)
    have "session_ok ?u" by (rule ok_delivers) (use u st sent[OF u(2,3)] a in auto)
    moreover have "bumped s ?u" using bumped_moved_trans[OF b led_moved[OF u(2)]]
      by (auto simp: bumped_def logged_def log_grows_def)
    ultimately show "?P v" if "calm ?u v" for v
      using that by (auto simp: session_ok_calm intro: bumped_moved_trans calm_moved)
  qed
  have usage: "ends ?P (do { s \<leftarrow> sn_call E (RecordVocabularyUsage w) u;
          (if step \<noteq> se_step s then Some s
           else sn_call E (Deliver (ss_output settings)
                  (make_delivery_content (sn_chars E) w (os_format (ss_output settings))) (se_target s))
                (s\<lparr>se_awaited := \<lparr>ad_step = step, ad_text = w, ad_note = note, ad_words = n,
                     ad_app_name = an, ad_profile = pr, ad_profile_name = pn,
                     ad_completion_ms = os_completion_ms (ss_output settings)\<rparr>,
                   se_unanswered := se_unanswered s + 1\<rparr>)) })"
    if u: "session_ok u" "led (entered ?t SDelivering) u" "step = Suc (se_step s)" for u step n an pr pn
  proof (rule ends_then[OF hear[OF _ _ u(1,2)]])
    fix v assume v: "session_ok v \<and> led (entered ?t SDelivering) v"
    have "?P v" using v b bumped_moved_trans led_moved by blast
    thus "ends ?P (if step \<noteq> se_step v then Some v
           else sn_call E (Deliver (ss_output settings)
                  (make_delivery_content (sn_chars E) w (os_format (ss_output settings))) (se_target v))
                (v\<lparr>se_awaited := \<lparr>ad_step = step, ad_text = w, ad_note = note, ad_words = n,
                     ad_app_name = an, ad_profile = pr, ad_profile_name = pn,
                     ad_completion_ms = os_completion_ms (ss_output settings)\<rparr>,
                   se_unanswered := se_unanswered v + 1\<rparr>))"
      using v u(3) by (auto intro!: deliver)
  qed (simp_all add: is_out_def)
  show ?thesis
    unfolding deliver_final_def Some option.case Let_def
  proof (rule ends_then2[OF set_state_ok[OF ok]])
    fix step u assume u: "step = Suc (se_step ?t) \<and> session_ok u \<and> led (entered ?t SDelivering) u"
    have "?P u" using u b bumped_moved_trans led_moved by blast
    thus "ends ?P (if step \<noteq> se_step u then Some u else do { s \<leftarrow> sn_call E (RecordVocabularyUsage w) u;
          (if step \<noteq> se_step s then Some s
           else sn_call E (Deliver (ss_output settings)
                  (make_delivery_content (sn_chars E) w (os_format (ss_output settings))) (se_target s))
                (s\<lparr>se_awaited := \<lparr>ad_step = step, ad_text = w, ad_note = note, ad_words = n,
                     ad_app_name = an, ad_profile = pr, ad_profile_name = pn,
                     ad_completion_ms = os_completion_ms (ss_output settings)\<rparr>,
                   se_unanswered := se_unanswered s + 1\<rparr>)) })" for n an pr pn
      using u by (intro ends_if usage) auto
  qed simp
qed

lemma note_sign_in_ok: "session_ok s \<Longrightarrow> led t s \<Longrightarrow> ends (\<lambda>s'. session_ok s' \<and> led t s') (note_sign_in E i b s)"
  by (auto simp: note_sign_in_def is_out_def intro!: hear)

lemma note_issue_ok:
  "session_ok s \<Longrightarrow> led t s \<Longrightarrow> ends (\<lambda>s'. session_ok s' \<and> led t s') (note_provider_issue E role i st f s)"
  by (simp add: note_provider_issue_def Let_def note_sign_in_ok)

lemma retire_ok:
  assumes "session_ok s" "led t s"
  shows "ends (\<lambda>s'. session_ok s' \<and> led t s') (retire_refiner E s)"
proof -
  let ?s = "s\<lparr>se_revision := Suc (se_revision s), se_connection := None\<rparr>"
  let ?u = "?s\<lparr>sx_refining := None\<rparr>"
  have c: "ends (calm ?u) (case se_refiner ?s of None \<Rightarrow> Some ?s | Some r \<Rightarrow> sn_call E (RefinerCancel r) ?s)"
    by (rule cancels_refiner) (use session_okD(10)[OF assms(1)] in auto)
  have "session_ok ?u"
    using assms(1) session_ok_unrefined[of ?s] by simp
  moreover have "led t ?u" using assms(2) led_unrefined[of t ?s] by simp
  ultimately have rest: "ends (\<lambda>s'. session_ok s' \<and> led t s') (sn_call E (PopupRefinementPreview []) (u\<lparr>se_stream := []\<rparr>))"
    if "calm ?u u" for u
    using that by (intro hear) (auto simp: is_out_def session_ok_calm intro: led_calm)
  show ?thesis
    unfolding retire_refiner_def disconnect_refiner_def Let_def by (rule ends_then[OF c]) (rule rest)
qed

lemma pass_over_ok:
  assumes "session_ok s"
  shows "ends (\<lambda>s'. session_ok s' \<and> led s s') (pass_over_refiner E i st f s)"
  unfolding pass_over_refiner_def
  by (rule ends_then[OF note_issue_ok[of _ s]]) (use assms retire_ok in auto)

lemma walks_passed:
  assumes "walks s" "session_ok s'" "led s s'" "se_step s' = se_step s"
  shows "walks s'" "rchain_stays (se_chain s) (se_chain s')"
  using assms by (auto simp: walks_def led_def moved_def frozen_def)

lemma fail_edit_ok:
  assumes "walks s"
  shows "ends (\<lambda>s'. session_ok s' \<and> moved s s') (fail_selection_edit E m s)"
proof -
  note r = walks_rests[OF assms]
  let ?s = "s\<lparr>se_refinement_generation := 0, se_target := no_target, se_pipeline := no_pipeline\<rparr>"
  have "ends (\<lambda>s'. session_ok s' \<and> bumped ?s s') (fail_session E m no_action ?s)"
    by (rule fail_session_ok) (use r in \<open>auto simp: sound_def unsent_def speech_runs_now_def session_following_def\<close>)
  thus ?thesis unfolding fail_selection_edit_def
    by (auto elim!: ends_mono simp: bumped_def moved_def log_grows_def)
qed

lemma deliver_walk_ok:
  assumes "walks s"
  shows "ends (\<lambda>s'. session_ok s' \<and> moved s s') (deliver_final E w note spoken s)"
  by (rule ends_mono[OF deliver_final_ok[OF walks_rests[OF assms]]]) (auto intro: bumped_moved)

lemma deliver_without_ok:
  assumes "walks s"
  shows "ends (\<lambda>s'. session_ok s' \<and> moved s s') (deliver_without_refinement E s)"
proof (cases "pl_edits_selection (se_pipeline s)")
  case True
  thus ?thesis using fail_edit_ok[OF assms] by (simp add: deliver_without_refinement_def)
next
  case False
  let ?s = "s\<lparr>se_used_raw := True\<rparr>"
  have "walks ?s" using assms by (simp add: walks_def speech_runs_now_def)
  from deliver_walk_ok[OF this] have "ends (\<lambda>s'. session_ok s' \<and> moved s s')
      (deliver_final E (pl_fallback (se_pipeline s)) [] None ?s)"
    by (simp add: moved_def log_grows_def)
  thus ?thesis using False by (simp add: deliver_without_refinement_def)
qed

end

end
