(* ===== verification/Session_Steps.thy ===== *)
theory Session_Steps
  imports Session_Safety
begin

text \<open>
  The refinement of a Dictation Session, its commands and its events: each of
  them keeps the session sound, and the chain's interface is the session's.
\<close>

section \<open>Refinement\<close>

lemma walks_chain:
  assumes "walks s" "chain_task c = None" "rf_refiner c \<noteq> None \<Longrightarrow> se_refiner s \<noteq> None"
  shows "walks (s\<lparr>se_chain := c\<rparr>)"
proof -
  have "chain_ok (s\<lparr>se_chain := c\<rparr>)" "outgoing_ok (s\<lparr>se_chain := c\<rparr>)" "rest_ok (s\<lparr>se_chain := c\<rparr>)"
    using assms by (auto simp: walks_def session_ok_def rest_ok_refiner chain_ok_def outgoing_ok_def)
  thus ?thesis using assms(1,2) by (simp add: walks_def session_ok_def speech_runs_now_def)
qed

lemma moved_chain: "rf_generation (se_chain t) \<le> rf_generation c \<Longrightarrow> moved s t \<Longrightarrow> moved s (t\<lparr>se_chain := c\<rparr>)"
  by (auto simp: moved_def log_grows_def)

lemma walks_frames:
  assumes "walks s"
  shows "walks (s\<lparr>se_chain := (se_chain s)\<lparr>rf_index := i\<rparr>\<rparr>)" "walks (s\<lparr>se_chain := (se_chain s)\<lparr>rf_settings := as\<rparr>\<rparr>)"
    "walks (s\<lparr>se_chain := (se_chain s)\<lparr>rf_generation := n, rf_settings := as, rf_services := rs, rf_choices := ch\<rparr>\<rparr>)"
  using assms session_okD(9)[of s] by (auto intro!: walks_chain simp: walks_def[of s] chain_task_def)

lemma walks_connected:
  assumes "walks s"
  shows "walks (connect_refiner r s)" "moved t s \<Longrightarrow> moved t (connect_refiner r s)"
proof -
  have "chain_ok (s\<lparr>se_refiner := Some r\<rparr>)" "outgoing_ok (s\<lparr>se_refiner := Some r\<rparr>)" "rest_ok (s\<lparr>se_refiner := Some r\<rparr>)"
    using assms by (auto simp: walks_def session_ok_def rest_ok_refiner chain_ok_def outgoing_ok_def)
  hence "session_ok (s\<lparr>se_refiner := Some r\<rparr>)" by (simp add: session_ok_def)
  thus "walks (connect_refiner r s)"
    using assms by (simp add: walks_def speech_runs_now_def connect_refiner_def disconnect_refiner_def)
  show "moved t s \<Longrightarrow> moved t (connect_refiner r s)"
    by (auto simp: connect_refiner_def disconnect_refiner_def moved_def log_grows_def)
qed

lemma connect_fields [simp]:
  "se_chain (connect_refiner r s) = se_chain s" "se_refiner (connect_refiner r s) = Some r"
  by (simp_all add: connect_refiner_def disconnect_refiner_def)

lemma chain_task_fields [simp]:
  "chain_task (c\<lparr>rf_refiner := r\<rparr>) = chain_task c" "chain_task (c\<lparr>rf_index := i\<rparr>) = chain_task c"
  "chain_task (c\<lparr>rf_settings := as\<rparr>) = chain_task c"
  "chain_task (c\<lparr>rf_generation := n, rf_settings := as, rf_services := rs, rf_choices := ch\<rparr>) = chain_task c"
  by (simp_all add: chain_task_def)

lemma chain_task_runner:
  "chain_task (c\<lparr>rf_runner := prepare_refiner j r\<rparr>) = Some (PrepareRefiner j)"
  "chain_task (c\<lparr>rf_runner := resolve_secrets role i as r\<rparr>) = Some (ResolveSecrets role i as)"
  by (simp_all add: chain_task_def prepare_refiner_def resolve_secrets_def runner_run_def Let_def)

lemma chain_task_finished:
  "thread_finished n (rf_runner c) = (Some t, ru) \<Longrightarrow> chain_task c = Some t \<and> chain_task (c\<lparr>rf_runner := ru\<rparr>) = None"
  "thread_finished n (rf_runner c) = (None, ru) \<Longrightarrow> chain_task (c\<lparr>rf_runner := ru\<rparr>) = chain_task c"
  by (auto simp: thread_finished_def chain_task_def Let_def split: option.splits if_splits)

lemma session_ok_runner:
  assumes "session_ok s" "chain_task c = chain_task (se_chain s)" "rf_refiner c = rf_refiner (se_chain s)"
  shows "session_ok (s\<lparr>se_chain := c\<rparr>)"
  using assms by (auto simp: session_ok_def rest_ok_refiner chain_ok_def outgoing_ok_def)

lemma walks_calm: "walks s \<Longrightarrow> calm s t \<Longrightarrow> walks t"
  using calm_facts[of s t] session_ok_calm[of s t] by (simp add: walks_def calm_fields)

lemma walks_calm_eq: "calm s t \<Longrightarrow> walks t = walks s"
  using calm_facts[of s t] session_ok_calm[of s t] by (simp add: walks_def calm_fields)

lemmas walks_unminded [simp] = unminded[THEN walks_calm_eq]

lemma stopped_walks:
  "session_ok s \<Longrightarrow> se_state s = SStopping \<Longrightarrow> \<not> speech_runs_now s \<Longrightarrow> se_microphone s = MicOff \<Longrightarrow> walks s"
  using ok_unrefined[of s] by (simp add: walks_def)

lemma note_ran_fields:
  "se_refiner (note_ran role i s) = se_refiner s" "se_settings (note_ran role i s) = se_settings s"
  by (simp_all add: note_ran_def Let_def)

context session_surroundings
begin

text \<open>
  Entering Refining, with a preparation under way or with none: what is entered is
  still there if the step is.
\<close>

lemma enter_refining_ok:
  assumes w: "walks s" and c: "c = se_chain s \<or> (chain_task c \<noteq> None \<and> task_ok (the (chain_task c)) (rf_refiner c)
      \<and> rf_refiner c = rf_refiner (se_chain s) \<and> rf_generation c = rf_generation (se_chain s))"
  shows "ends (\<lambda>(entered, s'). session_ok s' \<and> moved s s' \<and> (entered \<and> c = se_chain s \<longrightarrow> walks s' \<and> se_state s' = SRefining))
    (enter_refining E (s\<lparr>se_chain := c\<rparr>))"
proof (cases "se_state s = SRefining")
  case True
  have "session_ok (s\<lparr>se_chain := c\<rparr>)"
    using w c True by (auto simp: walks_def session_ok_def rest_ok_refiner chain_ok_def outgoing_ok_def)
  thus ?thesis
    using True w c by (auto simp: enter_refining_def moved_def log_grows_def)
next
  case False
  note r = walks_rests[OF w]
  have set: "se_settings s \<noteq> None" using w session_okD(1)[of s] by (auto simp: walks_def)
  let ?s = "s\<lparr>se_chain := c, se_refinement_generation := se_generation s\<rparr>"
  have ok: "session_ok (entered ?s SRefining)"
    by (rule entered_ok) (use r set c in \<open>auto simp: sound_def unsent_def speech_runs_now_def session_following_def\<close>)
  have m: "moved s u" if "led (entered ?s SRefining) u" for u
    using led_moved[OF that] c by (auto simp: moved_def entered_def log_grows_def)
  have "walks u \<and> se_state u = SRefining"
    if u: "session_ok u" "led (entered ?s SRefining) u" "se_step u = Suc (se_step s)" "c = se_chain s" for u
    using u r by (auto simp: led_def moved_def frozen_def walks_def entered_def speech_runs_now_def)
  thus ?thesis
    using False m unfolding enter_refining_def
    by (simp del: ends_bind) (rule ends_then2[OF set_state_ok[OF ok]], auto)
qed

lemma refine_ok:
  assumes v: "walks v" "se_state v = SRefining" "se_refiner v \<noteq> None"
  shows "ends (\<lambda>s'. session_ok s' \<and> moved v s') (refine_with E services choices v)"
proof -
  obtain rf where rf: "se_refiner v = Some rf" using v(3) by auto
  obtain st where st: "se_settings v = Some st" using v session_okD(1)[of v] by (auto simp: walks_def)
  have ok: "session_ok (v\<lparr>sx_refining := Some rf\<rparr>)"
    using v rf by (auto simp: walks_def session_ok_def rest_ok_refiner chain_ok_def outgoing_ok_def)
  have x: "session_ok ((note_ran Refinement i (v\<lparr>se_stream := [], se_replacements := re, se_pipeline := p\<rparr>))
      \<lparr>sx_refining := Some rf\<rparr>)" for re p i
    by (rule session_ok_calm[THEN iffD2, OF _ ok]) (simp add: note_ran_def Let_def calm_fields log_grows_def)
  have m: "moved v u" if "moved (note_ran Refinement i (v\<lparr>se_stream := [], se_replacements := re, se_pipeline := p\<rparr>)) u"
    for re p i u
    using that by (auto simp: note_ran_def Let_def)
  have "ends (\<lambda>s'. session_ok s' \<and> moved v s') (sn_call E (RefinerRefine rf ip vo cx rs ch ac)
      (note_ran Refinement i (v\<lparr>se_stream := [], se_replacements := re, se_pipeline := p\<rparr>)))" for re p i ip vo cx rs ch ac
    by (rule ends_mono[OF refines[OF x]]) (use m in blast)
  thus ?thesis by (simp add: refine_with_def Let_def note_ran_fields rf st)
qed

lemma start_refiner_ok:
  assumes w: "walks s" and r: "rf_refiner (se_chain s) \<noteq> None"
  shows "ends (\<lambda>s'. session_ok s' \<and> moved s s') (start_refiner E s)"
proof -
  have refiner: "se_refiner s \<noteq> None" using w r session_okD(9)[of s] by (auto simp: walks_def)
  have enter: "ends (\<lambda>s'. session_ok s' \<and> moved s s') (do {
        (entered, s) \<leftarrow> enter_refining E u;
        (if \<not> entered then Some s else refine_with E services choices s) })"
    if u: "walks u" "moved s u" for u services choices
  proof (rule ends_then2)
    show "ends (\<lambda>(entered, s'). session_ok s' \<and> moved u s' \<and> (entered \<longrightarrow> walks s' \<and> se_state s' = SRefining))
        (enter_refining E u)"
      using enter_refining_ok[OF u(1), of "se_chain u"] by simp
  next
    fix entered v assume v: "session_ok v \<and> moved u v \<and> (entered \<longrightarrow> walks v \<and> se_state v = SRefining)"
    have m: "moved s v" using u(2) v moved_trans by blast
    hence "se_refiner v \<noteq> None" using refiner by (auto simp: moved_def)
    thus "ends (\<lambda>s'. session_ok s' \<and> moved s s') (if \<not> entered then Some v else refine_with E services choices v)"
      using v m by (auto intro!: ends_mono[OF refine_ok] intro: moved_trans)
  qed
  show ?thesis
    unfolding start_refiner_def Let_def
  proof (rule ends_then[OF note_sign_in_ok[of s s]], goal_cases)
    case (3 u)
    show ?case
    proof (rule ends_if)
      assume "\<not> se_step s \<noteq> se_step u"
      hence "walks u" using walks_passed[OF w, of u] 3 by simp
      thus "ends (\<lambda>s'. session_ok s' \<and> moved s s') (enter_refining E u \<bind> (\<lambda>(entered, s). if \<not> entered then Some s
          else refine_with E (rchain_current_settings (se_chain s0)) (rf_choices (se_chain s0)) s))" for s0
        using enter[of u] 3 led_moved by blast
    qed (use 3 led_moved in auto)
  qed (use w in \<open>auto simp: walks_def\<close>)
qed

text \<open>The chain's interface.\<close>

lemma chain_listeners:
  "refinement_listeners (session_refinement E) (\<lambda>s. walks s \<and> moved s0 s) (\<lambda>s. session_ok s \<and> moved s0 s)"
proof (unfold_locales, goal_cases)
  case (2 s i)
  have "ends (\<lambda>(r, s'). (walks s' \<and> moved s0 s') \<and> se_chain s' = se_chain s
      \<and> walks (s'\<lparr>se_chain := (se_chain s')\<lparr>rf_refiner := r\<rparr>\<rparr>) \<and> moved s0 (s'\<lparr>se_chain := (se_chain s')\<lparr>rf_refiner := r\<rparr>\<rparr>))
      (let (found, t) = select_refiner E i s in Some (if found then se_refiner t else None, t))"
  proof (cases "sn_offers_refiner E i")
    case None
    thus ?thesis using 2 by (auto simp: select_refiner_def walks_def[of s] intro!: walks_chain moved_chain)
  next
    case (Some r)
    thus ?thesis
      using 2 walks_connected[where s = s and r = r] by (auto simp: select_refiner_def walks_def[of s] intro!: walks_chain moved_chain)
  qed
  thus ?case by (simp add: session_refinement_def rn_upd_def)
next
  case (5 s n pf)
  have "ends (\<lambda>s'. (walks s' \<and> moved s0 s') \<and> se_chain s' = se_chain s) (sn_apply E n pf s)"
  proof (rule ends_mono[OF applies])
    fix t assume c: "calm s t"
    hence "se_chain t = se_chain s" by (simp add: calm_fields)
    thus "(walks t \<and> moved s0 t) \<and> se_chain t = se_chain s"
      using 5 walks_calm[OF _ c] moved_trans[OF _ calm_moved[OF c]] by simp
  qed
  thus ?case by (simp add: session_refinement_def)
next
  case (6 s i st f)
  let ?P = "\<lambda>s'. if rf_generation (se_chain s') = rf_generation (se_chain s)
      then (walks s' \<and> moved s0 s') \<and> rchain_stays (se_chain s) (se_chain s') else session_ok s' \<and> moved s0 s'"
  have "ends ?P (pass_over_refiner E i st f s)"
  proof (rule ends_mono[OF pass_over_ok])
    fix s' assume s': "session_ok s' \<and> led s s'"
    have "se_step s' = se_step s" if "rf_generation (se_chain s') = rf_generation (se_chain s)"
      using s' 6 that by (auto simp: led_def walks_def)
    thus "?P s'"
      using s' 6 walks_passed[of s s'] led_moved[of s s'] moved_trans[of s0 s s'] by auto
  qed (use 6 in \<open>simp add: walks_def\<close>)
  moreover have "rn_passed_over (session_refinement E) = pass_over_refiner E"
    "rn_get (session_refinement E) = se_chain" by (simp_all add: session_refinement_def)
  ultimately show ?case by (simp only:)
next
  case (7 s role i)
  let ?c = "(se_chain s)\<lparr>rf_runner := resolve_secrets role i (rf_settings (se_chain s)) (rf_runner (se_chain s))\<rparr>"
  have "ends (\<lambda>s'. session_ok s' \<and> moved s0 s') (enter_refining E (s\<lparr>se_chain := ?c\<rparr>) \<bind> (\<lambda>(e, s). Some s))"
    by (rule ends_then2[OF enter_refining_ok]) (use 7 in \<open>auto simp: chain_task_runner task_ok_def intro: moved_trans\<close>)
  thus ?case by (simp add: session_refinement_def rn_upd_def)
next
  case (8 s j)
  let ?c = "(se_chain s)\<lparr>rf_runner := prepare_refiner j (rf_runner (se_chain s))\<rparr>"
  have "ends (\<lambda>s'. session_ok s' \<and> moved s0 s') (enter_refining E (s\<lparr>se_chain := ?c\<rparr>) \<bind> (\<lambda>(e, s). Some s))"
    by (rule ends_then2[OF enter_refining_ok])
      (use 8 in \<open>auto simp: chain_task_runner task_ok_def session_refinement_def intro: moved_trans\<close>)
  thus ?case by (simp add: session_refinement_def rn_upd_def)
next
  case (9 s "as")
  have "session_ok (s\<lparr>se_settings := Some x\<rparr>)" for x
    using 9 by (auto simp: walks_def session_ok_def rest_ok_def chain_ok_def outgoing_ok_def session_following_def speech_runs_now_def)
  hence "walks (s\<lparr>se_settings := Some x\<rparr>)" for x using 9 by (simp add: walks_def speech_runs_now_def)
  moreover have "moved s0 (s\<lparr>se_settings := x\<rparr>)" for x using 9 by (simp add: moved_def log_grows_def)
  ultimately show ?case by (simp add: session_refinement_def)
next
  case (10 s)
  thus ?case using start_refiner_ok[of s]
    by (auto simp: session_refinement_def elim!: ends_mono intro: moved_trans)
next
  case (11 s)
  thus ?case using deliver_without_ok[of s]
    by (auto simp: session_refinement_def elim!: ends_mono intro: moved_trans)
next
  case (15 s n t ru)
  let ?c = "(se_chain s)\<lparr>rf_runner := ru\<rparr>"
  have t: "chain_task (se_chain s) = Some t" "chain_task ?c = None"
    using 15 chain_task_finished(1)[of n "se_chain s" t ru] by (auto simp: session_refinement_def)
  note f = session_okD(8)[of s] session_okD(9)[of s]
  have "chain_ok (s\<lparr>se_chain := ?c\<rparr>)" using 15 t by (auto simp: session_ok_def chain_ok_def)
  hence "walks (s\<lparr>se_chain := ?c\<rparr>)"
    using 15 t f ok_silent[of s] ok_microphone_off[of s]
    by (auto simp: walks_def session_ok_def rest_ok_refiner outgoing_ok_def speech_runs_now_def)
  thus ?case
    using 15 t f by (auto simp: session_refinement_def rn_upd_def moved_chain task_ok_def split: prep_task.splits)
next
  case (16 s n ru)
  thus ?case
    using chain_task_finished(2)[of n "se_chain s" ru]
    by (auto simp: session_refinement_def rn_upd_def intro!: session_ok_runner moved_chain)
qed (auto simp: session_refinement_def rn_upd_def elim: walks_frames intro!: moved_chain)

end

sublocale session_surroundings \<subseteq> chain: refinement_listeners "session_refinement E"
  "\<lambda>s. walks s \<and> moved s0 s" "\<lambda>s. session_ok s \<and> moved s0 s" for s0
  by (rule chain_listeners)

context session_surroundings
begin

lemma prepare_ok: "walks s \<Longrightarrow> moved s0 s \<Longrightarrow>
    ends (\<lambda>s'. session_ok s' \<and> moved s0 s') (rchain_prepare (session_refinement E) as rs ch s)"
  by (rule chain.prepare_returns) simp

lemma prepare_next_ok: "walks s \<Longrightarrow> moved s0 s \<Longrightarrow>
    ends (\<lambda>s'. session_ok s' \<and> moved s0 s') (rchain_prepare_next (session_refinement E) as rs ch s)"
  by (rule chain.prepare_next_returns) simp

lemma thread_ok: "session_ok s \<Longrightarrow>
    ends (\<lambda>s'. session_ok s' \<and> moved s s') (rchain_thread_finished (session_refinement E) i w s)"
  by (rule chain.thread_finished_returns) simp

lemma fail_walk_ok: "walks s \<Longrightarrow> ends (\<lambda>s'. session_ok s' \<and> moved s s') (fail_session E m fix s)"
  by (rule ends_mono[OF fail_session_ok]) (auto dest: walks_rests intro: bumped_moved)

lemma begin_refinement_ok:
  assumes ok: "session_ok s" and w: "se_state s = SStopping \<Longrightarrow> walks s"
  shows "ends (\<lambda>s'. session_ok s' \<and> moved s s') (begin_refinement E g s)"
proof (cases "g \<noteq> se_generation s \<or> se_state s \<noteq> SStopping \<or> ts_is_empty (sn_chars E) s \<or> se_settings s = None")
  case True
  thus ?thesis using ok w fail_walk_ok by (auto simp: begin_refinement_def)
next
  case False
  then obtain settings where st: "se_settings s = Some settings" by auto
  define target where "target = (if session_following s then (case ew_revision (se_review s) of None \<Rightarrow> None
      | Some r \<Rightarrow> Some ((se_target s)\<lparr>tg_selected_text := rvn_edit r\<rparr>)) else Some (se_target s))"
  have "target \<noteq> None" using session_okD(6)[OF ok] by (auto simp: target_def split: option.splits)
  then obtain t where t: "target = Some t" by auto
  have walks: "walks (s\<lparr>se_pipeline := p\<rparr>)" "walks (s\<lparr>se_pipeline := p, se_chain_saved := settings\<rparr>)" for p
    using w False by simp_all
  have deliver: "ends (\<lambda>s'. session_ok s' \<and> moved s s') (deliver_final E x [] None (s\<lparr>se_pipeline := p\<rparr>))" for x p
    using deliver_walk_ok[OF walks(1)] by simp
  have fail: "ends (\<lambda>s'. session_ok s' \<and> moved s s') (fail_selection_edit E m (s\<lparr>se_pipeline := p\<rparr>))" for m p
    using fail_edit_ok[OF walks(1)] by simp
  have prepare: "ends (\<lambda>s'. session_ok s' \<and> moved s s')
      (rchain_prepare (session_refinement E) as rs ch (s\<lparr>se_pipeline := p, se_chain_saved := settings\<rparr>))" for as rs ch p
    by (rule prepare_ok) (use walks(2) in simp_all)
  show ?thesis
    using False by (simp add: begin_refinement_def st Let_def target_def[symmetric] t deliver fail prepare)
qed

lemma refinement_failure_ok:
  assumes w: "walks s"
  shows "ends (\<lambda>s'. session_ok s' \<and> moved s s') (handle_refinement_failure E f s)"
proof (cases "permits_provider_fallback (pf_kind f)")
  case True
  have ok: "session_ok s" using w by (simp add: walks_def)
  have "ends (\<lambda>s'. session_ok s' \<and> moved s s') (if se_step s \<noteq> se_step u then Some u else do {
           settings \<leftarrow> se_settings u;
           rchain_prepare_next (session_refinement E) (ss_app settings) (pl_services (se_pipeline u))
             (pl_choices (se_pipeline u)) (u\<lparr>se_chain_saved := settings\<rparr>) })"
    if u: "session_ok u \<and> led s u" for u
  proof (cases "se_step s \<noteq> se_step u")
    case False
    have wu: "walks u" using walks_passed[OF w, of u] u False by simp
    obtain settings where "se_settings u = Some settings"
      using wu session_okD(1)[of u] by (auto simp: walks_def)
    thus ?thesis using False wu u led_moved by (auto intro!: prepare_next_ok)
  qed (use u led_moved in auto)
  note go_on = this
  show ?thesis
    unfolding handle_refinement_failure_def Let_def if_P[OF True]
    by (rule ends_then[OF pass_over_ok[OF ok]], rule go_on)
next
  case False
  thus ?thesis using deliver_without_ok[of "s\<lparr>se_message := pf_message f\<rparr>"] w
    by (simp add: handle_refinement_failure_def)
qed

end

end
