(* ===== verification/Session_Review.thy ===== *)
theory Session_Review
  imports Session_Steps
begin

text \<open>
  The delivery of a Dictation Session and the review of its selection edit: each
  operation keeps the session sound.
\<close>

lemma moved_led: "moved s s' \<Longrightarrow> se_state s \<notin> {SStopping, SRefining, SDelivering, SStarting} \<Longrightarrow> led s s'"
  by (simp add: led_def)

lemma start_asks_append [simp]: "start_asks (qs @ rs) = start_asks qs @ start_asks rs"
  by (induction qs rule: start_asks.induct) simp_all

lemma start_asks_member: "AskStart g n \<in> set qs \<Longrightarrow> g \<in> set (start_asks qs)"
  by (induction qs rule: start_asks.induct) auto

lemma ask_ok_log [simp]: "ask_ok (s\<lparr>sx_log := l\<rparr>) = ask_ok s"
  by (rule ext) (simp add: ask_ok_def split: target_question.split)

lemma ask_ok_asked [simp]: "ask_ok (s\<lparr>se_asked := qs\<rparr>) = ask_ok s"
  by (rule ext) (simp add: ask_ok_def split: target_question.split)

lemma session_ok_asked:
  assumes "session_ok s" "ask_ok s q" "distinct (start_asks (se_asked s @ [q]))"
  shows "session_ok (s\<lparr>se_asked := se_asked s @ [q]\<rparr>)"
  using assms by (simp add: session_ok_def rest_ok_def chain_ok_def outgoing_ok_def speech_runs_now_def session_following_def)

lemma start_asks_remove:
  "distinct (start_asks qs) \<Longrightarrow> start_asks (remove1 q qs) = (case q of AskStart g n \<Rightarrow>
     if q \<in> set qs then remove1 g (start_asks qs) else start_asks qs | _ \<Rightarrow> start_asks qs)"
  by (induction qs rule: start_asks.induct) (auto split: target_question.splits dest: start_asks_member)

lemma distinct_start_asks_remove: "distinct (start_asks qs) \<Longrightarrow> distinct (start_asks (remove1 q qs))"
  by (simp add: start_asks_remove split: target_question.split)

lemma list_all_remove1: "list_all P xs \<Longrightarrow> list_all P (remove1 x xs)"
  using set_remove1_subset[of x xs] by (auto simp: list_all_iff)

lemma session_ok_answered: "session_ok s \<Longrightarrow> session_ok (s\<lparr>se_asked := remove1 q (se_asked s)\<rparr>)"
  by (simp add: session_ok_def rest_ok_def chain_ok_def outgoing_ok_def speech_runs_now_def session_following_def
      list_all_remove1 distinct_start_asks_remove)

lemma session_ok_reviewed:
  assumes "session_ok s" "ew_revision w = ew_revision (se_review s)" "ew_following w = ew_following (se_review s)"
  shows "session_ok (s\<lparr>se_review := w\<rparr>)"
proof -
  have "ask_ok (s\<lparr>se_review := w\<rparr>) = ask_ok s"
    by (rule ext) (simp add: ask_ok_def split: target_question.split)
  thus ?thesis
    using assms by (simp add: session_ok_def rest_ok_def chain_ok_def outgoing_ok_def speech_runs_now_def session_following_def)
qed

text \<open>The end of a delivery: the last answer awaited, to the step that asked.\<close>

lemma session_ok_awaits:
  assumes "session_ok s" "n \<le> se_unanswered s"
  shows "session_ok (s\<lparr>se_unanswered := n\<rparr>)"
proof -
  have "ask_ok (s\<lparr>se_unanswered := n\<rparr>) = ask_ok s"
    by (rule ext) (simp add: ask_ok_def split: target_question.split)
  thus ?thesis
    using assms by (simp add: session_ok_def rest_ok_def chain_ok_def outgoing_ok_def speech_runs_now_def session_following_def)
qed

lemma session_ok_answers:
  assumes "session_ok s" "0 < se_unanswered s" "n \<le> se_unanswered s"
  shows "session_ok (s\<lparr>se_unanswered := n, se_awaited := no_delivery\<rparr>)"
proof -
  have "ask_ok (s\<lparr>se_unanswered := n, se_awaited := no_delivery\<rparr>) = ask_ok s"
    by (rule ext) (simp add: ask_ok_def split: target_question.split)
  thus ?thesis
    using assms
    by (simp add: session_ok_def rest_ok_def chain_ok_def outgoing_ok_def speech_runs_now_def session_following_def
        no_delivery_def)
qed

lemma unset_delivering:
  assumes "session_ok s" "se_state s = SDelivering"
  shows "session_ok (s\<lparr>se_settings := None\<rparr>)"
  using assms by (simp add: session_ok_def rest_ok_def chain_ok_def outgoing_ok_def speech_runs_now_def session_following_def)

lemma hands_out_ok:
  assumes ok: "session_ok s" and st: "se_state s = SDelivering" and un: "unsent s"
    and step: "ad_step (se_awaited s) \<noteq> se_step s"
  shows "session_ok (logged (TranscriptDelivered w) s)"
proof -
  have "once_out (sx_log (logged (TranscriptDelivered w) s))"
    by (rule once_out_logged) (use un session_okD(19)[OF ok] in auto)
  moreover have "\<forall>x\<in>set (outgoing (sx_log (logged (TranscriptDelivered w) s))). fst x \<le> se_generation s"
    using session_okD(20)[OF ok] by (auto simp: outgoing_logged is_delivery_def is_out_def)
  moreover have "se_awaited (logged (TranscriptDelivered w) s) = se_awaited s" by (simp add: logged_def)
  ultimately have "outgoing_ok (logged (TranscriptDelivered w) s)" using st step by (simp add: outgoing_ok_def)
  thus ?thesis using ok
    unfolding session_ok_def rest_ok_def by (simp add: chain_ok_def speech_runs_now_def session_following_def logged_def)
qed

lemma moved_logged: "moved s (logged c s)"
  by (auto simp: moved_def log_grows_def logged_def)

lemma reviewing_ok:
  assumes "walks s" "ew_revision w \<noteq> None"
  shows "session_ok (entered (s\<lparr>se_review := w, se_refinement_generation := 0\<rparr>) SReviewing)"
proof -
  have "se_settings s \<noteq> None" using assms session_okD(1)[of s] by (auto simp: walks_def)
  thus ?thesis
    by (intro entered_ok)
      (use walks_rests[OF assms(1)] assms(2) in \<open>auto simp: sound_def unsent_def speech_runs_now_def session_following_def\<close>)
qed

context session_surroundings
begin

lemma finish_delivery_ok:
  assumes ok: "session_ok s" and asked: "0 < se_unanswered s"
  shows "ends (\<lambda>s'. session_ok s' \<and> moved s s') (finish_delivery E result s)"
proof -
  let ?n = "se_unanswered s - 1" and ?d = "se_awaited s"
  let ?t = "s\<lparr>se_unanswered := ?n, se_awaited := no_delivery\<rparr>"
  have t: "session_ok ?t" by (rule session_ok_answers[OF ok asked]) simp
  have mt: "moved s ?t" by (simp add: moved_def log_grows_def)
  have step: "0 < se_step s" using session_okD(18)[OF ok asked] .
  have deliver: "ends (\<lambda>s'. session_ok s' \<and> moved s s') (do {
          s \<leftarrow> clear_screenshot E ?t;
          let s = s\<lparr>se_settings := None, se_target := no_target\<rparr>;
          (if dr_ok result then do {
             s \<leftarrow> sn_call E (TranscriptDelivered (ad_text ?d)) s;
             s \<leftarrow> (if ss_insights (se_saved s) then sn_call E (DictationRecorded (session_record ?d s)) s else Some s);
             let out = session_outcome E ?d result s;
             let message = do_message out;
             s \<leftarrow> sn_call E (PopupMessage message (do_outcome out) (do_fix out)) (s\<lparr>se_message := message\<rparr>);
             s \<leftarrow> sn_call E (StatusChanged message) s;
             Some (s\<lparr>se_completion := Some (if pe_fix (do_fix out) = NoFix then ad_completion_ms ?d
               else max (popup_error_dismiss_ms (sn_chars E) message) (ad_completion_ms ?d))\<rparr>) }
           else announce E SError (if se_warning s = [] then dr_message result
                  else dr_message result @ popup_message_separator (sn_glyphs E) @ se_warning s) no_action s) })"
    if here: "ad_step ?d = se_step s"
  proof -
    have st: "se_state s = SDelivering" using session_okD(17)[OF ok here step] .
    have un: "unsent s" using session_okD(20,21)[OF ok] here by (fastforce simp: unsent_def)
    show ?thesis
    proof (rule ends_then[OF calm_clear_screenshot], unfold Let_def, rule ends_if)
      fix u assume c: "calm ?t u"
      let ?u = "u\<lparr>se_settings := None, se_target := no_target\<rparr>"
      have u: "session_ok u" "se_state u = SDelivering" "unsent u" "ad_step (se_awaited u) \<noteq> se_step u"
        using c t st un step session_ok_calm[OF c]
        by (simp_all add: calm_fields no_delivery_def unsent_def)
      have ok': "session_ok ?u" using unset_delivering[OF u(1,2)] by simp
      have m: "moved s ?u" using c mt by (auto simp: calm_fields moved_def log_grows_def)
      let ?l = "logged (TranscriptDelivered (ad_text ?d)) ?u"
      have l: "session_ok ?l" by (rule hands_out_ok[OF ok']) (use u in \<open>auto simp: unsent_def\<close>)
      have ml: "moved s ?l" using m moved_logged moved_trans by blast
      let ?P = "\<lambda>s'. session_ok s' \<and> moved s s'"
      have heard': "ends ?P (sn_call E c v)" if "heard_outside c" "\<not> is_out c" "session_ok v" "moved s v" for c v
        by (rule ends_mono[OF heard]) (use that in \<open>auto intro: moved_trans led_moved\<close>)
      have quiet': "ends ?P (sn_call E c v)" if "quiet_session_call c" "session_ok v" "moved s v" for c v
        by (rule ends_mono[OF quiet]) (use that session_ok_calm in \<open>auto intro: moved_trans calm_moved\<close>)
      show "ends ?P (do {
             s \<leftarrow> sn_call E (TranscriptDelivered (ad_text ?d)) ?u;
             s \<leftarrow> (if ss_insights (se_saved s) then sn_call E (DictationRecorded (session_record ?d s)) s else Some s);
             s' \<leftarrow> sn_call E (PopupMessage (do_message (session_outcome E ?d result s))
                 (do_outcome (session_outcome E ?d result s)) (do_fix (session_outcome E ?d result s)))
               (s\<lparr>se_message := do_message (session_outcome E ?d result s)\<rparr>);
             s' \<leftarrow> sn_call E (StatusChanged (do_message (session_outcome E ?d result s))) s';
             Some (s'\<lparr>se_completion := Some (if pe_fix (do_fix (session_outcome E ?d result s)) = NoFix
               then ad_completion_ms ?d
               else max (popup_error_dismiss_ms (sn_chars E) (do_message (session_outcome E ?d result s)))
                 (ad_completion_ms ?d))\<rparr>) })"
      proof (rule ends_then[OF hands_out[OF l]])
        fix v assume "session_ok v \<and> led ?l v"
        hence "?P v" using ml led_moved moved_trans by blast
        hence "ends ?P (if ss_insights (se_saved v) then sn_call E (DictationRecorded (session_record ?d v)) v else Some v)"
          by (auto intro!: heard' simp: is_out_def)
        thus "ends ?P (do {
             s \<leftarrow> (if ss_insights (se_saved v) then sn_call E (DictationRecorded (session_record ?d v)) v else Some v);
             s' \<leftarrow> sn_call E (PopupMessage (do_message (session_outcome E ?d result s))
                 (do_outcome (session_outcome E ?d result s)) (do_fix (session_outcome E ?d result s)))
               (s\<lparr>se_message := do_message (session_outcome E ?d result s)\<rparr>);
             s' \<leftarrow> sn_call E (StatusChanged (do_message (session_outcome E ?d result s))) s';
             Some (s'\<lparr>se_completion := Some (if pe_fix (do_fix (session_outcome E ?d result s)) = NoFix
               then ad_completion_ms ?d
               else max (popup_error_dismiss_ms (sn_chars E) (do_message (session_outcome E ?d result s)))
                 (ad_completion_ms ?d))\<rparr>) })"
        proof (rule ends_then)
          fix w assume "?P w"
          thus "ends ?P (do {
             s' \<leftarrow> sn_call E (PopupMessage (do_message (session_outcome E ?d result w))
                 (do_outcome (session_outcome E ?d result w)) (do_fix (session_outcome E ?d result w)))
               (w\<lparr>se_message := do_message (session_outcome E ?d result w)\<rparr>);
             s' \<leftarrow> sn_call E (StatusChanged (do_message (session_outcome E ?d result w))) s';
             Some (s'\<lparr>se_completion := Some (if pe_fix (do_fix (session_outcome E ?d result w)) = NoFix
               then ad_completion_ms ?d
               else max (popup_error_dismiss_ms (sn_chars E) (do_message (session_outcome E ?d result w)))
                 (ad_completion_ms ?d))\<rparr>) })"
            by (intro ends_then[OF quiet'] ends_then[OF heard']) (auto simp: is_out_def)
        qed
      qed
      have "ends (\<lambda>s'. session_ok s' \<and> bumped ?u s') (announce E SError x no_action ?u)" for x
        by (rule set_error_ok)
          (use u ok' ok_silent[OF ok'] ok_microphone_off[OF ok'] ok_unrefined[OF ok'] session_okD(12)[OF ok']
            session_ok_sound[OF ok'] in \<open>auto simp: unsent_def\<close>)
      thus "ends ?P (announce E SError (if se_warning ?u = [] then dr_message result
                  else dr_message result @ popup_message_separator (sn_glyphs E) @ se_warning ?u) no_action ?u)"
        by (rule ends_mono) (use m moved_bumped bumped_moved in blast)
    qed
  qed
  have less: "session_ok (s\<lparr>se_unanswered := ?n\<rparr>)" by (rule session_ok_awaits[OF ok]) simp
  show ?thesis
    using less t mt deliver by (simp add: finish_delivery_def Let_def moved_def log_grows_def)
qed

text \<open>The review.\<close>

lemma deliver_revision_ok:
  assumes ok: "session_ok s" and st: "se_state s = SReviewing"
  shows "ends (\<lambda>s'. session_ok s' \<and> moved s s') (deliver_revision E unchanged s)"
proof -
  obtain r where r: "ew_revision (se_review s) = Some r" using session_okD(7)[OF ok st] by auto
  obtain settings where set: "se_settings s = Some settings" using session_okD(1)[OF ok] st by auto
  let ?s = "s\<lparr>se_review := review_end (se_review s), se_listening_ms := rvn_listening_ms r, se_history := rvn_history r\<rparr>"
  note rest = ok_silent[OF ok] ok_microphone_off[OF ok] ok_unrefined[OF ok] session_okD(12)[OF ok] ok_unsent[OF ok]
    session_ok_sound[OF ok]
  have d: "ends (\<lambda>s'. session_ok s' \<and> moved s s') (deliver_final E w nt spoken (?s\<lparr>se_settings := x\<rparr>))" for x w nt spoken
  proof (rule ends_mono[OF deliver_final_ok])
    show "session_ok u \<and> moved s u" if "session_ok u \<and> bumped (?s\<lparr>se_settings := x\<rparr>) u" for u
      using that by (simp add: bumped_def moved_def log_grows_def)
  qed (use rest st in \<open>auto simp: sound_def unsent_def speech_runs_now_def session_following_def review_end_def\<close>)
  have same: "?s\<lparr>se_settings := Some settings\<rparr> = ?s" using set by simp
  show ?thesis
    using d[of "rvn_edit r" "[]" "Some (rvn_words r)" "Some settings"] d set
    by (simp add: deliver_revision_def r Let_def same)
qed

lemma selection_checked_ok:
  assumes ok: "session_ok s" and st: "step = se_step s \<Longrightarrow> se_state s = SReviewing"
  shows "ends (\<lambda>s'. session_ok s' \<and> moved s s') (selection_checked E step unchanged s)"
  using deliver_revision_ok[OF ok] ok st by (simp add: selection_checked_def)

lemma asks_ok:
  assumes "session_ok s" "ask_ok s q" "distinct (start_asks (se_asked s @ [q]))"
    and "\<And>s. session_ok s \<Longrightarrow> ends (\<lambda>s'. session_ok s' \<and> moved s s') (sn_call E (c q) s)"
  shows "ends (\<lambda>s'. session_ok s' \<and> moved s s') (ask_target E c q s)"
proof -
  have m: "moved (s\<lparr>se_asked := qs\<rparr>) s' = moved s s'" for qs s' by (simp add: moved_def log_grows_def)
  show ?thesis
    unfolding ask_target_def using assms(4)[OF session_ok_asked[OF assms(1-3)]] by (simp add: m)
qed

lemma replace_with_ok:
  assumes "session_ok s" "se_state s = SReviewing"
  shows "ends (\<lambda>s'. session_ok s' \<and> moved s s') (replace_with_revision E s)"
  using selection_checked_ok[OF assms(1)] assms session_okD(14)[OF assms(1)]
  by (auto simp: replace_with_revision_def ask_ok_def intro!: asks_ok matches)

lemma replace_selection_ok:
  assumes "session_ok s"
  shows "ends (\<lambda>s'. session_ok s' \<and> led s s') (replace_selection E s)"
  using replace_with_ok[OF assms] assms
  by (auto simp: replace_selection_def moved_led elim!: ends_mono)

lemma set_keys_ok:
  assumes "session_ok s"
  shows "ends (\<lambda>s'. session_ok s' \<and> led s s') (set_review_keys E keys s)"
proof -
  let ?s = "s\<lparr>se_review := (se_review s)\<lparr>ew_keys := keys\<rparr>\<rparr>"
  have "session_ok ?s" "led s ?s"
    using assms by (auto intro: session_ok_reviewed simp: led_def moved_def frozen_def log_grows_def speech_runs_now_def
        rchain_stays_def)
  thus ?thesis
    by (simp add: set_review_keys_def review_set_keys_def review_is_up_def Let_def emit_review_ok)
qed

lemma review_edit_ok:
  assumes "walks s"
  shows "ends (\<lambda>s'. session_ok s' \<and> moved s s') (review_selection_edit E x s)"
proof -
  obtain settings where set: "se_settings s = Some settings"
    using assms session_okD(1)[of s] by (auto simp: walks_def)
  have "ew_revision (review_revise r w) \<noteq> None" for r w by (simp add: review_revise_def Let_def)
  note ok = reviewing_ok[OF assms this]
  have "moved s u" if "led (entered (s\<lparr>se_review := w, se_refinement_generation := 0\<rparr>) SReviewing) u" for w u
    using led_moved[OF that] by (auto simp: moved_def entered_def log_grows_def)
  thus ?thesis
    by (auto simp: review_selection_edit_def revise_selection_edit_def set Let_def intro!: ends_mono[OF enter_review_ok[OF ok]])
qed

lemma completed_ok:
  assumes w: "walks s"
  shows "ends (\<lambda>s'. session_ok s' \<and> moved s s') (refiner_completed E answer s)"
proof -
  obtain settings where set: "se_settings s = Some settings"
    using w session_okD(1)[of s] by (auto simp: walks_def)
  let ?s = "s\<lparr>se_message := [], se_used_raw := False\<rparr>"
  have ws: "walks ?s" using w by simp
  have "ew_revision (review_revise r (se_review s)) \<noteq> None" for r by (simp add: review_revise_def Let_def)
  note reviewing = reviewing_ok[OF ws this]
  have m: "moved s u" if "led (entered (?s\<lparr>se_review := w, se_refinement_generation := 0\<rparr>) SReviewing) u" for w u
    using led_moved[OF that] by (auto simp: moved_def entered_def log_grows_def)
  have "ends (\<lambda>s'. session_ok s' \<and> moved s s') (set_state E SReviewing [] no_action
        (?s\<lparr>se_review := review_revise r (se_review s), se_refinement_generation := 0\<rparr>)
      \<bind> (\<lambda>(step, s). if step \<noteq> se_step s then Some s else replace_with_revision E s))" for r
  proof (rule ends_then2[OF set_state_ok[OF reviewing]])
    fix step u
    let ?r = "?s\<lparr>se_review := review_revise r (se_review s), se_refinement_generation := 0\<rparr>"
    assume u: "step = Suc (se_step ?r) \<and> session_ok u \<and> led (entered ?r SReviewing) u"
    have mu: "moved s u" using u m by blast
    have "se_state u = SReviewing" if "step = se_step u"
      using u that by (auto simp: led_def moved_def)
    thus "ends (\<lambda>s'. session_ok s' \<and> moved s s') (if step \<noteq> se_step u then Some u else replace_with_revision E u)"
      using u mu by (auto intro!: ends_mono[OF replace_with_ok] intro: moved_trans)
  qed simp
  note replace = this
  show ?thesis
    using fail_edit_ok[OF w] deliver_walk_ok[OF w] deliver_walk_ok[OF ws] review_edit_ok[OF ws] replace set
    by (auto simp: refiner_completed_def Let_def revise_selection_edit_def split: option.split)
qed

lemma delta_ok: "session_ok s \<Longrightarrow> ends (\<lambda>s'. session_ok s' \<and> moved s s') (refiner_delta E words s)"
  by (auto simp: refiner_delta_def Let_def is_out_def intro!: ends_mono[OF heard] dest: led_moved)

lemma refiner_sends_ok:
  assumes ok: "session_ok s" and w: "se_state s = SRefining \<Longrightarrow> signal = RefinerDelta x \<or> walks s"
  shows "ends (\<lambda>s'. session_ok s' \<and> moved s s') (refiner_sends E r signal s)"
proof (cases signal)
  case (RefinerDelta x)
  thus ?thesis using ok delta_ok by (auto simp: refiner_sends_def split: option.split)
next
  case (RefinerCompleted y)
  thus ?thesis using ok w completed_ok by (auto simp: refiner_sends_def refiner_is_current_def split: option.split)
next
  case (RefinerFailed y)
  thus ?thesis using ok w refinement_failure_ok by (auto simp: refiner_sends_def refiner_is_current_def split: option.split)
qed

end

end
