(* ===== verification/Session_Commands.thy ===== *)
theory Session_Commands
  imports Session_Review
begin

text \<open>
  The microphone of a Dictation Session, its stopping and its pausing: each operation
  keeps the session sound, and a command does no more than one may.
\<close>

section \<open>The microphone and the speech\<close>

lemma dict_fields [simp]:
  "dt_settings (dict_begin s) = None" "dt_phase (dict_begin s) = Starting"
  "dt_settings (dict_stop s) = dt_settings s" "dt_settings (dict_pause s) = dt_settings s"
  "dt_settings (dict_resume s) = dt_settings s" "dt_settings (dict_listen s) = dt_settings s"
  "dt_phase (dict_stop s) = (if dt_phase s \<in> {Listening, Paused} then Stopping else dt_phase s)"
  "dt_phase (dict_pause s) = (if dt_phase s = Listening then Paused else dt_phase s)"
  "dt_phase (dict_resume s) = (if dt_phase s = Paused then Listening else dt_phase s)"
  "dt_phase (dict_listen s) = (if dt_phase s = Starting then Listening else dt_phase s)"
  "dt_phase s \<in> {Listening, Paused} \<Longrightarrow> \<not> dt_microphone_stopped (dict_stop s)"
  by (auto simp: dict_begin_def dict_stop_def dict_pause_def dict_resume_def dict_listen_def Let_def
      attempts_forget_def)

text \<open>Everything of the session but its speech.\<close>

lemma same_speech:
  "same_session s (dict_begin s)" "same_session s (dict_stop s)" "same_session s (dict_pause s)"
  "same_session s (dict_resume s)" "same_session s (dict_listen s)"
  by (auto simp: same_session_def dict_begin_def dict_stop_def dict_pause_def dict_resume_def dict_listen_def Let_def
      attempts_forget_def log_grows_def)

lemma same_sound: "same_session s t \<Longrightarrow> sound t = sound s \<and> unsent t = unsent s \<and> session_following t = session_following s"
  by (simp add: same_session_def sound_def once_out_def unsent_def session_following_def)

lemma same_moved: "same_session s t \<Longrightarrow> moved s t"
  by (simp add: same_session_def moved_def)

lemma ask_ok_microphone [simp]: "ask_ok (s\<lparr>se_microphone := m\<rparr>) = ask_ok s"
    "ask_ok (s\<lparr>dt_microphone_stopped := b\<rparr>) = ask_ok s"
  by (rule ext, simp add: ask_ok_def split: target_question.split)+

lemma session_ok_microphone:
  "session_ok (s\<lparr>se_microphone := m\<rparr>) \<longleftrightarrow> rest_ok (s\<lparr>se_microphone := m\<rparr>) \<and> chain_ok s \<and> outgoing_ok s"
  "session_ok (s\<lparr>dt_microphone_stopped := b\<rparr>) \<longleftrightarrow> rest_ok (s\<lparr>dt_microphone_stopped := b\<rparr>) \<and> chain_ok s \<and> outgoing_ok s"
  by (simp_all add: session_ok_def chain_ok_def outgoing_ok_def)

lemma microphone_ok:
  assumes "session_ok s"
    and "m \<noteq> MicOff \<Longrightarrow> se_state s \<in> {SStarting, SListening, SStopping}
      \<and> \<not> (speech_runs_now s \<and> dt_phase s = Stopping \<and> dt_microphone_stopped s)"
  shows "session_ok (s\<lparr>se_microphone := m\<rparr>)"
proof -
  have "rest_ok (s\<lparr>se_microphone := m\<rparr>)"
    using assms unfolding session_ok_def rest_ok_def
    by (cases "m = MicOff") (simp_all add: speech_runs_now_def session_following_def)
  thus ?thesis using assms(1) unfolding session_ok_microphone by (simp add: session_ok_def)
qed

lemma moved_microphone [simp]:
  "moved t (s\<lparr>se_microphone := m\<rparr>) = moved t s" "moved (s\<lparr>se_microphone := m\<rparr>) t = moved s t"
  by (simp_all add: moved_def log_grows_def)

lemma led_microphone: "se_microphone s \<noteq> MicOff \<or> m = MicOff \<Longrightarrow> led s (s\<lparr>se_microphone := m\<rparr>)"
  by (auto simp: led_def frozen_def speech_runs_now_def rchain_stays_def)

text \<open>A speech that proceeds finds the microphone of a stop stopped.\<close>

lemma proceeding_ok:
  assumes "session_ok s" "se_microphone s = MicOff \<or> se_state s \<noteq> SStopping"
  shows "session_ok (if dt_phase s = Stopping then s\<lparr>dt_microphone_stopped := True\<rparr> else s)"
proof -
  have "se_state s = SStopping" if "speech_runs_now s" "dt_phase s = Stopping"
    using session_okD(2)[OF assms(1) that(1)] that(2) by (simp add: phase_state_def)
  hence off: "speech_runs_now s \<and> dt_phase s = Stopping \<longrightarrow> se_microphone s = MicOff" using assms(2) by blast
  have "rest_ok (s\<lparr>dt_microphone_stopped := True\<rparr>)"
    using assms(1) off unfolding session_ok_def rest_ok_def
    by (simp add: speech_runs_now_def session_following_def)
  thus ?thesis using assms(1) session_ok_microphone(2)[where s = s and b = True] by (simp add: session_ok_def)
qed

lemma phase_of_state:
  assumes "session_ok s" "speech_runs_now s"
  shows "se_state s = SStarting \<longleftrightarrow> dt_phase s = Starting" "se_state s = SListening \<longleftrightarrow> dt_phase s = Listening"
    "se_state s = SPaused \<longleftrightarrow> dt_phase s = Paused" "se_state s = SStopping \<longleftrightarrow> dt_phase s = Stopping"
  using session_okD(2)[OF assms] assms(2) by (auto simp: phase_state_def speech_runs_now_def split: speech_state.splits)

lemma moved_entered: "same_session s t \<Longrightarrow> moved (entered t st) u \<Longrightarrow> bumped s u"
  using bumped_moved_trans[OF moved_bumped[OF same_moved bumped_entered]] by blast

text \<open>The states the speech goes through.\<close>

lemma stopping_ok:
  assumes "session_ok s" "se_state s \<in> {SListening, SPaused}"
  shows "session_ok (entered (dict_stop s) SStopping)"
proof -
  note f = same_sound[OF same_speech(2)[of s]] same_speech(2)[of s]
  show ?thesis
    by (rule entered_ok)
      (use assms f session_ok_sound[OF assms(1)] session_okD(1,12)[OF assms(1)] ok_unrefined[OF assms(1)]
        ok_unsent[OF assms(1)] phase_of_state[OF assms(1)] in
        \<open>auto simp: same_session_def speech_runs_now_def phase_state_def split: if_splits\<close>)
qed

lemma pausing_ok:
  assumes "session_ok s" "se_state s = SListening" "se_microphone s = MicOff"
  shows "session_ok (entered (dict_pause s) SPaused)"
proof -
  note f = same_sound[OF same_speech(3)[of s]] same_speech(3)[of s]
  show ?thesis
    by (rule entered_ok)
      (use assms f session_ok_sound[OF assms(1)] session_okD(1,12)[OF assms(1)] ok_unrefined[OF assms(1)]
        ok_unsent[OF assms(1)] phase_of_state[OF assms(1)] in
        \<open>auto simp: same_session_def speech_runs_now_def phase_state_def split: if_splits\<close>)
qed

lemma resuming_ok:
  assumes "session_ok s" "se_state s = SPaused"
  shows "session_ok (entered (dict_resume s) SListening)"
proof -
  note f = same_sound[OF same_speech(4)[of s]] same_speech(4)[of s]
  show ?thesis
    by (rule entered_ok)
      (use assms f session_ok_sound[OF assms(1)] session_okD(1,12)[OF assms(1)] ok_unrefined[OF assms(1)]
        ok_unsent[OF assms(1)] phase_of_state[OF assms(1)] in
        \<open>auto simp: same_session_def speech_runs_now_def phase_state_def split: if_splits\<close>)
qed

lemma listening_ok:
  assumes "session_ok s" "se_state s = SStarting"
  shows "session_ok (entered (dict_listen s) SListening)"
proof -
  note f = same_sound[OF same_speech(5)[of s]] same_speech(5)[of s]
  show ?thesis
    by (rule entered_ok)
      (use assms f session_ok_sound[OF assms(1)] session_okD(1,12)[OF assms(1)] ok_unrefined[OF assms(1)]
        ok_unsent[OF assms(1)] phase_of_state[OF assms(1)] in
        \<open>auto simp: same_session_def speech_runs_now_def phase_state_def split: if_splits\<close>)
qed

context session_surroundings
begin

lemma start_microphone_ok:
  assumes "session_ok (s\<lparr>se_microphone := MicStarting\<rparr>)"
  shows "ends (\<lambda>s'. session_ok s' \<and> led (s\<lparr>se_microphone := MicStarting\<rparr>) s') (start_microphone E s)"
  unfolding start_microphone_def
  by (rule ends_then[OF calm_held]) (use assms in \<open>auto intro!: quietly simp: session_ok_calm calm_led\<close>)

lemma proceeds_ok: "session_ok s \<Longrightarrow> se_microphone s = MicOff \<or> se_state s \<noteq> SStopping \<Longrightarrow>
    ends (\<lambda>s'. session_ok s' \<and> moved s s') (sn_call E SpeechProceed s)"
  by (rule speech_proceeds[OF proceeding_ok])

lemma microphone_stopped_ok:
  assumes ok: "session_ok (s\<lparr>se_microphone := MicOff\<rparr>)"
  shows "ends (\<lambda>s'. session_ok s' \<and> moved s s') (microphone_stopped E s)"
  unfolding microphone_stopped_def Let_def
proof (rule ends_then[OF calm_held], rule ends_if)
  fix u
  assume c: "calm (s\<lparr>se_microphone := MicOff\<rparr>) u" and here: "se_microphone s = MicPausing \<and> se_state u = SListening"
  have u: "session_ok u" "se_microphone u = MicOff" "moved s u"
    using c ok session_ok_calm[OF c] calm_moved[OF c] by (simp_all add: calm_fields)
  have p: "session_ok (entered (dict_pause u) SPaused)" by (rule pausing_ok) (use u here in auto)
  show "ends (\<lambda>s'. session_ok s' \<and> moved s s') (set_state E SPaused [] no_action (dict_pause u) \<bind> (\<lambda>(step, s).
      sn_call E (AudioLevelChanged 0) s \<bind> (\<lambda>s. if step = se_step s then sn_call E SpeechProceed s else Some s)))"
  proof (rule ends_then2[OF set_state_ok[OF p]])
    fix step v assume v: "step = Suc (se_step (dict_pause u)) \<and> session_ok v \<and> led (entered (dict_pause u) SPaused) v"
    have mv: "moved s v"
      using u(3) v moved_entered[OF same_speech(3)] led_moved bumped_moved moved_trans by blast
    show "ends (\<lambda>s'. session_ok s' \<and> moved s s') (sn_call E (AudioLevelChanged 0) v
        \<bind> (\<lambda>s. if step = se_step s then sn_call E SpeechProceed s else Some s))"
    proof (rule ends_then[OF quiet])
      fix w assume w: "calm v w"
      have o: "session_ok w" "moved s w" "se_step w = se_step v" "se_state w = se_state v"
        using v mv w session_ok_calm[OF w] calm_moved[OF w] moved_trans by (auto simp: calm_fields)
      have "se_state w = SPaused" if "step = se_step w"
        using v o that by (auto simp: led_def moved_def)
      thus "ends (\<lambda>s'. session_ok s' \<and> moved s s') (if step = se_step w then sn_call E SpeechProceed w else Some w)"
        using o by (auto intro!: ends_mono[OF proceeds_ok] intro: moved_trans)
    qed simp
  qed simp
next
  fix u assume c: "calm (s\<lparr>se_microphone := MicOff\<rparr>) u"
  have u: "session_ok u" "se_microphone u = MicOff" "moved s u"
    using c ok session_ok_calm[OF c] calm_moved[OF c] by (simp_all add: calm_fields)
  have "ends (\<lambda>s'. session_ok s' \<and> moved s s') (sn_call E MediaResume u \<bind> sn_call E SpeechProceed)"
  proof (rule ends_then[OF quiet])
    fix v assume v: "calm u v"
    hence "session_ok v" "se_microphone v = MicOff" "moved s v"
      using u session_ok_calm[OF v] calm_moved[OF v] moved_trans by (auto simp: calm_fields)
    thus "ends (\<lambda>s'. session_ok s' \<and> moved s s') (sn_call E SpeechProceed v)"
      by (auto intro!: ends_mono[OF proceeds_ok] intro: moved_trans)
  qed simp
  thus "ends (\<lambda>s'. session_ok s' \<and> moved s s') (if se_microphone s = MicStopping \<and> se_state u = SStopping
      then sn_call E MediaResume u \<bind> sn_call E SpeechProceed else Some u)"
    using u by simp
qed

lemma stop_microphone_ok:
  assumes ok: "session_ok s" and st: "se_state s \<in> {SListening, SStopping}"
  shows "ends (\<lambda>s'. session_ok s' \<and> moved s s') (stop_microphone E m s)"
proof -
  have off: "session_ok (s\<lparr>se_microphone := MicOff\<rparr>)" by (rule microphone_ok[OF ok]) simp
  have on: "session_ok (s\<lparr>se_microphone := m\<rparr>)" if "se_microphone s \<noteq> MicOff"
    by (rule microphone_ok[OF ok]) (use st session_okD(5)[OF ok] that in auto)
  have "ends (\<lambda>s'. session_ok s' \<and> moved s s') (microphone_stopped E (s\<lparr>se_microphone := m\<rparr>))"
    using microphone_stopped_ok[of "s\<lparr>se_microphone := m\<rparr>"] off by simp
  moreover have "ends (\<lambda>s'. session_ok s' \<and> moved s s') (sn_call E AudioStop (s\<lparr>se_microphone := m\<rparr>))"
    if "se_microphone s \<noteq> MicOff"
    by (rule ends_mono[OF quiet]) (use on[OF that] calm_moved in \<open>fastforce simp: session_ok_calm\<close>)+
  ultimately show ?thesis using on by (auto simp: stop_microphone_def Let_def)
qed

section \<open>Stopping\<close>

lemma stop_refining_ok:
  assumes ok: "session_ok s" and st: "se_state s = SRefining"
  shows "ends (\<lambda>s'. session_ok s' \<and> led s s') (stop_refining E s)"
proof -
  let ?t = "s\<lparr>se_refinement_generation := 0, se_chain := rchain_cancel (se_chain s)\<rparr>"
  let ?u = "?t\<lparr>sx_refining := None\<rparr>"
  have gen: "0 < se_generation s" using session_okD(12)[OF ok] st by simp
  have rest: "sound ?u" "unsent ?u" "\<not> speech_runs_now ?u" "se_microphone ?u = MicOff"
    "chain_task (se_chain ?u) = None" "sx_refining ?u = None" "0 < se_generation ?u"
    using session_ok_sound[OF ok] ok_unsent[OF ok] ok_silent[OF ok] ok_microphone_off[OF ok] st gen
    by (simp_all add: sound_def unsent_def speech_runs_now_def session_following_def)
  have led: "led s s'" if "bumped v s'" "calm ?u v" for v s'
  proof -
    have "bumped ?u s'" using moved_bumped[OF calm_moved[OF that(2)] that(1)] .
    hence "bumped s s'" "rf_generation (se_chain s) < rf_generation (se_chain s')"
      by (simp_all add: bumped_def log_grows_def)
    thus ?thesis using st by (auto intro: bumped_led)
  qed
  have c: "ends (calm ?u) (case se_refiner ?t of None \<Rightarrow> Some ?t | Some r \<Rightarrow> sn_call E (RefinerCancel r) ?t)"
    by (rule cancels_refiner) (use gen session_okD(10)[OF ok] in auto)
  have moved_none: "bumped (v\<lparr>se_settings := None\<rparr>) s' = bumped v s'" for v s' by (simp add: bumped_def log_grows_def)
  show ?thesis
    unfolding stop_refining_def Let_def
  proof (rule ends_then[OF c], rule ends_if)
    fix v assume v: "calm ?u v"
    show "ends (\<lambda>s'. session_ok s' \<and> led s s') (forget_session E v \<bind> end_quietly E)"
    proof (rule ends_then[OF calm_forget])
      fix w assume w: "calm (v\<lparr>se_settings := None\<rparr>) w"
      have "sound (v\<lparr>se_settings := None\<rparr>)" "\<not> speech_runs_now (v\<lparr>se_settings := None\<rparr>)"
        using rest calm_facts[OF v] by (simp_all add: sound_def session_following_def speech_runs_now_def)
      hence "sound w" "\<not> speech_runs_now w" "se_microphone w = MicOff" "chain_task (se_chain w) = None" "sx_refining w = None"
        using calm_facts[OF w] v w rest(4-6) by (simp_all add: calm_fields)
      thus "ends (\<lambda>s'. session_ok s' \<and> led s s') (end_quietly E w)"
        by (rule ends_mono[OF end_quietly_ok])
          (use led[OF _ v] moved_bumped[OF calm_moved[OF w]] moved_none in auto)
    qed
  next
    fix v assume v: "calm ?u v"
    let ?v = "v\<lparr>se_message := ''Refinement cancelled'', se_used_raw := True\<rparr>"
    have cv: "calm ?u ?v" using v by simp
    note f = calm_facts[OF cv]
    have "ends (\<lambda>s'. session_ok s' \<and> bumped ?v s') (deliver_final E w nt sp ?v)" for w nt sp
      by (rule deliver_final_ok) (use rest f cv in \<open>auto simp: calm_fields\<close>)
    thus "ends (\<lambda>s'. session_ok s' \<and> led s s') (deliver_final E (pl_fallback (se_pipeline v)) [] None ?v)"
      by (rule ends_mono) (use led[OF _ cv] in auto)
  qed
qed

lemma stop_paused_ok:
  assumes ok: "session_ok s" and st: "se_state s = SPaused"
  shows "ends (\<lambda>s'. session_ok s' \<and> moved s s') (set_state E SStopping m no_action (dict_stop s) \<bind> (\<lambda>(step, s).
      sn_call E MediaResume s \<bind> (\<lambda>s. if step = se_step s then sn_call E SpeechProceed s else Some s)))"
proof (rule ends_then2[OF set_state_ok])
  show "session_ok (entered (dict_stop s) SStopping)" by (rule stopping_ok) (use ok st in auto)
  have off: "se_microphone (dict_stop s) = MicOff"
    using ok_microphone_off[OF ok] st same_speech(2)[of s] by (simp add: same_session_def)
  fix step v assume v: "step = Suc (se_step (dict_stop s)) \<and> session_ok v \<and> led (entered (dict_stop s) SStopping) v"
  have mv: "moved s v" using v moved_entered[OF same_speech(2)] led_moved bumped_moved by blast
  have on: "se_microphone v = MicOff" if "step = se_step v"
    using v that off by (auto simp: led_def moved_def frozen_def entered_def)
  show "ends (\<lambda>s'. session_ok s' \<and> moved s s') (sn_call E MediaResume v
      \<bind> (\<lambda>s. if step = se_step s then sn_call E SpeechProceed s else Some s))"
  proof (rule ends_then[OF quiet])
    fix w assume w: "calm v w"
    have o: "session_ok w" "moved s w" "step = se_step w \<Longrightarrow> se_microphone w = MicOff"
      using v mv w on session_ok_calm[OF w] calm_moved[OF w] moved_trans by (auto simp: calm_fields)
    thus "ends (\<lambda>s'. session_ok s' \<and> moved s s') (if step = se_step w then sn_call E SpeechProceed w else Some w)"
      by (auto intro!: ends_mono[OF proceeds_ok] intro: moved_trans)
  qed simp
qed simp

lemma stop_hearing_ok:
  assumes ok: "session_ok s" and st: "se_state s = SListening"
  shows "ends (\<lambda>s'. session_ok s' \<and> moved s s') (announce E SStopping m no_action (dict_stop s) \<bind> (\<lambda>u.
      if se_generation s \<noteq> se_generation u then Some u else stop_microphone E MicStopping u))"
proof (rule ends_then[OF announce_ok])
  show "session_ok (entered (dict_stop s) SStopping)" by (rule stopping_ok) (use ok st in auto)
  fix u assume u: "session_ok u \<and> led (entered (dict_stop s) SStopping) u"
  have mu: "moved s u" using u moved_entered[OF same_speech(2)] led_moved bumped_moved by blast
  have "se_state u = SStopping" if "se_generation s = se_generation u"
  proof -
    have "se_generation (entered (dict_stop s) SStopping) = se_generation s"
      using same_speech(2)[of s] by (simp add: same_session_def entered_def)
    hence "se_step u = se_step (entered (dict_stop s) SStopping)" using u that by (simp add: led_def)
    thus ?thesis using u by (simp add: led_def moved_def)
  qed
  thus "ends (\<lambda>s'. session_ok s' \<and> moved s s') (if se_generation s \<noteq> se_generation u then Some u
      else stop_microphone E MicStopping u)"
    using u mu by (auto intro!: ends_mono[OF stop_microphone_ok] intro: moved_trans)
qed simp

lemma stop_listening_ok:
  assumes ok: "session_ok s"
  shows "ends (\<lambda>s'. session_ok s' \<and> led s s') (stop_listening E s)"
proof -
  have hearing: "ends (\<lambda>s'. session_ok s' \<and> led s s') m"
    if "ends (\<lambda>s'. session_ok s' \<and> moved s s') m" "se_state s \<in> {SListening, SPaused}" for m
    by (rule ends_mono[OF that(1)]) (use that(2) moved_led in auto)
  have tossed: "ends (\<lambda>s'. session_ok s' \<and> led s s') (discard E s \<bind> end_quietly E)"
    by (rule ends_mono[OF throws_away[OF ok_tossable[OF ok]]]) simp
  have cancelled: "ends (\<lambda>s'. session_ok s' \<and> led s s') (cancel_session E s)"
    by (rule ends_mono[OF cancel_ok[OF ok]]) simp
  show ?thesis
    unfolding stop_listening_def Let_def
    by (intro ends_if cancelled dismiss_error_ok stop_refining_ok hearing[OF stop_paused_ok] tossed
        hearing[OF stop_hearing_ok]) (use ok in auto)
qed

section \<open>Pausing\<close>

lemma pause_ok: "session_ok s \<Longrightarrow> ends (\<lambda>s'. session_ok s' \<and> led s s') (pause_session E s)"
  by (auto simp: pause_session_def moved_led intro!: ends_mono[OF stop_microphone_ok])

lemma resume_ok:
  assumes ok: "session_ok s"
  shows "ends (\<lambda>s'. session_ok s' \<and> led s s') (resume_session E s)"
proof (cases "se_state s = SPaused \<and> se_settings s \<noteq> None")
  case True
  have r: "session_ok (entered (dict_resume s) SListening)" by (rule resuming_ok) (use ok True in auto)
  have "ends (\<lambda>s'. session_ok s' \<and> moved s s') (set_state E SListening [] no_action (dict_resume s) \<bind> (\<lambda>(step, s).
      if step \<noteq> se_step s then Some s else do {
           s \<leftarrow> sn_call E SpeechProceed s;
           (if step \<noteq> se_step s then Some s else do {
              s \<leftarrow> sn_call E AudioClearPreRoll s;
              start_microphone E s }) }))"
  proof (rule ends_then2[OF set_state_ok[OF r]])
    fix step v assume v: "step = Suc (se_step (dict_resume s)) \<and> session_ok v \<and> led (entered (dict_resume s) SListening) v"
    have mv: "moved s v" using v moved_entered[OF same_speech(4)] led_moved bumped_moved by blast
    have sv: "se_state v = SListening" if "step = se_step v" using v that by (auto simp: led_def moved_def)
    have start: "ends (\<lambda>s'. session_ok s' \<and> moved s s') (sn_call E AudioClearPreRoll w \<bind> start_microphone E)"
      if w: "session_ok w" "moved s w" "se_state w = SListening" for w
    proof (rule ends_then[OF quiet])
      fix x assume x: "calm w x"
      have o: "session_ok x" "moved s x" "se_state x = SListening"
        using w session_ok_calm[OF x] calm_moved[OF x] moved_trans x by (auto simp: calm_fields)
      have "session_ok (x\<lparr>se_microphone := MicStarting\<rparr>)"
        by (rule microphone_ok[OF o(1)]) (use o phase_of_state[OF o(1)] in auto)
      from start_microphone_ok[OF this] show "ends (\<lambda>s'. session_ok s' \<and> moved s s') (start_microphone E x)"
        by (rule ends_mono) (use o(2) led_moved moved_trans in fastforce)
    qed simp
    have "ends (\<lambda>s'. session_ok s' \<and> moved s s') (sn_call E SpeechProceed v \<bind> (\<lambda>s. if step \<noteq> se_step s then Some s else do {
              s \<leftarrow> sn_call E AudioClearPreRoll s;
              start_microphone E s }))" if here: "step = se_step v"
    proof (rule ends_then[OF proceeds_ok])
      fix w assume w: "session_ok w \<and> moved v w"
      have "moved s w" using mv w moved_trans by blast
      moreover have "se_state w = SListening" if "step = se_step w"
        using w sv[OF here] here that by (simp add: moved_def)
      ultimately show "ends (\<lambda>s'. session_ok s' \<and> moved s s') (if step \<noteq> se_step w then Some w else do {
              s \<leftarrow> sn_call E AudioClearPreRoll w;
              start_microphone E s })"
        using w start by auto
    qed (use v sv[OF here] in auto)
    thus "ends (\<lambda>s'. session_ok s' \<and> moved s s') (if step \<noteq> se_step v then Some v else do {
           s \<leftarrow> sn_call E SpeechProceed v;
           (if step \<noteq> se_step s then Some s else do {
              s \<leftarrow> sn_call E AudioClearPreRoll s;
              start_microphone E s }) })"
      using v mv by auto
  qed simp
  thus ?thesis
    using True unfolding resume_session_def by (auto simp: moved_led elim!: ends_mono)
qed (use ok in \<open>auto simp: resume_session_def\<close>)

lemma toggle_pause_ok:
  assumes ok: "session_ok s"
  shows "ends (\<lambda>s'. session_ok s' \<and> led s s') (toggle_pause E s)"
proof -
  have "ends (\<lambda>s'. session_ok s' \<and> led s s') (start_microphone E s)" if p: "se_microphone s = MicPausing"
  proof -
    have "session_ok (s\<lparr>se_microphone := MicStarting\<rparr>)"
      by (rule microphone_ok[OF ok]) (use p session_okD(4,5)[OF ok] in auto)
    from start_microphone_ok[OF this] show ?thesis
      by (rule ends_mono) (use p led_trans[OF led_microphone] in auto)
  qed
  thus ?thesis using resume_ok[OF ok] pause_ok[OF ok] by (simp add: toggle_pause_def)
qed

end

end
