(* ===== verification/Session_Starts.thy ===== *)
theory Session_Starts
  imports Session_Commands
begin

text \<open>
  The start of a Dictation Session, and what its speech, its microphone and its
  platform tell it: every act keeps the session sound, and a command does no more
  than one may.
\<close>

section \<open>Starting\<close>

text \<open>A session whose target is about to be known, for the only time.\<close>

definition starts :: "session_run \<Rightarrow> bool" where
  "starts s \<longleftrightarrow> session_ok s \<and> se_state s = SStarting \<and> se_continued s = se_generation s
     \<and> dt_settings s = None \<and> se_generation s \<notin> set (start_asks (se_asked s))"

lemma starts_calm: "calm s t \<Longrightarrow> starts t = starts s"
  using session_ok_calm[of s t] by (simp add: starts_def calm_fields)

lemmas starts_unminded [simp] = unminded[THEN starts_calm]

lemma starts_silent: "starts s \<Longrightarrow> \<not> speech_runs_now s"
  by (simp add: starts_def speech_runs_now_def)

lemma session_ok_settings: "session_ok s \<Longrightarrow> session_ok (s\<lparr>se_settings := Some x\<rparr>)"
  by (simp add: session_ok_def rest_ok_def chain_ok_def outgoing_ok_def speech_runs_now_def session_following_def)

lemma moved_settings [simp]:
  "moved t (s\<lparr>se_settings := x\<rparr>) = moved t s" "moved (s\<lparr>se_settings := x\<rparr>) t = moved s t"
  by (simp_all add: moved_def log_grows_def)

lemma starts_settings: "starts s \<Longrightarrow> starts (s\<lparr>se_settings := Some x\<rparr>)"
  by (simp add: starts_def session_ok_settings)

lemma starts_chain:
  assumes "starts s" "chain_task c = None" "rf_refiner c = rf_refiner (se_chain s)"
  shows "starts (s\<lparr>se_chain := c\<rparr>)"
  using assms ok_unrefined[of s] session_ok_runner[of s c] by (simp add: starts_def)

lemma starts_connected: "starts s \<Longrightarrow> starts (connect_refiner r s) \<and> moved s (connect_refiner r s)"
proof -
  assume s: "starts s"
  have idle: "chain_task (se_chain s) = None" "sx_refining s = None" using s ok_unrefined[of s] by (simp_all add: starts_def)
  have "session_ok s" using s by (simp add: starts_def)
  hence "session_ok (s\<lparr>se_refiner := Some r\<rparr>)"
    using idle by (simp add: session_ok_def rest_ok_refiner chain_ok_def outgoing_ok_def)
  hence "starts (s\<lparr>se_refiner := Some r\<rparr>)" using s by (simp add: starts_def)
  thus ?thesis by (simp add: connect_refiner_def disconnect_refiner_def moved_def log_grows_def)
qed

lemma speech_started_ok:
  assumes "starts s"
  shows "session_ok (s\<lparr>dt_settings := Some app\<rparr>)"
proof -
  have s: "session_ok s" "se_state s = SStarting" "se_continued s = se_generation s"
    "se_generation s \<notin> set (start_asks (se_asked s))" using assms by (simp_all add: starts_def)
  have asks: "list_all (ask_ok (s\<lparr>dt_settings := Some app\<rparr>)) (se_asked s)"
  proof (unfold list_all_iff, rule ballI)
    fix q assume q: "q \<in> set (se_asked s)"
    have "ask_ok s q" using session_okD(13)[OF s(1)] q by (simp add: list_all_iff)
    thus "ask_ok (s\<lparr>dt_settings := Some app\<rparr>) q"
      using q s(4) start_asks_member by (fastforce simp: ask_ok_def split: target_question.splits)
  qed
  have "rest_ok (s\<lparr>dt_settings := Some app\<rparr>)"
    using s session_okD(3)[OF s(1)] asks unfolding session_ok_def rest_ok_def
    by (auto simp: speech_runs_now_def session_following_def phase_state_def)
  thus ?thesis using s(1) by (simp add: session_ok_def chain_ok_def outgoing_ok_def)
qed

lemma starts_rests:
  assumes "session_ok s" "se_state s = SStarting"
  shows "sound s" "unsent s" "chain_task (se_chain s) = None" "sx_refining s = None" "0 < se_generation s"
  using assms session_ok_sound ok_unsent[OF assms(1)] ok_unrefined[OF assms(1)] session_okD(12)[OF assms(1)] by simp_all

context session_surroundings
begin

lemma fail_startup_ok:
  assumes ok: "session_ok s" and st: "se_state s = SStarting" "\<not> speech_runs_now s" "se_continued s = se_generation s"
  shows "ends (\<lambda>s'. session_ok s' \<and> moved s s') (fail_startup E m fix s)"
  unfolding fail_startup_def Let_def
proof (rule ends_then[OF hear[OF _ _ ok led_refl]])
  fix u assume u: "session_ok u \<and> led s u"
  have "ends (\<lambda>s'. session_ok s' \<and> moved s s') (fail_session E m fix u)" if here: "se_step s = se_step u"
  proof -
    have "se_state u = SStarting" "\<not> speech_runs_now u"
      using u st here by (auto simp: led_def moved_def)
    hence "ends (\<lambda>s'. session_ok s' \<and> bumped u s') (fail_session E m fix u)"
      using u starts_rests[of u] by (intro fail_session_ok) auto
    thus ?thesis by (rule ends_mono) (use u led_moved bumped_moved moved_trans in blast)
  qed
  thus "ends (\<lambda>s'. session_ok s' \<and> moved s s') (if se_step s \<noteq> se_step u then Some u else fail_session E m fix u)"
    using u led_moved by auto
qed (simp_all add: is_out_def)

lemma select_providers_ok:
  assumes s: "starts s"
  shows "ends (\<lambda>(selected, s'). session_ok s' \<and> moved s s' \<and> (selected \<longrightarrow> starts s')) (select_providers E s)"
proof -
  obtain saved where saved: "se_settings s = Some saved"
    using s session_okD(1)[of s] by (auto simp: starts_def)
  let ?Q = "\<lambda>(selected, s'). session_ok s' \<and> moved s s' \<and> (selected \<longrightarrow> starts s')"
  have fails: "ends ?Q (fail_startup E m fx u \<bind> (\<lambda>s. Some (False, s)))" if "starts u" "moved s u" for m fx u
  proof (rule ends_then[OF fail_startup_ok])
    show "session_ok u" "se_state u = SStarting" "\<not> speech_runs_now u" "se_continued u = se_generation u"
      using that(1) by (simp_all add: starts_def speech_runs_now_def)
    show "ends ?Q (Some (False, v))" if "session_ok v \<and> moved u v" for v
      using that \<open>moved s u\<close> moved_trans by auto
  qed
  have goes: "starts (v\<lparr>se_chain := rchain_begin p fs (se_chain v)\<rparr>) \<and> moved s (v\<lparr>se_chain := rchain_begin p fs (se_chain v)\<rparr>)"
    if "starts v" "moved s v" for v p fs
    using that starts_chain[of v "rchain_begin p fs (se_chain v)"] by (auto intro: moved_chain)
  have takes: "starts (snd (select_refiner E p u)) \<and> moved s (snd (select_refiner E p u))" if "starts u" "moved s u" for p u
    using that starts_connected[of u] moved_trans by (auto simp: select_refiner_def split: option.split)
  have chosen: "ends ?Q (do {
      (known, s) \<leftarrow> sn_select_speech E sp (s\<lparr>se_settings := Some x\<rparr>);
      (if \<not> known then do { s \<leftarrow> fail_startup E m1 f1 s; Some (False, s) }
       else if problem \<noteq> [] then do { s \<leftarrow> fail_startup E problem f2 s; Some (False, s) }
       else (let s = (if p \<noteq> k_no_refinement_provider then snd (select_refiner E p s) else s)
             in Some (True, s\<lparr>se_chain := rchain_begin p fs (se_chain s)\<rparr>))) })"
    for sp x m1 f1 problem f2 p fs
  proof (rule ends_then2[OF selects])
    fix known u assume c: "calm (s\<lparr>se_settings := Some x\<rparr>) u"
    have u: "starts u" "moved s u"
      using starts_calm[OF c] starts_settings[OF s] calm_moved[OF c] by simp_all
    have "session_ok v" if "starts v" for v using that by (simp add: starts_def)
    thus "ends ?Q (if \<not> known then do { s \<leftarrow> fail_startup E m1 f1 u; Some (False, s) }
       else if problem \<noteq> [] then do { s \<leftarrow> fail_startup E problem f2 u; Some (False, s) }
       else (let s = (if p \<noteq> k_no_refinement_provider then snd (select_refiner E p u) else u)
             in Some (True, s\<lparr>se_chain := rchain_begin p fs (se_chain s)\<rparr>)))"
      using u takes[OF u, of p] goes fails by (intro ends_if) (auto simp: Let_def)
  qed
  show ?thesis
    unfolding select_providers_def saved Let_def by (simp del: ends_bind, rule chosen[unfolded Let_def])
qed

lemma speech_start_ok:
  assumes "starts s"
  shows "ends (\<lambda>s'. session_ok s' \<and> moved s s') (sn_call E (SpeechStart app rf) s)"
  by (rule speech_starts[OF speech_started_ok[OF assms]])

lemma continue_with_target_ok:
  assumes s: "starts s"
  shows "ends (\<lambda>s'. session_ok s' \<and> moved s s') (continue_startup_with_target E g t s)"
proof -
  obtain settings where set: "se_settings s = Some settings"
    using s session_okD(1)[of s] by (auto simp: starts_def)
  let ?Q = "\<lambda>s'. session_ok s' \<and> moved s s'"
  have start: "ends ?Q (do {
        s \<leftarrow> (if shoot then sn_call E ScreenshotCapture (u\<lparr>se_screenshot_generation := g\<rparr>) else Some u);
        s \<leftarrow> (if media then sn_call E MediaPause s else Some s);
        latest \<leftarrow> se_settings s;
        sn_call E (SpeechStart (ss_app latest) (if refines then se_refiner s else None)) s })"
    if u: "starts u" "moved s u" for u shoot media refines
  proof -
    have 1: "ends (calm u) (if shoot then sn_call E ScreenshotCapture (u\<lparr>se_screenshot_generation := g\<rparr>) else Some u)"
      by (auto intro!: quiet_after)
    have 2: "ends (calm u) (if media then sn_call E MediaPause v else Some v)" if "calm u v" for v
      using that by (auto intro!: quiet_after)
    have 3: "ends ?Q (do { latest \<leftarrow> se_settings v;
        sn_call E (SpeechStart (ss_app latest) (if refines then se_refiner v else None)) v })" if c: "calm u v" for v
    proof -
      have v: "starts v" "moved s v" using u starts_calm[OF c] calm_moved[OF c] moved_trans by auto
      then obtain latest where "se_settings v = Some latest"
        using session_okD(1)[of v] by (auto simp: starts_def)
      thus ?thesis using v moved_trans by (auto intro!: ends_mono[OF speech_start_ok])
    qed
    show ?thesis by (rule ends_then[OF 1], rule ends_then[OF 2], assumption, rule 3)
  qed
  have selected: "ends ?Q (if \<not> selected then Some u else do {
        settings \<leftarrow> se_settings u;
        let app = ss_app settings;
        let settings = settings\<lparr>ss_app := app\<lparr>as_speech := (as_speech app)\<lparr>sp_vocabulary :=
              pipeline_speech_vocabulary (sn_chars E) settings (se_choices u) (se_target u)\<rparr>\<rparr>\<rparr>;
        let s = u\<lparr>se_settings := Some settings\<rparr>;
        s \<leftarrow> (if wants_screenshot E settings s
             then sn_call E ScreenshotCapture (s\<lparr>se_screenshot_generation := g\<rparr>) else Some s);
        s \<leftarrow> (if ui_pause_media (ss_ui settings) then sn_call E MediaPause s else Some s);
        latest \<leftarrow> se_settings s;
        sn_call E (SpeechStart (ss_app latest)
          (if rs_provider (as_refinement (ss_app settings)) \<noteq> k_no_refinement_provider then se_refiner s else None)) s })"
    if u: "session_ok u \<and> moved s u \<and> (selected \<longrightarrow> starts u)" for selected u
  proof (cases selected)
    case True
    have su: "starts u" using u True by simp
    obtain x where x: "se_settings u = Some x" using su session_okD(1)[of u] by (auto simp: starts_def)
    show ?thesis
      by (simp only: True x Let_def bind.bind_lunit not_True_eq_False if_False, rule start)
        (use starts_settings[OF su] u in simp_all)
  qed (use u in simp)
  have t: "starts (s\<lparr>se_target := tg\<rparr>)" for tg using s by simp
  have m: "moved (s\<lparr>se_target := tg\<rparr>) u = moved s u" for tg u by simp
  show ?thesis
    unfolding continue_startup_with_target_def set Let_def bind.bind_lunit
    by (rule ends_then2[OF select_providers_ok[OF t]], unfold m, rule selected[unfolded Let_def])
qed

lemma captures_ok:
  assumes "session_ok s" "ask_ok s q" "distinct (start_asks (se_asked s @ [q]))"
  shows "ends (\<lambda>s'. session_ok s' \<and> moved s s') (ask_target E CaptureTarget q s)"
  by (rule asks_ok[OF assms]) (rule captures)

lemma continue_startup_ok:
  assumes ok: "session_ok s"
  shows "ends (\<lambda>s'. session_ok s' \<and> led s s') (continue_startup E g s)"
proof (cases "g \<noteq> se_generation s \<or> g = se_continued s \<or> se_state s \<noteq> SStarting \<or> se_settings s = None")
  case False
  let ?t = "s\<lparr>se_continued := g\<rparr>" and ?Q = "\<lambda>s'. session_ok s' \<and> moved s s'"
  have dt: "dt_settings s = None" using False session_okD(15)[OF ok] by (cases "dt_settings s") auto
  have unasked: "g \<notin> set (start_asks (se_asked s))"
  proof
    assume "g \<in> set (start_asks (se_asked s))"
    moreover have "\<exists>n. AskStart g n \<in> set qs" if "g \<in> set (start_asks qs)" for qs
      using that by (induction qs rule: start_asks.induct) auto
    ultimately obtain n where "AskStart g n \<in> set (se_asked s)" by blast
    hence "ask_ok s (AskStart g n)" using session_okD(13)[OF ok] by (simp add: list_all_iff)
    thus False using False by (auto simp: ask_ok_def)
  qed
  have "list_all (ask_ok ?t) (se_asked s)"
  proof (rule list.pred_mono_strong[OF session_okD(13)[OF ok]])
    show "ask_ok ?t q" if "ask_ok s q" for q
      using that False by (auto simp: ask_ok_def split: target_question.splits)
  qed
  hence "rest_ok ?t" using ok False dt unfolding session_ok_def rest_ok_def
    by (simp add: speech_runs_now_def session_following_def)
  hence okt: "session_ok ?t" using ok by (simp add: session_ok_def chain_ok_def outgoing_ok_def)
  have starts: "starts ?t" using okt False dt unasked by (simp add: starts_def)
  have following: "ends ?Q (ew_revision (se_review u) \<bind> (\<lambda>r. continue_startup_with_target E g (rvn_target r) u))"
    if u: "starts u" "moved s u" and f: "session_following u" for u
  proof -
    have "session_ok u" using u(1) by (simp add: starts_def)
    then obtain r where "ew_revision (se_review u) = Some r" using session_okD(6) f by fastforce
    thus ?thesis using u moved_trans by (auto intro!: ends_mono[OF continue_with_target_ok])
  qed
  have known: "ends ?Q (continue_startup_with_target E g t u)" if "starts u" "moved s u" for t u
    by (rule ends_mono[OF continue_with_target_ok[OF that(1)]]) (use that moved_trans in blast)
  have asked: "ends ?Q (ask_target E CaptureTarget (AskStart g (se_step u)) u)"
    if u: "starts u" "moved s u" "se_generation u = g" for u
    by (rule ends_mono[OF captures_ok])
      (use u moved_trans session_okD(14)[of u] in \<open>auto simp: starts_def ask_ok_def\<close>)
  have "ends ?Q (continue_startup E g s)"
    unfolding continue_startup_def if_not_P[OF False]
  proof (rule ends_then[OF calm_clear_screenshot])
    fix u assume c: "calm ?t u"
    have "moved s ?t" by (simp add: moved_def log_grows_def)
    hence u: "starts u" "moved s u" "se_generation u = g"
      using starts starts_calm[OF c] calm_moved[OF c] moved_trans c False by (auto simp: calm_fields)
    show "ends ?Q (if session_following u then do {
           r \<leftarrow> ew_revision (se_review u);
           continue_startup_with_target E g (rvn_target r) u }
         else if \<not> sn_reads_target E then continue_startup_with_target E g no_target u
         else ask_target E CaptureTarget (AskStart g (se_step u)) u)"
      by (intro ends_if following known asked u)
  qed
  thus ?thesis by (rule ends_mono) (use False in \<open>auto simp: led_def\<close>)
qed (use ok in \<open>auto simp: continue_startup_def\<close>)

lemma transcript_changed_ok: "session_ok s \<Longrightarrow> led t s \<Longrightarrow>
    ends (\<lambda>s'. session_ok s' \<and> led t s') (transcript_changed E words s)"
  unfolding transcript_changed_def by (rule ends_then[OF hear]) (auto simp: is_out_def intro!: hear)

lemma begin_session_ok:
  assumes ok: "session_ok s"
  shows "ends (\<lambda>s'. session_ok s' \<and> led s s') (begin_session E overrides s)"
proof -
  let ?f = "se_state s = SReviewing \<and> session_following s"
  let ?Q = "\<lambda>s'. session_ok s' \<and> led s s'"
  show ?thesis
  proof (cases "se_state s \<noteq> SIdle \<and> se_state s \<noteq> SError \<and> \<not> ?f
      \<and> \<not> (se_state s = SDelivering \<and> se_completion s \<noteq> None)")
    case True
    thus ?thesis using ok by (simp add: begin_session_def Let_def)
  next
    case False
    hence st: "se_state s \<in> {SIdle, SError, SReviewing, SDelivering}" by auto
    have found: "(if ?f then (case ew_revision (se_review s) of None \<Rightarrow> None
        | Some r \<Rightarrow> Some (rvn_settings r, rvn_choices r)) else Some (se_saved s, no_choices)) \<noteq> None"
      using session_okD(7)[OF ok] by (auto split: option.splits)
    let ?d = "dict_begin (s\<lparr>se_completion := None, se_generation := Suc (se_generation s)\<rparr>)"
    let ?t = "\<lambda>x ch. ?d\<lparr>se_settings := Some x, se_choices := ch, se_heard_speech := False, se_target := no_target,
           se_chain := rchain_begin k_no_refinement_provider [] (se_chain ?d),
           se_used_raw := False, se_history := no_history, se_listening_ms := 0\<rparr>"
    note d = same_speech(1)[of "s\<lparr>se_completion := None, se_generation := Suc (se_generation s)\<rparr>"]
    have enters: "session_ok (entered (?t x ch) SStarting)" for x ch
      by (rule entered_ok)
        (use d st ok later_generation_sound[OF ok] ok_microphone_off[OF ok] ok_unrefined[OF ok] in
          \<open>auto simp: same_session_def speech_runs_now_def sound_def unsent_def session_following_def once_out_def\<close>)
    have "log_grows s ?d" using d by (auto simp: same_session_def intro: log_grows_later)
    hence "log_grows s (entered (?t x ch) SStarting)" for x ch by (simp add: log_grows_def entered_def)
    hence b: "bumped s (entered (?t x ch) SStarting)" for x ch
      using d by (simp add: same_session_def bumped_def entered_def)
    have led: "led s u" if "led (entered (?t x ch) SStarting) u" for x ch u
      by (rule bumped_led[OF bumped_moved_trans[OF b led_moved[OF that]]]) (use st in auto)
    have rest: "ends ?Q (if step \<noteq> se_step u then Some u else do {
           s \<leftarrow> ts_clear (sn_chars E) (transcript_changed E) (u\<lparr>se_warning := [], se_last_transcript := []\<rparr>);
           s \<leftarrow> sn_call E (PreviewDisplayChanged []) (s\<lparr>se_pipeline := no_pipeline\<rparr>);
           (if step \<noteq> se_step s then Some s else do {
              s \<leftarrow> sn_call E (PopupShow g) s;
              sn_call E (PaintTimer g) s }) })" if u: "?Q u" for u step g
    proof -
      have c: "calm u (u\<lparr>se_warning := [], se_last_transcript := [], ts_finals := [], ts_partial := [],
          ts_attempt_base := [], ts_attempt_language := [], ts_heard_language := []\<rparr>)"
        by (simp add: calm_fields log_grows_def)
      have 1: "ends ?Q (ts_clear (sn_chars E) (transcript_changed E) (u\<lparr>se_warning := [], se_last_transcript := []\<rparr>))"
        unfolding ts_clear_def Let_def
        by (rule transcript_changed_ok) (use u session_ok_calm[OF c] led_calm[OF _ c] in auto)
      have 2: "ends ?Q (sn_call E (PreviewDisplayChanged []) (v\<lparr>se_pipeline := no_pipeline\<rparr>))" if "?Q v" for v
        using that by (intro hear) (auto simp: is_out_def)
      have 3: "ends ?Q (if step \<noteq> se_step v then Some v else do {
              s \<leftarrow> sn_call E (PopupShow g) v;
              sn_call E (PaintTimer g) s })" if "?Q v" for v
        using that by (intro ends_if ends_then[OF hear] quietly) (auto simp: is_out_def)
      show ?thesis
      proof (rule ends_if)
        show "ends ?Q (do {
           s \<leftarrow> ts_clear (sn_chars E) (transcript_changed E) (u\<lparr>se_warning := [], se_last_transcript := []\<rparr>);
           s \<leftarrow> sn_call E (PreviewDisplayChanged []) (s\<lparr>se_pipeline := no_pipeline\<rparr>);
           (if step \<noteq> se_step s then Some s else do {
              s \<leftarrow> sn_call E (PopupShow g) s;
              sn_call E (PaintTimer g) s }) })"
          by (rule ends_then[OF 1], rule ends_then[OF 2], assumption, rule 3)
      qed (use u in simp)
    qed
    have begun: "ends ?Q (set_state E SStarting [] no_action (?t x ch) \<bind> (\<lambda>(step, u).
        if step \<noteq> se_step u then Some u else do {
           s \<leftarrow> ts_clear (sn_chars E) (transcript_changed E) (u\<lparr>se_warning := [], se_last_transcript := []\<rparr>);
           s \<leftarrow> sn_call E (PreviewDisplayChanged []) (s\<lparr>se_pipeline := no_pipeline\<rparr>);
           (if step \<noteq> se_step s then Some s else do {
              s \<leftarrow> sn_call E (PopupShow g) s;
              sn_call E (PaintTimer g) s }) }))" for x ch g
      by (rule ends_then2[OF set_state_ok[OF enters]], simp, rule rest) (use led in blast)
    obtain st ch where "(if ?f then (case ew_revision (se_review s) of None \<Rightarrow> None
        | Some r \<Rightarrow> Some (rvn_settings r, rvn_choices r)) else Some (se_saved s, no_choices)) = Some (st, ch)"
      using found by fastforce
    hence eq: "(if ?f then (case ew_revision (se_review (s\<lparr>se_completion := None\<rparr>)) of None \<Rightarrow> None
        | Some r \<Rightarrow> Some (rvn_settings r, rvn_choices r)) else Some (se_saved (s\<lparr>se_completion := None\<rparr>), no_choices))
        = Some (st, ch)" by (auto split: if_splits)
    show ?thesis
      unfolding begin_session_def Let_def if_not_P[OF False] eq
      by (simp del: ends_bind, rule begun)
  qed
qed

end

end
