(* ===== verification/Session_Contract.thy ===== *)
theory Session_Contract
  imports Session_Starts
begin

text \<open>
  Everything that reaches a Dictation Session: its commands, the events around it
  and what its speech says keep it sound, whatever its calls lead to, so that its
  runs are surroundings as the interface asks, at any depth of calls from inside
  calls.
\<close>

section \<open>Commands\<close>

lemma reachability_ok:
  assumes "session_ok s"
  shows "session_ok (set_reachability r s) \<and> led s (set_reachability r s)"
proof -
  let ?t = "s\<lparr>se_reachability := r, ch_reachability := r\<rparr>"
  have c: "calm s ?t" by (simp add: calm_fields log_grows_def)
  have eq: "set_reachability r s = ?t\<lparr>se_chain := (se_chain ?t)\<lparr>rf_reachability := r\<rparr>\<rparr>"
    by (simp add: set_reachability_def chain_set_reachability_def rchain_set_reachability_def Let_def)
  have t: "session_ok ?t" using assms session_ok_calm[OF c] by simp
  have "session_ok (?t\<lparr>se_chain := (se_chain ?t)\<lparr>rf_reachability := r\<rparr>\<rparr>)"
    by (rule session_ok_runner[OF t]) (simp_all add: chain_task_def)
  moreover have "led ?t (?t\<lparr>se_chain := (se_chain ?t)\<lparr>rf_reachability := r\<rparr>\<rparr>)"
    by (simp add: led_def moved_def frozen_def log_grows_def speech_runs_now_def rchain_stays_def chain_task_def)
  ultimately show ?thesis using eq led_trans[OF calm_led[OF c]] by simp
qed

context session_surroundings
begin

lemma start_session_ok:
  assumes ok: "session_ok s"
  shows "ends (\<lambda>s'. session_ok s' \<and> led s s') (start_session E overrides s)"
proof (cases "se_state s = SReviewing \<and> \<not> session_following s")
  case True
  let ?t = "s\<lparr>se_review := review_start_follow_up (se_review s)\<rparr>"
  have rev: "ew_revision (se_review s) \<noteq> None" using session_okD(7)[OF ok] True by blast
  have "ask_ok ?t = ask_ok s" by (rule ext) (simp add: ask_ok_def split: target_question.split)
  hence t: "session_ok ?t"
    using ok rev by (simp add: session_ok_def rest_ok_def chain_ok_def outgoing_ok_def speech_runs_now_def
        session_following_def review_start_follow_up_def)
  have lt: "led s ?t" using True by (simp add: led_def moved_def log_grows_def)
  have "ends (\<lambda>s'. session_ok s' \<and> led s s') (if se_step ?t \<noteq> se_step u then Some u else begin_session E no_overrides u)"
    if "session_ok u \<and> led s u" for u
    using that by (auto intro!: ends_mono[OF begin_session_ok] intro: led_trans)
  thus ?thesis
    using True t rev lt unfolding start_session_def start_follow_up_def Let_def
    by (simp del: ends_bind) (rule ends_then[OF emit_review_ok[OF t _ lt]], auto simp: review_start_follow_up_def)
qed (use begin_session_ok[OF ok] in \<open>auto simp: start_session_def\<close>)

lemma toggle_ok: "session_ok s \<Longrightarrow> ends (\<lambda>s'. session_ok s' \<and> led s s') (toggle_session E overrides s)"
  using start_session_ok[of s] stop_listening_ok[of s] by (auto simp: toggle_session_def)

lemma command_ok:
  assumes "session_ok s"
  shows "ends (\<lambda>s'. session_ok s' \<and> led s s') (session_command E c s)"
proof (cases c)
  case CancelSession
  thus ?thesis using cancel_ok[OF assms] by (auto simp: session_command_def elim!: ends_mono)
qed (simp_all add: session_command_def assms toggle_ok start_session_ok stop_listening_ok shutdown_ok
    replace_selection_ok pause_ok resume_ok toggle_pause_ok continue_startup_ok reachability_ok set_keys_ok settings_saved_def)

section \<open>Events\<close>

lemma microphone_started_ok:
  assumes ok: "session_ok s"
  shows "ends (\<lambda>s'. session_ok s' \<and> moved s s') (microphone_started E s)"
proof (cases "se_microphone s = MicStarting")
  case True
  let ?t = "s\<lparr>se_microphone := MicOn\<rparr>"
  have t: "session_ok ?t" by (rule microphone_ok[OF ok]) (use True session_okD(4,5)[OF ok] in auto)
  have "ends (\<lambda>s'. session_ok s' \<and> moved s s') (announce E SListening [] no_action (dict_listen ?t))"
    if "se_state s = SStarting"
  proof (rule ends_mono[OF announce_ok])
    show "session_ok (entered (dict_listen ?t) SListening)" by (rule listening_ok[OF t]) (use that in simp)
    show "session_ok u \<and> moved s u" if "session_ok u \<and> led (entered (dict_listen ?t) SListening) u" for u
      using that moved_entered[OF same_speech(5)[of ?t]] led_moved bumped_moved moved_microphone(2) by blast
  qed simp
  thus ?thesis using True t by (simp add: microphone_started_def Let_def)
qed (use ok in \<open>simp add: microphone_started_def\<close>)

text \<open>A session that fails at its work, its speech cancelled.\<close>

lemma fail_heard_ok:
  assumes s: "session_ok s" and st: "se_state s \<in> {SStarting, SListening, SPaused, SStopping}"
  shows "ends (\<lambda>s'. session_ok s' \<and> moved s s') (sn_call E SpeechCancel s \<bind> (\<lambda>s. fail_session E (m s) (f s) s))"
proof (rule ends_then[OF speech_cancels])
  fix u assume c: "calm (s\<lparr>dt_settings := None, dt_phase := IdlePhase\<rparr>) u"
  have r: "sound s" "unsent s" "chain_task (se_chain s) = None" "sx_refining s = None" "0 < se_generation s"
    using session_ok_sound[OF s] ok_unsent[OF s] ok_unrefined[OF s] session_okD(12)[OF s] st by auto
  have "sound (s\<lparr>dt_settings := None, dt_phase := IdlePhase\<rparr>)" "unsent (s\<lparr>dt_settings := None, dt_phase := IdlePhase\<rparr>)"
    using r by (simp_all add: sound_def unsent_def session_following_def)
  hence "ends (\<lambda>s'. session_ok s' \<and> bumped u s') (fail_session E (m u) (f u) u)"
    using c r calm_facts[OF c] by (intro fail_session_ok) (auto simp: calm_fields speech_runs_now_def)
  moreover have "moved s u" using c by (simp add: calm_fields moved_def log_grows_def)
  ultimately show "ends (\<lambda>s'. session_ok s' \<and> moved s s') (fail_session E (m u) (f u) u)"
    by (rule_tac ends_mono) (use moved_bumped bumped_moved in blast)+
qed

lemma microphone_failed_ok:
  assumes ok: "session_ok s"
  shows "ends (\<lambda>s'. session_ok s' \<and> moved s s') (microphone_failed E m s)"
proof -
  let ?t = "s\<lparr>se_microphone := MicOff\<rparr>"
  have t: "session_ok ?t" by (rule microphone_ok[OF ok]) simp
  have st: "se_microphone s \<noteq> MicOff \<Longrightarrow> se_state ?t \<in> {SStarting, SListening, SPaused, SStopping}"
    using session_okD(4)[OF ok] by auto
  have fails: "ends (\<lambda>s'. session_ok s' \<and> moved s s') (sn_call E SpeechCancel ?t \<bind> fail_session E m no_action)"
    if "se_microphone s \<noteq> MicOff"
    using fail_heard_ok[OF t st[OF that], of "\<lambda>_. m" "\<lambda>_. no_action"] by simp
  have stops: "ends (\<lambda>s'. session_ok s' \<and> moved s s') (stop_listening E u)" if "calm ?t u" for u
    by (rule ends_mono[OF stop_listening_ok])
      (use t session_ok_calm[OF that] calm_moved[OF that] led_moved moved_trans moved_microphone(2) in blast)+
  show ?thesis using t fails stops by (simp add: microphone_failed_def Let_def)
qed

lemma captured_ok:
  assumes ok: "session_ok s"
  shows "ends (\<lambda>s'. session_ok s' \<and> moved s s') (target_captured E q t s)"
proof (cases "q \<in> set (se_asked s)")
  case True
  let ?t = "s\<lparr>se_asked := remove1 q (se_asked s)\<rparr>"
  have t: "session_ok ?t" by (rule session_ok_answered[OF ok])
  have q: "ask_ok s q" using session_okD(13)[OF ok] True by (simp add: list_all_iff)
  have m: "moved ?t = moved s" "moved s ?t" by (rule ext) (simp_all add: moved_def log_grows_def)
  show ?thesis
  proof (cases q)
    case (AskStart g n)
    have "starts ?t" if "g = se_generation s" "n = se_step s"
    proof -
      have "g \<notin> set (start_asks (se_asked ?t))"
        using True AskStart session_okD(14)[OF ok] by (simp add: start_asks_remove)
      thus ?thesis using t q AskStart that by (simp add: starts_def ask_ok_def)
    qed
    hence "ends (\<lambda>s'. session_ok s' \<and> moved s s') (continue_startup_with_target E g t ?t)"
      if "g = se_generation s" "n = se_step s"
      using continue_with_target_ok[of ?t] that m by simp
    thus ?thesis using True AskStart t m by (simp add: target_captured_def Let_def)
  next
    case (AskFocus n)
    thus ?thesis using True ok by (simp add: target_captured_def Let_def)
  next
    case (AskSelection n)
    have "ends (\<lambda>s'. session_ok s' \<and> moved s s') (selection_checked E n b ?t)" for b
      using selection_checked_ok[OF t, of n b] q AskSelection m by (simp add: ask_ok_def)
    thus ?thesis using True AskSelection by (simp add: target_captured_def Let_def)
  qed
qed (use ok in \<open>simp add: target_captured_def\<close>)

lemma matched_ok:
  assumes ok: "session_ok s"
  shows "ends (\<lambda>s'. session_ok s' \<and> moved s s') (focus_matched E q focus s)"
proof (cases "q \<in> set (se_asked s)")
  case True
  let ?t = "s\<lparr>se_asked := remove1 q (se_asked s)\<rparr>"
  have t: "session_ok ?t" by (rule session_ok_answered[OF ok])
  have q: "ask_ok s q" using session_okD(13)[OF ok] True by (simp add: list_all_iff)
  have m: "moved ?t = moved s" "moved s ?t" by (rule ext) (simp_all add: moved_def log_grows_def)
  show ?thesis
  proof (cases q)
    case (AskFocus n)
    have "ends (\<lambda>s'. session_ok s' \<and> moved s s') (selection_checked E n b ?t)" for b
      using selection_checked_ok[OF t, of n b] q AskFocus m by (simp add: ask_ok_def)
    moreover have "ends (\<lambda>s'. session_ok s' \<and> moved s s') (ask_target E CaptureTarget (AskSelection n) ?t)"
      using captures_ok[OF t, of "AskSelection n"] q AskFocus m session_okD(14)[OF t] by (simp add: ask_ok_def)
    ultimately show ?thesis using True AskFocus by (auto simp: focus_matched_def Let_def)
  qed (use True ok in \<open>simp_all add: focus_matched_def Let_def\<close>)
qed (use ok in \<open>simp add: focus_matched_def\<close>)

lemma completion_ok:
  assumes ok: "session_ok s"
  shows "ends (\<lambda>s'. session_ok s' \<and> moved s s') (completion_timeout E s)"
proof (cases "se_state s = SDelivering")
  case True
  have "ends (\<lambda>s'. session_ok s' \<and> bumped (s\<lparr>se_completion := None\<rparr>) s') (end_quietly E (s\<lparr>se_completion := None\<rparr>))"
    by (rule end_quietly_ok)
      (use True session_ok_sound[OF ok] ok_silent[OF ok] ok_microphone_off[OF ok] ok_unrefined[OF ok] in
        \<open>auto simp: sound_def session_following_def speech_runs_now_def\<close>)
  thus ?thesis using ok by (auto simp: completion_timeout_def Let_def elim!: ends_mono intro: bumped_moved)
qed (use ok in \<open>simp add: completion_timeout_def Let_def\<close>)

text \<open>What a refiner that was asked sends.\<close>

lemma refiner_event_ok:
  assumes ok: "session_ok s"
  shows "ends (\<lambda>s'. session_ok s' \<and> moved s s') (run_event E (RefinerSends r signal) s)"
proof (cases "sx_refining s = Some r")
  case True
  have st: "se_state s = SRefining" using session_okD(10)[OF ok] True by auto
  let ?u = "s\<lparr>sx_refining := None\<rparr>"
  have u: "session_ok ?u" by (rule session_ok_unrefined[OF ok])
  have "walks ?u" if "se_refinement_generation s = se_generation s"
    using u that st ok_silent[OF ok] ok_microphone_off[OF ok] session_okD(8)[OF ok] True
    by (cases "chain_task (se_chain s)") (auto simp: walks_def speech_runs_now_def)
  hence w: "se_refinement_generation s = se_generation s \<Longrightarrow> walks ?u" .
  have m: "moved ?u = moved s" by (rule ext) (simp add: moved_def log_grows_def)
  have silent: "refiner_sends E r signal ?u = Some ?u" if "se_refinement_generation s \<noteq> se_generation s"
    using that by (auto simp: refiner_sends_def refiner_is_current_def split: option.split)
  have "ends (\<lambda>s'. session_ok s' \<and> moved s s') (refiner_sends E r signal ?u)"
  proof (cases "se_refinement_generation s = se_generation s")
    case True
    have "ends (\<lambda>s'. session_ok s' \<and> moved ?u s') (refiner_sends E r signal ?u)"
      by (rule refiner_sends_ok[OF u, of _ undefined]) (use w[OF True] in simp)
    thus ?thesis unfolding m .
  qed (use silent u m in \<open>auto simp: moved_def log_grows_def\<close>)
  moreover have "ends (\<lambda>s'. session_ok s' \<and> moved s s') (refiner_sends E r (RefinerDelta x) s)" for x
    by (rule refiner_sends_ok[OF ok, where x = x]) simp
  ultimately show ?thesis using True by (cases signal) (simp_all add: run_event_def)
qed (use ok in \<open>simp add: run_event_def\<close>)

lemma event_ok:
  assumes ok: "session_ok s"
  shows "ends (\<lambda>s'. session_ok s' \<and> moved s s') (run_event E e s)"
proof (cases e)
  case MicrophoneStopped
  have "session_ok (s\<lparr>se_microphone := MicOff\<rparr>)" by (rule microphone_ok[OF ok]) simp
  thus ?thesis using MicrophoneStopped microphone_stopped_ok by (simp add: run_event_def session_event_def)
next
  case (MicrophoneLevel level)
  thus ?thesis
    using ok by (auto simp: run_event_def session_event_def hear_level_def session_ok_calm
        intro!: ends_mono[OF quiet] dest: calm_moved)
next
  case (PaintTimeout g)
  thus ?thesis
    by (auto simp: run_event_def session_event_def intro!: ends_mono[OF continue_startup_ok[OF ok]] dest: led_moved)
next
  case (HideTimeout g)
  thus ?thesis
    using ok by (auto simp: run_event_def session_event_def hide_timeout_def session_ok_calm
        intro!: ends_mono[OF quiet] dest: calm_moved)
next
  case (DeliveryAnswered result)
  thus ?thesis using ok finish_delivery_ok by (simp add: run_event_def)
next
  case (RefinerSends r signal)
  thus ?thesis using refiner_event_ok[OF ok] by simp
qed (use ok in \<open>simp_all add: run_event_def session_event_def microphone_started_ok microphone_failed_ok hear_audio_def
    speech_hears captured_ok matched_ok screenshot_captured_def thread_ok completion_ok split: option.split\<close>)

section \<open>The speech\<close>

lemma idle_phase_ok:
  assumes "session_ok s"
  shows "session_ok (s\<lparr>dt_phase := IdlePhase\<rparr>)"
proof -
  have "ask_ok (s\<lparr>dt_phase := IdlePhase\<rparr>) = ask_ok s"
    by (rule ext) (simp add: ask_ok_def split: target_question.split)
  thus ?thesis
    using assms by (simp add: session_ok_def rest_ok_def chain_ok_def outgoing_ok_def speech_runs_now_def session_following_def)
qed

lemma moved_phase: "moved (s\<lparr>dt_phase := p\<rparr>) = moved s"
  by (rule ext) (simp add: moved_def log_grows_def)

lemma speech_fails_ok:
  assumes ok: "session_ok s" and silent: "\<not> speech_runs_now s"
    and st: "se_state s \<in> {SStarting, SListening, SPaused, SStopping}"
  shows "ends (\<lambda>s'. session_ok s' \<and> moved s s') (end_speech_after_failure E f s)"
proof -
  let ?Q = "\<lambda>s'. session_ok s' \<and> moved s s'"
  let ?s = "s\<lparr>se_warning := part_missing_warning f, se_used_raw := True\<rparr>"
  have hearing: "ends ?Q (do {
          s \<leftarrow> sn_call E SpeechCancel ?s;
          s \<leftarrow> abort_microphone E s;
          (step, s) \<leftarrow> set_state E SStopping (sf_message f) no_action s;
          s \<leftarrow> sn_call E MediaResume s;
          (if step = se_step s then begin_refinement E (se_generation s) s else Some s) })"
    if "se_state s \<in> {SListening, SPaused}"
  proof (rule ends_then[OF speech_cancels], rule ends_then[OF calm_abort])
    fix u v
    assume u: "calm (?s\<lparr>dt_settings := None, dt_phase := IdlePhase\<rparr>) u" and v: "calm (u\<lparr>se_microphone := MicOff\<rparr>) v"
    have c: "calm (s\<lparr>dt_settings := None, dt_phase := IdlePhase, se_microphone := MicOff\<rparr>) v"
      using u v by (auto simp: calm_fields log_grows_def)
    have r: "sound s" "unsent s" using session_ok_sound[OF ok] ok_unsent[OF ok] that by auto
    have "sound v" using r calm_facts(1)[OF c] by (simp add: sound_def session_following_def)
    moreover have "unsent v" using r calm_facts(2)[OF c] by (simp add: unsent_def)
    moreover have silent: "\<not> speech_runs_now v" using calm_facts(3)[OF c] by (simp add: speech_runs_now_def)
    ultimately have e: "session_ok (entered v SStopping)"
      using that c session_okD(1,12)[OF ok] ok_unrefined[OF ok]
      by (intro entered_ok) (auto simp: calm_fields)
    have off: "\<not> speech_runs_now v" "se_microphone v = MicOff"
      using silent c by (simp_all add: calm_fields)
    have mv: "moved s v" using c by (auto simp: calm_fields moved_def log_grows_def)
    show "ends ?Q (set_state E SStopping (sf_message f) no_action v \<bind> (\<lambda>(step, s).
          sn_call E MediaResume s \<bind> (\<lambda>s. if step = se_step s then begin_refinement E (se_generation s) s else Some s)))"
    proof (rule ends_then2[OF set_state_ok[OF e]])
      fix step w assume w: "step = Suc (se_step v) \<and> session_ok w \<and> led (entered v SStopping) w"
      have mw: "moved s w" using mv w bumped_moved[OF bumped_entered] led_moved moved_trans by blast
      have here: "se_state w = SStopping \<and> \<not> speech_runs_now w \<and> se_microphone w = MicOff" if "step = se_step w"
        using w that off by (auto simp: led_def moved_def frozen_def entered_def speech_runs_now_def)
      show "ends ?Q (sn_call E MediaResume w
          \<bind> (\<lambda>s. if step = se_step s then begin_refinement E (se_generation s) s else Some s))"
      proof (rule ends_then[OF quiet])
        fix x assume x: "calm w x"
        have o: "session_ok x" "moved s x" using w session_ok_calm[OF x] moved_trans[OF mw calm_moved[OF x]] by simp_all
        have "walks x" if "step = se_step x"
          using here that x calm_facts[OF x] o(1) by (intro stopped_walks) (auto simp: calm_fields)
        thus "ends ?Q (if step = se_step x then begin_refinement E (se_generation x) x else Some x)"
          using o by (auto intro!: ends_mono[OF begin_refinement_ok] intro: moved_trans)
      qed simp
    qed simp
  qed
  have stopping: "ends ?Q (do {
          s \<leftarrow> (if se_microphone ?s \<noteq> MicOff then do {
               s \<leftarrow> abort_microphone E ?s;
               sn_call E MediaResume s } else Some ?s);
          begin_refinement E (se_generation s) (s\<lparr>se_message := sf_message f\<rparr>) })"
    if here: "se_state s = SStopping"
  proof -
    have off: "session_ok (s\<lparr>se_microphone := MicOff\<rparr>)" by (rule microphone_ok[OF ok]) simp
    have "ends (\<lambda>u. calm (s\<lparr>se_microphone := MicOff\<rparr>) u)
      (if se_microphone ?s \<noteq> MicOff then abort_microphone E ?s \<bind> sn_call E MediaResume else Some ?s)"
    proof (rule ends_if)
      show "ends (calm (s\<lparr>se_microphone := MicOff\<rparr>)) (abort_microphone E ?s \<bind> sn_call E MediaResume)"
      proof (rule ends_then[OF calm_abort], rule quiet_after)
        show "calm (s\<lparr>se_microphone := MicOff\<rparr>) u" if "calm (?s\<lparr>se_microphone := MicOff\<rparr>) u" for u
          using that by (auto simp: calm_fields log_grows_def)
      qed simp
    qed (simp add: calm_fields log_grows_def)
    thus ?thesis
    proof (rule ends_then)
      fix u assume u: "calm (s\<lparr>se_microphone := MicOff\<rparr>) u"
      let ?u = "u\<lparr>se_message := sf_message f\<rparr>"
      have c: "calm (s\<lparr>se_microphone := MicOff\<rparr>) ?u" using u by simp
      have o: "session_ok ?u" "moved s ?u"
        using off session_ok_calm[OF c] calm_moved[OF c] by simp_all
      have "walks ?u"
        by (rule stopped_walks[OF o(1)]) (use here silent c calm_facts(3)[OF c] in \<open>auto simp: calm_fields speech_runs_now_def\<close>)
      thus "ends ?Q (begin_refinement E (se_generation u) ?u)"
        using o by (auto intro!: ends_mono[OF begin_refinement_ok] intro: moved_trans)
    qed
  qed
  have fails: "ends ?Q (sn_call E SpeechCancel s \<bind> (\<lambda>s. fail_session E (session_failure_text E (sf_message f) s)
          (if tried_fallbacks (ph_issues (se_history s)) s then speech_page else no_action) s))"
    by (rule fail_heard_ok[OF ok st])
  show ?thesis
    unfolding end_speech_after_failure_def Let_def
    by (intro ends_if hearing stopping fails) (use st in auto)
qed

lemma speech_exhausted_ok:
  assumes ok: "session_ok s" and silent: "\<not> speech_runs_now s" and set: "dt_settings s \<noteq> None"
    and st: "se_state s \<in> {SStarting, SListening, SPaused, SStopping}"
  shows "ends (\<lambda>s'. session_ok s' \<and> moved s s') (speech_chain_exhausted E f s)"
  using speech_fails_ok[OF ok silent st] fail_startup_ok[OF ok _ silent] session_okD(15)[OF ok _ set]
  by (simp add: speech_chain_exhausted_def Let_def)

lemma says_ok:
  assumes ok: "session_ok s"
  shows "ends (\<lambda>s'. session_ok s' \<and> moved s s') (speech_says E signal s)"
proof (cases "speech_runs_now s")
  case True
  let ?t = "s\<lparr>dt_phase := IdlePhase\<rparr>"
  have t: "session_ok ?t" "\<not> speech_runs_now ?t" by (simp_all add: idle_phase_ok[OF ok] speech_runs_now_def)
  have st: "se_state ?t \<in> {SStarting, SListening, SPaused, SStopping}"
    using True session_okD(2)[OF ok True] by (cases "dt_phase s") (auto simp: phase_state_def speech_runs_now_def)
  have led: "ends (\<lambda>s'. session_ok s' \<and> moved s s') m" if "ends (\<lambda>s'. session_ok s' \<and> led s s') m" for m
    by (rule ends_mono[OF that]) (use led_moved in blast)
  have stop: "ends (\<lambda>s'. session_ok s' \<and> moved s s') (stop_listening E u)" if "calm s u" for u
    by (rule ends_mono[OF stop_listening_ok])
      (use ok session_ok_calm[OF that] calm_moved[OF that] led_moved moved_trans in blast)+
  show ?thesis
  proof (cases signal)
    case SpeechReady
    have "session_ok (s\<lparr>se_microphone := MicStarting\<rparr>)" if "dt_phase s = Starting"
      by (rule microphone_ok[OF ok]) (use that phase_of_state(1)[OF ok True] in auto)
    hence "ends (\<lambda>s'. session_ok s' \<and> moved s s') (start_microphone E s)" if "dt_phase s = Starting"
      using that by (auto intro!: ends_mono[OF start_microphone_ok] dest: led_moved)
    thus ?thesis using SpeechReady True ok by (simp add: speech_says_def)
  next
    case (SpeechSignedIn p b)
    have "ends (\<lambda>s'. session_ok s' \<and> led s s') (speech_signed_in E p b s)"
      unfolding speech_signed_in_def
      by (rule ends_then[of "\<lambda>s'. session_ok s' \<and> led s s'"]) (auto simp: is_out_def ok intro!: hear note_sign_in_ok)
    thus ?thesis using SpeechSignedIn True led by (simp add: speech_says_def)
  next
    case (SpeechRan p)
    have "calm s (note_ran Speech p s)" by (simp add: note_ran_def Let_def)
    thus ?thesis using SpeechRan True ok session_ok_calm calm_moved by (simp add: speech_says_def)
  next
    case (SpeechPassedOver p stage f)
    thus ?thesis using True led[OF note_issue_ok[OF ok led_refl]] by (simp add: speech_says_def)
  next
    case SpeechRenewsSignIn
    thus ?thesis using True led[OF quietly[OF _ ok led_refl]] by (simp add: speech_says_def)
  next
    case (SpeechSecrets app)
    have "session_ok (speech_secrets_resolved app s) \<and> moved s (speech_secrets_resolved app s)"
      using ok by (simp add: speech_secrets_resolved_def session_ok_settings split: option.split)
    thus ?thesis using SpeechSecrets True by (simp add: speech_says_def)
  next
    case (SpeechMissesWords f)
    thus ?thesis using True ok by (simp add: speech_says_def)
  next
    case SpeechHeldTooMuch
    have "ends (\<lambda>s'. session_ok s' \<and> moved s s') (held_past_the_budget E s)"
      unfolding held_past_the_budget_def Let_def using stop ok by simp
    thus ?thesis using SpeechHeldTooMuch True by (simp add: speech_says_def)
  next
    case (SpeechWords finals partial)
    have c: "calm s (s\<lparr>ts_finals := finals, ts_partial := partial\<rparr>)" by (simp add: calm_fields log_grows_def)
    have "ends (\<lambda>s'. session_ok s' \<and> led s s')
        (transcript_changed E words (s\<lparr>ts_finals := finals, ts_partial := partial\<rparr>))" for words
      by (rule transcript_changed_ok) (use ok session_ok_calm[OF c] calm_led[OF c] in auto)
    thus ?thesis using SpeechWords True led by (simp add: speech_says_def Let_def)
  next
    case SpeechEnds
    have "ends (\<lambda>s'. session_ok s' \<and> moved ?t s') (begin_refinement E (se_generation s) ?t)"
      if "dt_phase s = Stopping" "dt_microphone_stopped s"
      by (rule begin_refinement_ok[OF t(1)])
        (use t that session_okD(5)[OF ok True] in \<open>auto intro!: stopped_walks\<close>)
    thus ?thesis using SpeechEnds True ok by (simp add: speech_says_def moved_phase)
  next
    case (SpeechFails f)
    thus ?thesis using True speech_fails_ok[OF t st, of f] by (simp add: speech_says_def moved_phase)
  next
    case (SpeechExhausts f)
    have "dt_settings ?t \<noteq> None" using True by (simp add: speech_runs_now_def)
    thus ?thesis using SpeechExhausts True speech_exhausted_ok[OF t _ st, of f] by (simp add: speech_says_def moved_phase)
  qed
qed (use ok in \<open>simp add: speech_says_def\<close>)

section \<open>Acts\<close>

lemma act_ok:
  assumes "session_ok s"
  shows "ends (\<lambda>s'. session_ok s' \<and> moved s s') (session_act E a s)"
proof (cases a)
  case (Command c)
  thus ?thesis using command_ok[OF assms, of c] by (auto simp: session_act_def elim!: ends_mono dest: led_moved)
qed (use assms in \<open>simp_all add: session_act_def event_ok says_ok\<close>)

lemma acts_ok: "session_ok s \<Longrightarrow> ends (\<lambda>s'. session_ok s' \<and> moved s s') (session_acts E as s)"
proof (induction "as" arbitrary: s)
  case (Cons a as)
  have "ends (\<lambda>s'. session_ok s' \<and> moved s s') (session_act E a s \<bind> session_acts E as)"
    by (rule ends_then[OF act_ok[OF Cons.prems]]) (auto intro!: ends_mono[OF Cons.IH] intro: moved_trans)
  thus ?case by simp
qed simp

lemma commands_ok:
  "session_ok s \<Longrightarrow> list_all (\<lambda>a. case a of Command _ \<Rightarrow> True | _ \<Rightarrow> False) as \<Longrightarrow>
    ends (\<lambda>s'. session_ok s' \<and> led s s') (session_acts E as s)"
proof (induction "as" arbitrary: s)
  case (Cons a as)
  obtain c where a: "a = Command c" using Cons.prems(2) by (cases a) auto
  have "ends (\<lambda>s'. session_ok s' \<and> led s s') (session_command E c s \<bind> session_acts E as)"
    by (rule ends_then[OF command_ok[OF Cons.prems(1)]])
      (use Cons.prems(2) in \<open>auto intro!: ends_mono[OF Cons.IH] intro: led_trans\<close>)
  thus ?case by (simp add: a session_act_def)
qed simp

end

end
