(* ===== verification/Session_Properties.thy ===== *)
theory Session_Properties
  imports Session_Contract
begin

text \<open>
  The runs of a Dictation Session are surroundings as the interface of the session
  asks, whatever they do at whatever depth; what every run comes to follows.
\<close>

section \<open>Runs are surroundings\<close>

lemma filter_none: "(\<And>a. \<not> P a) \<Longrightarrow> filter P xs = []"
  by (induction xs) auto

lemma quiet_leads_to_nothing:
  "quiet_session_call c \<Longrightarrow> filter (may_lead_to c) script = []"
  "filter (may_lead_to (Deliver os dc t)) script = []"
  by (rule filter_none, cases c, auto)+

lemma heard_leads_to_commands:
  "heard_outside c \<Longrightarrow> list_all (\<lambda>a. case a of Command _ \<Rightarrow> True | _ \<Rightarrow> False) (filter (may_lead_to c) script)"
  by (cases c) (auto simp: list_all_iff split: session_act.splits)

lemma logged_later: "log_grows s (logged c s)"
  by (simp add: logged_def log_grows_def)

lemma logged_calm: "\<not> is_delivery c \<Longrightarrow> calm s (logged c s)"
  using logged_later[of s c] by (simp add: calm_fields outgoing_logged) (simp add: logged_def)

text \<open>A refiner cancelled with nothing of it awaited sends nothing.\<close>

lemma stale_refiner_acts:
  assumes "se_connection s = None \<or> se_refinement_generation s \<noteq> se_generation s"
    and "list_all (\<lambda>a. case a of Event (RefinerSends _ _) \<Rightarrow> True | _ \<Rightarrow> False) as"
  shows "session_acts E as s = Some s \<or> session_acts E as s = Some (s\<lparr>sx_refining := None\<rparr>)"
  using assms
proof (induction "as" arbitrary: s)
  case (Cons a as)
  obtain r signal where a: "a = Event (RefinerSends r signal)"
    using Cons.prems(2) by (auto split: session_act.splits session_event.splits)
  have still: "refiner_sends E r signal s = Some s"
    if "se_connection s = None \<or> se_refinement_generation s \<noteq> se_generation s" for s :: session_run
    using that by (auto simp: refiner_sends_def refiner_is_current_def split: option.split)
  let ?n = "s\<lparr>sx_refining := None\<rparr>"
  have rest: "session_acts E as s = Some s \<or> session_acts E as s = Some ?n" "session_acts E as ?n = Some ?n"
    using Cons.IH[of s] Cons.IH[of ?n] Cons.prems by simp_all
  have "session_act E a s = Some s \<or> session_act E a s = Some ?n"
    using Cons.prems(1) still[of s] still[of ?n] by (cases signal) (simp_all add: a session_act_def run_event_def)
  hence "session_acts E (a # as) s \<in> {session_acts E as s, session_acts E as ?n}" by (elim disjE) simp_all
  thus ?case using rest by (elim insertE) simp_all
qed (simp only: session_acts.simps simp_thms)

text \<open>A run's call, apart from those that touch the run itself.\<close>

lemma run_call_plain:
  "quiet_session_call c \<or> heard_outside c \<or> c \<in> {Deliver os dc t, SpeechHear a, CaptureTarget q, MatchFocus t q} \<Longrightarrow>
    run_call R c s = R c (logged c s)"
  by (cases c) (auto simp: run_call_def)

text \<open>What a reaction to a call must keep for the runs to be sound surroundings.\<close>

lemma reactions_surround:
  assumes moves: "\<And>c s. session_ok s \<Longrightarrow> ends (\<lambda>s'. session_ok s' \<and> moved s s') (R c s)"
    and heard: "\<And>c s. heard_outside c \<Longrightarrow> session_ok s \<Longrightarrow> ends (\<lambda>s'. session_ok s' \<and> led s s') (R c s)"
    and quiet: "\<And>c s. quiet_session_call c \<or> (\<exists>os dc t. c = Deliver os dc t) \<Longrightarrow> ends (calm s) (R c s)"
    and stale: "\<And>r s. se_connection s = None \<or> se_refinement_generation s \<noteq> se_generation s \<Longrightarrow>
      ends (\<lambda>s'. calm (s\<lparr>sx_refining := None\<rparr>) (s'\<lparr>sx_refining := None\<rparr>)) (R (RefinerCancel r) s)"
  shows "session_surroundings (run_session_env G R)"
proof -
  have call: "sn_call (run_session_env G R) = run_call R" by (simp add: run_session_env_def)
  have from_calm: "ends (\<lambda>s'. session_ok s' \<and> moved s s') (R c t)" if "session_ok u" "calm u t" "moved s t" for s t u c
    by (rule ends_mono[OF moves]) (use that session_ok_calm moved_trans in blast)+
  have plain: "ends (\<lambda>s'. session_ok s' \<and> moved s s') (R c (logged c s))" if "session_ok s" "\<not> is_delivery c" for c s
    by (rule from_calm[OF that(1) logged_calm[OF that(2)] calm_moved[OF logged_calm[OF that(2)]]])
  have later: "log_grows s (logged c t)" if "sx_log t = sx_log s" "se_generation t = se_generation s" for c s t
    using that by (simp add: logged_def log_grows_def)
  show ?thesis
  proof (unfold_locales, unfold call, goal_cases)
    case (1 c s)
    have "\<not> is_delivery c" using 1 by (cases c) (simp_all add: is_delivery_def is_out_def)
    thus ?case using 1 ends_mono[OF quiet[of c "logged c s"]] calm_trans[OF logged_calm]
      by (simp add: run_call_plain)
  next
    case (2 c s)
    have n: "\<not> is_delivery c" using 2 by (cases c) (simp_all add: is_delivery_def is_out_def)
    have ok: "session_ok (logged c s)" using 2 session_ok_calm[OF logged_calm[OF n]] by simp
    show ?case unfolding run_call_plain[OF disjI2[OF disjI1[OF 2(1)]]]
      by (rule ends_mono[OF heard[OF 2(1) ok]]) (use led_trans[OF calm_led[OF logged_calm[OF n]]] in blast)
  next
    case (3 w s)
    thus ?case using heard[of "TranscriptDelivered w" "logged (TranscriptDelivered w) s"]
      by (simp add: run_call_plain)
  next
    case (4 os dc t s)
    show ?case using quiet[of "Deliver os dc t" "logged (Deliver os dc t) s"] by (simp add: run_call_def Let_def)
  next
    case (5 app s rf)
    let ?t = "(logged (SpeechStart app rf) s)\<lparr>dt_settings := Some app, dt_refiner := rf\<rparr>"
    have "calm (s\<lparr>dt_settings := Some app\<rparr>) ?t"
      by (simp add: calm_fields logged_def log_grows_def outgoing_def is_delivery_def is_out_def)
    moreover have "moved s ?t" by (simp add: moved_def logged_def log_grows_def)
    ultimately show ?case using from_calm[OF 5, of ?t] by (simp add: run_call_def Let_def)
  next
    case (6 s)
    let ?t = "if dt_phase s = Stopping then (logged SpeechProceed s)\<lparr>dt_microphone_stopped := True\<rparr> else logged SpeechProceed s"
    have "calm (if dt_phase s = Stopping then s\<lparr>dt_microphone_stopped := True\<rparr> else s) ?t"
      by (simp add: calm_fields logged_def log_grows_def outgoing_def is_delivery_def is_out_def)
    moreover have "moved s ?t" by (simp add: moved_def logged_def log_grows_def)
    moreover have "dt_phase (logged SpeechProceed s) = dt_phase s" by (simp add: logged_def)
    ultimately show ?case using from_calm[OF 6, of ?t] by (simp add: run_call_def Let_def)
  next
    case (7 s a)
    thus ?case using plain[of s "SpeechHear a"] by (simp add: run_call_def Let_def is_delivery_def is_out_def)
  next
    case (8 s)
    show ?case
      by (simp add: run_call_def Let_def calm_fields logged_def log_grows_def outgoing_def is_delivery_def is_out_def)
  next
    case (9 r s ip v cx rs ch ac)
    let ?c = "RefinerRefine r ip v cx rs ch ac"
    let ?t = "(logged ?c s)\<lparr>sx_refining := Some r\<rparr>"
    have "calm (s\<lparr>sx_refining := Some r\<rparr>) ?t"
      by (simp add: calm_fields logged_def log_grows_def outgoing_def is_delivery_def is_out_def)
    moreover have "moved s ?t" by (simp add: moved_def logged_def log_grows_def)
    ultimately show ?case using from_calm[OF 9, of ?t] by (simp add: run_call_def Let_def)
  next
    case (10 s r)
    let ?t = "logged (RefinerCancel r) s"
    have "calm (s\<lparr>sx_refining := None\<rparr>) (?t\<lparr>sx_refining := None\<rparr>)"
      by (simp add: calm_fields logged_def log_grows_def outgoing_def is_delivery_def is_out_def)
    moreover have "se_connection ?t = None \<or> se_refinement_generation ?t \<noteq> se_generation ?t"
      using 10 by (simp add: logged_def)
    ultimately have "ends (\<lambda>s'. calm (s\<lparr>sx_refining := None\<rparr>) (s'\<lparr>sx_refining := None\<rparr>)) (R (RefinerCancel r) ?t)"
      using stale[of ?t r] calm_trans by (blast intro: ends_mono)
    thus ?case by (simp add: run_call_def Let_def)
  next
    case (11 s q)
    thus ?case using plain[of s "CaptureTarget q"] by (simp add: run_call_def Let_def is_delivery_def is_out_def)
  next
    case (12 s t q)
    thus ?case using plain[of s "MatchFocus t q"] by (simp add: run_call_def Let_def is_delivery_def is_out_def)
  next
    case (13 s sp)
    show ?case by (simp add: run_session_env_def calm_fields log_grows_def chain_begin_def chain_cancel_def)
  next
    case (14 s n f)
    show ?case by (simp add: run_session_env_def)
  qed
qed

lemma runs_surround: "session_surroundings (run_session_env G (session_react G n))"
proof (induction n)
  case 0
  show ?case by (rule reactions_surround) simp_all
next
  case (Suc n)
  let ?E = "run_session_env G (session_react G n)"
  note acts = session_surroundings.acts_ok[OF Suc] and commands = session_surroundings.commands_ok[OF Suc]
  have rest: "calm s (s\<lparr>sx_scripts := x\<rparr>)" for s :: session_run and x by simp
  show ?case
  proof (rule reactions_surround, goal_cases)
    case (1 c s)
    thus ?case using acts[of "s\<lparr>sx_scripts := x\<rparr>" for x] by (cases "sx_scripts s") simp_all
  next
    case (2 c s)
    thus ?case using commands[of "s\<lparr>sx_scripts := x\<rparr>" for x] heard_leads_to_commands[of c]
      by (cases "sx_scripts s") simp_all
  next
    case (3 c s)
    have "filter (may_lead_to c) script = []" for script using 3 quiet_leads_to_nothing by auto
    thus ?case by (cases "sx_scripts s") simp_all
  next
    case (4 r s)
    show ?case
    proof (cases "sx_scripts s")
      case (Cons script more)
      let ?t = "s\<lparr>sx_scripts := more\<rparr>"
      have all: "list_all (\<lambda>a. case a of Event (RefinerSends _ _) \<Rightarrow> True | _ \<Rightarrow> False) (filter (may_lead_to (RefinerCancel r)) script)"
        by (auto simp: list_all_iff split: session_act.splits session_event.splits)
      have "session_acts ?E (filter (may_lead_to (RefinerCancel r)) script) ?t \<in> {Some ?t, Some (?t\<lparr>sx_refining := None\<rparr>)}"
        using stale_refiner_acts[OF _ all, of ?t] 4 by auto
      moreover have "calm (s\<lparr>sx_refining := None\<rparr>) (?t\<lparr>sx_refining := None\<rparr>)"
        by (simp add: calm_fields log_grows_def)
      ultimately show ?thesis using Cons by (auto simp: ends_def)
    qed simp
  qed
qed

interpretation runs: session_surroundings "run_session_env G (session_react G n)" for G n
  by (rule runs_surround)

end
