(* ===== verification/Session_Cancelled.thy ===== *)
theory Session_Cancelled
  imports Session_Properties Dictation_Runs
begin

text \<open>
  What every run of a Dictation Session comes to: it returns, its words go out
  once, and a session that was cancelled delivers nothing more.
\<close>

section \<open>Every run\<close>

lemma session_ok_init: "session_ok (session_init saved scripts)"
  by (simp add: session_init_def session_ok_def rest_ok_def chain_ok_def outgoing_ok_def speech_runs_now_def
      session_following_def no_review_def chain_task_def rchain_init_def runner_init_def no_delivery_def once_out_def
      outgoing_def)

lemma session_run_ok:
  "\<exists>s. session_runs_to G n acts (session_init saved scripts) = Some s \<and> session_ok s"
  using runs.acts_ok[OF session_ok_init, where G = G and n = n and as = acts and saved1 = saved and scripts1 = scripts] by (auto simp: ends_def session_runs_to_def)

text \<open>
  C1. Whatever is asked of a session and happens around it, in whatever order and from
  inside whatever it calls, it comes to an end: no optional is read unset, no walk
  over the refiners goes on for ever. While it is at work it has its settings, its
  microphone is on only while it starts, listens or stops, a running speech is in the
  phase the state shows, and a revision is up while it is reviewed.
\<close>

theorem every_session_run_returns:
  "\<exists>s. session_runs_to G n acts (session_init saved scripts) = Some s
     \<and> (se_state s \<in> {SIdle, SError, SDelivering} \<or> (\<exists>settings. se_settings s = Some settings))
     \<and> (se_microphone s = MicOff \<or> se_state s \<in> {SStarting, SListening, SStopping})
     \<and> (dt_settings s = None \<or> dt_phase s = IdlePhase \<or> se_state s = phase_state (dt_phase s))
     \<and> (se_state s \<in> - {SReviewing} \<or> (\<exists>r. ew_revision (se_review s) = Some r))"
proof -
  obtain s where s: "session_runs_to G n acts (session_init saved scripts) = Some s" "session_ok s"
    using session_run_ok by blast
  show ?thesis
    using s(1) session_okD(1,2,4,7)[OF s(2)] by (auto simp: speech_runs_now_def)
qed

text \<open>
  C2. The words of a session go out at most once: over a run, once words were said to
  be delivered in a generation, every delivery asked for and all words that go out
  afterwards are of a later generation.
\<close>

theorem words_go_out_once:
  "\<exists>s. session_runs_to G n acts (session_init saved scripts) = Some s
     \<and> sorted_wrt (\<lambda>x y. if is_out (snd x) then fst x < fst y else True) (outgoing (sx_log s))"
proof -
  obtain s where s: "session_runs_to G n acts (session_init saved scripts) = Some s" "session_ok s"
    using session_run_ok by blast
  have "sorted_wrt (\<lambda>x y. if is_out (snd x) then fst x < fst y else True) (outgoing (sx_log s))"
    using session_okD(19)[OF s(2)] by (simp add: once_out_def if_bool_eq_conj)
  thus ?thesis using s(1) by blast
qed

section \<open>After a cancelled session\<close>

text \<open>What starts a session.\<close>

definition starts_session :: "session_act \<Rightarrow> bool" where
  "starts_session a = (case a of
     Command (Toggle _) \<Rightarrow> True | Command (StartListening _) \<Rightarrow> True | _ \<Rightarrow> False)"

definition unstarted :: "session_act list \<Rightarrow> bool" where
  "unstarted acts \<longleftrightarrow> (\<forall>a\<in>set acts. \<not> starts_session a)"

text \<open>
  Asleep: no session, and nothing to come starts one. What leaves a session asleep,
  with nothing delivered meanwhile, is a step it sleeps through.
\<close>

definition asleep :: "session_run \<Rightarrow> bool" where
  "asleep s \<longleftrightarrow> session_ok s \<and> se_state s = SIdle \<and> (\<forall>script\<in>set (sx_scripts s). unstarted script)"

definition dozes :: "session_run \<Rightarrow> session_run \<Rightarrow> bool" where
  "dozes s s' \<longleftrightarrow> asleep s' \<and> outgoing (sx_log s') = outgoing (sx_log s)"

lemma dozes_trans: "dozes s t \<Longrightarrow> dozes t u \<Longrightarrow> dozes s u"
  by (simp add: dozes_def)

lemma dozes_calm: "asleep s \<Longrightarrow> calm s t \<Longrightarrow> set (sx_scripts t) \<subseteq> set (sx_scripts s) \<Longrightarrow> dozes s t"
  using session_ok_calm[of s t] by (auto simp: dozes_def asleep_def calm_fields)

definition scripts_left :: "session_run \<Rightarrow> session_run \<Rightarrow> bool" where
  "scripts_left s s' \<longleftrightarrow> set (sx_scripts s') \<subseteq> set (sx_scripts s)"

lemma scripts_left_trans: "scripts_left s t \<Longrightarrow> scripts_left t u \<Longrightarrow> scripts_left s u"
  by (auto simp: scripts_left_def)

lemma scripts_left_refl [simp]: "scripts_left s s"
  by (simp add: scripts_left_def)

lemma scripts_left_fields [simp]:
  "scripts_left (s\<lparr>se_microphone := x1\<rparr>) = scripts_left s" "scripts_left r (s\<lparr>se_microphone := x1\<rparr>) = scripts_left r s"
  "scripts_left (s\<lparr>se_held := x2\<rparr>) = scripts_left s" "scripts_left r (s\<lparr>se_held := x2\<rparr>) = scripts_left r s"
  "scripts_left (s\<lparr>se_generation := x3\<rparr>) = scripts_left s" "scripts_left r (s\<lparr>se_generation := x3\<rparr>) = scripts_left r s"
  "scripts_left (s\<lparr>se_chain := x4\<rparr>) = scripts_left s" "scripts_left r (s\<lparr>se_chain := x4\<rparr>) = scripts_left r s"
  "scripts_left r (s\<lparr>se_screenshot := x5\<rparr>) = scripts_left r s" "scripts_left r (s\<lparr>se_screenshot_type := x6\<rparr>) = scripts_left r s"
  "scripts_left r (s\<lparr>se_screenshot_generation := x7\<rparr>) = scripts_left r s" "scripts_left r (s\<lparr>se_settings := x8\<rparr>) = scripts_left r s"
  "scripts_left r (s\<lparr>se_target := x9\<rparr>) = scripts_left r s" "scripts_left r (s\<lparr>se_pipeline := y1\<rparr>) = scripts_left r s"
  "scripts_left r (s\<lparr>se_completion := y2\<rparr>) = scripts_left r s" "scripts_left (s\<lparr>se_completion := y2\<rparr>) = scripts_left s"
  "scripts_left (s\<lparr>se_refinement_generation := y3\<rparr>) = scripts_left s"
  "scripts_left r (s\<lparr>se_refinement_generation := y3\<rparr>) = scripts_left r s"
  "scripts_left r (s\<lparr>sx_refining := y4\<rparr>) = scripts_left r s"
  by (simp_all add: scripts_left_def fun_eq_iff)

lemma ends_both: "ends P m \<Longrightarrow> ends Q m \<Longrightarrow> ends (\<lambda>s. P s \<and> Q s) m"
  by (auto simp: ends_def)

text \<open>
  What a sleeping session's surroundings promise. They are those of a run whose
  scripts start nothing.
\<close>

locale sleeping_surroundings = session_surroundings +
  assumes keeps_quiet: "quiet_session_call c \<Longrightarrow> asleep s \<Longrightarrow> ends (dozes s) (sn_call E c s)"
    and keeps_heard: "heard_outside c \<Longrightarrow> \<not> is_out c \<Longrightarrow> asleep s \<Longrightarrow> ends (dozes s) (sn_call E c s)"
    and quiet_scripts: "quiet_session_call c \<or> c = SpeechCancel \<Longrightarrow> ends (scripts_left s) (sn_call E c s)"
    and refiner_scripts: "se_connection s = None \<or> se_refinement_generation s \<noteq> se_generation s \<Longrightarrow>
      ends (scripts_left s) (sn_call E (RefinerCancel r) s)"
begin

lemma doze_held: "asleep s \<Longrightarrow> ends (dozes s) (update_microphone_held E s)"
proof -
  assume s: "asleep s"
  have h: "asleep (s\<lparr>se_held := x\<rparr>)" "dozes (s\<lparr>se_held := x\<rparr>) = dozes s" for x
    using s by (simp_all add: asleep_def dozes_def fun_eq_iff)
  have "ends (dozes s) (sn_call E (MicrophoneChanged b) (s\<lparr>se_held := x\<rparr>))" for b x
    using keeps_quiet[of "MicrophoneChanged b" "s\<lparr>se_held := x\<rparr>"] h by simp
  moreover have "dozes s (s\<lparr>se_held := x\<rparr>)" for x using h(1)[of x] by (simp add: dozes_def)
  ultimately show ?thesis by (simp only: update_microphone_held_def Let_def ends_Some split: if_split) simp
qed

lemma doze_command: "asleep s \<Longrightarrow> \<not> starts_session (Command c) \<Longrightarrow> ends (dozes s) (session_command E c s)"
proof -
  assume s: "asleep s" and c: "\<not> starts_session (Command c)"
  have st: "se_state s = SIdle" and ok: "session_ok s" using s by (simp_all add: asleep_def)
  have still: "dozes s s" using s by (simp add: dozes_def)
  have off: "se_microphone s = MicOff" using ok_microphone_off[OF ok] st by simp
  note reach = reachability_ok[OF ok]
  have fields: "sx_scripts (set_reachability r s) = sx_scripts s" "se_state (set_reachability r s) = SIdle"
    "sx_log (set_reachability r s) = sx_log s" for r
    using st by (simp_all add: set_reachability_def chain_set_reachability_def Let_def)
  have keys: "ends (dozes s) (set_review_keys E keys s)" for keys
  proof -
    let ?t = "s\<lparr>se_review := (se_review s)\<lparr>ew_keys := keys\<rparr>\<rparr>"
    have t: "dozes s ?t"
      using s session_ok_reviewed[OF ok, of "(se_review s)\<lparr>ew_keys := keys\<rparr>"] by (simp add: dozes_def asleep_def)
    have "ends (dozes s) (emit_review E ?t)" if "ew_revision (se_review s) \<noteq> None"
      using that t keeps_heard[of "PopupReview v" ?t for v] dozes_trans
      by (fastforce simp: emit_review_def review_presentation_def dozes_def is_out_def elim: ends_mono)
    thus ?thesis using t by (simp add: set_review_keys_def review_set_keys_def review_is_up_def Let_def)
  qed
  show ?thesis
    using c still keys reach fields s st off
    by (cases c) (simp_all add: session_command_def starts_session_def stop_listening_def session_following_def
        cancel_for_shutdown_def cancel_session_def replace_selection_def pause_session_def resume_session_def
        toggle_pause_def continue_startup_def settings_saved_def dozes_def asleep_def)
qed

lemma doze_event: "asleep s \<Longrightarrow> ends (dozes s) (run_event E e s)"
proof -
  assume s: "asleep s"
  have st: "se_state s = SIdle" and ok: "session_ok s" using s by (simp_all add: asleep_def)
  have off: "se_microphone s = MicOff" using ok_microphone_off[OF ok] st by simp
  have idle: "chain_task (se_chain s) = None" "sx_refining s = None" using ok_unrefined[OF ok] st by simp_all
  have still: "dozes s s" using s by (simp add: dozes_def)
  have asked: "dozes s (s\<lparr>se_asked := remove1 q (se_asked s)\<rparr>)" for q
    using s session_ok_answered[OF ok] by (simp add: dozes_def asleep_def)
  have stale: "case q of AskStart g n \<Rightarrow> g \<noteq> se_generation s \<or> n \<noteq> se_step s | AskFocus n \<Rightarrow> n \<noteq> se_step s
      | AskSelection n \<Rightarrow> n \<noteq> se_step s" if "q \<in> set (se_asked s)" for q
    using session_okD(13)[OF ok] that st by (auto simp: list_all_iff ask_ok_def split: target_question.splits)
  show ?thesis
  proof (cases e)
    case MicrophoneStopped
    have "s\<lparr>se_microphone := MicOff\<rparr> = s" using off by simp
    hence "ends (dozes s) (update_microphone_held E (s\<lparr>se_microphone := MicOff\<rparr>))" using doze_held[OF s] by simp
    thus ?thesis using MicrophoneStopped off
      by (auto simp: run_event_def session_event_def microphone_stopped_def Let_def dozes_def asleep_def elim: ends_mono)
  next
    case (MicrophoneLevel level)
    have "ends (dozes s) (sn_call E (AudioLevelChanged level) s)" by (rule keeps_quiet[OF _ s]) simp
    thus ?thesis using MicrophoneLevel
      by (auto simp: run_event_def session_event_def hear_level_def dozes_def asleep_def elim: ends_mono)
  next
    case (TargetCaptured q t)
    thus ?thesis using still asked[of q] stale[of q]
      by (auto simp: run_event_def session_event_def target_captured_def Let_def selection_checked_def
          split: target_question.splits)
  next
    case (FocusMatched q focus)
    thus ?thesis using still asked[of q] stale[of q]
      by (auto simp: run_event_def session_event_def focus_matched_def Let_def selection_checked_def
          split: target_question.splits)
  next
    case (RefinerThreadEnds i w)
    obtain t r where t: "thread_finished i (rf_runner (se_chain s)) = (t, r)" by (rule prod.exhaust)
    have "t = None" using idle t
      by (cases t) (auto dest: chain_task_finished(1))
    hence "chain_task ((se_chain s)\<lparr>rf_runner := r\<rparr>) = None" using chain_task_finished(2) t idle by metis
    hence "session_ok (s\<lparr>se_chain := (se_chain s)\<lparr>rf_runner := r\<rparr>\<rparr>)"
      by (intro session_ok_runner[OF ok]) (use idle in simp_all)
    hence "dozes s (s\<lparr>se_chain := (se_chain s)\<lparr>rf_runner := r\<rparr>\<rparr>)" using s by (simp add: dozes_def asleep_def)
    thus ?thesis using RefinerThreadEnds t \<open>t = None\<close>
      by (simp add: run_event_def session_event_def rchain_thread_finished_def session_refinement_def rn_upd_def)
  next
    case (DeliveryAnswered result)
    have "ad_step (se_awaited s) \<noteq> se_step s" if "0 < se_unanswered s"
      using session_okD(17)[OF ok] session_okD(18)[OF ok that] st by auto
    thus ?thesis using DeliveryAnswered still session_ok_awaits[OF ok, of "se_unanswered s - 1"]
        session_ok_answers[OF ok, of "se_unanswered s - 1"] s
      by (simp add: run_event_def finish_delivery_def Let_def dozes_def asleep_def)
  next
    case (HideTimeout g)
    have "ends (dozes s) (sn_call E PopupHide s)" by (rule keeps_quiet[OF _ s]) simp
    thus ?thesis using HideTimeout still by (simp add: run_event_def session_event_def hide_timeout_def)
  qed (use s still st off idle microphone_ok[OF ok, of MicOff] in \<open>simp_all add: run_event_def session_event_def microphone_started_def
      microphone_failed_def hear_audio_def continue_startup_def completion_timeout_def screenshot_captured_def
      dozes_def asleep_def Let_def split: option.split\<close>)
qed

lemma doze_act: "asleep s \<Longrightarrow> \<not> starts_session a \<Longrightarrow> ends (dozes s) (session_act E a s)"
proof (cases a)
  case (Says signal)
  assume s: "asleep s"
  have "\<not> speech_runs_now s" using s ok_silent[of s] by (simp add: asleep_def)
  thus ?thesis using s Says by (simp add: session_act_def speech_says_def dozes_def)
qed (simp_all add: session_act_def doze_command doze_event)

lemma doze_acts: "asleep s \<Longrightarrow> unstarted as \<Longrightarrow> ends (dozes s) (session_acts E as s)"
proof (induction "as" arbitrary: s)
  case (Cons a as)
  have "ends (dozes s) (session_act E a s \<bind> session_acts E as)"
  proof (rule ends_then[OF doze_act])
    show "ends (dozes s) (session_acts E as t)" if "dozes s t" for t
      by (rule ends_mono[OF Cons.IH]) (use that Cons.prems(2) dozes_trans in \<open>auto simp: dozes_def unstarted_def\<close>)
  qed (use Cons.prems in \<open>simp_all add: unstarted_def\<close>)
  thus ?case by simp
qed (simp add: dozes_def)

text \<open>Cancelling, down to where the session sleeps.\<close>

lemma scripts_held: "ends (scripts_left s) (update_microphone_held E s)"
  using quiet_scripts[of "MicrophoneChanged b" "s\<lparr>se_held := x\<rparr>" for b x]
  by (simp add: update_microphone_held_def Let_def)

lemma scripts_abort: "ends (scripts_left s) (abort_microphone E s)"
proof -
  have "ends (scripts_left s) (if se_microphone s \<noteq> MicOff then sn_call E AudioAbort (s\<lparr>se_microphone := MicOff\<rparr>)
      else Some (s\<lparr>se_microphone := MicOff\<rparr>))"
    using quiet_scripts[of AudioAbort "s\<lparr>se_microphone := MicOff\<rparr>"] by simp
  thus ?thesis
    unfolding abort_microphone_def Let_def
    by (rule ends_then) (use scripts_left_trans in \<open>blast intro: ends_mono[OF scripts_held]\<close>)
qed

lemma scripts_clear: "ends (scripts_left s) (clear_screenshot E s)"
  using quiet_scripts[of ScreenshotCancel s] by (simp add: clear_screenshot_def)

lemma left_after: "quiet_session_call c \<or> c = SpeechCancel \<Longrightarrow> scripts_left s t \<Longrightarrow> ends (scripts_left s) (sn_call E c t)"
  by (rule ends_mono[OF quiet_scripts]) (auto intro: scripts_left_trans)

lemma scripts_discard:
  assumes "tossable s"
  shows "ends (scripts_left s) (discard E s)"
proof -
  let ?s = "s\<lparr>se_generation := Suc (se_generation s)\<rparr>"
  show ?thesis
    unfolding discard_def Let_def
  proof (rule ends_then[OF ends_both[OF calm_abort scripts_abort]],
      rule ends_then[OF ends_both[OF speech_cancels quiet_scripts]])
    fix t u
    assume t: "calm (?s\<lparr>se_microphone := MicOff\<rparr>) t \<and> scripts_left ?s t"
      and u: "calm (t\<lparr>dt_settings := None, dt_phase := IdlePhase\<rparr>) u \<and> scripts_left t u"
    let ?u = "u\<lparr>se_chain := rchain_cancel (se_chain u)\<rparr>"
    have conn: "se_connection ?u = None \<or> se_refinement_generation ?u \<noteq> se_generation ?u"
      using t u assms by (auto simp: calm_fields tossable_def)
    have left: "scripts_left s ?u" using t u scripts_left_trans by auto
    have "ends (scripts_left s) (case se_refiner ?u of None \<Rightarrow> Some ?u | Some r \<Rightarrow> sn_call E (RefinerCancel r) ?u)"
    proof (cases "se_refiner ?u")
      case (Some r)
      have "ends (scripts_left s) (sn_call E (RefinerCancel r) ?u)"
        by (rule ends_mono[OF refiner_scripts[OF conn]]) (rule scripts_left_trans[OF left])
      thus ?thesis using Some by simp
    qed (use left in simp)
    thus "ends (scripts_left s) ((case se_refiner ?u of None \<Rightarrow> Some ?u | Some r \<Rightarrow> sn_call E (RefinerCancel r) ?u)
        \<bind> (\<lambda>s. forget_session E (s\<lparr>se_refinement_generation := 0, se_completion := None\<rparr>) \<bind> sn_call E MediaResume))"
    proof (rule ends_then)
      fix v assume v: "scripts_left s v"
      have "ends (scripts_left s) (forget_session E (v\<lparr>se_refinement_generation := 0, se_completion := None\<rparr>))"
        unfolding forget_session_def
        by (rule ends_then[OF scripts_clear]) (use v scripts_left_trans in auto)
      thus "ends (scripts_left s) (forget_session E (v\<lparr>se_refinement_generation := 0, se_completion := None\<rparr>)
          \<bind> sn_call E MediaResume)"
        by (rule ends_then) (rule left_after, simp_all)
    qed
  qed simp
qed

lemma doze_quiet: "quiet_session_call c \<Longrightarrow> dozes s t \<Longrightarrow> ends (dozes s) (sn_call E c t)"
  by (rule ends_mono[OF keeps_quiet]) (auto simp: dozes_def)

lemma doze_heard: "heard_outside c \<Longrightarrow> \<not> is_out c \<Longrightarrow> dozes s t \<Longrightarrow> ends (dozes s) (sn_call E c t)"
  by (rule ends_mono[OF keeps_heard]) (auto simp: dozes_def)

lemma doze_listening: "asleep s \<Longrightarrow> ends (dozes s) (update_listening E s)"
proof -
  assume s: "asleep s"
  have h: "asleep (s\<lparr>se_listening := x\<rparr>)" "dozes (s\<lparr>se_listening := x\<rparr>) = dozes s" for x
    using s by (simp_all add: asleep_def dozes_def fun_eq_iff)
  have "ends (dozes s) (sn_call E (ListeningChanged b) (s\<lparr>se_listening := x\<rparr>))" for b x
    using keeps_quiet[of "ListeningChanged b" "s\<lparr>se_listening := x\<rparr>"] h by simp
  moreover have "dozes s (s\<lparr>se_listening := x\<rparr>)" for x using h(1)[of x] by (simp add: dozes_def)
  ultimately show ?thesis by (simp only: update_listening_def Let_def ends_Some split: if_split) simp
qed

text \<open>Entering Idle.\<close>

lemma falls_asleep:
  assumes e: "session_ok (entered t SIdle)" and scripts: "\<forall>script\<in>set (sx_scripts t). unstarted script"
  shows "ends (\<lambda>(step, s'). asleep s' \<and> outgoing (sx_log s') = outgoing (sx_log t)) (set_state E SIdle [] no_action t)"
proof -
  let ?t = "if se_state t = SListening then (t\<lparr>se_step := Suc (se_step t)\<rparr>)
      \<lparr>se_listening_ms := se_listening_ms t + int (at_now t - se_clock t)\<rparr> else t\<lparr>se_step := Suc (se_step t)\<rparr>"
  let ?u = "?t\<lparr>se_state := SIdle, se_message := []\<rparr>"
  have c: "calm (entered t SIdle) ?u" by (simp add: entered_def calm_fields log_grows_def)
  have sleep: "asleep ?u" using e session_ok_calm[OF c] scripts by (simp add: asleep_def)
  hence u: "dozes t ?u" by (simp add: dozes_def)
  have rest: "ends (dozes t) (if Suc (se_step t) \<noteq> se_step v then Some v else do {
        s \<leftarrow> sn_call E (StatusChanged label) v;
        s \<leftarrow> update_microphone_held E s;
        update_listening E s })" if v: "dozes t v" for v label
  proof (rule ends_if)
    show "ends (dozes t) (do {
        s \<leftarrow> sn_call E (StatusChanged label) v;
        s \<leftarrow> update_microphone_held E s;
        update_listening E s })"
    proof (rule ends_then[OF doze_heard[OF _ _ v]])
      fix w assume w: "dozes t w"
      have "ends (dozes t) (update_microphone_held E w)"
        by (rule ends_mono[OF doze_held]) (use w in \<open>auto simp: dozes_def\<close>)
      thus "ends (dozes t) (update_microphone_held E w \<bind> update_listening E)"
        by (rule ends_then) (rule ends_mono[OF doze_listening], auto simp: dozes_def)
    qed (simp_all add: is_out_def)
  qed (use v in simp)
  have first: "ends (dozes t) (sn_call E (StateChanged SIdle) ?u)"
    by (rule doze_heard[OF _ _ u]) (simp_all add: is_out_def)
  have "enter_state E SIdle [] no_action t = do {
      v \<leftarrow> sn_call E (StateChanged SIdle) ?u;
      v \<leftarrow> (if Suc (se_step t) \<noteq> se_step v then Some v else do {
        s \<leftarrow> sn_call E (StatusChanged (dictation_state_label (sn_upper E) SIdle [])) v;
        s \<leftarrow> update_microphone_held E s;
        update_listening E s });
      Some (Suc (se_step t), v) }"
    by (simp add: enter_state_def Let_def)
  moreover have "ends (\<lambda>(step, s'). dozes t s') (do {
      v \<leftarrow> sn_call E (StateChanged SIdle) ?u;
      v \<leftarrow> (if Suc (se_step t) \<noteq> se_step v then Some v else do {
        s \<leftarrow> sn_call E (StatusChanged (dictation_state_label (sn_upper E) SIdle [])) v;
        s \<leftarrow> update_microphone_held E s;
        update_listening E s });
      Some (Suc (se_step t), v) })"
    by (rule ends_then[OF first], rule ends_then[OF rest], assumption) simp
  ultimately show ?thesis by (simp only: set_state_def) (auto simp: dozes_def)
qed

lemma cancel_sleeps:
  assumes ok: "session_ok s" and st: "se_state s \<notin> {SIdle, SDelivering, SError}" "\<not> session_following s"
    and scripts: "\<forall>script\<in>set (sx_scripts s). unstarted script"
  shows "ends (dozes s) (cancel_session E s)"
proof -
  have gone: "session_ok (entered t SIdle)" "\<forall>script\<in>set (sx_scripts t). unstarted script"
      "outgoing (sx_log t) = outgoing (sx_log s)"
    if "tossable r" "calm (discarded r) t" "scripts_left r t" "sx_scripts r = sx_scripts s" "sx_log r = sx_log s" for r t
  proof -
    note f = calm_rests[OF that(1,2)]
    show "session_ok (entered t SIdle)" by (rule entered_ok) (use f in auto)
    show "\<forall>script\<in>set (sx_scripts t). unstarted script" using scripts that(3,4) by (auto simp: scripts_left_def)
    show "outgoing (sx_log t) = outgoing (sx_log s)" using that(2,5) by (simp add: calm_fields discarded_def)
  qed
  have dozed: "dozes s v" if "asleep v \<and> outgoing (sx_log v) = outgoing (sx_log t)" "outgoing (sx_log t) = outgoing (sx_log s)" for v t
    using that by (simp add: dozes_def)
  have reviewed: "ends (dozes s) (discard E r \<bind> end_quietly E)"
    if r: "r = s\<lparr>se_review := review_end (se_review s)\<rparr>" for r
  proof (rule ends_then[OF ends_both[OF calm_discard scripts_discard]])
    show toss: "tossable r" "tossable r" using ended_review_tossable[OF ok] r by simp_all
    fix t assume t: "calm (discarded r) t \<and> scripts_left r t"
    show "ends (dozes s) (end_quietly E t)"
      unfolding end_quietly_def announce_def
    proof (rule ends_then[OF ends_both[OF quiet quiet_scripts]])
      fix u assume u: "calm t u \<and> scripts_left t u"
      have "calm (discarded r) u" "scripts_left r u" using t u calm_trans scripts_left_trans by blast+
      note g = gone[OF toss(1) this]
      show "ends (dozes s) (set_state E SIdle [] no_action u \<bind> (\<lambda>(step, s). Some s))"
        by (rule ends_then2[OF falls_asleep]) (use g r dozed in auto)
    qed simp_all
  qed
  have working: "ends (dozes s) (discard E s \<bind> (\<lambda>s. set_state E SIdle [] no_action s \<bind> (\<lambda>(step, s).
        if step \<noteq> se_step s then Some s else do {
           s \<leftarrow> sn_call E (PopupMessage cancelled_outcome_text OutcomeCancelled no_action) s;
           sn_call E (HideTimer (os_completion_ms (ss_output (se_saved s))) (se_generation s)) s })))"
  proof (rule ends_then[OF ends_both[OF calm_discard scripts_discard]])
    show toss: "tossable s" "tossable s" using ok_tossable[OF ok] by simp_all
    fix t assume t: "calm (discarded s) t \<and> scripts_left s t"
    note g = gone[OF toss(1), of t]
    show "ends (dozes s) (set_state E SIdle [] no_action t \<bind> (\<lambda>(step, s).
        if step \<noteq> se_step s then Some s else do {
           s \<leftarrow> sn_call E (PopupMessage cancelled_outcome_text OutcomeCancelled no_action) s;
           sn_call E (HideTimer (os_completion_ms (ss_output (se_saved s))) (se_generation s)) s }))"
    proof (rule ends_then2[OF falls_asleep])
      fix step v assume "asleep v \<and> outgoing (sx_log v) = outgoing (sx_log t)"
      hence v: "dozes s v" using g(3) t by (simp add: dozes_def)
      have "ends (dozes s) (sn_call E (PopupMessage cancelled_outcome_text OutcomeCancelled no_action) v
          \<bind> (\<lambda>s. sn_call E (HideTimer (os_completion_ms (ss_output (se_saved s))) (se_generation s)) s))"
        by (rule ends_then[OF doze_quiet[OF _ v]]) (auto intro: doze_quiet)
      thus "ends (dozes s) (if step \<noteq> se_step v then Some v else do {
           s \<leftarrow> sn_call E (PopupMessage cancelled_outcome_text OutcomeCancelled no_action) v;
           sn_call E (HideTimer (os_completion_ms (ss_output (se_saved s))) (se_generation s)) s })"
        using v by simp
    qed (use g t in simp_all)
  qed
  show ?thesis
    using st reviewed[OF refl] working by (simp add: cancel_session_def del: ends_bind)
qed

end

text \<open>Runs are such surroundings.\<close>

lemma logged_asleep: "asleep s \<Longrightarrow> \<not> is_delivery c \<Longrightarrow> dozes s (logged c s)"
  by (rule dozes_calm[OF _ logged_calm]) (simp_all add: logged_def)

lemma popped_asleep: "asleep s \<Longrightarrow> sx_scripts s = script # rest \<Longrightarrow> dozes s (s\<lparr>sx_scripts := rest\<rparr>) \<and> unstarted script"
  by (auto simp: dozes_def asleep_def)

lemma reactions_let_sleep:
  assumes "session_surroundings (run_session_env G R)"
    and keeps: "\<And>c s. asleep s \<Longrightarrow> ends (dozes s) (R c s)"
    and left: "\<And>c s. quiet_session_call c \<Longrightarrow> ends (scripts_left s) (R c s)"
    and stale: "\<And>r s. se_connection s = None \<or> se_refinement_generation s \<noteq> se_generation s \<Longrightarrow>
      ends (scripts_left s) (R (RefinerCancel r) s)"
  shows "sleeping_surroundings (run_session_env G R)"
proof (intro sleeping_surroundings.intro sleeping_surroundings_axioms.intro)
  have dozes: "ends (dozes s) (R c (logged c s))" if "asleep s" "\<not> is_delivery c" for c s
    by (rule ends_mono[OF keeps]) (use logged_asleep[OF that] dozes_trans in \<open>auto simp: dozes_def\<close>)
  have scripts: "scripts_left (logged c s) = scripts_left s" for c s
    by (simp add: logged_def scripts_left_def fun_eq_iff)
  have call: "sn_call (run_session_env G R) = run_call R" by (simp add: run_session_env_def)
  show "ends (dozes s) (sn_call (run_session_env G R) c s)" if c: "quiet_session_call c" "asleep s" for c s
  proof -
    have "\<not> is_delivery c" using c by (cases c) (simp_all add: is_delivery_def is_out_def)
    thus ?thesis using c dozes by (simp add: call run_call_plain)
  qed
  show "ends (dozes s) (sn_call (run_session_env G R) c s)" if c: "heard_outside c" "\<not> is_out c" "asleep s" for c s
  proof -
    have "\<not> is_delivery c" using c by (cases c) (simp_all add: is_delivery_def is_out_def)
    thus ?thesis using c dozes by (simp add: call run_call_plain)
  qed
  show "ends (scripts_left s) (sn_call (run_session_env G R) c s)" if c: "quiet_session_call c \<or> c = SpeechCancel" for c s
  proof (cases "c = SpeechCancel")
    case True
    thus ?thesis by (simp add: call run_call_def Let_def logged_def scripts_left_def)
  next
    case False
    thus ?thesis using c left[of c "logged c s"] scripts by (simp add: call run_call_plain)
  qed
  show "ends (scripts_left s) (sn_call (run_session_env G R) (RefinerCancel r) s)"
    if "se_connection s = None \<or> se_refinement_generation s \<noteq> se_generation s" for s r
  proof -
    have "ends (scripts_left s) (R (RefinerCancel r) (logged (RefinerCancel r) s))"
      using stale[of "logged (RefinerCancel r) s" r] that scripts by (simp add: logged_def)
    thus ?thesis by (simp add: call run_call_def Let_def)
  qed
qed (rule assms(1))

lemma runs_let_sleep: "sleeping_surroundings (run_session_env G (session_react G n))"
proof (induction n)
  case 0
  show ?case
    by (rule reactions_let_sleep[OF runs_surround]) (simp_all add: dozes_def scripts_left_def)
next
  case (Suc n)
  show ?case
  proof (rule reactions_let_sleep[OF runs_surround], goal_cases)
    case (1 c s)
    show ?case
    proof (cases "sx_scripts s")
      case (Cons script rest)
      note p = popped_asleep[OF 1 Cons]
      have "unstarted (filter (may_lead_to c) script)" using p by (simp add: unstarted_def)
      hence "ends (dozes (s\<lparr>sx_scripts := rest\<rparr>)) (session_acts (run_session_env G (session_react G n))
          (filter (may_lead_to c) script) (s\<lparr>sx_scripts := rest\<rparr>))"
        using p sleeping_surroundings.doze_acts[OF Suc, of "s\<lparr>sx_scripts := rest\<rparr>"] by (simp add: dozes_def)
      thus ?thesis using Cons by (auto simp: dozes_def elim: ends_mono)
    qed (use 1 in \<open>simp add: dozes_def\<close>)
  next
    case (2 c s)
    thus ?case using quiet_leads_to_nothing(1) by (cases "sx_scripts s") (auto simp: scripts_left_def)
  next
    case (3 r s)
    show ?case
    proof (cases "sx_scripts s")
      case (Cons script rest)
      have all: "list_all (\<lambda>a. case a of Event (RefinerSends _ _) \<Rightarrow> True | _ \<Rightarrow> False) (filter (may_lead_to (RefinerCancel r)) script)"
        by (auto simp: list_all_iff split: session_act.splits session_event.splits)
      have "session_acts (run_session_env G (session_react G n)) (filter (may_lead_to (RefinerCancel r)) script)
          (s\<lparr>sx_scripts := rest\<rparr>) \<in> {Some (s\<lparr>sx_scripts := rest\<rparr>), Some (s\<lparr>sx_scripts := rest, sx_refining := None\<rparr>)}"
        using stale_refiner_acts[OF _ all, of "s\<lparr>sx_scripts := rest\<rparr>" "run_session_env G (session_react G n)"] 3 by auto
      thus ?thesis using Cons by (auto simp: scripts_left_def ends_def)
    qed simp
  qed
qed

interpretation sleep: sleeping_surroundings "run_session_env G (session_react G n)" for G n
  by (rule runs_let_sleep)

text \<open>
  C3. A session that is cancelled delivers nothing. If nothing to come starts another,
  neither what still reaches the session afterwards (a late answer of its refiner or
  of the platform, its microphone, its speech, its timers) nor a handler of what it
  announces leads to a delivery or to words that go out; it is Idle and stays Idle.
\<close>

theorem cancelled_session_delivers_nothing:
  assumes "session_runs_to G n before (session_init saved scripts) = Some s"
    and "se_state s \<in> {SStarting, SListening, SPaused, SStopping, SRefining, SReviewing}" "\<not> session_following s"
    and "\<forall>script\<in>set (sx_scripts s). unstarted script" "unstarted acts"
  shows "\<exists>s'. session_runs_to G n (Command CancelSession # acts) s = Some s'
     \<and> se_state s' = SIdle \<and> outgoing (sx_log s') = outgoing (sx_log s)"
proof -
  let ?E = "run_session_env G (session_react G n)"
  have "session_ok s" using session_run_ok[of G n before saved scripts] assms(1) by auto
  hence "ends (dozes s) (cancel_session ?E s)"
    by (rule sleep.cancel_sleeps) (use assms(2-4) in auto)
  hence "ends (dozes s) (cancel_session ?E s \<bind> session_acts ?E acts)"
    by (rule ends_then)
      (rule ends_mono[OF sleep.doze_acts[OF _ assms(5)]], auto simp: dozes_def)
  thus ?thesis
    by (auto simp: ends_def session_runs_to_def session_act_def session_command_def dozes_def asleep_def)
qed

text \<open>A world of ASCII texts that offers Claude Voice and no refiner.\<close>

definition example_session_world :: session_world where
  "example_session_world = \<lparr>gw_lib = example_lib, gw_shape = \<lparr>sh_chars = ascii, sh_boundaries = (\<lambda>s. [length s]),
       sh_script = (\<lambda>c. OtherScript), sh_glyphs = ascii_glyphs\<rparr>,
     gw_upper = (\<lambda>s. s), gw_labels = (\<lambda>r i. i), gw_date = [], gw_time = [], gw_reads_target = True,
     gw_takes_screenshots = False, gw_offers_speech = (\<lambda>i. i = ''claude''), gw_offers_refiner = (\<lambda>i. None),
     gw_reads_screenshots = (\<lambda>i. False), gw_refresh_job = (\<lambda>n r a. None), gw_prepare = (\<lambda>n r a. None)\<rparr>"

lemmas lone_eval = session_runs_to_def session_act_def session_command_def toggle_session_def start_session_def
  begin_session_def set_state_def enter_state_def update_microphone_held_def update_listening_def run_session_env_def
  run_call_def logged_def ts_clear_def transcript_changed_def session_following_def no_review_def session_init_def
  dict_begin_def attempts_forget_def Let_def no_overrides_def with_overrides_def

lemma example_session_starts:
  "\<exists>s. session_runs_to example_session_world 0 [Command (Toggle no_overrides)]
      (session_init default_session_settings []) = Some s
    \<and> se_state s = SStarting \<and> \<not> session_following s \<and> sx_scripts s = []"
  by (simp add: lone_eval)

lemma cancelled_session_delivers_nothing_witness:
  "\<exists>s s'. session_runs_to example_session_world 0 [Command (Toggle no_overrides)]
      (session_init default_session_settings []) = Some s
    \<and> session_runs_to example_session_world 0 [Command CancelSession, Command (PopupPresented 1),
        Event (TargetCaptured (AskStart 1 1) no_target), Event MicrophoneStarted] s = Some s'
    \<and> se_state s' = SIdle \<and> outgoing (sx_log s') = outgoing (sx_log s)"
proof -
  obtain s where s: "session_runs_to example_session_world 0 [Command (Toggle no_overrides)]
      (session_init default_session_settings []) = Some s" "se_state s = SStarting" "\<not> session_following s" "sx_scripts s = []"
    using example_session_starts by blast
  have "unstarted [Command (PopupPresented 1), Event (TargetCaptured (AskStart 1 1) no_target), Event MicrophoneStarted]"
    by (simp add: unstarted_def starts_session_def)
  thus ?thesis using cancelled_session_delivers_nothing[OF s(1)] s by simp
qed

section \<open>Follow-ups\<close>

text \<open>A call that sets nothing off.\<close>

lemma lone_reaction: "sx_scripts s = [] \<Longrightarrow> session_react G n c s = Some s"
  by (cases n) simp_all

text \<open>What stays as it was while nothing else reaches the session.\<close>

definition alone :: "session_run \<Rightarrow> session_run \<Rightarrow> bool" where
  "alone s s' \<longleftrightarrow> sx_scripts s' = [] \<and> se_review s' = se_review s \<and> outgoing (sx_log s') = outgoing (sx_log s)
     \<and> se_state s' = se_state s \<and> se_step s' = se_step s \<and> se_settings s' = se_settings s \<and> se_target s' = se_target s"

lemma alone_trans: "alone s t \<Longrightarrow> alone t u \<Longrightarrow> alone s u"
  by (simp add: alone_def)

lemma alone_fields [simp]:
  "alone r (s\<lparr>se_held := x1\<rparr>) = alone r s" "alone (s\<lparr>se_held := x1\<rparr>) = alone s"
  "alone r (s\<lparr>se_listening := x2\<rparr>) = alone r s" "alone (s\<lparr>se_listening := x2\<rparr>) = alone s"
  "alone r (s\<lparr>se_microphone := x3\<rparr>) = alone r s" "alone (s\<lparr>se_microphone := x3\<rparr>) = alone s"
  "alone r (s\<lparr>se_screenshot := x4\<rparr>) = alone r s" "alone r (s\<lparr>se_screenshot_type := x5\<rparr>) = alone r s"
  "alone r (s\<lparr>se_screenshot_generation := x6\<rparr>) = alone r s" "alone (s\<lparr>se_generation := x7\<rparr>) = alone s"
  "alone r (s\<lparr>se_chain := x8\<rparr>) = alone r s" "alone r (s\<lparr>se_refinement_generation := x9\<rparr>) = alone r s"
  "alone r (s\<lparr>se_completion := y1\<rparr>) = alone r s" "alone r (s\<lparr>sx_refining := y2\<rparr>) = alone r s"
  "alone r (s\<lparr>dt_settings := y3, dt_phase := y4\<rparr>) = alone r s" "alone r (s\<lparr>se_generation := x7\<rparr>) = alone r s"
  "alone (s\<lparr>se_completion := y1\<rparr>) = alone s"
  by (simp_all add: alone_def fun_eq_iff)

lemma alone_logged: "sx_scripts s = [] \<Longrightarrow> \<not> is_delivery c \<Longrightarrow> alone s (logged c s)"
  by (simp add: alone_def outgoing_logged) (simp add: logged_def)

lemma alone_call:
  assumes "sx_scripts t = []" "quiet_session_call c \<or> heard_outside c \<and> \<not> is_out c"
  shows "ends (alone t) (sn_call (run_session_env G (session_react G n)) c t)"
proof -
  have c: "\<not> is_delivery c" using assms(2) by (cases c) (simp_all add: is_delivery_def is_out_def)
  have "sn_call (run_session_env G (session_react G n)) c t = session_react G n c (logged c t)"
    using assms(2) run_call_plain[of c] by (auto simp: run_session_env_def)
  also have "\<dots> = Some (logged c t)" by (rule lone_reaction) (simp add: assms(1) logged_def)
  finally show ?thesis using alone_logged[OF assms(1) c] by simp
qed

lemma alone_speech: "sx_scripts s = [] \<Longrightarrow>
    ends (alone s) (sn_call (run_session_env G (session_react G n)) SpeechCancel s)"
  using alone_logged[of s SpeechCancel]
  by (simp add: run_session_env_def run_call_def Let_def is_delivery_def is_out_def)

lemma alone_refiner: "sx_scripts s = [] \<Longrightarrow>
    ends (alone s) (sn_call (run_session_env G (session_react G n)) (RefinerCancel r) s)"
  using alone_logged[of s "RefinerCancel r"] lone_reaction[of "logged (RefinerCancel r) s" G n]
  by (simp add: run_session_env_def run_call_def Let_def is_delivery_def is_out_def logged_def)

lemma alone_next: "alone s t \<Longrightarrow> quiet_session_call c \<or> heard_outside c \<and> \<not> is_out c \<Longrightarrow>
    ends (alone s) (sn_call (run_session_env G (session_react G n)) c t)"
  by (rule ends_mono[OF alone_call]) (auto simp: alone_def)

lemma alone_refl: "sx_scripts s = [] \<Longrightarrow> alone s s"
  by (simp add: alone_def)

lemma alone_held: "alone s t \<Longrightarrow> ends (alone s) (update_microphone_held (run_session_env G (session_react G n)) t)"
  by (simp add: update_microphone_held_def Let_def alone_next)

lemma alone_listening: "alone s t \<Longrightarrow> ends (alone s) (update_listening (run_session_env G (session_react G n)) t)"
  by (simp add: update_listening_def Let_def alone_next)

lemma alone_abort: "alone s t \<Longrightarrow> ends (alone s) (abort_microphone (run_session_env G (session_react G n)) t)"
  unfolding abort_microphone_def Let_def
  by (rule ends_then[of "alone s"]) (simp_all add: alone_next alone_held)

lemma alone_clear: "alone s t \<Longrightarrow> ends (alone s) (clear_screenshot (run_session_env G (session_react G n)) t)"
  unfolding clear_screenshot_def
  by (rule ends_then[of "alone s"]) (simp_all add: alone_next)

text \<open>Back in the review.\<close>

lemma alone_returns:
  assumes "sx_scripts t = []" "ew_revision (se_review t) = Some r"
  shows "ends (\<lambda>s'. se_state s' = SReviewing \<and> ew_revision (se_review s') = Some r \<and> \<not> session_following s'
      \<and> se_settings s' = Some (rvn_settings r) \<and> se_target s' = rvn_target r
      \<and> outgoing (sx_log s') = outgoing (sx_log t)) (return_to_review (run_session_env G (session_react G n)) t)"
proof -
  let ?E = "run_session_env G (session_react G n)"
  let ?t = "t\<lparr>se_review := review_end_follow_up (se_review t), se_refinement_generation := 0,
       se_target := rvn_target r, se_settings := Some (rvn_settings r),
       se_choices := rvn_choices r, se_pipeline := rvn_pipeline r, se_used_raw := False,
       se_warning := rvn_warning r, se_history := rvn_history r\<rparr>"
  let ?a = "if se_state ?t = SListening
      then (?t\<lparr>se_step := Suc (se_step ?t)\<rparr>)\<lparr>se_listening_ms := se_listening_ms ?t + int (at_now ?t - se_clock ?t)\<rparr>
      else ?t\<lparr>se_step := Suc (se_step ?t)\<rparr>"
  define u where "u = ?a\<lparr>se_state := SReviewing, se_message := []\<rparr>"
  have u: "sx_scripts u = []" "se_state u = SReviewing" "se_step u = Suc (se_step t)"
    "ew_revision (se_review u) = Some r" "\<not> ew_following (se_review u)" "se_settings u = Some (rvn_settings r)"
    "se_target u = rvn_target r" "sx_log u = sx_log t"
    using assms by (simp_all add: u_def review_end_follow_up_def)
  note a = alone_refl[OF u(1)]
  have "ends (alone u) (if Suc (se_step t) \<noteq> se_step v then Some v else do {
        s \<leftarrow> sn_call ?E (StatusChanged label) v;
        s \<leftarrow> update_microphone_held ?E s;
        update_listening ?E s })" if "alone u v" for v label
    using that by (intro ends_if ends_then[OF alone_next] ends_then[OF alone_held] alone_listening) (simp_all add: is_out_def)
  note rest = this
  have entered: "enter_state ?E SReviewing [] no_action ?t = do {
      v \<leftarrow> sn_call ?E (StateChanged SReviewing) u;
      v \<leftarrow> (if Suc (se_step t) \<noteq> se_step v then Some v else do {
        s \<leftarrow> sn_call ?E (StatusChanged (dictation_state_label (sn_upper ?E) SReviewing [])) v;
        s \<leftarrow> update_microphone_held ?E s;
        update_listening ?E s });
      Some (Suc (se_step t), v) }"
    by (simp add: enter_state_def Let_def u_def)
  have enters: "ends (\<lambda>(step, v). step = Suc (se_step t) \<and> alone u v) (enter_state ?E SReviewing [] no_action ?t)"
    unfolding entered
    by (rule ends_then[OF alone_next[OF a]], simp add: is_out_def, rule ends_then[OF rest], assumption) simp
  have shows_it: "ends (alone u) (emit_review ?E v)" if "alone u v" for v
    using that u(4) by (auto simp: emit_review_def review_presentation_def alone_def is_out_def intro!: ends_mono[OF alone_call])
  have "ends (alone u) (enter_review ?E ?t)"
    unfolding enter_review_def Let_def
    by (rule ends_then2[OF enters]) (use shows_it u(3) in \<open>auto simp: alone_def\<close>)
  thus ?thesis
    using assms u by (auto simp: return_to_review_def alone_def session_following_def review_end_follow_up_def elim!: ends_mono)
qed

text \<open>
  C4. A follow-up that fails or is cancelled, with nothing else reaching the session
  meanwhile, goes back to its review: the edit under review, its settings and its
  target are what they were, the session no longer follows up, and nothing is
  delivered.
\<close>

theorem failed_follow_up_keeps_the_edit:
  assumes "sx_scripts s = []" "session_following s" "ew_revision (se_review s) = Some r"
    and "se_state s \<in> {SStarting, SListening, SPaused, SStopping, SRefining}"
    and "run = (if cancelled then cancel_session (run_session_env G (session_react G n)) s
      else fail_session (run_session_env G (session_react G n)) message fixing s)"
  shows "\<exists>s'. run = Some s' \<and> se_state s' = SReviewing \<and> ew_revision (se_review s') = Some r
     \<and> \<not> session_following s' \<and> se_settings s' = Some (rvn_settings r) \<and> se_target s' = rvn_target r
     \<and> outgoing (sx_log s') = outgoing (sx_log s)"
proof -
  let ?E = "run_session_env G (session_react G n)"
  let ?P = "\<lambda>s'. se_state s' = SReviewing \<and> ew_revision (se_review s') = Some r
     \<and> \<not> session_following s' \<and> se_settings s' = Some (rvn_settings r) \<and> se_target s' = rvn_target r
     \<and> outgoing (sx_log s') = outgoing (sx_log s)"
  let ?kept = "\<lambda>t. sx_scripts t = [] \<and> se_review t = se_review s \<and> outgoing (sx_log t) = outgoing (sx_log s)"
  have a: "alone s s" using assms(1) by (rule alone_refl)
  have returns: "ends ?P (return_to_review ?E t)" if "?kept t" for t
    using alone_returns[of t r G n] that assms(3) by simp
  have "ends ?kept (discard ?E s)"
  proof -
    let ?s = "s\<lparr>se_generation := Suc (se_generation s)\<rparr>"
    have refiner: "ends (alone s) (case se_refiner t of None \<Rightarrow> Some t | Some r \<Rightarrow> sn_call ?E (RefinerCancel r) t)"
      if "alone s t" for t
      using that by (auto split: option.split intro!: ends_mono[OF alone_refiner] simp: alone_def)
    have speech: "ends (alone s) (sn_call ?E SpeechCancel t)" if "alone s t" for t
      using that by (auto intro!: ends_mono[OF alone_speech] simp: alone_def)
    have rest: "ends ?kept (forget_session ?E (t\<lparr>se_refinement_generation := 0, se_completion := None\<rparr>) \<bind> sn_call ?E MediaResume)"
      if "alone s t" for t
    proof (rule ends_then[of ?kept])
      show "ends ?kept (forget_session ?E (t\<lparr>se_refinement_generation := 0, se_completion := None\<rparr>))"
        unfolding forget_session_def
        by (rule ends_then[OF alone_clear[of s]]) (use that in \<open>simp_all add: alone_def\<close>)
      show "ends ?kept (sn_call ?E MediaResume u)" if "?kept u" for u
        by (rule ends_mono[OF alone_call]) (use that in \<open>auto simp: alone_def\<close>)
    qed
    show ?thesis
      unfolding discard_def Let_def
      by (rule ends_then[OF alone_abort[of s]], use a in simp, rule ends_then[OF speech], assumption,
          rule ends_then[OF refiner], simp, rule rest)
  qed
  hence cancelled: "ends ?P (cancel_session ?E s)"
    using assms(2,4) returns by (auto simp: cancel_session_def elim!: ends_mono)
  have "ends ?kept (abort_microphone ?E s \<bind> (\<lambda>s. clear_screenshot ?E s \<bind> (\<lambda>s. sn_call ?E MediaResume (s\<lparr>se_settings := None\<rparr>))))"
    by (rule ends_then[OF alone_abort[OF a]], rule ends_then[OF alone_clear], assumption,
        rule ends_mono[OF alone_call]) (auto simp: alone_def)
  moreover have "ends ?P (announce ?E SError message fixing t)" if "?kept t" for t
    using returns[of "t\<lparr>se_step := Suc (se_step t)\<rparr>"] that assms(2)
    by (auto simp: announce_def set_state_def Let_def session_following_def elim: ends_mono)
  ultimately have failed: "ends ?P (fail_session ?E message fixing s)"
    by (auto simp: fail_session_def elim!: ends_mono)
  show ?thesis using cancelled failed assms(5) by (auto simp: ends_def)
qed

definition example_revision :: revision where
  "example_revision = \<lparr>rvn_edit = ''new words'', rvn_instructions = [''shorter''], rvn_target = no_target,
     rvn_settings = default_session_settings, rvn_choices = no_choices, rvn_pipeline = no_pipeline,
     rvn_warning = [], rvn_history = no_history, rvn_words = 1, rvn_listening_ms = 900\<rparr>"

lemma failed_follow_up_keeps_the_edit_witness:
  "\<exists>s'. cancel_session (run_session_env example_session_world (session_react example_session_world 0))
      ((session_init default_session_settings [])\<lparr>se_state := SListening,
         se_review := \<lparr>ew_revision = Some example_revision, ew_following = True, ew_keys = ew_keys no_review\<rparr>\<rparr>) = Some s'
    \<and> se_state s' = SReviewing \<and> ew_revision (se_review s') = Some example_revision \<and> \<not> session_following s'"
  using failed_follow_up_keeps_the_edit[OF _ _ _ _ refl, of "(session_init default_session_settings [])\<lparr>se_state := SListening,
         se_review := \<lparr>ew_revision = Some example_revision, ew_following = True, ew_keys = ew_keys no_review\<rparr>\<rparr>"
      example_revision True example_session_world 0]
  by (auto simp: session_init_def session_following_def)

end
