(* ===== verification/Text_Delivery.thy ===== *)
theory Text_Delivery
  imports Pipeline
begin

text \<open>
  output/TextDelivery.cpp and core/OutputMethod.cpp: how a text gets into an app.
  A delivery saves the clipboard, copies, then inserts straight into the app or
  presses the paste keys, and puts the clipboard back once the words were seen
  there; TextDelivery runs one at a time, in the order they were asked for.

  A step of a run calls out (the target provider, the clipboard, a backend) last,
  and goes on from the answer; a call answered before it returns is an answer
  that comes next. The record \<open>delivery_world\<close> is what those calls return at once,
  each a function of what the run did so far, the call included. \<open>dw_destroys\<close> says
  after which call the delivery is gone: the step it was made in still runs to its end. The
  count of frames (\<open>m_frames\<close>) is when the event loop may delete an answered run.
\<close>

section \<open>Output methods\<close>

datatype delivery_platform = OnLinux | OnMac | OnWindows

definition output_methods :: "qstring list" where
  "output_methods = [''automatic'', ''direct_insert'', ''ydotool'', ''wl-copy'', ''mac-paste'', ''win-paste'',
     ''qt-clipboard'']"

definition valid_output_method :: "qstring \<Rightarrow> bool" where
  "valid_output_method m \<longleftrightarrow> m \<in> set output_methods"

definition normalized_output_method :: "qstring \<Rightarrow> qstring" where
  "normalized_output_method m =
     (if m = ''clipboard'' then ''wl-copy''
      else if m = ''qt'' then ''qt-clipboard''
      else if m = ''wtype'' then ''automatic''
      else if valid_output_method m then m else ''automatic'')"

definition output_method_label :: "qstring \<Rightarrow> qstring" where
  "output_method_label m =
     (let v = normalized_output_method m in
      if v = ''ydotool'' then ''Virtual keyboard only''
      else if v = ''mac-paste'' then ''Cmd+V only''
      else if v = ''win-paste'' then ''Ctrl+V only''
      else ''Automatic'')"

definition has_virtual_keyboard :: "delivery_platform \<Rightarrow> bool" where
  "has_virtual_keyboard p \<longleftrightarrow> p = OnLinux"

record insertion =
  di_requested :: bool
  di_only :: bool

definition direct_insertion :: "qstring \<Rightarrow> paste_method \<Rightarrow> insertion" where
  "direct_insertion method m =
     (if m = ClipboardOnly then \<lparr>di_requested = False, di_only = False\<rparr>
      else let asked = (m = DirectInsert \<or> method = ''direct_insert'')
           in \<lparr>di_requested = asked \<or> method = ''automatic'', di_only = asked\<rparr>)"

definition presses_paste_keys :: "qstring \<Rightarrow> bool" where
  "presses_paste_keys m \<longleftrightarrow> m = ''ydotool'' \<or> m = ''mac-paste'' \<or> m = ''win-paste''"

definition ordered_methods :: "delivery_platform \<Rightarrow> output_settings \<Rightarrow> paste_method \<Rightarrow> qstring list" where
  "ordered_methods p s pm =
     (let m = normalized_output_method (os_method s) in
      case p of
        OnMac \<Rightarrow>
          if m = ''automatic'' then (if pm \<noteq> ClipboardOnly then [''mac-paste''] else []) @ [''qt-clipboard'']
          else if m = ''mac-paste'' \<and> pm = ClipboardOnly then [''qt-clipboard'']
          else [m]
      | OnWindows \<Rightarrow>
          if m = ''automatic'' then (if pm = ClipboardOnly then [''qt-clipboard''] else [''win-paste'', ''qt-clipboard''])
          else if m = ''win-paste'' \<and> pm = ClipboardOnly then [''qt-clipboard'']
          else [m]
      | OnLinux \<Rightarrow>
          if m = ''automatic''
          then (if pm \<noteq> ClipboardOnly \<and> os_ydotool s then [''ydotool''] else []) @ [''wl-copy'', ''qt-clipboard'']
          else if m = ''ydotool'' \<and> (\<not> os_ydotool s \<or> pm = ClipboardOnly) then [''wl-copy'', ''qt-clipboard'']
          else [m])"

text \<open>orderedMethods without a paste method.\<close>

definition standard_methods :: "delivery_platform \<Rightarrow> output_settings \<Rightarrow> qstring list" where
  "standard_methods p s = ordered_methods p s StandardPaste"

record paste_choice =
  pc_method :: paste_method
  pc_blind :: bool

definition choose_paste_method :: "qchars \<Rightarrow> output_settings \<Rightarrow> target \<Rightarrow> paste_choice" where
  "choose_paste_method q s t =
     (let r = resolve_paste_rule q (os_paste_rules s) t;
          trackable = (has_identity t \<or> tg_accessible t);
          blind = (\<not> trackable \<and> pr_scope r = GlobalScope
                   \<and> (pr_method r = StandardPaste \<or> pr_method r = TerminalPaste));
          pastes = (\<not> tg_secure t \<and> (trackable \<or> blind))
      in \<lparr>pc_method = (if pastes then pr_method r else ClipboardOnly), pc_blind = blind\<rparr>)"

fun add_steps :: "qstring list \<Rightarrow> qstring list \<Rightarrow> qstring list" where
  "add_steps route [] = route"
| "add_steps route (m # ms) =
     (let step = (if presses_paste_keys m then ''press'' else ''copy'')
      in add_steps (if step \<in> set route then route else route @ [step]) ms)"

definition paste_route :: "delivery_platform \<Rightarrow> output_settings \<Rightarrow> paste_method \<Rightarrow> qstring list" where
  "paste_route p s pm =
     (if pm = ClipboardOnly then [''copy'']
      else let i = direct_insertion (normalized_output_method (os_method s)) pm;
               route = (if di_requested i then [''insert''] else [])
           in if di_only i then route @ [''copy''] else add_steps route (ordered_methods p s pm))"

datatype paste_need = NeedsNothing | NeedsAccessibility | NeedsVirtualKeyboard | NeedsEither

definition paste_need_of :: "delivery_platform \<Rightarrow> output_settings \<Rightarrow> paste_method \<Rightarrow> paste_need" where
  "paste_need_of p s pm =
     (if pm = ClipboardOnly then NeedsNothing
      else if p = OnMac then NeedsAccessibility
      else if pm = DirectInsert then NeedsAccessibility
      else if \<not> has_virtual_keyboard p then NeedsNothing
      else if normalized_output_method (os_method s) = ''ydotool'' then NeedsVirtualKeyboard else NeedsEither)"

fun words_stay_copied :: "paste_need \<Rightarrow> bool \<Rightarrow> bool \<Rightarrow> bool" where
  "words_stay_copied NeedsAccessibility accessibility keyboard \<longleftrightarrow> \<not> accessibility"
| "words_stay_copied NeedsVirtualKeyboard accessibility keyboard \<longleftrightarrow> \<not> keyboard"
| "words_stay_copied NeedsEither accessibility keyboard \<longleftrightarrow> \<not> accessibility \<and> \<not> keyboard"
| "words_stay_copied NeedsNothing accessibility keyboard \<longleftrightarrow> False"

text \<open>useDefaultBackendFactory: the backend of a method, with what it is made of.\<close>

datatype delivery_backend = YdotoolBackend paste_method | WlCopyBackend | MacPasteBackend
  | WinPasteBackend paste_method | QtClipboardBackend

definition default_backend :: "delivery_platform \<Rightarrow> qstring \<Rightarrow> paste_method \<Rightarrow> delivery_backend option" where
  "default_backend p m pm =
     (if p = OnLinux \<and> m = ''ydotool'' then Some (YdotoolBackend pm)
      else if p = OnLinux \<and> m = ''wl-copy'' then Some WlCopyBackend
      else if p = OnMac \<and> m = ''mac-paste'' then Some MacPasteBackend
      else if p = OnWindows \<and> m = ''win-paste'' then Some (WinPasteBackend pm)
      else if m = ''qt-clipboard'' then Some QtClipboardBackend else None)"

section \<open>A delivery and what surrounds it\<close>

datatype focus_match = SameFocus | TitleChanged | DifferentFocus

record clipboard_snapshot =
  cs_has_data :: bool
  cs_mime_type :: qstring
  cs_data :: "nat list"
  cs_parts :: "(qstring \<times> nat list) list"

definition empty_snapshot :: clipboard_snapshot where
  "empty_snapshot = \<lparr>cs_has_data = False, cs_mime_type = [], cs_data = [], cs_parts = []\<rparr>"

record clipboard_copied =
  cc_ok :: bool
  cc_html :: bool
  cc_error :: qstring

record clipboard_captured =
  ca_ok :: bool
  ca_snapshot :: clipboard_snapshot
  ca_error :: qstring

record clipboard_restored =
  cr_ok :: bool
  cr_kept_newer :: bool
  cr_error :: qstring

record delivery_request =
  rq_settings :: output_settings
  rq_content :: delivery_content
  rq_target :: target

datatype delivery_answer = FocusIs focus_match | SnapshotIs clipboard_captured | CopyIs clipboard_copied
  | ShownIs bool | RestoreIs clipboard_restored | BackendIs clipboard_copied

text \<open>What happens in a delivery, in order: its calls, their answers, its own answer, and stop() from outside of it.\<close>

datatype delivery_deed = AskFocus | TakeSnapshot | CopyWords delivery_content | AskInsertable | InsertWords qstring
  | AskShown | ReadyPaste | DeliverThrough qstring bool delivery_content | PutBack clipboard_snapshot
  | GateReplied bool | GateHeard focus_match | Heard delivery_answer | AnswerWith delivery_result | Stopped

record delivery_world =
  dw_chars :: qchars
  dw_glyphs :: glyphs
  dw_platform :: delivery_platform
  dw_provider :: bool
  dw_backend :: "qstring \<Rightarrow> output_settings \<Rightarrow> paste_method \<Rightarrow> bool"
  dw_can_snapshot :: "delivery_deed list \<Rightarrow> bool"
  dw_can_insert :: "delivery_deed list \<Rightarrow> bool"
  dw_insert :: "delivery_deed list \<Rightarrow> bool \<times> qstring"
  dw_prepare :: "delivery_deed list \<Rightarrow> bool"
  dw_destroys :: "delivery_deed list \<Rightarrow> bool"

record previous_clipboard =
  pv_snapshot :: clipboard_snapshot
  pv_saved :: bool
  pv_warning :: qstring
  pv_note :: qstring

definition no_previous_clipboard :: previous_clipboard where
  "no_previous_clipboard = \<lparr>pv_snapshot = empty_snapshot, pv_saved = False, pv_warning = [], pv_note = []\<rparr>"

text \<open>The call a run waits on, with what its answer is bound to.\<close>

datatype awaited_answer = AwaitFocus | AwaitSnapshot | AwaitCopy | AwaitInserted | AwaitInsertedBack bool
  | AwaitPasteFocus "qstring list" qstring | AwaitBackend "qstring list" qstring bool bool
  | AwaitPasted bool bool | AwaitPastedBack bool bool bool bool

record delivery_run =
  dl_request :: delivery_request
  dl_awaits :: "awaited_answer option"
  dl_live :: bool
  dl_destroyed :: bool
  dl_choice :: paste_choice
  dl_method :: paste_method
  dl_insertion :: insertion
  dl_focus :: focus_match
  dl_target_focused :: bool
  dl_copied :: bool
  dl_plain :: bool
  dl_copy_error :: qstring
  dl_first_error :: qstring
  dl_previous :: previous_clipboard
  dl_gates :: nat
  dl_deeds :: "delivery_deed list"

definition fresh_run :: "delivery_request \<Rightarrow> delivery_run" where
  "fresh_run q = \<lparr>dl_request = q, dl_awaits = None, dl_live = True, dl_destroyed = False,
     dl_choice = \<lparr>pc_method = ClipboardOnly, pc_blind = False\<rparr>, dl_method = ClipboardOnly,
     dl_insertion = \<lparr>di_requested = False, di_only = False\<rparr>, dl_focus = DifferentFocus, dl_target_focused = False,
     dl_copied = False, dl_plain = False, dl_copy_error = [], dl_first_error = [],
     dl_previous = no_previous_clipboard, dl_gates = 0, dl_deeds = []\<rparr>"

abbreviation run_target :: "delivery_run \<Rightarrow> target" where
  "run_target r \<equiv> rq_target (dl_request r)"

abbreviation run_content :: "delivery_run \<Rightarrow> delivery_content" where
  "run_content r \<equiv> rq_content (dl_request r)"

abbreviation run_output :: "delivery_run \<Rightarrow> output_settings" where
  "run_output r \<equiv> rq_settings (dl_request r)"

text \<open>A call, and stop() when the delivery is gone after it.\<close>

definition run_stop :: "delivery_run \<Rightarrow> delivery_run" where
  "run_stop r = r\<lparr>dl_live := False, dl_deeds := dl_deeds r @ [Stopped]\<rparr>"

definition say :: "delivery_world \<Rightarrow> delivery_deed \<Rightarrow> delivery_run \<Rightarrow> delivery_run" where
  "say W d r =
     (let r = r\<lparr>dl_deeds := dl_deeds r @ [d]\<rparr>
      in if dw_destroys W (dl_deeds r) then (run_stop r)\<lparr>dl_destroyed := True\<rparr> else r)"

definition await_from :: "delivery_world \<Rightarrow> delivery_deed \<Rightarrow> awaited_answer \<Rightarrow> delivery_run \<Rightarrow> delivery_run" where
  "await_from W d w r = (say W d r)\<lparr>dl_awaits := Some w\<rparr>"

definition while_running :: "(delivery_run \<Rightarrow> delivery_run) \<Rightarrow> delivery_run \<Rightarrow> delivery_run" where
  "while_running f r = (if dl_live r then f r else r)"

definition run_finish :: "delivery_world \<Rightarrow> delivery_result \<Rightarrow> delivery_run \<Rightarrow> delivery_run" where
  "run_finish W res r = while_running (\<lambda>r. say W (AnswerWith res) (r\<lparr>dl_live := False\<rparr>)) r"

section \<open>The previous clipboard\<close>

definition snapshot_taken :: "clipboard_captured \<Rightarrow> previous_clipboard \<Rightarrow> previous_clipboard" where
  "snapshot_taken c v =
     (let v = v\<lparr>pv_saved := ca_ok c, pv_snapshot := ca_snapshot c\<rparr> in
      if ca_ok c then v
      else v\<lparr>pv_warning := (if ca_error c = [] then ''Previous clipboard could not be saved''
                             else ''Previous clipboard could not be saved: '' @ ca_error c)\<rparr>)"

definition clipboard_put_back :: "clipboard_restored \<Rightarrow> previous_clipboard \<Rightarrow> previous_clipboard" where
  "clipboard_put_back c v =
     (let v = (if cr_ok c \<and> cr_kept_newer c then v\<lparr>pv_note := ''Previous clipboard kept as-is.''\<rparr> else v) in
      if cr_ok c then v
      else v\<lparr>pv_warning := (if cr_error c = [] then ''Previous clipboard could not be restored''
                             else ''Previous clipboard could not be restored: '' @ cr_error c)\<rparr>)"

definition annotate :: "previous_clipboard \<Rightarrow> qstring \<Rightarrow> qstring" where
  "annotate v message =
     (let message = (if pv_warning v \<noteq> [] then message @ ''; '' @ pv_warning v else message)
      in if pv_note v \<noteq> [] then message @ '' '' @ pv_note v else message)"

section \<open>The steps of a run\<close>

definition finish_copied :: "delivery_world \<Rightarrow> delivery_run \<Rightarrow> delivery_run" where
  "finish_copied W r =
     run_finish W \<lparr>dr_ok = True, dr_receipt = ReceiptCopied, dr_format_downgraded = dl_plain r,
       dr_message = annotate (dl_previous r)
         (if dl_first_error r = [] then (if dl_plain r then ''Copied as plain text'' else ''Copied'')
          else ''Copied; insertion failed: '' @ dl_first_error r)\<rparr> r"

text \<open>pressThrough, with the methods after this one.\<close>

definition press_through ::
  "delivery_world \<Rightarrow> qstring list \<Rightarrow> qstring \<Rightarrow> bool \<Rightarrow> bool \<Rightarrow> delivery_run \<Rightarrow> delivery_run" where
  "press_through W rest method keys gated r =
     await_from W (DeliverThrough method keys (run_content r)) (AwaitBackend rest method keys gated) r"

text \<open>pasteThroughBackend, with the methods from its index on.\<close>

definition paste_through_backend :: "delivery_world \<Rightarrow> qstring list \<Rightarrow> delivery_run \<Rightarrow> delivery_run" where
  "paste_through_backend W methods r =
     (case dropWhile (\<lambda>m. \<not> dw_backend W m (run_output r) (pc_method (dl_choice r))) methods of
        [] \<Rightarrow> finish_copied W r
      | m # rest \<Rightarrow>
          let keys = presses_paste_keys m; gated = (keys \<and> dw_provider W \<and> \<not> pc_blind (dl_choice r))
          in if \<not> gated then press_through W rest m keys False r
             else await_from W AskFocus (AwaitPasteFocus rest m) r)"

text \<open>preparePasteInFocus from its answer: why the keys must not go out, or nothing.\<close>

definition paste_refusal :: "delivery_world \<Rightarrow> focus_match \<Rightarrow> delivery_run \<Rightarrow> qstring \<times> delivery_run" where
  "paste_refusal W f r =
     (if f \<noteq> SameFocus
      then (if \<not> tg_compositor_active (run_target r) then ''The target is no longer available for paste''
            else if f = TitleChanged then ''The window title changed''
            else ''The active window changed or could not be verified'', r)
      else (if dw_prepare W (dl_deeds r @ [ReadyPaste]) then [] else ''The target is no longer available for paste'',
            say W ReadyPaste r))"

definition paste_in_focus :: "delivery_world \<Rightarrow> qstring list \<Rightarrow> qstring \<Rightarrow> focus_match \<Rightarrow> delivery_run \<Rightarrow> delivery_run" where
  "paste_in_focus W rest method f r =
     (let (refusal, r) = paste_refusal W f r in
      while_running (\<lambda>r. if refusal \<noteq> [] then finish_copied W (r\<lparr>dl_first_error := refusal\<rparr>)
                         else press_through W rest method True True r) r)"

definition paste_unless_only_inserting :: "delivery_world \<Rightarrow> qstring \<Rightarrow> delivery_run \<Rightarrow> delivery_run" where
  "paste_unless_only_inserting W insertion_error r =
     (if di_only (dl_insertion r) \<and> insertion_error \<noteq> []
      then run_finish W \<lparr>dr_ok = True, dr_receipt = ReceiptCopied, dr_format_downgraded = dl_plain r,
             dr_message = annotate (dl_previous r) ''Copied; direct insertion was rejected''\<rparr> r
      else
        let r = (if di_only (dl_insertion r) then r\<lparr>dl_method := ClipboardOnly\<rparr> else r);
            moved = (dl_method r \<noteq> ClipboardOnly \<and> \<not> dl_target_focused r);
            warning =
              (if moved \<and> tg_compositor_active (run_target r)
               then (if dl_focus r = TitleChanged
                     then ''The window title changed. Your dictation is on the clipboard.''
                     else ''The active window changed or could not be verified. Your dictation is on the clipboard.'')
               else []);
            r = (if moved then r\<lparr>dl_method := ClipboardOnly\<rparr> else r)
        in if dl_method r = ClipboardOnly
           then run_finish W \<lparr>dr_ok = True, dr_receipt = ReceiptCopied, dr_format_downgraded = dl_plain r,
                  dr_message = annotate (dl_previous r)
                    (if warning \<noteq> [] then warning
                     else if dl_plain r then ''Copied as plain text'' else ''Copied'')\<rparr> r
           else paste_through_backend W
                  (ordered_methods (dw_platform W) (run_output r) (pc_method (dl_choice r))) r)"

text \<open>Whether the words were inserted straight into the app, the error of the attempt, and the run after it.\<close>

definition try_insertion :: "delivery_world \<Rightarrow> delivery_run \<Rightarrow> bool \<times> qstring \<times> delivery_run" where
  "try_insertion W r =
     (if di_requested (dl_insertion r) \<and> dw_provider W
      then (let insertable = dw_can_insert W (dl_deeds r @ [AskInsertable]); r = say W AskInsertable r in
            if insertable
            then (let insert = InsertWords (dc_plain (run_content r));
                      (inserted, err) = dw_insert W (dl_deeds r @ [insert])
                  in (inserted, err, say W insert r))
            else (False, [], r))
      else (False, [], r))"

definition insert_or_paste :: "delivery_world \<Rightarrow> delivery_run \<Rightarrow> delivery_run" where
  "insert_or_paste W r =
     (let (inserted, err, r) = try_insertion W r in
      if inserted then await_from W AskShown AwaitInserted r
      else if \<not> dl_copied r
      then run_finish W \<lparr>dr_ok = False, dr_receipt = ReceiptNone, dr_format_downgraded = False,
             dr_message = annotate (dl_previous r)
               (if dl_copy_error r = [] then ''Could not copy or insert the transcription''
                else ''Could not copy or insert the transcription: '' @ dl_copy_error r)\<rparr> r
      else paste_unless_only_inserting W err r)"

definition answer_inserted :: "delivery_world \<Rightarrow> bool \<Rightarrow> delivery_run \<Rightarrow> delivery_run" where
  "answer_inserted W verified r =
     (let message = (if verified then ''Pasted''
            else if dl_copied r then ''Could not confirm insertion. Your dictation is on the clipboard.''
            else ''Accepted by Target; clipboard copy failed: '' @ dl_copy_error r)
      in run_finish W \<lparr>dr_ok = True,
           dr_receipt = (if verified then ReceiptVerifiedInTarget else ReceiptAcceptedByTarget),
           dr_format_downgraded = dl_plain r,
           dr_message = annotate (dl_previous r) (if dl_plain r then message @ '' as plain text'' else message)\<rparr> r)"

definition inserted_directly :: "delivery_world \<Rightarrow> bool \<Rightarrow> delivery_run \<Rightarrow> delivery_run" where
  "inserted_directly W verified r =
     (if dl_copied r \<and> verified \<and> pv_saved (dl_previous r)
      then await_from W (PutBack (pv_snapshot (dl_previous r))) (AwaitInsertedBack verified) r
      else answer_inserted W verified r)"

definition answer_pasted :: "delivery_world \<Rightarrow> bool \<Rightarrow> bool \<Rightarrow> bool \<Rightarrow> bool \<Rightarrow> bool \<Rightarrow> delivery_run \<Rightarrow> delivery_run" where
  "answer_pasted W copied downgraded keys verified returned r =
     (let message =
            (if copied then ''Copied''
             else if \<not> verified
             then (if \<not> tg_compositor_active (run_target r)
                   then ''Could not confirm the paste. Your dictation is on the clipboard.''
                   else ''Sent. Your dictation is also on the clipboard.'')
             else if keys then (if returned then ''Sent to the app''
                                else ''Copied '' @ gl_bullet (dw_glyphs W) @ '' Sent to the app'')
             else ''Pasted'')
      in run_finish W \<lparr>dr_ok = True,
           dr_receipt = (if copied then ReceiptCopied
                         else if verified then ReceiptVerifiedInTarget else ReceiptInputSent),
           dr_format_downgraded = downgraded,
           dr_message = annotate (dl_previous r)
             (if downgraded \<and> \<not> keys then message @ '' as plain text'' else message)\<rparr> r)"

text \<open>answerPaste; the restore of a clipboard that was not saved answers false at once.\<close>

definition answer_paste :: "delivery_world \<Rightarrow> bool \<Rightarrow> bool \<Rightarrow> bool \<Rightarrow> bool \<Rightarrow> delivery_run \<Rightarrow> delivery_run" where
  "answer_paste W copied downgraded keys verified r =
     (if keys \<and> verified \<and> pv_saved (dl_previous r)
      then await_from W (PutBack (pv_snapshot (dl_previous r))) (AwaitPastedBack copied downgraded keys verified) r
      else answer_pasted W copied downgraded keys verified False r)"

definition run_pasted :: "delivery_world \<Rightarrow> qstring \<Rightarrow> bool \<Rightarrow> bool \<Rightarrow> delivery_run \<Rightarrow> delivery_run" where
  "run_pasted W method keys html r =
     (let copied = (method = ''wl-copy'' \<or> method = ''qt-clipboard'');
          downgraded = (if keys then dl_plain r else dc_html (run_content r) \<noteq> None \<and> \<not> html)
      in if copied \<or> \<not> dw_provider W then answer_paste W copied downgraded keys False r
         else await_from W AskShown (AwaitPasted downgraded keys) r)"

text \<open>The answer of a backend, from inside pressThrough.\<close>

definition backend_answered ::
  "delivery_world \<Rightarrow> qstring list \<Rightarrow> qstring \<Rightarrow> bool \<Rightarrow> clipboard_copied \<Rightarrow> delivery_run \<Rightarrow> delivery_run" where
  "backend_answered W rest method keys c r =
     (if cc_ok c then run_pasted W method keys (cc_html c) r
      else let r = (if dl_first_error r = [] then r\<lparr>dl_first_error := cc_error c\<rparr> else r)
           in if keys then finish_copied W r else paste_through_backend W rest r)"

definition copy_words :: "delivery_world \<Rightarrow> delivery_run \<Rightarrow> delivery_run" where
  "copy_words W r = await_from W (CopyWords (run_content r)) AwaitCopy r"

definition words_copied :: "delivery_world \<Rightarrow> clipboard_copied \<Rightarrow> delivery_run \<Rightarrow> delivery_run" where
  "words_copied W c r =
     insert_or_paste W (r\<lparr>dl_copied := cc_ok c, dl_copy_error := cc_error c,
       dl_plain := dc_html (run_content r) \<noteq> None \<and> \<not> cc_html c\<rparr>)"

text \<open>The save of the previous clipboard, then the copy.\<close>

definition save_previous :: "delivery_world \<Rightarrow> bool \<Rightarrow> delivery_run \<Rightarrow> delivery_run" where
  "save_previous W wanted r =
     (if \<not> wanted then while_running (copy_words W) r
      else if \<not> dw_can_snapshot W (dl_deeds r)
      then while_running (copy_words W) (r\<lparr>dl_previous := (dl_previous r)\<lparr>pv_warning :=
             ''Previous clipboard could not be saved because snapshots are unavailable''\<rparr>\<rparr>)
      else await_from W TakeSnapshot AwaitSnapshot r)"

definition focus_checked :: "delivery_world \<Rightarrow> focus_match \<Rightarrow> delivery_run \<Rightarrow> delivery_run" where
  "focus_checked W f r =
     (let r = r\<lparr>dl_focus := f,
                dl_target_focused := dl_method r \<noteq> ClipboardOnly \<and> (pc_blind (dl_choice r) \<or> f = SameFocus)\<rparr>
      in save_previous W (dl_method r \<noteq> ClipboardOnly \<and> os_restore_clipboard (run_output r)) r)"

definition run_start :: "delivery_world \<Rightarrow> delivery_run \<Rightarrow> delivery_run" where
  "run_start W r =
     (let choice = choose_paste_method (dw_chars W) (run_output r) (run_target r);
          r = r\<lparr>dl_choice := choice, dl_method := pc_method choice,
                dl_insertion := direct_insertion (normalized_output_method (os_method (run_output r))) (pc_method choice)\<rparr>
      in if \<not> dw_provider W then focus_checked W DifferentFocus r
         else await_from W AskFocus AwaitFocus r)"

text \<open>Whether an answer is of the kind that a call gives.\<close>

fun answer_fits :: "awaited_answer \<Rightarrow> delivery_answer \<Rightarrow> bool" where
  "answer_fits AwaitFocus a = (case a of FocusIs _ \<Rightarrow> True | _ \<Rightarrow> False)"
| "answer_fits AwaitSnapshot a = (case a of SnapshotIs _ \<Rightarrow> True | _ \<Rightarrow> False)"
| "answer_fits AwaitCopy a = (case a of CopyIs _ \<Rightarrow> True | _ \<Rightarrow> False)"
| "answer_fits AwaitInserted a = (case a of ShownIs _ \<Rightarrow> True | _ \<Rightarrow> False)"
| "answer_fits (AwaitInsertedBack _) a = (case a of RestoreIs _ \<Rightarrow> True | _ \<Rightarrow> False)"
| "answer_fits (AwaitPasteFocus _ _) a = (case a of FocusIs _ \<Rightarrow> True | _ \<Rightarrow> False)"
| "answer_fits (AwaitBackend _ _ _ _) a = (case a of BackendIs _ \<Rightarrow> True | _ \<Rightarrow> False)"
| "answer_fits (AwaitPasted _ _) a = (case a of ShownIs _ \<Rightarrow> True | _ \<Rightarrow> False)"
| "answer_fits (AwaitPastedBack _ _ _ _) a = (case a of RestoreIs _ \<Rightarrow> True | _ \<Rightarrow> False)"

text \<open>What a call's answer goes on to; the awaited call is the one the answer is of.\<close>

fun run_goes_on :: "delivery_world \<Rightarrow> awaited_answer \<Rightarrow> delivery_answer \<Rightarrow> delivery_run \<Rightarrow> delivery_run" where
  "run_goes_on W AwaitFocus a r = (case a of FocusIs f \<Rightarrow> focus_checked W f r | _ \<Rightarrow> r)"
| "run_goes_on W AwaitSnapshot a r = (case a of
     SnapshotIs c \<Rightarrow> while_running (copy_words W) (r\<lparr>dl_previous := snapshot_taken c (dl_previous r)\<rparr>) | _ \<Rightarrow> r)"
| "run_goes_on W AwaitCopy a r = (case a of CopyIs c \<Rightarrow> words_copied W c r | _ \<Rightarrow> r)"
| "run_goes_on W AwaitInserted a r = (case a of ShownIs v \<Rightarrow> inserted_directly W v r | _ \<Rightarrow> r)"
| "run_goes_on W (AwaitInsertedBack v) a r = (case a of
     RestoreIs c \<Rightarrow> answer_inserted W v (r\<lparr>dl_previous := clipboard_put_back c (dl_previous r)\<rparr>) | _ \<Rightarrow> r)"
| "run_goes_on W (AwaitPasteFocus rest m) a r = (case a of FocusIs f \<Rightarrow> paste_in_focus W rest m f r | _ \<Rightarrow> r)"
| "run_goes_on W (AwaitBackend rest m keys gated) a r = (case a of
     BackendIs c \<Rightarrow> backend_answered W rest m keys c r | _ \<Rightarrow> r)"
| "run_goes_on W (AwaitPasted downgraded keys) a r = (case a of
     ShownIs v \<Rightarrow> answer_paste W False downgraded keys v r | _ \<Rightarrow> r)"
| "run_goes_on W (AwaitPastedBack copied downgraded keys v) a r = (case a of
     RestoreIs c \<Rightarrow> answer_pasted W copied downgraded keys v (cr_ok c)
       (r\<lparr>dl_previous := clipboard_put_back c (dl_previous r)\<rparr>) | _ \<Rightarrow> r)"

definition run_hears :: "delivery_world \<Rightarrow> delivery_answer \<Rightarrow> delivery_run \<Rightarrow> delivery_run" where
  "run_hears W a r = (case dl_awaits r of
     None \<Rightarrow> r
   | Some w \<Rightarrow> if answer_fits w a
       then while_running (\<lambda>r. run_goes_on W w a (r\<lparr>dl_awaits := None, dl_deeds := dl_deeds r @ [Heard a]\<rparr>)) r
       else r)"

text \<open>clearToInject, asked by the keyboard backend a run waits on, and the answer of its focus check.\<close>

definition gate_asked :: "delivery_world \<Rightarrow> delivery_run \<Rightarrow> delivery_run" where
  "gate_asked W r = (case dl_awaits r of
     Some (AwaitBackend rest m keys gated) \<Rightarrow>
       if \<not> keys then r
       else if \<not> dl_live r then say W (GateReplied False) r
       else if \<not> gated then say W (GateReplied True) r
       else (say W AskFocus r)\<lparr>dl_gates := Suc (dl_gates r)\<rparr>
   | _ \<Rightarrow> r)"

definition gate_heard :: "delivery_world \<Rightarrow> focus_match \<Rightarrow> delivery_run \<Rightarrow> delivery_run" where
  "gate_heard W f r =
     (if dl_gates r = 0 then r
      else say W (GateReplied (f = SameFocus \<and> dl_live r))
             (r\<lparr>dl_gates := dl_gates r - 1, dl_deeds := dl_deeds r @ [GateHeard f]\<rparr>))"

section \<open>One at a time\<close>

text \<open>An answer is noted with what the run that is answered had done.\<close>

datatype delivery_turn = Requested delivery_request | Began delivery_request
  | Delivered delivery_result "delivery_deed list"

record text_delivery =
  td_requests :: "delivery_request list"
  td_run :: "delivery_run option"
  td_queued :: nat
  td_alive :: bool
  td_turns :: "delivery_turn list"

definition idle_delivery :: text_delivery where
  "idle_delivery = \<lparr>td_requests = [], td_run = None, td_queued = 0, td_alive = True, td_turns = []\<rparr>"

text \<open>~TextDelivery: the run that is still there is stopped.\<close>

definition delivery_destroyed :: "text_delivery \<Rightarrow> text_delivery" where
  "delivery_destroyed d = d\<lparr>td_alive := False, td_run := map_option run_stop (td_run d)\<rparr>"

definition delivery_ask :: "delivery_request \<Rightarrow> text_delivery \<Rightarrow> text_delivery" where
  "delivery_ask q d = d\<lparr>td_requests := td_requests d @ [q], td_queued := Suc (td_queued d),
     td_turns := td_turns d @ [Requested q]\<rparr>"

definition delivery_answer_with :: "delivery_result \<Rightarrow> text_delivery \<Rightarrow> text_delivery" where
  "delivery_answer_with res d = d\<lparr>td_run := map_option run_stop (td_run d), td_requests := tl (td_requests d),
     td_turns := td_turns d @ [Delivered res (case td_run d of Some r \<Rightarrow> dl_deeds r | None \<Rightarrow> [])]\<rparr>"

text \<open>The answer among what a run did.\<close>

fun answer_among :: "delivery_deed list \<Rightarrow> delivery_result option" where
  "answer_among [] = None"
| "answer_among (d # ds) = (case d of AnswerWith res \<Rightarrow> Some res | _ \<Rightarrow> answer_among ds)"

text \<open>TextDelivery after its run r went on to r'.\<close>

definition run_moved :: "delivery_run \<Rightarrow> delivery_run \<Rightarrow> text_delivery \<Rightarrow> text_delivery" where
  "run_moved r r' d =
     (let d = d\<lparr>td_run := Some r'\<rparr>;
          d = (case answer_among (drop (length (dl_deeds r)) (dl_deeds r')) of
                 Some res \<Rightarrow> delivery_answer_with res d | None \<Rightarrow> d)
      in if dl_destroyed r' then delivery_destroyed d else d)"

definition start_next :: "delivery_world \<Rightarrow> text_delivery \<Rightarrow> text_delivery" where
  "start_next W d = (case td_run d of
     Some _ \<Rightarrow> d
   | None \<Rightarrow> (case td_requests d of
       [] \<Rightarrow> d
     | q # _ \<Rightarrow> run_moved (fresh_run q) (run_start W (fresh_run q)) (d\<lparr>td_turns := td_turns d @ [Began q]\<rparr>)))"

definition unfinished :: delivery_result where
  "unfinished = \<lparr>dr_ok = False, dr_receipt = ReceiptNone, dr_format_downgraded = False,
     dr_message = ''Delivery did not finish in time''\<rparr>"

definition deadline_passed :: "text_delivery \<Rightarrow> text_delivery" where
  "deadline_passed d = (case td_run d of
     Some r \<Rightarrow> if dl_live r then delivery_answer_with unfinished d else d
   | None \<Rightarrow> d)"

text \<open>The event loop deletes a run that was stopped, which queues the next start.\<close>

definition run_gone :: "text_delivery \<Rightarrow> text_delivery" where
  "run_gone d = (case td_run d of
     Some r \<Rightarrow> if dl_live r then d else d\<lparr>td_run := None, td_queued := Suc (td_queued d)\<rparr>
   | None \<Rightarrow> d)"

definition in_run :: "(delivery_run \<Rightarrow> delivery_run) \<Rightarrow> text_delivery \<Rightarrow> text_delivery" where
  "in_run f d = (case td_run d of Some r \<Rightarrow> run_moved r (f r) d | None \<Rightarrow> d)"

datatype delivery_event = DeliverAsked delivery_request | NextTurn | RunHears delivery_answer | GateAsked
  | GateHears focus_match | DeadlinePassed | RunGone | DeliveryGone

definition delivery_step :: "delivery_world \<Rightarrow> delivery_event \<Rightarrow> text_delivery \<Rightarrow> text_delivery" where
  "delivery_step W e d =
     (if \<not> td_alive d then d
      else case e of
        DeliverAsked q \<Rightarrow> delivery_ask q d
      | NextTurn \<Rightarrow> if td_queued d = 0 then d else start_next W (d\<lparr>td_queued := td_queued d - 1\<rparr>)
      | RunHears a \<Rightarrow> in_run (run_hears W a) d
      | GateAsked \<Rightarrow> in_run (gate_asked W) d
      | GateHears f \<Rightarrow> in_run (gate_heard W f) d
      | DeadlinePassed \<Rightarrow> deadline_passed d
      | RunGone \<Rightarrow> run_gone d
      | DeliveryGone \<Rightarrow> delivery_destroyed d)"

definition delivery_events :: "delivery_world \<Rightarrow> delivery_event list \<Rightarrow> text_delivery \<Rightarrow> text_delivery" where
  "delivery_events W es d = fold (delivery_step W) es d"

end
