(* ===== verification/Delivery_Runs.thy ===== *)
theory Delivery_Runs
  imports Text_Delivery
begin

text \<open>
  What a delivery may do when. \<open>may_do\<close> is the promise of a delivery, read off what
  happened before each of its deeds: which words are copied and inserted, when the
  paste keys may go out, when the clipboard it borrowed is put back, and that its
  receipt says what became of the words. \<open>delivery_keeps_its_promise\<close> shows that
  every run keeps it, whatever the target, the clipboard and the backends answer
  and wherever the delivery goes away; the properties read single promises off.
\<close>

section \<open>The promise\<close>

abbreviation asked_choice :: "delivery_world \<Rightarrow> delivery_request \<Rightarrow> paste_choice" where
  "asked_choice W q \<equiv> choose_paste_method (dw_chars W) (rq_settings q) (rq_target q)"

abbreviation asked_insertion :: "delivery_world \<Rightarrow> delivery_request \<Rightarrow> insertion" where
  "asked_insertion W q \<equiv>
     direct_insertion (normalized_output_method (os_method (rq_settings q))) (pc_method (asked_choice W q))"

abbreviation asked_methods :: "delivery_world \<Rightarrow> delivery_request \<Rightarrow> qstring list" where
  "asked_methods W q \<equiv> ordered_methods (dw_platform W) (rq_settings q) (pc_method (asked_choice W q))"

text \<open>The copy took; the words were seen in the target; the app took the words; a clipboard was saved.\<close>

definition was_copied :: "delivery_deed list \<Rightarrow> bool" where
  "was_copied l \<longleftrightarrow> (\<exists>c. Heard (CopyIs c) \<in> set l \<and> cc_ok c)"

definition was_seen :: "delivery_deed list \<Rightarrow> bool" where
  "was_seen l \<longleftrightarrow> Heard (ShownIs True) \<in> set l"

fun was_accepted :: "delivery_world \<Rightarrow> delivery_deed list \<Rightarrow> delivery_deed list \<Rightarrow> bool" where
  "was_accepted W past [] \<longleftrightarrow> False"
| "was_accepted W past (d # ds) \<longleftrightarrow>
     (case d of InsertWords _ \<Rightarrow> fst (dw_insert W (past @ [d])) | _ \<Rightarrow> False) \<or> was_accepted W (past @ [d]) ds"

definition was_saved :: "clipboard_snapshot \<Rightarrow> delivery_deed list \<Rightarrow> bool" where
  "was_saved s l \<longleftrightarrow> (\<exists>c. Heard (SnapshotIs c) \<in> set l \<and> ca_ok c \<and> ca_snapshot c = s)"

definition was_sent :: "delivery_deed list \<Rightarrow> bool" where
  "was_sent l \<longleftrightarrow> (\<exists>m keys w c. DeliverThrough m keys w \<in> set l \<and> Heard (BackendIs c) \<in> set l \<and> cc_ok c)"

definition still_borrowed :: "delivery_deed list \<Rightarrow> bool" where
  "still_borrowed l \<longleftrightarrow> (\<forall>s. PutBack s \<notin> set l)"

definition unanswered :: "delivery_deed list \<Rightarrow> bool" where
  "unanswered l \<longleftrightarrow> (\<forall>res. AnswerWith res \<notin> set l)"

text \<open>The delivery waits for the run's answer: it gave none, and nobody stopped it.\<close>

definition still_waiting :: "delivery_deed list \<Rightarrow> bool" where
  "still_waiting l \<longleftrightarrow> unanswered l \<and> Stopped \<notin> set l"

definition keys_asked :: "delivery_deed list \<Rightarrow> bool" where
  "keys_asked l \<longleftrightarrow> (\<exists>m w. DeliverThrough m True w \<in> set l)"

text \<open>The words are on the clipboard and may be pasted into what is in front.\<close>

definition may_paste :: "delivery_world \<Rightarrow> delivery_request \<Rightarrow> delivery_deed list \<Rightarrow> bool" where
  "may_paste W q l \<longleftrightarrow> pc_method (asked_choice W q) \<noteq> ClipboardOnly \<and> \<not> di_only (asked_insertion W q) \<and> was_copied l
     \<and> (pc_blind (asked_choice W q) \<or> dw_provider W \<and> Heard (FocusIs SameFocus) \<in> set l) \<and> still_borrowed l"

definition truthful :: "delivery_world \<Rightarrow> delivery_deed list \<Rightarrow> delivery_result \<Rightarrow> bool" where
  "truthful W l res \<longleftrightarrow> (dr_ok res \<longleftrightarrow> dr_receipt res \<noteq> ReceiptNone) \<and>
     (case dr_receipt res of
        ReceiptNone \<Rightarrow> \<not> was_copied l \<and> \<not> was_accepted W [] l \<and> still_borrowed l
      | ReceiptCopied \<Rightarrow> was_copied l \<and> still_borrowed l
      | ReceiptInputSent \<Rightarrow> was_copied l \<and> was_sent l \<and> still_borrowed l
      | ReceiptAcceptedByTarget \<Rightarrow> was_accepted W [] l \<and> still_borrowed l
      | ReceiptVerifiedInTarget \<Rightarrow> was_seen l \<and> (was_accepted W [] l \<or> was_copied l \<and> was_sent l))"

fun may_do :: "delivery_world \<Rightarrow> delivery_request \<Rightarrow> delivery_deed list \<Rightarrow> delivery_deed \<Rightarrow> bool" where
  "may_do W q l (CopyWords w) \<longleftrightarrow> w = rq_content q \<and> (\<forall>v. CopyWords v \<notin> set l)"
| "may_do W q l TakeSnapshot \<longleftrightarrow> pc_method (asked_choice W q) \<noteq> ClipboardOnly \<and> (\<forall>v. CopyWords v \<notin> set l)"
| "may_do W q l (Heard (SnapshotIs c)) \<longleftrightarrow> TakeSnapshot \<in> set l \<and> (\<forall>v. CopyWords v \<notin> set l)"
| "may_do W q l AskInsertable \<longleftrightarrow> di_requested (asked_insertion W q)"
| "may_do W q l (InsertWords s) \<longleftrightarrow> di_requested (asked_insertion W q) \<and> s = dc_plain (rq_content q)
     \<and> (\<forall>v. InsertWords v \<notin> set l)"
| "may_do W q l ReadyPaste \<longleftrightarrow> may_paste W q l \<and> (\<exists>k. l = k @ [Heard (FocusIs SameFocus)])"
| "may_do W q l (DeliverThrough m keys w) \<longleftrightarrow> w = rq_content q \<and> keys = presses_paste_keys m
     \<and> m \<in> set (asked_methods W q) \<and> may_paste W q l
     \<and> (keys \<and> \<not> pc_blind (asked_choice W q) \<longrightarrow>
          (\<exists>k. l = k @ [Heard (FocusIs SameFocus), ReadyPaste]) \<and> dw_prepare W l)"
| "may_do W q l (GateReplied clear) \<longleftrightarrow> (clear \<longrightarrow> keys_asked l \<and> still_waiting l
     \<and> (pc_blind (asked_choice W q) \<or> (\<exists>k. l = k @ [GateHeard SameFocus])))"
| "may_do W q l (PutBack s) \<longleftrightarrow> was_seen l \<and> was_copied l \<and> was_saved s l \<and> still_borrowed l \<and> still_waiting l"
| "may_do W q l (Heard (CopyIs c)) \<longleftrightarrow> (\<exists>w. CopyWords w \<in> set l)"
| "may_do W q l (AnswerWith res) \<longleftrightarrow> still_waiting l \<and> truthful W l res"
| "may_do W q l _ \<longleftrightarrow> True"

definition keeps_promise :: "delivery_world \<Rightarrow> delivery_request \<Rightarrow> delivery_deed list \<Rightarrow> bool" where
  "keeps_promise W q l \<longleftrightarrow> (\<forall>k d j. l = k @ d # j \<longrightarrow> may_do W q k d)"

lemma keeps_promise_Nil [simp]: "keeps_promise W q []"
  by (simp add: keeps_promise_def)

lemma keeps_promise_snoc [simp]:
  "keeps_promise W q (l @ [d]) \<longleftrightarrow> keeps_promise W q l \<and> may_do W q l d"
proof -
  have "l @ [d] = k @ e # j \<longleftrightarrow> (k = l \<and> e = d \<and> j = []) \<or> (\<exists>i. j = i @ [d] \<and> l = k @ e # i)" for k e j
    by (cases j rule: rev_cases) auto
  then show ?thesis by (auto simp: keeps_promise_def)
qed

text \<open>What was heard and done stays so.\<close>

named_theorems happened "what further deeds add to what happened"

lemma was_copied_more [happened]:
  "was_copied [] = False" "was_copied (k @ l) \<longleftrightarrow> was_copied k \<or> was_copied l"
  "was_copied (d # l) \<longleftrightarrow> (\<exists>c. d = Heard (CopyIs c) \<and> cc_ok c) \<or> was_copied l"
  by (auto simp: was_copied_def)

lemma was_seen_more [happened]:
  "was_seen [] = False" "was_seen (k @ l) \<longleftrightarrow> was_seen k \<or> was_seen l"
  "was_seen (d # l) \<longleftrightarrow> d = Heard (ShownIs True) \<or> was_seen l"
  by (auto simp: was_seen_def)

lemma was_accepted_more [happened]: "was_accepted W p (k @ l) \<longleftrightarrow> was_accepted W p k \<or> was_accepted W (p @ k) l"
  by (induction k arbitrary: p) auto

lemma was_saved_more [happened]:
  "was_saved s [] = False" "was_saved s (k @ l) \<longleftrightarrow> was_saved s k \<or> was_saved s l"
  "was_saved s (d # l) \<longleftrightarrow> (\<exists>c. d = Heard (SnapshotIs c) \<and> ca_ok c \<and> ca_snapshot c = s) \<or> was_saved s l"
  by (auto simp: was_saved_def)

lemma still_borrowed_more [happened]:
  "still_borrowed []" "still_borrowed (k @ l) \<longleftrightarrow> still_borrowed k \<and> still_borrowed l"
  "still_borrowed (d # l) \<longleftrightarrow> (\<forall>s. d \<noteq> PutBack s) \<and> still_borrowed l"
  by (auto simp: still_borrowed_def)

lemma unanswered_more [happened]:
  "unanswered []" "unanswered (k @ l) \<longleftrightarrow> unanswered k \<and> unanswered l"
  "unanswered (d # l) \<longleftrightarrow> (\<forall>res. d \<noteq> AnswerWith res) \<and> unanswered l"
  by (auto simp: unanswered_def)

lemma still_waiting_more [happened]:
  "still_waiting []" "still_waiting (k @ l) \<longleftrightarrow> still_waiting k \<and> still_waiting l"
  "still_waiting (d # l) \<longleftrightarrow> (\<forall>res. d \<noteq> AnswerWith res) \<and> d \<noteq> Stopped \<and> still_waiting l"
  by (auto simp: still_waiting_def happened)

lemma keys_asked_more [happened]:
  "keys_asked [] = False" "keys_asked (k @ l) \<longleftrightarrow> keys_asked k \<or> keys_asked l"
  "keys_asked (d # l) \<longleftrightarrow> (\<exists>m w. d = DeliverThrough m True w) \<or> keys_asked l"
  by (auto simp: keys_asked_def)

lemma was_sent_keeps: "was_sent l \<Longrightarrow> was_sent (l @ k)"
  by (auto simp: was_sent_def)

lemma may_paste_keeps: "may_paste W q l \<Longrightarrow> still_borrowed k \<Longrightarrow> may_paste W q (l @ k)"
  by (auto simp: may_paste_def happened)

lemma not_accepted: "(\<forall>s. InsertWords s \<notin> set l) \<Longrightarrow> \<not> was_accepted W p l"
  by (induction l arbitrary: p) (auto split: delivery_deed.splits)

section \<open>What a run knows\<close>

text \<open>Its members say what happened, whether it is still running or not.\<close>

definition run_knows :: "delivery_world \<Rightarrow> delivery_run \<Rightarrow> bool" where
  "run_knows W r \<longleftrightarrow>
     keeps_promise W (dl_request r) (dl_deeds r)
     \<and> dl_choice r = asked_choice W (dl_request r)
     \<and> dl_insertion r = asked_insertion W (dl_request r)
     \<and> (dl_live r \<longrightarrow> still_waiting (dl_deeds r))
     \<and> (dl_method r \<noteq> ClipboardOnly \<longrightarrow> dl_method r = pc_method (asked_choice W (dl_request r)))
     \<and> (dl_copied r \<longrightarrow> was_copied (dl_deeds r))
     \<and> (pv_saved (dl_previous r) \<longrightarrow> was_saved (pv_snapshot (dl_previous r)) (dl_deeds r))
     \<and> (dl_target_focused r \<longrightarrow> pc_blind (asked_choice W (dl_request r)) \<or> dw_provider W \<and> Heard (FocusIs SameFocus) \<in> set (dl_deeds r))
     \<and> (dl_gates r > 0 \<longrightarrow> keys_asked (dl_deeds r))"

text \<open>What holds while a run waits on an answer.\<close>

fun waits_well :: "delivery_world \<Rightarrow> delivery_run \<Rightarrow> awaited_answer \<Rightarrow> bool" where
  "waits_well W r AwaitFocus \<longleftrightarrow> dw_provider W \<and> dl_deeds r = [AskFocus] \<and> \<not> dl_copied r"
| "waits_well W r AwaitSnapshot \<longleftrightarrow> TakeSnapshot \<in> set (dl_deeds r) \<and> still_borrowed (dl_deeds r) \<and> \<not> dl_copied r
     \<and> (\<forall>v. CopyWords v \<notin> set (dl_deeds r)) \<and> (\<forall>s. InsertWords s \<notin> set (dl_deeds r)) \<and> \<not> was_copied (dl_deeds r)"
| "waits_well W r AwaitCopy \<longleftrightarrow> (\<exists>w. CopyWords w \<in> set (dl_deeds r)) \<and> still_borrowed (dl_deeds r) \<and> \<not> was_copied (dl_deeds r)
     \<and> (\<forall>s. InsertWords s \<notin> set (dl_deeds r))"
| "waits_well W r AwaitInserted \<longleftrightarrow> still_borrowed (dl_deeds r) \<and> was_accepted W [] (dl_deeds r)"
| "waits_well W r (AwaitInsertedBack v) \<longleftrightarrow> v \<and> was_seen (dl_deeds r) \<and> was_accepted W [] (dl_deeds r)"
| "waits_well W r (AwaitPasteFocus rest m) \<longleftrightarrow> may_paste W (dl_request r) (dl_deeds r)
     \<and> presses_paste_keys m \<and> set (m # rest) \<subseteq> set (asked_methods W (dl_request r))"
| "waits_well W r (AwaitBackend rest m keys gated) \<longleftrightarrow> may_paste W (dl_request r) (dl_deeds r)
     \<and> set (m # rest) \<subseteq> set (asked_methods W (dl_request r)) \<and> keys = presses_paste_keys m
     \<and> DeliverThrough m keys (run_content r) \<in> set (dl_deeds r)
     \<and> (keys \<and> \<not> gated \<longrightarrow> pc_blind (dl_choice r))"
| "waits_well W r (AwaitPasted downgraded keys) \<longleftrightarrow> may_paste W (dl_request r) (dl_deeds r) \<and> was_sent (dl_deeds r)"
| "waits_well W r (AwaitPastedBack copied downgraded keys v) \<longleftrightarrow>
     v \<and> \<not> copied \<and> was_seen (dl_deeds r) \<and> was_copied (dl_deeds r) \<and> was_sent (dl_deeds r)"

definition run_well :: "delivery_world \<Rightarrow> delivery_run \<Rightarrow> bool" where
  "run_well W r \<longleftrightarrow> run_knows W r
     \<and> (dl_live r \<longrightarrow> (\<exists>w. dl_awaits r = Some w \<and> waits_well W r w))"

text \<open>What a call adds, with the stop when the delivery is gone after it.\<close>

definition gone_after :: "delivery_world \<Rightarrow> delivery_deed list \<Rightarrow> delivery_deed list" where
  "gone_after W l = (if dw_destroys W l then [Stopped] else [])"

lemma say_deeds [simp]: "dl_deeds (say W d r) = dl_deeds r @ d # gone_after W (dl_deeds r @ [d])"
  by (simp add: say_def run_stop_def gone_after_def Let_def)

lemma say_live: "dl_live (say W d r) \<Longrightarrow> dl_live r \<and> gone_after W (dl_deeds r @ [d]) = []"
  by (auto simp: say_def run_stop_def gone_after_def Let_def split: if_splits)

lemma gone_after_member [simp]: "d \<in> set (gone_after W l) \<longleftrightarrow> d = Stopped \<and> gone_after W l \<noteq> []"
  by (simp add: gone_after_def)

lemma gone_after_happened [happened]:
  "was_copied (gone_after W l) = False" "was_seen (gone_after W l) = False" "was_saved v (gone_after W l) = False"
  "still_borrowed (gone_after W l)" "unanswered (gone_after W l)" "keys_asked (gone_after W l) = False"
  "was_accepted W' p (gone_after W l) = False" "still_waiting (gone_after W l) \<longleftrightarrow> gone_after W l = []"
  by (simp_all add: gone_after_def happened)

lemma keeps_promise_say [simp]:
  "keeps_promise W q (l @ d # gone_after W' l') \<longleftrightarrow> keeps_promise W q l \<and> may_do W q l d"
  using keeps_promise_snoc [of W q "l @ [d]" Stopped] by (simp add: gone_after_def)

lemma say_simps [simp]:
  "dl_request (say W d r) = dl_request r" "dl_choice (say W d r) = dl_choice r"
  "dl_insertion (say W d r) = dl_insertion r" "dl_method (say W d r) = dl_method r"
  "dl_copied (say W d r) = dl_copied r" "dl_previous (say W d r) = dl_previous r"
  "dl_target_focused (say W d r) = dl_target_focused r" "dl_gates (say W d r) = dl_gates r"
  "dl_awaits (say W d r) = dl_awaits r"
  "dl_first_error (say W d r) = dl_first_error r" "dl_plain (say W d r) = dl_plain r"
  by (simp_all add: say_def run_stop_def Let_def)

lemma run_knows_say:
  assumes "run_knows W r" "may_do W (dl_request r) (dl_deeds r) d" "d \<noteq> Stopped"
    "\<And>res. d = AnswerWith res \<Longrightarrow> \<not> dl_live r"
  shows "run_knows W (say W d r)"
  using assms by (auto simp: run_knows_def happened dest!: say_live)

text \<open>Members that no promise is about.\<close>

lemma run_knows_frame [simp]:
  "run_knows W (r\<lparr>dl_awaits := a\<rparr>) = run_knows W r" "run_knows W (r\<lparr>dl_first_error := e\<rparr>) = run_knows W r"
  "run_knows W (r\<lparr>dl_copy_error := e\<rparr>) = run_knows W r" "run_knows W (r\<lparr>dl_plain := b\<rparr>) = run_knows W r"
  "run_knows W (r\<lparr>dl_focus := f\<rparr>) = run_knows W r"
  by (simp_all add: run_knows_def)

lemma run_knows_blank: "run_knows W r \<Longrightarrow> run_knows W (r\<lparr>dl_method := ClipboardOnly\<rparr>)"
  by (simp add: run_knows_def)

lemma run_knows_stop: "run_knows W r \<Longrightarrow> run_knows W (run_stop r)"
  by (auto simp: run_knows_def run_stop_def happened)

lemma knows_waiting: "run_knows W r \<Longrightarrow> dl_live r \<Longrightarrow> still_waiting (dl_deeds r)"
  by (simp add: run_knows_def)

lemma await_well:
  assumes "run_knows W r" "may_do W (dl_request r) (dl_deeds r) d" "d \<noteq> Stopped"
    "\<And>res. d \<noteq> AnswerWith res" "dl_live (say W d r) \<Longrightarrow> waits_well W (await_from W d w r) w"
  shows "run_well W (await_from W d w r)"
proof -
  have "run_knows W (say W d r)" using assms by (intro run_knows_say) auto
  then show ?thesis using assms by (auto simp: run_well_def await_from_def)
qed

lemma finish_well:
  assumes "run_knows W r" "dl_live r \<Longrightarrow> truthful W (dl_deeds r) res"
  shows "run_well W (run_finish W res r)"
proof (cases "dl_live r")
  case True
  have "run_knows W (say W (AnswerWith res) (r\<lparr>dl_live := False\<rparr>))"
    using assms True by (intro run_knows_say) (auto simp: run_knows_def)
  then show ?thesis using True by (auto simp: run_finish_def while_running_def run_well_def dest!: say_live)
next
  case False
  then show ?thesis using assms by (simp add: run_finish_def while_running_def run_well_def)
qed

lemma finish_copied_well:
  "run_knows W r \<Longrightarrow> was_copied (dl_deeds r) \<Longrightarrow> still_borrowed (dl_deeds r) \<Longrightarrow> run_well W (finish_copied W r)"
  unfolding finish_copied_def by (rule finish_well) (simp_all add: truthful_def)

lemma press_through_well:
  assumes "run_knows W r" "may_paste W (dl_request r) (dl_deeds r)"
    "set (m # rest) \<subseteq> set (asked_methods W (dl_request r))" "keys = presses_paste_keys m"
    "keys \<Longrightarrow> \<not> gated \<Longrightarrow> pc_blind (dl_choice r)"
    "keys \<Longrightarrow> gated \<Longrightarrow> (\<exists>k. dl_deeds r = k @ [Heard (FocusIs SameFocus), ReadyPaste]) \<and> dw_prepare W (dl_deeds r)"
  shows "run_well W (press_through W rest m keys gated r)"
  unfolding press_through_def
proof (rule await_well)
  have "dl_choice r = asked_choice W (dl_request r)" using assms by (simp add: run_knows_def)
  then show "may_do W (dl_request r) (dl_deeds r) (DeliverThrough m keys (run_content r))"
    using assms by (auto simp del: presses_paste_keys_def)
  show "waits_well W (await_from W (DeliverThrough m keys (run_content r)) (AwaitBackend rest m keys gated) r)
     (AwaitBackend rest m keys gated)"
    using assms by (auto simp: await_from_def intro: may_paste_keeps simp: happened)
qed (use assms in auto)

lemma paste_through_well:
  assumes "run_knows W r" "may_paste W (dl_request r) (dl_deeds r)" "set ms \<subseteq> set (asked_methods W (dl_request r))"
  shows "run_well W (paste_through_backend W ms r)"
proof (cases "dropWhile (\<lambda>m. \<not> dw_backend W m (run_output r) (pc_method (dl_choice r))) ms")
  case Nil
  show ?thesis unfolding paste_through_backend_def Nil list.case
    using assms by (intro finish_copied_well) (auto simp: may_paste_def)
next
  case (Cons m rest)
  then have sub: "set (m # rest) \<subseteq> set (asked_methods W (dl_request r))" using assms(3)
    by (metis set_dropWhileD subset_iff)
  show ?thesis
  proof (cases "presses_paste_keys m \<and> dw_provider W \<and> \<not> pc_blind (dl_choice r)")
    case True
    have "run_well W (await_from W AskFocus (AwaitPasteFocus rest m) r)"
    proof (rule await_well)
      show "waits_well W (await_from W AskFocus (AwaitPasteFocus rest m) r) (AwaitPasteFocus rest m)"
        using assms True sub by (auto simp: await_from_def intro: may_paste_keeps simp: happened)
    qed (use assms in auto)
    then show ?thesis using Cons True by (simp add: paste_through_backend_def Let_def)
  next
    case False
    have "dl_choice r = asked_choice W (dl_request r)" using assms by (simp add: run_knows_def)
    then have "run_well W (press_through W rest m (presses_paste_keys m) False r)"
      using assms sub False by (intro press_through_well) (auto simp: may_paste_def)
    then show ?thesis using Cons False by (simp add: paste_through_backend_def Let_def)
  qed
qed

lemma paste_refusal_knows:
  assumes "run_knows W r" "may_paste W (dl_request r) (dl_deeds r)" "\<exists>k. dl_deeds r = k @ [Heard (FocusIs f)]"
    "paste_refusal W f r = (refusal, r')"
  shows "run_knows W r'" "dl_request r' = dl_request r" "may_paste W (dl_request r) (dl_deeds r')"
    "refusal = [] \<Longrightarrow> dl_live r' \<Longrightarrow>
       (\<exists>k. dl_deeds r' = k @ [Heard (FocusIs SameFocus), ReadyPaste]) \<and> dw_prepare W (dl_deeds r')"
proof -
  have said: "run_knows W (say W ReadyPaste r)" if "f = SameFocus"
    using assms that by (intro run_knows_say) auto
  have paste: "may_paste W (dl_request r) (dl_deeds (say W ReadyPaste r))"
    unfolding say_deeds using assms by (intro may_paste_keeps) (simp_all add: happened)
  have r': "r' = r \<or> r' = say W ReadyPaste r \<and> f = SameFocus"
    and ready: "refusal = [] \<Longrightarrow> r' = say W ReadyPaste r \<and> f = SameFocus \<and> dw_prepare W (dl_deeds r @ [ReadyPaste])"
    using assms(4) by (auto simp: paste_refusal_def split: if_splits)
  from r' show "run_knows W r'" "dl_request r' = dl_request r" "may_paste W (dl_request r) (dl_deeds r')"
    using said paste assms(1,2) by auto
  show "(\<exists>k. dl_deeds r' = k @ [Heard (FocusIs SameFocus), ReadyPaste]) \<and> dw_prepare W (dl_deeds r')"
    if "refusal = []" "dl_live r'"
    using ready [OF that(1)] that(2) assms(3) say_live [of W ReadyPaste r] by auto
qed

lemma run_well_dead: "run_knows W r \<Longrightarrow> \<not> dl_live r \<Longrightarrow> run_well W r"
  by (simp add: run_well_def)

lemma paste_in_focus_well:
  assumes "run_knows W r" "may_paste W (dl_request r) (dl_deeds r)" "\<exists>k. dl_deeds r = k @ [Heard (FocusIs f)]"
    "presses_paste_keys m" "set (m # rest) \<subseteq> set (asked_methods W (dl_request r))"
  shows "run_well W (paste_in_focus W rest m f r)"
proof -
  obtain refusal r' where x: "paste_refusal W f r = (refusal, r')" by force
  note k = paste_refusal_knows [OF assms(1-3) x]
  show ?thesis
  proof (cases "dl_live r'")
    case False
    then show ?thesis using k x by (simp add: paste_in_focus_def while_running_def run_well_dead)
  next
    case True
    then have step: "paste_in_focus W rest m f r = (if refusal \<noteq> [] then finish_copied W (r'\<lparr>dl_first_error := refusal\<rparr>)
        else press_through W rest m True True r')"
      by (simp add: paste_in_focus_def while_running_def x)
    have "run_well W (finish_copied W (r'\<lparr>dl_first_error := refusal\<rparr>))"
      using k by (intro finish_copied_well) (auto simp: may_paste_def)
    moreover have "run_well W (press_through W rest m True True r')" if "refusal = []"
      using k assms that True by (intro press_through_well) auto
    ultimately show ?thesis unfolding step by simp
  qed
qed

lemma paste_unless_only_inserting_well:
  assumes "run_knows W r" "was_copied (dl_deeds r)" "still_borrowed (dl_deeds r)"
  shows "run_well W (paste_unless_only_inserting W e r)"
proof -
  have finish: "run_well W (run_finish W \<lparr>dr_ok = True, dr_receipt = ReceiptCopied, dr_format_downgraded = g,
      dr_message = m\<rparr> s)" if "run_knows W s" "dl_deeds s = dl_deeds r" for g m s
    using assms that by (intro finish_well) (auto simp: truthful_def)
  have paste: "run_well W (paste_through_backend W (asked_methods W (dl_request r)) r)"
    if "\<not> di_only (dl_insertion r)" "dl_method r \<noteq> ClipboardOnly" "dl_target_focused r"
    using assms that by (intro paste_through_well) (auto simp: may_paste_def run_knows_def)
  have choice: "dl_choice r = asked_choice W (dl_request r)" using assms by (simp add: run_knows_def)
  show ?thesis
    unfolding paste_unless_only_inserting_def Let_def
    using assms(1) paste by (auto intro!: finish simp: run_knows_blank choice)
qed

lemma try_insertion_knows:
  assumes "run_knows W r" "\<forall>s. InsertWords s \<notin> set (dl_deeds r)" "still_borrowed (dl_deeds r)"
    "try_insertion W r = (inserted, e, r')"
  shows "run_knows W r'" "still_borrowed (dl_deeds r')" "was_accepted W [] (dl_deeds r') \<longleftrightarrow> inserted"
    "was_copied (dl_deeds r') \<longleftrightarrow> was_copied (dl_deeds r)" "dl_copied r' = dl_copied r"
    "dl_target_focused r' = dl_target_focused r" "dl_choice r' = dl_choice r"
proof -
  have ins: "dl_insertion r = asked_insertion W (dl_request r)" using assms by (simp add: run_knows_def)
  have none: "\<not> was_accepted W [] (dl_deeds r)" using assms(2) by (rule not_accepted)
  have one: "run_knows W (say W AskInsertable r)" if "di_requested (dl_insertion r)"
    using assms that ins by (intro run_knows_say) auto
  have two: "run_knows W (say W (InsertWords (dc_plain (run_content r))) (say W AskInsertable r))"
    if "di_requested (dl_insertion r)"
    using assms that ins one by (intro run_knows_say) auto
  show "run_knows W r'" "still_borrowed (dl_deeds r')" "was_accepted W [] (dl_deeds r') \<longleftrightarrow> inserted"
    "was_copied (dl_deeds r') \<longleftrightarrow> was_copied (dl_deeds r)" "dl_copied r' = dl_copied r"
    "dl_target_focused r' = dl_target_focused r" "dl_choice r' = dl_choice r"
    using assms one two none
    by (auto simp: try_insertion_def Let_def happened split: if_splits prod.splits)
qed

lemma insert_or_paste_well:
  assumes "run_knows W r" "\<forall>s. InsertWords s \<notin> set (dl_deeds r)" "still_borrowed (dl_deeds r)"
    "was_copied (dl_deeds r) \<longleftrightarrow> dl_copied r"
  shows "run_well W (insert_or_paste W r)"
proof -
  obtain inserted e r' where x: "try_insertion W r = (inserted, e, r')" by (cases "try_insertion W r") auto
  note k = try_insertion_knows [OF assms(1-3) x]
  have "run_well W (await_from W AskShown AwaitInserted r')" if "inserted"
    using k that by (intro await_well) (auto simp: await_from_def happened)
  moreover have "run_well W (run_finish W \<lparr>dr_ok = False, dr_receipt = ReceiptNone, dr_format_downgraded = False,
      dr_message = m\<rparr> r')" if "\<not> inserted" "\<not> dl_copied r'" for m
    using k that assms by (intro finish_well) (auto simp: truthful_def)
  moreover have "run_well W (paste_unless_only_inserting W e r')" if "\<not> inserted" "dl_copied r'"
    using k that assms by (intro paste_unless_only_inserting_well) auto
  ultimately show ?thesis by (simp add: insert_or_paste_def x)
qed

lemma words_copied_well:
  assumes "run_knows W r" "\<forall>s. InsertWords s \<notin> set (dl_deeds r)" "still_borrowed (dl_deeds r)"
    "was_copied (dl_deeds r) \<longleftrightarrow> cc_ok c"
  shows "run_well W (words_copied W c r)"
  unfolding words_copied_def using assms by (intro insert_or_paste_well) (auto simp: run_knows_def)

lemma answer_inserted_well:
  assumes "run_knows W r" "was_accepted W [] (dl_deeds r)" "verified \<Longrightarrow> was_seen (dl_deeds r)"
    "\<not> verified \<Longrightarrow> still_borrowed (dl_deeds r)"
  shows "run_well W (answer_inserted W verified r)"
  unfolding answer_inserted_def Let_def using assms by (intro finish_well) (auto simp: truthful_def)

lemma knows_saved: "run_knows W r \<Longrightarrow> pv_saved (dl_previous r) \<Longrightarrow> was_saved (pv_snapshot (dl_previous r)) (dl_deeds r)"
  by (simp add: run_knows_def)

lemma knows_copied: "run_knows W r \<Longrightarrow> dl_copied r \<Longrightarrow> was_copied (dl_deeds r)"
  by (simp add: run_knows_def)

lemma inserted_directly_well:
  assumes "run_knows W r" "was_accepted W [] (dl_deeds r)" "verified \<Longrightarrow> was_seen (dl_deeds r)"
    "still_borrowed (dl_deeds r)" "dl_live r"
  shows "run_well W (inserted_directly W verified r)"
proof -
  have "run_well W (await_from W (PutBack (pv_snapshot (dl_previous r))) (AwaitInsertedBack verified) r)"
    if "dl_copied r" "verified" "pv_saved (dl_previous r)"
    using assms that
    by (intro await_well) (auto simp: await_from_def happened knows_saved knows_copied knows_waiting)
  then show ?thesis using assms by (simp add: inserted_directly_def answer_inserted_well)
qed

lemma answer_pasted_well:
  assumes "run_knows W r" "was_copied (dl_deeds r)" "was_sent (dl_deeds r)" "verified \<Longrightarrow> was_seen (dl_deeds r)"
    "copied \<or> \<not> verified \<Longrightarrow> still_borrowed (dl_deeds r)"
  shows "run_well W (answer_pasted W copied downgraded keys verified returned r)"
  unfolding answer_pasted_def Let_def using assms by (intro finish_well) (auto simp: truthful_def)

lemma answer_paste_well:
  assumes "run_knows W r" "was_copied (dl_deeds r)" "was_sent (dl_deeds r)" "verified \<Longrightarrow> was_seen (dl_deeds r)"
    "still_borrowed (dl_deeds r)" "dl_live r" "\<not> (copied \<and> verified)"
  shows "run_well W (answer_paste W copied downgraded keys verified r)"
proof -
  have "run_well W (await_from W (PutBack (pv_snapshot (dl_previous r))) (AwaitPastedBack copied downgraded keys verified) r)"
    if "keys" "verified" "pv_saved (dl_previous r)"
    using assms that
    by (intro await_well) (auto simp: await_from_def happened knows_saved knows_waiting intro: was_sent_keeps)
  then show ?thesis using assms by (simp add: answer_paste_def answer_pasted_well)
qed

lemma run_pasted_well:
  assumes "run_knows W r" "may_paste W (dl_request r) (dl_deeds r)" "was_sent (dl_deeds r)" "dl_live r"
  shows "run_well W (run_pasted W method keys html r)"
proof -
  have "run_well W (await_from W AskShown (AwaitPasted downgraded keys) r)" for downgraded
    using assms by (intro await_well) (auto simp: await_from_def happened intro: was_sent_keeps may_paste_keeps)
  then show ?thesis
    using assms by (auto simp: run_pasted_def Let_def may_paste_def intro!: answer_paste_well)
qed

lemma backend_answered_well:
  assumes "run_knows W r" "may_paste W (dl_request r) (dl_deeds r)" "cc_ok c \<Longrightarrow> was_sent (dl_deeds r)" "dl_live r"
    "set rest \<subseteq> set (asked_methods W (dl_request r))"
  shows "run_well W (backend_answered W rest m keys c r)"
  unfolding backend_answered_def Let_def
  using assms by (auto intro!: run_pasted_well finish_copied_well paste_through_well simp: may_paste_def)

lemma copy_words_well:
  assumes "run_knows W r" "\<forall>v. CopyWords v \<notin> set (dl_deeds r)" "\<forall>s. InsertWords s \<notin> set (dl_deeds r)"
    "still_borrowed (dl_deeds r)" "\<not> was_copied (dl_deeds r)"
  shows "run_well W (while_running (copy_words W) r)"
proof -
  have "run_well W (copy_words W r)"
    unfolding copy_words_def using assms by (intro await_well) (auto simp: await_from_def happened)
  then show ?thesis using assms by (simp add: while_running_def run_well_dead)
qed

lemma knows_previous: "run_knows W r \<Longrightarrow> (pv_saved v \<Longrightarrow> was_saved (pv_snapshot v) (dl_deeds r)) \<Longrightarrow>
    run_knows W (r\<lparr>dl_previous := v\<rparr>)"
  by (simp add: run_knows_def)

lemma save_previous_well:
  assumes "run_knows W r" "\<forall>v. CopyWords v \<notin> set (dl_deeds r)" "\<forall>s. InsertWords s \<notin> set (dl_deeds r)"
    "still_borrowed (dl_deeds r)" "\<not> was_copied (dl_deeds r)" "\<not> dl_copied r"
    "wanted \<Longrightarrow> pc_method (asked_choice W (dl_request r)) \<noteq> ClipboardOnly"
  shows "run_well W (save_previous W wanted r)"
proof -
  have "run_knows W (r\<lparr>dl_previous := (dl_previous r)\<lparr>pv_warning := w\<rparr>\<rparr>)" for w
    using assms by (intro knows_previous) (auto simp: knows_saved)
  moreover have "run_well W (await_from W TakeSnapshot AwaitSnapshot r)" if "wanted"
    using assms that by (intro await_well) (auto simp: await_from_def happened)
  ultimately show ?thesis using assms by (simp add: save_previous_def copy_words_well)
qed

lemma focus_checked_well:
  assumes "run_knows W r" "\<forall>v. CopyWords v \<notin> set (dl_deeds r)" "\<forall>s. InsertWords s \<notin> set (dl_deeds r)"
    "still_borrowed (dl_deeds r)" "\<not> was_copied (dl_deeds r)" "\<not> dl_copied r"
    "f = SameFocus \<Longrightarrow> dw_provider W \<and> Heard (FocusIs SameFocus) \<in> set (dl_deeds r)"
  shows "run_well W (focus_checked W f r)"
  unfolding focus_checked_def Let_def
  using assms by (intro save_previous_well) (auto simp: run_knows_def)

lemma run_start_well: "run_well W (run_start W (fresh_run q))"
proof -
  let ?r = "(fresh_run q)\<lparr>dl_choice := asked_choice W q, dl_method := pc_method (asked_choice W q),
     dl_insertion := asked_insertion W q\<rparr>"
  have knows: "run_knows W ?r"
    by (simp add: run_knows_def fresh_run_def happened no_previous_clipboard_def)
  have empty: "dl_deeds ?r = []" "\<not> dl_copied ?r" by (simp_all add: fresh_run_def)
  have "run_well W (focus_checked W DifferentFocus ?r)"
    using knows empty by (intro focus_checked_well) (auto simp: happened)
  moreover have "run_well W (await_from W AskFocus AwaitFocus ?r)" if "dw_provider W"
    using knows empty that by (intro await_well) (auto simp: await_from_def dest!: say_live)
  moreover have "run_start W (fresh_run q) =
      (if \<not> dw_provider W then focus_checked W DifferentFocus ?r else await_from W AskFocus AwaitFocus ?r)"
    by (simp add: run_start_def Let_def fresh_run_def)
  ultimately show ?thesis by simp
qed

text \<open>A run after an answer was heard.\<close>

abbreviation heard_run :: "delivery_answer \<Rightarrow> delivery_run \<Rightarrow> delivery_run" where
  "heard_run a r \<equiv> r\<lparr>dl_awaits := None, dl_deeds := dl_deeds r @ [Heard a]\<rparr>"

lemma heard_knows:
  "run_knows W r \<Longrightarrow> may_do W (dl_request r) (dl_deeds r) (Heard a) \<Longrightarrow> run_knows W (heard_run a r)"
  by (auto simp: run_knows_def happened)

lemma was_sent_heard: "DeliverThrough m keys w \<in> set l \<Longrightarrow> cc_ok c \<Longrightarrow> was_sent (l @ [Heard (BackendIs c)])"
  unfolding was_sent_def by auto

lemma may_paste_heard: "may_paste W q l \<Longrightarrow> may_paste W q (l @ [Heard a])"
  by (rule may_paste_keeps) (simp_all add: happened)

lemma run_goes_on_well:
  assumes r: "run_knows W r" "dl_live r" "waits_well W r w" and fits: "answer_fits w a"
  shows "run_well W (run_goes_on W w a (heard_run a r))"
proof -
  have "may_do W (dl_request r) (dl_deeds r) (Heard a)"
    using r(3) fits by (cases a; cases w) auto
  with r(1) have k: "run_knows W (heard_run a r)" by (rule heard_knows)
  have returned: "run_knows W ((heard_run a r)\<lparr>dl_previous := clipboard_put_back c (dl_previous r)\<rparr>)" for c
    using knows_previous [OF k, of "clipboard_put_back c (dl_previous r)"] knows_saved [OF k]
    by (auto simp: clipboard_put_back_def Let_def)
  show ?thesis
  proof (cases w)
    case AwaitFocus
    then obtain f where a: "a = FocusIs f" using fits by (cases a) auto
    have "run_well W (focus_checked W f (heard_run a r))"
      using k r AwaitFocus a by (intro focus_checked_well) (auto simp: happened)
    then show ?thesis using AwaitFocus a by simp
  next
    case AwaitSnapshot
    then obtain c where a: "a = SnapshotIs c" using fits by (cases a) auto
    have "run_knows W ((heard_run a r)\<lparr>dl_previous := snapshot_taken c (dl_previous r)\<rparr>)"
      using knows_previous [OF k, of "snapshot_taken c (dl_previous r)"] a
      by (auto simp: snapshot_taken_def Let_def happened)
    then show ?thesis using AwaitSnapshot a r by (auto intro!: copy_words_well simp: happened)
  next
    case AwaitCopy
    then obtain c where a: "a = CopyIs c" using fits by (cases a) auto
    have "run_well W (words_copied W c (heard_run a r))"
      using k r AwaitCopy a by (intro words_copied_well) (auto simp: happened)
    then show ?thesis using AwaitCopy a by simp
  next
    case AwaitInserted
    then obtain v where a: "a = ShownIs v" using fits by (cases a) auto
    have "run_well W (inserted_directly W v (heard_run a r))"
      using k r AwaitInserted a by (intro inserted_directly_well) (auto simp: happened)
    then show ?thesis using AwaitInserted a by simp
  next
    case (AwaitInsertedBack v)
    then obtain c where a: "a = RestoreIs c" using fits by (cases a) auto
    show ?thesis using AwaitInsertedBack a r returned by (auto intro!: answer_inserted_well simp: happened)
  next
    case (AwaitPasteFocus rest m)
    then obtain f where a: "a = FocusIs f" using fits by (cases a) auto
    have "run_well W (paste_in_focus W rest m f (heard_run a r))"
      using k r AwaitPasteFocus a by (intro paste_in_focus_well) (auto simp: may_paste_heard)
    then show ?thesis using AwaitPasteFocus a by simp
  next
    case (AwaitBackend rest m keys gated)
    then obtain c where a: "a = BackendIs c" using fits by (cases a) auto
    have "run_well W (backend_answered W rest m keys c (heard_run a r))"
      using k r AwaitBackend a by (intro backend_answered_well) (auto simp: may_paste_heard was_sent_heard)
    then show ?thesis using AwaitBackend a by simp
  next
    case (AwaitPasted downgraded keys)
    then obtain v where a: "a = ShownIs v" using fits by (cases a) auto
    have "run_well W (answer_paste W False downgraded keys v (heard_run a r))"
      using k r AwaitPasted a
      by (intro answer_paste_well) (auto simp: happened may_paste_def was_sent_keeps)
    then show ?thesis using AwaitPasted a by simp
  next
    case (AwaitPastedBack copied downgraded keys v)
    then obtain c where a: "a = RestoreIs c" using fits by (cases a) auto
    show ?thesis using AwaitPastedBack a r returned
      by (auto intro!: answer_pasted_well simp: happened was_sent_keeps)
  qed
qed

lemma run_hears_well: "run_well W r \<Longrightarrow> run_well W (run_hears W a r)"
  using run_goes_on_well
  by (auto simp: run_hears_def while_running_def run_well_def split: option.splits)

text \<open>What the gate adds to what happened.\<close>

definition gate_deed :: "delivery_deed \<Rightarrow> bool" where
  "gate_deed d \<longleftrightarrow> d = AskFocus \<or> (\<exists>f. d = GateHeard f) \<or> (\<exists>b. d = GateReplied b)"

lemma gate_deeds [simp]: "gate_deed AskFocus" "gate_deed (GateHeard f)" "gate_deed (GateReplied b)"
  unfolding gate_deed_def by blast+

lemma gate_deed_adds [happened]:
  "gate_deed d \<Longrightarrow> was_copied (l @ [d]) = was_copied l" "gate_deed d \<Longrightarrow> was_seen (l @ [d]) = was_seen l"
  "gate_deed d \<Longrightarrow> still_borrowed (l @ [d]) = still_borrowed l"
  "gate_deed d \<Longrightarrow> was_accepted W [] (l @ [d]) = was_accepted W [] l"
  by (auto simp: gate_deed_def happened)

lemma waits_well_gate:
  assumes "waits_well W r w" "w \<noteq> AwaitFocus" "gate_deed d"
  shows "waits_well W (r\<lparr>dl_deeds := dl_deeds r @ [d], dl_live := l, dl_destroyed := g, dl_gates := n\<rparr>) w"
  using assms
  by (cases w) (auto simp: happened was_sent_keeps gate_deed_def intro!: may_paste_keeps)

lemma waits_well_say:
  assumes "waits_well W r w" "w \<noteq> AwaitFocus" "gate_deed d" "dl_live (say W d r)"
  shows "waits_well W (say W d r) w"
proof -
  have "say W d r = r\<lparr>dl_deeds := dl_deeds r @ [d], dl_live := dl_live r, dl_destroyed := dl_destroyed r,
      dl_gates := dl_gates r\<rparr>"
    using assms(4) by (simp add: say_def run_stop_def Let_def split: if_splits)
  then show ?thesis using waits_well_gate [OF assms(1-3)] by metis
qed

lemma gate_asked_well:
  assumes "run_well W r"
  shows "run_well W (gate_asked W r)"
proof (cases "dl_awaits r")
  case (Some w)
  show ?thesis
  proof (cases "\<exists>rest m gated. w = AwaitBackend rest m True gated")
    case True
    then obtain rest m gated where w: "w = AwaitBackend rest m True gated" by blast
    have knows: "run_knows W r" using assms by (simp add: run_well_def)
    have waits: "waits_well W r w" if "dl_live r" using assms that Some by (simp add: run_well_def)
    have said: "run_well W (say W d r)" if "gate_deed d" "may_do W (dl_request r) (dl_deeds r) d" for d
    proof -
      have "run_knows W (say W d r)" using knows that by (intro run_knows_say) (auto simp: gate_deed_def)
      moreover have "waits_well W (say W d r) w" if "dl_live (say W d r)"
        using waits w that \<open>gate_deed d\<close> by (intro waits_well_say) (auto dest: say_live)
      ultimately show ?thesis using Some by (auto simp: run_well_def)
    qed
    have keys: "keys_asked (dl_deeds r)" if "dl_live r"
      using waits [OF that] w by (auto simp: keys_asked_def)
    have no: "run_well W (say W (GateReplied False) r)" by (rule said) auto
    have yes: "run_well W (say W (GateReplied True) r)" if "dl_live r" "\<not> gated"
    proof (rule said)
      show "may_do W (dl_request r) (dl_deeds r) (GateReplied True)"
        using waits [OF that(1)] w that keys knows by (auto simp: knows_waiting run_knows_def)
    qed simp
    have asks: "run_well W ((say W AskFocus r)\<lparr>dl_gates := Suc (dl_gates r)\<rparr>)" if "dl_live r"
    proof -
      have "run_well W (say W AskFocus r)" by (rule said) auto
      moreover have "keys_asked (dl_deeds (say W AskFocus r))" using keys that by (simp add: happened)
      moreover have "waits_well W (s\<lparr>dl_gates := n\<rparr>) v = waits_well W s v" for s n v by (cases v) auto
      ultimately show ?thesis by (auto simp: run_well_def run_knows_def happened)
    qed
    show ?thesis using Some w no yes asks by (auto simp: gate_asked_def)
  next
    case False
    then show ?thesis using Some assms by (auto simp: gate_asked_def split: awaited_answer.splits)
  qed
qed (use assms in \<open>simp add: gate_asked_def\<close>)

lemma gate_heard_well:
  assumes "run_well W r"
  shows "run_well W (gate_heard W f r)"
proof (cases "dl_gates r")
  case 0
  then show ?thesis using assms by (simp add: gate_heard_def)
next
  case (Suc n)
  define s where "s = r\<lparr>dl_gates := dl_gates r - 1, dl_deeds := dl_deeds r @ [GateHeard f]\<rparr>"
  have knows: "run_knows W r" and keys: "keys_asked (dl_deeds r)"
    using assms Suc by (auto simp: run_well_def run_knows_def)
  have s: "run_knows W s"
    using knows keys by (auto simp: s_def run_knows_def happened)
  have "run_knows W (say W (GateReplied (f = SameFocus \<and> dl_live r)) s)"
    using s keys knows by (intro run_knows_say) (auto simp: s_def happened knows_waiting)
  moreover have "\<exists>w. dl_awaits r = Some w \<and> waits_well W (say W (GateReplied b) s) w"
    if said: "dl_live (say W (GateReplied b) s)" for b
  proof -
    have live: "dl_live r" using said by (auto simp: s_def dest!: say_live)
    obtain w where w: "dl_awaits r = Some w" "waits_well W r w" using assms live by (auto simp: run_well_def)
    have "w \<noteq> AwaitFocus" using w(2) keys by (auto simp: keys_asked_def)
    then have "waits_well W (r\<lparr>dl_deeds := dl_deeds r @ [GateHeard f], dl_live := dl_live r,
        dl_destroyed := dl_destroyed r, dl_gates := dl_gates r - 1\<rparr>) w"
      using w(2) by (intro waits_well_gate) auto
    then have "waits_well W s w" by (cases w) (auto simp: s_def)
    then have "waits_well W (say W (GateReplied b) s) w"
      using \<open>w \<noteq> AwaitFocus\<close> said by (intro waits_well_say) auto
    then show ?thesis using w by simp
  qed
  moreover have "gate_heard W f r = say W (GateReplied (f = SameFocus \<and> dl_live r)) s"
    using Suc by (simp add: gate_heard_def s_def)
  ultimately show ?thesis by (auto simp: run_well_def s_def)
qed

end
