(* ===== verification/Delivery_Queue.thy ===== *)
theory Delivery_Queue
  imports Delivery_Runs
begin

text \<open>
  TextDelivery around its runs: how a run goes on and ends, that deliveries are
  answered one after another in the order they were asked for (the contract
  \<open>answers_in_order\<close>, which a Dictation Session counts its answers by), and that a
  run whose calls are answered answers too. The properties at the end read the
  promises of \<open>Delivery_Runs\<close> off for whole runs of a TextDelivery.
\<close>

section \<open>How a run goes on\<close>

text \<open>
  A step adds to what happened. It ends the run with its answer, or with the
  delivery gone, and a run that ended answers nothing.
\<close>

definition went_on :: "delivery_run \<Rightarrow> delivery_run \<Rightarrow> bool" where
  "went_on r r' \<longleftrightarrow> dl_request r' = dl_request r \<and> (dl_live r' \<longrightarrow> dl_live r) \<and> (dl_destroyed r \<longrightarrow> dl_destroyed r')
     \<and> (\<exists>k. dl_deeds r' = dl_deeds r @ k \<and> (dl_live r \<and> \<not> dl_destroyed r' \<longrightarrow> dl_live r' = unanswered k)
          \<and> (\<not> unanswered k \<longrightarrow> dl_live r \<and> \<not> dl_live r'))"

lemma went_nowhere: "dl_request r' = dl_request r \<Longrightarrow> dl_live r' = dl_live r \<Longrightarrow> dl_destroyed r' = dl_destroyed r \<Longrightarrow>
    dl_deeds r' = dl_deeds r \<Longrightarrow> went_on r r'"
  by (auto simp: went_on_def happened intro!: exI [of _ "[]"])

lemma went_trans:
  assumes "went_on r s" "went_on s t"
  shows "went_on r t"
proof -
  obtain k where k: "dl_deeds s = dl_deeds r @ k" "dl_live r \<and> \<not> dl_destroyed s \<longrightarrow> dl_live s = unanswered k"
    "\<not> unanswered k \<longrightarrow> dl_live r \<and> \<not> dl_live s" using assms(1) unfolding went_on_def by blast
  obtain j where j: "dl_deeds t = dl_deeds s @ j" "dl_live s \<and> \<not> dl_destroyed t \<longrightarrow> dl_live t = unanswered j"
    "\<not> unanswered j \<longrightarrow> dl_live s \<and> \<not> dl_live t" using assms(2) unfolding went_on_def by blast
  have more: "dl_request t = dl_request r" "dl_live t \<longrightarrow> dl_live s" "dl_live s \<longrightarrow> dl_live r"
    "dl_destroyed r \<longrightarrow> dl_destroyed s" "dl_destroyed s \<longrightarrow> dl_destroyed t"
    using assms unfolding went_on_def by auto
  have "unanswered (k @ j) \<longleftrightarrow> unanswered k \<and> unanswered j" by (rule unanswered_more)
  then have "dl_live r \<and> \<not> dl_destroyed t \<longrightarrow> dl_live t = unanswered (k @ j)"
    "\<not> unanswered (k @ j) \<longrightarrow> dl_live r \<and> \<not> dl_live t"
    using k j more by argo+
  then show ?thesis unfolding went_on_def using more k(1) j(1) by (intro conjI exI [of _ "k @ j"]) simp_all
qed

lemma went_say: "(\<And>res. d \<noteq> AnswerWith res) \<Longrightarrow> went_on r (say W d r)"
  by (auto simp: went_on_def say_def run_stop_def Let_def happened)

lemma went_await:
  assumes "\<And>res. d \<noteq> AnswerWith res"
  shows "went_on r (await_from W d w r)"
proof (rule went_trans)
  show "went_on r (say W d r)" using assms by (rule went_say)
  show "went_on (say W d r) (await_from W d w r)" by (rule went_nowhere) (simp_all add: await_from_def)
qed

lemma went_finish: "went_on r (run_finish W res r)"
  by (auto simp: run_finish_def while_running_def went_on_def say_def run_stop_def Let_def happened)

lemma went_while: "(dl_live r \<Longrightarrow> went_on r (f r)) \<Longrightarrow> went_on r (while_running f r)"
  by (simp add: while_running_def went_nowhere)

text \<open>Through an update that changes nothing of this.\<close>

lemma went_from: "went_on s t \<Longrightarrow> dl_request s = dl_request r \<Longrightarrow> dl_live s = dl_live r \<Longrightarrow>
    dl_destroyed s = dl_destroyed r \<Longrightarrow> dl_deeds s = dl_deeds r \<Longrightarrow> went_on r t"
  by (simp add: went_on_def)

lemmas went = went_await went_finish went_while

lemma went_copied: "went_on r (finish_copied W r)"
  unfolding finish_copied_def by (rule went_finish)

lemma went_paste_through: "went_on r (paste_through_backend W ms r)"
  by (auto simp: paste_through_backend_def press_through_def Let_def went went_copied split: list.splits)

lemma went_paste_in_focus: "went_on r (paste_in_focus W rest m f r)"
proof -
  obtain refusal s where x: "paste_refusal W f r = (refusal, s)" by force
  then have "went_on r s" by (auto simp: paste_refusal_def Let_def went_say went_nowhere split: if_splits)
  moreover have "went_on s (finish_copied W (s\<lparr>dl_first_error := e\<rparr>))" for e
    by (rule went_from [OF went_copied]) simp_all
  ultimately show ?thesis
    by (auto simp: paste_in_focus_def x press_through_def intro!: went_trans [of r s] went)
qed

lemma went_only_inserting: "went_on r (paste_unless_only_inserting W e r)"
  unfolding paste_unless_only_inserting_def Let_def
  by (auto intro!: went went_paste_through went_from [OF went_finish] went_from [OF went_paste_through])

lemma went_insert_or_paste: "went_on r (insert_or_paste W r)"
proof -
  obtain inserted e s where x: "try_insertion W r = (inserted, e, s)" by (cases "try_insertion W r") auto
  then have "went_on r s"
    by (auto simp: try_insertion_def Let_def went_nowhere intro!: went_say went_trans [OF went_say went_say]
          split: if_splits prod.splits)
  then show ?thesis
    by (auto simp: insert_or_paste_def x intro!: went_trans [of r s] went went_only_inserting)
qed

lemma went_copy: "went_on r (while_running (copy_words W) r)"
  by (auto simp: copy_words_def intro!: went)

lemma went_save: "went_on r (save_previous W wanted r)"
  by (auto simp: save_previous_def went_copy intro!: went intro: went_from [OF went_copy])

lemma went_focus_checked: "went_on r (focus_checked W f r)"
  unfolding focus_checked_def Let_def by (rule went_from [OF went_save]) simp_all

lemma went_start: "went_on r (run_start W r)"
  unfolding run_start_def Let_def
  by (auto intro: went_from [OF went_focus_checked] went_from [OF went_await])

lemma went_answers: "went_on r (answer_inserted W v r)" "went_on r (answer_pasted W c d keys v returned r)"
  unfolding answer_inserted_def answer_pasted_def Let_def by (rule went_finish)+

lemma went_goes_on: "went_on r (run_goes_on W w a r)"
proof (cases w)
  case AwaitSnapshot
  then show ?thesis
    by (auto simp: went_nowhere intro: went_from [OF went_copy] split: delivery_answer.splits)
next
  case (AwaitInsertedBack v)
  then show ?thesis
    by (auto simp: went_nowhere intro: went_from [OF went_answers(1)] split: delivery_answer.splits)
next
  case (AwaitPastedBack c d k v)
  then show ?thesis
    by (auto simp: went_nowhere intro: went_from [OF went_answers(2)] split: delivery_answer.splits)
qed (auto simp: went_focus_checked went_nowhere words_copied_def inserted_directly_def went_answers
       went_paste_in_focus backend_answered_def run_pasted_def answer_paste_def Let_def
     intro!: went intro: went_from [OF went_insert_or_paste] went_from [OF went_copied]
       went_from [OF went_paste_through] split: delivery_answer.splits)

lemma went_hears: "went_on r (run_hears W a r)"
proof -
  have heard: "went_on r (heard_run a r)" by (auto simp: went_on_def happened)
  show ?thesis
    by (auto simp: run_hears_def went_nowhere intro!: went_while went_trans [OF heard went_goes_on] split: option.splits)
qed

lemma went_gates: "went_on r (gate_asked W r)" "went_on r (gate_heard W f r)"
proof -
  have "went_on (say W AskFocus r) ((say W AskFocus r)\<lparr>dl_gates := n\<rparr>)" for n by (rule went_nowhere) simp_all
  then have "went_on r ((say W AskFocus r)\<lparr>dl_gates := n\<rparr>)" for n
    by (rule went_trans [rotated]) (simp add: went_say)
  then show "went_on r (gate_asked W r)"
    by (auto simp: gate_asked_def went_nowhere went_say split: option.splits awaited_answer.splits)
  have "went_on r (r\<lparr>dl_gates := n, dl_deeds := dl_deeds r @ [GateHeard f]\<rparr>)" for n
    by (auto simp: went_on_def happened)
  from went_trans [OF this went_say] show "went_on r (gate_heard W f r)"
    by (simp add: gate_heard_def went_nowhere)
qed

text \<open>The answer a step gave.\<close>

lemma answer_among_none: "answer_among k = None \<longleftrightarrow> unanswered k"
  by (induction k) (auto simp: happened split: delivery_deed.splits)

lemma went_answer:
  assumes "went_on r r'"
  shows "answer_among (drop (length (dl_deeds r)) (dl_deeds r')) = None \<Longrightarrow> dl_live r \<Longrightarrow> \<not> dl_destroyed r' \<Longrightarrow> dl_live r'"
    "answer_among (drop (length (dl_deeds r)) (dl_deeds r')) = Some res \<Longrightarrow> dl_live r \<and> \<not> dl_live r'"
  using assms by (auto simp: went_on_def simp flip: answer_among_none)

section \<open>Deliveries one after another\<close>

text \<open>
  The requests that wait, the one being delivered at their head, and whether it
  is: what a queue with one worker does at each turn.
\<close>

fun queue_turn :: "delivery_turn \<Rightarrow> (delivery_request list \<times> bool) option \<Rightarrow> (delivery_request list \<times> bool) option" where
  "queue_turn t None = None"
| "queue_turn (Requested q) (Some (qs, busy)) = Some (qs @ [q], busy)"
| "queue_turn (Began q) (Some (qs, busy)) =
     (if \<not> busy \<and> qs \<noteq> [] \<and> hd qs = q then Some (qs, True) else None)"
| "queue_turn (Delivered res l) (Some (qs, busy)) = (if busy then Some (tl qs, False) else None)"

definition delivering :: "text_delivery \<Rightarrow> bool" where
  "delivering d \<longleftrightarrow> (\<exists>r. td_run d = Some r \<and> dl_live r)"

text \<open>
  An answer is the run's own, given while it was waited for and true of what the run
  did until then, or the deadline's, which says no more than that it did not finish.
\<close>

definition answer_true :: "delivery_world \<Rightarrow> delivery_result \<Rightarrow> delivery_deed list \<Rightarrow> bool" where
  "answer_true W res l \<longleftrightarrow>
     (\<exists>k j. l = k @ AnswerWith res # j \<and> still_waiting k \<and> truthful W k res) \<or> res = unfinished \<and> still_waiting l"

definition delivery_well :: "delivery_world \<Rightarrow> text_delivery \<Rightarrow> bool" where
  "delivery_well W d \<longleftrightarrow> (\<forall>r. td_run d = Some r \<longrightarrow> run_well W r)
     \<and> (\<forall>res l. Delivered res l \<in> set (td_turns d) \<longrightarrow> answer_true W res l)
     \<and> (td_alive d \<longrightarrow> fold queue_turn (td_turns d) (Some ([], False)) = Some (td_requests d, delivering d)
          \<and> (\<forall>r. td_run d = Some r \<and> dl_live r \<longrightarrow> td_requests d \<noteq> [] \<and> hd (td_requests d) = dl_request r))
     \<and> (\<not> td_alive d \<longrightarrow> fold queue_turn (td_turns d) (Some ([], False)) \<noteq> None \<and> \<not> delivering d)"

lemma run_stop_well: "run_well W r \<Longrightarrow> run_well W (run_stop r)"
  using run_knows_stop by (auto simp: run_well_def run_stop_def)

lemma idle_well: "delivery_well W idle_delivery"
  by (simp add: delivery_well_def idle_delivery_def delivering_def)

lemma answer_among_member: "answer_among l = Some res \<Longrightarrow> AnswerWith res \<in> set l"
  by (induction l) (auto split: delivery_deed.splits)

lemma own_answer_true:
  assumes "run_well W r" "answer_among (drop n (dl_deeds r)) = Some res"
  shows "answer_true W res (dl_deeds r)"
proof -
  have "AnswerWith res \<in> set (dl_deeds r)" using answer_among_member [OF assms(2)] in_set_dropD by fast
  then obtain k j where "dl_deeds r = k @ AnswerWith res # j" by (meson split_list)
  moreover have "keeps_promise W (dl_request r) (dl_deeds r)" using assms(1) by (simp add: run_well_def run_knows_def)
  ultimately have "dl_deeds r = k @ AnswerWith res # j" "may_do W (dl_request r) k (AnswerWith res)"
    unfolding keeps_promise_def by blast+
  then show ?thesis by (auto simp: answer_true_def)
qed

lemma run_moved_well:
  assumes "delivery_well W d" "td_alive d" "td_run d = Some r" "went_on r r'" "run_well W r'"
  shows "delivery_well W (run_moved r r' d)"
proof -
  let ?k = "drop (length (dl_deeds r)) (dl_deeds r')"
  have same: "dl_request r' = dl_request r" "dl_live r' \<Longrightarrow> dl_live r" using assms(4) by (auto simp: went_on_def)
  show ?thesis
  proof (cases "answer_among ?k")
    case None
    then show ?thesis using assms same went_answer(1) [OF assms(4) None]
      by (auto simp: run_moved_def Let_def delivery_well_def delivering_def delivery_destroyed_def run_stop_well)
         (auto simp: run_stop_def)
  next
    case (Some res)
    then show ?thesis using assms same went_answer(2) [OF assms(4) Some]
      by (auto simp: run_moved_def Let_def delivery_well_def delivering_def delivery_destroyed_def run_stop_well
          delivery_answer_with_def own_answer_true)
         (auto simp: run_stop_def)
  qed
qed

lemma fresh_moved_well:
  assumes "delivery_well W d" "td_alive d" "td_run d = None" "td_requests d = q # qs"
  shows "delivery_well W (run_moved (fresh_run q) (run_start W (fresh_run q)) (d\<lparr>td_turns := td_turns d @ [Began q]\<rparr>))"
proof -
  let ?r = "fresh_run q" and ?r' = "run_start W (fresh_run q)"
  let ?k = "drop (length (dl_deeds ?r)) (dl_deeds ?r')"
  have went: "went_on ?r ?r'" and well: "run_well W ?r'" by (rule went_start, rule run_start_well)
  have same: "dl_request ?r' = q" "dl_live ?r" using went by (auto simp: went_on_def fresh_run_def)
  have turns: "fold queue_turn (td_turns d) (Some ([], False)) = Some (q # qs, False)"
    using assms by (auto simp: delivery_well_def delivering_def)
  show ?thesis
  proof (cases "answer_among ?k")
    case None
    then show ?thesis using assms same turns well went_answer(1) [OF went None]
      by (auto simp: run_moved_def Let_def delivery_well_def delivering_def delivery_destroyed_def run_stop_well)
         (auto simp: run_stop_def)
  next
    case (Some res)
    then show ?thesis using assms same turns well went_answer(2) [OF went Some]
      by (auto simp: run_moved_def Let_def delivery_well_def delivering_def delivery_destroyed_def run_stop_well
          delivery_answer_with_def own_answer_true)
         (auto simp: run_stop_def)
  qed
qed

lemma in_run_well:
  assumes "delivery_well W d" "td_alive d" "\<And>r. went_on r (f r)" "\<And>r. run_well W r \<Longrightarrow> run_well W (f r)"
  shows "delivery_well W (in_run f d)"
proof (cases "td_run d")
  case (Some r)
  then have "run_well W r" using assms(1) by (simp add: delivery_well_def)
  then show ?thesis using run_moved_well [OF assms(1,2) Some assms(3,4)] Some by (simp add: in_run_def)
qed (use assms in \<open>simp add: in_run_def\<close>)

lemma delivery_step_well:
  assumes "delivery_well W d"
  shows "delivery_well W (delivery_step W e d)"
proof (cases "td_alive d")
  case alive: True
  show ?thesis
  proof (cases e)
    case (DeliverAsked q)
    then show ?thesis using assms alive
      by (auto simp: delivery_step_def delivery_ask_def delivery_well_def delivering_def)
  next
    case NextTurn
    let ?d = "d\<lparr>td_queued := td_queued d - 1\<rparr>"
    have "delivery_well W ?d" using assms by (auto simp: delivery_well_def delivering_def)
    then have "delivery_well W (start_next W ?d)" using alive fresh_moved_well [of W ?d]
      by (auto simp: start_next_def split: option.splits list.splits)
    then show ?thesis using NextTurn assms alive by (simp add: delivery_step_def)
  next
    case (RunHears a)
    then show ?thesis using assms alive in_run_well [OF assms alive went_hears run_hears_well]
      by (simp add: delivery_step_def)
  next
    case GateAsked
    then show ?thesis using assms alive in_run_well [OF assms alive went_gates(1) gate_asked_well]
      by (simp add: delivery_step_def)
  next
    case (GateHears f)
    then show ?thesis using assms alive in_run_well [OF assms alive went_gates(2) gate_heard_well]
      by (simp add: delivery_step_def)
  next
    case DeadlinePassed
    have "answer_true W unfinished (dl_deeds r)" if "td_run d = Some r" "dl_live r" for r
      using assms that by (auto simp: delivery_well_def run_well_def answer_true_def dest: knows_waiting)
    then show ?thesis using DeadlinePassed assms alive
      by (auto simp: delivery_step_def deadline_passed_def delivery_answer_with_def delivery_well_def delivering_def
          run_stop_well split: option.splits) (auto simp: run_stop_def)
  next
    case RunGone
    then show ?thesis using assms alive
      by (auto simp: delivery_step_def run_gone_def delivery_well_def delivering_def split: option.splits)
  next
    case DeliveryGone
    then show ?thesis using assms alive
      by (auto simp: delivery_step_def delivery_destroyed_def delivery_well_def delivering_def run_stop_well)
         (auto simp: run_stop_def)
  qed
qed (use assms in \<open>simp add: delivery_step_def\<close>)

lemma delivery_events_well: "delivery_well W (delivery_events W es idle_delivery)"
proof -
  have "delivery_well W d \<Longrightarrow> delivery_well W (fold (delivery_step W) es d)" for d
    by (induction es arbitrary: d) (simp_all add: delivery_step_well)
  then show ?thesis by (simp add: delivery_events_def idle_well)
qed

section \<open>A run comes to an end\<close>

text \<open>How many answers a run may still wait for.\<close>

fun answers_left :: "awaited_answer \<Rightarrow> nat" where
  "answers_left AwaitFocus = 11"
| "answers_left AwaitSnapshot = 10"
| "answers_left AwaitCopy = 9"
| "answers_left (AwaitPasteFocus rest m) = 4 + 2 * length rest"
| "answers_left (AwaitBackend rest m keys gated) = 3 + 2 * length rest"
| "answers_left AwaitInserted = 2"
| "answers_left (AwaitPasted downgraded keys) = 2"
| "answers_left (AwaitInsertedBack v) = 1"
| "answers_left (AwaitPastedBack copied downgraded keys v) = 1"

definition run_left :: "delivery_run \<Rightarrow> nat" where
  "run_left r = (if dl_live r then case dl_awaits r of Some w \<Rightarrow> answers_left w | None \<Rightarrow> 0 else 0)"

lemma left_await: "answers_left w \<le> n \<Longrightarrow> run_left (await_from W d w r) \<le> n"
  by (simp add: run_left_def await_from_def)

lemma left_dead: "\<not> dl_live r \<Longrightarrow> run_left r \<le> n"
  by (simp add: run_left_def)

lemma left_finish [simp]: "run_left (run_finish W res r) = 0"
  by (simp add: run_left_def run_finish_def while_running_def run_stop_def say_def Let_def)

lemma left_while: "run_left (f r) \<le> n \<Longrightarrow> run_left (while_running f r) \<le> n"
  by (simp add: while_running_def left_dead)

lemmas left = left_await left_while

lemma few_methods: "length (ordered_methods p s pm) \<le> 3"
  by (cases p) (simp_all add: ordered_methods_def Let_def)

lemma left_paste_through:
  assumes "2 + 2 * length ms \<le> n"
  shows "run_left (paste_through_backend W ms r) \<le> n"
proof (cases "dropWhile (\<lambda>m. \<not> dw_backend W m (run_output r) (pc_method (dl_choice r))) ms")
  case Nil
  show ?thesis unfolding paste_through_backend_def Nil list.case finish_copied_def by simp
next
  case (Cons m rest)
  then have "Suc (length rest) \<le> length ms" by (metis length_Cons length_dropWhile_le)
  then show ?thesis unfolding paste_through_backend_def Cons list.case press_through_def Let_def
    using assms by (auto intro!: left)
qed

lemma left_paste_in_focus: "3 + 2 * length rest \<le> n \<Longrightarrow> run_left (paste_in_focus W rest m f r) \<le> n"
  by (auto simp: paste_in_focus_def finish_copied_def press_through_def intro!: left split: prod.split)

lemma left_only_inserting: "8 \<le> n \<Longrightarrow> run_left (paste_unless_only_inserting W e r) \<le> n"
proof -
  assume "8 \<le> n"
  then have "2 + 2 * length (ordered_methods p s pm) \<le> n" for p s pm using few_methods [of p s pm] by linarith
  then show ?thesis
    by (auto simp: paste_unless_only_inserting_def Let_def intro!: left left_paste_through)
qed

lemma left_words_copied: "8 \<le> n \<Longrightarrow> run_left (words_copied W c r) \<le> n"
  by (auto simp: words_copied_def insert_or_paste_def intro!: left left_only_inserting split: prod.split)

lemma left_answers [simp]:
  "run_left (answer_inserted W v r) = 0" "run_left (answer_pasted W c d keys v returned r) = 0"
  unfolding answer_inserted_def answer_pasted_def Let_def by (rule left_finish)+

lemma left_answer_paste: "1 \<le> n \<Longrightarrow> run_left (answer_paste W c d keys v r) \<le> n"
  by (auto simp: answer_paste_def intro!: left)

lemma left_backend: "2 + 2 * length rest \<le> n \<Longrightarrow> run_left (backend_answered W rest m keys c r) \<le> n"
  by (auto simp: backend_answered_def run_pasted_def finish_copied_def Let_def
      intro!: left left_paste_through left_answer_paste)

lemma left_goes_on:
  assumes "answer_fits w a"
  shows "run_left (run_goes_on W w a r) \<le> answers_left w - 1"
proof (cases w)
  case AwaitFocus
  then show ?thesis using assms
    by (auto simp: focus_checked_def save_previous_def copy_words_def Let_def intro!: left split: delivery_answer.splits)
next
  case AwaitSnapshot
  then show ?thesis using assms by (auto simp: copy_words_def intro!: left split: delivery_answer.splits)
next
  case AwaitInserted
  then show ?thesis using assms
    by (auto simp: inserted_directly_def intro!: left split: delivery_answer.splits)
qed (use assms in \<open>auto intro!: left_words_copied left_paste_in_focus left_backend left_answer_paste
       split: delivery_answer.splits\<close>)

lemma left_hears:
  assumes "dl_live r" "dl_awaits r = Some w" "answer_fits w a"
  shows "run_left (run_hears W a r) < run_left r"
proof -
  have "0 < answers_left w" by (cases w) auto
  then show ?thesis using assms left_goes_on [OF assms(3)] le_less_trans
    by (fastforce simp: run_hears_def while_running_def run_left_def [of r])
qed

lemma run_left_start: "run_left (run_start W (fresh_run q)) \<le> 11"
proof -
  have "run_left (focus_checked W f r) \<le> 11" for f r
    by (auto simp: focus_checked_def save_previous_def copy_words_def Let_def intro!: left)
  then show ?thesis by (auto simp: run_start_def Let_def intro!: left)
qed

lemma well_awaits: "run_well W r \<Longrightarrow> dl_live r \<Longrightarrow> \<exists>w. dl_awaits r = Some w"
  by (auto simp: run_well_def)

text \<open>A run to whose calls so many answers came, each as reply has it.\<close>

fun answered_times :: "delivery_world \<Rightarrow> (delivery_run \<Rightarrow> delivery_answer) \<Rightarrow> nat \<Rightarrow> delivery_run \<Rightarrow> delivery_run" where
  "answered_times W reply 0 r = r"
| "answered_times W reply (Suc n) r = answered_times W reply n (run_hears W (reply r) r)"

lemma left_positive: "run_well W r \<Longrightarrow> dl_live r \<Longrightarrow> 0 < run_left r"
proof -
  assume "run_well W r" "dl_live r"
  then obtain w where "dl_awaits r = Some w" using well_awaits by blast
  moreover have "0 < answers_left w" by (cases w) auto
  ultimately show ?thesis using \<open>dl_live r\<close> by (simp add: run_left_def)
qed

lemma dead_hears: "\<not> dl_live r \<Longrightarrow> run_hears W a r = r"
  by (simp add: run_hears_def while_running_def split: option.splits)

lemma answered_times_ends:
  assumes "\<And>r w. dl_awaits r = Some w \<Longrightarrow> answer_fits w (reply r)" "run_well W r" "run_left r \<le> n"
  shows "\<not> dl_live (answered_times W reply n r)"
  using assms(2,3)
proof (induction n arbitrary: r)
  case 0
  then show ?case using left_positive by fastforce
next
  case (Suc n)
  show ?case
  proof (cases "dl_live r")
    case True
    then obtain w where "dl_awaits r = Some w" using well_awaits Suc by blast
    then have "run_left (run_hears W (reply r) r) < run_left r" using left_hears True assms(1) by blast
    then show ?thesis using Suc run_hears_well by simp
  next
    case False
    then show ?thesis using Suc by (simp add: dead_hears run_left_def)
  qed
qed

lemma answered_times_went: "went_on r (answered_times W reply n r)"
  by (induction n arbitrary: r) (auto intro: went_nowhere went_trans [OF went_hears])

section \<open>In the order asked\<close>

fun requested :: "delivery_turn list \<Rightarrow> delivery_request list" where
  "requested [] = []"
| "requested (t # ts) = (case t of Requested q \<Rightarrow> q # requested ts | _ \<Rightarrow> requested ts)"

fun begun :: "delivery_turn list \<Rightarrow> delivery_request list" where
  "begun [] = []"
| "begun (t # ts) = (case t of Began q \<Rightarrow> q # begun ts | _ \<Rightarrow> begun ts)"

fun results :: "delivery_turn list \<Rightarrow> delivery_result list" where
  "results [] = []"
| "results (t # ts) = (case t of Delivered res l \<Rightarrow> res # results ts | _ \<Rightarrow> results ts)"

lemma turns_append [simp]:
  "requested (ts @ us) = requested ts @ requested us" "begun (ts @ us) = begun ts @ begun us"
  "results (ts @ us) = results ts @ results us"
  by (induction ts) (auto split: delivery_turn.splits)

text \<open>
  The queue with one worker, as lists: what waits is what was asked and not yet
  answered, and what began is what was asked first.
\<close>

lemma queue_turns:
  assumes "fold queue_turn ts (Some ([], False)) = Some (qs, busy)"
  shows "qs = drop (length (results ts)) (requested ts)
     \<and> begun ts = take (length (results ts) + of_bool busy) (requested ts)
     \<and> length (results ts) + of_bool busy \<le> length (requested ts)"
  using assms
proof (induction ts arbitrary: qs busy rule: rev_induct)
  case (snoc t ts)
  obtain ps b where before: "fold queue_turn ts (Some ([], False)) = Some (ps, b)" "queue_turn t (Some (ps, b)) = Some (qs, busy)"
    using snoc.prems by (cases "fold queue_turn ts (Some ([], False))") auto
  note ih = snoc.IH [OF before(1)]
  show ?case
  proof (cases t)
    case (Requested q)
    then show ?thesis using ih before(2) by auto
  next
    case (Began q)
    then have b: "\<not> b" "ps \<noteq> []" "hd ps = q" "qs = ps" "busy" using before(2) by (auto split: if_splits)
    then have "length (results ts) < length (requested ts)" "requested ts ! length (results ts) = q"
      using ih by (auto simp: hd_drop_conv_nth)
    then show ?thesis using ih b Began by (auto simp: take_Suc_conv_app_nth)
  next
    case (Delivered res l)
    then have "b" "qs = tl ps" "\<not> busy" using before(2) by (auto split: if_splits)
    then show ?thesis using ih Delivered by (auto simp: drop_Suc tl_drop)
  qed
qed simp

text \<open>What whoever asks for deliveries counts on: an answer is that of the first request not yet answered.\<close>

locale answers_in_order =
  fixes turns :: "'s \<Rightarrow> delivery_turn list"
    and good :: "'s \<Rightarrow> bool"
    and begins :: "'s"
    and step :: "'e \<Rightarrow> 's \<Rightarrow> 's"
  assumes good_begins: "good begins"
    and good_step: "good s \<Longrightarrow> good (step e s)"
    and good_turns: "good s \<Longrightarrow> fold queue_turn (turns s) (Some ([], False)) \<noteq> None"
begin

lemma good_always: "good (fold step es begins)"
proof -
  have "good s \<Longrightarrow> good (fold step es s)" for s by (induction es arbitrary: s) (simp_all add: good_step)
  then show ?thesis by (simp add: good_begins)
qed

lemma in_order:
  fixes es
  defines "ts \<equiv> turns (fold step es begins)"
  shows "begun ts = take (length (begun ts)) (requested ts)
    \<and> (length (begun ts) = length (results ts) \<or> length (begun ts) = Suc (length (results ts)))"
proof -
  obtain qs busy where "fold queue_turn ts (Some ([], False)) = Some (qs, busy)"
    using good_turns [OF good_always] unfolding ts_def by fastforce
  from queue_turns [OF this] show ?thesis by (cases busy) simp_all
qed

end

interpretation dq: answers_in_order td_turns "delivery_well W" idle_delivery "delivery_step W" for W
proof unfold_locales
  show "delivery_well W idle_delivery" by (rule idle_well)
  show "delivery_well W d \<Longrightarrow> delivery_well W (delivery_step W e d)" for d e by (rule delivery_step_well)
  show "delivery_well W d \<Longrightarrow> fold queue_turn (td_turns d) (Some ([], False)) \<noteq> None" for d
    by (cases "td_alive d") (auto simp: delivery_well_def)
qed

section \<open>What holds of every delivery\<close>

lemma keeps_promiseD: "keeps_promise W q l \<Longrightarrow> l = k @ d # j \<Longrightarrow> may_do W q k d"
  by (simp add: keeps_promise_def)

lemma run_keeps_promise:
  "td_run (delivery_events W es idle_delivery) = Some r \<Longrightarrow> keeps_promise W (dl_request r) (dl_deeds r)"
  using delivery_events_well [of W es] by (simp add: delivery_well_def run_well_def run_knows_def)

lemma promise_kept:
  "td_run (delivery_events W es idle_delivery) = Some r \<Longrightarrow> dl_deeds r = k @ d # j \<Longrightarrow> may_do W (dl_request r) k d"
  using run_keeps_promise keeps_promiseD by blast

lemma promise_of_member:
  assumes "td_run (delivery_events W es idle_delivery) = Some r" "d \<in> set (dl_deeds r)"
  obtains k where "may_do W (dl_request r) k d" "set k \<subseteq> set (dl_deeds r)"
proof -
  obtain k j where "dl_deeds r = k @ d # j" using assms(2) by (meson split_list)
  then show thesis using promise_kept [OF assms(1)] that by auto
qed

lemma pasting_choice:
  "pc_method (choose_paste_method q s t) \<noteq> ClipboardOnly \<Longrightarrow> \<not> tg_secure t"
  "pc_blind (choose_paste_method q s t) \<Longrightarrow> \<not> has_identity t \<and> \<not> tg_accessible t"
  by (auto simp: choose_paste_method_def Let_def split: if_splits)

lemma requested_insertion: "di_requested (direct_insertion m pm) \<Longrightarrow> pm \<noteq> ClipboardOnly"
  by (auto simp: direct_insertion_def)

text \<open>A world to try a delivery in: a text field is in front, and everything a delivery asks works.\<close>

definition example_world :: delivery_world where
  "example_world = \<lparr>dw_chars = ascii, dw_glyphs = ascii_glyphs, dw_platform = OnLinux, dw_provider = True,
     dw_backend = (\<lambda>m s p. default_backend OnLinux m p \<noteq> None), dw_can_snapshot = (\<lambda>l. True),
     dw_can_insert = (\<lambda>l. False), dw_insert = (\<lambda>l. (False, [])), dw_prepare = (\<lambda>l. True),
     dw_destroys = (\<lambda>l. False)\<rparr>"

definition example_request :: delivery_request where
  "example_request = \<lparr>rq_settings = \<lparr>os_method = ''automatic'', os_format = PlainText, os_ydotool = True,
       os_restore_clipboard = True, os_completion_ms = 500,
       os_paste_rules = [paste_rule_of GlobalScope [] StandardPaste True]\<rparr>,
     rq_content = \<lparr>dc_plain = ''hi'', dc_html = None\<rparr>, rq_target = no_target\<lparr>tg_accessible := True\<rparr>\<rparr>"

definition old_clipboard :: clipboard_snapshot where
  "old_clipboard = \<lparr>cs_has_data = True, cs_mime_type = ''text/plain'', cs_data = [97], cs_parts = [(''text/plain'', [97])]\<rparr>"

definition example_events :: "delivery_event list" where
  "example_events = [DeliverAsked example_request, NextTurn, RunHears (FocusIs SameFocus),
     RunHears (SnapshotIs \<lparr>ca_ok = True, ca_snapshot = old_clipboard, ca_error = []\<rparr>),
     RunHears (CopyIs \<lparr>cc_ok = True, cc_html = False, cc_error = []\<rparr>), RunHears (FocusIs SameFocus),
     GateAsked, GateHears SameFocus, RunHears (BackendIs \<lparr>cc_ok = True, cc_html = False, cc_error = []\<rparr>),
     RunHears (ShownIs True), RunHears (RestoreIs \<lparr>cr_ok = True, cr_kept_newer = False, cr_error = []\<rparr>)]"

definition example_run :: delivery_run where
  "example_run = the (td_run (delivery_events example_world example_events idle_delivery))"

definition deeds_before :: "delivery_deed list" where
  "deeds_before = [AskFocus, Heard (FocusIs SameFocus), TakeSnapshot,
     Heard (SnapshotIs \<lparr>ca_ok = True, ca_snapshot = old_clipboard, ca_error = []\<rparr>),
     CopyWords (rq_content example_request), Heard (CopyIs \<lparr>cc_ok = True, cc_html = False, cc_error = []\<rparr>),
     AskInsertable, AskFocus, Heard (FocusIs SameFocus), ReadyPaste,
     DeliverThrough ''ydotool'' True (rq_content example_request), AskFocus, GateHeard SameFocus]"

definition deeds_after :: "delivery_deed list" where
  "deeds_after = [Heard (BackendIs \<lparr>cc_ok = True, cc_html = False, cc_error = []\<rparr>), AskShown, Heard (ShownIs True)]"

definition example_answer :: delivery_result where
  "example_answer = \<lparr>dr_ok = True, dr_receipt = ReceiptVerifiedInTarget, dr_format_downgraded = False,
     dr_message = ''Sent to the app''\<rparr>"

definition all_deeds :: "delivery_deed list" where
  "all_deeds = deeds_before @ GateReplied True # deeds_after @ [PutBack old_clipboard,
     Heard (RestoreIs \<lparr>cr_ok = True, cr_kept_newer = False, cr_error = []\<rparr>), AnswerWith example_answer]"

lemma example_runs_computed:
  "(let d = delivery_events example_world example_events idle_delivery; r = the (td_run d)
    in (td_run d = None, dl_deeds r, tg_secure (run_target r), td_turns d))
   = (False, all_deeds @ [Stopped], False,
      [Requested example_request, Began example_request, Delivered example_answer all_deeds])"
  by code_simp

lemma example_runs:
  "td_run (delivery_events example_world example_events idle_delivery) = Some example_run"
  "dl_deeds example_run = all_deeds @ [Stopped]"
  "td_turns (delivery_events example_world example_events idle_delivery)
     = [Requested example_request, Began example_request, Delivered example_answer all_deeds]"
  using example_runs_computed by (auto simp: example_run_def Let_def)

text \<open>
  C5. What answers a delivery is its run's own answer, which says what became of the words: Copied means they
  are on the clipboard and the old clipboard did not replace them, sent that they were also handed to a backend
  that took them, accepted that the app took them, verified that they were seen there, and that they could not
  be delivered only when they were neither copied nor taken by the app. Or it is the deadline's, that the
  delivery did not finish, which leaves open what became of them, and then the run gave no answer of its own.
\<close>

theorem receipts_are_true:
  assumes "Delivered res l \<in> set (td_turns (delivery_events W es idle_delivery))"
  shows "(\<exists>k j. l = k @ AnswerWith res # j \<and> truthful W k res) \<or> res = unfinished \<and> unanswered l"
proof -
  have "answer_true W res l" using delivery_events_well [of W es] assms by (simp add: delivery_well_def)
  then show ?thesis unfolding answer_true_def still_waiting_def by blast
qed

theorem receipts_are_true_witness:
  "\<exists>k j. all_deeds = k @ AnswerWith example_answer # j \<and> truthful example_world k example_answer"
proof -
  have "Delivered example_answer all_deeds \<in> set (td_turns (delivery_events example_world example_events idle_delivery))"
    by (simp add: example_runs(3))
  from receipts_are_true [OF this] show ?thesis by (simp add: example_answer_def unfinished_def)
qed

text \<open>
  C6. The clipboard a delivery borrowed is put back only once the words were seen in the target, just as it was
  saved before they were copied, and once: until they are seen, the words stay on the clipboard.
\<close>

theorem clipboard_goes_back_once_words_show:
  assumes "td_run (delivery_events W es idle_delivery) = Some r" "dl_deeds r = k @ PutBack s # j"
  shows "Heard (ShownIs True) \<in> set k
    \<and> (\<exists>a b c. k = a @ Heard (SnapshotIs c) # b \<and> ca_ok c \<and> ca_snapshot c = s \<and> TakeSnapshot \<in> set a
         \<and> (\<forall>w. CopyWords w \<notin> set a) \<and> CopyWords (run_content r) \<in> set b)
    \<and> (\<exists>c. Heard (CopyIs c) \<in> set k \<and> cc_ok c) \<and> (\<forall>v. PutBack v \<notin> set k \<union> set j)"
proof -
  have may: "may_do W (dl_request r) k (PutBack s)" using promise_kept [OF assms] .
  have "PutBack v \<notin> set j" for v
  proof
    assume "PutBack v \<in> set j"
    then obtain i i' where "j = i @ PutBack v # i'" by (meson split_list)
    then have "may_do W (dl_request r) (k @ PutBack s # i) (PutBack v)"
      using promise_kept [OF assms(1), of "k @ PutBack s # i"] assms(2) by simp
    then show False by (simp add: happened)
  qed
  moreover obtain c a b where c: "ca_ok c" "ca_snapshot c = s" "k = a @ Heard (SnapshotIs c) # b"
    using may by (auto simp: was_saved_def dest: split_list)
  have a: "TakeSnapshot \<in> set a" "\<forall>w. CopyWords w \<notin> set a"
    using promise_kept [OF assms(1), of a "Heard (SnapshotIs c)"] assms(2) c(3) by auto
  obtain e where e: "Heard (CopyIs e) \<in> set k" using may by (auto simp: was_copied_def)
  then obtain p p' where "k = p @ Heard (CopyIs e) # p'" by (meson split_list)
  then obtain w where "CopyWords w \<in> set k"
    using promise_kept [OF assms(1), of p "Heard (CopyIs e)"] assms(2) by auto
  then have "CopyWords w \<in> set b" using a(2) c(3) by auto
  moreover have "w = run_content r"
  proof -
    have "CopyWords w \<in> set (dl_deeds r)" using \<open>CopyWords w \<in> set k\<close> assms(2) by simp
    then obtain p where "may_do W (dl_request r) p (CopyWords w)" by (rule promise_of_member [OF assms(1)])
    then show ?thesis by simp
  qed
  ultimately show ?thesis using may a c
    by (auto simp: was_seen_def was_copied_def still_borrowed_def)
qed

theorem clipboard_goes_back_once_words_show_witness:
  "Heard (ShownIs True) \<in> set (deeds_before @ GateReplied True # deeds_after)"
  using clipboard_goes_back_once_words_show [OF example_runs(1), of "deeds_before @ GateReplied True # deeds_after"
    old_clipboard "[Heard (RestoreIs \<lparr>cr_ok = True, cr_kept_newer = False, cr_error = []\<rparr>), AnswerWith example_answer,
    Stopped]"] example_runs(2)
  by (simp add: all_deeds_def)

text \<open>
  C7. A keystroke goes out only for a delivery that still waits for its answer, which neither the run nor the
  deadline gave, and that was not taken away meanwhile, from a backend it handed the words to,
  never for a secure field, and with the target in front as was just heard, unless nothing about the target is
  known, when it is pasted into whatever is in front.
\<close>

theorem keys_only_reach_the_target:
  assumes "td_run (delivery_events W es idle_delivery) = Some r" "dl_deeds r = k @ GateReplied True # j"
  shows "(\<forall>res. AnswerWith res \<notin> set k) \<and> Stopped \<notin> set k
    \<and> (\<exists>m w. DeliverThrough m True w \<in> set k) \<and> \<not> tg_secure (run_target r)
    \<and> ((\<exists>i. k = i @ [GateHeard SameFocus]) \<or> \<not> has_identity (run_target r) \<and> \<not> tg_accessible (run_target r))"
proof -
  have may: "may_do W (dl_request r) k (GateReplied True)" using promise_kept [OF assms] .
  then obtain m w where sent: "DeliverThrough m True w \<in> set k" by (auto simp: keys_asked_def)
  then have "DeliverThrough m True w \<in> set (dl_deeds r)" using assms(2) by simp
  then obtain i where "may_do W (dl_request r) i (DeliverThrough m True w)"
    using promise_of_member [OF assms(1)] by blast
  then have "\<not> tg_secure (run_target r)" by (auto simp: may_paste_def dest: pasting_choice)
  then show ?thesis using may sent pasting_choice(2) by (auto simp: still_waiting_def unanswered_def)
qed

theorem keys_only_reach_the_target_witness:
  "\<not> tg_secure (run_target example_run)"
  using keys_only_reach_the_target [OF example_runs(1), of deeds_before] example_runs(2)
  by (simp add: all_deeds_def)

text \<open>C8. Into a secure field nothing is inserted and nothing pasted: the words are copied, nothing else is done with
  them, and the clipboard is not read.\<close>

theorem secure_fields_are_left_alone:
  assumes "td_run (delivery_events W es idle_delivery) = Some r" "tg_secure (run_target r)"
  shows "InsertWords s \<notin> set (dl_deeds r) \<and> DeliverThrough m keys w \<notin> set (dl_deeds r)
    \<and> TakeSnapshot \<notin> set (dl_deeds r) \<and> PutBack v \<notin> set (dl_deeds r) \<and> GateReplied True \<notin> set (dl_deeds r)"
proof -
  have choice: "pc_method (asked_choice W (dl_request r)) = ClipboardOnly"
    using assms(2) pasting_choice(1) by blast
  have inserts: "InsertWords s \<notin> set (dl_deeds r)"
    using choice by (auto elim!: promise_of_member [OF assms(1)] dest: requested_insertion)
  have sends: "DeliverThrough m keys w \<notin> set (dl_deeds r)" for m keys w
    using choice by (auto elim!: promise_of_member [OF assms(1)] simp: may_paste_def)
  have snapshots: "TakeSnapshot \<notin> set (dl_deeds r)"
    using choice by (auto elim!: promise_of_member [OF assms(1)])
  have "Heard (SnapshotIs c) \<notin> set (dl_deeds r)" for c
    using snapshots by (auto elim!: promise_of_member [OF assms(1)])
  then have "\<not> was_saved v k" if "set k \<subseteq> set (dl_deeds r)" for k
    using that unfolding was_saved_def by blast
  then have "PutBack v \<notin> set (dl_deeds r)"
    by (auto elim!: promise_of_member [OF assms(1)])
  moreover have "\<not> keys_asked k" if "set k \<subseteq> set (dl_deeds r)" for k
    using that sends unfolding keys_asked_def by blast
  then have "GateReplied True \<notin> set (dl_deeds r)"
    by (auto elim!: promise_of_member [OF assms(1)])
  ultimately show ?thesis using inserts sends snapshots by blast
qed

definition secure_request :: delivery_request where
  "secure_request = example_request\<lparr>rq_target := no_target\<lparr>tg_accessible := True, tg_secure := True\<rparr>\<rparr>"

theorem secure_fields_are_left_alone_witness:
  "InsertWords ''hi'' \<notin> set (dl_deeds (the (td_run (delivery_events example_world
      [DeliverAsked secure_request, NextTurn, RunHears (FocusIs SameFocus)] idle_delivery))))"
proof -
  let ?d = "delivery_events example_world [DeliverAsked secure_request, NextTurn, RunHears (FocusIs SameFocus)] idle_delivery"
  have "td_run ?d = Some (the (td_run ?d))" "tg_secure (run_target (the (td_run ?d)))" by code_simp+
  from secure_fields_are_left_alone [OF this] show ?thesis by blast
qed

text \<open>C9. Deliveries begin and are answered one at a time in the order they were asked for, however their answers, the
  deadline and the deletion of runs fall: those begun are the first asked, and all of them but perhaps the last
  are answered.\<close>

theorem deliveries_are_answered_in_order:
  "let ts = td_turns (delivery_events W es idle_delivery) in
     begun ts = take (length (begun ts)) (requested ts)
     \<and> (length (begun ts) = length (results ts) \<or> length (begun ts) = Suc (length (results ts)))"
  unfolding delivery_events_def Let_def by (rule dq.in_order)

text \<open>C10. A delivery asks at most eleven things: when its calls are answered, by whatever answers of their kind, it gives
  its own answer, unless it went away meanwhile.\<close>

theorem delivery_comes_to_an_end:
  assumes "\<And>r w. dl_awaits r = Some w \<Longrightarrow> answer_fits w (reply r)"
  shows "let r = answered_times W reply 11 (run_start W (fresh_run q)) in
    \<not> dl_live r \<and> (dl_destroyed r \<or> (\<exists>res. AnswerWith res \<in> set (dl_deeds r)))"
proof -
  let ?r = "answered_times W reply 11 (run_start W (fresh_run q))"
  have over: "\<not> dl_live ?r" by (rule answered_times_ends [OF assms run_start_well run_left_start])
  have "went_on (fresh_run q) ?r" by (rule went_trans [OF went_start answered_times_went])
  then show ?thesis using over
    by (auto simp: went_on_def fresh_run_def unanswered_def Let_def)
qed

text \<open>Whatever a run asks, the answer that it did not work.\<close>

definition refusing :: "delivery_run \<Rightarrow> delivery_answer" where
  "refusing r = (let no = \<lparr>cc_ok = False, cc_html = False, cc_error = []\<rparr> in case dl_awaits r of
     None \<Rightarrow> ShownIs False
   | Some w \<Rightarrow> (case w of
       AwaitFocus \<Rightarrow> FocusIs DifferentFocus
     | AwaitSnapshot \<Rightarrow> SnapshotIs \<lparr>ca_ok = False, ca_snapshot = empty_snapshot, ca_error = []\<rparr>
     | AwaitCopy \<Rightarrow> CopyIs no
     | AwaitPasteFocus _ _ \<Rightarrow> FocusIs DifferentFocus
     | AwaitBackend _ _ _ _ \<Rightarrow> BackendIs no
     | AwaitInserted \<Rightarrow> ShownIs False
     | AwaitPasted _ _ \<Rightarrow> ShownIs False
     | _ \<Rightarrow> RestoreIs \<lparr>cr_ok = False, cr_kept_newer = False, cr_error = []\<rparr>))"

theorem delivery_comes_to_an_end_witness:
  "\<not> dl_live (answered_times example_world refusing 11 (run_start example_world (fresh_run example_request)))"
proof -
  have "answer_fits w (refusing r)" if "dl_awaits r = Some w" for r w
    using that by (cases w) (simp_all add: refusing_def Let_def)
  from delivery_comes_to_an_end [of refusing example_world example_request, OF this] show ?thesis
    by (simp add: Let_def)
qed

text \<open>
  C25. A delivery may go away while it hands its words to a target provider that refuses them. Its run is stopped,
  but the step it is in goes on: it asks for the focus once more, or, when the first backend of its methods
  needs no target in front (the copying ones, with the virtual keyboard off), hands that backend the words of
  a delivery that is gone.
\<close>

theorem stopped_delivery_goes_on:
  fixes W es r m c
  defines "d \<equiv> delivery_events W es idle_delivery"
    and "l \<equiv> dl_deeds r @ [Heard (CopyIs c), AskInsertable]"
    and "ins \<equiv> InsertWords (dc_plain (run_content r))"
  assumes "td_run d = Some r" "td_alive d" "dl_live r" "dl_awaits r = Some AwaitCopy" "cc_ok c"
    and "di_requested (asked_insertion W (dl_request r))" "\<not> di_only (asked_insertion W (dl_request r))"
    and "dl_method r \<noteq> ClipboardOnly" "dl_target_focused r"
    and "dw_provider W" "dw_can_insert W l" "\<not> dw_destroys W l"
    and "\<not> fst (dw_insert W (l @ [ins]))" "dw_destroys W (l @ [ins])"
    and "find (\<lambda>m. dw_backend W m (run_output r) (pc_method (asked_choice W (dl_request r))))
           (asked_methods W (dl_request r)) = Some m"
  shows "\<exists>r' j. td_run (delivery_step W (RunHears (CopyIs c)) d) = Some r'
    \<and> \<not> td_alive (delivery_step W (RunHears (CopyIs c)) d)
    \<and> dl_deeds r' = l @ ins # Stopped
        # (if presses_paste_keys m \<and> \<not> pc_blind (asked_choice W (dl_request r)) then AskFocus
           else DeliverThrough m (presses_paste_keys m) (run_content r)) # j"
proof -
  have knows: "dl_choice r = asked_choice W (dl_request r)" "dl_insertion r = asked_insertion W (dl_request r)"
    using delivery_events_well [of W es] assms(4) unfolding d_def
    by (auto simp: delivery_well_def run_well_def run_knows_def)
  define s where "s = (heard_run (CopyIs c) r)\<lparr>dl_copied := cc_ok c, dl_copy_error := cc_error c,
      dl_plain := dc_html (run_content r) \<noteq> None \<and> \<not> cc_html c\<rparr>"
  let ?s = "say W ins (say W AskInsertable s)"
  have deeds: "dl_deeds ?s = l @ [ins, Stopped]"
    using assms(15,17) by (simp add: s_def l_def gone_after_def)
  have "try_insertion W s = (False, snd (dw_insert W (l @ [ins])), ?s)"
    using assms(9,13-16) knows
    by (auto simp: try_insertion_def s_def l_def ins_def gone_after_def Let_def split: prod.split)
  then have heard: "run_hears W (CopyIs c) r = paste_unless_only_inserting W (snd (dw_insert W (l @ [ins]))) ?s"
    using assms(6-8) by (simp add: run_hears_def while_running_def words_copied_def insert_or_paste_def s_def)
  obtain rest where first: "dropWhile (\<lambda>m. \<not> dw_backend W m (run_output r) (pc_method (asked_choice W (dl_request r))))
      (asked_methods W (dl_request r)) = m # rest"
    using assms(18) by (auto simp: find_dropWhile comp_def split: list.splits)
  have paste: "paste_unless_only_inserting W e ?s = paste_through_backend W (asked_methods W (dl_request r)) ?s" for e
    using assms(10-12) knows by (simp add: paste_unless_only_inserting_def s_def Let_def)
  have "\<exists>j. dl_deeds (run_hears W (CopyIs c) r) = l @ ins # Stopped
      # (if presses_paste_keys m \<and> \<not> pc_blind (asked_choice W (dl_request r)) then AskFocus
         else DeliverThrough m (presses_paste_keys m) (run_content r)) # j"
    unfolding heard paste using first deeds knows assms(13)
    by (simp add: paste_through_backend_def s_def press_through_def await_from_def Let_def)
  moreover have "dl_destroyed (run_hears W (CopyIs c) r)"
  proof -
    have "dl_destroyed ?s" using assms(17) by (simp add: say_def s_def l_def run_stop_def Let_def)
    then show ?thesis unfolding heard using went_only_inserting [of ?s W] by (auto simp: went_on_def)
  qed
  ultimately show ?thesis
    using assms(4,5) by (auto simp: delivery_step_def in_run_def run_moved_def delivery_destroyed_def
        delivery_answer_with_def run_stop_def Let_def split: option.splits)
qed

text \<open>A provider that refuses the words, and while it is asked the delivery goes away.\<close>

definition stopping_world :: delivery_world where
  "stopping_world = example_world\<lparr>dw_can_insert := (\<lambda>l. True), dw_destroys := (\<lambda>l. InsertWords ''hi'' \<in> set l)\<rparr>"

definition stopping_request :: delivery_request where
  "stopping_request = example_request\<lparr>rq_settings := (rq_settings example_request)\<lparr>os_ydotool := False,
     os_restore_clipboard := False\<rparr>\<rparr>"

definition stopping_events :: "delivery_event list" where
  "stopping_events = [DeliverAsked stopping_request, NextTurn, RunHears (FocusIs SameFocus)]"

definition stopping_run :: delivery_run where
  "stopping_run = the (td_run (delivery_events stopping_world stopping_events idle_delivery))"

lemma stopping_run_computed:
  "(let d = delivery_events stopping_world stopping_events idle_delivery; r = the (td_run d)
    in (td_run d = None, td_alive d, dl_live r, dl_awaits r, dl_method r, dl_target_focused r, dl_request r, dl_deeds r))
   = (False, True, True, Some AwaitCopy, StandardPaste, True, stopping_request,
      [AskFocus, Heard (FocusIs SameFocus), CopyWords (rq_content example_request)])"
  by code_simp

lemma stopping_run:
  "td_run (delivery_events stopping_world stopping_events idle_delivery) = Some stopping_run"
  "td_alive (delivery_events stopping_world stopping_events idle_delivery)"
  "dl_live stopping_run" "dl_awaits stopping_run = Some AwaitCopy" "dl_method stopping_run \<noteq> ClipboardOnly"
  "dl_target_focused stopping_run" "dl_request stopping_run = stopping_request"
  "dl_deeds stopping_run = [AskFocus, Heard (FocusIs SameFocus), CopyWords (rq_content example_request)]"
  using stopping_run_computed by (auto simp: stopping_run_def Let_def)

lemma stopping_request_asks:
  "di_requested (asked_insertion stopping_world stopping_request)"
  "\<not> di_only (asked_insertion stopping_world stopping_request)"
  "asked_methods stopping_world stopping_request = [''wl-copy'', ''qt-clipboard'']"
  "rq_content stopping_request = rq_content example_request" "dc_plain (rq_content example_request) = ''hi''"
  by code_simp+

lemma stopping_world_answers:
  "dw_provider stopping_world" "dw_can_insert stopping_world l" "\<not> fst (dw_insert stopping_world l)"
  "dw_destroys stopping_world l \<longleftrightarrow> InsertWords ''hi'' \<in> set l" "dw_backend stopping_world ''wl-copy'' s pm"
  by (simp_all add: stopping_world_def example_world_def default_backend_def)

theorem stopped_delivery_goes_on_witness:
  "\<exists>r' j. td_run (delivery_step stopping_world (RunHears (CopyIs \<lparr>cc_ok = True, cc_html = False, cc_error = []\<rparr>))
      (delivery_events stopping_world stopping_events idle_delivery)) = Some r'
    \<and> dl_deeds r' = [AskFocus, Heard (FocusIs SameFocus), CopyWords (rq_content example_request),
        Heard (CopyIs \<lparr>cc_ok = True, cc_html = False, cc_error = []\<rparr>), AskInsertable, InsertWords ''hi'', Stopped]
      @ DeliverThrough ''wl-copy'' False (rq_content example_request) # j"
proof -
  let ?c = "\<lparr>cc_ok = True, cc_html = False, cc_error = []\<rparr>"
  have "\<not> presses_paste_keys ''wl-copy''" by (simp add: presses_paste_keys_def)
  then show ?thesis
    using stopped_delivery_goes_on [of stopping_world stopping_events stopping_run ?c "''wl-copy''"]
    by (simp add: stopping_run stopping_request_asks stopping_world_answers) blast
qed

end
