(* ===== verification/Shortcut_Gesture.thy ===== *)
theory Shortcut_Gesture
  imports Settings
begin

text \<open>
  app/ShortcutGesture.cpp: the Global Shortcut's presses and releases as toggles,
  starts and stops of dictation.

  The members are the record \<open>gesture\<close>, which its owner's state extends; a time is a
  number of milliseconds, \<open>sg_press\<close> when the press timer was last started and
  \<open>sg_deferred\<close> when the timer of a deferred start fires, while it runs. The settings
  and the session are read through the environment, as the code reads them, at the
  moment a press or a release is handled.
\<close>

section \<open>State and operations\<close>

record gesture =
  sg_now :: int
  sg_press :: int
  sg_started_session :: bool
  sg_down :: bool
  sg_release_seen :: bool
  sg_pressed_while_down :: bool
  sg_deferred :: "int option"

record 's gesture_env =
  sg_session_active :: "'s \<Rightarrow> bool"
  sg_mode :: "'s \<Rightarrow> shortcut_mode"
  sg_toggle_requested :: "'s \<Rightarrow> 's"
  sg_start_requested :: "'s \<Rightarrow> 's"
  sg_stop_requested :: "'s \<Rightarrow> 's"

definition k_hybrid_hold_ms :: int where "k_hybrid_hold_ms = 250"
definition k_push_to_talk_misfire_ms :: int where "k_push_to_talk_misfire_ms = 200"

definition reports_release :: "'a gesture_scheme \<Rightarrow> bool" where
  "reports_release s \<longleftrightarrow> sg_release_seen s \<or> \<not> sg_pressed_while_down s"

definition gesture_press :: "'a gesture_scheme gesture_env \<Rightarrow> 'a gesture_scheme \<Rightarrow> 'a gesture_scheme" where
  "gesture_press E s =
     (if sg_down s \<and> sg_release_seen s then s
      else (let s = (if sg_down s then s\<lparr>sg_pressed_while_down := True\<rparr> else s);
                s = s\<lparr>sg_down := True, sg_press := sg_now s\<rparr>;
                s = s\<lparr>sg_started_session := \<not> sg_session_active E s\<rparr>
            in if sg_started_session s \<and> reports_release s \<and> sg_mode E s = PushToTalk
               then s\<lparr>sg_deferred := Some (sg_now s + k_push_to_talk_misfire_ms)\<rparr>
               else sg_toggle_requested E s))"

definition gesture_forget :: "'a gesture_scheme \<Rightarrow> 'a gesture_scheme" where
  "gesture_forget s = s\<lparr>sg_deferred := None, sg_down := False, sg_started_session := False,
     sg_release_seen := False, sg_pressed_while_down := False\<rparr>"

definition drop_deferred_start :: "'a gesture_scheme \<Rightarrow> 'a gesture_scheme" where
  "drop_deferred_start s = s\<lparr>sg_deferred := None\<rparr>"

definition forget_started_session :: "'a gesture_scheme \<Rightarrow> 'a gesture_scheme" where
  "forget_started_session s = s\<lparr>sg_started_session := False\<rparr>"

definition gesture_release :: "'a gesture_scheme gesture_env \<Rightarrow> int \<Rightarrow> 'a gesture_scheme \<Rightarrow> 'a gesture_scheme" where
  "gesture_release E held_ms s0 =
     (let s = s0\<lparr>sg_down := False, sg_release_seen := True\<rparr> in
      if \<not> sg_started_session s then s
      else (let s = s\<lparr>sg_started_session := False\<rparr>;
                starting = sg_session_active E s;
                pending = (sg_deferred s \<noteq> None);
                s = s\<lparr>sg_deferred := None\<rparr>;
                elapsed = sg_now s - sg_press s
            in case sg_mode E s of
                 Toggle \<Rightarrow> s
               | PushToTalk \<Rightarrow> if \<not> pending \<and> starting then sg_stop_requested E s else s
               | Hybrid \<Rightarrow>
                   (let held = (if held_ms \<ge> 0 then held_ms else elapsed)
                    in if starting \<and> held > k_hybrid_hold_ms then sg_stop_requested E s else s)))"

text \<open>The timer of a deferred start.\<close>

definition deferred_start :: "'a gesture_scheme gesture_env \<Rightarrow> 'a gesture_scheme \<Rightarrow> 'a gesture_scheme" where
  "deferred_start E s = (if sg_deferred s = None then s else sg_start_requested E (s\<lparr>sg_deferred := None\<rparr>))"

section \<open>Runs\<close>

text \<open>
  Presses and releases in a world where a session answers: whether it is active
  after a request is \<open>answers\<close> of the request and whether it was before.
\<close>

datatype gesture_request = AskToggle | AskStart | AskStop

datatype gesture_event = Press | Release int | Passes nat | StartTimeout

record gesture_run = gesture +
  gr_active :: bool
  gr_mode :: shortcut_mode
  gr_log :: "gesture_request list"

definition gesture_asks :: "(gesture_request \<Rightarrow> bool \<Rightarrow> bool) \<Rightarrow> gesture_request \<Rightarrow> gesture_run \<Rightarrow> gesture_run" where
  "gesture_asks answers r s = s\<lparr>gr_log := gr_log s @ [r], gr_active := answers r (gr_active s)\<rparr>"

definition gesture_world :: "(gesture_request \<Rightarrow> bool \<Rightarrow> bool) \<Rightarrow> gesture_run gesture_env" where
  "gesture_world answers = \<lparr>sg_session_active = gr_active, sg_mode = gr_mode,
     sg_toggle_requested = gesture_asks answers AskToggle, sg_start_requested = gesture_asks answers AskStart,
     sg_stop_requested = gesture_asks answers AskStop\<rparr>"

definition gesture_event :: "(gesture_request \<Rightarrow> bool \<Rightarrow> bool) \<Rightarrow> gesture_event \<Rightarrow> gesture_run \<Rightarrow> gesture_run" where
  "gesture_event answers e s = (case e of
     Press \<Rightarrow> gesture_press (gesture_world answers) s
   | Release held \<Rightarrow> gesture_release (gesture_world answers) held s
   | Passes ms \<Rightarrow> s\<lparr>sg_now := sg_now s + int ms\<rparr>
   | StartTimeout \<Rightarrow> deferred_start (gesture_world answers) s)"

definition gesture_events :: "(gesture_request \<Rightarrow> bool \<Rightarrow> bool) \<Rightarrow> gesture_event list \<Rightarrow> gesture_run \<Rightarrow> gesture_run" where
  "gesture_events answers = fold (gesture_event answers)"

text \<open>What may happen while the key is held: auto-repeat, time and the timer.\<close>

definition while_held :: "gesture_event \<Rightarrow> bool" where
  "while_held e \<longleftrightarrow> (case e of Release _ \<Rightarrow> False | _ \<Rightarrow> True)"

fun passed :: "gesture_event list \<Rightarrow> int" where
  "passed [] = 0"
| "passed (Passes ms # es) = int ms + passed es"
| "passed (_ # es) = passed es"

text \<open>The requests of one press and release of a key whose releases are reported.\<close>

definition held_requests ::
  "(gesture_request \<Rightarrow> bool \<Rightarrow> bool) \<Rightarrow> shortcut_mode \<Rightarrow> bool \<Rightarrow> gesture_event list \<Rightarrow> int \<Rightarrow> gesture_request list" where
  "held_requests answers mode active during held =
     (if active then [AskToggle]
      else case mode of
        Toggle \<Rightarrow> [AskToggle]
      | Hybrid \<Rightarrow> AskToggle # (if answers AskToggle False
            \<and> (if held \<ge> 0 then held else passed during) > k_hybrid_hold_ms then [AskStop] else [])
      | PushToTalk \<Rightarrow> if StartTimeout \<in> set during
          then AskStart # (if answers AskStart False then [AskStop] else []) else [])"

lemmas gesture_eval = gesture_event_def gesture_press_def gesture_release_def deferred_start_def gesture_world_def
  gesture_asks_def reports_release_def

lemma while_held_simps [simp]:
  "while_held Press" "\<not> while_held (Release h)" "while_held (Passes ms)" "while_held StartTimeout"
  by (simp_all add: while_held_def)

lemma held_on:
  assumes "list_all while_held during" "sg_release_seen s" "sg_down s" "sg_deferred s = None"
  shows "gesture_events answers during s = s\<lparr>sg_now := sg_now s + passed during\<rparr>"
  using assms
proof (induction during arbitrary: s)
  case (Cons e es)
  thus ?case
    by (cases e) (simp_all add: gesture_events_def gesture_eval algebra_simps)
qed (simp add: gesture_events_def)

lemma held_deferred:
  assumes "list_all while_held during" "sg_release_seen s" "sg_down s" "sg_deferred s = Some due"
  shows "gesture_events answers during s =
    (if StartTimeout \<in> set during
     then (gesture_asks answers AskStart (s\<lparr>sg_deferred := None\<rparr>))\<lparr>sg_now := sg_now s + passed during\<rparr>
     else s\<lparr>sg_now := sg_now s + passed during\<rparr>)"
  using assms
proof (induction during arbitrary: s)
  case (Cons e es)
  show ?case
  proof (cases e)
    case StartTimeout
    thus ?thesis
      using Cons.prems held_on[of es "gesture_asks answers AskStart (s\<lparr>sg_deferred := None\<rparr>)" answers]
      by (simp add: gesture_events_def gesture_eval)
  next
    case (Passes ms)
    thus ?thesis using Cons.prems Cons.IH[of "s\<lparr>sg_now := sg_now s + int ms\<rparr>"]
      by (simp add: gesture_events_def gesture_eval algebra_simps)
  qed (use Cons in \<open>simp_all add: gesture_events_def gesture_eval\<close>)
qed (simp add: gesture_events_def)

section \<open>Properties\<close>

text \<open>
  C19. On a backend whose releases were seen, one press and release of the shortcut,
  with any auto-repeat between them, is one gesture: an active session is toggled
  once; otherwise a session is toggled on, in hybrid mode ended again by the release
  exactly when the key was held past the limit, and in push-to-talk started only
  once the misfire window is over and then ended by the release. A press inside the
  window leaves no trace. The key is then up and nothing is pending.
\<close>

theorem held_key_is_one_gesture:
  assumes "sg_release_seen s" "\<not> sg_down s" "sg_deferred s = None" "list_all while_held during"
  shows "gr_log (gesture_events answers (Press # during @ [Release held]) s)
      = gr_log s @ held_requests answers (gr_mode s) (gr_active s) during held
    \<and> \<not> sg_down (gesture_events answers (Press # during @ [Release held]) s)
    \<and> sg_deferred (gesture_events answers (Press # during @ [Release held]) s) = None"
proof -
  let ?pressed = "gesture_event answers Press s"
  have run: "gesture_events answers (Press # during @ [Release held]) s
      = gesture_event answers (Release held) (gesture_events answers during ?pressed)"
    by (simp add: gesture_events_def)
  show ?thesis
  proof (cases "\<not> gr_active s \<and> gr_mode s = PushToTalk")
    case True
    have "gesture_events answers during ?pressed =
      (if StartTimeout \<in> set during
       then (gesture_asks answers AskStart (?pressed\<lparr>sg_deferred := None\<rparr>))\<lparr>sg_now := sg_now ?pressed + passed during\<rparr>
       else ?pressed\<lparr>sg_now := sg_now ?pressed + passed during\<rparr>)"
      by (rule held_deferred[OF assms(4), where due = "sg_now s + k_push_to_talk_misfire_ms"])
        (use True assms(1-3) in \<open>simp_all add: gesture_eval Let_def\<close>)
    thus ?thesis
      unfolding run using True assms(1-3) by (simp add: gesture_eval held_requests_def Let_def)
  next
    case False
    have "gesture_events answers during ?pressed = ?pressed\<lparr>sg_now := sg_now ?pressed + passed during\<rparr>"
      by (rule held_on[OF assms(4)]) (use False assms(1-3) in \<open>auto simp: gesture_eval Let_def\<close>)
    thus ?thesis
      unfolding run using False assms(1-3)
      by (cases "gr_mode s") (auto simp: gesture_eval held_requests_def Let_def)
  qed
qed

definition idle_gesture :: "shortcut_mode \<Rightarrow> gesture_run" where
  "idle_gesture mode = \<lparr>sg_now = 0, sg_press = 0, sg_started_session = False, sg_down = False,
     sg_release_seen = False, sg_pressed_while_down = False, sg_deferred = None,
     gr_active = False, gr_mode = mode, gr_log = []\<rparr>"

lemma held_key_is_one_gesture_witness:
  "gr_log (gesture_events (\<lambda>r active. r \<noteq> AskStop) (Press # [Passes 30, Press, Passes 90] @ [Release (-1)])
      ((idle_gesture PushToTalk)\<lparr>sg_release_seen := True\<rparr>)) = []
   \<and> gr_log (gesture_events (\<lambda>r active. r \<noteq> AskStop) (Press # [Passes 200, StartTimeout, Passes 900] @ [Release (-1)])
      ((idle_gesture PushToTalk)\<lparr>sg_release_seen := True\<rparr>)) = [AskStart, AskStop]"
  using held_key_is_one_gesture[of "(idle_gesture PushToTalk)\<lparr>sg_release_seen := True\<rparr>" "[Passes 30, Press, Passes 90]"
      "\<lambda>r active. r \<noteq> AskStop" "-1"]
    held_key_is_one_gesture[of "(idle_gesture PushToTalk)\<lparr>sg_release_seen := True\<rparr>" "[Passes 200, StartTimeout, Passes 900]"
      "\<lambda>r active. r \<noteq> AskStop" "-1"]
  by (simp add: idle_gesture_def held_requests_def)

text \<open>
  Where releases are never reported, every press from the second on toggles: none is
  swallowed as auto-repeat, and push-to-talk gives way to toggling.
\<close>

lemma unreleased_presses_all_toggle:
  assumes "sg_down s" "\<not> sg_release_seen s" "sg_pressed_while_down s" "list_all (\<lambda>e. e = Press \<or> (\<exists>ms. e = Passes ms)) es"
  shows "gr_log (gesture_events answers es s) = gr_log s @ map (\<lambda>_. AskToggle) (filter (\<lambda>e. e = Press) es)"
  using assms
proof (induction es arbitrary: s)
  case (Cons e es)
  show ?case
  proof (cases "e = Press")
    case True
    let ?s = "gesture_event answers Press s"
    have "sg_down ?s \<and> \<not> sg_release_seen ?s \<and> sg_pressed_while_down ?s \<and> gr_log ?s = gr_log s @ [AskToggle]"
      using Cons.prems by (simp add: gesture_eval Let_def)
    thus ?thesis using Cons.IH[of ?s] Cons.prems True by (simp add: gesture_events_def)
  next
    case False
    then obtain ms where "e = Passes ms" using Cons.prems by auto
    thus ?thesis using Cons.IH[of "gesture_event answers e s"] Cons.prems
      by (simp add: gesture_events_def gesture_event_def)
  qed
qed (simp add: gesture_events_def)

end
