(* ===== verification/Silence_Gate.thy ===== *)
theory Silence_Gate
  imports Prelude
begin

text \<open>
  platform/audio/SilenceGate.cpp: Skip silence for one capture. Quiet audio is held
  back; speech is sent with up to the pre-roll of the quiet before it and up to the
  post-roll of the quiet after it.

  A QByteArray is a list; the gate never looks at a byte. Whether a window is voiced
  is a square root in double (rmsForPcm16, isVoiced) and a parameter.
\<close>

section \<open>State and operations\<close>


text \<open>QByteArray::left and right.\<close>

definition bytes_left :: "int \<Rightarrow> 'b list \<Rightarrow> 'b list" where
  "bytes_left n bs = take (nat n) bs"

definition bytes_right :: "int \<Rightarrow> 'b list \<Rightarrow> 'b list" where
  "bytes_right n bs = drop (length bs - nat n) bs"









section \<open>What is sent\<close>


text \<open>
  The reference: of the quiet before the first speech its last bytes, of a gap its
  first and, of what is left of it, its last, of the quiet after the last speech its
  first. It looks at a gap as a whole, wherever the chunks begin and end. With no
  post-roll the first window of a gap is gone, and what follows it is quiet before
  speech again.
\<close>

fun gate_sends :: "int \<Rightarrow> int \<Rightarrow> bool \<Rightarrow> 'b list \<Rightarrow> ('b list \<times> bool) list \<Rightarrow> 'b list" where
  "gate_sends pre post heard quiet [] = (if heard then bytes_left post quiet else [])"
| "gate_sends pre post heard quiet ((pcm, voiced) # cs) =
     (if voiced
      then (if heard then bytes_left post quiet @ bytes_right pre (drop (nat post) quiet) else bytes_right pre quiet)
           @ pcm @ gate_sends pre post True [] cs
      else if heard \<and> post \<le> 0 then gate_sends pre post False [] cs
      else gate_sends pre post heard (quiet @ pcm) cs)"



lemma length_bytes_right [simp]: "length (bytes_right n xs) = min (length xs) (nat n)"
  by (auto simp: bytes_right_def)

lemma bytes_right_twice [simp]: "m \<le> n \<Longrightarrow> bytes_right m (bytes_right n xs) = bytes_right m xs"
proof -
  assume "m \<le> n"
  hence "length xs - (length xs - nat n + nat m) + (length xs - nat n) = length xs - nat m"
    using nat_mono[of m n] by arith
  thus ?thesis by (simp add: bytes_right_def)
qed

lemma bytes_right_Nil [simp]: "bytes_right n [] = []"
  by (simp add: bytes_right_def)

lemma bytes_left_Nil [simp]: "bytes_left n [] = []"
  by (simp add: bytes_left_def)









section \<open>Windows\<close>


definition judged :: "('b list \<Rightarrow> bool) \<Rightarrow> 'b list list \<Rightarrow> ('b list \<times> bool) list" where
  "judged voiced ws = map (\<lambda>x. (x, voiced x)) ws"





section \<open>Properties\<close>




lemma silence_example:
  "gate_sends 2 1 False [] (judged (\<lambda>x. x = [9::nat]) [[0], [1], [2], [9], [3], [4], [5], [6], [7], [9], [8]])
   = [1, 2, 9, 3, 6, 7, 9, 8]"
  "gate_sends 2 0 False [] (judged (\<lambda>x. x = [9::nat]) [[0], [1], [2], [9], [3], [4], [9], [8]])
   = [1, 2, 9, 4, 9]"
  by (simp_all add: judged_def bytes_left_def bytes_right_def)

end
