(* ===== verification/Server_Events.thy ===== *)
theory Server_Events
  imports QtText Providers
begin

text \<open>
  What a provider's connection delivers: providers/ServerSentEvents.h (the events cut
  out of the bytes received), providers/ProviderFailureClassification.cpp (the kind
  of failure a status, a network error or an error code stands for) and
  providers/PcmWav.h (the recording sent to an endpoint).

  A QByteArray is a list of characters, which in HOL are bytes. The numbers of
  QNetworkReply::NetworkError are Qt's.
\<close>

section \<open>Frames\<close>

record sse_frame =
  sse_name :: qstring
  sse_data :: qstring

fun index_of :: "qstring \<Rightarrow> qstring \<Rightarrow> nat option" where
  "index_of p [] = (if p = [] then Some 0 else None)"
| "index_of p (c # cs) = (if starts_with (c # cs) p then Some 0 else map_option Suc (index_of p cs))"

definition k_lf :: qstring where "k_lf = [CHR 0x0A, CHR 0x0A]"
definition k_crlf :: qstring where "k_crlf = [CHR 0x0D, CHR 0x0A, CHR 0x0D, CHR 0x0A]"

text \<open>Where the first separator begins, and its length.\<close>

definition sse_boundary :: "qstring \<Rightarrow> (nat \<times> nat) option" where
  "sse_boundary b = (case (index_of k_lf b, index_of k_crlf b) of
     (None, None) \<Rightarrow> None
   | (Some i, None) \<Rightarrow> Some (i, 2)
   | (None, Some j) \<Rightarrow> Some (j, 4)
   | (Some i, Some j) \<Rightarrow> if j < i then Some (j, 4) else Some (i, 2))"

definition sse_line :: "sse_frame \<Rightarrow> qstring \<Rightarrow> sse_frame" where
  "sse_line e line =
     (if starts_with line ''event:'' then e\<lparr>sse_name := trimmed ascii (drop 6 line)\<rparr>
      else if starts_with line ''data:'' then e\<lparr>sse_data := sse_data e @ trimmed ascii (drop 5 line)\<rparr>
      else e)"

definition sse_frame_of :: "qstring \<Rightarrow> sse_frame" where
  "sse_frame_of frame = fold (\<lambda>line e. sse_line e line) (split_on (CHR 0x0A) frame) \<lparr>sse_name = [], sse_data = []\<rparr>"

definition take_sse_frame :: "qstring \<Rightarrow> (sse_frame \<times> qstring) option" where
  "take_sse_frame b = (case sse_boundary b of
     None \<Rightarrow> None
   | Some (i, n) \<Rightarrow> Some (sse_frame_of (take i b), drop (i + n) b))"

lemma index_of_Some:
  "index_of p b = Some i \<longleftrightarrow>
     i + length p \<le> length b \<and> take (length p) (drop i b) = p \<and> (\<forall>j<i. take (length p) (drop j b) \<noteq> p)"
proof (induction b arbitrary: i)
  case Nil
  thus ?case by auto
next
  case (Cons c cs)
  show ?case
  proof (cases i)
    case 0
    have "length p \<le> Suc (length cs)" if "take (length p) (c # cs) = p"
      using arg_cong[OF that, of length] by simp
    thus ?thesis using 0 by (auto simp: starts_with_def)
  next
    case (Suc k)
    have "(\<forall>j<i. take (length p) (drop j (c # cs)) \<noteq> p) \<longleftrightarrow>
        \<not> starts_with (c # cs) p \<and> (\<forall>j<k. take (length p) (drop j cs) \<noteq> p)"
      unfolding Suc starts_with_def by (simp add: All_less_Suc2)
    thus ?thesis using Cons[of k] Suc by auto
  qed
qed

text \<open>A separator found stays the first however the bytes go on.\<close>

definition occurs_at :: "qstring \<Rightarrow> qstring \<Rightarrow> nat \<Rightarrow> bool" where
  "occurs_at p b i \<longleftrightarrow> i + length p \<le> length b \<and> take (length p) (drop i b) = p"

lemma occurs_at_append: "i + length p \<le> length b \<Longrightarrow> occurs_at p (b @ c) i = occurs_at p b i"
  by (simp add: occurs_at_def)

lemma index_of_first: "index_of p b = Some i \<longleftrightarrow> occurs_at p b i \<and> (\<forall>j<i. \<not> occurs_at p b j)"
  unfolding index_of_Some occurs_at_def by auto

lemma index_of_append: "index_of p b = Some i \<Longrightarrow> index_of p (b @ c) = Some i"
  unfolding index_of_first by (auto simp: occurs_at_def)

lemma index_of_late:
  assumes "index_of p b = None" "index_of p (b @ c) = Some i"
  shows "length b < i + length p"
proof (rule ccontr)
  assume "\<not> length b < i + length p"
  hence "\<exists>k. occurs_at p b k" using assms(2) by (auto simp: index_of_first occurs_at_append)
  then obtain k where k: "occurs_at p b k" by blast
  have "index_of p b = Some (LEAST k. occurs_at p b k)"
    unfolding index_of_first using LeastI[of "occurs_at p b", OF k] not_less_Least[of _ "occurs_at p b"] by blast
  thus False using assms(1) by simp
qed

lemma index_of_occurs: "index_of p b = Some i \<Longrightarrow> occurs_at p b i"
  by (simp add: index_of_first)

lemma separators_apart:
  assumes "occurs_at k_lf b i" "occurs_at k_crlf b j" "j < i"
  shows "j + 3 \<le> i"
proof -
  have sizes: "length k_lf = 2" "length k_crlf = 4" by (simp_all add: k_lf_def k_crlf_def)
  have "take 2 (drop i b) = k_lf" "take 4 (drop j b) = k_crlf"
    using assms(1,2) unfolding occurs_at_def sizes by blast+
  hence lf: "take 2 (drop i b) ! m = k_lf ! m" and cr: "take 4 (drop j b) ! m = k_crlf ! m" for m
    by (simp_all only:)
  have n: "i + 2 \<le> length b" "j + 4 \<le> length b"
    using assms(1,2) unfolding occurs_at_def sizes by blast+
  have "b ! i = CHR 0x0A" "b ! (i + 1) = CHR 0x0A" using lf[of 0] lf[of 1] n by (simp_all add: k_lf_def)
  moreover have "b ! (j + 2) = CHR 0x0D" using cr[of 2] n by (simp add: k_crlf_def)
  moreover have "(CHR 0x0A :: char) \<noteq> CHR 0x0D" by simp
  ultimately have "j + 2 \<noteq> i" "j + 2 \<noteq> i + 1" by metis+
  thus ?thesis using assms(3) by arith
qed

lemma sse_boundary_append:
  assumes "sse_boundary b = Some (i, n)"
  shows "sse_boundary (b @ c) = Some (i, n) \<and> i + n \<le> length b"
proof (cases "index_of k_lf b")
  case None
  then obtain j where j: "index_of k_crlf b = Some j" "i = j" "n = 4"
    using assms by (auto simp: sse_boundary_def split: option.splits)
  have n: "j + 4 \<le> length b" using index_of_occurs[OF j(1)] by (simp add: occurs_at_def k_crlf_def)
  have "j < k" if "index_of k_lf (b @ c) = Some k" for k
    using index_of_late[OF None that] n by (simp add: k_lf_def)
  thus ?thesis
    using j n index_of_append[OF j(1), of c] by (auto simp: sse_boundary_def split: option.split)
next
  case (Some k)
  have k: "k + 2 \<le> length b" "occurs_at k_lf (b @ c) k" "index_of k_lf (b @ c) = Some k"
    using index_of_occurs[OF Some] index_of_append[OF Some, of c] by (auto simp: occurs_at_def k_lf_def index_of_first)
  show ?thesis
  proof (cases "index_of k_crlf b")
    case None
    have "\<not> j < k" if "index_of k_crlf (b @ c) = Some j" for j
      using index_of_late[OF None that] separators_apart[OF k(2) index_of_occurs[OF that]] k(1)
      by (auto simp: k_crlf_def)
    thus ?thesis using assms Some None k by (auto simp: sse_boundary_def split: option.splits)
  next
    case (Some j)
    have "j + 4 \<le> length b" using index_of_occurs[OF Some] by (simp add: occurs_at_def k_crlf_def)
    thus ?thesis using assms \<open>index_of k_lf b = Some k\<close> Some index_of_append[OF Some, of c] k
      by (auto simp: sse_boundary_def split: if_splits)
  qed
qed

lemma take_sse_frame_append:
  "take_sse_frame b = Some (f, r) \<Longrightarrow> take_sse_frame (b @ c) = Some (f, r @ c)"
  using sse_boundary_append[of b _ _ c] by (fastforce simp: take_sse_frame_def split: option.splits)

lemma take_sse_frame_shorter: "take_sse_frame b = Some (f, r) \<Longrightarrow> length r < length b"
proof -
  assume t: "take_sse_frame b = Some (f, r)"
  then obtain i n where b: "sse_boundary b = Some (i, n)" "r = drop (i + n) b"
    by (auto simp: take_sse_frame_def split: option.splits)
  have "0 < n" using b(1) by (auto simp: sse_boundary_def split: option.splits if_splits)
  moreover have "i + n \<le> length b" using sse_boundary_append[OF b(1), of "[]"] by blast
  ultimately show "length r < length b" using b(2) by simp
qed

text \<open>All the frames of a buffer, and what is left of it.\<close>

function sse_frames :: "qstring \<Rightarrow> sse_frame list \<times> qstring" where
  "sse_frames b = (case take_sse_frame b of
     None \<Rightarrow> ([], b)
   | Some (f, r) \<Rightarrow> (let (fs, rest) = sse_frames r in (f # fs, rest)))"
  by pat_completeness auto
termination by (relation "measure length") (auto simp: take_sse_frame_shorter)

declare sse_frames.simps [simp del]

text \<open>The frames taken as chunks arrive, each added to what was left.\<close>

fun sse_receive :: "qstring list \<Rightarrow> qstring \<Rightarrow> sse_frame list \<times> qstring" where
  "sse_receive [] b = ([], b)"
| "sse_receive (c # cs) b =
     (let (fs, rest) = sse_frames (b @ c); (gs, rest) = sse_receive cs rest in (fs @ gs, rest))"

lemma sse_frames_append:
  "sse_frames (b @ c) = (let (fs, rest) = sse_frames b; (gs, rest) = sse_frames (rest @ c) in (fs @ gs, rest))"
proof (induction b rule: sse_frames.induct)
  case (1 b)
  show ?case
  proof (cases "take_sse_frame b")
    case None
    thus ?thesis by (simp add: sse_frames.simps[of b])
  next
    case (Some fr)
    obtain f r where fr: "fr = (f, r)" by force
    have "take_sse_frame (b @ c) = Some (f, r @ c)" using take_sse_frame_append Some fr by simp
    thus ?thesis
      using 1[OF Some[unfolded fr] refl] Some fr sse_frames.simps[of b] sse_frames.simps[of "b @ c"]
      by (simp split: prod.split)
  qed
qed

lemma sse_frames_rest: "take_sse_frame (snd (sse_frames b)) = None"
proof (induction b rule: sse_frames.induct)
  case (1 b)
  show ?case
    using 1 by (subst sse_frames.simps) (auto split: option.splits prod.splits)
qed

lemma sse_receive_frames:
  "take_sse_frame b = None \<Longrightarrow> sse_receive cs b = sse_frames (b @ concat cs)"
proof (induction cs arbitrary: b)
  case Nil
  thus ?case by (simp add: sse_frames.simps[of b])
next
  case (Cons c cs)
  obtain fs rest where f: "sse_frames (b @ c) = (fs, rest)" by force
  have "take_sse_frame rest = None" using sse_frames_rest[of "b @ c"] f by simp
  thus ?case
    using Cons.IH[of rest] f sse_frames_append[of "b @ c" "concat cs"] by simp
qed

section \<open>Kinds of failure\<close>

definition failure_kind_for_http_status :: "int \<Rightarrow> failure_kind" where
  "failure_kind_for_http_status status =
     (if status = 401 \<or> status = 403 then Authentication
      else if status = 429 then RateLimited
      else if 500 \<le> status \<and> status \<le> 599 then Server
      else OtherFailure)"

definition k_no_error :: int where "k_no_error = 0"
definition k_timeout_error :: int where "k_timeout_error = 4"
definition k_operation_canceled_error :: int where "k_operation_canceled_error = 5"
definition k_content_access_denied :: int where "k_content_access_denied = 201"

definition reply_failure :: "int \<Rightarrow> int \<Rightarrow> qstring \<Rightarrow> provider_failure" where
  "reply_failure status error message =
     (if status \<ge> 400 then \<lparr>pf_kind = failure_kind_for_http_status status, pf_message = message, pf_http_status = status\<rparr>
      else if error = k_timeout_error then \<lparr>pf_kind = Timeout, pf_message = message, pf_http_status = status\<rparr>
      else (let connection_failed = (error \<noteq> k_operation_canceled_error \<and> error > k_no_error
                  \<and> error < k_content_access_denied)
            in \<lparr>pf_kind = (if connection_failed then Network else OtherFailure), pf_message = message,
                pf_http_status = status\<rparr>))"

definition known_streamed_error_kind :: "qstring \<Rightarrow> failure_kind option" where
  "known_streamed_error_kind code =
     (if code \<in> {''authentication_error'', ''permission_error'', ''invalid_api_key'', ''401'', ''403''}
      then Some Authentication
      else if code \<in> {''rate_limit_error'', ''rate_limit_exceeded'', ''insufficient_quota'', ''429''}
      then Some RateLimited
      else if contains_text code ''invalid'' \<or> contains_text code ''not_found'' then Some OtherFailure
      else None)"

text \<open>The error object's code and type, empty where it has none.\<close>

definition streamed_error_kind :: "qstring \<Rightarrow> qstring \<Rightarrow> failure_kind" where
  "streamed_error_kind code kind = (case known_streamed_error_kind code of
     Some k \<Rightarrow> k
   | None \<Rightarrow> (case known_streamed_error_kind kind of Some k \<Rightarrow> k | None \<Rightarrow> Server))"

definition self_hosted_failure :: "provider_failure \<Rightarrow> provider_failure" where
  "self_hosted_failure f = (if pf_http_status f = 404 then f\<lparr>pf_kind := Unavailable\<rparr> else f)"

text \<open>
  The first ''status code: '' with three digits after it, as its number; 0 without one.
\<close>

fun handshake_status :: "qstring \<Rightarrow> int" where
  "handshake_status [] = 0"
| "handshake_status (c # cs) =
     (let digits = take 3 (drop 13 (c # cs)) in
      if starts_with (c # cs) ''status code: '' \<and> length digits = 3 \<and> list_all digit_char digits
      then foldl (\<lambda>n d. 10 * n + (of_char d - 48)) 0 digits
      else handshake_status cs)"

datatype socket_error = SocketTimeoutError | ConnectionRefusedError | RemoteHostClosedError | HostNotFoundError
  | NetworkError | SslHandshakeFailedError | ProxyConnectionRefusedError | ProxyConnectionClosedError
  | ProxyConnectionTimeoutError | ProxyNotFoundError | TemporaryError | OtherSocketError

definition web_socket_failure_kind :: "socket_error \<Rightarrow> qstring \<Rightarrow> failure_kind" where
  "web_socket_failure_kind error message =
     (let status = handshake_status message in
      if status \<noteq> 0 then failure_kind_for_http_status status
      else case error of
        SocketTimeoutError \<Rightarrow> Timeout
      | OtherSocketError \<Rightarrow> OtherFailure
      | _ \<Rightarrow> Network)"

lemma rejected_handshake: "web_socket_failure_kind e ''status code: 401'' = Authentication"
  by (simp add: web_socket_failure_kind_def starts_with_def digit_char_def failure_kind_for_http_status_def Let_def)

section \<open>Recordings\<close>

definition le_bytes :: "nat \<Rightarrow> nat \<Rightarrow> qstring" where
  "le_bytes n x = map (\<lambda>k. char_of (x div 256 ^ k)) [0..<n]"

text \<open>A quint32 is the number modulo 2^32.\<close>

definition wav_from_pcm16_mono :: "qstring \<Rightarrow> nat \<Rightarrow> qstring" where
  "wav_from_pcm16_mono pcm rate =
     ''RIFF'' @ le_bytes 4 (36 + length pcm) @ ''WAVEfmt '' @ le_bytes 4 16 @ le_bytes 2 1 @ le_bytes 2 1
     @ le_bytes 4 rate @ le_bytes 4 (rate * 2) @ le_bytes 2 2 @ le_bytes 2 16 @ ''data'' @ le_bytes 4 (length pcm) @ pcm"

lemma wav_header [simp]: "length (wav_from_pcm16_mono pcm rate) = 44 + length pcm" "drop 44 (wav_from_pcm16_mono pcm rate) = pcm"
  by (simp_all add: wav_from_pcm16_mono_def le_bytes_def)

section \<open>Properties\<close>

text \<open>
  C18. The events a connection delivers are those of its bytes, however the network
  cuts them into chunks, through separators and through lines, and whichever of the
  two line endings it uses.
\<close>

theorem chunks_do_not_matter: "sse_receive cs [] = sse_frames (concat cs)"
  using sse_receive_frames[of "[]" cs] by (simp add: take_sse_frame_def sse_boundary_def k_lf_def k_crlf_def)

end
