(* ===== verification/Streaming_Refinement.thy ===== *)
theory Streaming_Refinement
  imports Server_Events
begin

text \<open>
  providers/StreamingRefinement.cpp: one refinement streamed over HTTP, with its
  retry at standard speed.

  The members are the record \<open>streaming\<close>, which its owner's state extends. A reply
  of the network is a number; a timer is a flag while it runs, with the time it is
  due for the deadline. The standard request a fast one may fall back to is kept
  ready. What the provider decodes is a parameter; the signals are functions of the
  whole state, so a listener may cancel, start again or let more events arrive. An
  aborted reply is no longer the current one, so what it still says changes nothing.
\<close>

section \<open>State and environment\<close>

record request =
  rq_headers :: "(qstring \<times> qstring) list"
  rq_body :: qstring

datatype stream_event = IgnoreEvent | ProgressEvent | DeltaEvent qstring | CompleteEvent
  | RejectedEvent failure_kind qstring | FailedEvent failure_kind qstring

datatype retry = RetryNever | RetryAfterStall | RetryAfterRejection

text \<open>How a reply finished: its network error, its status, the bytes left and Qt's text of the error.\<close>

record reply_end =
  rp_error :: int
  rp_status :: int
  rp_rest :: qstring
  rp_text :: qstring

record streaming =
  hr_time :: int
  hr_reply :: "nat option"
  hr_replies :: nat
  hr_fallback :: "request option"
  hr_buffer :: qstring
  hr_accumulated :: qstring
  hr_generation :: nat
  hr_parsing :: bool
  hr_latch :: bool
  hr_network_changed :: bool
  hr_tier :: qstring
  hr_unavailable :: "qstring set"
  hr_connect_timer :: bool
  hr_inactivity_timer :: bool
  hr_deadline_timer :: "int option"
  hr_operation_deadline :: int
  hr_queued :: "(qstring \<times> nat) list"

record 's streaming_env =
  he_provider :: qstring
  he_decode_event :: "qstring \<Rightarrow> qstring \<Rightarrow> stream_event"
  he_decode_error :: "qstring \<Rightarrow> qstring \<Rightarrow> qstring"
  he_deadline_ms :: int
  he_connect_seconds :: qstring
  he_http_status :: "nat \<Rightarrow> int"
  he_post :: "nat \<Rightarrow> request \<Rightarrow> 's \<Rightarrow> 's"
  he_delta :: "qstring \<Rightarrow> 's step"
  he_completed :: "qstring \<Rightarrow> 's step"
  he_failed :: "provider_failure \<Rightarrow> 's step"

section \<open>Operations\<close>

definition failure_message :: "'s streaming_env \<Rightarrow> qstring \<Rightarrow> qstring" where
  "failure_message E detail = he_provider E @ '' refinement failed: '' @ detail"

definition take_reply :: "'a streaming_scheme \<Rightarrow> nat option \<times> 'a streaming_scheme" where
  "take_reply s = (hr_reply s, s\<lparr>hr_generation := Suc (hr_generation s), hr_connect_timer := False,
     hr_inactivity_timer := False, hr_deadline_timer := None, hr_reply := None\<rparr>)"

definition streaming_cancel :: "'a streaming_scheme \<Rightarrow> 'a streaming_scheme" where
  "streaming_cancel s = snd (take_reply (s\<lparr>hr_fallback := None\<rparr>))"

definition streaming_post :: "'a streaming_scheme streaming_env \<Rightarrow> request \<Rightarrow> 'a streaming_scheme \<Rightarrow> 'a streaming_scheme" where
  "streaming_post E req s =
     (let s = s\<lparr>hr_buffer := [], hr_accumulated := [], hr_network_changed := False\<rparr>;
          reply = hr_replies s;
          s = he_post E reply req (s\<lparr>hr_replies := Suc reply\<rparr>)
      in s\<lparr>hr_reply := Some reply, hr_connect_timer := True, hr_inactivity_timer := True,
           hr_deadline_timer := Some (hr_time s + max 1 (hr_operation_deadline s - hr_time s))\<rparr>)"

definition streaming_start ::
  "'a streaming_scheme streaming_env \<Rightarrow> (bool \<Rightarrow> request) \<Rightarrow> qstring \<Rightarrow> 'a streaming_scheme \<Rightarrow> 'a streaming_scheme" where
  "streaming_start E build tier s =
     (let s = streaming_cancel s;
          s = s\<lparr>hr_operation_deadline := hr_time s + he_deadline_ms E, hr_latch := False, hr_tier := tier\<rparr>;
          fast = (tier \<noteq> [] \<and> tier \<notin> hr_unavailable s);
          s = (if fast then s\<lparr>hr_fallback := Some (build False)\<rparr> else s)
      in streaming_post E (build fast) s)"

definition retry_at_standard_speed ::
  "'a streaming_scheme streaming_env \<Rightarrow> bool \<Rightarrow> 'a streaming_scheme \<Rightarrow> bool \<times> 'a streaming_scheme" where
  "retry_at_standard_speed E latch s =
     (let fallback = hr_fallback s; s = s\<lparr>hr_fallback := None\<rparr> in
      case fallback of
        None \<Rightarrow> (False, s)
      | Some req \<Rightarrow> if hr_accumulated s \<noteq> [] then (False, s)
          else (True, streaming_post E req (s\<lparr>hr_latch := latch\<rparr>)))"

definition streaming_fail ::
  "'a streaming_scheme streaming_env \<Rightarrow> provider_failure \<Rightarrow> retry \<Rightarrow> 'a streaming_scheme step" where
  "streaming_fail E failure retry s =
     (let (reply, s) = take_reply s;
          (retried, s) = (if retry = RetryNever then (False, s)
             else retry_at_standard_speed E (retry = RetryAfterRejection) s)
      in if retried then Some s
         else he_failed E (failure\<lparr>pf_http_status := (case reply of Some r \<Rightarrow> he_http_status E r | None \<Rightarrow> 0)\<rparr>)
                (s\<lparr>hr_fallback := None\<rparr>))"

definition streaming_complete :: "'a streaming_scheme streaming_env \<Rightarrow> 'a streaming_scheme step" where
  "streaming_complete E s =
     (if hr_accumulated s = []
      then streaming_fail E \<lparr>pf_kind = InvalidResult, pf_message = failure_message E ''empty response'',
             pf_http_status = 0\<rparr> RetryAfterRejection s
      else (let s = (snd (take_reply s))\<lparr>hr_fallback := None\<rparr>;
                s = (if hr_latch s then s\<lparr>hr_latch := False, hr_unavailable := insert (hr_tier s) (hr_unavailable s)\<rparr>
                     else s)
            in Some (s\<lparr>hr_queued := hr_queued s @ [(hr_accumulated s, hr_generation s)]\<rparr>)))"

text \<open>The loop of parseChunk, with the generation it began in.\<close>

partial_function (option) parse_frames ::
  "'a streaming_scheme streaming_env \<Rightarrow> nat \<Rightarrow> 'a streaming_scheme \<Rightarrow> 'a streaming_scheme option" where
  "parse_frames E generation s = (case take_sse_frame (hr_buffer s) of
     None \<Rightarrow> Some s
   | Some (f, rest) \<Rightarrow>
       (let s = s\<lparr>hr_buffer := rest\<rparr> in
        case he_decode_event E (sse_name f) (sse_data f) of
          IgnoreEvent \<Rightarrow> parse_frames E generation s
        | ProgressEvent \<Rightarrow> parse_frames E generation (s\<lparr>hr_inactivity_timer := True\<rparr>)
        | DeltaEvent words \<Rightarrow> do {
            s \<leftarrow> he_delta E words (s\<lparr>hr_inactivity_timer := True, hr_accumulated := hr_accumulated s @ words\<rparr>);
            (if generation \<noteq> hr_generation s then Some s else parse_frames E generation s) }
        | CompleteEvent \<Rightarrow> streaming_complete E s
        | RejectedEvent k words \<Rightarrow> streaming_fail E \<lparr>pf_kind = k, pf_message = words, pf_http_status = 0\<rparr>
            RetryAfterRejection s
        | FailedEvent k words \<Rightarrow> streaming_fail E \<lparr>pf_kind = k, pf_message = words, pf_http_status = 0\<rparr>
            RetryNever s))"

definition parse_chunk :: "'a streaming_scheme streaming_env \<Rightarrow> qstring \<Rightarrow> 'a streaming_scheme step" where
  "parse_chunk E chunk s = do {
     let was = hr_parsing s;
     s \<leftarrow> parse_frames E (hr_generation s) (s\<lparr>hr_parsing := True, hr_buffer := hr_buffer s @ chunk\<rparr>);
     Some (s\<lparr>hr_parsing := was\<rparr>) }"

section \<open>What the network and the timers say\<close>

definition reply_sent :: "nat \<Rightarrow> 'a streaming_scheme \<Rightarrow> 'a streaming_scheme" where
  "reply_sent reply s = (if hr_reply s = Some reply then s\<lparr>hr_connect_timer := False\<rparr> else s)"

definition reply_reads :: "'a streaming_scheme streaming_env \<Rightarrow> nat \<Rightarrow> qstring \<Rightarrow> 'a streaming_scheme step" where
  "reply_reads E reply chunk s = (if hr_reply s = Some reply then parse_chunk E chunk s else Some s)"

definition reply_finished :: "'a streaming_scheme streaming_env \<Rightarrow> nat \<Rightarrow> reply_end \<Rightarrow> 'a streaming_scheme step" where
  "reply_finished E reply e s =
     (if hr_reply s \<noteq> Some reply then Some s
      else (let s = snd (take_reply s);
                failure = (if rp_error e \<noteq> k_no_error
                  then reply_failure (rp_status e) (rp_error e)
                         (failure_message E (he_decode_error E (hr_buffer s @ rp_rest e) (rp_text e)))
                  else \<lparr>pf_kind = InvalidResult, pf_message = failure_message E
                          (if hr_accumulated s = [] then ''empty response'' else ''stream ended before completion''),
                        pf_http_status = rp_status e\<rparr>);
                (retried, s) = retry_at_standard_speed E True s
            in if retried then Some s else he_failed E failure s))"

definition streaming_timeout ::
  "'a streaming_scheme streaming_env \<Rightarrow> qstring \<Rightarrow> retry \<Rightarrow> 'a streaming_scheme step" where
  "streaming_timeout E message retry s =
     (if hr_reply s = None then Some s
      else streaming_fail E \<lparr>pf_kind = Timeout, pf_message = he_provider E @ message, pf_http_status = 0\<rparr> retry s)"

definition connect_timeout :: "'a streaming_scheme streaming_env \<Rightarrow> 'a streaming_scheme step" where
  "connect_timeout E s =
     (if hr_connect_timer s
      then streaming_timeout E ('' refinement could not connect within '' @ he_connect_seconds E @ '' s'') RetryNever
             (s\<lparr>hr_connect_timer := False\<rparr>)
      else Some s)"

definition k_waiting :: qstring where
  "k_waiting = '' refinement timed out waiting for a response''"

definition inactivity_timeout :: "'a streaming_scheme streaming_env \<Rightarrow> 'a streaming_scheme step" where
  "inactivity_timeout E s =
     (if hr_inactivity_timer s then streaming_timeout E k_waiting RetryAfterStall (s\<lparr>hr_inactivity_timer := False\<rparr>)
      else Some s)"

definition deadline_timeout :: "'a streaming_scheme streaming_env \<Rightarrow> 'a streaming_scheme step" where
  "deadline_timeout E s = (case hr_deadline_timer s of
     Some due \<Rightarrow> if due \<le> hr_time s then streaming_timeout E k_waiting RetryNever (s\<lparr>hr_deadline_timer := None\<rparr>)
       else Some s
   | None \<Rightarrow> Some s)"

text \<open>The completion queued first runs.\<close>

definition run_queued :: "'a streaming_scheme streaming_env \<Rightarrow> 'a streaming_scheme step" where
  "run_queued E s = (case hr_queued s of
     [] \<Rightarrow> Some s
   | (result, generation) # rest \<Rightarrow>
       (let s = s\<lparr>hr_queued := rest\<rparr>
        in if generation = hr_generation s then he_completed E result s else Some s))"

section \<open>Runs\<close>

text \<open>
  Commands of the owner and events of the network, in any order and from inside any
  signal, whose listeners take the next script of the run, down to the depth given.
  The log holds what was asked, posted and said.
\<close>

datatype streaming_act =
    StartRefining "bool \<Rightarrow> request" qstring
  | CancelRefining
  | ReplySent nat
  | ReplyReads nat qstring
  | ReplyFinished nat reply_end
  | ConnectTimeout
  | InactivityTimeout
  | DeadlineTimeout
  | QueuedRuns
  | NetworkChanges
  | TimePasses nat

datatype streaming_entry = Began | Stopped | Posted request | Said qstring | Ended "qstring option"

record streaming_run = streaming +
  hx_scripts :: "streaming_act list list"
  hx_log :: "streaming_entry list"

record streaming_world =
  hw_provider :: qstring
  hw_decode_event :: "qstring \<Rightarrow> qstring \<Rightarrow> stream_event"
  hw_decode_error :: "qstring \<Rightarrow> qstring \<Rightarrow> qstring"
  hw_deadline_ms :: int
  hw_connect_seconds :: qstring
  hw_http_status :: "nat \<Rightarrow> int"

definition says :: "streaming_run step \<Rightarrow> streaming_entry \<Rightarrow> streaming_run step" where
  "says react e s = react (s\<lparr>hx_log := hx_log s @ [e]\<rparr>)"

definition streaming_env_of :: "streaming_world \<Rightarrow> streaming_run step \<Rightarrow> streaming_run streaming_env" where
  "streaming_env_of W react = \<lparr>he_provider = hw_provider W, he_decode_event = hw_decode_event W,
     he_decode_error = hw_decode_error W, he_deadline_ms = hw_deadline_ms W,
     he_connect_seconds = hw_connect_seconds W, he_http_status = hw_http_status W,
     he_post = (\<lambda>n req s. s\<lparr>hx_log := hx_log s @ [Posted req]\<rparr>),
     he_delta = (\<lambda>words. says react (Said words)),
     he_completed = (\<lambda>words. says react (Ended (Some words))),
     he_failed = (\<lambda>f. says react (Ended None))\<rparr>"

definition streaming_act :: "streaming_run streaming_env \<Rightarrow> streaming_act \<Rightarrow> streaming_run step" where
  "streaming_act E a s = (case a of
     StartRefining build tier \<Rightarrow> Some (streaming_start E build tier (s\<lparr>hx_log := hx_log s @ [Began]\<rparr>))
   | CancelRefining \<Rightarrow> Some (streaming_cancel (s\<lparr>hx_log := hx_log s @ [Stopped]\<rparr>))
   | ReplySent n \<Rightarrow> Some (reply_sent n s)
   | ReplyReads n chunk \<Rightarrow> reply_reads E n chunk s
   | ReplyFinished n e \<Rightarrow> reply_finished E n e s
   | ConnectTimeout \<Rightarrow> connect_timeout E s
   | InactivityTimeout \<Rightarrow> inactivity_timeout E s
   | DeadlineTimeout \<Rightarrow> deadline_timeout E s
   | QueuedRuns \<Rightarrow> run_queued E s
   | NetworkChanges \<Rightarrow> Some (s\<lparr>hr_network_changed := True\<rparr>)
   | TimePasses ms \<Rightarrow> Some (s\<lparr>hr_time := hr_time s + int ms\<rparr>))"

fun streaming_acts :: "streaming_run streaming_env \<Rightarrow> streaming_act list \<Rightarrow> streaming_run step" where
  "streaming_acts E [] s = Some s"
| "streaming_acts E (a # as) s = do { s \<leftarrow> streaming_act E a s; streaming_acts E as s }"

primrec streaming_react :: "streaming_world \<Rightarrow> nat \<Rightarrow> streaming_run step" where
  "streaming_react W 0 s = Some s"
| "streaming_react W (Suc n) s = (case hx_scripts s of
     [] \<Rightarrow> Some s
   | script # scripts \<Rightarrow>
       streaming_acts (streaming_env_of W (streaming_react W n)) script (s\<lparr>hx_scripts := scripts\<rparr>))"

definition streaming_init :: "streaming_act list list \<Rightarrow> streaming_run" where
  "streaming_init scripts = \<lparr>hr_time = 0, hr_reply = None, hr_replies = 0, hr_fallback = None, hr_buffer = [],
     hr_accumulated = [], hr_generation = 0, hr_parsing = False, hr_latch = False, hr_network_changed = False,
     hr_tier = [], hr_unavailable = {}, hr_connect_timer = False, hr_inactivity_timer = False,
     hr_deadline_timer = None, hr_operation_deadline = 0, hr_queued = [], hx_scripts = scripts, hx_log = []\<rparr>"

section \<open>What a refinement promises\<close>

text \<open>
  The specification: nothing is said outside an operation; within one, the words
  said so far and the requests posted are counted, a second request comes only
  before any word, and the operation ends once, with just the words said or without.
\<close>

datatype operation = Resting | Running qstring nat

fun follows :: "operation \<Rightarrow> streaming_entry \<Rightarrow> operation option" where
  "follows _ Began = Some (Running [] 0)"
| "follows _ Stopped = Some Resting"
| "follows (Running t n) (Posted req) = (if t = [] \<and> n < 2 then Some (Running [] (Suc n)) else None)"
| "follows (Running t n) (Said words) = (if 0 < n then Some (Running (t @ words) n) else None)"
| "follows (Running t n) (Ended (Some words)) = (if 0 < n \<and> words = t \<and> t \<noteq> [] then Some Resting else None)"
| "follows (Running t n) (Ended None) = (if 0 < n then Some Resting else None)"
| "follows Resting _ = None"

definition operation_of :: "streaming_entry list \<Rightarrow> operation option" where
  "operation_of entries = fold (\<lambda>e op. op \<bind> (\<lambda>p. follows p e)) entries (Some Resting)"

lemma operation_of_snoc [simp]: "operation_of (entries @ [e]) = operation_of entries \<bind> (\<lambda>p. follows p e)"
  by (simp add: operation_of_def)

lemma operation_of_Nil [simp]: "operation_of [] = Some Resting"
  by (simp add: operation_of_def)

text \<open>
  What a refinement keeps between its signals: while a reply is current the words
  kept are the words said, and a request to fall back to is there only after one
  post; a completion queued in the current generation is the only thing left to say.
\<close>

definition streaming_ok :: "streaming_run \<Rightarrow> bool" where
  "streaming_ok s \<longleftrightarrow> (\<exists>op. operation_of (hx_log s) = Some op
     \<and> (\<forall>r. hr_reply s = Some r \<longrightarrow> (\<exists>n. op = Running (hr_accumulated s) n \<and> 0 < n
          \<and> (hr_fallback s \<noteq> None \<longrightarrow> n = 1)))
     \<and> (\<forall>w. (w, hr_generation s) \<in> set (hr_queued s) \<longrightarrow> hr_reply s = None \<and> (\<exists>n. op = Running w n \<and> 0 < n \<and> w \<noteq> []))
     \<and> (\<forall>(w, g) \<in> set (hr_queued s). g \<le> hr_generation s)
     \<and> distinct (map snd (hr_queued s)))"

text \<open>
  From one state to a later one: the reply stays while the generation does. A
  listener that takes no script leaves the state as it is.
\<close>

definition goes :: "streaming_run \<Rightarrow> streaming_run \<Rightarrow> bool" where
  "goes s s' \<longleftrightarrow> streaming_ok s' \<and> hr_generation s \<le> hr_generation s'
     \<and> (hr_generation s' = hr_generation s \<longrightarrow> hr_reply s' = hr_reply s)
     \<and> length (hx_scripts s') \<le> length (hx_scripts s)"

definition listens :: "streaming_run step \<Rightarrow> bool" where
  "listens react \<longleftrightarrow> (\<forall>s. streaming_ok s \<longrightarrow>
     ends (\<lambda>s'. goes s s' \<and> (s' = s \<or> length (hx_scripts s') < length (hx_scripts s))) (react s))"

lemma goes_trans: "goes s t \<Longrightarrow> goes t u \<Longrightarrow> goes s u"
  by (auto simp: goes_def)

lemma goes_refl: "streaming_ok s \<Longrightarrow> goes s s"
  by (simp add: goes_def)

lemma listens_goes: "listens react \<Longrightarrow> streaming_ok s \<Longrightarrow> ends (goes s) (react s)"
  by (auto simp: listens_def intro: ends_mono)

lemma goes_next:
  assumes "goes t u" "hr_generation t = hr_generation s" "hr_reply t = hr_reply s" "hx_scripts t = hx_scripts s"
  shows "goes s u"
  using assms by (simp add: goes_def)

lemma goes_past:
  assumes "goes t u" "hr_generation s < hr_generation t" "length (hx_scripts t) \<le> length (hx_scripts s)"
  shows "goes s u"
  using assms by (auto simp: goes_def)

text \<open>With a reply current: the operation runs, and no completion waits in this generation.\<close>

lemma running_op:
  assumes "streaming_ok s" "hr_reply s = Some r"
  obtains n where "operation_of (hx_log s) = Some (Running (hr_accumulated s) n)" "0 < n"
    "hr_fallback s \<noteq> None \<longrightarrow> n = 1" "\<forall>x\<in>set (hr_queued s). snd x < hr_generation s"
    "distinct (map snd (hr_queued s))"
proof -
  have "snd x < hr_generation s" if "x \<in> set (hr_queued s)" for x
  proof -
    have "snd x \<noteq> hr_generation s" "snd x \<le> hr_generation s"
      using assms that by (cases x; auto simp: streaming_ok_def)+
    thus ?thesis by simp
  qed
  thus ?thesis using assms that by (auto simp: streaming_ok_def)
qed

text \<open>A failure said, with no reply current.\<close>

lemma failed_ok:
  assumes "operation_of (hx_log s) = Some (Running t n)" "0 < n" "hr_reply s = None"
    "\<forall>x\<in>set (hr_queued s). snd x < hr_generation s" "distinct (map snd (hr_queued s))"
  shows "streaming_ok (s\<lparr>hx_log := hx_log s @ [Ended None]\<rparr>)"
  using assms by (fastforce simp: streaming_ok_def)

text \<open>A request posted in a new operation or in place of the first.\<close>

lemma posted_ok:
  assumes "operation_of (hx_log s) = Some (Running [] n)" "n < 2" "hr_fallback s \<noteq> None \<longrightarrow> n = 0"
    "\<forall>x\<in>set (hr_queued s). snd x < hr_generation s" "distinct (map snd (hr_queued s))"
  shows "streaming_ok (streaming_post (streaming_env_of W react) req s)
    \<and> hr_generation (streaming_post (streaming_env_of W react) req s) = hr_generation s
    \<and> hx_scripts (streaming_post (streaming_env_of W react) req s) = hx_scripts s"
  using assms by (fastforce simp: streaming_ok_def streaming_post_def streaming_env_of_def Let_def)

lemma fail_goes:
  assumes "listens react" "streaming_ok s" "hr_reply s = Some r"
  shows "ends (goes s) (streaming_fail (streaming_env_of W react) f retry s)"
proof -
  obtain n where n: "operation_of (hx_log s) = Some (Running (hr_accumulated s) n)" "0 < n"
      "hr_fallback s \<noteq> None \<longrightarrow> n = 1" "\<forall>x\<in>set (hr_queued s). snd x < hr_generation s"
      "distinct (map snd (hr_queued s))"
    by (rule running_op[OF assms(2,3)])
  define t where "t = snd (take_reply s)"
  have t: "hr_reply t = None" "hr_generation t = Suc (hr_generation s)" "hx_scripts t = hx_scripts s"
      "hx_log t = hx_log s" "hr_accumulated t = hr_accumulated s" "hr_fallback t = hr_fallback s"
      "hr_queued t = hr_queued s"
    by (simp_all add: t_def take_reply_def)
  have later: "\<forall>x\<in>set (hr_queued s). snd x < Suc (hr_generation s)" using n(4) by auto
  have failing: "ends (goes s) (he_failed (streaming_env_of W react) f' u)"
    if u: "u = t\<lparr>hr_fallback := None\<rparr>" for f' u
  proof -
    let ?v = "u\<lparr>hx_log := hx_log u @ [Ended None]\<rparr>"
    have "streaming_ok ?v"
      by (rule failed_ok[of _ "hr_accumulated s" n]) (use t n later u in simp_all)
    hence "ends (goes ?v) (he_failed (streaming_env_of W react) f' u)"
      using listens_goes[OF assms(1)] by (simp add: streaming_env_of_def says_def)
    moreover have "hr_generation s < hr_generation ?v" "length (hx_scripts ?v) \<le> length (hx_scripts s)"
      using t(2,3) by (simp_all add: u)
    ultimately show ?thesis by (blast intro: ends_mono goes_past)
  qed
  show ?thesis
  proof (cases "retry \<noteq> RetryNever \<and> hr_fallback s \<noteq> None \<and> hr_accumulated s = []")
    case True
    then obtain req where req: "hr_fallback s = Some req" by auto
    let ?u = "t\<lparr>hr_fallback := None, hr_latch := (retry = RetryAfterRejection)\<rparr>"
    have "streaming_ok (streaming_post (streaming_env_of W react) req ?u)
      \<and> hr_generation (streaming_post (streaming_env_of W react) req ?u) = hr_generation ?u
      \<and> hx_scripts (streaming_post (streaming_env_of W react) req ?u) = hx_scripts ?u"
      by (rule posted_ok[of _ 1]) (use True t n later in auto)
    hence "goes s (streaming_post (streaming_env_of W react) req ?u)"
      using t by (simp add: goes_def)
    thus ?thesis
      using True req t by (simp add: streaming_fail_def retry_at_standard_speed_def take_reply_def t_def Let_def)
  next
    case False
    hence "streaming_fail (streaming_env_of W react) f retry s
      = he_failed (streaming_env_of W react)
          (f\<lparr>pf_http_status := he_http_status (streaming_env_of W react) r\<rparr>) (t\<lparr>hr_fallback := None\<rparr>)"
      using assms(3) by (auto simp: streaming_fail_def retry_at_standard_speed_def take_reply_def t_def Let_def
          split: option.split)
    thus ?thesis using failing[OF refl] by simp
  qed
qed

text \<open>The completion of an answer with words waits in the generation that its reply's end began.\<close>

lemma complete_goes:
  assumes "listens react" "streaming_ok s" "hr_reply s = Some r"
  shows "ends (goes s) (streaming_complete (streaming_env_of W react) s)"
proof (cases "hr_accumulated s = []")
  case True
  thus ?thesis using fail_goes[OF assms] by (simp add: streaming_complete_def)
next
  case False
  obtain n where n: "operation_of (hx_log s) = Some (Running (hr_accumulated s) n)" "0 < n"
      "hr_fallback s \<noteq> None \<longrightarrow> n = 1" "\<forall>x\<in>set (hr_queued s). snd x < hr_generation s"
      "distinct (map snd (hr_queued s))"
    by (rule running_op[OF assms(2,3)])
  have "x < Suc (hr_generation s)" if "(w, x) \<in> set (hr_queued s)" for w x using n(4) that by fastforce
  moreover have "Suc (hr_generation s) \<notin> snd ` set (hr_queued s)" using n(4) by fastforce
  ultimately show ?thesis
    using False n by (auto simp: streaming_complete_def take_reply_def goes_def streaming_ok_def Let_def
        intro: less_imp_le)
qed

lemma buffered_ok [simp]:
  "streaming_ok (s\<lparr>hr_buffer := b\<rparr>) = streaming_ok s"
  "streaming_ok (s\<lparr>hr_parsing := p\<rparr>) = streaming_ok s"
  "streaming_ok (s\<lparr>hr_inactivity_timer := i\<rparr>) = streaming_ok s"
  "streaming_ok (s\<lparr>hr_connect_timer := c\<rparr>) = streaming_ok s"
  "streaming_ok (s\<lparr>hr_deadline_timer := d\<rparr>) = streaming_ok s"
  "streaming_ok (s\<lparr>hr_network_changed := e\<rparr>) = streaming_ok s"
  "streaming_ok (s\<lparr>hr_time := t\<rparr>) = streaming_ok s"
  "streaming_ok (s\<lparr>hx_scripts := sc\<rparr>) = streaming_ok s"
  by (simp_all add: streaming_ok_def)

text \<open>Words said: they are kept, and listeners may move the refinement on.\<close>

lemma delta_goes:
  assumes "listens react" "streaming_ok s" "hr_reply s = Some r"
  shows "ends (\<lambda>s'. goes s s' \<and> (length (hx_scripts s') < length (hx_scripts s) \<or> hr_buffer s' = hr_buffer s))
    (he_delta (streaming_env_of W react) words (s\<lparr>hr_inactivity_timer := True, hr_accumulated := hr_accumulated s @ words\<rparr>))"
proof -
  obtain n where n: "operation_of (hx_log s) = Some (Running (hr_accumulated s) n)" "0 < n"
      "hr_fallback s \<noteq> None \<longrightarrow> n = 1" "\<forall>x\<in>set (hr_queued s). snd x < hr_generation s"
      "distinct (map snd (hr_queued s))"
    by (rule running_op[OF assms(2,3)])
  let ?t = "s\<lparr>hr_inactivity_timer := True, hr_accumulated := hr_accumulated s @ words, hx_log := hx_log s @ [Said words]\<rparr>"
  have "streaming_ok ?t" using n assms(3) by (fastforce simp: streaming_ok_def)
  hence "ends (\<lambda>s'. goes ?t s' \<and> (s' = ?t \<or> length (hx_scripts s') < length (hx_scripts ?t))) (react ?t)"
    using assms(1) unfolding listens_def by blast
  hence "ends (\<lambda>s'. goes s s' \<and> (length (hx_scripts s') < length (hx_scripts s) \<or> hr_buffer s' = hr_buffer s)) (react ?t)"
    by (rule ends_mono) (auto intro: goes_next)
  thus ?thesis by (simp add: streaming_env_of_def says_def)
qed

lemma parse_goes:
  assumes "listens react" "streaming_ok s" "hr_reply s = Some r"
  shows "ends (goes s) (parse_frames (streaming_env_of W react) (hr_generation s) s)"
  using assms(2,3)
proof (induction "(length (hx_scripts s), length (hr_buffer s))" arbitrary: s
    rule: wf_induct_rule[OF wf_lex_prod[OF wf_less_than wf_less_than]])
  case 1
  let ?E = "streaming_env_of W react"
  show ?case
  proof (cases "take_sse_frame (hr_buffer s)")
    case None
    thus ?thesis by (subst parse_frames.simps) (simp add: goes_refl 1)
  next
    case (Some fr)
    obtain f rest where fr: "take_sse_frame (hr_buffer s) = Some (f, rest)" using Some by force
    have shorter: "length rest < length (hr_buffer s)" by (rule take_sse_frame_shorter[OF fr])
    let ?s = "s\<lparr>hr_buffer := rest\<rparr>"
    have ok: "streaming_ok ?s" "hr_reply ?s = Some r" using 1(2,3) by simp_all
    have onward: "ends (goes s) m" if "ends (goes ?s) m" for m
      using that by (rule ends_mono) (auto intro: goes_next)
    have on: "ends (goes s) (parse_frames ?E (hr_generation s) t)"
      if "goes s t" "hr_generation t = hr_generation s"
        "length (hx_scripts t) < length (hx_scripts s) \<or> length (hr_buffer t) < length (hr_buffer s)" for t
    proof -
      have "length (hx_scripts t) \<le> length (hx_scripts s)" "streaming_ok t" "hr_reply t = Some r"
        using that(1,2) 1(3) by (auto simp: goes_def)
      hence "ends (goes t) (parse_frames ?E (hr_generation t) t)"
        by (intro 1(1)) (use that(3) in auto)
      thus ?thesis using that(1,2) by (auto intro: ends_mono goes_trans)
    qed
    show ?thesis
    proof (cases "he_decode_event ?E (sse_name f) (sse_data f)")
      case IgnoreEvent
      thus ?thesis using on[of ?s] shorter 1(2,3)
        by (subst parse_frames.simps) (simp add: fr goes_def)
    next
      case ProgressEvent
      thus ?thesis using on[of "?s\<lparr>hr_inactivity_timer := True\<rparr>"] shorter 1(2,3)
        by (subst parse_frames.simps) (simp add: fr goes_def)
    next
      case (DeltaEvent words)
      have "ends (\<lambda>t. goes ?s t \<and> (length (hx_scripts t) < length (hx_scripts ?s) \<or> hr_buffer t = hr_buffer ?s))
          (he_delta ?E words (?s\<lparr>hr_inactivity_timer := True, hr_accumulated := hr_accumulated ?s @ words\<rparr>))"
        by (rule delta_goes[OF assms(1) ok])
      hence "ends (\<lambda>t. ends (goes s) (if hr_generation s \<noteq> hr_generation t then Some t
            else parse_frames ?E (hr_generation s) t))
          (he_delta ?E words (?s\<lparr>hr_inactivity_timer := True, hr_accumulated := hr_accumulated ?s @ words\<rparr>))"
        by (rule ends_mono) (use shorter goes_next[of ?s _ s] on in auto)
      thus ?thesis by (subst parse_frames.simps) (simp add: fr DeltaEvent)
    next
      case CompleteEvent
      thus ?thesis using onward[OF complete_goes[OF assms(1) ok]] by (subst parse_frames.simps) (simp add: fr)
    next
      case (RejectedEvent k words)
      thus ?thesis using onward[OF fail_goes[OF assms(1) ok]] by (subst parse_frames.simps) (simp add: fr)
    next
      case (FailedEvent k words)
      thus ?thesis using onward[OF fail_goes[OF assms(1) ok]] by (subst parse_frames.simps) (simp add: fr)
    qed
  qed
qed

text \<open>Of the queued completions none is of a later generation.\<close>

lemma queued_before: "streaming_ok s \<Longrightarrow> \<forall>x\<in>set (hr_queued s). snd x < Suc (hr_generation s)"
  by (fastforce simp: streaming_ok_def less_Suc_eq_le)

lemma queued_once: "streaming_ok s \<Longrightarrow> distinct (map snd (hr_queued s))"
  by (auto simp: streaming_ok_def)

lemma start_goes:
  assumes "streaming_ok s"
  shows "goes s (streaming_start (streaming_env_of W react) build tier (s\<lparr>hx_log := hx_log s @ [Began]\<rparr>))"
proof -
  obtain op where op: "operation_of (hx_log s) = Some op" using assms by (auto simp: streaming_ok_def)
  define t where "t = streaming_cancel (s\<lparr>hx_log := hx_log s @ [Began]\<rparr>)"
  define u where "u = t\<lparr>hr_operation_deadline := hr_time t + he_deadline_ms (streaming_env_of W react), hr_latch := False,
     hr_tier := tier, hr_fallback := (if tier \<noteq> [] \<and> tier \<notin> hr_unavailable t then Some (build False) else hr_fallback t)\<rparr>"
  have u: "operation_of (hx_log u) = Some (Running [] 0)" "hr_generation u = Suc (hr_generation s)"
      "hr_queued u = hr_queued s" "hx_scripts u = hx_scripts s"
    using op by (simp_all add: u_def t_def streaming_cancel_def take_reply_def)
  have "streaming_start (streaming_env_of W react) build tier (s\<lparr>hx_log := hx_log s @ [Began]\<rparr>)
    = streaming_post (streaming_env_of W react) (build (tier \<noteq> [] \<and> tier \<notin> hr_unavailable t)) u"
    by (simp add: streaming_start_def Let_def u_def flip: t_def)
  moreover have "streaming_ok (streaming_post (streaming_env_of W react) req u)
      \<and> hr_generation (streaming_post (streaming_env_of W react) req u) = hr_generation u
      \<and> hx_scripts (streaming_post (streaming_env_of W react) req u) = hx_scripts u" for req
    by (rule posted_ok[OF u(1)]) (use u queued_before[OF assms] queued_once[OF assms] in auto)
  ultimately show ?thesis using u by (simp add: goes_def)
qed

lemma cancel_goes:
  assumes "streaming_ok s"
  shows "goes s (streaming_cancel (s\<lparr>hx_log := hx_log s @ [Stopped]\<rparr>))"
  using assms queued_before[OF assms] unfolding streaming_cancel_def take_reply_def goes_def
  by (fastforce simp: streaming_ok_def)

lemma finished_goes:
  assumes "listens react" "streaming_ok s"
  shows "ends (goes s) (reply_finished (streaming_env_of W react) r e s)"
proof (cases "hr_reply s = Some r")
  case True
  have "reply_finished (streaming_env_of W react) r e s = streaming_fail (streaming_env_of W react) f RetryAfterRejection s" for f
    using True by (auto simp: reply_finished_def streaming_fail_def retry_at_standard_speed_def take_reply_def
        streaming_env_of_def says_def Let_def split: option.split)
  thus ?thesis using fail_goes[OF assms True] by metis
next
  case False
  thus ?thesis using assms(2) by (simp add: reply_finished_def goes_refl)
qed

lemma timeout_goes:
  assumes "listens react" "streaming_ok s"
  shows "ends (goes s) (streaming_timeout (streaming_env_of W react) m retry s)"
  using fail_goes[OF assms] assms(2) by (cases "hr_reply s") (simp_all add: streaming_timeout_def goes_refl)

lemma queued_goes:
  assumes "listens react" "streaming_ok s"
  shows "ends (goes s) (run_queued (streaming_env_of W react) s)"
proof (cases "hr_queued s")
  case Nil
  thus ?thesis using assms(2) by (simp add: run_queued_def goes_refl)
next
  case (Cons q rest)
  obtain w g where q: "q = (w, g)" by force
  show ?thesis
  proof (cases "g = hr_generation s")
    case True
    let ?t = "s\<lparr>hr_queued := rest, hx_log := hx_log s @ [Ended (Some w)]\<rparr>"
    have "streaming_ok ?t" using assms(2) Cons q True by (force simp: streaming_ok_def)
    hence "ends (goes ?t) (react ?t)" by (rule listens_goes[OF assms(1)])
    hence "ends (goes s) (react ?t)" by (rule ends_mono) (auto intro: goes_next)
    thus ?thesis using Cons q True by (simp add: run_queued_def streaming_env_of_def says_def)
  next
    case False
    have "streaming_ok (s\<lparr>hr_queued := rest\<rparr>)" using assms(2) Cons by (auto simp: streaming_ok_def)
    thus ?thesis using Cons q False by (simp add: run_queued_def goes_def)
  qed
qed

lemma reads_goes:
  assumes "listens react" "streaming_ok s"
  shows "ends (goes s) (reply_reads (streaming_env_of W react) r chunk s)"
proof (cases "hr_reply s = Some r")
  case True
  let ?t = "s\<lparr>hr_parsing := True, hr_buffer := hr_buffer s @ chunk\<rparr>"
  have "ends (goes ?t) (parse_frames (streaming_env_of W react) (hr_generation ?t) ?t)"
    by (rule parse_goes[OF assms(1), of _ r]) (use assms(2) True in simp_all)
  hence "ends (\<lambda>t. goes s (t\<lparr>hr_parsing := hr_parsing s\<rparr>)) (parse_frames (streaming_env_of W react) (hr_generation s) ?t)"
    by (auto intro: ends_mono simp: goes_def)
  thus ?thesis using True by (simp add: reply_reads_def parse_chunk_def Let_def)
qed (use assms(2) in \<open>simp add: reply_reads_def goes_refl\<close>)

lemma act_goes:
  assumes "listens react" "streaming_ok s"
  shows "ends (goes s) (streaming_act (streaming_env_of W react) a s)"
proof -
  have t: "ends (goes s) (streaming_timeout (streaming_env_of W react) m retry t)"
    if "streaming_ok t" "hr_generation t = hr_generation s" "hr_reply t = hr_reply s" "hx_scripts t = hx_scripts s" for t m retry
    using timeout_goes[OF assms(1) that(1)] by (rule ends_mono) (rule goes_next[OF _ that(2-4)])
  show ?thesis
    using assms start_goes[OF assms(2)] cancel_goes[OF assms(2)] t
    by (cases a) (auto simp: streaming_act_def finished_goes reads_goes queued_goes connect_timeout_def
        inactivity_timeout_def deadline_timeout_def reply_sent_def goes_refl goes_def[of s] split: option.split)
qed

lemma acts_go:
  assumes "listens react"
  shows "streaming_ok s \<Longrightarrow> ends (goes s) (streaming_acts (streaming_env_of W react) acts s)"
proof (induction acts arbitrary: s)
  case (Cons a as)
  have "ends (\<lambda>t. ends (goes s) (streaming_acts (streaming_env_of W react) as t))
      (streaming_act (streaming_env_of W react) a s)"
  proof (rule ends_mono[OF act_goes[OF assms Cons.prems]])
    fix t assume t: "goes s t"
    hence "streaming_ok t" by (simp add: goes_def)
    thus "ends (goes s) (streaming_acts (streaming_env_of W react) as t)"
      by (rule ends_mono[OF Cons.IH]) (rule goes_trans[OF t])
  qed
  thus ?case by simp
qed (simp add: goes_refl)

lemma react_listens: "listens (streaming_react W n)"
proof (induction n)
  case 0
  thus ?case by (simp add: listens_def goes_refl)
next
  case (Suc n)
  have "ends (\<lambda>s'. goes s s' \<and> (s' = s \<or> length (hx_scripts s') < length (hx_scripts s))) (streaming_react W (Suc n) s)"
    if "streaming_ok s" for s
  proof (cases "hx_scripts s")
    case Nil
    thus ?thesis using that by (simp add: goes_refl)
  next
    case (Cons script scripts)
    have "ends (goes (s\<lparr>hx_scripts := scripts\<rparr>)) (streaming_acts (streaming_env_of W (streaming_react W n)) script (s\<lparr>hx_scripts := scripts\<rparr>))"
      by (rule acts_go[OF Suc]) (use that in simp)
    thus ?thesis using Cons by (auto intro: ends_mono simp: goes_def)
  qed
  thus ?case by (simp add: listens_def)
qed

section \<open>Properties\<close>

text \<open>
  C17. A streamed refinement keeps its promise whatever the network, its timers and
  its listeners do: every act returns; nothing is said outside an operation or after
  its end or its cancelling; the words completed are just the words streamed in the
  operation, none twice and none of another; and a request is posted again at
  standard speed at most once, never after a word was streamed.
\<close>

theorem refinement_says_what_it_streamed:
  "\<exists>s op. streaming_acts (streaming_env_of W (streaming_react W n)) acts (streaming_init scripts) = Some s
     \<and> operation_of (hx_log s) = Some op"
proof -
  have "streaming_ok (streaming_init scripts)" by (simp add: streaming_ok_def streaming_init_def)
  hence "ends (goes (streaming_init scripts)) (streaming_acts (streaming_env_of W (streaming_react W n)) acts (streaming_init scripts))"
    by (rule acts_go[OF react_listens])
  thus ?thesis by (auto simp: ends_def goes_def streaming_ok_def)
qed

end
