(* ===== verification/Spec2Isabelle.thy ===== *)
theory Spec2Isabelle
  imports Stream_Runs Session_Cancelled Delivery_Queue Shortcut_Gesture Silence_Gate Streaming_Refinement
begin

text \<open>
  Speecher turns speech into text: a microphone's audio goes to a speech provider,
  chosen from a chain of fallbacks, the words come back as a transcript, a person's
  rules and a refiner rework it, and the text is pasted into the app that has the
  focus, or replaces the selection there after a review. This development models the
  C++ under src/src that decides all of this; services, systems and Qt are its
  parameters.

  \<^bold>\<open>The parts and the theories\<close>

  Prelude holds the collections the proofs draw on and the generic lemmas; QtText
  what of QString is called, over a record \<open>qchars\<close> of Qt's character functions.

  Providers (core/ProviderTable.cpp, ProviderChain.cpp, ProviderFailure.h,
  ProviderAttemptIssueText.cpp): the table of providers, the chain that serves a
  role, what went wrong and the sentences that tell it. Settings (core/AppSettings.h),
  Languages (core/LocalModelCatalog.cpp, core/settings/SpokenLanguages.cpp), Readiness
  (core/EndpointUrl.h, EndpointSettings.cpp, ProviderReadiness.cpp, and the keys of
  core/SecretStore.cpp and SettingsStore.cpp) and Preparation
  (providers/PreparationRunner.cpp) are what a provider needs before it runs.

  Transcript (core/TranscriptState.cpp) keeps the words. Speech_Chain
  (providers/SpeechChain.cpp) walks over the speech providers, Speech_Attempts
  (SpeechAttempts.cpp) opens an attempt on the current one and says which of its
  signals count, Speech_Stream (SpeechStream.cpp) sends a recorded input through
  attempts, and Dictation_Speech (dictation/DictationSpeech.cpp) holds and sends a
  dictation's audio across attempts, pauses and fallbacks.

  Bindings, Binding_Rules and Binding_Matches (core/bindings/, core/BindingProcessor.cpp):
  the phrases bound to texts. Targets (core/Target.cpp): the app and its Writing
  Profile. Vocabulary_Limit and Vocabulary (core/VocabularyLimit.cpp, Vocabulary.cpp),
  Learned_Corrections (core/LearnedCorrection.cpp), Paste_Rules (core/PasteRules.cpp):
  the lists a person keeps. List_Edits, Vocabulary_Edits and Profile_Edits
  (core/SettingsEdit.h, VocabularyEdits.cpp, WritingProfileEdits.cpp): the edits of
  those lists with their undos.

  Pipeline (dictation/TranscriptPipeline.cpp, core/WritingProfileProviders.cpp): what a
  session runs with once its target is known, what refinement is given and what comes
  back. Refinement_Chain (providers/RefinementChain.cpp): the walk over the refiners.
  Selection_Edit (dictation/SelectionEditPresentation.cpp) and Edit_Review
  (dictation/EditReview.cpp): a selection edit as it is reviewed. Popup
  (dictation/DictationTypes.cpp, PopupPresentation.cpp, core/OutputFormat.cpp,
  dictation/DictationPorts.cpp): how a session names its states and its end and what
  it hands over. Dictation_Session (dictation/DictationSession.cpp) puts them
  together, from a toggle to the delivery. Text_Delivery (output/TextDelivery.cpp,
  core/OutputMethod.cpp) carries a delivery out, Delivery_Runs and Delivery_Queue
  show what it keeps to.

  Around the engine: Shortcut_Gesture (app/ShortcutGesture.cpp) makes commands of the
  shortcut's presses, Silence_Gate (platform/audio/SilenceGate.cpp) drops the silence
  of a capture, Server_Events (providers/ServerSentEvents.h,
  ProviderFailureClassification.cpp, PcmWav.h) reads what a connection delivers, and
  Streaming_Refinement (providers/StreamingRefinement.cpp) streams one refinement.

  \<^bold>\<open>State and calls\<close>

  A class is a record with the members' names, an operation a definition with the
  operation's. The objects that own one another share one state: the record of a
  transcript is extended by the chain, the attempts, the stream or the dictation, and
  the session, as the C++ members of one are reached from the handlers of the other.
  A call that leaves a component (a signal, a call through an interface) is a function
  of that whole state, so its handler may call the component again, and the code that
  follows goes on from what it left, as it does in C++. None stands for what C++ leaves
  undefined, a null pointer or an unset optional read, and for a walk that never ends;
  so a property that ends in Some says that neither occurs.

  A session's calls are the values of \<open>session_call\<close>; \<open>session_command\<close> is what a
  person asks of it and \<open>session_event\<close> what reaches it from the microphone, the
  platform, its refiner, worker threads, deliveries and timers.

  \<^bold>\<open>Interfaces\<close>

  The locales \<open>chain_handlers\<close>, \<open>attempts_handlers\<close>, \<open>stream_handlers\<close> and
  \<open>dict_handlers\<close> state what the owner of a chain, of attempts, of a stream and of a
  dictation's speech keeps in its handlers, and give what every operation then keeps;
  each is a sublocale of the one below it. \<open>walk_listeners\<close> and \<open>refinement_listeners\<close>
  state what a walk over providers asks of its listeners so that it ends.
  \<open>session_surroundings\<close> is the contract between a session and all that surrounds it:
  each call, with what it may lead to, keeps the session sound. It is a sublocale of
  \<open>refinement_listeners\<close>. \<open>edited_list\<close>, \<open>profile_choice\<close> and \<open>rule_book\<close> are the
  contracts the lists share. \<open>answers_in_order\<close> is what a session counts its answered
  deliveries by, interpreted on the deliveries. Every one is interpreted on the model: those of the
  engine on its runs.

  \<^bold>\<open>Runs\<close>

  Dictation_Runs, Stream_Runs, Session_Runs and Streaming_Refinement run a component in a world: commands,
  signals, finished threads and timers in any order, and, from inside any call, a
  script of further acts, to any depth \<open>n\<close> of calls inside calls. Every theorem on runs
  holds for every list of acts, every list of scripts and every \<open>n\<close>, so the depth is
  no bound on what is shown: each finite behaviour has one. In a run of a session a
  script leads only to what the interface says it may (\<open>may_lead_to\<close>): what
  the application hears commands the session; the speech, called, says what it may in
  its phase; a refiner may send inside refine() and cancel(); the platform may answer
  inside its question; the ports that promise to be silent are.

  \<^bold>\<open>What the lemmas show\<close>

  Session_Safety, Session_Steps, Session_Review, Session_Commands, Session_Starts and
  Session_Contract prove of every operation of a session that it keeps the invariant
  \<open>session_ok\<close> and does to what the caller still relies on no more than its kind of
  step may; Session_Properties ties the knot by induction on the depth. From it, in
  Session_Cancelled: every run returns, in a state that agrees with its settings,
  microphone, speech and review; words go out once; a cancelled session delivers
  nothing; a failed follow-up keeps the edit.

  The engine below: audio is sent once and in order, sending what is held loses none of it, retired
  attempts and preparations never count, a stream sends the bytes of its input, the
  walks end at a provider that can run or exhausted, and an attempt's whole transcript
  replaces just what the attempt sent. The texts: longest matches win, placeholders
  round trip, vocabularies stay normal and within the caps of a request, a withheld
  term is never sent, an edit teaches one replacement, and the comparison of a
  selection edit is a longest common subsequence, for which the table's 16-bit words
  suffice: the limit of four million cells keeps the shorter side below 65536. The
  lists: edits and late undos keep them sound and put everything back; a key stays
  with its server, but for one edit that is shown. A delivery: \<open>may_do\<close> says of each of its deeds when it may happen, and
  every run keeps to it, so answers are true, keystrokes reach only the target, a
  secure field is left alone and the borrowed clipboard goes back only once the words
  show; deliveries form a queue with one worker, and each ends after at most eleven
  answers, three methods with two calls each among them. The error properties prove behaviours of the code a reader would
  not expect.

  \<^bold>\<open>Parameters\<close>

  Qt's characters, case folding and word boundaries (\<open>qchars\<close>, \<open>shape\<close>), QUrl,
  QLocale, QJsonDocument, UTF-8, random ids, the date and the time are arguments. A
  glyph outside ASCII is a field of \<open>glyphs\<close>. Sizes and positions are natural numbers,
  durations and counters integers or natural numbers; generations, steps, attempt ids
  and revisions are 64-bit counters in the code and never wrap in a run of any
  length that occurs.
  QRegularExpressions are written as scanners. Doubles are rationals where only
  compared and parameters where computed with. Logging is left out.

  \<^bold>\<open>Not modelled\<close>

  The clients of the services (WebSockets, HTTP, prompts, local inference), sign-ins
  and stored credentials, the clipboards and virtual keyboards, the platform's accessibility,
  audio, media and hot keys, the settings file, the command line, IPC, tray, updates,
  setup helpers and the Quick front end: what they do is decided by a service or a
  system, and the engine meets them through the interfaces above, as arguments that
  may answer anything at any time. Transcribe and recordings are further clients of
  attempts and streams and are not modelled. Of AppSettings the members no modelled
  operation reads are left out, as are the memory estimates of the Local Models, which
  compute in doubles.
\<close>

end
